(* ===== verification/Prelude.thy ===== *)
theory Prelude
  imports Main "HOL-Library.Sublist"
begin

text \<open>
  Shared vocabulary of the development: the parts of Rust's core and standard library that the
  modelled code uses (\<open>Result\<close>, \<open>str\<close>, \<open>slice\<close>, \<open>Vec\<close>), and generic facts about them.

  \<^item> A Rust \<open>char\<close> is a Unicode scalar value and is modelled by its code point, a natural number.
    A \<open>String\<close> or \<open>&str\<close> is the list of its chars. ASCII literals are written
    \<open>lit ''...''\<close>.
  \<^item> \<open>Result<T, E>\<close> is the datatype \<open>('a, 'e) result\<close> with Rust's own constructors.
  \<^item> A computation that may panic has an \<open>option\<close> type whose \<open>None\<close> is the panic.
  \<^item> The collections \<open>rust_str\<close> (string functions) and \<open>rust_vec\<close> (vector functions) hold the
    rewrite rules the component theories use.
\<close>

named_theorems rust_str
named_theorems rust_vec

section \<open>Results\<close>

datatype ('a, 'e) result = Ok 'a | Err 'e

fun is_ok :: "('a, 'e) result \<Rightarrow> bool" where
  "is_ok (Ok _) = True"
| "is_ok (Err _) = False"

text \<open>The \<open>?\<close> operator: continue with the value, or return the error.\<close>

fun bind_result :: "('a, 'e) result \<Rightarrow> ('a \<Rightarrow> ('b, 'e) result) \<Rightarrow> ('b, 'e) result" where
  "bind_result (Ok x) f = f x"
| "bind_result (Err e) f = Err e"

fun map_err :: "('e \<Rightarrow> 'f) \<Rightarrow> ('a, 'e) result \<Rightarrow> ('a, 'f) result" where
  "map_err f (Ok x) = Ok x"
| "map_err f (Err e) = Err (f e)"

lemma bind_result_Ok_iff [simp]:
  "bind_result r f = Ok y \<longleftrightarrow> (\<exists>x. r = Ok x \<and> f x = Ok y)"
  by (cases r) auto

lemma bind_result_Err_iff:
  "bind_result r f = Err e \<longleftrightarrow> r = Err e \<or> (\<exists>x. r = Ok x \<and> f x = Err e)"
  by (cases r) auto

lemma map_err_Ok_iff [simp]: "map_err f r = Ok x \<longleftrightarrow> r = Ok x"
  by (cases r) auto

lemma bind_result_Ok_id: "bind_result r Ok = r"
  by (cases r) auto

lemma bind_result_assoc: "bind_result (bind_result r f) g = bind_result r (\<lambda>x. bind_result (f x) g)"
  by (cases r) auto

lemma bind_result_cong [fundef_cong]:
  "r = r' \<Longrightarrow> (\<And>x. r' = Ok x \<Longrightarrow> f x = g x) \<Longrightarrow> bind_result r f = bind_result r' g"
  by (cases r') auto

section \<open>Characters and strings\<close>

type_synonym rchar = nat
type_synonym rstr = "rchar list"

definition lit :: "string \<Rightarrow> rstr" where
  "lit s = map of_char s"

abbreviation LF :: rchar where "LF \<equiv> 10"
abbreviation CR :: rchar where "CR \<equiv> 13"

text \<open>\<open>'{s}'\<close> inside a format string: the value between single quotes.\<close>

definition squoted :: "rstr \<Rightarrow> rstr" where
  "squoted s = 39 # s @ [39]"

text \<open>\<open>char::is_whitespace\<close>: the Unicode property White\_Space.\<close>

definition is_whitespace :: "rchar \<Rightarrow> bool" where
  "is_whitespace c \<longleftrightarrow>
     (9 \<le> c \<and> c \<le> 13) \<or> c = 0x20 \<or> c = 0x85 \<or> c = 0xA0 \<or> c = 0x1680 \<or>
     (0x2000 \<le> c \<and> c \<le> 0x200A) \<or> c = 0x2028 \<or> c = 0x2029 \<or> c = 0x202F \<or>
     c = 0x205F \<or> c = 0x3000"

definition is_ascii_digit :: "rchar \<Rightarrow> bool" where
  "is_ascii_digit c \<longleftrightarrow> 48 \<le> c \<and> c \<le> 57"

definition ascii_lower :: "rchar \<Rightarrow> rchar" where
  "ascii_lower c = (if 65 \<le> c \<and> c \<le> 90 then c + 32 else c)"

definition to_ascii_lowercase :: "rstr \<Rightarrow> rstr" where
  "to_ascii_lowercase s = map ascii_lower s"

definition eq_ignore_ascii_case :: "rstr \<Rightarrow> rstr \<Rightarrow> bool" where
  "eq_ignore_ascii_case a b \<longleftrightarrow> to_ascii_lowercase a = to_ascii_lowercase b"

definition is_ascii_alphabetic :: "rchar \<Rightarrow> bool" where
  "is_ascii_alphabetic c \<longleftrightarrow> 65 \<le> c \<and> c \<le> 90 \<or> 97 \<le> c \<and> c \<le> 122"

definition trim_start :: "rstr \<Rightarrow> rstr" where
  "trim_start s = dropWhile is_whitespace s"

definition trim_end_matches :: "(rchar \<Rightarrow> bool) \<Rightarrow> rstr \<Rightarrow> rstr" where
  "trim_end_matches p s = rev (dropWhile p (rev s))"

definition trim_matches :: "(rchar \<Rightarrow> bool) \<Rightarrow> rstr \<Rightarrow> rstr" where
  "trim_matches p s = trim_end_matches p (dropWhile p s)"

definition trim_end :: "rstr \<Rightarrow> rstr" where
  "trim_end s = trim_end_matches is_whitespace s"

definition trim :: "rstr \<Rightarrow> rstr" where
  "trim s = trim_end (trim_start s)"

fun strip_prefix :: "'a list \<Rightarrow> 'a list \<Rightarrow> 'a list option" where
  "strip_prefix [] s = Some s"
| "strip_prefix (p # ps) [] = None"
| "strip_prefix (p # ps) (c # cs) = (if p = c then strip_prefix ps cs else None)"

definition strip_suffix :: "'a list \<Rightarrow> 'a list \<Rightarrow> 'a list option" where
  "strip_suffix x s = map_option rev (strip_prefix (rev x) (rev s))"

definition starts_with :: "'a list \<Rightarrow> 'a list \<Rightarrow> bool" where
  "starts_with s p \<longleftrightarrow> strip_prefix p s \<noteq> None"

definition ends_with :: "'a list \<Rightarrow> 'a list \<Rightarrow> bool" where
  "ends_with s x \<longleftrightarrow> strip_suffix x s \<noteq> None"

text \<open>\<open>str::split\<close> on one char: always at least one piece.\<close>

fun split_char :: "'a \<Rightarrow> 'a list \<Rightarrow> 'a list list" where
  "split_char c [] = [[]]"
| "split_char c (x # xs) =
     (if x = c then [] # split_char c xs
      else (case split_char c xs of [] \<Rightarrow> [[x]] | l # ls \<Rightarrow> (x # l) # ls))"

text \<open>\<open>split\<close> on a predicate, of strings and of slices; the last piece is what \<open>rsplit\<close> gives first.\<close>

fun split_on :: "('a \<Rightarrow> bool) \<Rightarrow> 'a list \<Rightarrow> 'a list list" where
  "split_on P [] = [[]]"
| "split_on P (x # xs) =
     (if P x then [] # split_on P xs
      else (case split_on P xs of [] \<Rightarrow> [[x]] | l # ls \<Rightarrow> (x # l) # ls))"

definition last_piece :: "('a \<Rightarrow> bool) \<Rightarrow> 'a list \<Rightarrow> 'a list" where
  "last_piece p s = rev (takeWhile (\<lambda>c. \<not> p c) (rev s))"

text \<open>\<open>str::split_once\<close> and \<open>str::rsplit_once\<close> on one char.\<close>

definition split_once :: "'a \<Rightarrow> 'a list \<Rightarrow> ('a list \<times> 'a list) option" where
  "split_once c s =
     (if c \<in> set s then Some (takeWhile (\<lambda>x. x \<noteq> c) s, tl (dropWhile (\<lambda>x. x \<noteq> c) s)) else None)"

definition rsplit_once :: "'a \<Rightarrow> 'a list \<Rightarrow> ('a list \<times> 'a list) option" where
  "rsplit_once c s =
     (if c \<in> set s
      then Some (rev (tl (dropWhile (\<lambda>x. x \<noteq> c) (rev s))), rev (takeWhile (\<lambda>x. x \<noteq> c) (rev s)))
      else None)"

text \<open>\<open>Iterator::find_map\<close>.\<close>

fun find_map :: "('a \<Rightarrow> 'b option) \<Rightarrow> 'a list \<Rightarrow> 'b option" where
  "find_map f [] = None"
| "find_map f (x # xs) = (case f x of Some y \<Rightarrow> Some y | None \<Rightarrow> find_map f xs)"

lemma find_map_cong [fundef_cong]:
  "xs = ys \<Longrightarrow> (\<And>x. x \<in> set ys \<Longrightarrow> f x = g x) \<Longrightarrow> find_map f xs = find_map g ys"
  by (induction xs arbitrary: ys) (auto split: option.splits)

lemma find_map_None_iff: "find_map f xs = None \<longleftrightarrow> (\<forall>x \<in> set xs. f x = None)"
  by (induction xs) (auto split: option.splits)

lemma find_map_SomeD: "find_map f xs = Some y \<Longrightarrow> \<exists>x \<in> set xs. f x = Some y"
  by (induction xs) (auto split: option.splits)

text \<open>\<open>[String]::join\<close>.\<close>

fun join :: "'a list \<Rightarrow> 'a list list \<Rightarrow> 'a list" where
  "join sep [] = []"
| "join sep [x] = x"
| "join sep (x # y # ys) = x @ sep @ join sep (y # ys)"

definition strip_cr :: "rstr \<Rightarrow> rstr" where
  "strip_cr l = (case strip_suffix [CR] l of None \<Rightarrow> l | Some l' \<Rightarrow> l')"

text \<open>
  \<open>str::lines\<close>: split after every line feed, drop that line feed and a carriage return right
  before it. A last piece that no line feed ends is kept as it is, and dropped when it is empty.
\<close>

definition lines :: "rstr \<Rightarrow> rstr list" where
  "lines s = (let ps = split_char LF s in
     map strip_cr (butlast ps) @ (if last ps = [] then [] else [last ps]))"

section \<open>Vectors\<close>

definition last_opt :: "'a list \<Rightarrow> 'a option" where
  "last_opt xs = (if xs = [] then None else Some (last xs))"

text \<open>\<open>Vec::insert\<close> panics when the index is past the end; \<open>Vec::remove\<close> when it is not inside.\<close>

definition vec_insert :: "nat \<Rightarrow> 'a \<Rightarrow> 'a list \<Rightarrow> 'a list option" where
  "vec_insert i x xs = (if i \<le> length xs then Some (take i xs @ x # drop i xs) else None)"

definition vec_remove :: "nat \<Rightarrow> 'a list \<Rightarrow> 'a list option" where
  "vec_remove i xs = (if i < length xs then Some (take i xs @ drop (Suc i) xs) else None)"

text \<open>\<open>&xs[a..b]\<close> panics unless \<open>a \<le> b \<le> len\<close>.\<close>

definition slice_range :: "nat \<Rightarrow> nat \<Rightarrow> 'a list \<Rightarrow> 'a list option" where
  "slice_range a b xs = (if a \<le> b \<and> b \<le> length xs then Some (drop a (take b xs)) else None)"

text \<open>\<open>usize\<close> subtraction without a saturating or wrapping variant panics below zero.\<close>

definition usize_sub :: "nat \<Rightarrow> nat \<Rightarrow> nat option" where
  "usize_sub a b = (if b \<le> a then Some (a - b) else None)"

text \<open>Unfolding these evaluates string functions on literals.\<close>

lemmas str_eval = lit_def trim_def trim_start_def trim_end_def trim_end_matches_def is_whitespace_def
  strip_cr_def strip_suffix_def squoted_def

section \<open>Facts about strings\<close>

lemma trim_start_idem [simp]: "trim_start (trim_start s) = trim_start s"
  by (simp add: trim_start_def)

lemma trim_end_matches_idem [simp]:
  "trim_end_matches p (trim_end_matches p s) = trim_end_matches p s"
  by (simp add: trim_end_matches_def)

lemma trim_end_idem [simp]: "trim_end (trim_end s) = trim_end s"
  by (simp add: trim_end_def)

lemma trim_end_append_ws:
  "\<forall>c \<in> set w. is_whitespace c \<Longrightarrow> trim_end (s @ w) = trim_end s"
  using dropWhile_append2[of "rev w" is_whitespace "rev s"]
  by (simp add: trim_end_def trim_end_matches_def)

lemma trim_end_decomp: "\<exists>w. s = trim_end s @ w \<and> (\<forall>c \<in> set w. is_whitespace c)"
proof -
  have "s = trim_end s @ rev (takeWhile is_whitespace (rev s))"
    by (metis rev_append rev_rev_ident takeWhile_dropWhile_id trim_end_def trim_end_matches_def)
  then show ?thesis
    using set_takeWhileD by fastforce
qed

lemma trim_start_append_cases:
  "trim_start (s @ w) = (if \<forall>c \<in> set s. is_whitespace c then trim_start w else trim_start s @ w)"
  by (simp add: trim_start_def dropWhile_append)

lemma trim_trim_end [simp]: "trim (trim_end s) = trim s"
proof -
  obtain w where w: "s = trim_end s @ w" "\<forall>c \<in> set w. is_whitespace c"
    using trim_end_decomp by blast
  have "trim s = trim (trim_end s @ w)"
    using w(1) by simp
  also have "\<dots> = trim (trim_end s)"
  proof (cases "\<forall>c \<in> set (trim_end s). is_whitespace c")
    case True
    then have "trim_start (trim_end s @ w) = []" "trim_start (trim_end s) = []"
      using w(2) by (simp_all add: trim_start_def)
    then show ?thesis by (simp add: trim_def)
  next
    case False
    then have "trim_start (trim_end s @ w) = trim_start (trim_end s) @ w"
      by (auto simp: trim_start_append_cases)
    then show ?thesis
      using w(2) by (simp add: trim_def trim_end_append_ws)
  qed
  finally show ?thesis by simp
qed

lemma trim_idem [simp]: "trim (trim s) = trim s"
proof -
  have "trim_start (trim s) = trim s"
  proof (cases "trim_start s = []")
    case True
    then have "trim s = []"
      by (simp add: trim_def trim_end_def trim_end_matches_def)
    then show ?thesis by (simp add: trim_start_def)
  next
    case False
    then obtain c r where c: "trim_start s = c # r" "\<not> is_whitespace c"
      by (metis dropWhile_eq_Cons_conv neq_Nil_conv trim_start_def)
    obtain w where w: "c # r = trim_end (c # r) @ w" "\<forall>x \<in> set w. is_whitespace x"
      using trim_end_decomp by blast
    have "trim_end (c # r) \<noteq> []"
      using w c(2) by (metis append_Nil list.set_intros(1))
    then have "hd (trim_end (c # r)) = c"
      using w(1) by (metis hd_append2 list.sel(1))
    with c \<open>trim_end (c # r) \<noteq> []\<close> show ?thesis
      by (cases "trim_end (c # r)") (auto simp: trim_def trim_start_def)
  qed
  then show ?thesis
    by (metis trim_def trim_end_idem)
qed

lemma strip_prefix_Some_iff [rust_str]: "strip_prefix p s = Some r \<longleftrightarrow> s = p @ r"
  by (induction p s rule: strip_prefix.induct) auto

lemma strip_prefix_append [simp]: "strip_prefix p (p @ r) = Some r"
  by (simp add: strip_prefix_Some_iff)

lemma strip_prefix_None_iff: "strip_prefix p s = None \<longleftrightarrow> \<not> prefix p s"
  by (metis not_None_eq prefix_def strip_prefix_Some_iff)

lemma starts_with_iff_prefix [rust_str]: "starts_with s p \<longleftrightarrow> prefix p s"
  by (simp add: starts_with_def strip_prefix_None_iff)

lemma strip_suffix_Some_iff [rust_str]: "strip_suffix x s = Some r \<longleftrightarrow> s = r @ x"
proof -
  have "strip_suffix x s = Some r \<longleftrightarrow> strip_prefix (rev x) (rev s) = Some (rev r)"
    by (auto simp: strip_suffix_def)
  also have "\<dots> \<longleftrightarrow> s = r @ x"
    by (metis rev_append rev_rev_ident strip_prefix_Some_iff)
  finally show ?thesis .
qed

lemma strip_suffix_None_iff: "strip_suffix x s = None \<longleftrightarrow> \<not> suffix x s"
  by (metis not_None_eq suffix_def strip_suffix_Some_iff)

lemma ends_with_iff_suffix [rust_str]: "ends_with s x \<longleftrightarrow> suffix x s"
  by (simp add: ends_with_def strip_suffix_None_iff)

lemma split_char_nonempty [simp]: "split_char c s \<noteq> []"
  by (induction s) (auto split: list.splits)

lemma split_char_Cons_neq:
  "x \<noteq> c \<Longrightarrow> split_char c (x # xs) = (x # hd (split_char c xs)) # tl (split_char c xs)"
  by (simp split: list.splits)

lemma join_split_char [simp]: "join [c] (split_char c s) = s"
proof (induction s)
  case Nil
  show ?case by simp
next
  case (Cons x xs)
  obtain l ls where ls: "split_char c xs = l # ls"
    using split_char_nonempty by (meson list.exhaust)
  show ?case
    using Cons ls by (cases ls) (auto simp: split_char_Cons_neq)
qed

lemma split_char_no_sep: "c \<notin> set s \<Longrightarrow> split_char c s = [s]"
  by (induction s) auto

lemma split_char_pieces_no_sep: "p \<in> set (split_char c s) \<Longrightarrow> c \<notin> set p"
  by (induction s arbitrary: p) (auto split: list.splits if_splits)

lemma split_char_append:
  "c \<notin> set l \<Longrightarrow> split_char c (l @ c # s) = l # split_char c s"
  by (induction l) (auto split: list.splits)

lemma split_char_join:
  "xs \<noteq> [] \<Longrightarrow> \<forall>x \<in> set xs. c \<notin> set x \<Longrightarrow> split_char c (join [c] xs) = xs"
  by (induction "[c]" xs rule: join.induct)
    (auto simp: split_char_no_sep split_char_append)

lemma set_trim: "set (trim s) \<subseteq> set s"
  by (auto simp: trim_def trim_end_def trim_end_matches_def trim_start_def dest!: set_dropWhileD)

lemma join_snoc: "xs \<noteq> [] \<Longrightarrow> join sep (xs @ [x]) = join sep xs @ sep @ x"
  by (induction sep xs rule: join.induct) auto

lemma strip_cr_no_cr: "CR \<notin> set l \<Longrightarrow> strip_cr l = l"
  by (auto simp: strip_cr_def strip_suffix_Some_iff split: option.splits)

lemma lines_join:
  assumes "xs \<noteq> []" and "last xs \<noteq> []" and "\<forall>x \<in> set xs. LF \<notin> set x \<and> CR \<notin> set x"
  shows "lines (join [LF] xs) = xs"
proof -
  have "split_char LF (join [LF] xs) = xs"
    using assms by (auto intro: split_char_join)
  moreover have "map strip_cr (butlast xs) = butlast xs"
    using assms(3) by (auto intro!: map_idI strip_cr_no_cr dest: in_set_butlastD)
  ultimately show ?thesis
    using assms by (simp add: lines_def)
qed

lemma lines_append_lf:
  assumes "l \<noteq> []" and "LF \<notin> set l"
  shows "lines (l @ [LF]) = [strip_cr l]"
  using assms by (simp add: lines_def split_char_append)

section \<open>Facts about vectors\<close>

lemma last_opt_simps [simp]:
  "last_opt [] = None"
  "last_opt (xs @ [x]) = Some x"
  "last_opt (x # xs) = Some (last (x # xs))"
  by (simp_all add: last_opt_def)

lemma last_opt_Some_iff: "last_opt xs = Some x \<longleftrightarrow> (\<exists>ys. xs = ys @ [x])"
  by (auto simp: last_opt_def) (metis append_butlast_last_id)

lemma last_opt_None_iff [simp]: "last_opt xs = None \<longleftrightarrow> xs = []"
  by (simp add: last_opt_def)

lemma slice_range_Some [rust_vec]:
  "a \<le> b \<Longrightarrow> b \<le> length xs \<Longrightarrow> slice_range a b xs = Some (drop a (take b xs))"
  by (simp add: slice_range_def)

lemma usize_sub_Some [rust_vec]: "b \<le> a \<Longrightarrow> usize_sub a b = Some (a - b)"
  by (simp add: usize_sub_def)

lemma vec_insert_Some [rust_vec]:
  "i \<le> length xs \<Longrightarrow> vec_insert i x xs = Some (take i xs @ x # drop i xs)"
  by (simp add: vec_insert_def)

lemma find_Some_least:
  "List.find P [a..<b] = Some i \<longleftrightarrow> a \<le> i \<and> i < b \<and> P i \<and> (\<forall>j. a \<le> j \<and> j < i \<longrightarrow> \<not> P j)"
proof -
  have "List.find P [a..<b] = Some i \<longleftrightarrow>
      (\<exists>k < length [a..<b]. P ([a..<b] ! k) \<and> i = [a..<b] ! k \<and> (\<forall>j<k. \<not> P ([a..<b] ! j)))"
    by (rule find_Some_iff)
  also have "\<dots> \<longleftrightarrow> (\<exists>k < b - a. P (a + k) \<and> i = a + k \<and> (\<forall>j<k. \<not> P (a + j)))"
    by auto
  also have "\<dots> \<longleftrightarrow> a \<le> i \<and> i < b \<and> P i \<and> (\<forall>j. a \<le> j \<and> j < i \<longrightarrow> \<not> P j)"
  proof
    assume "\<exists>k < b - a. P (a + k) \<and> i = a + k \<and> (\<forall>j<k. \<not> P (a + j))"
    then obtain k where k: "k < b - a" "P (a + k)" "i = a + k" "\<forall>j<k. \<not> P (a + j)" by blast
    have "\<not> P j" if "a \<le> j" "j < i" for j
      using k(3,4) that by (metis le_add_diff_inverse less_diff_conv2 add.commute)
    with k show "a \<le> i \<and> i < b \<and> P i \<and> (\<forall>j. a \<le> j \<and> j < i \<longrightarrow> \<not> P j)" by auto
  next
    assume h: "a \<le> i \<and> i < b \<and> P i \<and> (\<forall>j. a \<le> j \<and> j < i \<longrightarrow> \<not> P j)"
    then show "\<exists>k < b - a. P (a + k) \<and> i = a + k \<and> (\<forall>j<k. \<not> P (a + j))"
      by (intro exI[of _ "i - a"]) auto
  qed
  finally show ?thesis .
qed

lemma find_None_range: "List.find P [a..<b] = None \<longleftrightarrow> (\<forall>j. a \<le> j \<and> j < b \<longrightarrow> \<not> P j)"
  by (auto simp: find_None_iff)

end
