(* ===== verification/Patch_Types.thy ===== *)
theory Patch_Types
  imports Prelude
begin

text \<open>
  The data of the \<open>apply-patch\<close> crate: the update mode and options (\<open>lib.rs\<close>), the parsed
  hunks and chunks (\<open>parser.rs\<close>), the markers of the patch format, the error types, and the
  well-formedness of a chunk that the parser establishes and the file updater relies on.
\<close>

section \<open>Modes, chunks and hunks\<close>

datatype update_mode = NormalizeToLf | PreserveLineEndings

record apply_patch_options =
  update_file_mode :: update_mode
  follow_symlinks :: bool

definition default_options :: apply_patch_options where
  "default_options = \<lparr>update_file_mode = NormalizeToLf, follow_symlinks = True\<rparr>"

record update_file_chunk =
  change_context :: "rstr option"
  old_lines :: "rstr list"
  new_lines :: "rstr list"
  context_line_indices :: "(nat \<times> nat) list"
  is_end_of_file :: bool

definition default_chunk :: update_file_chunk where
  "default_chunk = \<lparr>change_context = None, old_lines = [], new_lines = [],
     context_line_indices = [], is_end_of_file = False\<rparr>"

text \<open>\<open>UpdateFileChunk::push_context_line\<close>.\<close>

definition push_context_line :: "rstr \<Rightarrow> update_file_chunk \<Rightarrow> update_file_chunk" where
  "push_context_line line c = c\<lparr>
     context_line_indices := context_line_indices c @ [(length (old_lines c), length (new_lines c))],
     old_lines := old_lines c @ [line],
     new_lines := new_lines c @ [line]\<rparr>"

datatype hunk =
    is_AddFile: AddFile (hunk_src: rstr) (hunk_contents: rstr)
  | is_DeleteFile: DeleteFile (hunk_src: rstr)
  | is_UpdateFile: UpdateFile (hunk_src: rstr) (hunk_move: "rstr option") (hunk_chunks: "update_file_chunk list")

text \<open>\<open>Hunk::path\<close>: the move destination for a rename, the named file otherwise.\<close>

fun hunk_path :: "hunk \<Rightarrow> rstr" where
  "hunk_path (AddFile p _) = p"
| "hunk_path (DeleteFile p) = p"
| "hunk_path (UpdateFile p (Some m) _) = m"
| "hunk_path (UpdateFile p None _) = p"

section \<open>Markers and errors\<close>

definition BEGIN_PATCH_MARKER :: rstr where "BEGIN_PATCH_MARKER = lit ''*** Begin Patch''"
definition END_PATCH_MARKER :: rstr where "END_PATCH_MARKER = lit ''*** End Patch''"
definition ADD_FILE_MARKER :: rstr where "ADD_FILE_MARKER = lit ''*** Add File: ''"
definition DELETE_FILE_MARKER :: rstr where "DELETE_FILE_MARKER = lit ''*** Delete File: ''"
definition UPDATE_FILE_MARKER :: rstr where "UPDATE_FILE_MARKER = lit ''*** Update File: ''"
definition MOVE_TO_MARKER :: rstr where "MOVE_TO_MARKER = lit ''*** Move to: ''"
definition EOF_MARKER :: rstr where "EOF_MARKER = lit ''*** End of File''"
definition CHANGE_CONTEXT_MARKER :: rstr where "CHANGE_CONTEXT_MARKER = lit ''@@ ''"
definition EMPTY_CHANGE_CONTEXT_MARKER :: rstr where "EMPTY_CHANGE_CONTEXT_MARKER = lit ''@@''"
definition ENVIRONMENT_ID_MARKER :: rstr where "ENVIRONMENT_ID_MARKER = lit ''*** Environment ID:''"

lemmas marker_defs =
  BEGIN_PATCH_MARKER_def END_PATCH_MARKER_def ADD_FILE_MARKER_def DELETE_FILE_MARKER_def
  UPDATE_FILE_MARKER_def MOVE_TO_MARKER_def EOF_MARKER_def CHANGE_CONTEXT_MARKER_def
  EMPTY_CHANGE_CONTEXT_MARKER_def ENVIRONMENT_ID_MARKER_def

datatype parse_error =
    InvalidPatchError rstr
  | InvalidHunkError rstr nat

text \<open>
  \<open>std::io::Error\<close> with the kinds the crate distinguishes. A \<open>PathUriParseError\<close> is known by its
  rendered message only.
\<close>

datatype io_error_kind = NotFound | AlreadyExists | InvalidInput | OtherKind nat

record io_error =
  io_kind :: io_error_kind
  io_message :: rstr

datatype apply_patch_error =
    ParseError parse_error
  | IoError rstr io_error
  | ComputeReplacements rstr
  | PathUriError rstr
  | ImplicitInvocation

section \<open>Well-formed chunks\<close>

text \<open>
  The recorded context pairs point at equal lines on both sides and increase strictly on both
  sides. \<open>file_update.rs\<close> subtracts and slices by these indices without a check of its own.
\<close>

definition context_step :: "nat \<times> nat \<Rightarrow> nat \<times> nat \<Rightarrow> bool" where
  "context_step p q \<longleftrightarrow> fst p < fst q \<and> snd p < snd q"

definition chunk_wf :: "update_file_chunk \<Rightarrow> bool" where
  "chunk_wf c \<longleftrightarrow>
     sorted_wrt context_step (context_line_indices c) \<and>
     (\<forall>(i, j) \<in> set (context_line_indices c).
        i < length (old_lines c) \<and> j < length (new_lines c) \<and> old_lines c ! i = new_lines c ! j)"

definition chunk_empty :: "update_file_chunk \<Rightarrow> bool" where
  "chunk_empty c \<longleftrightarrow> old_lines c = [] \<and> new_lines c = []"

lemma chunk_wf_default [simp]: "chunk_wf default_chunk"
  by (simp add: chunk_wf_def default_chunk_def)

lemma chunk_wf_change_context [simp]: "chunk_wf (c\<lparr>change_context := x\<rparr>) \<longleftrightarrow> chunk_wf c"
  by (simp add: chunk_wf_def)

lemma chunk_wf_is_end_of_file [simp]: "chunk_wf (c\<lparr>is_end_of_file := x\<rparr>) \<longleftrightarrow> chunk_wf c"
  by (simp add: chunk_wf_def)

lemma chunk_wf_push_context_line:
  assumes "chunk_wf c"
  shows "chunk_wf (push_context_line l c)"
  using assms
  by (fastforce simp: chunk_wf_def push_context_line_def sorted_wrt_append context_step_def
      nth_append split: prod.splits)

lemma chunk_wf_append_old:
  "chunk_wf c \<Longrightarrow> chunk_wf (c\<lparr>old_lines := old_lines c @ ls\<rparr>)"
  by (fastforce simp: chunk_wf_def nth_append)

lemma chunk_wf_append_new:
  "chunk_wf c \<Longrightarrow> chunk_wf (c\<lparr>new_lines := new_lines c @ ls\<rparr>)"
  by (fastforce simp: chunk_wf_def nth_append)

lemma push_context_line_not_empty [simp]: "\<not> chunk_empty (push_context_line l c)"
  by (simp add: chunk_empty_def push_context_line_def)

lemma push_context_line_eof [simp]:
  "is_end_of_file (push_context_line l c) = is_end_of_file c"
  by (simp add: push_context_line_def)

end
