(* ===== verification/Seek_Sequence.thy ===== *)
theory Seek_Sequence
  imports Patch_Types
begin

text \<open>
  \<open>apply-patch/src/seek_sequence.rs\<close>: locating the lines of a chunk in a file. Four passes of
  decreasing strictness over the same index range; each pass compares the lines after a
  normalisation of its own. The theory characterises the result: the strictest pass with a
  match wins, and within it the first index; and the passes are ordered by inclusion, so the
  search fails exactly when the most permissive comparison matches nowhere.
\<close>

section \<open>The model\<close>

text \<open>The inner function \<open>normalise\<close>: trim, then map typographic punctuation to ASCII.\<close>

definition normalise_char :: "rchar \<Rightarrow> rchar" where
  "normalise_char c =
     (if c \<in> set [0x2010, 0x2011, 0x2012, 0x2013, 0x2014, 0x2015, 0x2212] then 45
      else if c \<in> set [0x2018, 0x2019, 0x201A, 0x201B] then 39
      else if c \<in> set [0x201C, 0x201D, 0x201E, 0x201F] then 34
      else if c \<in> set [0x00A0, 0x2002, 0x2003, 0x2004, 0x2005, 0x2006, 0x2007, 0x2008, 0x2009,
                       0x200A, 0x202F, 0x205F, 0x3000] then 32
      else c)"

definition normalise :: "rstr \<Rightarrow> rstr" where
  "normalise s = map normalise_char (trim s)"

text \<open>The body of the passes 2 to 4: compare line by line after applying \<open>f\<close> to both sides.\<close>

definition lines_match_at ::
  "(rstr \<Rightarrow> rstr) \<Rightarrow> rstr list \<Rightarrow> rstr list \<Rightarrow> nat \<Rightarrow> bool" where
  "lines_match_at f ls pattern i \<longleftrightarrow>
     list_all (\<lambda>(p_idx, pat). f (ls ! (i + p_idx)) = f pat) (enumerate 0 pattern)"

definition search_start ::
  "rstr list \<Rightarrow> rstr list \<Rightarrow> nat \<Rightarrow> bool \<Rightarrow> update_mode \<Rightarrow> nat" where
  "search_start ls pattern start eof mode =
     (if eof \<and> length ls \<ge> length pattern then
        let eof_start = length ls - length pattern in
        (case mode of
           NormalizeToLf \<Rightarrow> eof_start
         | PreserveLineEndings \<Rightarrow> max eof_start start)
      else start)"

definition seek_sequence ::
  "rstr list \<Rightarrow> rstr list \<Rightarrow> nat \<Rightarrow> bool \<Rightarrow> update_mode \<Rightarrow> nat option" where
  "seek_sequence ls pattern start eof mode =
     (if pattern = [] then Some start
      else if length pattern > length ls then None
      else
        let is = [search_start ls pattern start eof mode ..< Suc (length ls - length pattern)] in
        case List.find (\<lambda>i. take (length pattern) (drop i ls) = pattern) is of
          Some i \<Rightarrow> Some i
        | None \<Rightarrow>
          (case List.find (lines_match_at trim_end ls pattern) is of
             Some i \<Rightarrow> Some i
           | None \<Rightarrow>
             (case List.find (lines_match_at trim ls pattern) is of
                Some i \<Rightarrow> Some i
              | None \<Rightarrow> List.find (lines_match_at normalise ls pattern) is)))"

section \<open>The four comparisons\<close>

text \<open>The comparison of each pass as a function of its number, strictest first.\<close>

definition pass_norm :: "nat \<Rightarrow> rstr \<Rightarrow> rstr" where
  "pass_norm k = (if k = 0 then id else if k = 1 then trim_end else if k = 2 then trim else normalise)"

abbreviation pass_matches :: "nat \<Rightarrow> rstr list \<Rightarrow> rstr list \<Rightarrow> nat \<Rightarrow> bool" where
  "pass_matches k ls pattern i \<equiv> lines_match_at (pass_norm k) ls pattern i"

lemma lines_match_at_iff:
  "lines_match_at f ls pattern i \<longleftrightarrow> (\<forall>k < length pattern. f (ls ! (i + k)) = f (pattern ! k))"
  by (fastforce simp: lines_match_at_def list_all_length nth_enumerate_eq)

lemma take_drop_eq_iff_match:
  assumes "i + length pattern \<le> length ls"
  shows "take (length pattern) (drop i ls) = pattern \<longleftrightarrow> lines_match_at id ls pattern i"
proof -
  have len: "length (take (length pattern) (drop i ls)) = length pattern"
    using assms by simp
  show ?thesis
    unfolding list_eq_iff_nth_eq len lines_match_at_iff using assms by (simp add: add.commute)
qed

lemma pass_norm_coarser: "k \<le> k' \<Longrightarrow> pass_norm k x = pass_norm k y \<Longrightarrow> pass_norm k' x = pass_norm k' y"
  by (auto simp: pass_norm_def normalise_def split: if_splits)
    (metis trim_trim_end)+

lemma pass_matches_coarser:
  "k \<le> k' \<Longrightarrow> pass_matches k ls pattern i \<Longrightarrow> pass_matches k' ls pattern i"
  by (auto simp: lines_match_at_iff intro: pass_norm_coarser)

section \<open>The search\<close>

abbreviation seek_range ::
  "rstr list \<Rightarrow> rstr list \<Rightarrow> nat \<Rightarrow> bool \<Rightarrow> update_mode \<Rightarrow> nat \<Rightarrow> bool" where
  "seek_range ls pattern start eof mode i \<equiv>
     search_start ls pattern start eof mode \<le> i \<and> i + length pattern \<le> length ls"

text \<open>The search as a cascade over the pass number.\<close>

lemma seek_sequence_cascade:
  assumes "pattern \<noteq> []" and "length pattern \<le> length ls"
  shows "seek_sequence ls pattern start eof mode =
    (let is = [search_start ls pattern start eof mode ..< Suc (length ls - length pattern)] in
     case List.find (pass_matches 0 ls pattern) is of Some i \<Rightarrow> Some i | None \<Rightarrow>
     (case List.find (pass_matches 1 ls pattern) is of Some i \<Rightarrow> Some i | None \<Rightarrow>
     (case List.find (pass_matches 2 ls pattern) is of Some i \<Rightarrow> Some i | None \<Rightarrow>
      List.find (pass_matches 3 ls pattern) is)))"
proof -
  have "List.find (\<lambda>i. take (length pattern) (drop i ls) = pattern)
          [search_start ls pattern start eof mode ..< Suc (length ls - length pattern)] =
        List.find (pass_matches 0 ls pattern)
          [search_start ls pattern start eof mode ..< Suc (length ls - length pattern)]"
    using assms(2)
    by (intro find_cong) (auto simp: pass_norm_def take_drop_eq_iff_match simp del: upt_Suc)
  then show ?thesis
    using assms
    by (simp add: seek_sequence_def Let_def pass_norm_def del: upt_Suc cong: option.case_cong)
qed

text \<open>Four attempts in a row: the one that answers, and those before it that did not.\<close>

lemma first_hit_of_four:
  assumes "(case f (0::nat) of Some i \<Rightarrow> Some i | None \<Rightarrow>
     (case f 1 of Some i \<Rightarrow> Some i | None \<Rightarrow> (case f 2 of Some i \<Rightarrow> Some i | None \<Rightarrow> f 3))) = Some r"
  obtains k where "k \<le> 3" and "f k = Some r" and "\<forall>k' < k. f k' = None"
proof (cases "f 0")
  case Some
  then show ?thesis using assms that[of 0] by simp
next
  case None0: None
  show ?thesis
  proof (cases "f 1")
    case Some
    then show ?thesis using assms None0 that[of 1] by simp
  next
    case None1: None
    show ?thesis
    proof (cases "f 2")
      case Some
      then show ?thesis
        using assms None0 None1 that[of 2] by (simp add: less_2_cases_iff)
    next
      case None
      then show ?thesis
        using assms None0 None1 that[of 3]
        by (simp add: numeral_3_eq_3 numeral_2_eq_2 less_Suc_eq)
    qed
  qed
qed

lemma all_four_miss:
  assumes "\<And>k. f 3 = None \<Longrightarrow> k \<le> 3 \<Longrightarrow> f k = None"
  shows "(case f (0::nat) of Some i \<Rightarrow> Some i | None \<Rightarrow>
     (case f 1 of Some i \<Rightarrow> Some i | None \<Rightarrow> (case f 2 of Some i \<Rightarrow> Some i | None \<Rightarrow> f 3))) = None
    \<longleftrightarrow> f 3 = None"
  using assms[of 0] assms[of 1] assms[of 2] by (cases "f 3") (auto split: option.splits)

lemma find_seek_range:
  assumes "length pattern \<le> length ls"
  shows "List.find (pass_matches k ls pattern)
      [search_start ls pattern start eof mode ..< Suc (length ls - length pattern)] = Some i \<longleftrightarrow>
    seek_range ls pattern start eof mode i \<and> pass_matches k ls pattern i \<and>
    (\<forall>j < i. seek_range ls pattern start eof mode j \<longrightarrow> \<not> pass_matches k ls pattern j)"
  using assms by (auto simp: find_Some_least simp del: upt_Suc)

lemma find_seek_range_None:
  assumes "length pattern \<le> length ls"
  shows "List.find (pass_matches k ls pattern)
      [search_start ls pattern start eof mode ..< Suc (length ls - length pattern)] = None \<longleftrightarrow>
    (\<forall>j. seek_range ls pattern start eof mode j \<longrightarrow> \<not> pass_matches k ls pattern j)"
  using assms by (auto simp: find_None_range simp del: upt_Suc)

text \<open>The pass that answers, and that no stricter pass has a match in the range.\<close>

lemma seek_sequence_Some_pass:
  assumes "pattern \<noteq> []" and "seek_sequence ls pattern start eof mode = Some i"
  obtains k where "k \<le> 3"
    and "seek_range ls pattern start eof mode i" and "pass_matches k ls pattern i"
    and "\<forall>j < i. seek_range ls pattern start eof mode j \<longrightarrow> \<not> pass_matches k ls pattern j"
    and "\<forall>k' < k. \<forall>j. seek_range ls pattern start eof mode j \<longrightarrow> \<not> pass_matches k' ls pattern j"
proof -
  have len: "length pattern \<le> length ls"
    using assms by (auto simp: seek_sequence_def split: if_splits)
  note cascade = assms(2)[unfolded seek_sequence_cascade[OF assms(1) len] Let_def]
  obtain k where k: "k \<le> 3"
    and hit: "List.find (pass_matches k ls pattern)
      [search_start ls pattern start eof mode ..< Suc (length ls - length pattern)] = Some i"
    and miss: "\<forall>k' < k. List.find (pass_matches k' ls pattern)
      [search_start ls pattern start eof mode ..< Suc (length ls - length pattern)] = None"
    using cascade by (rule first_hit_of_four)
  show ?thesis
    by (rule that[OF k]) (use hit miss find_seek_range[OF len] find_seek_range_None[OF len] in blast)+
qed

lemma seek_sequence_None_pass:
  assumes "pattern \<noteq> []" and "length pattern \<le> length ls"
  shows "seek_sequence ls pattern start eof mode = None \<longleftrightarrow>
    (\<forall>j. seek_range ls pattern start eof mode j \<longrightarrow> \<not> pass_matches 3 ls pattern j)"
proof -
  let ?F = "\<lambda>k. List.find (pass_matches k ls pattern)
      [search_start ls pattern start eof mode ..< Suc (length ls - length pattern)]"
  have coarse: "?F k = None" if "?F 3 = None" "k \<le> 3" for k
    using that unfolding find_seek_range_None[OF assms(2)] by (metis pass_matches_coarser)
  have "seek_sequence ls pattern start eof mode = None \<longleftrightarrow> ?F 3 = None"
    unfolding seek_sequence_cascade[OF assms] Let_def
    by (rule all_four_miss) (rule coarse)
  then show ?thesis
    by (simp only: find_seek_range_None[OF assms(2)])
qed

text \<open>The index range of a successful search, for every pattern: what the file updater relies on.\<close>

lemma seek_sequence_bounds:
  assumes "seek_sequence ls pattern start eof mode = Some i" and "start \<le> length ls"
  shows "i + length pattern \<le> length ls"
proof (cases "pattern = []")
  case True
  then show ?thesis using assms by (simp add: seek_sequence_def)
next
  case False
  then show ?thesis using assms(1) by (auto elim: seek_sequence_Some_pass)
qed

lemma seek_sequence_ge_start:
  assumes "seek_sequence ls pattern start eof mode = Some i"
    and "\<not> eof \<or> mode = PreserveLineEndings"
  shows "start \<le> i"
proof (cases "pattern = []")
  case True
  then show ?thesis using assms by (simp add: seek_sequence_def)
next
  case False
  then have "search_start ls pattern start eof mode \<le> i"
    using assms(1) by (auto elim: seek_sequence_Some_pass)
  then show ?thesis
    using assms(2) by (auto simp: search_start_def Let_def split: if_splits update_mode.splits)
qed

section \<open>The interface of a forward search\<close>

text \<open>
  What the file updater needs of a search from a cursor: the match lies inside the file and not
  before the cursor. Then the cursor behind the match is again inside the file and never moves
  back, so matches found one after the other do not overlap.
\<close>

locale forward_seeker =
  fixes seek :: "rstr list \<Rightarrow> rstr list \<Rightarrow> nat \<Rightarrow> bool \<Rightarrow> nat option"
  assumes seek_inside: "seek ls pat start eof = Some i \<Longrightarrow> start \<le> length ls \<Longrightarrow> i + length pat \<le> length ls"
    and seek_forward: "seek ls pat start eof = Some i \<Longrightarrow> start \<le> i"
begin

lemma cursor_advances:
  assumes "seek ls pat start eof = Some i" and "start \<le> length ls"
  shows "start \<le> i + length pat \<and> i + length pat \<le> length ls"
  using seek_inside[OF assms] seek_forward[OF assms(1)] by simp

lemma matches_disjoint:
  assumes "seek ls pat start eof = Some i" and "seek ls pat' (i + length pat) eof' = Some j"
  shows "i + length pat \<le> j"
  using seek_forward[OF assms(2)] .

end

interpretation preserving: forward_seeker "\<lambda>ls pat start eof. seek_sequence ls pat start eof PreserveLineEndings"
  by unfold_locales (auto intro: seek_sequence_bounds seek_sequence_ge_start)

interpretation no_eof: forward_seeker "\<lambda>ls pat start eof. seek_sequence ls pat start False NormalizeToLf"
  by unfold_locales (auto intro: seek_sequence_bounds seek_sequence_ge_start)

section \<open>Properties\<close>

text \<open>
  what a successful search returns. For a non-empty pattern the index is inside the file, at
  or after the search start, and there is a pass that matches there such that no stricter pass
  matches at any index of the range and the pass itself matches at no earlier index.
\<close>

theorem seek_sequence_strictest_first:
  assumes "pattern \<noteq> []" and "seek_sequence ls pattern start eof mode = Some i"
  shows "search_start ls pattern start eof mode \<le> i \<and> i + length pattern \<le> length ls \<and>
    (\<exists>k \<le> 3. pass_matches k ls pattern i \<and>
       (\<forall>j. seek_range ls pattern start eof mode j \<longrightarrow>
          (\<forall>k' < k. \<not> pass_matches k' ls pattern j) \<and>
          (j < i \<longrightarrow> \<not> pass_matches k ls pattern j)))"
  using assms by (rule seek_sequence_Some_pass) blast

theorem seek_sequence_strictest_first_witness:
  "seek_sequence [lit ''a '', lit ''b'', lit ''a''] [lit ''a''] 0 False NormalizeToLf = Some 2 \<and>
   (\<exists>k \<le> 3. pass_matches k [lit ''a '', lit ''b'', lit ''a''] [lit ''a''] 2)"
proof -
  have h: "seek_sequence [lit ''a '', lit ''b'', lit ''a''] [lit ''a''] 0 False NormalizeToLf = Some 2"
    by code_simp
  show ?thesis
    using h seek_sequence_strictest_first[OF _ h] by blast
qed

text \<open>
  when a search fails. For a non-empty pattern the result is \<open>None\<close> exactly when the most
  permissive comparison (trimmed, punctuation normalised) matches at no index of the range: the
  stricter passes never decide failure.
\<close>

theorem seek_sequence_None_iff:
  assumes "pattern \<noteq> []"
  shows "seek_sequence ls pattern start eof mode = None \<longleftrightarrow>
    (\<forall>j. seek_range ls pattern start eof mode j \<longrightarrow> \<not> lines_match_at normalise ls pattern j)"
proof (cases "length pattern \<le> length ls")
  case False
  then show ?thesis
    using assms by (auto simp: seek_sequence_def)
next
  case True
  have "pass_norm 3 = normalise" by (simp add: pass_norm_def)
  then show ?thesis
    using seek_sequence_None_pass[OF assms True] by simp
qed

theorem seek_sequence_None_iff_witness:
  "[lit ''a''] \<noteq> [] \<and>
   (seek_sequence [lit ''b''] [lit ''a''] 0 False NormalizeToLf = None \<longleftrightarrow>
    (\<forall>j. seek_range [lit ''b''] [lit ''a''] 0 False NormalizeToLf j \<longrightarrow>
       \<not> lines_match_at normalise [lit ''b''] [lit ''a''] j))"
  using seek_sequence_None_iff[of "[lit ''a'']" "[lit ''b'']" 0 False NormalizeToLf] by simp

end
