(* ===== verification/Replacements.thy ===== *)
theory Replacements
  imports Patch_Types
begin

text \<open>
  The contract between the chunk matcher and the two file rewriters of \<open>apply-patch\<close>: what a
  list of replacements \<open>(start_index, old_len, new_lines)\<close> means for a file of lines. \<open>splice_lines\<close> is
  the abstract meaning, \<open>reps_ok\<close> the documented precondition (source-ordered, non-overlapping,
  inside the file), and the locale \<open>line_rewriter\<close> what an implementation promises. It is
  interpreted by \<open>SourceFile::apply_replacements\<close> (theory \<open>Text_File\<close>) and by the function
  \<open>apply_replacements\<close> of \<open>file_update.rs\<close> (theory \<open>File_Update\<close>).
\<close>

type_synonym replacement = "nat \<times> nat \<times> rstr list"

section \<open>The abstract meaning\<close>

fun reps_ok :: "nat \<Rightarrow> nat \<Rightarrow> replacement list \<Rightarrow> bool" where
  "reps_ok i n [] \<longleftrightarrow> i \<le> n"
| "reps_ok i n ((s, old, seg) # rs) \<longleftrightarrow> i \<le> s \<and> s + old \<le> n \<and> reps_ok (s + old) n rs"

text \<open>\<open>splice_lines mk i rs ls\<close>: the lines \<open>ls\<close>, whose first one has index \<open>i\<close>, after \<open>rs\<close>.\<close>

fun splice_lines :: "(rstr \<Rightarrow> 'l) \<Rightarrow> nat \<Rightarrow> replacement list \<Rightarrow> 'l list \<Rightarrow> 'l list" where
  "splice_lines mk i [] ls = ls"
| "splice_lines mk i ((s, old, seg) # rs) ls =
     take (s - i) ls @ map mk seg @ splice_lines mk (s + old) rs (drop (s + old - i) ls)"

lemma splice_lines_id [simp]: "splice_lines (\<lambda>a. a) = splice_lines id"
  by (simp add: id_def)

lemma splice_lines_map: "map f (splice_lines mk i rs ls) = splice_lines (f \<circ> mk) i rs (map f ls)"
  by (induction mk i rs ls rule: splice_lines.induct) (simp_all add: take_map drop_map)

lemma reps_ok_le: "reps_ok i n rs \<Longrightarrow> i \<le> n"
  by (induction i n rs rule: reps_ok.induct) auto

lemma reps_ok_mono: "reps_ok i n rs \<Longrightarrow> j \<le> i \<Longrightarrow> reps_ok j n rs"
  by (cases rs) auto

lemma reps_ok_append:
  "reps_ok i n (rs @ [(s, old, seg)]) \<longleftrightarrow>
     s + old \<le> n \<and> i \<le> s \<and> reps_ok i s rs"
proof (induction i n rs rule: reps_ok.induct)
  case (1 i n)
  then show ?case by auto
next
  case (2 i n s' old' seg' rs)
  then show ?case by (auto dest: reps_ok_le)
qed

lemma length_splice:
  assumes "reps_ok i (i + length ls) rs"
  shows "length (splice_lines mk i rs ls) + sum_list (map (\<lambda>r. fst (snd r)) rs) =
         length ls + sum_list (map (\<lambda>r. length (snd (snd r))) rs)"
  using assms
proof (induction mk i rs ls rule: splice_lines.induct)
  case (1 mk i ls)
  then show ?case by simp
next
  case (2 mk i s old seg rs ls)
  from "2.prems" have le: "i \<le> s" "s + old \<le> i + length ls" and
    ok: "reps_ok (s + old) (i + length ls) rs" by auto
  have "(s + old) + length (drop (s + old - i) ls) = i + length ls"
    using le by simp
  with ok have ok': "reps_ok (s + old) (s + old + length (drop (s + old - i) ls)) rs"
    by metis
  have "length (splice_lines mk (s + old) rs (drop (s + old - i) ls)) +
      sum_list (map (\<lambda>r. fst (snd r)) rs) =
      length (drop (s + old - i) ls) + sum_list (map (\<lambda>r. length (snd (snd r))) rs)"
    using ok' by (rule "2.IH")
  then show ?case
    using le by simp
qed

text \<open>Lines before the first replacement are kept.\<close>

lemma splice_take_before:
  assumes "reps_ok i (i + length ls) rs" and "\<forall>r \<in> set rs. k \<le> fst r" and "i \<le> k"
    and "k \<le> i + length ls"
  shows "take (k - i) (splice_lines mk i rs ls) = take (k - i) ls"
proof (cases rs)
  case Nil
  then show ?thesis by simp
next
  case (Cons r rs')
  obtain s old seg where r: "r = (s, old, seg)" by (cases r)
  have "k \<le> s" "s + old \<le> i + length ls"
    using assms Cons r by auto
  then show ?thesis
    using Cons r assms(3) by simp
qed

text \<open>Lines after the last replacement are kept.\<close>

lemma splice_append_suffix:
  assumes "reps_ok i (i + length ls) rs"
  shows "splice_lines mk i rs (ls @ zs) = splice_lines mk i rs ls @ zs"
  using assms
proof (induction mk i rs ls rule: splice_lines.induct)
  case (1 mk i ls)
  then show ?case by simp
next
  case (2 mk i s old seg rs ls)
  from "2.prems" have le: "i \<le> s" "s + old \<le> i + length ls" and
    ok: "reps_ok (s + old) (i + length ls) rs" by auto
  have "(s + old) + length (drop (s + old - i) ls) = i + length ls"
    using le by simp
  with ok have ok': "reps_ok (s + old) (s + old + length (drop (s + old - i) ls)) rs"
    by metis
  have "splice_lines mk (s + old) rs (drop (s + old - i) ls @ zs) =
      splice_lines mk (s + old) rs (drop (s + old - i) ls) @ zs"
    using ok' by (rule "2.IH")
  then show ?case
    using le by simp
qed

text \<open>A last replacement works on the tail that the earlier ones leave alone.\<close>

lemma splice_lines_snoc:
  assumes "reps_ok i s rs" and "s + old \<le> i + length ls"
  shows "splice_lines mk i (rs @ [(s, old, seg)]) ls =
    splice_lines mk i rs (take (s - i) ls) @ map mk seg @ drop (s + old - i) ls"
  using assms
proof (induction mk i rs ls rule: splice_lines.induct)
  case (1 mk i ls)
  then show ?case by simp
next
  case (2 mk i s' old' seg' rs ls)
  from "2.prems" have le: "i \<le> s'" "s' + old' \<le> s" and ok: "reps_ok (s' + old') s rs"
    by auto
  have "s + old \<le> s' + old' + length (drop (s' + old' - i) ls)"
    using "2.prems"(2) le by simp
  from "2.IH"[OF ok this] show ?case
    using le by (simp add: drop_take)
qed

text \<open>A line before the first replacement is kept as it is.\<close>

lemma splice_lines_keep_line:
  assumes "reps_ok (Suc i) n rs"
  shows "splice_lines mk i rs (x # ls) = x # splice_lines mk (Suc i) rs ls"
proof (cases rs)
  case Nil
  then show ?thesis by simp
next
  case (Cons r rs')
  obtain s old seg where r: "r = (s, old, seg)" by (cases r)
  have "s - i = Suc (s - Suc i)" "s + old - i = Suc (s + old - Suc i)"
    using assms Cons r by auto
  then show ?thesis
    using Cons r by simp
qed

lemma splice_lines_skip:
  assumes "reps_ok k n rs" and "i \<le> k" and "k \<le> i + length ls"
  shows "splice_lines mk i rs ls = take (k - i) ls @ splice_lines mk k rs (drop (k - i) ls)"
proof (cases rs)
  case Nil
  then show ?thesis by simp
next
  case (Cons r rs')
  obtain s old seg where r: "r = (s, old, seg)" by (cases r)
  have "k \<le> s" using assms(1) Cons r by simp
  then have "take (s - i) ls = take (k - i) ls @ take (s - k) (drop (k - i) ls)"
    using assms(2,3) by (simp flip: take_add)
  then show ?thesis
    using Cons r \<open>k \<le> s\<close> assms(2) by simp
qed

section \<open>The interface of a rewriter\<close>

locale line_rewriter =
  fixes rewrite :: "replacement list \<Rightarrow> 'f \<Rightarrow> 'f option"
    and texts :: "'f \<Rightarrow> rstr list"
  assumes rewrite_splice:
    "reps_ok 0 (length (texts f)) rs \<Longrightarrow>
       \<exists>f'. rewrite rs f = Some f' \<and> texts f' = splice_lines id 0 rs (texts f)"
begin

lemma rewrite_no_panic: "reps_ok 0 (length (texts f)) rs \<Longrightarrow> rewrite rs f \<noteq> None"
  using rewrite_splice by fastforce

lemma rewrite_Nil: "rewrite [] f = Some f' \<Longrightarrow> texts f' = texts f"
  using rewrite_splice[of f "[]"] by auto

lemma rewrite_single:
  assumes "s + old \<le> length (texts f)" and "rewrite [(s, old, seg)] f = Some f'"
  shows "texts f' = take s (texts f) @ seg @ drop (s + old) (texts f)"
  using rewrite_splice[of f "[(s, old, seg)]"] assms by simp

lemma rewrite_keeps_prefix:
  assumes "reps_ok 0 (length (texts f)) rs" and "\<forall>r \<in> set rs. k \<le> fst r"
    and "k \<le> length (texts f)" and "rewrite rs f = Some f'"
  shows "take k (texts f') = take k (texts f)"
  using rewrite_splice[OF assms(1)] splice_take_before[of 0 "texts f" rs k id] assms by auto

lemma rewrite_length:
  assumes "reps_ok 0 (length (texts f)) rs" and "rewrite rs f = Some f'"
  shows "length (texts f') + sum_list (map (\<lambda>r. fst (snd r)) rs) =
         length (texts f) + sum_list (map (\<lambda>r. length (snd (snd r))) rs)"
  using rewrite_splice[OF assms(1)] assms length_splice[of 0 "texts f" rs id] by auto

end

text \<open>Two rewriters of the same lines agree on every admissible list of replacements.\<close>

locale rewriter_pair =
  a: line_rewriter rewrite_a texts_a + b: line_rewriter rewrite_b texts_b
  for rewrite_a :: "replacement list \<Rightarrow> 'f \<Rightarrow> 'f option" and texts_a :: "'f \<Rightarrow> rstr list"
    and rewrite_b :: "replacement list \<Rightarrow> 'g \<Rightarrow> 'g option" and texts_b :: "'g \<Rightarrow> rstr list"
begin

lemma rewriters_agree:
  assumes "texts_a f = texts_b g" and "reps_ok 0 (length (texts_a f)) rs"
  shows "\<exists>f' g'. rewrite_a rs f = Some f' \<and> rewrite_b rs g = Some g' \<and> texts_a f' = texts_b g'"
  using a.rewrite_splice[OF assms(2)] b.rewrite_splice[of g rs] assms by auto

end

end
