(* ===== verification/Text_File.thy ===== *)
theory Text_File
  imports Replacements
begin

text \<open>
  \<open>apply-patch/src/text_file.rs\<close>: a source file as logical lines that remember their endings.
  \<open>parse\<close> scans the contents once; \<open>into_contents\<close> writes them back; \<open>apply_replacements\<close>
  rebuilds the file. The theory shows that reading and writing back is the identity, that line
  texts hold no terminator, and that the rewriter implements the interface \<open>line_rewriter\<close> while
  unchanged lines keep their own endings.

  The scan looks at bytes; carriage return and line feed are ASCII and never part of a longer
  UTF-8 sequence, so scanning chars cuts at the same places.
\<close>

section \<open>The model\<close>

datatype line_ending = Lf | CrLf | Cr

fun as_str :: "line_ending \<Rightarrow> rstr" where
  "as_str Lf = [LF]"
| "as_str CrLf = [CR, LF]"
| "as_str Cr = [CR]"

record source_line =
  line_text :: rstr
  line_end :: "line_ending option"

record source_file =
  file_lines :: "source_line list"
  preferred_ending :: line_ending

text \<open>
  The scanning loop: \<open>cur\<close> is \<open>contents[line_start..cursor]\<close>, the last argument the contents from
  the cursor on. \<open>pref\<close> is filled by the first ending (\<open>get_or_insert\<close>).
\<close>

definition get_or_insert :: "'a \<Rightarrow> 'a option \<Rightarrow> 'a option" where
  "get_or_insert x slot = (case slot of None \<Rightarrow> Some x | Some y \<Rightarrow> Some y)"

fun scan_lines ::
  "rstr \<Rightarrow> source_line list \<Rightarrow> line_ending option \<Rightarrow> rstr \<Rightarrow> source_line list \<times> line_ending option" where
  "scan_lines cur ls pref [] =
     (if cur = [] then ls else ls @ [\<lparr>line_text = cur, line_end = None\<rparr>], pref)"
| "scan_lines cur ls pref (c # cs) =
     (if c = CR then
        (case cs of
           d # cs' \<Rightarrow>
             (if d = LF then
                scan_lines [] (ls @ [\<lparr>line_text = cur, line_end = Some CrLf\<rparr>])
                  (get_or_insert CrLf pref) cs'
              else
                scan_lines [] (ls @ [\<lparr>line_text = cur, line_end = Some Cr\<rparr>])
                  (get_or_insert Cr pref) cs)
         | [] \<Rightarrow>
             scan_lines [] (ls @ [\<lparr>line_text = cur, line_end = Some Cr\<rparr>])
               (get_or_insert Cr pref) cs)
      else if c = LF then
        scan_lines [] (ls @ [\<lparr>line_text = cur, line_end = Some Lf\<rparr>]) (get_or_insert Lf pref) cs
      else scan_lines (cur @ [c]) ls pref cs)"

definition source_file_parse :: "rstr \<Rightarrow> source_file" where
  "source_file_parse contents =
     (let (ls, pref) = scan_lines [] [] None contents in
      \<lparr>file_lines = ls, preferred_ending = (case pref of None \<Rightarrow> Lf | Some e \<Rightarrow> e)\<rparr>)"

definition line_texts :: "source_file \<Rightarrow> rstr list" where
  "line_texts f = map line_text (file_lines f)"

text \<open>
  The loop of \<open>SourceFile::apply_replacements\<close> over an iterator of the remaining source lines.
  \<open>*start_idx - source_index\<close> panics below zero (and a \<open>debug_assert\<close> says it never is).
\<close>

fun apply_replacements_loop ::
  "line_ending \<Rightarrow> replacement list \<Rightarrow> source_line list \<Rightarrow> nat \<Rightarrow> source_line list \<Rightarrow>
   source_line list option" where
  "apply_replacements_loop pref [] source source_index new_ls = Some (new_ls @ source)"
| "apply_replacements_loop pref ((start_idx, old_len, new_segment) # rs) source source_index new_ls =
     (case usize_sub start_idx source_index of
        None \<Rightarrow> None
      | Some k \<Rightarrow>
          apply_replacements_loop pref rs (drop old_len (drop k source)) (start_idx + old_len)
            (new_ls @ take k source @
             map (\<lambda>t. \<lparr>line_text = t, line_end = Some pref\<rparr>) new_segment))"

definition source_file_apply_replacements :: "replacement list \<Rightarrow> source_file \<Rightarrow> source_file option" where
  "source_file_apply_replacements rs f =
     map_option (\<lambda>new_ls. f\<lparr>file_lines :=
         map (\<lambda>l. l\<lparr>line_end := get_or_insert (preferred_ending f) (line_end l)\<rparr>) new_ls\<rparr>)
       (apply_replacements_loop (preferred_ending f) rs (file_lines f) 0 [])"

definition line_contents :: "source_line \<Rightarrow> rstr" where
  "line_contents l = line_text l @ (case line_end l of None \<Rightarrow> [] | Some e \<Rightarrow> as_str e)"

definition into_contents :: "source_file \<Rightarrow> rstr" where
  "into_contents f = concat (map line_contents (file_lines f))"

section \<open>Reading and writing back\<close>

lemma scan_lines_contents:
  "concat (map line_contents (fst (scan_lines cur ls pref cs))) =
   concat (map line_contents ls) @ cur @ cs"
  by (induction cur ls pref cs rule: scan_lines.induct)
    (auto simp: line_contents_def split: list.splits)

definition line_text_ok :: "source_line \<Rightarrow> bool" where
  "line_text_ok l \<longleftrightarrow> LF \<notin> set (line_text l) \<and> CR \<notin> set (line_text l)"

lemma scan_lines_text_ok:
  assumes "list_all line_text_ok ls" and "LF \<notin> set cur" and "CR \<notin> set cur"
  shows "list_all line_text_ok (fst (scan_lines cur ls pref cs))"
  using assms
  by (induction cur ls pref cs rule: scan_lines.induct)
    (auto simp: line_text_ok_def split: list.splits)

text \<open>Only the last line can be unterminated.\<close>

definition terminated :: "source_line \<Rightarrow> bool" where
  "terminated l \<longleftrightarrow> line_end l \<noteq> None"

lemma scan_lines_terminated:
  "list_all terminated ls \<Longrightarrow> list_all terminated (butlast (fst (scan_lines cur ls pref cs)))"
  by (induction cur ls pref cs rule: scan_lines.induct)
    (auto simp: terminated_def list_all_iff dest: in_set_butlastD split: list.splits)

section \<open>Rewriting\<close>

abbreviation inserted_line :: "line_ending \<Rightarrow> rstr \<Rightarrow> source_line" where
  "inserted_line e t \<equiv> \<lparr>line_text = t, line_end = Some e\<rparr>"

lemma apply_replacements_loop_splice:
  assumes "reps_ok i (i + length source) rs"
  shows "apply_replacements_loop pref rs source i new_ls =
         Some (new_ls @ splice_lines (inserted_line pref) i rs source)"
  using assms
proof (induction pref rs source i new_ls rule: apply_replacements_loop.induct)
  case (1 pref source source_index new_ls)
  then show ?case by simp
next
  case (2 pref start_idx old_len new_segment rs source i new_ls)
  from "2.prems" have le: "i \<le> start_idx" "start_idx + old_len \<le> i + length source"
    and ok: "reps_ok (start_idx + old_len) (i + length source) rs" by auto
  have "start_idx + old_len + length (drop old_len (drop (start_idx - i) source)) = i + length source"
    using le by simp
  with ok have ok': "reps_ok (start_idx + old_len)
      (start_idx + old_len + length (drop old_len (drop (start_idx - i) source))) rs"
    by metis
  have sub: "usize_sub start_idx i = Some (start_idx - i)"
    using le by (simp add: rust_vec)
  have "old_len + (start_idx - i) = start_idx + old_len - i"
    using le by simp
  then show ?case
    using "2.IH"[OF sub ok'] sub by simp
qed

lemma source_file_apply_replacements_eq:
  assumes "reps_ok 0 (length (file_lines f)) rs"
  shows "source_file_apply_replacements rs f = Some (f\<lparr>file_lines :=
    map (\<lambda>l. l\<lparr>line_end := get_or_insert (preferred_ending f) (line_end l)\<rparr>)
      (splice_lines (inserted_line (preferred_ending f)) 0 rs (file_lines f))\<rparr>)"
  using apply_replacements_loop_splice[of 0 "file_lines f" rs] assms
  by (simp add: source_file_apply_replacements_def)

interpretation sf: line_rewriter source_file_apply_replacements line_texts
proof unfold_locales
  fix f rs
  assume "reps_ok 0 (length (line_texts f)) rs"
  then have "reps_ok 0 (length (file_lines f)) rs"
    by (simp add: line_texts_def)
  from source_file_apply_replacements_eq[OF this]
  show "\<exists>f'. source_file_apply_replacements rs f = Some f' \<and>
      line_texts f' = splice_lines id 0 rs (line_texts f)"
    by (simp add: line_texts_def comp_def splice_lines_map)
qed

lemma into_contents_terminated:
  assumes "list_all terminated (file_lines f)"
  shows "into_contents f = [] \<or> last (into_contents f) \<in> {LF, CR}"
proof (cases "file_lines f" rule: rev_cases)
  case Nil
  then show ?thesis by (simp add: into_contents_def)
next
  case (snoc ls l)
  then obtain e where "line_end l = Some e"
    using assms by (auto simp: terminated_def)
  then show ?thesis
    using snoc by (cases e) (simp_all add: into_contents_def line_contents_def)
qed

section \<open>Properties\<close>

text \<open>
  writing a parsed file back gives the contents that were read, for every mix of line
  endings, including carriage returns alone and a last line without terminator.
\<close>

theorem into_contents_parse: "into_contents (source_file_parse contents) = contents"
  using scan_lines_contents[of "[]" "[]" None contents]
  by (auto simp: into_contents_def source_file_parse_def Let_def split: prod.splits)

text \<open>
  after an admissible rewrite every line is terminated, the lines outside the replaced ranges
  are the original ones with the ending they had (the preferred ending only where one was
  missing), and the inserted ones carry the preferred ending.
\<close>

theorem source_file_rewrite_keeps_endings:
  assumes "reps_ok 0 (length (file_lines f)) rs"
  shows "\<exists>f'. source_file_apply_replacements rs f = Some f' \<and>
    preferred_ending f' = preferred_ending f \<and>
    file_lines f' = splice_lines (inserted_line (preferred_ending f)) 0 rs
      (map (\<lambda>l. l\<lparr>line_end := get_or_insert (preferred_ending f) (line_end l)\<rparr>) (file_lines f)) \<and>
    list_all terminated (file_lines f')"
proof -
  let ?g = "\<lambda>l. l\<lparr>line_end := get_or_insert (preferred_ending f) (line_end l)\<rparr>"
  let ?ls = "splice_lines (inserted_line (preferred_ending f)) 0 rs (file_lines f)"
  have "?g \<circ> inserted_line (preferred_ending f) = inserted_line (preferred_ending f)"
    by (auto simp: get_or_insert_def)
  then have eq: "map ?g ?ls =
      splice_lines (inserted_line (preferred_ending f)) 0 rs (map ?g (file_lines f))"
    by (simp only: splice_lines_map)
  have "list_all terminated (map ?g ?ls)"
    by (auto simp: list_all_iff terminated_def get_or_insert_def split: option.splits)
  then show ?thesis
    using source_file_apply_replacements_eq[OF assms] eq by simp
qed

theorem source_file_rewrite_keeps_endings_witness:
  "\<exists>f'. source_file_apply_replacements [(0, 1, [lit ''z''])]
       (source_file_parse (lit ''a'' @ CR # LF # lit ''b'')) = Some f' \<and>
     into_contents f' = lit ''z'' @ CR # LF # lit ''b'' @ [CR, LF]"
proof -
  let ?f = "source_file_parse (lit ''a'' @ CR # LF # lit ''b'')"
  have f: "?f = \<lparr>file_lines = [\<lparr>line_text = [97], line_end = Some CrLf\<rparr>,
      \<lparr>line_text = [98], line_end = None\<rparr>], preferred_ending = CrLf\<rparr>"
    by code_simp
  have ok: "reps_ok 0 (length (file_lines ?f)) [(0, 1, [lit ''z''])]"
    unfolding f by simp
  show ?thesis
    using source_file_rewrite_keeps_endings[OF ok] unfolding f
    by (auto simp: into_contents_def line_contents_def get_or_insert_def lit_def)
qed

end
