(* ===== verification/File_Update.thy ===== *)
theory File_Update
  imports Seek_Sequence Text_File
begin

text \<open>
  \<open>apply-patch/src/file_update.rs\<close>: turning the chunks of an update hunk into replacements of
  file lines and applying them, in both update modes. Every index subtraction, slice and
  insertion that would panic in Rust is written out (\<open>None\<close>).

  The lemmas show that chunks as the parser builds them (\<open>chunk_wf\<close>) never make this code panic,
  that the replacements computed in \<open>PreserveLineEndings\<close> mode meet the precondition \<open>reps_ok\<close>
  of the rewriter, and what the resulting lines are.
\<close>

section \<open>The model\<close>

record applied_patch =
  original_contents :: rstr
  new_contents :: rstr

text \<open>
  The loop over \<open>context_line_indices\<close> of the \<open>PreserveLineEndings\<close> branch: the two cursors and
  the replacements pushed so far.
\<close>

fun context_loop ::
  "nat \<Rightarrow> nat \<Rightarrow> rstr list \<Rightarrow> (nat \<times> nat) list \<Rightarrow> nat \<Rightarrow> nat \<Rightarrow> replacement list \<Rightarrow>
   (nat \<times> nat \<times> replacement list) option" where
  "context_loop start_idx pattern_len new_slice [] old_start new_start reps =
     Some (old_start, new_start, reps)"
| "context_loop start_idx pattern_len new_slice ((old_context, new_context) # ctx) old_start new_start reps =
     (if old_context \<ge> pattern_len \<or> new_context \<ge> length new_slice then
        Some (old_start, new_start, reps)
      else if old_start \<noteq> old_context \<or> new_start \<noteq> new_context then
        (case usize_sub old_context old_start of
           None \<Rightarrow> None
         | Some k \<Rightarrow>
            (case slice_range new_start new_context new_slice of
               None \<Rightarrow> None
             | Some seg \<Rightarrow>
                 context_loop start_idx pattern_len new_slice ctx (old_context + 1) (new_context + 1)
                   (reps @ [(start_idx + old_start, k, seg)])))
      else
        context_loop start_idx pattern_len new_slice ctx (old_context + 1) (new_context + 1) reps)"

definition preserve_replacements ::
  "nat \<Rightarrow> nat \<Rightarrow> rstr list \<Rightarrow> (nat \<times> nat) list \<Rightarrow> replacement list option" where
  "preserve_replacements start_idx pattern_len new_slice ctx =
     (case context_loop start_idx pattern_len new_slice ctx 0 0 [] of
        None \<Rightarrow> None
      | Some (old_start, new_start, reps) \<Rightarrow>
          (if old_start \<noteq> pattern_len \<or> new_start \<noteq> length new_slice then
             (case usize_sub pattern_len old_start of
                None \<Rightarrow> None
              | Some k \<Rightarrow>
                 (case slice_range new_start (length new_slice) new_slice of
                    None \<Rightarrow> None
                  | Some seg \<Rightarrow> Some (reps @ [(start_idx + old_start, k, seg)])))
           else Some reps))"

text \<open>
  The search for \<open>old_lines\<close> with the retry without a trailing empty line: the index found, the
  pattern and the new lines that go with it.
\<close>

definition find_old_lines ::
  "rstr list \<Rightarrow> update_file_chunk \<Rightarrow> nat \<Rightarrow> update_mode \<Rightarrow> nat option \<times> rstr list \<times> rstr list" where
  "find_old_lines original_lines chunk line_index mode =
     (let pattern = old_lines chunk;
          new_slice = new_lines chunk;
          found = seek_sequence original_lines pattern line_index (is_end_of_file chunk) mode
      in
      if found = None \<and> last_opt pattern = Some [] then
        let pattern' = take (length pattern - 1) pattern;
            new_slice' = (if last_opt new_slice = Some [] then take (length new_slice - 1) new_slice
                          else new_slice)
        in (seek_sequence original_lines pattern' line_index (is_end_of_file chunk) mode,
            pattern', new_slice')
      else (found, pattern, new_slice))"

definition insertion_index :: "rstr list \<Rightarrow> update_mode \<Rightarrow> nat" where
  "insertion_index original_lines mode =
     (case mode of
        NormalizeToLf \<Rightarrow>
          (if last_opt original_lines = Some [] then length original_lines - 1
           else length original_lines)
      | PreserveLineEndings \<Rightarrow> length original_lines)"

text \<open>
  One round of the loop over the chunks: from the cursor \<open>line_index\<close> and the replacements so far
  to the next ones. \<open>None\<close> is a panic, \<open>Err\<close> the early return with an error.
\<close>

definition locate_context ::
  "rstr list \<Rightarrow> rstr \<Rightarrow> update_file_chunk \<Rightarrow> update_mode \<Rightarrow> nat \<Rightarrow> (nat, apply_patch_error) result" where
  "locate_context original_lines path chunk mode line_index =
     (case change_context chunk of
        None \<Rightarrow> Ok line_index
      | Some ctx_line \<Rightarrow>
          (case seek_sequence original_lines [ctx_line] line_index False mode of
             Some idx \<Rightarrow> Ok (idx + 1)
           | None \<Rightarrow> Err (ComputeReplacements
               (lit ''Failed to find context '' @ squoted ctx_line @ lit '' in '' @ path))))"

definition chunk_replacements ::
  "rstr list \<Rightarrow> rstr \<Rightarrow> update_file_chunk \<Rightarrow> update_mode \<Rightarrow> nat \<times> replacement list \<Rightarrow>
   (nat \<times> replacement list, apply_patch_error) result option" where
  "chunk_replacements original_lines path chunk mode = (\<lambda>(line_index, reps).
     case locate_context original_lines path chunk mode line_index of
       Err e \<Rightarrow> Some (Err e)
     | Ok line_index \<Rightarrow>
         if old_lines chunk = [] then
           Some (Ok (line_index, reps @ [(insertion_index original_lines mode, 0, new_lines chunk)]))
         else
           (case find_old_lines original_lines chunk line_index mode of
              (None, pattern, new_slice) \<Rightarrow>
                Some (Err (ComputeReplacements
                  (lit ''Failed to find expected lines in '' @ path @ lit '':'' @ [LF] @
                   join [LF] (old_lines chunk))))
            | (Some start_idx, pattern, new_slice) \<Rightarrow>
                (case (case mode of
                         NormalizeToLf \<Rightarrow> Some [(start_idx, length pattern, new_slice)]
                       | PreserveLineEndings \<Rightarrow>
                           preserve_replacements start_idx (length pattern) new_slice
                             (context_line_indices chunk)) of
                   None \<Rightarrow> None
                 | Some added \<Rightarrow> Some (Ok (start_idx + length pattern, reps @ added)))))"

fun chunks_loop ::
  "rstr list \<Rightarrow> rstr \<Rightarrow> update_mode \<Rightarrow> update_file_chunk list \<Rightarrow> nat \<times> replacement list \<Rightarrow>
   (replacement list, apply_patch_error) result option" where
  "chunks_loop original_lines path mode [] st = Some (Ok (snd st))"
| "chunks_loop original_lines path mode (chunk # chunks) st =
     (case chunk_replacements original_lines path chunk mode st of
        None \<Rightarrow> None
      | Some (Err e) \<Rightarrow> Some (Err e)
      | Some (Ok st') \<Rightarrow> chunks_loop original_lines path mode chunks st')"

definition compute_replacements ::
  "rstr list \<Rightarrow> rstr \<Rightarrow> update_file_chunk list \<Rightarrow> update_mode \<Rightarrow>
   (replacement list, apply_patch_error) result option" where
  "compute_replacements original_lines path chunks mode =
     (case chunks_loop original_lines path mode chunks (0, []) of
        None \<Rightarrow> None
      | Some (Err e) \<Rightarrow> Some (Err e)
      | Some (Ok reps) \<Rightarrow> Some (Ok (sort_key fst reps)))"

text \<open>The function \<open>apply_replacements\<close>: last replacement first, remove then insert one by one.\<close>

fun remove_lines :: "nat \<Rightarrow> nat \<Rightarrow> 'a list \<Rightarrow> 'a list" where
  "remove_lines start_idx 0 ls = ls"
| "remove_lines start_idx (Suc n) ls =
     remove_lines start_idx n
       (if start_idx < length ls then take start_idx ls @ drop (Suc start_idx) ls else ls)"

fun insert_lines :: "nat \<Rightarrow> 'a list \<Rightarrow> 'a list \<Rightarrow> 'a list option" where
  "insert_lines i [] ls = Some ls"
| "insert_lines i (x # xs) ls =
     (case vec_insert i x ls of None \<Rightarrow> None | Some ls' \<Rightarrow> insert_lines (Suc i) xs ls')"

fun apply_replacements_rev :: "replacement list \<Rightarrow> rstr list \<Rightarrow> rstr list option" where
  "apply_replacements_rev [] ls = Some ls"
| "apply_replacements_rev ((start_idx, old_len, new_segment) # rs) ls =
     (case insert_lines start_idx new_segment (remove_lines start_idx old_len ls) of
        None \<Rightarrow> None
      | Some ls' \<Rightarrow> apply_replacements_rev rs ls')"

definition apply_replacements :: "replacement list \<Rightarrow> rstr list \<Rightarrow> rstr list option" where
  "apply_replacements rs ls = apply_replacements_rev (rev rs) ls"

text \<open>
  \<open>derive_new_contents_from_chunks\<close> from the outcome of reading the file (the \<open>await\<close> of
  \<open>read_file_text\<close>) on. \<open>path_text\<close> is the native spelling of the path.
\<close>

definition normalize_new_contents ::
  "rstr \<Rightarrow> rstr \<Rightarrow> update_file_chunk list \<Rightarrow> (rstr, apply_patch_error) result option" where
  "normalize_new_contents contents path_text chunks =
     (let ls = split_char LF contents;
          original_lines = (if last_opt ls = Some [] then butlast ls else ls)
      in case compute_replacements original_lines path_text chunks NormalizeToLf of
           None \<Rightarrow> None
         | Some (Err e) \<Rightarrow> Some (Err e)
         | Some (Ok reps) \<Rightarrow>
             (case apply_replacements reps original_lines of
                None \<Rightarrow> None
              | Some new_ls \<Rightarrow>
                  Some (Ok (join [LF] (if last_opt new_ls = Some [] then new_ls else new_ls @ [[]])))))"

definition preserve_new_contents ::
  "rstr \<Rightarrow> rstr \<Rightarrow> update_file_chunk list \<Rightarrow> (rstr, apply_patch_error) result option" where
  "preserve_new_contents contents path_text chunks =
     (let source_file = source_file_parse contents in
      case compute_replacements (line_texts source_file) path_text chunks PreserveLineEndings of
        None \<Rightarrow> None
      | Some (Err e) \<Rightarrow> Some (Err e)
      | Some (Ok reps) \<Rightarrow>
          (case source_file_apply_replacements reps source_file of
             None \<Rightarrow> None
           | Some f \<Rightarrow> Some (Ok (into_contents f))))"

definition derive_new_contents_from_chunks ::
  "(rstr, io_error) result \<Rightarrow> rstr \<Rightarrow> update_file_chunk list \<Rightarrow> update_mode \<Rightarrow>
   (applied_patch, apply_patch_error) result option" where
  "derive_new_contents_from_chunks read_outcome path_text chunks mode =
     (case read_outcome of
        Err err \<Rightarrow> Some (Err (IoError (lit ''Failed to read file to update '' @ path_text) err))
      | Ok contents \<Rightarrow>
          (case (case mode of
                   NormalizeToLf \<Rightarrow> normalize_new_contents contents path_text chunks
                 | PreserveLineEndings \<Rightarrow> preserve_new_contents contents path_text chunks) of
             None \<Rightarrow> None
           | Some (Err e) \<Rightarrow> Some (Err e)
           | Some (Ok new) \<Rightarrow> Some (Ok \<lparr>original_contents = contents, new_contents = new\<rparr>)))"

section \<open>The rewriter on plain lines\<close>

lemma remove_lines_eq: "start_idx \<le> length ls \<Longrightarrow>
    remove_lines start_idx n ls = take start_idx ls @ drop (start_idx + n) ls"
proof (induction start_idx n ls rule: remove_lines.induct)
  case (1 start_idx ls)
  then show ?case by simp
next
  case (2 start_idx n ls)
  then show ?case by (cases "start_idx < length ls") (auto simp: min_def add.commute)
qed

lemma insert_lines_eq:
  "i \<le> length ls \<Longrightarrow> insert_lines i xs ls = Some (take i ls @ xs @ drop i ls)"
proof (induction i xs ls rule: insert_lines.induct)
  case (1 i ls)
  then show ?case by simp
next
  case (2 i x xs ls)
  then show ?case by (simp add: rust_vec min_def)
qed

text \<open>One replacement whose start is inside the file: its effect, whatever its length.\<close>

lemma replace_once:
  assumes "start_idx \<le> length ls"
  shows "insert_lines start_idx seg (remove_lines start_idx old_len ls) =
    Some (take start_idx ls @ seg @ drop (start_idx + old_len) ls)"
  using assms by (simp add: remove_lines_eq insert_lines_eq)

text \<open>Starts in descending order keep the file long enough, so nothing panics.\<close>

lemma apply_replacements_rev_total:
  assumes "sorted_wrt (\<ge>) (map fst rs)" and "\<forall>r \<in> set rs. fst r \<le> length ls"
  shows "\<exists>ls'. apply_replacements_rev rs ls = Some ls'"
  using assms
proof (induction rs ls rule: apply_replacements_rev.induct)
  case (1 ls)
  then show ?case by simp
next
  case (2 start_idx old_len seg rs ls)
  then have le: "start_idx \<le> length ls" by simp
  let ?ls = "take start_idx ls @ seg @ drop (start_idx + old_len) ls"
  have "\<forall>r \<in> set rs. fst r \<le> length ?ls"
    using "2.prems" by (auto simp: min_def)
  then have "\<exists>ls'. apply_replacements_rev rs ?ls = Some ls'"
    using "2.IH"[OF replace_once[OF le]] "2.prems"(1) by simp
  then show ?case
    using replace_once[OF le] by simp
qed

lemma take_drop_rest: "m \<le> n \<Longrightarrow> take (n - m) (drop m ls) @ drop n ls = drop m ls"
  by (metis append_take_drop_id drop_drop le_add_diff_inverse2)

lemma apply_replacements_rev_splice:
  assumes "reps_ok 0 n rs" and "n \<le> length ls"
  shows "apply_replacements_rev (rev rs) ls = Some (splice_lines id 0 rs (take n ls) @ drop n ls)"
  using assms
proof (induction rs arbitrary: n ls rule: rev_induct)
  case Nil
  then show ?case by simp
next
  case (snoc r rs)
  obtain s old seg where r: "r = (s, old, seg)" by (cases r)
  have ok: "s + old \<le> n" "reps_ok 0 s rs"
    using snoc.prems r by (simp_all add: reps_ok_append)
  let ?ls = "take s ls @ seg @ drop (s + old) ls"
  have le: "s \<le> length ls" using ok snoc.prems by simp
  have "apply_replacements_rev (rev (rs @ [r])) ls = apply_replacements_rev (rev rs) ?ls"
    using replace_once[OF le] r by simp
  also have "\<dots> = Some (splice_lines id 0 rs (take s ls) @ seg @ drop (s + old) ls)"
    using snoc.IH[OF ok(2), of ?ls] le by simp
  also have "splice_lines id 0 rs (take s ls) @ seg @ drop (s + old) ls =
      splice_lines id 0 (rs @ [r]) (take n ls) @ drop n ls"
    using splice_lines_snoc[of 0 s rs old "take n ls" id seg] ok snoc.prems(2) r
    by (simp add: min_def drop_take take_drop_rest)
  finally show ?case .
qed

lemma apply_replacements_splice:
  "reps_ok 0 (length ls) rs \<Longrightarrow> apply_replacements rs ls = Some (splice_lines id 0 rs ls)"
  using apply_replacements_rev_splice[of "length ls" rs ls] by (simp add: apply_replacements_def)

interpretation vec: line_rewriter apply_replacements "\<lambda>ls. ls"
  by unfold_locales (simp add: apply_replacements_splice)

interpretation both: rewriter_pair source_file_apply_replacements line_texts
    apply_replacements "\<lambda>ls. ls"
  by unfold_locales

section \<open>Ordering the replacements\<close>

definition rep_end :: "replacement \<Rightarrow> nat" where
  "rep_end r = fst r + fst (snd r)"

abbreviation rep_before :: "replacement \<Rightarrow> replacement \<Rightarrow> bool" where
  "rep_before a b \<equiv> rep_end a \<le> fst b"

text \<open>Two replacements that a stable sort by start index will put in a non-overlapping order.\<close>

definition rep_sortable :: "replacement \<Rightarrow> replacement \<Rightarrow> bool" where
  "rep_sortable a b \<longleftrightarrow> rep_before a b \<or> (fst b < fst a \<and> rep_before b a)"

lemma reps_ok_iff_sorted_wrt:
  "reps_ok i n rs \<longleftrightarrow> i \<le> n \<and> sorted_wrt rep_before rs \<and>
     (\<forall>r \<in> set rs. i \<le> fst r \<and> rep_end r \<le> n)"
proof (induction i n rs rule: reps_ok.induct)
  case (1 i n)
  then show ?case by simp
next
  case (2 i n s old seg rs)
  show ?case
    unfolding reps_ok.simps "2.IH" by (fastforce simp: rep_end_def)
qed

lemma rep_start_le_end: "fst r \<le> rep_end r"
  by (simp add: rep_end_def)

lemma insort_key_before:
  assumes "sorted (map fst ys)" and "sorted_wrt rep_before ys" and "\<forall>y \<in> set ys. rep_sortable x y"
  shows "sorted_wrt rep_before (insort_key fst x ys)"
  using assms
proof (induction ys)
  case Nil
  then show ?case by simp
next
  case (Cons y ys)
  show ?case
  proof (cases "fst x \<le> fst y")
    case True
    have "rep_before x z" if "z \<in> set (y # ys)" for z
      using that True Cons.prems by (auto simp: rep_sortable_def)
    then show ?thesis
      using True Cons.prems by simp
  next
    case False
    then have "rep_before y x"
      using Cons.prems(3) rep_start_le_end[of x] by (auto simp: rep_sortable_def)
    then show ?thesis
      using False Cons by (auto simp: set_insort_key)
  qed
qed

lemma sort_key_before:
  "sorted_wrt rep_sortable rs \<Longrightarrow> sorted_wrt rep_before (sort_key fst rs)"
  by (induction rs) (auto intro!: insort_key_before)

lemma reps_ok_sorted: "reps_ok i n rs \<Longrightarrow> sorted (map fst rs)"
  unfolding sorted_map reps_ok_iff_sorted_wrt
  by (auto elim!: sorted_wrt_mono_rel[rotated] intro: order_trans[OF rep_start_le_end])

lemma sort_key_id_if_sorted: "sorted (map f xs) \<Longrightarrow> sort_key f xs = xs"
  by (induction xs) (auto simp: insort_is_Cons)

lemma sort_reps_ok:
  assumes "sorted_wrt rep_sortable rs" and "\<forall>r \<in> set rs. rep_end r \<le> n"
  shows "reps_ok 0 n (sort_key fst rs)"
  using assms by (simp add: reps_ok_iff_sorted_wrt sort_key_before)

section \<open>One chunk in PreserveLineEndings mode\<close>

definition context_from :: "nat \<Rightarrow> nat \<Rightarrow> (nat \<times> nat) list \<Rightarrow> bool" where
  "context_from old_start new_start ctx \<longleftrightarrow>
     sorted_wrt context_step ctx \<and> (\<forall>(i, j) \<in> set ctx. old_start \<le> i \<and> new_start \<le> j)"

lemma context_from_Cons:
  assumes "context_from old_start new_start ((i, j) # ctx)"
  shows "old_start \<le> i" and "new_start \<le> j" and "context_from (i + 1) (j + 1) ctx"
  using assms by (fastforce simp: context_from_def context_step_def)+

text \<open>
  The loop never panics; it leaves both cursors inside the slices, appends admissible
  replacements between the old and the new cursor, and reads only admissible ranges.
\<close>

lemma context_loop_ok:
  assumes "context_from old_start new_start ctx"
    and "old_start \<le> pattern_len" and "new_start \<le> length new_slice"
  shows "\<exists>old' new' added.
    context_loop start_idx pattern_len new_slice ctx old_start new_start reps =
      Some (old', new', reps @ added) \<and>
    old' \<le> pattern_len \<and> new' \<le> length new_slice \<and> old_start \<le> old' \<and>
    reps_ok (start_idx + old_start) (start_idx + old') added"
  using assms
proof (induction start_idx pattern_len new_slice ctx old_start new_start reps rule: context_loop.induct)
  case (1 start_idx pattern_len new_slice old_start new_start reps)
  then show ?case by auto
next
  case (2 start_idx pattern_len new_slice i j ctx old_start new_start reps)
  note c = context_from_Cons[OF "2.prems"(1)]
  show ?case
  proof (cases "i \<ge> pattern_len \<or> j \<ge> length new_slice")
    case True
    then show ?thesis using "2.prems" by auto
  next
    case inside: False
    show ?thesis
    proof (cases "old_start \<noteq> i \<or> new_start \<noteq> j")
      case True
      have sub: "usize_sub i old_start = Some (i - old_start)"
        and sl: "slice_range new_start j new_slice = Some (drop new_start (take j new_slice))"
        using c inside by (simp_all add: rust_vec)
      let ?r = "(start_idx + old_start, i - old_start, drop new_start (take j new_slice))"
      from "2.IH"(1)[OF inside True sub sl c(3)] inside obtain old' new' added where
        IH: "context_loop start_idx pattern_len new_slice ctx (i + 1) (j + 1) (reps @ [?r]) =
              Some (old', new', (reps @ [?r]) @ added)"
          "old' \<le> pattern_len" "new' \<le> length new_slice" "i + 1 \<le> old'"
          "reps_ok (start_idx + (i + 1)) (start_idx + old') added"
        by auto
      have "reps_ok (start_idx + old_start) (start_idx + old') (?r # added)"
        using IH(4,5) c by (auto intro: reps_ok_mono)
      moreover have "context_loop start_idx pattern_len new_slice ((i, j) # ctx) old_start new_start reps =
          Some (old', new', reps @ ?r # added)"
        using IH(1) inside True sub sl by simp
      ultimately show ?thesis
        using IH c by (intro exI[of _ old'] exI[of _ new'] exI[of _ "?r # added"]) auto
    next
      case False
      from "2.IH"(2)[OF inside False c(3)] inside obtain old' new' added where
        IH: "context_loop start_idx pattern_len new_slice ctx (i + 1) (j + 1) reps =
              Some (old', new', reps @ added)"
          "old' \<le> pattern_len" "new' \<le> length new_slice" "i + 1 \<le> old'"
          "reps_ok (start_idx + (i + 1)) (start_idx + old') added"
        by auto
      then show ?thesis
        using False inside c reps_ok_mono[OF IH(5), of "start_idx + old_start"]
        by (intro exI[of _ old'] exI[of _ new'] exI[of _ added]) auto
    qed
  qed
qed

lemma preserve_replacements_ok:
  assumes "context_from 0 0 ctx"
  shows "\<exists>added. preserve_replacements start_idx pattern_len new_slice ctx = Some added \<and>
    reps_ok start_idx (start_idx + pattern_len) added"
proof -
  obtain old' new' added where loop:
    "context_loop start_idx pattern_len new_slice ctx 0 0 [] = Some (old', new', added)"
    "old' \<le> pattern_len" "new' \<le> length new_slice"
    "reps_ok start_idx (start_idx + old') added"
    using context_loop_ok[OF assms, of pattern_len new_slice start_idx "[]"] by auto
  have "reps_ok start_idx (start_idx + pattern_len)
      (added @ [(start_idx + old', pattern_len - old', drop new' new_slice)])"
    using loop by (simp add: reps_ok_append)
  moreover have "reps_ok start_idx (start_idx + pattern_len) added" if "old' = pattern_len"
    using loop that by simp
  ultimately show ?thesis
    using loop by (auto simp: preserve_replacements_def rust_vec)
qed

lemma chunk_wf_context_from: "chunk_wf c \<Longrightarrow> context_from 0 0 (context_line_indices c)"
  by (simp add: chunk_wf_def context_from_def split: prod.splits)

section \<open>The loop over the chunks\<close>

lemma locate_context_bounds:
  assumes "locate_context ls path chunk mode line_index = Ok li" and "line_index \<le> length ls"
  shows "li \<le> length ls"
  using assms
  by (auto simp: locate_context_def split: option.splits dest: seek_sequence_bounds)

lemma locate_context_forward:
  assumes "locate_context ls path chunk mode line_index = Ok li"
  shows "line_index \<le> li"
  using assms
  by (auto simp: locate_context_def split: option.splits dest: seek_sequence_ge_start)

lemma find_old_lines_bounds:
  assumes "find_old_lines ls chunk line_index mode = (Some s, pattern, new_slice)"
    and "line_index \<le> length ls"
  shows "s + length pattern \<le> length ls"
  using assms
  by (auto simp: find_old_lines_def Let_def split: if_splits dest: seek_sequence_bounds)

lemma find_old_lines_forward:
  assumes "find_old_lines ls chunk line_index PreserveLineEndings = (Some s, pattern, new_slice)"
  shows "line_index \<le> s"
  using assms
  by (auto simp: find_old_lines_def Let_def split: if_splits dest: preserving.seek_forward)

text \<open>
  What the loop keeps in \<open>PreserveLineEndings\<close> mode: the cursor is inside the file, and every
  replacement ends before the cursor or is an insertion at the end of the file.
\<close>

definition preserve_loop_inv :: "nat \<Rightarrow> nat \<times> replacement list \<Rightarrow> bool" where
  "preserve_loop_inv n st \<longleftrightarrow> fst st \<le> n \<and> sorted_wrt rep_sortable (snd st) \<and>
     (\<forall>r \<in> set (snd st). rep_end r \<le> n \<and> (rep_end r \<le> fst st \<or> fst r = n))"

lemma preserve_loop_inv_extend:
  assumes inv: "preserve_loop_inv n (li0, reps)" and "li0 \<le> s" and "s + k \<le> n"
    and added: "reps_ok s (s + k) added"
  shows "preserve_loop_inv n (s + k, reps @ added)"
proof -
  have new: "s \<le> fst r" "rep_end r \<le> s + k" if "r \<in> set added" for r
    using added that by (auto simp: reps_ok_iff_sorted_wrt)
  have "sorted_wrt rep_sortable added"
    using added by (auto simp: reps_ok_iff_sorted_wrt rep_sortable_def
        intro: sorted_wrt_mono_rel[rotated])
  moreover have "rep_sortable a b" if "a \<in> set reps" "b \<in> set added" for a b
  proof -
    have "rep_end a \<le> li0 \<or> (fst a = n \<and> rep_end a \<le> n)"
      using inv that by (auto simp: preserve_loop_inv_def)
    then show ?thesis
      using new[OF that(2)] rep_start_le_end[of b] assms(2,3)
      by (auto simp: rep_sortable_def)
  qed
  ultimately show ?thesis
    using inv assms(2,3) new
    by (fastforce simp: preserve_loop_inv_def sorted_wrt_append)
qed

lemma chunk_replacements_preserve:
  assumes "chunk_wf chunk" and inv: "preserve_loop_inv (length ls) (li0, reps)"
  shows "\<exists>r. chunk_replacements ls path chunk PreserveLineEndings (li0, reps) = Some r \<and>
    (\<forall>st'. r = Ok st' \<longrightarrow> preserve_loop_inv (length ls) st')"
proof (cases "locate_context ls path chunk PreserveLineEndings li0")
  case (Err e)
  then show ?thesis by (simp add: chunk_replacements_def)
next
  case (Ok li)
  have li: "li0 \<le> li" "li \<le> length ls"
    using locate_context_forward[OF Ok] locate_context_bounds[OF Ok] inv
    by (auto simp: preserve_loop_inv_def)
  show ?thesis
  proof (cases "old_lines chunk = []")
    case True
    have "preserve_loop_inv (length ls) (li, reps @ [(length ls, 0, new_lines chunk)])"
      using inv li by (fastforce simp: preserve_loop_inv_def sorted_wrt_append rep_sortable_def rep_end_def)
    then show ?thesis
      using Ok True by (simp add: chunk_replacements_def insertion_index_def)
  next
    case False
    obtain fd pattern new_slice where
      fol: "find_old_lines ls chunk li PreserveLineEndings = (fd, pattern, new_slice)"
      by (metis prod_cases3)
    show ?thesis
    proof (cases fd)
      case None
      then show ?thesis using Ok False fol by (simp add: chunk_replacements_def)
    next
      case (Some s)
      obtain added where added:
        "preserve_replacements s (length pattern) new_slice (context_line_indices chunk) = Some added"
        "reps_ok s (s + length pattern) added"
        using preserve_replacements_ok[OF chunk_wf_context_from[OF assms(1)]] by blast
      have "preserve_loop_inv (length ls) (s + length pattern, reps @ added)"
        using preserve_loop_inv_extend[OF inv _ _ added(2)] find_old_lines_bounds[of ls chunk li]
          find_old_lines_forward[of ls chunk li] fol Some li by force
      then show ?thesis
        using Ok False fol Some added(1) by (simp add: chunk_replacements_def)
    qed
  qed
qed

lemma chunks_loop_preserve:
  assumes "list_all chunk_wf chunks" and "preserve_loop_inv (length ls) st"
  shows "\<exists>r. chunks_loop ls path PreserveLineEndings chunks st = Some r \<and>
    (\<forall>reps. r = Ok reps \<longrightarrow> sorted_wrt rep_sortable reps \<and> (\<forall>x \<in> set reps. rep_end x \<le> length ls))"
  using assms
proof (induction chunks arbitrary: st)
  case Nil
  then show ?case by (auto simp: preserve_loop_inv_def)
next
  case (Cons chunk chunks)
  obtain r where r: "chunk_replacements ls path chunk PreserveLineEndings st = Some r"
    "\<forall>st'. r = Ok st' \<longrightarrow> preserve_loop_inv (length ls) st'"
    using chunk_replacements_preserve[of chunk ls "fst st" "snd st" path] Cons.prems by auto
  show ?case
  proof (cases r)
    case (Ok st')
    then show ?thesis using Cons.IH[of st'] Cons.prems r by simp
  next
    case (Err e)
    then show ?thesis using r by simp
  qed
qed

lemma compute_replacements_preserve:
  assumes "list_all chunk_wf chunks"
  shows "\<exists>r. compute_replacements ls path chunks PreserveLineEndings = Some r \<and>
    (\<forall>reps. r = Ok reps \<longrightarrow> reps_ok 0 (length ls) reps)"
proof -
  have "preserve_loop_inv (length ls) (0, [])" by (simp add: preserve_loop_inv_def)
  from chunks_loop_preserve[OF assms this, of path] show ?thesis
    by (auto simp: compute_replacements_def sort_reps_ok split: result.splits)
qed

text \<open>In \<open>NormalizeToLf\<close> mode nothing can panic and every start index is inside the file.\<close>

lemma chunk_replacements_normalize:
  assumes "fst st \<le> length ls" and "\<forall>x \<in> set (snd st). fst x \<le> length ls"
  shows "\<exists>r. chunk_replacements ls path chunk NormalizeToLf st = Some r \<and>
    (\<forall>st'. r = Ok st' \<longrightarrow> fst st' \<le> length ls \<and> (\<forall>x \<in> set (snd st'). fst x \<le> length ls))"
  using assms find_old_lines_bounds[of ls chunk _ NormalizeToLf]
    locate_context_bounds[of ls path chunk NormalizeToLf]
  by (fastforce simp: chunk_replacements_def insertion_index_def
      split: result.splits option.splits prod.splits)

lemma compute_replacements_normalize:
  "\<exists>r. compute_replacements ls path chunks NormalizeToLf = Some r \<and>
    (\<forall>reps. r = Ok reps \<longrightarrow> sorted (map fst reps) \<and> (\<forall>x \<in> set reps. fst x \<le> length ls))"
proof -
  have loop: "\<exists>r. chunks_loop ls path NormalizeToLf chunks st = Some r \<and>
      (\<forall>reps. r = Ok reps \<longrightarrow> (\<forall>x \<in> set reps. fst x \<le> length ls))"
    if "fst st \<le> length ls" "\<forall>x \<in> set (snd st). fst x \<le> length ls" for st
    using that
  proof (induction chunks arbitrary: st)
    case Nil
    then show ?case by simp
  next
    case (Cons chunk chunks)
    obtain r where r: "chunk_replacements ls path chunk NormalizeToLf st = Some r"
      "\<forall>st'. r = Ok st' \<longrightarrow> fst st' \<le> length ls \<and> (\<forall>x \<in> set (snd st'). fst x \<le> length ls)"
      using chunk_replacements_normalize[OF Cons.prems] by blast
    then show ?case
      using Cons.IH by (cases r) auto
  qed
  from loop[of "(0, [])"] show ?thesis
    by (auto simp: compute_replacements_def split: result.splits)
qed

lemma apply_replacements_total:
  assumes "sorted (map fst rs)" and "\<forall>r \<in> set rs. fst r \<le> length ls"
  shows "\<exists>ls'. apply_replacements rs ls = Some ls'"
  using apply_replacements_rev_total[of "rev rs" ls] assms
  by (simp add: apply_replacements_def rev_map[symmetric] sorted_wrt_rev)

lemma normalize_new_contents_total: "normalize_new_contents contents path_text chunks \<noteq> None"
proof -
  define ls where "ls = (let ps = split_char LF contents in
    if last_opt ps = Some [] then butlast ps else ps)"
  obtain r where r: "compute_replacements ls path_text chunks NormalizeToLf = Some r"
    "\<forall>reps. r = Ok reps \<longrightarrow> sorted (map fst reps) \<and> (\<forall>x \<in> set reps. fst x \<le> length ls)"
    using compute_replacements_normalize by blast
  show ?thesis
  proof (cases r)
    case (Ok reps)
    then obtain ls' where "apply_replacements reps ls = Some ls'"
      using r(2) apply_replacements_total by blast
    then show ?thesis
      using r(1) Ok by (simp add: normalize_new_contents_def ls_def Let_def)
  next
    case (Err e)
    then show ?thesis
      using r(1) by (simp add: normalize_new_contents_def ls_def Let_def)
  qed
qed

lemma normalize_new_contents_shape:
  assumes "normalize_new_contents contents path_text chunks = Some (Ok new)"
  shows "\<exists>ls. new = join [LF] (ls @ [[]])"
proof -
  obtain new_ls where
    "new = join [LF] (if last_opt new_ls = Some [] then new_ls else new_ls @ [[]])"
    using assms
    by (auto simp: normalize_new_contents_def Let_def split: result.splits option.splits)
  then show ?thesis
    by (cases "last_opt new_ls = Some []") (auto simp: last_opt_Some_iff)
qed

lemma preserve_new_contents_total:
  assumes "list_all chunk_wf chunks"
  shows "preserve_new_contents contents path_text chunks \<noteq> None"
proof -
  let ?f = "source_file_parse contents"
  obtain r where r: "compute_replacements (line_texts ?f) path_text chunks PreserveLineEndings = Some r"
    "\<forall>reps. r = Ok reps \<longrightarrow> reps_ok 0 (length (line_texts ?f)) reps"
    using compute_replacements_preserve[OF assms] by blast
  show ?thesis
  proof (cases r)
    case (Ok reps)
    then obtain f' where "source_file_apply_replacements reps ?f = Some f'"
      using r(2) sf.rewrite_no_panic by blast
    then show ?thesis
      using r(1) Ok by (simp add: preserve_new_contents_def Let_def)
  next
    case (Err e)
    then show ?thesis
      using r(1) by (simp add: preserve_new_contents_def Let_def)
  qed
qed

section \<open>The effect of one chunk\<close>

text \<open>
  Context lines that equal the file's lines: the small replacements around them together do what
  replacing the whole pattern by the new lines does.
\<close>

definition context_equal :: "rstr list \<Rightarrow> rstr list \<Rightarrow> (nat \<times> nat) list \<Rightarrow> bool" where
  "context_equal old new ctx \<longleftrightarrow>
     (\<forall>(i, j) \<in> set ctx. i < length old \<and> j < length new \<longrightarrow> old ! i = new ! j)"

lemma context_equal_Cons:
  "context_equal old new ((i, j) # ctx) \<longleftrightarrow>
     (i < length old \<and> j < length new \<longrightarrow> old ! i = new ! j) \<and> context_equal old new ctx"
  by (simp add: context_equal_def)

lemma drop_take_nth_drop:
  "ns \<le> j \<Longrightarrow> j < length xs \<Longrightarrow> drop ns (take j xs) @ xs ! j # drop (Suc j) xs = drop ns xs"
  by (metis Cons_nth_drop_Suc append_take_drop_id diff_is_0_eq drop0 drop_append drop_take length_take
      less_imp_le min.absorb2)

lemma context_loop_effect:
  assumes "context_loop s (length old) new ctx os ns reps = Some (os', ns', reps @ added)"
    and "context_from os ns ctx" and "context_equal old new ctx"
    and "os \<le> length old" and "ns \<le> length new"
  shows "splice_lines id (s + os) (added @ [(s + os', length old - os', drop ns' new)])
    (drop os old @ rest) = drop ns new @ rest"
  using assms
proof (induction ctx arbitrary: os ns reps added)
  case Nil
  then show ?case by simp
next
  case (Cons p ctx)
  obtain i j where p: "p = (i, j)" by (cases p)
  note c = context_from_Cons[OF Cons.prems(2)[unfolded p]]
  show ?case
  proof (cases "i \<ge> length old \<or> j \<ge> length new")
    case True
    then show ?thesis using Cons.prems p by simp
  next
    case inside: False
    let ?tail = "(s + os', length old - os', drop ns' new)"
    have same: "old ! i = new ! j" and ceq: "context_equal old new ctx"
      using Cons.prems(3) inside by (auto simp: p context_equal_Cons)
    have old_i: "drop i old = old ! i # drop (Suc i) old"
      using inside by (simp add: Cons_nth_drop_Suc)
    have step: "splice_lines id (s + i) (ad @ [?tail]) (drop i old @ rest) = new ! j # drop (Suc j) new @ rest"
      if loop: "context_loop s (length old) new ctx (i + 1) (j + 1) rp = Some (os', ns', rp @ ad)" for rp ad
    proof -
      from context_loop_ok[OF c(3), of "length old" new s rp] loop inside
      have "reps_ok (Suc (s + i)) (s + os') ad" "os' \<le> length old" "i + 1 \<le> os'" by auto
      then have "reps_ok (Suc (s + i)) (s + length old) (ad @ [?tail])"
        by (simp add: reps_ok_append)
      from splice_lines_keep_line[OF this]
      have "splice_lines id (s + i) (ad @ [?tail]) (drop i old @ rest) =
          old ! i # splice_lines id (s + (i + 1)) (ad @ [?tail]) (drop (i + 1) old @ rest)"
        by (simp add: old_i)
      also have "\<dots> = old ! i # drop (Suc j) new @ rest"
        using Cons.IH[OF loop c(3) ceq] inside by simp
      finally show ?thesis by (simp add: same)
    qed
    show ?thesis
    proof (cases "os \<noteq> i \<or> ns \<noteq> j")
      case True
      let ?r = "(s + os, i - os, drop ns (take j new))"
      have loop: "context_loop s (length old) new ctx (i + 1) (j + 1) (reps @ [?r]) =
          Some (os', ns', reps @ added)"
        using Cons.prems(1) True inside c by (simp add: p rust_vec)
      with context_loop_ok[OF c(3), of "length old" new s "reps @ [?r]"] inside
      obtain ad where ad: "added = ?r # ad" by auto
      have "splice_lines id (s + i) (ad @ [?tail]) (drop i old @ rest) = new ! j # drop (Suc j) new @ rest"
        using step[of "reps @ [?r]" ad] loop ad by simp
      then show ?thesis
        using ad c inside drop_take_nth_drop[of ns j new] by simp
    next
      case False
      then have "context_loop s (length old) new ctx (i + 1) (j + 1) reps = Some (os', ns', reps @ added)"
        using Cons.prems(1) inside by (simp add: p)
      from step[OF this] show ?thesis
        using False inside by (simp add: Cons_nth_drop_Suc flip: append_Cons)
    qed
  qed
qed

lemma preserve_replacements_effect:
  assumes "context_from 0 0 ctx" and "context_equal old new ctx"
    and "preserve_replacements s (length old) new ctx = Some added"
  shows "splice_lines id s added (old @ rest) = new @ rest"
proof -
  obtain os' ns' ad where loop:
    "context_loop s (length old) new ctx 0 0 [] = Some (os', ns', ad)"
    "os' \<le> length old" "ns' \<le> length new" "reps_ok s (s + os') ad"
    using context_loop_ok[OF assms(1), of "length old" new s "[]"] by auto
  have eff: "splice_lines id s (ad @ [(s + os', length old - os', drop ns' new)]) (old @ rest) = new @ rest"
    using context_loop_effect[of s old new ctx 0 0 "[]" os' ns' ad rest] loop assms by simp
  show ?thesis
  proof (cases "os' \<noteq> length old \<or> ns' \<noteq> length new")
    case True
    then show ?thesis
      using assms(3) loop eff by (auto simp: preserve_replacements_def rust_vec)
  next
    case False
    then have "splice_lines id s ad old @ rest = new @ rest"
      using eff splice_lines_snoc[of s "s + os'" ad 0 "old @ rest" id "[]"] loop(4) by simp
    moreover have "added = ad"
      using assms(3) loop False by (simp add: preserve_replacements_def)
    ultimately show ?thesis
      using splice_append_suffix[of s old ad id rest] loop(4) False by simp
  qed
qed

lemma derive_new_contents_total:
  assumes "list_all chunk_wf chunks"
  shows "derive_new_contents_from_chunks read_outcome path_text chunks mode \<noteq> None"
proof (cases read_outcome)
  case (Err e)
  then show ?thesis by (simp add: derive_new_contents_from_chunks_def)
next
  case (Ok contents)
  then show ?thesis
    using normalize_new_contents_total[of contents path_text chunks]
      preserve_new_contents_total[OF assms, of contents path_text]
    by (auto simp: derive_new_contents_from_chunks_def
        split: result.splits update_mode.splits option.splits)
qed

section \<open>Properties\<close>

text \<open>
  chunks as the parser builds them never make the update panic. For well-formed chunks, any
  file contents and either mode, \<open>derive_new_contents_from_chunks\<close> returns: new contents or an
  error value. Every subtraction, slice and insertion on the way is in range.
\<close>

theorem derive_new_contents_no_panic:
  assumes "list_all chunk_wf chunks"
  shows "derive_new_contents_from_chunks read_outcome path_text chunks mode \<noteq> None"
  by (rule derive_new_contents_total[OF assms])

theorem derive_new_contents_no_panic_witness:
  "list_all chunk_wf [push_context_line (lit ''a'') default_chunk] \<and>
   derive_new_contents_from_chunks (Ok (lit ''a'')) (lit ''f'')
     [push_context_line (lit ''a'') default_chunk] PreserveLineEndings \<noteq> None"
proof -
  have h: "list_all chunk_wf [push_context_line (lit ''a'') default_chunk]"
    by (simp add: chunk_wf_push_context_line)
  show ?thesis using h derive_new_contents_no_panic[OF h] by blast
qed

text \<open>
  the replacements computed in \<open>PreserveLineEndings\<close> mode are source-ordered, do not overlap
  and stay inside the file, which is what \<open>SourceFile::apply_replacements\<close> requires of its
  caller.
\<close>

theorem compute_replacements_admissible:
  assumes "list_all chunk_wf chunks"
    and "compute_replacements ls path chunks PreserveLineEndings = Some (Ok reps)"
  shows "reps_ok 0 (length ls) reps"
  using compute_replacements_preserve[OF assms(1), of ls path] assms(2) by auto

theorem compute_replacements_admissible_witness:
  "\<exists>reps. compute_replacements [lit ''a'', lit ''b''] (lit ''f'')
     [default_chunk\<lparr>old_lines := [lit ''b''], new_lines := [lit ''c'']\<rparr>] PreserveLineEndings
       = Some (Ok reps) \<and> reps_ok 0 2 reps"
proof -
  let ?c = "default_chunk\<lparr>old_lines := [lit ''b''], new_lines := [lit ''c'']\<rparr>"
  have wf: "list_all chunk_wf [?c]"
    by (simp add: chunk_wf_def default_chunk_def)
  have eq: "compute_replacements [lit ''a'', lit ''b''] (lit ''f'') [?c] PreserveLineEndings =
      Some (Ok [(1, 1, [lit ''c''])])"
    by code_simp
  show ?thesis
    using compute_replacements_admissible[OF wf eq] eq by auto
qed

text \<open>
  on admissible replacements the two rewriters agree. The rewriter that keeps line endings
  and the one on plain lines both succeed and give the same line texts.
\<close>

theorem rewriters_agree_on_texts:
  assumes "reps_ok 0 (length (line_texts f)) rs"
  shows "\<exists>f' ls'. source_file_apply_replacements rs f = Some f' \<and>
    apply_replacements rs (line_texts f) = Some ls' \<and> line_texts f' = ls'"
  by (rule both.rewriters_agree[OF refl assms])

theorem rewriters_agree_on_texts_witness:
  "\<exists>f' ls'. source_file_apply_replacements [(0, 1, [])] (source_file_parse (lit ''ab'')) = Some f' \<and>
    apply_replacements [(0, 1, [])] (line_texts (source_file_parse (lit ''ab''))) = Some ls' \<and>
    line_texts f' = ls'"
proof -
  have "line_texts (source_file_parse (lit ''ab'')) = [lit ''ab'']" by code_simp
  then have "reps_ok 0 (length (line_texts (source_file_parse (lit ''ab'')))) [(0, 1, [])]" by simp
  then show ?thesis by (rule rewriters_agree_on_texts)
qed



text \<open>
  an updated file ends with a line terminator unless it is empty, whatever the original file
  ended with.
\<close>

theorem updated_contents_terminated:
  assumes "list_all chunk_wf chunks"
    and "derive_new_contents_from_chunks read_outcome path_text chunks mode = Some (Ok p)"
  shows "new_contents p = [] \<or> last (new_contents p) \<in> {LF, CR}"
proof (cases mode)
  case NormalizeToLf
  then obtain contents where
    "normalize_new_contents contents path_text chunks = Some (Ok (new_contents p))"
    using assms(2)
    by (auto simp: derive_new_contents_from_chunks_def split: result.splits option.splits)
  then obtain ls where "new_contents p = join [LF] (ls @ [[]])"
    using normalize_new_contents_shape by blast
  then show ?thesis
    by (cases "ls = []") (simp_all add: join_snoc)
next
  case PreserveLineEndings
  then obtain contents reps f' where
    "compute_replacements (line_texts (source_file_parse contents)) path_text chunks
       PreserveLineEndings = Some (Ok reps)"
    and f': "source_file_apply_replacements reps (source_file_parse contents) = Some f'"
    and new: "new_contents p = into_contents f'"
    using assms(2)
    by (auto simp: derive_new_contents_from_chunks_def preserve_new_contents_def Let_def
        split: result.splits option.splits)
  then have "reps_ok 0 (length (file_lines (source_file_parse contents))) reps"
    using compute_replacements_preserve[OF assms(1), of "line_texts (source_file_parse contents)" path_text]
    by (auto simp: line_texts_def)
  from source_file_apply_replacements_eq[OF this] f'
  have "list_all terminated (file_lines f')"
    by (auto simp: list_all_iff terminated_def get_or_insert_def split: option.splits)
  then show ?thesis
    unfolding new by (rule into_contents_terminated)
qed

theorem updated_contents_terminated_witness:
  "\<exists>p. derive_new_contents_from_chunks (Ok (lit ''a'')) (lit ''f'')
     [push_context_line (lit ''a'') default_chunk] NormalizeToLf = Some (Ok p) \<and>
   (new_contents p = [] \<or> last (new_contents p) \<in> {LF, CR})"
proof -
  have wf: "list_all chunk_wf [push_context_line (lit ''a'') default_chunk]"
    by (simp add: chunk_wf_push_context_line)
  have eq: "derive_new_contents_from_chunks (Ok (lit ''a'')) (lit ''f'')
      [push_context_line (lit ''a'') default_chunk] NormalizeToLf =
    Some (Ok \<lparr>original_contents = [97], new_contents = [97, 10]\<rparr>)"
    by code_simp
  show ?thesis
    using updated_contents_terminated[OF wf eq] eq by blast
qed

end
