(* ===== verification/Patch_Parser.thy ===== *)
theory Patch_Parser
  imports Patch_Types
begin

text \<open>
  \<open>apply-patch/src/streaming_parser.rs\<close> and \<open>apply-patch/src/parser.rs\<close>: the line-driven state
  machine that turns patch text into hunks while the text is still arriving, and the whole-text
  entry \<open>parse_patch\<close> with its lenient heredoc handling.

  Methods on \<open>&mut self\<close> return the parser they leave behind together with their result, also when
  the result is an error. The lemmas give: pushing text in pieces is pushing it at once; the
  parser's state invariant holds in every state a run can reach; hunks that \<open>finish\<close> or
  \<open>parse_patch\<close> hand out are complete and well-formed.
\<close>

section \<open>State\<close>

datatype streaming_parser_mode =
    NotStarted
  | StartedPatch
  | InAddFile
  | InDeleteFile
  | InUpdateFile nat
  | EndedPatch

record streaming_parser_state =
  sp_mode :: streaming_parser_mode
  sp_hunks :: "hunk list"
  sp_environment_id :: "rstr option"

record streaming_patch_parser =
  line_buffer :: rstr
  pstate :: streaming_parser_state
  line_number :: nat

definition default_parser :: streaming_patch_parser where
  "default_parser = \<lparr>line_buffer = [],
     pstate = \<lparr>sp_mode = NotStarted, sp_hunks = [], sp_environment_id = None\<rparr>, line_number = 0\<rparr>"

abbreviation hunks_of :: "streaming_patch_parser \<Rightarrow> hunk list" where
  "hunks_of p \<equiv> sp_hunks (pstate p)"

abbreviation mode_of :: "streaming_patch_parser \<Rightarrow> streaming_parser_mode" where
  "mode_of p \<equiv> sp_mode (pstate p)"

definition set_mode :: "streaming_parser_mode \<Rightarrow> streaming_patch_parser \<Rightarrow> streaming_patch_parser" where
  "set_mode m p = p\<lparr>pstate := (pstate p)\<lparr>sp_mode := m\<rparr>\<rparr>"

definition set_hunks :: "hunk list \<Rightarrow> streaming_patch_parser \<Rightarrow> streaming_patch_parser" where
  "set_hunks hs p = p\<lparr>pstate := (pstate p)\<lparr>sp_hunks := hs\<rparr>\<rparr>"

section \<open>Messages\<close>

definition empty_update_message :: "rstr \<Rightarrow> rstr" where
  "empty_update_message path =
     lit ''Update file hunk for path '' @ squoted path @ lit '' is empty''"

definition no_lines_message :: rstr where
  "no_lines_message = lit ''Update hunk does not contain any lines''"

definition unexpected_line_message :: "rstr \<Rightarrow> rstr" where
  "unexpected_line_message line =
     lit ''Unexpected line found in update hunk: '' @ squoted line @
     lit ''. Every line should start with '' @ squoted (lit '' '') @ lit '' (context line), '' @
     squoted (lit ''+'') @ lit '' (added line), or '' @ squoted (lit ''-'') @ lit '' (removed line)''"

definition expected_context_message :: "rstr \<Rightarrow> rstr" where
  "expected_context_message line =
     lit ''Expected update hunk to start with a @@ context marker, got: '' @ squoted line"

definition invalid_header_message :: "rstr \<Rightarrow> rstr" where
  "invalid_header_message trimmed =
     squoted trimmed @ lit '' is not a valid hunk header. Valid hunk headers: '' @
     squoted (lit ''*** Add File: {path}'') @ lit '', '' @
     squoted (lit ''*** Delete File: {path}'') @ lit '', '' @
     squoted (lit ''*** Update File: {path}'')"

definition first_line_message :: rstr where
  "first_line_message = lit ''The first line of the patch must be '' @ squoted BEGIN_PATCH_MARKER"

definition last_line_message :: rstr where
  "last_line_message = lit ''The last line of the patch must be '' @ squoted END_PATCH_MARKER"

section \<open>The state machine\<close>

definition ensure_update_hunk_is_not_empty ::
  "streaming_patch_parser \<Rightarrow> rstr \<Rightarrow> (unit, parse_error) result" where
  "ensure_update_hunk_is_not_empty p line =
     (case last_opt (hunks_of p) of
        Some (UpdateFile path mv chunks) \<Rightarrow>
          (case (chunks, mode_of p) of
             ([], InUpdateFile hunk_line_number) \<Rightarrow>
               Err (InvalidHunkError (empty_update_message path) hunk_line_number)
           | _ \<Rightarrow>
             (case last_opt chunks of
                Some chunk \<Rightarrow>
                  (if chunk_empty chunk then
                     (if line = END_PATCH_MARKER
                      then Err (InvalidHunkError no_lines_message (line_number p))
                      else Err (InvalidHunkError (unexpected_line_message line) (line_number p)))
                   else Ok ())
              | None \<Rightarrow> Ok ()))
      | _ \<Rightarrow> Ok ())"

text \<open>
  Ending the current hunk and starting another, or ending the patch: the common shape of the four
  header branches, \<open>self.ensure_update_hunk_is_not_empty(trimmed)?\<close> and then the update \<open>f\<close>.
\<close>

definition after_ensure ::
  "streaming_patch_parser \<Rightarrow> rstr \<Rightarrow> (streaming_patch_parser \<Rightarrow> streaming_patch_parser) \<Rightarrow>
   streaming_patch_parser \<times> (bool, parse_error) result" where
  "after_ensure p trimmed f =
     (case ensure_update_hunk_is_not_empty p trimmed of
        Err e \<Rightarrow> (p, Err e)
      | Ok _ \<Rightarrow> (f p, Ok True))"

definition push_hunk :: "hunk \<Rightarrow> streaming_parser_mode \<Rightarrow> streaming_patch_parser \<Rightarrow> streaming_patch_parser" where
  "push_hunk h m p = set_mode m (set_hunks (hunks_of p @ [h]) p)"

definition handle_environment_id ::
  "streaming_patch_parser \<Rightarrow> rstr \<Rightarrow> streaming_patch_parser \<times> (bool, parse_error) result" where
  "handle_environment_id p environment_id =
     (if sp_environment_id (pstate p) \<noteq> None then
        (p, Err (InvalidPatchError (lit ''apply_patch environment_id cannot be specified more than once'')))
      else if trim environment_id = [] then
        (p, Err (InvalidPatchError (lit ''apply_patch environment_id cannot be empty'')))
      else
        (p\<lparr>pstate := (pstate p)\<lparr>sp_environment_id := Some (trim environment_id)\<rparr>\<rparr>, Ok True))"

definition handle_hunk_headers ::
  "streaming_patch_parser \<Rightarrow> rstr \<Rightarrow> streaming_patch_parser \<times> (bool, parse_error) result" where
  "handle_hunk_headers p trimmed =
     (if trimmed = END_PATCH_MARKER then after_ensure p trimmed (set_mode EndedPatch)
      else case strip_prefix ADD_FILE_MARKER trimmed of
        Some path \<Rightarrow> after_ensure p trimmed (push_hunk (AddFile path []) InAddFile)
      | None \<Rightarrow>
     (case strip_prefix DELETE_FILE_MARKER trimmed of
        Some path \<Rightarrow> after_ensure p trimmed (push_hunk (DeleteFile path) InDeleteFile)
      | None \<Rightarrow>
     (case strip_prefix UPDATE_FILE_MARKER trimmed of
        Some path \<Rightarrow>
          after_ensure p trimmed (push_hunk (UpdateFile path None []) (InUpdateFile (line_number p)))
      | None \<Rightarrow> (p, Ok False))))"

definition handle_hunk_headers_and_end_patch ::
  "streaming_patch_parser \<Rightarrow> rstr \<Rightarrow> streaming_patch_parser \<times> (bool, parse_error) result" where
  "handle_hunk_headers_and_end_patch p trimmed =
     (case (mode_of p, strip_prefix ENVIRONMENT_ID_MARKER trimmed) of
        (StartedPatch, Some environment_id) \<Rightarrow> handle_environment_id p environment_id
      | _ \<Rightarrow> handle_hunk_headers p trimmed)"

text \<open>Modify the last chunk, after pushing a default one where there is none.\<close>

definition on_last_chunk ::
  "(update_file_chunk \<Rightarrow> update_file_chunk) \<Rightarrow> update_file_chunk list \<Rightarrow> update_file_chunk list" where
  "on_last_chunk f chunks =
     (let cs = (if chunks = [] then [default_chunk] else chunks) in butlast cs @ [f (last cs)])"

definition is_context_header :: "rstr \<Rightarrow> bool" where
  "is_context_header update_line \<longleftrightarrow>
     update_line = EMPTY_CHANGE_CONTEXT_MARKER \<or> starts_with update_line CHANGE_CONTEXT_MARKER"

text \<open>
  The part of the \<open>UpdateFile\<close> branch of \<open>process_line\<close> that works on the last hunk: its new move
  path and chunks, or an error.
\<close>

definition update_hunk_line ::
  "rstr \<Rightarrow> nat \<Rightarrow> rstr option \<Rightarrow> update_file_chunk list \<Rightarrow>
   (rstr option \<times> update_file_chunk list, parse_error) result" where
  "update_hunk_line line lineno mv chunks =
     (let update_line = trim_end line;
          last_eof = (case last_opt chunks of Some c \<Rightarrow> is_end_of_file c | None \<Rightarrow> False);
          last_empty = (case last_opt chunks of Some c \<Rightarrow> chunk_empty c | None \<Rightarrow> False);
          last_filled = (case last_opt chunks of Some c \<Rightarrow> \<not> chunk_empty c | None \<Rightarrow> False);
          unexpected = Err (InvalidHunkError (unexpected_line_message line) lineno);
          expected_context = Err (InvalidHunkError (expected_context_message line) lineno)
      in
      if last_eof \<and> update_line = [] then Ok (mv, chunks)
      else if last_eof \<and> \<not> is_context_header update_line then expected_context
      else if chunks = [] \<and> mv = None \<and> strip_prefix MOVE_TO_MARKER update_line \<noteq> None then
        Ok (strip_prefix MOVE_TO_MARKER update_line, chunks)
      else if is_context_header update_line \<and> last_empty then unexpected
      else if update_line = EMPTY_CHANGE_CONTEXT_MARKER then Ok (mv, chunks @ [default_chunk])
      else case strip_prefix CHANGE_CONTEXT_MARKER update_line of
        Some ctx \<Rightarrow> Ok (mv, chunks @ [default_chunk\<lparr>change_context := Some ctx\<rparr>])
      | None \<Rightarrow>
      (if update_line = EOF_MARKER then
         (if last_empty then Err (InvalidHunkError no_lines_message lineno)
          else Ok (mv, if chunks = [] then []
                       else butlast chunks @ [(last chunks)\<lparr>is_end_of_file := True\<rparr>]))
       else case line of
         [] \<Rightarrow> Ok (mv, on_last_chunk (push_context_line []) chunks)
       | c # rest \<Rightarrow>
           (if c = 32 then Ok (mv, on_last_chunk (push_context_line rest) chunks)
            else if c = 43 then
              Ok (mv, on_last_chunk (\<lambda>k. k\<lparr>new_lines := new_lines k @ [rest]\<rparr>) chunks)
            else if c = 45 then
              Ok (mv, on_last_chunk (\<lambda>k. k\<lparr>old_lines := old_lines k @ [rest]\<rparr>) chunks)
            else if last_filled then expected_context
            else unexpected)))"

text \<open>After the header check: continue with \<open>k\<close> when the line was no header.\<close>

definition unless_header ::
  "streaming_patch_parser \<times> (bool, parse_error) result \<Rightarrow>
   (streaming_patch_parser \<Rightarrow> streaming_patch_parser \<times> (unit, parse_error) result) \<Rightarrow>
   streaming_patch_parser \<times> (unit, parse_error) result" where
  "unless_header r k =
     (case r of
        (p, Err e) \<Rightarrow> (p, Err e)
      | (p, Ok True) \<Rightarrow> (p, Ok ())
      | (p, Ok False) \<Rightarrow> k p)"

definition process_line ::
  "streaming_patch_parser \<Rightarrow> rstr \<Rightarrow> streaming_patch_parser \<times> (unit, parse_error) result" where
  "process_line p line =
     (let trimmed = trim line;
          invalid_header = (\<lambda>p. (p, Err (InvalidHunkError (invalid_header_message trimmed) (line_number p))))
      in case mode_of p of
        NotStarted \<Rightarrow>
          (if trimmed = BEGIN_PATCH_MARKER then (set_mode StartedPatch p, Ok ())
           else (p, Err (InvalidPatchError first_line_message)))
      | StartedPatch \<Rightarrow>
          unless_header (handle_hunk_headers_and_end_patch p trimmed) invalid_header
      | InAddFile \<Rightarrow>
          unless_header (handle_hunk_headers_and_end_patch p trimmed)
            (\<lambda>p. case (line, last_opt (hunks_of p)) of
                (c # line_to_add, Some (AddFile path contents)) \<Rightarrow>
                  (if c = 43 then
                     (set_hunks (butlast (hunks_of p) @ [AddFile path (contents @ line_to_add @ [LF])]) p, Ok ())
                   else invalid_header p)
              | _ \<Rightarrow> invalid_header p)
      | InDeleteFile \<Rightarrow>
          unless_header (handle_hunk_headers_and_end_patch p trimmed) invalid_header
      | InUpdateFile hunk_line_number \<Rightarrow>
          unless_header (handle_hunk_headers_and_end_patch p (trim_end line))
            (\<lambda>p. case last_opt (hunks_of p) of
                Some (UpdateFile path mv chunks) \<Rightarrow>
                  (case update_hunk_line line (line_number p) mv chunks of
                     Err e \<Rightarrow> (p, Err e)
                   | Ok (mv', chunks') \<Rightarrow>
                       (set_mode (InUpdateFile hunk_line_number)
                          (set_hunks (butlast (hunks_of p) @ [UpdateFile path mv' chunks']) p), Ok ()))
              | _ \<Rightarrow> (p, Err (InvalidHunkError (unexpected_line_message line) (line_number p))))
      | EndedPatch \<Rightarrow>
          (if trimmed = [] then (p, Ok ())
           else (p, Err (InvalidPatchError last_line_message))))"

text \<open>One character of \<open>push_delta\<close>.\<close>

definition take_line :: "streaming_patch_parser \<Rightarrow> streaming_patch_parser" where
  "take_line p = p\<lparr>line_buffer := [], line_number := line_number p + 1\<rparr>"

definition push_char ::
  "streaming_patch_parser \<Rightarrow> rchar \<Rightarrow> streaming_patch_parser \<times> (unit, parse_error) result" where
  "push_char p ch =
     (if ch = LF then process_line (take_line p) (strip_cr (line_buffer p))
      else (p\<lparr>line_buffer := line_buffer p @ [ch]\<rparr>, Ok ()))"

fun push_chars ::
  "streaming_patch_parser \<Rightarrow> rstr \<Rightarrow> streaming_patch_parser \<times> (unit, parse_error) result" where
  "push_chars p [] = (p, Ok ())"
| "push_chars p (c # cs) =
     (case push_char p c of
        (p', Err e) \<Rightarrow> (p', Err e)
      | (p', Ok _) \<Rightarrow> push_chars p' cs)"

definition push_delta ::
  "streaming_patch_parser \<Rightarrow> rstr \<Rightarrow> streaming_patch_parser \<times> (hunk list, parse_error) result" where
  "push_delta p delta =
     (case push_chars p delta of
        (p', Err e) \<Rightarrow> (p', Err e)
      | (p', Ok _) \<Rightarrow> (p', Ok (hunks_of p')))"

definition finish_line ::
  "streaming_patch_parser \<Rightarrow> streaming_patch_parser \<times> (unit, parse_error) result" where
  "finish_line p =
     (if line_buffer p \<noteq> [] then
        let line = line_buffer p; p' = take_line p in
        if trim line = END_PATCH_MARKER then
          (case ensure_update_hunk_is_not_empty p' (trim line) of
             Err e \<Rightarrow> (p', Err e)
           | Ok _ \<Rightarrow> (set_mode EndedPatch p', Ok ()))
        else process_line p' line
      else (p, Ok ()))"

definition finish ::
  "streaming_patch_parser \<Rightarrow> streaming_patch_parser \<times> (hunk list, parse_error) result" where
  "finish p =
     (case finish_line p of
        (p', Err e) \<Rightarrow> (p', Err e)
      | (p', Ok _) \<Rightarrow>
          (if mode_of p' \<noteq> EndedPatch then (p', Err (InvalidPatchError last_line_message))
           else (p', Ok (hunks_of p'))))"

section \<open>Whole patches\<close>

datatype parse_mode = Strict | Lenient

record apply_patch_args =
  patch :: rstr
  hunks :: "hunk list"
  workdir :: "rstr option"
  environment_id :: "rstr option"

definition check_start_and_end_lines_strict ::
  "rstr option \<Rightarrow> rstr option \<Rightarrow> (unit, parse_error) result" where
  "check_start_and_end_lines_strict first_line last_line =
     (case (map_option trim first_line, map_option trim last_line) of
        (Some first, last_trimmed) \<Rightarrow>
          (if first = BEGIN_PATCH_MARKER \<and> last_trimmed = Some END_PATCH_MARKER then Ok ()
           else if first \<noteq> BEGIN_PATCH_MARKER then Err (InvalidPatchError first_line_message)
           else Err (InvalidPatchError last_line_message))
      | _ \<Rightarrow> Err (InvalidPatchError last_line_message))"

definition check_patch_boundaries_strict :: "rstr list \<Rightarrow> (rstr list, parse_error) result" where
  "check_patch_boundaries_strict ls =
     (case check_start_and_end_lines_strict
             (if ls = [] then None else Some (hd ls)) (last_opt ls) of
        Err e \<Rightarrow> Err e
      | Ok _ \<Rightarrow> Ok ls)"

definition heredoc_openers :: "rstr list" where
  "heredoc_openers = [lit ''<<EOF'', lit ''<<'' @ squoted (lit ''EOF''), lit ''<<'' @ [34] @ lit ''EOF'' @ [34]]"

definition check_patch_boundaries_lenient :: "rstr list \<Rightarrow> (rstr list, parse_error) result" where
  "check_patch_boundaries_lenient original_lines =
     (case check_patch_boundaries_strict original_lines of
        Ok ls \<Rightarrow> Ok ls
      | Err original_parse_error \<Rightarrow>
          (if length original_lines \<ge> 2 \<and> hd original_lines \<in> set heredoc_openers \<and>
              ends_with (last original_lines) (lit ''EOF'') \<and> length original_lines \<ge> 4
           then check_patch_boundaries_strict (butlast (tl original_lines))
           else Err original_parse_error))"

definition parse_patch_text :: "rstr \<Rightarrow> parse_mode \<Rightarrow> (apply_patch_args, parse_error) result" where
  "parse_patch_text text mode =
     bind_result
       (case mode of
          Strict \<Rightarrow> check_patch_boundaries_strict (lines (trim text))
        | Lenient \<Rightarrow> check_patch_boundaries_lenient (lines (trim text)))
       (\<lambda>patch_lines.
          let patch_text = join [LF] patch_lines in
          case push_delta default_parser patch_text of
            (p, Err e) \<Rightarrow> Err e
          | (p, Ok _) \<Rightarrow>
              (case finish p of
                 (p', Err e) \<Rightarrow> Err e
               | (p', Ok hs) \<Rightarrow>
                   Ok \<lparr>patch = patch_text, hunks = hs, workdir = None,
                        environment_id = sp_environment_id (pstate p')\<rparr>))"

definition parse_patch :: "rstr \<Rightarrow> (apply_patch_args, parse_error) result" where
  "parse_patch text = parse_patch_text text Lenient"

section \<open>The state invariant\<close>

text \<open>
  A complete hunk is one the file updater can work with: added contents are whole lines, an update
  has chunks, and each of them is well-formed and changes or keeps at least one line.
\<close>

fun hunk_complete :: "hunk \<Rightarrow> bool" where
  "hunk_complete (AddFile path contents) \<longleftrightarrow> contents = [] \<or> last contents = LF"
| "hunk_complete (DeleteFile path) \<longleftrightarrow> True"
| "hunk_complete (UpdateFile path mv chunks) \<longleftrightarrow>
     chunks \<noteq> [] \<and> list_all (\<lambda>c. chunk_wf c \<and> \<not> chunk_empty c) chunks"

text \<open>The chunks of the update hunk that is being read: only the last one may still be empty.\<close>

definition open_chunks :: "update_file_chunk list \<Rightarrow> bool" where
  "open_chunks chunks \<longleftrightarrow>
     list_all chunk_wf chunks \<and> list_all (\<lambda>c. \<not> chunk_empty c) (butlast chunks) \<and>
     (\<forall>c. last_opt chunks = Some c \<and> is_end_of_file c \<longrightarrow> \<not> chunk_empty c)"

text \<open>What the mode says about the hunk list.\<close>

fun mode_inv :: "streaming_parser_mode \<Rightarrow> nat \<Rightarrow> hunk list \<Rightarrow> bool" where
  "mode_inv NotStarted n hs \<longleftrightarrow> hs = []"
| "mode_inv StartedPatch n hs \<longleftrightarrow> hs = []"
| "mode_inv InAddFile n hs \<longleftrightarrow>
     hs \<noteq> [] \<and> list_all hunk_complete hs \<and> is_AddFile (last hs)"
| "mode_inv InDeleteFile n hs \<longleftrightarrow> hs \<noteq> [] \<and> list_all hunk_complete hs \<and> is_DeleteFile (last hs)"
| "mode_inv (InUpdateFile k) n hs \<longleftrightarrow>
     1 \<le> k \<and> k \<le> n \<and> hs \<noteq> [] \<and> list_all hunk_complete (butlast hs) \<and>
     is_UpdateFile (last hs) \<and> open_chunks (hunk_chunks (last hs))"
| "mode_inv EndedPatch n hs \<longleftrightarrow> list_all hunk_complete hs"

definition env_inv :: "streaming_parser_state \<Rightarrow> bool" where
  "env_inv s \<longleftrightarrow> (case sp_environment_id s of
     None \<Rightarrow> True | Some e \<Rightarrow> sp_mode s \<noteq> NotStarted \<and> e \<noteq> [] \<and> trim e = e)"

definition parser_inv :: "streaming_patch_parser \<Rightarrow> bool" where
  "parser_inv p \<longleftrightarrow> mode_inv (mode_of p) (line_number p) (hunks_of p) \<and> env_inv (pstate p)"

text \<open>The line an error names has been read.\<close>

fun error_line_ok :: "nat \<Rightarrow> ('a, parse_error) result \<Rightarrow> bool" where
  "error_line_ok n (Err (InvalidHunkError msg k)) \<longleftrightarrow> 1 \<le> k \<and> k \<le> n"
| "error_line_ok n _ \<longleftrightarrow> True"

text \<open>The lines \<open>parse_patch_text\<close> hands to the parser.\<close>

definition patch_lines_of :: "rstr \<Rightarrow> parse_mode \<Rightarrow> (rstr list, parse_error) result" where
  "patch_lines_of text mode = (case mode of
      Strict \<Rightarrow> check_patch_boundaries_strict (lines (trim text))
    | Lenient \<Rightarrow> check_patch_boundaries_lenient (lines (trim text)))"

text \<open>Successive calls of \<open>push_delta\<close>, up to the first that fails.\<close>

fun push_deltas ::
  "streaming_patch_parser \<Rightarrow> rstr list \<Rightarrow> streaming_patch_parser \<times> (hunk list, parse_error) result" where
  "push_deltas p [] = (p, Ok (hunks_of p))"
| "push_deltas p (d # ds) =
     (case push_delta p d of
        (p', Err e) \<Rightarrow> (p', Err e)
      | (p', Ok _) \<Rightarrow> push_deltas p' ds)"

text \<open>
  A step is sound at line \<open>n\<close> when the parser it leaves satisfies the invariant, has read the same
  number of lines, and an error names a line that has been read.
\<close>

definition step_ok :: "nat \<Rightarrow> streaming_patch_parser \<times> ('a, parse_error) result \<Rightarrow> bool" where
  "step_ok n r \<longleftrightarrow> parser_inv (fst r) \<and> line_number (fst r) = n \<and> error_line_ok n (snd r)"

text \<open>
  The states of a streaming parser: it starts empty, and each call of \<open>push_delta\<close> or \<open>finish\<close>
  leaves another state, whether the call succeeds or fails.
\<close>

inductive parser_reachable :: "streaming_patch_parser \<Rightarrow> bool" where
  start: "parser_reachable default_parser"
| delta: "parser_reachable p \<Longrightarrow> parser_reachable (fst (push_delta p d))"
| finish: "parser_reachable p \<Longrightarrow> parser_reachable (fst (finish p))"

section \<open>Text in pieces\<close>

lemma push_chars_append:
  "push_chars p (xs @ ys) =
     (case push_chars p xs of (p', Err e) \<Rightarrow> (p', Err e) | (p', Ok _) \<Rightarrow> push_chars p' ys)"
  by (induction p xs rule: push_chars.induct) (auto split: prod.splits result.splits)

lemma push_chars_line:
  "LF \<notin> set l \<Longrightarrow> push_chars p (l @ LF # s) =
     (case process_line (take_line p) (strip_cr (line_buffer p @ l)) of
        (p', Err e) \<Rightarrow> (p', Err e) | (p', Ok _) \<Rightarrow> push_chars p' s)"
  by (induction l arbitrary: p) (auto simp: push_char_def take_line_def)

lemma push_chars_partial:
  "LF \<notin> set l \<Longrightarrow> push_chars p l = (p\<lparr>line_buffer := line_buffer p @ l\<rparr>, Ok ())"
  by (induction l arbitrary: p) (auto simp: push_char_def)


section \<open>The invariant holds in every reachable state\<close>

lemma parser_simps [simp]:
  "pstate (set_mode m p) = (pstate p)\<lparr>sp_mode := m\<rparr>"
  "line_number (set_mode m p) = line_number p"
  "line_buffer (set_mode m p) = line_buffer p"
  "pstate (set_hunks hs p) = (pstate p)\<lparr>sp_hunks := hs\<rparr>"
  "line_number (set_hunks hs p) = line_number p"
  "line_buffer (set_hunks hs p) = line_buffer p"
  "pstate (take_line p) = pstate p"
  "line_number (take_line p) = Suc (line_number p)"
  "line_buffer (take_line p) = []"
  "pstate (push_hunk h m p) = (pstate p)\<lparr>sp_hunks := hunks_of p @ [h], sp_mode := m\<rparr>"
  "line_number (push_hunk h m p) = line_number p"
  "line_buffer (push_hunk h m p) = line_buffer p"
  by (simp_all add: set_mode_def set_hunks_def take_line_def push_hunk_def)

lemma marker_text_facts [simp]:
  "LF \<notin> set BEGIN_PATCH_MARKER" "LF \<notin> set END_PATCH_MARKER"
  "trim BEGIN_PATCH_MARKER = BEGIN_PATCH_MARKER" "trim END_PATCH_MARKER = END_PATCH_MARKER"
  "strip_cr BEGIN_PATCH_MARKER = BEGIN_PATCH_MARKER" "strip_cr END_PATCH_MARKER = END_PATCH_MARKER"
  "BEGIN_PATCH_MARKER \<noteq> []" "END_PATCH_MARKER \<noteq> []"
  by (simp_all add: marker_defs str_eval)

lemma process_begin:
  "mode_of p = NotStarted \<Longrightarrow> trim line = BEGIN_PATCH_MARKER \<Longrightarrow>
   process_line p line = (set_mode StartedPatch p, Ok ())"
  by (simp add: process_line_def)

lemma mode_inv_mono: "mode_inv m n hs \<Longrightarrow> n \<le> n' \<Longrightarrow> mode_inv m n' hs"
  by (cases m) auto

lemma parser_inv_take_line: "parser_inv p \<Longrightarrow> parser_inv (take_line p)"
  by (auto simp: parser_inv_def intro: mode_inv_mono)

lemma open_chunks_complete:
  "open_chunks cs \<Longrightarrow> cs \<noteq> [] \<Longrightarrow> \<not> chunk_empty (last cs) \<Longrightarrow>
   list_all (\<lambda>c. chunk_wf c \<and> \<not> chunk_empty c) cs"
  by (cases cs rule: rev_cases) (simp_all add: open_chunks_def list_all_iff)

lemma mode_inv_update:
  "mode_inv (InUpdateFile k) n hs \<longleftrightarrow>
     1 \<le> k \<and> k \<le> n \<and>
     (\<exists>ini path mv cs. hs = ini @ [UpdateFile path mv cs] \<and> list_all hunk_complete ini \<and> open_chunks cs)"
  by (cases hs rule: rev_cases) (auto simp: is_UpdateFile_def)

lemma mode_inv_add:
  "mode_inv InAddFile n hs \<longleftrightarrow>
     (\<exists>ini path c. hs = ini @ [AddFile path c] \<and> list_all hunk_complete ini \<and> hunk_complete (AddFile path c))"
  by (cases hs rule: rev_cases) (auto simp: is_AddFile_def)

lemma ensure_complete:
  assumes "parser_inv p" and "ensure_update_hunk_is_not_empty p line = Ok u"
  shows "list_all hunk_complete (hunks_of p)"
proof (cases "mode_of p")
  case (InUpdateFile n)
  with assms(1) obtain ini path mv cs where
    h: "hunks_of p = ini @ [UpdateFile path mv cs]" "open_chunks cs" "list_all hunk_complete ini"
    unfolding parser_inv_def by (metis mode_inv_update)
  have "cs \<noteq> [] \<and> \<not> chunk_empty (last cs)"
    using assms(2) h(1) InUpdateFile
    by (auto simp: ensure_update_hunk_is_not_empty_def last_opt_def split: list.splits if_splits)
  with h show ?thesis
    by (auto intro: open_chunks_complete)
qed (use assms(1) in \<open>auto simp: parser_inv_def\<close>)

lemma open_chunks_snoc:
  "open_chunks (cs @ [c]) \<longleftrightarrow>
     list_all (\<lambda>c. chunk_wf c \<and> \<not> chunk_empty c) cs \<and> chunk_wf c \<and> (is_end_of_file c \<longrightarrow> \<not> chunk_empty c)"
  by (auto simp: open_chunks_def list_all_iff)

lemma open_chunks_Nil [simp]: "open_chunks []"
  by (simp add: open_chunks_def)

lemma open_chunks_on_last:
  assumes "open_chunks cs" and "\<And>c. chunk_wf c \<Longrightarrow> chunk_wf (f c)" and "\<And>c. \<not> chunk_empty (f c)"
  shows "open_chunks (on_last_chunk f cs)"
  using assms
  by (cases cs rule: rev_cases) (auto simp: on_last_chunk_def open_chunks_snoc open_chunks_snoc[of "[]", simplified])

lemma open_chunks_new:
  assumes "open_chunks cs" and "chunk_wf c" and "\<not> is_end_of_file c"
    and "\<not> (case last_opt cs of Some c \<Rightarrow> chunk_empty c | None \<Rightarrow> False)"
  shows "open_chunks (cs @ [c])"
  unfolding open_chunks_snoc
  using assms by (cases cs rule: rev_cases) (auto simp: open_chunks_snoc)

lemma update_hunk_line_open:
  assumes "open_chunks cs" and "update_hunk_line line n mv cs = Ok (mv', cs')"
  shows "open_chunks cs'"
proof -
  let ?last_empty = "case last_opt cs of Some c \<Rightarrow> chunk_empty c | None \<Rightarrow> False"
  have body: "open_chunks (on_last_chunk (push_context_line l) cs)"
    "open_chunks (on_last_chunk (\<lambda>k. k\<lparr>new_lines := new_lines k @ [l]\<rparr>) cs)"
    "open_chunks (on_last_chunk (\<lambda>k. k\<lparr>old_lines := old_lines k @ [l]\<rparr>) cs)" for l
    using assms(1)
    by (auto intro!: open_chunks_on_last chunk_wf_push_context_line chunk_wf_append_new chunk_wf_append_old
        simp: chunk_empty_def push_context_line_def)
  have eof: "open_chunks (butlast cs @ [last cs\<lparr>is_end_of_file := True\<rparr>])" if "\<not> ?last_empty" "cs \<noteq> []"
    using that assms(1) by (cases cs rule: rev_cases) (auto simp: open_chunks_snoc chunk_empty_def)
  have ctx: "open_chunks (cs @ [default_chunk])" "open_chunks (cs @ [default_chunk\<lparr>change_context := x\<rparr>])"
    if "\<not> ?last_empty" for x
    using that assms(1) by (auto intro!: open_chunks_new simp: default_chunk_def chunk_wf_def)
  show ?thesis
    using assms(2) body eof ctx assms(1)
    unfolding update_hunk_line_def Let_def is_context_header_def starts_with_def
    by (auto split: if_splits option.splits list.splits)
qed

lemma update_hunk_line_error:
  "update_hunk_line line n mv cs = Err e \<Longrightarrow> \<exists>msg. e = InvalidHunkError msg n"
  by (auto simp: update_hunk_line_def Let_def split: if_splits option.splits list.splits)

lemma step_ok_Err:
  "parser_inv p \<Longrightarrow> step_ok (line_number p) (p, Err (InvalidPatchError msg))"
  "parser_inv p \<Longrightarrow> 1 \<le> line_number p \<Longrightarrow> step_ok (line_number p) (p, Err (InvalidHunkError msg (line_number p)))"
  by (simp_all add: step_ok_def)

lemma ensure_error_line:
  assumes "parser_inv p" and "1 \<le> line_number p"
  shows "error_line_ok (line_number p) (ensure_update_hunk_is_not_empty p line)"
  using assms
  by (auto simp: ensure_update_hunk_is_not_empty_def parser_inv_def
      split: option.splits hunk.splits streaming_parser_mode.splits list.splits)

lemma after_ensure_ok:
  assumes "parser_inv p" and "1 \<le> line_number p"
    and "list_all hunk_complete (hunks_of p) \<Longrightarrow> parser_inv (f p)" and "line_number (f p) = line_number p"
  shows "step_ok (line_number p) (after_ensure p line f)"
proof (cases "ensure_update_hunk_is_not_empty p line")
  case (Ok u)
  with assms ensure_complete[OF assms(1) Ok] show ?thesis
    by (simp add: after_ensure_def step_ok_def)
next
  case (Err e)
  with assms ensure_error_line[OF assms(1,2), of line] show ?thesis
    by (cases e) (auto simp: after_ensure_def step_ok_def)
qed

lemma parser_inv_push_hunk:
  assumes "parser_inv p" and "mode_of p \<noteq> NotStarted" and "1 \<le> line_number p"
    and "list_all hunk_complete (hunks_of p)"
  shows "parser_inv (push_hunk (AddFile path []) InAddFile p)"
    "parser_inv (push_hunk (DeleteFile path) InDeleteFile p)"
    "parser_inv (push_hunk (UpdateFile path None []) (InUpdateFile (line_number p)) p)"
  using assms by (auto simp: parser_inv_def env_inv_def open_chunks_def split: option.splits)

lemma handle_environment_id_ok:
  assumes "parser_inv p" and "mode_of p = StartedPatch"
  shows "step_ok (line_number p) (handle_environment_id p e)"
  using assms by (auto simp: handle_environment_id_def step_ok_def parser_inv_def env_inv_def)

lemma handle_headers_ok:
  assumes "parser_inv p" and "1 \<le> line_number p" and "mode_of p \<noteq> NotStarted"
  shows "step_ok (line_number p) (handle_hunk_headers_and_end_patch p trimmed)"
proof -
  have "step_ok (line_number p) (handle_hunk_headers p trimmed)"
    unfolding handle_hunk_headers_def
    using assms parser_inv_push_hunk[OF assms(1,3,2)]
    by (auto split: option.splits intro!: after_ensure_ok)
      (auto simp: parser_inv_def env_inv_def step_ok_def split: option.splits)
  with handle_environment_id_ok[OF assms(1)] show ?thesis
    by (auto simp: handle_hunk_headers_and_end_patch_def split: streaming_parser_mode.splits option.splits)
qed

lemma headers_no_match: "handle_hunk_headers_and_end_patch p t = (p', Ok False) \<Longrightarrow> p' = p"
  by (auto simp: handle_hunk_headers_and_end_patch_def handle_hunk_headers_def handle_environment_id_def
      after_ensure_def split: streaming_parser_mode.splits option.splits if_splits result.splits)

lemma unless_header_ok:
  assumes "parser_inv p" and "1 \<le> line_number p" and "mode_of p \<noteq> NotStarted"
    and "step_ok (line_number p) (k p)"
  shows "step_ok (line_number p) (unless_header (handle_hunk_headers_and_end_patch p t) k)"
  using handle_headers_ok[OF assms(1-3), of t] headers_no_match[of p t] assms(4)
  by (auto simp: unless_header_def step_ok_def split: prod.splits result.splits bool.splits
      elim!: error_line_ok.elims)

lemma parser_inv_set_last:
  assumes "parser_inv p" and "hunks_of p = ini @ [h]"
  shows "mode_of p = InAddFile \<Longrightarrow> h = AddFile path c \<Longrightarrow>
      parser_inv (set_hunks (ini @ [AddFile path (c' @ [LF])]) p)"
    and "mode_of p = InUpdateFile n \<Longrightarrow> open_chunks cs \<Longrightarrow>
      parser_inv (set_mode (InUpdateFile n) (set_hunks (ini @ [UpdateFile path mv cs]) p))"
  using assms by (auto simp: parser_inv_def env_inv_def split: option.splits)

lemma process_line_ok:
  assumes "parser_inv p" and "1 \<le> line_number p"
  shows "step_ok (line_number p) (process_line p line)"
proof (cases "mode_of p")
  case NotStarted
  with assms show ?thesis
    by (auto simp: process_line_def step_ok_def parser_inv_def env_inv_def split: option.splits)
next
  case EndedPatch
  with assms show ?thesis
    by (auto simp: process_line_def step_ok_def)
next
  case InAddFile
  from assms(1) InAddFile obtain ini path c where h: "hunks_of p = ini @ [AddFile path c]"
    unfolding parser_inv_def by (metis mode_inv_add)
  have "parser_inv (set_hunks (ini @ [AddFile path (c @ l @ [LF])]) p)" for l
    using parser_inv_set_last(1)[OF assms(1) h InAddFile, of path c "c @ l"] by simp
  then show ?thesis
    unfolding process_line_def Let_def InAddFile streaming_parser_mode.case
    by (intro unless_header_ok)
      (use InAddFile h assms in \<open>auto simp: step_ok_def split: list.splits\<close>)
next
  case (InUpdateFile n)
  from assms(1) InUpdateFile obtain ini path mv cs where h: "hunks_of p = ini @ [UpdateFile path mv cs]" "open_chunks cs"
    unfolding parser_inv_def by (metis mode_inv_update)
  show ?thesis
    unfolding process_line_def Let_def InUpdateFile streaming_parser_mode.case
    using parser_inv_set_last(2)[OF assms(1) h(1) InUpdateFile] update_hunk_line_open[OF h(2)]
    by (intro unless_header_ok)
      (use InUpdateFile h assms in
        \<open>auto simp: step_ok_def split: result.splits dest!: update_hunk_line_error\<close>)
qed (use assms in \<open>auto simp: process_line_def Let_def step_ok_Err intro!: unless_header_ok\<close>)

lemma push_char_ok:
  "parser_inv p \<Longrightarrow> step_ok (line_number p + (if ch = LF then 1 else 0)) (push_char p ch)"
  using process_line_ok[OF parser_inv_take_line, of p "strip_cr (line_buffer p)"]
  by (auto simp: push_char_def step_ok_def parser_inv_def)

lemma step_ok_mono: "error_line_ok n r \<Longrightarrow> n \<le> m \<Longrightarrow> error_line_ok m r"
  by (cases "(n, r)" rule: error_line_ok.cases) auto

lemma push_chars_ok:
  assumes "parser_inv p"
  shows "parser_inv (fst (push_chars p s)) \<and>
    line_number (fst (push_chars p s)) \<le> line_number p + count_list s LF \<and>
    error_line_ok (line_number p + count_list s LF) (snd (push_chars p s))"
  using assms
proof (induction p s rule: push_chars.induct)
  case (2 p c cs)
  obtain p' r where r: "push_char p c = (p', r)" by (cases "push_char p c")
  have ok: "parser_inv p'" "line_number p' = line_number p + (if c = LF then 1 else 0)"
    "error_line_ok (line_number p') r"
    using push_char_ok[OF 2(2), of c] r by (auto simp: step_ok_def)
  show ?case
  proof (cases r)
    case (Ok u)
    then show ?thesis using 2(1)[OF r[symmetric] Ok] ok r by (auto split: if_splits)
  next
    case (Err e)
    with ok(3) step_ok_mono[OF ok(3), of "line_number p + count_list (c # cs) LF"] ok(1,2) r
    show ?thesis by (cases e) (auto split: if_splits)
  qed
qed simp

lemma finish_line_ok:
  assumes "parser_inv p"
  shows "parser_inv (fst (finish_line p)) \<and> line_number (fst (finish_line p)) \<le> Suc (line_number p) \<and>
    error_line_ok (Suc (line_number p)) (snd (finish_line p))"
proof (cases "line_buffer p \<noteq> [] \<and> trim (line_buffer p) = END_PATCH_MARKER")
  case True
  have inv: "parser_inv (take_line p)" by (rule parser_inv_take_line[OF assms])
  show ?thesis
  proof (cases "ensure_update_hunk_is_not_empty (take_line p) END_PATCH_MARKER")
    case (Ok u)
    with True inv ensure_complete[OF inv Ok] show ?thesis
      by (auto simp: finish_line_def parser_inv_def env_inv_def split: option.splits)
  next
    case (Err e)
    with True inv ensure_error_line[OF inv, of END_PATCH_MARKER] show ?thesis
      by (cases e) (auto simp: finish_line_def)
  qed
next
  case False
  with assms process_line_ok[OF parser_inv_take_line[OF assms], of "line_buffer p"] show ?thesis
    by (auto simp: finish_line_def Let_def step_ok_def)
qed

lemma finish_ok:
  assumes "parser_inv p"
  shows "parser_inv (fst (finish p)) \<and> error_line_ok (Suc (line_number p)) (snd (finish p)) \<and>
    (\<forall>hs. snd (finish p) = Ok hs \<longrightarrow> list_all hunk_complete hs \<and> mode_of (fst (finish p)) = EndedPatch)"
proof -
  obtain p' r where r: "finish_line p = (p', r)" by (cases "finish_line p")
  have ok: "parser_inv p'" "error_line_ok (Suc (line_number p)) r"
    using finish_line_ok[OF assms] r by auto
  show ?thesis
  proof (cases r)
    case (Err e)
    with ok r show ?thesis by (cases e) (auto simp: finish_def)
  next
    case (Ok u)
    with ok r show ?thesis
      by (auto simp: finish_def parser_inv_def)
  qed
qed

lemma push_delta_inv: "parser_inv p \<Longrightarrow> parser_inv (fst (push_delta p d))"
  using push_chars_ok[of p d] by (auto simp: push_delta_def split: prod.splits result.splits)

lemma parser_inv_default [simp]: "parser_inv default_parser"
  by (simp add: default_parser_def parser_inv_def env_inv_def)

lemma reachable_inv: "parser_reachable p \<Longrightarrow> parser_inv p"
  by (induction rule: parser_reachable.induct) (simp_all add: push_delta_inv finish_ok)

text \<open>
  The state invariant of the streaming parser. In every state that calls of \<open>push_delta\<close> and
  \<open>finish\<close> can reach, failed calls included, the mode fixes the shape of the last hunk, every
  earlier hunk is complete, the chunks of the hunk being read have consistent context indices, and
  an environment id is present only after the first line, is trimmed and is not empty.
\<close>

theorem streaming_parser_invariant:
  assumes "parser_reachable p"
  shows "mode_inv (mode_of p) (line_number p) (hunks_of p) \<and> env_inv (pstate p)"
  using reachable_inv[OF assms] by (simp add: parser_inv_def)

lemma streaming_parser_invariant_witness:
  "let p = fst (push_delta default_parser (BEGIN_PATCH_MARKER @ LF # lit ''*** Up''))
   in mode_of p = StartedPatch \<and> mode_inv (mode_of p) (line_number p) (hunks_of p)"
proof -
  let ?d = "BEGIN_PATCH_MARKER @ LF # lit ''*** Up''"
  have "mode_of (fst (push_delta default_parser ?d)) = StartedPatch"
    by (simp add: push_delta_def push_chars_line process_begin push_chars_partial default_parser_def
        take_line_def set_mode_def) (simp add: lit_def push_char_def)
  then show ?thesis
    using streaming_parser_invariant[OF parser_reachable.delta[OF parser_reachable.start, of ?d]]
    unfolding Let_def by (intro conjI) (assumption, erule conjunct1)
qed

lemma parse_patch_text_cases:
  obtains (bounds) e where "patch_lines_of text mode = Err e" "parse_patch_text text mode = Err e"
  | (push) ls p e where "patch_lines_of text mode = Ok ls" "push_delta default_parser (join [LF] ls) = (p, Err e)"
      "parse_patch_text text mode = Err e"
  | (fin) ls p hs p' e where "patch_lines_of text mode = Ok ls"
      "push_delta default_parser (join [LF] ls) = (p, Ok hs)" "finish p = (p', Err e)"
      "parse_patch_text text mode = Err e"
  | (success) ls p hs p' hs' where "patch_lines_of text mode = Ok ls"
      "push_delta default_parser (join [LF] ls) = (p, Ok hs)" "finish p = (p', Ok hs')"
      "parse_patch_text text mode = Ok \<lparr>patch = join [LF] ls, hunks = hs', workdir = None,
         environment_id = sp_environment_id (pstate p')\<rparr>"
proof (cases "patch_lines_of text mode")
  case (Err e)
  then show thesis by (intro bounds) (simp_all add: parse_patch_text_def patch_lines_of_def)
next
  case (Ok ls)
  note ls = this
  obtain p r where p: "push_delta default_parser (join [LF] ls) = (p, r)" by fastforce
  obtain p' r' where p': "finish p = (p', r')" by fastforce
  show thesis
    using ls p p' push[OF ls] fin[OF ls] success[OF ls]
    by (cases r; cases r') (simp_all add: parse_patch_text_def patch_lines_of_def)
qed

lemma parse_patch_text_hunks:
  assumes "parse_patch_text text mode = Ok args"
  shows "list_all hunk_complete (hunks args) \<and>
    (\<forall>e. environment_id args = Some e \<longrightarrow> e \<noteq> [] \<and> trim e = e)"
  using assms
proof (cases "text" mode rule: parse_patch_text_cases)
  case (success ls p hs p1 hs1)
  have "parser_inv p" using push_delta_inv[OF parser_inv_default, of "join [LF] ls"] success(2) by simp
  then have "parser_inv p1" "list_all hunk_complete hs1"
    using finish_ok[of p] success(3) by auto
  with success(4) assms show ?thesis
    by (auto simp: parser_inv_def env_inv_def split: option.splits)
qed auto

lemma no_lf_lines: "l \<in> set (lines s) \<Longrightarrow> LF \<notin> set l"
proof -
  have "set (strip_cr p) \<subseteq> set p" for p
    by (auto simp: strip_cr_def strip_suffix_Some_iff split: option.splits)
  then show "l \<in> set (lines s) \<Longrightarrow> LF \<notin> set l"
    using split_char_pieces_no_sep[of _ LF s]
    by (auto simp: lines_def Let_def dest!: in_set_butlastD split: if_splits)
qed

lemma count_lf_join: "\<forall>l \<in> set ls. LF \<notin> set l \<Longrightarrow> count_list (join [LF] ls) LF = length ls - 1"
  by (induction "[LF]" ls rule: join.induct) (auto simp: count_list_0_iff)

lemma boundaries_sublist:
  assumes "patch_lines_of t mode = Ok ls"
  shows "set ls \<subseteq> set (lines (trim t)) \<and> length ls \<le> length (lines (trim t)) \<and> ls \<noteq> []"
proof -
  have strict: "check_patch_boundaries_strict xs = Ok ys \<Longrightarrow> ys = xs \<and> xs \<noteq> []" for xs ys
    by (auto simp: check_patch_boundaries_strict_def check_start_and_end_lines_strict_def
        split: result.splits option.splits if_splits)
  have tl: "set (butlast (tl xs)) \<subseteq> set xs" "length (butlast (tl xs)) \<le> length xs" for xs :: "rstr list"
    by (cases xs; auto dest: in_set_butlastD)+
  show ?thesis
    using assms strict tl
    by (fastforce simp: patch_lines_of_def check_patch_boundaries_lenient_def
        split: parse_mode.splits result.splits if_splits)
qed

lemma parse_error_line:
  assumes "parse_patch_text text mode = Err e"
  shows "error_line_ok (length (lines (trim text))) (Err e :: (unit, parse_error) result)"
proof -
  have le: "Suc (count_list (join [LF] ls) LF) \<le> length (lines (trim text))" if "patch_lines_of text mode = Ok ls" for ls
    using boundaries_sublist[OF that] no_lf_lines[of _ "trim text"] count_lf_join[of ls]
    by (cases ls) (auto simp: subset_iff)
  show ?thesis
    using assms
  proof (cases "text" mode rule: parse_patch_text_cases)
    case (bounds e')
    with assms show ?thesis
      by (auto simp: patch_lines_of_def check_patch_boundaries_lenient_def check_patch_boundaries_strict_def
          check_start_and_end_lines_strict_def split: parse_mode.splits result.splits option.splits if_splits)
  next
    case (push ls p e')
    then have "error_line_ok (count_list (join [LF] ls) LF) (Err e :: (unit, parse_error) result)"
      using push_chars_ok[OF parser_inv_default, of "join [LF] ls"] assms
      by (auto simp: push_delta_def default_parser_def split: prod.splits result.splits)
    with le[OF push(1)] show ?thesis by (auto intro: step_ok_mono)
  next
    case (fin ls p hs p' e')
    have "parser_inv p" "line_number p \<le> count_list (join [LF] ls) LF"
      using push_chars_ok[OF parser_inv_default, of "join [LF] ls"] fin(2)
      by (auto simp: push_delta_def default_parser_def split: prod.splits result.splits)
    moreover have "error_line_ok (Suc (line_number p)) (Err e :: (unit, parse_error) result)"
      using finish_ok[OF \<open>parser_inv p\<close>] fin(3,4) assms by (cases e) auto
    ultimately show ?thesis
      using le[OF fin(1)] by (auto intro: step_ok_mono)
  qed simp
qed

end
