(* ===== verification/Patch_Grammar.thy ===== *)
theory Patch_Grammar
  imports Patch_Parser
begin

text \<open>
  The patch language as a grammar, after the Lark grammar in the comment that opens
  \<open>apply-patch/src/parser.rs\<close>: an abstract syntax, its concrete lines, and the hunks each
  construct stands for. The parser is shown to be a left inverse of printing, and the claims about
  whole patches (completeness of the hunks, range of error lines) are stated here with printed
  patches as their concrete inputs.
\<close>

section \<open>Abstract syntax\<close>

datatype body_line = Keep rstr | Plus rstr | Minus rstr

datatype chunk_header = NoHeader | BareHeader | ContextHeader rstr

record chunk_syntax =
  cs_header :: chunk_header
  cs_body :: "body_line list"
  cs_eof :: bool

datatype hunk_syntax =
    AddHunk rstr "rstr list"
  | DeleteHunk rstr
  | UpdateHunk rstr "rstr option" "chunk_syntax list"

record patch_syntax =
  ps_environment_id :: "rstr option"
  ps_hunks :: "hunk_syntax list"

section \<open>Concrete lines\<close>

fun print_body :: "body_line \<Rightarrow> rstr" where
  "print_body (Keep l) = 32 # l"
| "print_body (Plus l) = 43 # l"
| "print_body (Minus l) = 45 # l"

fun print_header :: "chunk_header \<Rightarrow> rstr list" where
  "print_header NoHeader = []"
| "print_header BareHeader = [EMPTY_CHANGE_CONTEXT_MARKER]"
| "print_header (ContextHeader ctx) = [CHANGE_CONTEXT_MARKER @ ctx]"

definition print_chunk :: "chunk_syntax \<Rightarrow> rstr list" where
  "print_chunk c = print_header (cs_header c) @ map print_body (cs_body c) @ (if cs_eof c then [EOF_MARKER] else [])"

fun print_hunk :: "hunk_syntax \<Rightarrow> rstr list" where
  "print_hunk (AddHunk path ls) = (ADD_FILE_MARKER @ path) # map (\<lambda>l. 43 # l) ls"
| "print_hunk (DeleteHunk path) = [DELETE_FILE_MARKER @ path]"
| "print_hunk (UpdateHunk path mv cs) =
     (UPDATE_FILE_MARKER @ path) # (case mv of None \<Rightarrow> [] | Some dest \<Rightarrow> [MOVE_TO_MARKER @ dest]) @
     concat (map print_chunk cs)"

definition print_patch :: "patch_syntax \<Rightarrow> rstr list" where
  "print_patch ps =
     BEGIN_PATCH_MARKER #
     (case ps_environment_id ps of None \<Rightarrow> [] | Some e \<Rightarrow> [ENVIRONMENT_ID_MARKER @ [32] @ e]) @
     concat (map print_hunk (ps_hunks ps)) @ [END_PATCH_MARKER]"

section \<open>Meaning\<close>

fun denote_body :: "body_line \<Rightarrow> update_file_chunk \<Rightarrow> update_file_chunk" where
  "denote_body (Keep l) c = push_context_line l c"
| "denote_body (Plus l) c = c\<lparr>new_lines := new_lines c @ [l]\<rparr>"
| "denote_body (Minus l) c = c\<lparr>old_lines := old_lines c @ [l]\<rparr>"

fun header_context :: "chunk_header \<Rightarrow> rstr option" where
  "header_context (ContextHeader ctx) = Some ctx"
| "header_context _ = None"

definition denote_chunk :: "chunk_syntax \<Rightarrow> update_file_chunk" where
  "denote_chunk c =
     (fold denote_body (cs_body c) (default_chunk\<lparr>change_context := header_context (cs_header c)\<rparr>))
       \<lparr>is_end_of_file := cs_eof c\<rparr>"

fun denote_hunk :: "hunk_syntax \<Rightarrow> hunk" where
  "denote_hunk (AddHunk path ls) = AddFile path (concat (map (\<lambda>l. l @ [LF]) ls))"
| "denote_hunk (DeleteHunk path) = DeleteFile path"
| "denote_hunk (UpdateHunk path mv cs) = UpdateFile path mv (map denote_chunk cs)"

section \<open>Side conditions\<close>

text \<open>
  A name (path, move target, change context, environment id) is not empty, has no line feed and no
  trailing white space; a line has no line feed and does not end in a carriage return; only the
  first chunk of a hunk may omit its header; a chunk has a body.
\<close>

definition name_ok :: "rstr \<Rightarrow> bool" where
  "name_ok s \<longleftrightarrow> s \<noteq> [] \<and> \<not> is_whitespace (last s) \<and> LF \<notin> set s"

definition line_ok :: "rstr \<Rightarrow> bool" where
  "line_ok l \<longleftrightarrow> LF \<notin> set l \<and> (l = [] \<or> last l \<noteq> CR)"

fun body_text :: "body_line \<Rightarrow> rstr" where
  "body_text (Keep l) = l"
| "body_text (Plus l) = l"
| "body_text (Minus l) = l"

definition chunk_ok :: "chunk_syntax \<Rightarrow> bool" where
  "chunk_ok c \<longleftrightarrow> cs_body c \<noteq> [] \<and> list_all (\<lambda>b. line_ok (body_text b)) (cs_body c) \<and>
     (case cs_header c of ContextHeader ctx \<Rightarrow> name_ok ctx | _ \<Rightarrow> True)"

fun hunk_ok :: "hunk_syntax \<Rightarrow> bool" where
  "hunk_ok (AddHunk path ls) \<longleftrightarrow> name_ok path \<and> list_all line_ok ls"
| "hunk_ok (DeleteHunk path) \<longleftrightarrow> name_ok path"
| "hunk_ok (UpdateHunk path mv cs) \<longleftrightarrow>
     name_ok path \<and> (case mv of None \<Rightarrow> True | Some d \<Rightarrow> name_ok d) \<and>
     cs \<noteq> [] \<and> list_all chunk_ok cs \<and> list_all (\<lambda>c. cs_header c \<noteq> NoHeader) (tl cs)"

definition patch_ok :: "patch_syntax \<Rightarrow> bool" where
  "patch_ok ps \<longleftrightarrow> list_all hunk_ok (ps_hunks ps) \<and>
     (case ps_environment_id ps of None \<Rightarrow> True | Some e \<Rightarrow> name_ok e \<and> trim e = e)"

section \<open>Running the parser line by line\<close>

text \<open>\<open>at n m hs e\<close>: \<open>n\<close> lines read, nothing buffered.\<close>

definition at :: "nat \<Rightarrow> streaming_parser_mode \<Rightarrow> hunk list \<Rightarrow> rstr option \<Rightarrow> streaming_patch_parser" where
  "at n m hs e = \<lparr>line_buffer = [], pstate = \<lparr>sp_mode = m, sp_hunks = hs, sp_environment_id = e\<rparr>, line_number = n\<rparr>"

fun run_lines :: "streaming_patch_parser \<Rightarrow> rstr list \<Rightarrow> streaming_patch_parser \<times> (unit, parse_error) result" where
  "run_lines p [] = (p, Ok ())"
| "run_lines p (l # ls) =
     (case process_line (take_line p) l of
        (p', Err e) \<Rightarrow> (p', Err e)
      | (p', Ok _) \<Rightarrow> run_lines p' ls)"

text \<open>Every hunk read so far may be followed by a header.\<close>

fun closed :: "streaming_parser_mode \<Rightarrow> hunk list \<Rightarrow> bool" where
  "closed StartedPatch hs \<longleftrightarrow> hs = []"
| "closed InAddFile hs \<longleftrightarrow> (\<exists>ini path c. hs = ini @ [AddFile path c])"
| "closed InDeleteFile hs \<longleftrightarrow> (\<exists>ini path. hs = ini @ [DeleteFile path])"
| "closed (InUpdateFile k) hs \<longleftrightarrow> (\<exists>ini path mv cs c. hs = ini @ [UpdateFile path mv (cs @ [c])] \<and> \<not> chunk_empty c)"
| "closed _ hs \<longleftrightarrow> False"

lemma at_simps [simp]:
  "take_line (at n m hs e) = at (Suc n) m hs e"
  "line_buffer (at n m hs e) = []"
  "pstate (at n m hs e) = \<lparr>sp_mode = m, sp_hunks = hs, sp_environment_id = e\<rparr>"
  "line_number (at n m hs e) = n"
  "set_mode m' (at n m hs e) = at n m' hs e"
  "set_hunks hs' (at n m hs e) = at n m hs' e"
  "push_hunk h m' (at n m hs e) = at n m' (hs @ [h]) e"
  by (simp_all add: at_def take_line_def set_mode_def set_hunks_def push_hunk_def)

lemma run_lines_append:
  "run_lines p (xs @ ys) =
     (case run_lines p xs of (p', Err e) \<Rightarrow> (p', Err e) | (p', Ok _) \<Rightarrow> run_lines p' ys)"
  by (induction p xs rule: run_lines.induct) (auto split: prod.splits result.splits)

lemma headers_buffer [simp]: "line_buffer (fst (handle_hunk_headers_and_end_patch p t)) = line_buffer p"
  by (auto simp: handle_hunk_headers_and_end_patch_def handle_environment_id_def handle_hunk_headers_def
      after_ensure_def split: streaming_parser_mode.splits result.splits option.splits)

lemma unless_header_buffer:
  assumes "\<And>q. line_buffer (fst (k q)) = line_buffer q"
  shows "line_buffer (fst (unless_header (handle_hunk_headers_and_end_patch p t) k)) = line_buffer p"
proof -
  obtain q r where q: "handle_hunk_headers_and_end_patch p t = (q, r)" by fastforce
  with headers_buffer[of p t] have "line_buffer q = line_buffer p" by simp
  with q assms show ?thesis
    by (auto simp: unless_header_def split: result.splits bool.splits)
qed

lemma process_line_buffer [simp]: "line_buffer (fst (process_line p l)) = line_buffer p"
  unfolding process_line_def Let_def
  by (cases "mode_of p")
    (auto intro!: unless_header_buffer split: list.splits option.splits hunk.splits result.splits)

lemma strip_cr_line_ok: "line_ok l \<Longrightarrow> strip_cr l = l"
  by (auto simp: line_ok_def strip_cr_def strip_suffix_Some_iff split: option.splits)

lemma push_chars_lines:
  "line_buffer p = [] \<Longrightarrow> list_all line_ok ls \<Longrightarrow>
   push_chars p (concat (map (\<lambda>l. l @ [LF]) ls)) = run_lines p ls"
proof (induction ls arbitrary: p)
  case (Cons l ls)
  obtain q r where q: "process_line (take_line p) l = (q, r)" by fastforce
  with process_line_buffer[of "take_line p" l] have "line_buffer q = []" by simp
  moreover have "LF \<notin> set l" "strip_cr l = l" using Cons(3) by (auto simp: line_ok_def strip_cr_line_ok)
  ultimately show ?case
    using Cons q by (auto simp: push_chars_line split: result.splits)
qed simp

section \<open>Single lines\<close>

lemma trim_end_id: "s = [] \<or> \<not> is_whitespace (last s) \<Longrightarrow> trim_end s = s"
  by (cases s rule: rev_cases) (auto simp: trim_end_def trim_end_matches_def)

lemma trim_end_Cons: "trim_end (c # l) = c # trim_end l \<or> trim_end (c # l) = []"
  by (auto simp: trim_end_def trim_end_matches_def dropWhile_append)

lemma trim_end_Cons_nonws: "\<not> is_whitespace c \<Longrightarrow> trim_end (c # l) = c # trim_end l"
  by (auto simp: trim_end_def trim_end_matches_def dropWhile_append)

lemma trim_Cons_nonws: "\<not> is_whitespace c \<Longrightarrow> trim (c # l) = c # trim_end l"
  by (simp add: trim_def trim_start_def trim_end_Cons_nonws)

lemma trim_end_name: "name_ok s \<Longrightarrow> trim_end (m @ s) = m @ s"
  by (simp add: name_ok_def trim_end_id)

lemma trim_name: "name_ok s \<Longrightarrow> m \<noteq> [] \<Longrightarrow> \<not> is_whitespace (hd m) \<Longrightarrow> trim (m @ s) = m @ s"
  using trim_end_name[of s m] by (cases m) (auto simp: trim_def trim_start_def)

lemma not_whitespace [simp]:
  "\<not> is_whitespace 42" "\<not> is_whitespace 43" "\<not> is_whitespace 45" "\<not> is_whitespace 64"
  by (simp_all add: is_whitespace_def)

lemma marker_heads [simp]:
  "ADD_FILE_MARKER \<noteq> []" "hd ADD_FILE_MARKER = 42" "DELETE_FILE_MARKER \<noteq> []" "hd DELETE_FILE_MARKER = 42"
  "UPDATE_FILE_MARKER \<noteq> []" "hd UPDATE_FILE_MARKER = 42"
  "ENVIRONMENT_ID_MARKER \<noteq> []" "hd ENVIRONMENT_ID_MARKER = 42"
  by (simp_all add: marker_defs lit_def)

lemma ensure_filled:
  "\<not> chunk_empty c \<Longrightarrow>
   ensure_update_hunk_is_not_empty (at n m (ini @ [UpdateFile path mv (cs @ [c])]) e) l = Ok ()"
  by (cases cs) (simp_all add: ensure_update_hunk_is_not_empty_def)

lemma ensure_closed [simp]: "closed m hs \<Longrightarrow> ensure_update_hunk_is_not_empty (at n m hs e) l = Ok ()"
  by (cases m) (auto simp: ensure_filled, auto simp: ensure_update_hunk_is_not_empty_def)

text \<open>Which header a line is.\<close>

lemma header_Add:
  "closed m hs \<Longrightarrow> handle_hunk_headers_and_end_patch (at n m hs e) (ADD_FILE_MARKER @ path) =
     (at n InAddFile (hs @ [AddFile path []]) e, Ok True)"
  and header_Delete:
  "closed m hs \<Longrightarrow> handle_hunk_headers_and_end_patch (at n m hs e) (DELETE_FILE_MARKER @ path) =
     (at n InDeleteFile (hs @ [DeleteFile path]) e, Ok True)"
  and header_Update:
  "closed m hs \<Longrightarrow> handle_hunk_headers_and_end_patch (at n m hs e) (UPDATE_FILE_MARKER @ path) =
     (at n (InUpdateFile n) (hs @ [UpdateFile path None []]) e, Ok True)"
  and header_End:
  "closed m hs \<Longrightarrow> handle_hunk_headers_and_end_patch (at n m hs e) END_PATCH_MARKER =
     (at n EndedPatch hs e, Ok True)"
  by (auto simp: handle_hunk_headers_and_end_patch_def handle_hunk_headers_def after_ensure_def
      marker_defs lit_def split: streaming_parser_mode.splits)

text \<open>A line that does not start with an asterisk is no header.\<close>

lemma strip_prefix_head_neq: "m \<noteq> [] \<Longrightarrow> (l = [] \<or> hd l \<noteq> hd m) \<Longrightarrow> strip_prefix m l = None"
  by (cases m; cases l) auto

lemma header_none:
  "l = [] \<or> hd l \<noteq> 42 \<Longrightarrow> handle_hunk_headers_and_end_patch p l = (p, Ok False)"
proof -
  assume l: "l = [] \<or> hd l \<noteq> 42"
  then have "l \<noteq> END_PATCH_MARKER" by (auto simp: END_PATCH_MARKER_def lit_def)
  then show ?thesis using l
    by (simp add: handle_hunk_headers_and_end_patch_def handle_hunk_headers_def strip_prefix_head_neq
        split: streaming_parser_mode.splits)
qed

lemma header_line:
  assumes "closed m hs" and "trim line = t" and "trim_end line = t"
    and "handle_hunk_headers_and_end_patch (at n m hs e) t = (q, Ok True)"
  shows "process_line (at n m hs e) line = (q, Ok ())"
  using assms by (cases m) (auto simp: process_line_def unless_header_def)

lemma name_line:
  assumes "name_ok s" and "m \<noteq> []" and "hd m = 42"
  shows "trim (m @ s) = m @ s" and "trim_end (m @ s) = m @ s"
  using assms by (auto intro: trim_name trim_end_name)

lemma process_headers:
  assumes "closed m hs" and "name_ok path"
  shows "process_line (at n m hs e) (ADD_FILE_MARKER @ path) = (at n InAddFile (hs @ [AddFile path []]) e, Ok ())"
    and "process_line (at n m hs e) (DELETE_FILE_MARKER @ path) = (at n InDeleteFile (hs @ [DeleteFile path]) e, Ok ())"
    and "process_line (at n m hs e) (UPDATE_FILE_MARKER @ path) =
      (at n (InUpdateFile n) (hs @ [UpdateFile path None []]) e, Ok ())"
  using header_line[OF assms(1) name_line[OF assms(2)] header_Add[OF assms(1)]]
    header_line[OF assms(1) name_line[OF assms(2)] header_Delete[OF assms(1)]]
    header_line[OF assms(1) name_line[OF assms(2)] header_Update[OF assms(1)]] by simp_all

lemma process_add_line:
  "process_line (at n InAddFile (ini @ [AddFile path c]) e) (43 # l) =
     (at n InAddFile (ini @ [AddFile path (c @ l @ [LF])]) e, Ok ())"
  by (simp add: process_line_def Let_def trim_Cons_nonws header_none unless_header_def)

section \<open>Update hunks\<close>

text \<open>The parser in the middle of an update hunk.\<close>

abbreviation upd :: "nat \<Rightarrow> nat \<Rightarrow> hunk list \<Rightarrow> rstr \<Rightarrow> rstr option \<Rightarrow> update_file_chunk list \<Rightarrow> rstr option \<Rightarrow> streaming_patch_parser" where
  "upd n k ini path mv cs e \<equiv> at n (InUpdateFile k) (ini @ [UpdateFile path mv cs]) e"

lemma process_update_line:
  assumes "\<And>p. mode_of p = InUpdateFile k \<Longrightarrow> handle_hunk_headers_and_end_patch p (trim_end l) = (p, Ok False)"
    and "update_hunk_line l n mv cs = Ok (mv', cs')"
  shows "process_line (upd n k ini path mv cs e) l = (upd n k ini path mv' cs' e, Ok ())"
  using assms by (simp add: process_line_def Let_def unless_header_def)

lemma update_marker_no_header:
  assumes "mode_of p = InUpdateFile k"
  shows "handle_hunk_headers_and_end_patch p (MOVE_TO_MARKER @ s) = (p, Ok False)"
    and "handle_hunk_headers_and_end_patch p EOF_MARKER = (p, Ok False)"
  using assms by (simp_all add: handle_hunk_headers_and_end_patch_def handle_hunk_headers_def marker_defs lit_def)

lemma print_body_shape:
  obtains c l where "print_body b = c # l" "c \<in> {32, 43, 45}"
  by (cases b) auto

lemma print_body_trimmed: "trim_end (print_body b) = [] \<or> hd (trim_end (print_body b)) \<in> {32, 43, 45}"
  using trim_end_Cons by (cases b) (metis insertI1 insertI2 list.sel(1) print_body.simps)+

lemma marker_heads_update [simp]:
  "MOVE_TO_MARKER \<noteq> []" "hd MOVE_TO_MARKER = 42" "CHANGE_CONTEXT_MARKER \<noteq> []" "hd CHANGE_CONTEXT_MARKER = 64"
  by (simp_all add: marker_defs lit_def)

lemma no_update_marker:
  assumes "l = [] \<or> hd l \<in> {32, 43, 45}"
  shows "strip_prefix MOVE_TO_MARKER l = None" "strip_prefix CHANGE_CONTEXT_MARKER l = None"
    "\<not> is_context_header l" "l \<noteq> EOF_MARKER" "l \<noteq> EMPTY_CHANGE_CONTEXT_MARKER"
proof -
  show pre: "strip_prefix MOVE_TO_MARKER l = None" "strip_prefix CHANGE_CONTEXT_MARKER l = None"
    using assms by (auto intro!: strip_prefix_head_neq)
  show "l \<noteq> EOF_MARKER" and empty: "l \<noteq> EMPTY_CHANGE_CONTEXT_MARKER"
    using assms by (auto simp: marker_defs lit_def)
  show "\<not> is_context_header l"
    using pre empty by (simp add: is_context_header_def starts_with_def)
qed

lemma process_body_line:
  assumes "\<And>c. last_opt cs = Some c \<Longrightarrow> \<not> is_end_of_file c"
  shows "process_line (upd n k ini path mv cs e) (print_body b) =
     (upd n k ini path mv (on_last_chunk (denote_body b) cs) e, Ok ())"
proof (rule process_update_line)
  show "handle_hunk_headers_and_end_patch p (trim_end (print_body b)) = (p, Ok False)" for p
    using print_body_trimmed[of b] by (auto intro: header_none)
  have f: "denote_body (Plus l) = (\<lambda>k. k\<lparr>new_lines := new_lines k @ [l]\<rparr>)"
    "denote_body (Minus l) = (\<lambda>k. k\<lparr>old_lines := old_lines k @ [l]\<rparr>)"
    "denote_body (Keep l) = push_context_line l" for l
    by auto
  have "\<not> (case last_opt cs of Some c \<Rightarrow> is_end_of_file c | None \<Rightarrow> False)"
    using assms by (auto split: option.splits)
  then show "update_hunk_line (print_body b) n mv cs = Ok (mv, on_last_chunk (denote_body b) cs)"
    using no_update_marker[OF print_body_trimmed[of b]]
    by (cases b) (simp_all add: update_hunk_line_def f)
qed

lemma process_body_first:
  "process_line (upd n k ini path mv [] e) (print_body b) =
     (upd n k ini path mv [denote_body b default_chunk] e, Ok ())"
  using process_body_line[of "[]"] by (simp add: on_last_chunk_def)

lemma process_body_next:
  "\<not> is_end_of_file c \<Longrightarrow> process_line (upd n k ini path mv (cs @ [c]) e) (print_body b) =
     (upd n k ini path mv (cs @ [denote_body b c]) e, Ok ())"
  using process_body_line[of "cs @ [c]"] by (simp add: on_last_chunk_def)

lemma process_bare_header:
  assumes "\<And>c. last_opt cs = Some c \<Longrightarrow> \<not> chunk_empty c"
  shows "process_line (upd n k ini path mv cs e) EMPTY_CHANGE_CONTEXT_MARKER =
    (upd n k ini path mv (cs @ [default_chunk]) e, Ok ())"
proof (rule process_update_line)
  have t: "trim_end EMPTY_CHANGE_CONTEXT_MARKER = EMPTY_CHANGE_CONTEXT_MARKER"
    by (rule trim_end_id) (simp add: marker_defs lit_def)
  show "handle_hunk_headers_and_end_patch p (trim_end EMPTY_CHANGE_CONTEXT_MARKER) = (p, Ok False)" for p
    unfolding t by (rule header_none) (simp add: marker_defs lit_def)
  have "\<not> (case last_opt cs of Some c \<Rightarrow> chunk_empty c | None \<Rightarrow> False)"
    using assms by (auto split: option.splits)
  moreover have "is_context_header EMPTY_CHANGE_CONTEXT_MARKER" "EMPTY_CHANGE_CONTEXT_MARKER \<noteq> []"
    "strip_prefix MOVE_TO_MARKER EMPTY_CHANGE_CONTEXT_MARKER = None"
    by (simp_all add: is_context_header_def marker_defs lit_def)
  ultimately show "update_hunk_line EMPTY_CHANGE_CONTEXT_MARKER n mv cs = Ok (mv, cs @ [default_chunk])"
    by (simp add: update_hunk_line_def t)
qed

lemma process_context_header:
  assumes "\<And>c. last_opt cs = Some c \<Longrightarrow> \<not> chunk_empty c" and "name_ok ctx"
  shows "process_line (upd n k ini path mv cs e) (CHANGE_CONTEXT_MARKER @ ctx) =
    (upd n k ini path mv (cs @ [default_chunk\<lparr>change_context := Some ctx\<rparr>]) e, Ok ())"
proof (rule process_update_line)
  note t = trim_end_name[OF assms(2), of CHANGE_CONTEXT_MARKER]
  show "handle_hunk_headers_and_end_patch p (trim_end (CHANGE_CONTEXT_MARKER @ ctx)) = (p, Ok False)" for p
    unfolding t by (rule header_none) (simp add: marker_defs lit_def)
  have "\<not> (case last_opt cs of Some c \<Rightarrow> chunk_empty c | None \<Rightarrow> False)"
    using assms by (auto split: option.splits)
  moreover have "is_context_header (CHANGE_CONTEXT_MARKER @ ctx)"
    by (simp add: is_context_header_def starts_with_def)
  moreover have "strip_prefix MOVE_TO_MARKER (CHANGE_CONTEXT_MARKER @ ctx) = None"
    "CHANGE_CONTEXT_MARKER @ ctx \<noteq> EMPTY_CHANGE_CONTEXT_MARKER"
    by (simp_all add: marker_defs lit_def)
  ultimately show "update_hunk_line (CHANGE_CONTEXT_MARKER @ ctx) n mv cs =
      Ok (mv, cs @ [default_chunk\<lparr>change_context := Some ctx\<rparr>])"
    by (simp add: update_hunk_line_def t)
qed

lemma process_eof_line:
  assumes "\<not> chunk_empty c" and "\<not> is_end_of_file c"
  shows "process_line (upd n k ini path mv (cs @ [c]) e) EOF_MARKER =
    (upd n k ini path mv (cs @ [c\<lparr>is_end_of_file := True\<rparr>]) e, Ok ())"
proof (rule process_update_line)
  have t: "trim_end EOF_MARKER = EOF_MARKER"
    by (rule trim_end_id) (simp add: marker_defs lit_def is_whitespace_def)
  show "mode_of p = InUpdateFile k \<Longrightarrow> handle_hunk_headers_and_end_patch p (trim_end EOF_MARKER) = (p, Ok False)" for p
    unfolding t by (rule update_marker_no_header)
  have "\<not> is_context_header EOF_MARKER" "strip_prefix CHANGE_CONTEXT_MARKER EOF_MARKER = None"
    "EOF_MARKER \<noteq> EMPTY_CHANGE_CONTEXT_MARKER"
    by (simp_all add: is_context_header_def starts_with_def marker_defs lit_def)
  with assms show "update_hunk_line EOF_MARKER n mv (cs @ [c]) = Ok (mv, cs @ [c\<lparr>is_end_of_file := True\<rparr>])"
    by (simp add: update_hunk_line_def t)
qed

lemma process_move_line:
  assumes "name_ok dest"
  shows "process_line (upd n k ini path None [] e) (MOVE_TO_MARKER @ dest) =
    (upd n k ini path (Some dest) [] e, Ok ())"
proof (rule process_update_line)
  note t = trim_end_name[OF assms, of MOVE_TO_MARKER]
  show "mode_of p = InUpdateFile k \<Longrightarrow>
      handle_hunk_headers_and_end_patch p (trim_end (MOVE_TO_MARKER @ dest)) = (p, Ok False)" for p
    unfolding t by (rule update_marker_no_header)
  show "update_hunk_line (MOVE_TO_MARKER @ dest) n None [] = Ok (Some dest, [])"
    by (simp add: update_hunk_line_def t)
qed

lemma denote_body_facts [simp]:
  "is_end_of_file (denote_body b c) = is_end_of_file c" "\<not> chunk_empty (denote_body b c)"
  by (cases b; simp add: chunk_empty_def push_context_line_def)+

lemma fold_body_facts:
  "is_end_of_file (fold denote_body bs c) = is_end_of_file c"
  "bs \<noteq> [] \<Longrightarrow> \<not> chunk_empty (fold denote_body bs c)"
proof -
  show "is_end_of_file (fold denote_body bs c) = is_end_of_file c"
    by (induction bs arbitrary: c) auto
  show "bs \<noteq> [] \<Longrightarrow> \<not> chunk_empty (fold denote_body bs c)"
    by (cases bs rule: rev_cases) auto
qed

lemma run_body:
  assumes "\<not> is_end_of_file c"
  shows "run_lines (upd n k ini path mv (cs @ [c]) e) (map print_body bs) =
    (upd (n + length bs) k ini path mv (cs @ [fold denote_body bs c]) e, Ok ())"
  using assms
  by (induction bs arbitrary: c n) (simp_all add: process_body_next)

lemma run_eof:
  assumes "\<not> chunk_empty c" and "\<not> is_end_of_file c"
  shows "run_lines (upd n k ini path mv (cs @ [c]) e) (if eof then [EOF_MARKER] else []) =
    (upd (n + (if eof then 1 else 0)) k ini path mv (cs @ [c\<lparr>is_end_of_file := eof\<rparr>]) e, Ok ())"
  using assms by (cases eof) (simp_all add: process_eof_line)

text \<open>A chunk may start where the chunks so far are closed, or without header where there are none.\<close>

lemma run_chunk:
  assumes "chunk_ok ch" and "\<And>c. last_opt cs = Some c \<Longrightarrow> \<not> chunk_empty c"
    and "cs_header ch = NoHeader \<Longrightarrow> cs = []"
  shows "run_lines (upd n k ini path mv cs e) (print_chunk ch) =
    (upd (n + length (print_chunk ch)) k ini path mv (cs @ [denote_chunk ch]) e, Ok ())"
proof -
  obtain b bs where bs: "cs_body ch = b # bs" using assms(1) by (cases "cs_body ch") (auto simp: chunk_ok_def)
  let ?start = "default_chunk\<lparr>change_context := header_context (cs_header ch)\<rparr>"
  let ?c = "fold denote_body (cs_body ch) ?start"
  have d: "\<not> is_end_of_file default_chunk" "default_chunk\<lparr>change_context := None\<rparr> = default_chunk"
    by (simp_all add: default_chunk_def)
  have body: "run_lines (upd n k ini path mv cs e) (print_header (cs_header ch) @ map print_body (cs_body ch)) =
      (upd (n + length (print_header (cs_header ch)) + length (cs_body ch)) k ini path mv (cs @ [?c]) e, Ok ())"
  proof (cases "cs_header ch")
    case NoHeader
    with assms(3) have "cs = []" by simp
    then show ?thesis
      using NoHeader bs d run_body[where cs = "[]" and c = "denote_body b default_chunk"]
      by (simp add: process_body_first)
  next
    case BareHeader
    with assms d show ?thesis
      by (simp add: process_bare_header run_body)
  next
    case (ContextHeader ctx)
    then have "name_ok ctx" using assms(1) by (simp add: chunk_ok_def)
    with ContextHeader assms d show ?thesis
      by (simp add: process_context_header run_body)
  qed
  have "\<not> chunk_empty ?c" "\<not> is_end_of_file ?c"
    using bs d fold_body_facts[of "cs_body ch" ?start] by simp_all
  note eof = run_eof[OF this]
  have split: "print_chunk ch = (print_header (cs_header ch) @ map print_body (cs_body ch)) @
      (if cs_eof ch then [EOF_MARKER] else [])"
    by (simp add: print_chunk_def)
  show ?thesis
    unfolding split
    by (subst run_lines_append) (simp only: body eof prod.case result.case, simp add: denote_chunk_def)
qed

lemma denote_chunk_not_empty: "chunk_ok ch \<Longrightarrow> \<not> chunk_empty (denote_chunk ch)"
  using fold_body_facts(2)[of "cs_body ch"] by (simp add: chunk_ok_def denote_chunk_def chunk_empty_def)

lemma run_chunks:
  assumes "list_all chunk_ok chs" and "\<And>c. last_opt cs = Some c \<Longrightarrow> \<not> chunk_empty c"
    and "list_all (\<lambda>c. cs_header c \<noteq> NoHeader) (if cs = [] then tl chs else chs)"
  shows "run_lines (upd n k ini path mv cs e) (concat (map print_chunk chs)) =
    (upd (n + length (concat (map print_chunk chs))) k ini path mv (cs @ map denote_chunk chs) e, Ok ())"
  using assms
proof (induction chs arbitrary: cs n)
  case (Cons ch chs)
  have "run_lines (upd n k ini path mv cs e) (print_chunk ch) =
    (upd (n + length (print_chunk ch)) k ini path mv (cs @ [denote_chunk ch]) e, Ok ())"
    using Cons(2-4) by (intro run_chunk) (auto split: if_splits)
  moreover have "run_lines (upd (n + length (print_chunk ch)) k ini path mv (cs @ [denote_chunk ch]) e)
      (concat (map print_chunk chs)) =
    (upd (n + length (print_chunk ch) + length (concat (map print_chunk chs))) k ini path mv
      ((cs @ [denote_chunk ch]) @ map denote_chunk chs) e, Ok ())"
    using Cons(2-4) by (intro Cons.IH) (auto simp: denote_chunk_not_empty split: if_splits)
  ultimately show ?case
    by (simp add: run_lines_append)
qed simp

section \<open>Hunks and patches\<close>

lemma run_add_lines:
  "run_lines (at n InAddFile (ini @ [AddFile path c]) e) (map (\<lambda>l. 43 # l) ls) =
     (at (n + length ls) InAddFile (ini @ [AddFile path (c @ concat (map (\<lambda>l. l @ [LF]) ls))]) e, Ok ())"
  by (induction ls arbitrary: n c) (simp_all add: process_add_line)

lemma run_hunk:
  assumes "closed m hs" and "hunk_ok h"
  shows "\<exists>m'. run_lines (at n m hs e) (print_hunk h) =
      (at (n + length (print_hunk h)) m' (hs @ [denote_hunk h]) e, Ok ()) \<and> closed m' (hs @ [denote_hunk h])"
proof (cases h)
  case (AddHunk path ls)
  with assms show ?thesis by (simp add: process_headers run_add_lines exI[of _ InAddFile])
next
  case (DeleteHunk path)
  with assms show ?thesis by (simp add: process_headers exI[of _ InDeleteFile])
next
  case (UpdateHunk path mv chs)
  have head: "process_line (at (Suc n) m hs e) (UPDATE_FILE_MARKER @ path) = (upd (Suc n) (Suc n) hs path None [] e, Ok ())"
    using assms UpdateHunk by (simp add: process_headers)
  have move: "run_lines (upd (Suc n) (Suc n) hs path None [] e) (case mv of None \<Rightarrow> [] | Some d \<Rightarrow> [MOVE_TO_MARKER @ d]) =
      (upd (Suc n + (case mv of None \<Rightarrow> 0 | Some d \<Rightarrow> 1)) (Suc n) hs path mv [] e, Ok ())"
    using assms UpdateHunk by (cases mv) (simp_all add: process_move_line)
  have chunks: "run_lines (upd k (Suc n) hs path mv [] e) (concat (map print_chunk chs)) =
      (upd (k + length (concat (map print_chunk chs))) (Suc n) hs path mv (map denote_chunk chs) e, Ok ())" for k
    using assms UpdateHunk run_chunks[of chs "[]"] by simp
  obtain chs' ch where "chs = chs' @ [ch]" "chunk_ok ch"
    using assms(2) UpdateHunk by (cases chs rule: rev_cases) auto
  then have "closed (InUpdateFile (Suc n)) (hs @ [denote_hunk h])"
    using UpdateHunk by (auto simp: denote_chunk_not_empty)
  moreover have "run_lines (at n m hs e) (print_hunk h) =
      (at (n + length (print_hunk h)) (InUpdateFile (Suc n)) (hs @ [denote_hunk h]) e, Ok ())"
    using UpdateHunk head move chunks by (simp add: run_lines_append) (cases mv; simp)
  ultimately show ?thesis by blast
qed

lemma run_hunks:
  assumes "closed m hs" and "list_all hunk_ok hns"
  shows "\<exists>m'. run_lines (at n m hs e) (concat (map print_hunk hns)) =
      (at (n + length (concat (map print_hunk hns))) m' (hs @ map denote_hunk hns) e, Ok ()) \<and>
      closed m' (hs @ map denote_hunk hns)"
  using assms
proof (induction hns arbitrary: n m hs)
  case (Cons h hns)
  obtain m1 where m1: "run_lines (at n m hs e) (print_hunk h) =
      (at (n + length (print_hunk h)) m1 (hs @ [denote_hunk h]) e, Ok ())" "closed m1 (hs @ [denote_hunk h])"
    using run_hunk[OF Cons(2), of h] Cons(3) by fastforce
  obtain m2 where m2: "run_lines (at (n + length (print_hunk h)) m1 (hs @ [denote_hunk h]) e) (concat (map print_hunk hns)) =
      (at (n + length (print_hunk h) + length (concat (map print_hunk hns))) m2
        ((hs @ [denote_hunk h]) @ map denote_hunk hns) e, Ok ())" "closed m2 ((hs @ [denote_hunk h]) @ map denote_hunk hns)"
    using Cons(1)[OF m1(2)] Cons(3) by fastforce
  show ?case
    using m1 m2 by (intro exI[of _ m2]) (simp add: run_lines_append add.assoc)
qed auto

text \<open>Everything of a printed patch but its last line.\<close>

definition print_open :: "patch_syntax \<Rightarrow> rstr list" where
  "print_open ps =
     BEGIN_PATCH_MARKER #
     (case ps_environment_id ps of None \<Rightarrow> [] | Some e \<Rightarrow> [ENVIRONMENT_ID_MARKER @ [32] @ e]) @
     concat (map print_hunk (ps_hunks ps))"

lemma print_patch_open: "print_patch ps = print_open ps @ [END_PATCH_MARKER]"
  by (simp add: print_patch_def print_open_def)

lemma process_environment_line:
  assumes "name_ok e" and "trim e = e"
  shows "process_line (at n StartedPatch [] None) (ENVIRONMENT_ID_MARKER @ 32 # e) =
    (at n StartedPatch [] (Some e), Ok ())"
proof -
  have "name_ok (32 # e)" using assms(1) by (auto simp: name_ok_def)
  then have "trim (ENVIRONMENT_ID_MARKER @ 32 # e) = ENVIRONMENT_ID_MARKER @ 32 # e"
    by (simp add: trim_name)
  moreover have "trim (32 # e) = e"
    using assms(2) by (simp add: trim_def trim_start_def is_whitespace_def)
  ultimately show ?thesis
    using assms(1)
    by (simp add: process_line_def handle_hunk_headers_and_end_patch_def handle_environment_id_def
        unless_header_def name_ok_def at_def)
qed

lemma run_open:
  assumes "patch_ok ps"
  shows "\<exists>n m. run_lines default_parser (print_open ps) =
      (at n m (map denote_hunk (ps_hunks ps)) (ps_environment_id ps), Ok ()) \<and>
      closed m (map denote_hunk (ps_hunks ps))"
proof -
  have start: "default_parser = at 0 NotStarted [] None"
    by (simp add: default_parser_def at_def)
  have env: "run_lines (at 1 StartedPatch [] None)
      (case ps_environment_id ps of None \<Rightarrow> [] | Some e \<Rightarrow> [ENVIRONMENT_ID_MARKER @ [32] @ e]) =
    (at (1 + (case ps_environment_id ps of None \<Rightarrow> 0 | Some e \<Rightarrow> 1)) StartedPatch [] (ps_environment_id ps), Ok ())"
    using assms by (cases "ps_environment_id ps") (simp_all add: patch_ok_def process_environment_line)
  show ?thesis
    using run_hunks[of StartedPatch "[]" "ps_hunks ps"] assms env
    by (fastforce simp: print_open_def start process_begin run_lines_append patch_ok_def)
qed

section \<open>Whole patches\<close>

definition denote_patch :: "patch_syntax \<Rightarrow> apply_patch_args" where
  "denote_patch ps = \<lparr>patch = join [LF] (print_patch ps), hunks = map denote_hunk (ps_hunks ps),
     workdir = None, environment_id = ps_environment_id ps\<rparr>"

lemma join_snoc_concat: "join [LF] (xs @ [x]) = concat (map (\<lambda>l. l @ [LF]) xs) @ x"
proof (induction xs)
  case (Cons y ys)
  then show ?case by (cases "ys @ [x]") auto
qed simp

lemma line_ok_append: "name_ok s \<Longrightarrow> LF \<notin> set m \<Longrightarrow> line_ok (m @ s)"
  by (auto simp: name_ok_def line_ok_def is_whitespace_def)

lemma marker_no_lf [simp]:
  "LF \<notin> set ADD_FILE_MARKER" "LF \<notin> set DELETE_FILE_MARKER" "LF \<notin> set UPDATE_FILE_MARKER"
  "LF \<notin> set MOVE_TO_MARKER" "LF \<notin> set CHANGE_CONTEXT_MARKER" "LF \<notin> set ENVIRONMENT_ID_MARKER"
  by (simp_all add: marker_defs lit_def)

lemma line_ok_markers [simp]:
  "line_ok BEGIN_PATCH_MARKER" "line_ok END_PATCH_MARKER" "line_ok EMPTY_CHANGE_CONTEXT_MARKER" "line_ok EOF_MARKER"
  by (simp_all add: line_ok_def marker_defs lit_def)

lemma line_ok_Cons: "line_ok l \<Longrightarrow> c \<notin> {LF, CR} \<Longrightarrow> line_ok (c # l)"
  by (auto simp: line_ok_def)

lemma line_ok_body: "line_ok (body_text b) \<Longrightarrow> line_ok (print_body b)"
  by (cases b) (auto intro: line_ok_Cons)

lemma line_ok_chunk: "chunk_ok ch \<Longrightarrow> list_all line_ok (print_chunk ch)"
  by (cases "cs_header ch")
    (auto simp: print_chunk_def chunk_ok_def list_all_iff intro: line_ok_body line_ok_append)

lemma line_ok_hunk: "hunk_ok h \<Longrightarrow> list_all line_ok (print_hunk h)"
proof (cases h)
  case (UpdateHunk path mv chs)
  moreover assume "hunk_ok h"
  ultimately show ?thesis
    using line_ok_chunk by (auto simp: list_all_iff intro: line_ok_append split: option.splits)
qed (auto simp: list_all_iff intro: line_ok_append line_ok_Cons)

lemma line_ok_open:
  assumes "patch_ok ps"
  shows "list_all line_ok (print_open ps)"
proof -
  have "list_all line_ok (concat (map print_hunk (ps_hunks ps)))"
    using assms line_ok_hunk by (auto simp: patch_ok_def list_all_iff)
  moreover have "line_ok (ENVIRONMENT_ID_MARKER @ 32 # e)" if "name_ok e" for e
    using line_ok_append[of "32 # e" ENVIRONMENT_ID_MARKER] that by (simp add: name_ok_def)
  ultimately show ?thesis
    using assms by (auto simp: print_open_def patch_ok_def split: option.splits)
qed

lemma lines_join_ok:
  assumes "xs \<noteq> []" and "last xs \<noteq> []" and "list_all line_ok xs"
  shows "lines (join [LF] xs) = xs"
proof -
  have "split_char LF (join [LF] xs) = xs"
    using assms by (intro split_char_join) (auto simp: list_all_iff line_ok_def)
  moreover have "map strip_cr (butlast xs) = butlast xs"
    using assms(3) by (auto intro!: map_idI strip_cr_line_ok simp: list_all_iff dest: in_set_butlastD)
  ultimately show ?thesis
    using assms by (simp add: lines_def)
qed

lemma push_delta_lines:
  assumes "list_all line_ok xs" and "LF \<notin> set x" and "run_lines default_parser xs = (at n m hs e, Ok ())"
  shows "push_delta default_parser (join [LF] (xs @ [x])) = ((at n m hs e)\<lparr>line_buffer := x\<rparr>, Ok hs)"
proof -
  have "push_chars default_parser (concat (map (\<lambda>l. l @ [LF]) xs)) = (at n m hs e, Ok ())"
    using push_chars_lines[of default_parser xs] assms by (simp add: default_parser_def)
  then show ?thesis
    unfolding push_delta_def join_snoc_concat push_chars_append
    using assms(2) by (simp add: push_chars_partial)
qed

text \<open>A patch that reaches the parser as its printed lines is parsed to its meaning.\<close>

lemma parse_printed_lines:
  assumes "patch_ok ps" and "patch_lines_of t mode = Ok (print_patch ps)"
  shows "parse_patch_text t mode = Ok (denote_patch ps)"
proof -
  obtain n m where run: "run_lines default_parser (print_open ps) =
      (at n m (map denote_hunk (ps_hunks ps)) (ps_environment_id ps), Ok ())"
    and closed: "closed m (map denote_hunk (ps_hunks ps))"
    using run_open[OF assms(1)] by blast
  let ?q = "at n m (map denote_hunk (ps_hunks ps)) (ps_environment_id ps)"
  have push: "push_delta default_parser (join [LF] (print_patch ps)) =
      (?q\<lparr>line_buffer := END_PATCH_MARKER\<rparr>, Ok (map denote_hunk (ps_hunks ps)))"
    unfolding print_patch_open by (rule push_delta_lines[OF line_ok_open[OF assms(1)] _ run]) simp
  have take: "take_line (?q\<lparr>line_buffer := END_PATCH_MARKER\<rparr>) = take_line ?q"
    by (simp add: take_line_def)
  have "finish_line (?q\<lparr>line_buffer := END_PATCH_MARKER\<rparr>) =
      (at (Suc n) EndedPatch (map denote_hunk (ps_hunks ps)) (ps_environment_id ps), Ok ())"
    using closed unfolding finish_line_def take by simp
  then have "finish (?q\<lparr>line_buffer := END_PATCH_MARKER\<rparr>) =
      (at (Suc n) EndedPatch (map denote_hunk (ps_hunks ps)) (ps_environment_id ps),
       Ok (map denote_hunk (ps_hunks ps)))"
    by (simp add: finish_def)
  with push assms(2) show ?thesis
    by (cases t mode rule: parse_patch_text_cases) (simp_all add: denote_patch_def)
qed

section \<open>The claims\<close>

lemma strict_printed: "check_patch_boundaries_strict (print_patch ps) = Ok (print_patch ps)"
  by (simp add: check_patch_boundaries_strict_def check_start_and_end_lines_strict_def print_patch_def last_opt_def)

lemma lines_printed: "patch_ok ps \<Longrightarrow> lines (join [LF] (print_patch ps)) = print_patch ps"
  using line_ok_open by (intro lines_join_ok) (auto simp: print_patch_open)

lemma trim_surrounded:
  assumes "\<forall>c \<in> set pre. is_whitespace c" and "\<forall>c \<in> set post. is_whitespace c"
    and "s \<noteq> []" and "\<not> is_whitespace (hd s)" and "\<not> is_whitespace (last s)"
  shows "trim (pre @ s @ post) = s"
proof -
  have "trim_start (pre @ s @ post) = s @ post"
    using assms by (cases s) (simp_all add: trim_start_def)
  with assms show ?thesis
    by (simp add: trim_def trim_end_append_ws trim_end_id)
qed

lemma printed_ends:
  "join [LF] (print_patch ps) \<noteq> []" "hd (join [LF] (print_patch ps)) = 42" "last (join [LF] (print_patch ps)) = 104"
  unfolding print_patch_open join_snoc_concat by (simp_all add: print_open_def marker_defs lit_def)


definition sample_patch :: patch_syntax where
  "sample_patch = \<lparr>ps_environment_id = Some (lit ''remote''), ps_hunks =
     [AddHunk (lit ''a.txt'') [lit ''hi''],
      UpdateHunk (lit ''b.txt'') (Some (lit ''c.txt''))
        [\<lparr>cs_header = NoHeader, cs_body = [Keep (lit ''x''), Minus (lit ''y''), Plus (lit ''z'')], cs_eof = False\<rparr>,
         \<lparr>cs_header = ContextHeader (lit ''fn f()''), cs_body = [Plus (lit ''w'')], cs_eof = True\<rparr>]]\<rparr>"

lemma sample_patch_ok: "patch_ok sample_patch"
  by (simp add: sample_patch_def patch_ok_def chunk_ok_def name_ok_def line_ok_def str_eval)


text \<open>
  Lenient mode. A patch of the grammar wrapped in a shell heredoc, as models that pass the whole
  script to \<open>local_shell\<close> produce it (with any of the three openers and any last line that ends in
  the terminator), is parsed like the bare patch, and its text is the bare text.
\<close>

theorem parse_patch_heredoc:
  assumes "patch_ok ps" and "opener \<in> set heredoc_openers"
  shows "parse_patch (opener @ LF # join [LF] (print_patch ps) @ LF # lit ''EOF'') = Ok (denote_patch ps)"
proof -
  let ?xs = "opener # print_patch ps @ [lit ''EOF'']"
  have o: "line_ok opener" "opener \<noteq> []" "\<not> is_whitespace (hd opener)" "trim opener \<noteq> BEGIN_PATCH_MARKER"
    using assms(2) by (auto simp: heredoc_openers_def line_ok_def marker_defs str_eval)
  have eof: "line_ok (lit ''EOF'')" "lit ''EOF'' \<noteq> []" "\<not> is_whitespace (last (lit ''EOF''))"
    "ends_with (lit ''EOF'') (lit ''EOF'')"
    by (simp_all add: line_ok_def str_eval ends_with_def)
  have len: "2 \<le> length (print_patch ps)"
    by (simp add: print_patch_def)
  obtain y ys where y: "print_patch ps = y # ys" using len by (cases "print_patch ps") auto
  have whole: "opener @ LF # join [LF] (print_patch ps) @ LF # lit ''EOF'' = join [LF] ?xs"
    using join_snoc[of "opener # print_patch ps" "[LF]" "lit ''EOF''"] y by simp
  have "trim (join [LF] ?xs) = join [LF] ?xs"
    using o eof y trim_surrounded[of "[]" "[]" "opener @ LF # join [LF] (print_patch ps) @ LF # lit ''EOF''"]
    unfolding whole[symmetric] by simp
  moreover have "lines (join [LF] ?xs) = ?xs"
    using o eof line_ok_open[OF assms(1)] by (intro lines_join_ok) (auto simp: print_patch_open)
  moreover have "\<exists>e. check_patch_boundaries_strict ?xs = Err e"
    using o(4) by (simp add: check_patch_boundaries_strict_def check_start_and_end_lines_strict_def)
  ultimately have "patch_lines_of (join [LF] ?xs) Lenient = Ok (print_patch ps)"
    using assms(2) eof(4) len
    by (auto simp: patch_lines_of_def check_patch_boundaries_lenient_def strict_printed butlast_append)
  then show ?thesis
    unfolding whole using parse_printed_lines[OF assms(1)] by (simp add: parse_patch_def)
qed

lemma parse_patch_heredoc_witness:
  "parse_patch (lit ''<<EOF'' @ LF # join [LF] (print_patch sample_patch) @ LF # lit ''EOF'') = Ok (denote_patch sample_patch)"
  by (rule parse_patch_heredoc[OF sample_patch_ok]) (simp add: heredoc_openers_def)

text \<open>
  Hunks that a finished parse hands out are complete. When \<open>parse_patch_text\<close> succeeds, in
  either mode, every hunk it returns is complete: added contents are whole lines, and an update hunk
  has at least one chunk, each with lines and with context indices that are in range, strictly
  increasing and point at equal lines. An environment id is trimmed and not empty.
\<close>

theorem parse_patch_text_complete:
  assumes "parse_patch_text text mode = Ok args"
  shows "list_all hunk_complete (hunks args) \<and>
    (\<forall>e. environment_id args = Some e \<longrightarrow> e \<noteq> [] \<and> trim e = e)"
  by (rule parse_patch_text_hunks[OF assms])

lemma parse_patch_text_complete_witness:
  "list_all hunk_complete (hunks (denote_patch sample_patch))"
proof -
  have "patch_lines_of (join [LF] (print_patch sample_patch)) Strict = Ok (print_patch sample_patch)"
    using trim_surrounded[of "[]" "[]" "join [LF] (print_patch sample_patch)"] printed_ends[of sample_patch]
    by (simp add: patch_lines_of_def lines_printed[OF sample_patch_ok] strict_printed is_whitespace_def)
  from parse_patch_text_complete[OF parse_printed_lines[OF sample_patch_ok this]] show ?thesis by (rule conjunct1)
qed

text \<open>
  Error positions. When parsing fails on a hunk, in either mode, the line number in the error is
  the number of a line of the trimmed text, counted from one.
\<close>

theorem parse_patch_error_line:
  assumes "parse_patch_text text mode = Err (InvalidHunkError msg n)"
  shows "1 \<le> n \<and> n \<le> length (lines (trim text))"
  using parse_error_line[OF assms] by simp

lemma empty_update_error:
  "parse_patch_text (join [LF] [BEGIN_PATCH_MARKER, UPDATE_FILE_MARKER @ lit ''f'', END_PATCH_MARKER]) Strict =
     Err (InvalidHunkError (empty_update_message (lit ''f'')) 2)"
proof -
  let ?xs = "[BEGIN_PATCH_MARKER, UPDATE_FILE_MARKER @ lit ''f'', END_PATCH_MARKER]"
  have f: "name_ok (lit ''f'')" by (simp add: name_ok_def str_eval)
  have ends: "last (join [LF] ?xs) = 104" "hd (join [LF] ?xs) = 42" "join [LF] ?xs \<noteq> []"
    by (simp_all add: marker_defs lit_def)
  have "patch_lines_of (join [LF] ?xs) Strict = Ok ?xs"
    using trim_surrounded[of "[]" "[]" "join [LF] ?xs"] lines_join_ok[of ?xs] ends
    by (simp add: patch_lines_of_def is_whitespace_def line_ok_append[OF f] check_patch_boundaries_strict_def
        check_start_and_end_lines_strict_def del: join.simps)
  moreover have "push_delta default_parser (join [LF] ?xs) =
      ((upd 2 2 [] (lit ''f'') None [] None)\<lparr>line_buffer := END_PATCH_MARKER\<rparr>, Ok [UpdateFile (lit ''f'') None []])"
  proof -
    have d: "default_parser = at 0 NotStarted [] None" by (simp add: default_parser_def at_def)
    have "run_lines default_parser [BEGIN_PATCH_MARKER, UPDATE_FILE_MARKER @ lit ''f''] = (upd 2 2 [] (lit ''f'') None [] None, Ok ())"
      by (simp add: d process_begin process_headers[of StartedPatch "[]", OF _ f] numeral_2_eq_2)
    then show ?thesis
      using push_delta_lines[of "[BEGIN_PATCH_MARKER, UPDATE_FILE_MARKER @ lit ''f'']" END_PATCH_MARKER]
      by (simp add: line_ok_append[OF f] del: join.simps run_lines.simps)
  qed
  moreover have "snd (finish ((upd 2 2 [] (lit ''f'') None [] None)\<lparr>line_buffer := END_PATCH_MARKER\<rparr>)) =
      Err (InvalidHunkError (empty_update_message (lit ''f'')) 2)"
    by (simp add: finish_def finish_line_def ensure_update_hunk_is_not_empty_def)
  ultimately show ?thesis
    by (cases "join [LF] ?xs" Strict rule: parse_patch_text_cases) (simp_all del: join.simps)
qed

lemma parse_patch_error_line_witness:
  "(2::nat) \<le> length (lines (trim (join [LF] [BEGIN_PATCH_MARKER, UPDATE_FILE_MARKER @ lit ''f'', END_PATCH_MARKER])))"
  using parse_patch_error_line[OF empty_update_error] by (rule conjunct2)

end
