(* ===== verification/Apply_Patch.thy ===== *)
theory Apply_Patch
  imports File_Update Patch_Grammar
begin

text \<open>
  \<open>apply-patch/src/lib.rs\<close>: applying hunks to a file system, with the record of what was
  committed (\<open>AppliedPatchDelta\<close>) and the messages to the user.

  The file system is the trait object \<open>&dyn ExecutorFileSystem\<close>: a record of its operations over a
  world of any type. Reading text and metadata observes the world; writing, creating directories
  and removing return the world they leave behind, also when they fail. \<open>PathUri\<close> rests on the \<open>url\<close>
  crate: joining, parent and rendering are a record of functions. The sandbox argument is passed
  through unchanged everywhere and is part of these functions. Output streams are a function that
  writes one line and may fail.

  The lemmas give: no patch text makes the application panic; an exact delta describes precisely
  how the files changed, whether the application succeeded or failed half way; the summary lists
  every hunk once.
\<close>

section \<open>The file system and paths\<close>

record file_metadata =
  is_directory :: bool
  is_file :: bool
  is_symlink :: bool

record ('p, 'w) executor_file_system =
  read_file_text :: "'p \<Rightarrow> bool \<Rightarrow> 'w \<Rightarrow> (rstr, io_error) result"
  get_metadata :: "'p \<Rightarrow> bool \<Rightarrow> 'w \<Rightarrow> (file_metadata, io_error) result"
  write_file :: "'p \<Rightarrow> rstr \<Rightarrow> bool \<Rightarrow> 'w \<Rightarrow> 'w \<times> (unit, io_error) result"
  create_directory :: "'p \<Rightarrow> bool \<Rightarrow> 'w \<Rightarrow> 'w \<times> (unit, io_error) result"
  remove_file :: "'p \<Rightarrow> bool \<Rightarrow> 'w \<Rightarrow> 'w \<times> (unit, io_error) result"

record 'p path_ops =
  path_join :: "'p \<Rightarrow> rstr \<Rightarrow> ('p, rstr) result"
  path_parent :: "'p \<Rightarrow> 'p option"
  path_native :: "'p \<Rightarrow> rstr"

definition resolve_path :: "'p path_ops \<Rightarrow> 'p \<Rightarrow> hunk \<Rightarrow> ('p, rstr) result" where
  "resolve_path po cwd h =
     path_join po cwd (case h of UpdateFile path mv chunks \<Rightarrow> path | _ \<Rightarrow> hunk_path h)"

section \<open>Errors\<close>

text \<open>
  \<open>anyhow::Error\<close> as this file builds it: an \<open>io::Error\<close> with or without a context string, a
  plain message, an \<open>ApplyPatchError\<close>, or a \<open>PathUriParseError\<close>. A context does not hide an
  \<open>io::Error\<close> from \<open>downcast_ref\<close>.
\<close>

datatype anyhow_error =
    AnyIo "rstr option" io_error
  | AnyMessage rstr
  | AnyApply apply_patch_error
  | AnyPathUri rstr

fun nat_digits :: "nat \<Rightarrow> rstr" where
  "nat_digits n = (if n < 10 then [48 + n] else nat_digits (n div 10) @ [48 + n mod 10])"

fun parse_error_text :: "parse_error \<Rightarrow> rstr" where
  "parse_error_text (InvalidPatchError message) = lit ''invalid patch: '' @ message"
| "parse_error_text (InvalidHunkError message n) =
     lit ''invalid hunk at line '' @ nat_digits n @ lit '', '' @ message"

fun apply_patch_error_text :: "apply_patch_error \<Rightarrow> rstr" where
  "apply_patch_error_text (ParseError e) = parse_error_text e"
| "apply_patch_error_text (IoError context source) = context @ lit '': '' @ io_message source"
| "apply_patch_error_text (ComputeReplacements message) = message"
| "apply_patch_error_text (PathUriError message) = message"
| "apply_patch_error_text ImplicitInvocation =
     lit ''patch detected without explicit call to apply_patch. Rerun as ['' @ [34] @ lit ''apply_patch'' @ [34] @
     lit '', '' @ [34] @ lit ''<patch>'' @ [34] @ lit '']''"

fun anyhow_text :: "anyhow_error \<Rightarrow> rstr" where
  "anyhow_text (AnyIo (Some context) e) = context"
| "anyhow_text (AnyIo None e) = io_message e"
| "anyhow_text (AnyMessage message) = message"
| "anyhow_text (AnyApply e) = apply_patch_error_text e"
| "anyhow_text (AnyPathUri message) = message"

text \<open>\<open>From<std::io::Error>\<close> and \<open>From<&std::io::Error>\<close>.\<close>

definition from_io_error :: "io_error \<Rightarrow> apply_patch_error" where
  "from_io_error e = IoError (lit ''I/O error'') e"

fun from_anyhow :: "anyhow_error \<Rightarrow> apply_patch_error" where
  "from_anyhow (AnyIo context e) = from_io_error e"
| "from_anyhow e = IoError (anyhow_text e) \<lparr>io_kind = OtherKind 0, io_message = anyhow_text e\<rparr>"

section \<open>Deltas\<close>

datatype 'p applied_patch_file_change =
    DeltaAdd rstr "rstr option"
  | DeltaDelete rstr
  | DeltaUpdate "'p option" rstr "rstr option" rstr

record 'p applied_patch_change =
  change_path :: 'p
  file_change :: "'p applied_patch_file_change"

record 'p applied_patch_delta =
  delta_changes :: "'p applied_patch_change list"
  exact :: bool

definition empty_delta :: "'p applied_patch_delta" where
  "empty_delta = \<lparr>delta_changes = [], exact = True\<rparr>"

definition delta_is_empty :: "'p applied_patch_delta \<Rightarrow> bool" where
  "delta_is_empty d \<longleftrightarrow> delta_changes d = []"

definition append_delta :: "'p applied_patch_delta \<Rightarrow> 'p applied_patch_delta \<Rightarrow> 'p applied_patch_delta" where
  "append_delta d other = \<lparr>delta_changes = delta_changes d @ delta_changes other, exact = (exact d \<and> exact other)\<rparr>"

record 'p apply_patch_failure =
  failure_error :: apply_patch_error
  failure_delta :: "'p applied_patch_delta"

record affected_paths =
  added :: "rstr list"
  modified :: "rstr list"
  deleted :: "rstr list"

text \<open>The locals of \<open>apply_hunks_to_files\<close> and the world they run in.\<close>

record ('p, 'w) apply_state =
  world :: 'w
  delta :: "'p applied_patch_delta"
  affected :: affected_paths

section \<open>Helpers\<close>

definition note_existing_path_delta_support ::
  "('p, 'w) executor_file_system \<Rightarrow> 'p \<Rightarrow> bool \<Rightarrow> 'w \<Rightarrow> bool \<Rightarrow> bool" where
  "note_existing_path_delta_support fs path follow w ex =
     (case get_metadata fs path follow w of
        Ok m \<Rightarrow> (if is_file m \<and> \<not> is_symlink m then ex else False)
      | Err e \<Rightarrow> (if io_kind e = NotFound then ex else False))"

definition read_optional_file_text_for_delta ::
  "('p, 'w) executor_file_system \<Rightarrow> 'p \<Rightarrow> bool \<Rightarrow> 'w \<Rightarrow> bool \<Rightarrow> rstr option \<times> bool" where
  "read_optional_file_text_for_delta fs path follow w ex =
     (let ex' = note_existing_path_delta_support fs path follow w ex in
      case read_file_text fs path follow w of
        Ok content \<Rightarrow> (Some content, ex')
      | Err e \<Rightarrow> (if io_kind e = NotFound then (None, ex') else (None, False)))"

definition ensure_not_directory ::
  "('p, 'w) executor_file_system \<Rightarrow> 'p \<Rightarrow> bool \<Rightarrow> 'w \<Rightarrow> (unit, io_error) result" where
  "ensure_not_directory fs path follow w =
     (case get_metadata fs path follow w of
        Err e \<Rightarrow> Err e
      | Ok m \<Rightarrow> (if is_directory m
                then Err \<lparr>io_kind = InvalidInput, io_message = lit ''path is a directory''\<rparr>
                else Ok ()))"

definition remove_failure_was_side_effect_free ::
  "('p, 'w) executor_file_system \<Rightarrow> 'p \<Rightarrow> rstr option \<Rightarrow> bool \<Rightarrow> 'w \<Rightarrow> bool" where
  "remove_failure_was_side_effect_free fs path expected follow w =
     (case expected of
        Some content \<Rightarrow> read_file_text fs path follow w = Ok content
      | None \<Rightarrow> False)"

definition write_failed :: "'p path_ops \<Rightarrow> 'p \<Rightarrow> io_error \<Rightarrow> anyhow_error" where
  "write_failed po path e = AnyIo (Some (lit ''Failed to write file '' @ path_native po path)) e"

definition write_file_with_missing_parent_retry ::
  "'p path_ops \<Rightarrow> ('p, 'w) executor_file_system \<Rightarrow> 'p \<Rightarrow> rstr \<Rightarrow> bool \<Rightarrow> 'w \<Rightarrow> 'w \<times> (unit, anyhow_error) result" where
  "write_file_with_missing_parent_retry po fs path contents follow w =
     (let retry = (\<lambda>w. case write_file fs path contents follow w of
                      (w', Ok _) \<Rightarrow> (w', Ok ())
                    | (w', Err e) \<Rightarrow> (w', Err (write_failed po path e)))
      in case write_file fs path contents follow w of
        (w1, Ok _) \<Rightarrow> (w1, Ok ())
      | (w1, Err e) \<Rightarrow>
          (if io_kind e = NotFound then
             (case path_parent po path of
                None \<Rightarrow> retry w1
              | Some parent \<Rightarrow>
                  (case create_directory fs parent follow w1 of
                     (w2, Err e) \<Rightarrow>
                       (w2, Err (AnyIo (Some (lit ''Failed to create parent directories for '' @ path_native po path)) e))
                   | (w2, Ok _) \<Rightarrow> retry w2))
           else (w1, Err (write_failed po path e))))"

section \<open>Applying one hunk\<close>

definition push_change :: "'p \<Rightarrow> 'p applied_patch_file_change \<Rightarrow> 'p applied_patch_delta \<Rightarrow> 'p applied_patch_delta" where
  "push_change path c d = d\<lparr>delta_changes := delta_changes d @ [\<lparr>change_path = path, file_change = c\<rparr>]\<rparr>"

text \<open>\<open>try_write!\<close>: a failed write may have changed its target, so the delta is no longer exact.\<close>

definition add_file_hunk ::
  "'p path_ops \<Rightarrow> ('p, 'w) executor_file_system \<Rightarrow> bool \<Rightarrow> 'p \<Rightarrow> rstr \<Rightarrow> rstr \<Rightarrow>
   ('p, 'w) apply_state \<Rightarrow> ('p, 'w) apply_state \<times> (unit, anyhow_error) result" where
  "add_file_hunk po fs follow path affected_path contents st =
     (let (overwritten, ex) = read_optional_file_text_for_delta fs path follow (world st) (exact (delta st));
          d = (delta st)\<lparr>exact := ex\<rparr>
      in case write_file_with_missing_parent_retry po fs path contents follow (world st) of
        (w, Err e) \<Rightarrow> (st\<lparr>world := w, delta := d\<lparr>exact := False\<rparr>\<rparr>, Err e)
      | (w, Ok _) \<Rightarrow>
          (st\<lparr>world := w, delta := push_change path (DeltaAdd contents overwritten) d,
              affected := (affected st)\<lparr>added := added (affected st) @ [affected_path]\<rparr>\<rparr>, Ok ()))"

definition delete_file_hunk ::
  "'p path_ops \<Rightarrow> ('p, 'w) executor_file_system \<Rightarrow> bool \<Rightarrow> 'p \<Rightarrow> rstr \<Rightarrow>
   ('p, 'w) apply_state \<Rightarrow> ('p, 'w) apply_state \<times> (unit, anyhow_error) result" where
  "delete_file_hunk po fs follow path affected_path st =
     (let ex = note_existing_path_delta_support fs path follow (world st) (exact (delta st));
          deleted_content = (case read_file_text fs path follow (world st) of Ok c \<Rightarrow> Some c | Err _ \<Rightarrow> None);
          d = (delta st)\<lparr>exact := (if deleted_content = None then False else ex)\<rparr>;
          failed = (\<lambda>e. Err (AnyIo (Some (lit ''Failed to delete file '' @ path_native po path)) e))
      in case ensure_not_directory fs path follow (world st) of
        Err e \<Rightarrow> (st\<lparr>delta := d\<rparr>, failed e)
      | Ok _ \<Rightarrow>
          (case remove_file fs path follow (world st) of
             (w, Err e) \<Rightarrow>
               (st\<lparr>world := w,
                   delta := d\<lparr>exact := (exact d \<and> remove_failure_was_side_effect_free fs path deleted_content follow w)\<rparr>\<rparr>,
                failed e)
           | (w, Ok _) \<Rightarrow>
               (st\<lparr>world := w,
                   delta := (case deleted_content of None \<Rightarrow> d | Some c \<Rightarrow> push_change path (DeltaDelete c) d),
                   affected := (affected st)\<lparr>deleted := deleted (affected st) @ [affected_path]\<rparr>\<rparr>, Ok ())))"

text \<open>The two ways an update is written back: to a move destination, or in place.\<close>

definition move_file_hunk ::
  "'p path_ops \<Rightarrow> ('p, 'w) executor_file_system \<Rightarrow> bool \<Rightarrow> 'p \<Rightarrow> 'p \<Rightarrow> rstr \<Rightarrow> applied_patch \<Rightarrow>
   ('p, 'w) apply_state \<Rightarrow> ('p, 'w) apply_state \<times> (unit, anyhow_error) result" where
  "move_file_hunk po fs follow path dest affected_path up st =
     (let (overwritten, ex) = read_optional_file_text_for_delta fs dest follow (world st) (exact (delta st));
          d = (delta st)\<lparr>exact := ex\<rparr>;
          failed = (\<lambda>e. Err (AnyIo (Some (lit ''Failed to remove original '' @ path_native po path)) e))
      in case write_file_with_missing_parent_retry po fs dest (new_contents up) follow (world st) of
        (w, Err e) \<Rightarrow> (st\<lparr>world := w, delta := d\<lparr>exact := False\<rparr>\<rparr>, Err e)
      | (w, Ok _) \<Rightarrow>
          (let d' = push_change dest (DeltaAdd (new_contents up) overwritten) d in
           case ensure_not_directory fs path follow w of
             Err e \<Rightarrow> (st\<lparr>world := w, delta := d'\<rparr>, failed e)
           | Ok _ \<Rightarrow>
               (case remove_file fs path follow w of
                  (w', Err e) \<Rightarrow>
                    (st\<lparr>world := w',
                        delta := d'\<lparr>exact := (exact d' \<and>
                          remove_failure_was_side_effect_free fs path (Some (original_contents up)) follow w')\<rparr>\<rparr>,
                     failed e)
                | (w', Ok _) \<Rightarrow>
                    (st\<lparr>world := w',
                        delta := d'\<lparr>delta_changes := (delta_changes d')[length (delta_changes d) :=
                          \<lparr>change_path = path, file_change =
                             DeltaUpdate (Some dest) (original_contents up) overwritten (new_contents up)\<rparr>]\<rparr>,
                        affected := (affected st)\<lparr>modified := modified (affected st) @ [affected_path]\<rparr>\<rparr>, Ok ()))))"

definition rewrite_file_hunk ::
  "'p path_ops \<Rightarrow> ('p, 'w) executor_file_system \<Rightarrow> bool \<Rightarrow> 'p \<Rightarrow> rstr \<Rightarrow> applied_patch \<Rightarrow>
   ('p, 'w) apply_state \<Rightarrow> ('p, 'w) apply_state \<times> (unit, anyhow_error) result" where
  "rewrite_file_hunk po fs follow path affected_path up st =
     (case write_file fs path (new_contents up) follow (world st) of
        (w, Err e) \<Rightarrow> (st\<lparr>world := w, delta := (delta st)\<lparr>exact := False\<rparr>\<rparr>, Err (write_failed po path e))
      | (w, Ok _) \<Rightarrow>
          (st\<lparr>world := w,
              delta := push_change path (DeltaUpdate None (original_contents up) None (new_contents up)) (delta st),
              affected := (affected st)\<lparr>modified := modified (affected st) @ [affected_path]\<rparr>\<rparr>, Ok ()))"

definition update_file_hunk ::
  "'p path_ops \<Rightarrow> ('p, 'w) executor_file_system \<Rightarrow> apply_patch_options \<Rightarrow> 'p \<Rightarrow> 'p \<Rightarrow> rstr \<Rightarrow>
   rstr option \<Rightarrow> update_file_chunk list \<Rightarrow>
   ('p, 'w) apply_state \<Rightarrow> (('p, 'w) apply_state \<times> (unit, anyhow_error) result) option" where
  "update_file_hunk po fs options cwd path affected_path move_path chunks st =
     (let follow = follow_symlinks options;
          st1 = st\<lparr>delta := (delta st)\<lparr>exact :=
                  note_existing_path_delta_support fs path follow (world st) (exact (delta st))\<rparr>\<rparr>
      in case derive_new_contents_from_chunks (read_file_text fs path follow (world st1)) (path_native po path)
                chunks (update_file_mode options) of
        None \<Rightarrow> None
      | Some (Err e) \<Rightarrow> Some (st1, Err (AnyApply e))
      | Some (Ok up) \<Rightarrow>
          (case move_path of
             None \<Rightarrow> Some (rewrite_file_hunk po fs follow path affected_path up st1)
           | Some dest \<Rightarrow>
               (case path_join po cwd dest of
                  Err e \<Rightarrow> Some (st1, Err (AnyPathUri e))
                | Ok dest_uri \<Rightarrow> Some (move_file_hunk po fs follow path dest_uri affected_path up st1))))"

definition apply_hunk ::
  "'p path_ops \<Rightarrow> ('p, 'w) executor_file_system \<Rightarrow> apply_patch_options \<Rightarrow> 'p \<Rightarrow> hunk \<Rightarrow>
   ('p, 'w) apply_state \<Rightarrow> (('p, 'w) apply_state \<times> (unit, anyhow_error) result) option" where
  "apply_hunk po fs options cwd h st =
     (case resolve_path po cwd h of
        Err e \<Rightarrow> Some (st, Err (AnyPathUri e))
      | Ok path \<Rightarrow>
          (case h of
             AddFile p contents \<Rightarrow>
               Some (add_file_hunk po fs (follow_symlinks options) path (hunk_path h) contents st)
           | DeleteFile p \<Rightarrow> Some (delete_file_hunk po fs (follow_symlinks options) path (hunk_path h) st)
           | UpdateFile p move_path chunks \<Rightarrow>
               update_file_hunk po fs options cwd path (hunk_path h) move_path chunks st))"

section \<open>Applying a patch\<close>

fun apply_hunks_loop ::
  "'p path_ops \<Rightarrow> ('p, 'w) executor_file_system \<Rightarrow> apply_patch_options \<Rightarrow> 'p \<Rightarrow> hunk list \<Rightarrow>
   ('p, 'w) apply_state \<Rightarrow> (('p, 'w) apply_state \<times> (unit, anyhow_error) result) option" where
  "apply_hunks_loop po fs options cwd [] st = Some (st, Ok ())"
| "apply_hunks_loop po fs options cwd (h # hs) st =
     (case apply_hunk po fs options cwd h st of
        None \<Rightarrow> None
      | Some (st', Err e) \<Rightarrow> Some (st', Err e)
      | Some (st', Ok _) \<Rightarrow> apply_hunks_loop po fs options cwd hs st')"

definition no_paths :: affected_paths where
  "no_paths = \<lparr>added = [], modified = [], deleted = []\<rparr>"

definition apply_hunks_to_files ::
  "'p path_ops \<Rightarrow> ('p, 'w) executor_file_system \<Rightarrow> apply_patch_options \<Rightarrow> 'p \<Rightarrow> hunk list \<Rightarrow>
   'w \<Rightarrow> 'p applied_patch_delta \<Rightarrow> ('w \<times> 'p applied_patch_delta \<times> (affected_paths, anyhow_error) result) option" where
  "apply_hunks_to_files po fs options cwd hs w d =
     (if hs = [] then Some (w, d, Err (AnyMessage (lit ''No files were modified.'')))
      else case apply_hunks_loop po fs options cwd hs \<lparr>world = w, delta = d, affected = no_paths\<rparr> of
        None \<Rightarrow> None
      | Some (st, Err e) \<Rightarrow> Some (world st, delta st, Err e)
      | Some (st, Ok _) \<Rightarrow> Some (world st, delta st, Ok (affected st)))"

text \<open>Writing lines to a stream until one fails.\<close>

type_synonym 'o writer = "rstr \<Rightarrow> 'o \<Rightarrow> 'o \<times> (unit, io_error) result"

fun write_lines :: "'o writer \<Rightarrow> rstr list \<Rightarrow> 'o \<Rightarrow> 'o \<times> (unit, io_error) result" where
  "write_lines wr [] out = (out, Ok ())"
| "write_lines wr (l # ls) out =
     (case wr (l @ [LF]) out of
        (out', Err e) \<Rightarrow> (out', Err e)
      | (out', Ok _) \<Rightarrow> write_lines wr ls out')"

definition summary_lines :: "affected_paths \<Rightarrow> rstr list" where
  "summary_lines a =
     lit ''Success. Updated the following files:'' #
     map (\<lambda>p. lit ''A '' @ p) (added a) @ map (\<lambda>p. lit ''M '' @ p) (modified a) @
     map (\<lambda>p. lit ''D '' @ p) (deleted a)"

definition print_summary :: "'o writer \<Rightarrow> affected_paths \<Rightarrow> 'o \<Rightarrow> 'o \<times> (unit, io_error) result" where
  "print_summary wr a out = write_lines wr (summary_lines a) out"

text \<open>Both streams share one writer function, on states of their own.\<close>

record ('o, 'w) run_state =
  run_stdout :: 'o
  run_stderr :: 'o
  run_world :: 'w

definition apply_hunks_with_options ::
  "'o writer \<Rightarrow> 'p path_ops \<Rightarrow> ('p, 'w) executor_file_system \<Rightarrow> hunk list \<Rightarrow> apply_patch_options \<Rightarrow> 'p \<Rightarrow>
   ('o, 'w) run_state \<Rightarrow>
   (('o, 'w) run_state \<times> ('p applied_patch_delta, 'p apply_patch_failure) result) option" where
  "apply_hunks_with_options wr po fs hs options cwd rs =
     (case apply_hunks_to_files po fs options cwd hs (run_world rs) empty_delta of
        None \<Rightarrow> None
      | Some (w, d, Ok a) \<Rightarrow>
          (case print_summary wr a (run_stdout rs) of
             (out, Err e) \<Rightarrow>
               Some (rs\<lparr>run_world := w, run_stdout := out\<rparr>,
                     Err \<lparr>failure_error = from_io_error e, failure_delta = d\<rparr>)
           | (out, Ok _) \<Rightarrow> Some (rs\<lparr>run_world := w, run_stdout := out\<rparr>, Ok d))
      | Some (w, d, Err e) \<Rightarrow>
          (case wr (anyhow_text e @ [LF]) (run_stderr rs) of
             (out, Err io) \<Rightarrow>
               Some (rs\<lparr>run_world := w, run_stderr := out\<rparr>,
                     Err \<lparr>failure_error = from_io_error io, failure_delta = d\<rparr>)
           | (out, Ok _) \<Rightarrow>
               Some (rs\<lparr>run_world := w, run_stderr := out\<rparr>,
                     Err \<lparr>failure_error = from_anyhow e, failure_delta = d\<rparr>)))"

fun invalid_patch_line :: "parse_error \<Rightarrow> rstr" where
  "invalid_patch_line (InvalidPatchError message) = lit ''Invalid patch: '' @ message"
| "invalid_patch_line (InvalidHunkError message n) =
     lit ''Invalid patch hunk on line '' @ nat_digits n @ lit '': '' @ message"

definition apply_patch_with_options ::
  "'o writer \<Rightarrow> 'p path_ops \<Rightarrow> ('p, 'w) executor_file_system \<Rightarrow> rstr \<Rightarrow> apply_patch_options \<Rightarrow> 'p \<Rightarrow>
   ('o, 'w) run_state \<Rightarrow>
   (('o, 'w) run_state \<times> ('p applied_patch_delta, 'p apply_patch_failure) result) option" where
  "apply_patch_with_options wr po fs patch_text options cwd rs =
     (case parse_patch patch_text of
        Ok args \<Rightarrow> apply_hunks_with_options wr po fs (hunks args) options cwd rs
      | Err e \<Rightarrow>
          (case wr (invalid_patch_line e @ [LF]) (run_stderr rs) of
             (out, Err io) \<Rightarrow>
               Some (rs\<lparr>run_stderr := out\<rparr>, Err \<lparr>failure_error = from_io_error io, failure_delta = empty_delta\<rparr>)
           | (out, Ok _) \<Rightarrow>
               Some (rs\<lparr>run_stderr := out\<rparr>, Err \<lparr>failure_error = ParseError e, failure_delta = empty_delta\<rparr>)))"

definition apply_patch ::
  "'o writer \<Rightarrow> 'p path_ops \<Rightarrow> ('p, 'w) executor_file_system \<Rightarrow> rstr \<Rightarrow> 'p \<Rightarrow>
   ('o, 'w) run_state \<Rightarrow>
   (('o, 'w) run_state \<times> ('p applied_patch_delta, 'p apply_patch_failure) result) option" where
  "apply_patch wr po fs patch_text cwd rs = apply_patch_with_options wr po fs patch_text default_options cwd rs"

section \<open>Specification\<close>

text \<open>
  What a delta says about the files: each change recorded with the contents it found, and the files
  it leaves.
\<close>

type_synonym 'p files = "'p \<Rightarrow> rstr option"

fun replay_change :: "'p applied_patch_change \<Rightarrow> 'p files \<Rightarrow> 'p files" where
  "replay_change c F = (case file_change c of
     DeltaAdd content overwritten \<Rightarrow> F(change_path c \<mapsto> content)
   | DeltaDelete content \<Rightarrow> F(change_path c := None)
   | DeltaUpdate None old overwritten new \<Rightarrow> F(change_path c \<mapsto> new)
   | DeltaUpdate (Some dest) old overwritten new \<Rightarrow> (F(dest \<mapsto> new))(change_path c := None))"

fun change_sound :: "'p applied_patch_change \<Rightarrow> 'p files \<Rightarrow> bool" where
  "change_sound c F \<longleftrightarrow> (case file_change c of
     DeltaAdd content overwritten \<Rightarrow> F (change_path c) = overwritten
   | DeltaDelete content \<Rightarrow> F (change_path c) = Some content
   | DeltaUpdate None old overwritten new \<Rightarrow> F (change_path c) = Some old \<and> overwritten = None
   | DeltaUpdate (Some dest) old overwritten new \<Rightarrow> F (change_path c) = Some old \<and> F dest = overwritten)"

text \<open>The changes describe how the files \<open>F\<close> became \<open>G\<close>, one after the other.\<close>

fun describes :: "'p applied_patch_change list \<Rightarrow> 'p files \<Rightarrow> 'p files \<Rightarrow> bool" where
  "describes [] F G \<longleftrightarrow> F = G"
| "describes (c # cs) F G \<longleftrightarrow> change_sound c F \<and> describes cs (replay_change c F) G"

text \<open>
  What the delta bookkeeping relies on in the file system. \<open>files w\<close> are the text files of a world.
  A path is plain when its metadata is that of a regular file that is no symbolic link, or says that
  nothing is there; \<open>note_existing_path_delta_support\<close> keeps the delta exact only for such paths.
  \<^item> A successful read returns the file's text; a read that reports \<open>NotFound\<close> means there is none.
  \<^item> A successful write to a plain path changes that file and no other; one that reports \<open>NotFound\<close>
    changes nothing.
  \<^item> Creating a directory changes no file and keeps existing files and the children of the new
    directory plain.
  \<^item> Removing a plain path, when it succeeds, removes that file only; when it fails, it has either
    changed nothing or removed that file.
\<close>

definition plain :: "('p, 'w) executor_file_system \<Rightarrow> bool \<Rightarrow> 'w \<Rightarrow> 'p \<Rightarrow> bool" where
  "plain fs follow w path \<longleftrightarrow>
     (case get_metadata fs path follow w of
        Ok m \<Rightarrow> is_file m \<and> \<not> is_symlink m
      | Err e \<Rightarrow> io_kind e = NotFound)"

definition reads_files :: "('p, 'w) executor_file_system \<Rightarrow> ('w \<Rightarrow> 'p files) \<Rightarrow> bool \<Rightarrow> bool" where
  "reads_files fs files follow \<longleftrightarrow>
     (\<forall>w path c. read_file_text fs path follow w = Ok c \<longrightarrow> files w path = Some c) \<and>
     (\<forall>w path e. read_file_text fs path follow w = Err e \<and> io_kind e = NotFound \<longrightarrow> files w path = None)"

definition writes_files :: "('p, 'w) executor_file_system \<Rightarrow> ('w \<Rightarrow> 'p files) \<Rightarrow> bool \<Rightarrow> bool" where
  "writes_files fs files follow \<longleftrightarrow>
     (\<forall>w path c w' u. write_file fs path c follow w = (w', Ok u) \<and> plain fs follow w path \<longrightarrow>
        files w' = (files w)(path \<mapsto> c) \<and> (\<forall>q. plain fs follow w q \<longrightarrow> plain fs follow w' q)) \<and>
     (\<forall>w path c w' e. write_file fs path c follow w = (w', Err e) \<and> io_kind e = NotFound \<longrightarrow>
        files w' = files w \<and> (\<forall>q. plain fs follow w q \<longrightarrow> plain fs follow w' q))"

definition creates_directories ::
  "'p path_ops \<Rightarrow> ('p, 'w) executor_file_system \<Rightarrow> ('w \<Rightarrow> 'p files) \<Rightarrow> bool \<Rightarrow> bool" where
  "creates_directories po fs files follow \<longleftrightarrow>
     (\<forall>w dir w' u. create_directory fs dir follow w = (w', Ok u) \<longrightarrow>
        files w' = files w \<and>
        (\<forall>q. plain fs follow w q \<and> (files w q \<noteq> None \<or> path_parent po q = Some dir) \<longrightarrow> plain fs follow w' q))"

definition removes_files :: "('p, 'w) executor_file_system \<Rightarrow> ('w \<Rightarrow> 'p files) \<Rightarrow> bool \<Rightarrow> bool" where
  "removes_files fs files follow \<longleftrightarrow>
     (\<forall>w path w' u. remove_file fs path follow w = (w', Ok u) \<and> plain fs follow w path \<longrightarrow>
        files w' = (files w)(path := None)) \<and>
     (\<forall>w path w' e. remove_file fs path follow w = (w', Err e) \<and> plain fs follow w path \<longrightarrow>
        files w' = files w \<or> files w' = (files w)(path := None))"

definition text_fs ::
  "'p path_ops \<Rightarrow> ('p, 'w) executor_file_system \<Rightarrow> ('w \<Rightarrow> 'p files) \<Rightarrow> bool \<Rightarrow> bool" where
  "text_fs po fs files follow \<longleftrightarrow>
     reads_files fs files follow \<and> writes_files fs files follow \<and>
     creates_directories po fs files follow \<and> removes_files fs files follow"

text \<open>A step that leaves an exact delta started from one, and its new changes describe its effect.\<close>

definition step_exact ::
  "('w \<Rightarrow> 'p files) \<Rightarrow> ('p, 'w) apply_state \<Rightarrow> ('p, 'w) apply_state \<Rightarrow> bool" where
  "step_exact files st st' \<longleftrightarrow>
     (exact (delta st') \<longrightarrow> exact (delta st) \<and>
       (\<exists>cs. delta_changes (delta st') = delta_changes (delta st) @ cs \<and>
          describes cs (files (world st)) (files (world st'))))"

section \<open>Exact deltas\<close>

lemma describes_append:
  "describes xs F G \<Longrightarrow> describes ys G H \<Longrightarrow> describes (xs @ ys) F H"
  by (induction xs F G rule: describes.induct) auto

lemma step_exact_trans:
  "step_exact files a b \<Longrightarrow> step_exact files b c \<Longrightarrow> step_exact files a c"
  unfolding step_exact_def by (metis append_assoc describes_append)

lemma step_exact_inexact [intro]: "\<not> exact (delta st') \<Longrightarrow> step_exact files st st'"
  by (simp add: step_exact_def)

lemma note_support: "note_existing_path_delta_support fs path follow w ex \<longleftrightarrow> ex \<and> plain fs follow w path"
  by (auto simp: plain_def note_existing_path_delta_support_def split: result.splits)

lemma read_optional_exact:
  assumes "text_fs po fs files follow"
    and "read_optional_file_text_for_delta fs path follow w ex = (content, True)"
  shows "ex" and "plain fs follow w path" and "files w path = content"
  using assms
  by (auto simp: read_optional_file_text_for_delta_def note_support text_fs_def reads_files_def Let_def
      split: result.splits if_splits)

lemma text_fs_write:
  assumes "text_fs po fs files follow" and "plain fs follow w path" and "write_file fs path c follow w = (w', Ok u)"
  shows "files w' = (files w)(path \<mapsto> c)" and "plain fs follow w q \<Longrightarrow> plain fs follow w' q"
  using assms unfolding text_fs_def writes_files_def by blast+

lemma text_fs_write_missing:
  assumes "text_fs po fs files follow" and "write_file fs path c follow w = (w', Err e)" and "io_kind e = NotFound"
  shows "files w' = files w" and "plain fs follow w q \<Longrightarrow> plain fs follow w' q"
  using assms unfolding text_fs_def writes_files_def by blast+

lemma text_fs_create:
  assumes "text_fs po fs files follow" and "create_directory fs dir follow w = (w', Ok u)"
  shows "files w' = files w"
    and "plain fs follow w q \<Longrightarrow> files w q \<noteq> None \<or> path_parent po q = Some dir \<Longrightarrow> plain fs follow w' q"
  using assms unfolding text_fs_def creates_directories_def by blast+

lemma text_fs_remove:
  assumes "text_fs po fs files follow" and "plain fs follow w path"
  shows "remove_file fs path follow w = (w', Ok u) \<Longrightarrow> files w' = (files w)(path := None)"
    and "remove_file fs path follow w = (w', Err e) \<Longrightarrow> files w' = files w \<or> files w' = (files w)(path := None)"
  using assms unfolding text_fs_def removes_files_def by blast+

lemma text_fs_read:
  "text_fs po fs files follow \<Longrightarrow> read_file_text fs path follow w = Ok c \<Longrightarrow> files w path = Some c"
  unfolding text_fs_def reads_files_def by blast

text \<open>The ways \<open>write_file_with_missing_parent_retry\<close> can succeed.\<close>

lemma write_retry_cases:
  assumes "write_file_with_missing_parent_retry po fs path c follow w = (w', Ok u)"
  obtains (direct) v where "write_file fs path c follow w = (w', Ok v)"
  | (again) w1 e v where "write_file fs path c follow w = (w1, Err e)" "io_kind e = NotFound"
      "path_parent po path = None" "write_file fs path c follow w1 = (w', Ok v)"
  | (parent) w1 e dir w2 v v' where "write_file fs path c follow w = (w1, Err e)" "io_kind e = NotFound"
      "path_parent po path = Some dir" "create_directory fs dir follow w1 = (w2, Ok v)"
      "write_file fs path c follow w2 = (w', Ok v')"
  using assms
  by (auto simp: write_file_with_missing_parent_retry_def Let_def
      split: prod.splits result.splits if_splits option.splits)

lemma write_retry_effect:
  assumes fs: "text_fs po fs files follow" and pl: "plain fs follow w path"
    and "write_file_with_missing_parent_retry po fs path c follow w = (w', Ok u)"
  shows "files w' = (files w)(path \<mapsto> c) \<and> (\<forall>q. files w q \<noteq> None \<and> plain fs follow w q \<longrightarrow> plain fs follow w' q)"
  using assms(3)
proof (cases rule: write_retry_cases)
  case (direct v)
  show ?thesis using text_fs_write[OF fs pl direct] by blast
next
  case (again w1 e v)
  note keep = text_fs_write_missing[OF fs again(1,2)]
  show ?thesis using text_fs_write[OF fs keep(2)[OF pl] again(4)] keep by simp
next
  case (parent w1 e dir w2 v v')
  note keep = text_fs_write_missing[OF fs parent(1,2)] and made = text_fs_create[OF fs parent(4)]
  have "plain fs follow w2 path" using made(2) keep(2)[OF pl] parent(3) by blast
  note effect = text_fs_write[OF fs this parent(5)]
  show ?thesis using effect keep made by simp
qed

text \<open>A step that pushes one sound change whose replay is its effect.\<close>

lemma step_exact_change:
  assumes "exact (delta st') \<Longrightarrow>
      exact (delta st) \<and> delta_changes (delta st') = delta_changes (delta st) @ [c] \<and>
      change_sound c (files (world st)) \<and> files (world st') = replay_change c (files (world st))"
  shows "step_exact files st st'"
  unfolding step_exact_def
proof (intro impI conjI)
  assume "exact (delta st')"
  from assms[OF this] show "exact (delta st)"
    and "\<exists>cs. delta_changes (delta st') = delta_changes (delta st) @ cs \<and>
      describes cs (files (world st)) (files (world st'))"
    by (auto intro!: exI[of _ "[c]"] simp del: change_sound.simps replay_change.simps)
qed

lemma step_exact_none:
  assumes "exact (delta st') \<Longrightarrow>
      exact (delta st) \<and> delta_changes (delta st') = delta_changes (delta st) \<and>
      files (world st') = files (world st)"
  shows "step_exact files st st'"
  using assms by (auto simp: step_exact_def)

lemma add_file_hunk_exact:
  assumes fs: "text_fs po fs files follow"
  shows "step_exact files st (fst (add_file_hunk po fs follow path aff c st))"
proof -
  obtain ov ex where ro: "read_optional_file_text_for_delta fs path follow (world st) (exact (delta st)) = (ov, ex)"
    by fastforce
  obtain w r where w: "write_file_with_missing_parent_retry po fs path c follow (world st) = (w, r)" by fastforce
  show ?thesis
  proof (cases r)
    case (Err e)
    with ro w show ?thesis by (auto simp: add_file_hunk_def)
  next
    case (Ok u)
    have "change_sound \<lparr>change_path = path, file_change = DeltaAdd c ov\<rparr> (files (world st))"
      "files w = (files (world st))(path \<mapsto> c)" "exact (delta st)" if ex
      using read_optional_exact[OF fs, of path "world st" "exact (delta st)" ov] ro that
        write_retry_effect[OF fs _ w[unfolded Ok]] by auto
    with ro w Ok show ?thesis
      by (intro step_exact_change[where c = "\<lparr>change_path = path, file_change = DeltaAdd c ov\<rparr>"])
        (simp add: add_file_hunk_def push_change_def)
  qed
qed

text \<open>A failed removal that left the old contents readable changed no file.\<close>

lemma failed_remove_free:
  assumes fs: "text_fs po fs files follow" and "plain fs follow w path"
    and "remove_file fs path follow w = (w', Err e)"
    and "remove_failure_was_side_effect_free fs path (Some c) follow w'"
  shows "files w' = files w"
proof -
  have "files w' path = Some c"
    using assms(4) text_fs_read[OF fs, of path w' c] by (simp add: remove_failure_was_side_effect_free_def)
  with text_fs_remove(2)[OF fs assms(2,3)] show ?thesis by auto
qed

lemma delete_file_hunk_exact:
  assumes fs: "text_fs po fs files follow"
  shows "step_exact files st (fst (delete_file_hunk po fs follow path aff st))"
proof (cases "read_file_text fs path follow (world st)")
  case (Err e)
  then show ?thesis
    by (auto simp: delete_file_hunk_def Let_def remove_failure_was_side_effect_free_def
        intro!: step_exact_inexact split: result.splits prod.splits)
next
  case (Ok c)
  note read = this text_fs_read[OF fs Ok]
  obtain w r where w: "remove_file fs path follow (world st) = (w, r)" by fastforce
  show ?thesis
  proof (cases "ensure_not_directory fs path follow (world st)")
    case (Err e)
    with read show ?thesis
      by (auto simp: delete_file_hunk_def Let_def note_support intro!: step_exact_none)
  next
    case (Ok u)
    show ?thesis
    proof (cases r)
      case (Ok v)
      have "files w = (files (world st))(path := None)" if "plain fs follow (world st) path"
        using text_fs_remove(1)[OF fs that] w Ok by simp
      with read w Ok \<open>ensure_not_directory fs path follow (world st) = _\<close> show ?thesis
        by (intro step_exact_change[where c = "\<lparr>change_path = path, file_change = DeltaDelete c\<rparr>"])
          (simp add: delete_file_hunk_def Let_def note_support push_change_def)
    next
      case (Err e)
      have "files w = files (world st)"
        if "plain fs follow (world st) path" "remove_failure_was_side_effect_free fs path (Some c) follow w"
        using failed_remove_free[OF fs that(1) w[unfolded Err] that(2)] .
      with read w Err \<open>ensure_not_directory fs path follow (world st) = _\<close> show ?thesis
        by (intro step_exact_none) (simp add: delete_file_hunk_def Let_def note_support)
    qed
  qed
qed

lemma rewrite_file_hunk_exact:
  assumes fs: "text_fs po fs files follow"
    and "exact (delta st) \<Longrightarrow> plain fs follow (world st) path"
    and "files (world st) path = Some (original_contents up)"
  shows "step_exact files st (fst (rewrite_file_hunk po fs follow path aff up st))"
proof -
  obtain w r where w: "write_file fs path (new_contents up) follow (world st) = (w, r)" by fastforce
  show ?thesis
  proof (cases r)
    case (Err e)
    with w show ?thesis by (auto simp: rewrite_file_hunk_def)
  next
    case (Ok u)
    have "files w = (files (world st))(path \<mapsto> new_contents up)" if "exact (delta st)"
      using text_fs_write(1)[OF fs assms(2)[OF that]] w Ok by simp
    with w Ok assms(3) show ?thesis
      by (intro step_exact_change[where c = "\<lparr>change_path = path,
            file_change = DeltaUpdate None (original_contents up) None (new_contents up)\<rparr>"])
        (simp add: rewrite_file_hunk_def push_change_def)
  qed
qed

lemma move_file_hunk_exact:
  assumes fs: "text_fs po fs files follow"
    and "exact (delta st) \<Longrightarrow> plain fs follow (world st) path"
    and old: "files (world st) path = Some (original_contents up)"
  shows "step_exact files st (fst (move_file_hunk po fs follow path dest aff up st))"
proof -
  obtain ov ex where ro: "read_optional_file_text_for_delta fs dest follow (world st) (exact (delta st)) = (ov, ex)"
    by fastforce
  obtain w r where w: "write_file_with_missing_parent_retry po fs dest (new_contents up) follow (world st) = (w, r)"
    by fastforce
  show ?thesis
  proof (cases r)
    case (Err e)
    with ro w show ?thesis by (auto simp: move_file_hunk_def)
  next
    case wrote: (Ok u)
    have ex: "exact (delta st)" "files (world st) dest = ov" "files w = (files (world st))(dest \<mapsto> new_contents up)"
      "plain fs follow w path" if ex
      using read_optional_exact[OF fs, of dest "world st" "exact (delta st)" ov] ro that old
        write_retry_effect[OF fs _ w[unfolded wrote]] assms(2) by auto
    let ?add = "\<lparr>change_path = dest, file_change = DeltaAdd (new_contents up) ov\<rparr>"
    let ?upd = "\<lparr>change_path = path, file_change = DeltaUpdate (Some dest) (original_contents up) ov (new_contents up)\<rparr>"
    obtain w' r' where w': "remove_file fs path follow w = (w', r')" by fastforce
    show ?thesis
    proof (cases "ensure_not_directory fs path follow w")
      case (Err e)
      with ro w wrote ex show ?thesis
        by (intro step_exact_change[where c = ?add]) (simp add: move_file_hunk_def push_change_def)
    next
      case dir: (Ok v)
      show ?thesis
      proof (cases r')
        case (Err e)
        have "files w' = files w" if ex "remove_failure_was_side_effect_free fs path (Some (original_contents up)) follow w'"
          using failed_remove_free[OF fs ex(4)[OF that(1)] w'[unfolded Err] that(2)] .
        with ro w wrote ex dir w' Err show ?thesis
          by (intro step_exact_change[where c = ?add]) (simp add: move_file_hunk_def push_change_def)
      next
        case (Ok v')
        have "files w' = (files w)(path := None)" if ex
          using text_fs_remove(1)[OF fs ex(4)[OF that]] w' Ok by simp
        with ro w wrote ex dir w' Ok old show ?thesis
          by (intro step_exact_change[where c = ?upd]) (simp add: move_file_hunk_def push_change_def)
      qed
    qed
  qed
qed

lemma derive_original:
  "derive_new_contents_from_chunks (read_file_text fs path follow w) t chunks mode = Some (Ok up) \<Longrightarrow>
   read_file_text fs path follow w = Ok (original_contents up)"
  by (auto simp: derive_new_contents_from_chunks_def split: result.splits option.splits)

lemma update_file_hunk_exact:
  assumes fs: "text_fs po fs files (follow_symlinks options)"
    and run: "update_file_hunk po fs options cwd path aff mv chunks st = Some (st', r)"
  shows "step_exact files st st'"
proof -
  let ?follow = "follow_symlinks options"
  let ?st = "st\<lparr>delta := (delta st)\<lparr>exact :=
    note_existing_path_delta_support fs path ?follow (world st) (exact (delta st))\<rparr>\<rparr>"
  have noted: "step_exact files st ?st"
    by (rule step_exact_none) (simp add: note_support)
  have plain: "exact (delta ?st) \<Longrightarrow> plain fs ?follow (world ?st) path"
    by (simp add: note_support)
  show ?thesis
  proof (cases "derive_new_contents_from_chunks (read_file_text fs path ?follow (world ?st)) (path_native po path)
      chunks (update_file_mode options)")
    case None
    with run show ?thesis by (simp add: update_file_hunk_def)
  next
    case (Some res)
    show ?thesis
    proof (cases res)
      case (Err e)
      with run Some noted show ?thesis by (simp add: update_file_hunk_def)
    next
      case (Ok up)
      have old: "files (world ?st) path = Some (original_contents up)"
        using text_fs_read[OF fs derive_original] Some Ok by simp
      have "st' = ?st \<or> st' = fst (rewrite_file_hunk po fs ?follow path aff up ?st) \<or>
          (\<exists>dest. st' = fst (move_file_hunk po fs ?follow path dest aff up ?st))"
        using run Some Ok by (auto simp: update_file_hunk_def Let_def split: option.splits result.splits) (metis fst_conv)
      then show ?thesis
        using noted step_exact_trans[OF noted rewrite_file_hunk_exact[OF fs plain old]]
          step_exact_trans[OF noted move_file_hunk_exact[OF fs plain old]] by blast
    qed
  qed
qed

lemma apply_hunk_exact:
  assumes fs: "text_fs po fs files (follow_symlinks options)"
    and run: "apply_hunk po fs options cwd h st = Some (st', r)"
  shows "step_exact files st st'"
proof -
  have refl: "step_exact files st st" by (rule step_exact_none) simp
  show ?thesis
    using run add_file_hunk_exact[OF fs, of st] delete_file_hunk_exact[OF fs, of st] update_file_hunk_exact[OF fs] refl
    by (auto simp: apply_hunk_def split: result.splits hunk.splits) (metis fst_conv)+
qed

lemma apply_hunks_loop_exact:
  assumes fs: "text_fs po fs files (follow_symlinks options)"
  shows "apply_hunks_loop po fs options cwd hs st = Some (st', r) \<Longrightarrow> step_exact files st st'"
proof (induction hs arbitrary: st)
  case Nil
  then show ?case by (auto intro!: step_exact_none)
next
  case (Cons h hs)
  obtain st1 r1 where h: "apply_hunk po fs options cwd h st = Some (st1, r1)"
    using Cons(2) by (cases "apply_hunk po fs options cwd h st") auto
  note first = apply_hunk_exact[OF fs h]
  show ?case
    using Cons(2) h first Cons(1)[of st1] step_exact_trans[OF first]
    by (auto split: result.splits)
qed

section \<open>Undoing a delta\<close>

fun undo_change :: "'p applied_patch_change \<Rightarrow> 'p files \<Rightarrow> 'p files" where
  "undo_change c G = (case file_change c of
     DeltaAdd content overwritten \<Rightarrow> G(change_path c := overwritten)
   | DeltaDelete content \<Rightarrow> G(change_path c \<mapsto> content)
   | DeltaUpdate None old overwritten new \<Rightarrow> G(change_path c \<mapsto> old)
   | DeltaUpdate (Some dest) old overwritten new \<Rightarrow> (G(dest := overwritten))(change_path c \<mapsto> old))"

lemma undo_replay: "change_sound c F \<Longrightarrow> undo_change c (replay_change c F) = F"
  by (auto split: applied_patch_file_change.splits option.splits)

lemma describes_undo: "describes cs F G \<Longrightarrow> foldr undo_change cs G = F"
  by (induction cs F G rule: describes.induct) (simp_all add: undo_replay del: undo_change.simps replay_change.simps change_sound.simps)

section \<open>No panic, and the summary\<close>

lemma apply_hunk_total: "hunk_complete h \<Longrightarrow> apply_hunk po fs options cwd h st \<noteq> None"
proof (cases h)
  case (UpdateFile path mv chunks)
  moreover assume "hunk_complete h"
  ultimately have "list_all chunk_wf chunks" by (auto simp: list_all_iff)
  note total = derive_new_contents_total[OF this]
  show ?thesis
  proof (cases "resolve_path po cwd h")
    case (Ok p)
    obtain res where "derive_new_contents_from_chunks (read_file_text fs p (follow_symlinks options) (world st))
        (path_native po p) chunks (update_file_mode options) = Some res"
      using total by blast
    with UpdateFile Ok show ?thesis
      by (auto simp: apply_hunk_def update_file_hunk_def Let_def split: result.splits option.splits)
  qed (simp add: apply_hunk_def)
qed (auto simp: apply_hunk_def split: result.splits)

lemma apply_hunks_loop_total:
  "list_all hunk_complete hs \<Longrightarrow> apply_hunks_loop po fs options cwd hs st \<noteq> None"
proof (induction hs arbitrary: st)
  case (Cons h hs)
  then have "apply_hunk po fs options cwd h st \<noteq> None" by (simp add: apply_hunk_total)
  with Cons show ?case by (auto split: result.splits)
qed simp

text \<open>The paths a hunk adds to the summary.\<close>

definition note_hunk :: "hunk \<Rightarrow> affected_paths \<Rightarrow> affected_paths" where
  "note_hunk h a = (case h of
     AddFile path contents \<Rightarrow> a\<lparr>added := added a @ [hunk_path h]\<rparr>
   | DeleteFile path \<Rightarrow> a\<lparr>deleted := deleted a @ [hunk_path h]\<rparr>
   | UpdateFile path mv chunks \<Rightarrow> a\<lparr>modified := modified a @ [hunk_path h]\<rparr>)"

lemma apply_hunk_affected:
  assumes "apply_hunk po fs options cwd h st = Some (st', Ok u)"
  shows "affected st' = note_hunk h (affected st)"
  using assms
  by (auto simp: apply_hunk_def note_hunk_def add_file_hunk_def delete_file_hunk_def update_file_hunk_def
      move_file_hunk_def rewrite_file_hunk_def Let_def
      split: result.splits hunk.splits prod.splits option.splits)

lemma apply_hunks_loop_affected:
  "apply_hunks_loop po fs options cwd hs st = Some (st', Ok u) \<Longrightarrow> affected st' = fold note_hunk hs (affected st)"
proof (induction hs arbitrary: st)
  case (Cons h hs)
  then obtain st1 v where "apply_hunk po fs options cwd h st = Some (st1, Ok v)"
    "apply_hunks_loop po fs options cwd hs st1 = Some (st', Ok u)"
    by (auto split: option.splits result.splits)
  with Cons(1)[of st1] apply_hunk_affected[of po fs options cwd h st st1 v] show ?case by simp
qed simp

lemma fold_note_hunk:
  "fold note_hunk hs a =
     \<lparr>added = added a @ map hunk_path (filter is_AddFile hs),
      modified = modified a @ map hunk_path (filter is_UpdateFile hs),
      deleted = deleted a @ map hunk_path (filter is_DeleteFile hs)\<rparr>"
  by (induction hs arbitrary: a) (auto simp: note_hunk_def split: hunk.splits)

section \<open>An in-memory file system\<close>

text \<open>A map from paths to texts satisfies the laws; it serves as the concrete file system of the examples.\<close>

definition not_found :: io_error where
  "not_found = \<lparr>io_kind = NotFound, io_message = lit ''No such file''\<rparr>"

definition mem_fs :: "(rstr, rstr files) executor_file_system" where
  "mem_fs = \<lparr>
     read_file_text = (\<lambda>p follow w. case w p of Some c \<Rightarrow> Ok c | None \<Rightarrow> Err not_found),
     get_metadata = (\<lambda>p follow w. case w p of
        Some c \<Rightarrow> Ok \<lparr>is_directory = False, is_file = True, is_symlink = False\<rparr> | None \<Rightarrow> Err not_found),
     write_file = (\<lambda>p c follow w. (w(p \<mapsto> c), Ok ())),
     create_directory = (\<lambda>p follow w. (w, Ok ())),
     remove_file = (\<lambda>p follow w. if w p = None then (w, Err not_found) else (w(p := None), Ok ()))\<rparr>"

definition mem_paths :: "rstr path_ops" where
  "mem_paths = \<lparr>path_join = (\<lambda>d s. Ok (d @ 47 # s)), path_parent = (\<lambda>p. None), path_native = (\<lambda>p. p)\<rparr>"

lemma mem_plain: "plain mem_fs follow w p"
  by (simp add: plain_def note_existing_path_delta_support_def mem_fs_def not_found_def split: option.splits)

lemma text_fs_mem: "text_fs mem_paths mem_fs id follow"
  unfolding text_fs_def reads_files_def writes_files_def creates_directories_def removes_files_def
  by (auto simp: mem_plain) (auto simp: mem_fs_def not_found_def split: option.splits if_splits)

text \<open>A stream that keeps everything.\<close>

definition mem_out :: "rstr writer" where
  "mem_out s out = (out @ s, Ok ())"

section \<open>The claims\<close>

text \<open>The delta an application reports, on success and on failure.\<close>

fun result_delta :: "('p applied_patch_delta, 'p apply_patch_failure) result \<Rightarrow> 'p applied_patch_delta" where
  "result_delta (Ok d) = d"
| "result_delta (Err f) = failure_delta f"

lemma apply_hunks_describes:
  assumes "text_fs po fs files (follow_symlinks options)"
    and "apply_hunks_to_files po fs options cwd hs w empty_delta = Some (w', d, r)" and "exact d"
  shows "describes (delta_changes d) (files w) (files w')"
proof (cases "hs = []")
  case True
  with assms show ?thesis by (auto simp: apply_hunks_to_files_def empty_delta_def)
next
  case False
  with assms(2) obtain st r' where
    "apply_hunks_loop po fs options cwd hs \<lparr>world = w, delta = empty_delta, affected = no_paths\<rparr> = Some (st, r')"
    "w' = world st" "d = delta st"
    by (auto simp: apply_hunks_to_files_def split: option.splits result.splits)
  with apply_hunks_loop_exact[OF assms(1) this(1)] assms(3) show ?thesis
    by (simp add: step_exact_def empty_delta_def)
qed

lemma applied_delta_describes:
  assumes "text_fs po fs files (follow_symlinks options)"
    and "apply_patch_with_options wr po fs patch_text options cwd rs = Some (rs', res)"
    and "exact (result_delta res)"
  shows "describes (delta_changes (result_delta res)) (files (run_world rs)) (files (run_world rs'))"
proof (cases "parse_patch patch_text")
  case (Err e)
  with assms(2) show ?thesis
    by (auto simp: apply_patch_with_options_def empty_delta_def split: prod.splits result.splits)
next
  case (Ok args)
  obtain w d r where run: "apply_hunks_to_files po fs options cwd (hunks args) (run_world rs) empty_delta = Some (w, d, r)"
    and "run_world rs' = w" "result_delta res = d"
    using assms(2) Ok
    by (auto simp: apply_patch_with_options_def apply_hunks_with_options_def
        split: option.splits result.splits prod.splits)
  with apply_hunks_describes[OF assms(1) run] assms(3) show ?thesis by simp
qed

text \<open>
  C5: Exact deltas. When applying a patch reports an exact delta, with success or with a failure
  half way, the recorded changes are precisely what happened to the text files: each change found
  the contents it records, replaying them in order on the files as they were gives the files as they
  are, and undoing them in reverse order restores the files. This rests on the laws of \<open>text_fs\<close> only.
\<close>

theorem applied_delta_exact:
  assumes "text_fs po fs files (follow_symlinks options)"
    and "apply_patch_with_options wr po fs patch_text options cwd rs = Some (rs', res)"
    and "exact (result_delta res)"
  shows "describes (delta_changes (result_delta res)) (files (run_world rs)) (files (run_world rs')) \<and>
    foldr undo_change (delta_changes (result_delta res)) (files (run_world rs')) = files (run_world rs)"
  using applied_delta_describes[OF assms] describes_undo by blast

definition add_patch :: patch_syntax where
  "add_patch = \<lparr>ps_environment_id = None, ps_hunks = [AddHunk (lit ''a'') [lit ''hi'']]\<rparr>"

definition empty_run :: "(rstr, rstr files) run_state" where
  "empty_run = \<lparr>run_stdout = [], run_stderr = [], run_world = Map.empty\<rparr>"

lemma parse_printed:
  assumes "patch_ok ps"
  shows "parse_patch (join [LF] (print_patch ps)) = Ok (denote_patch ps)"
proof -
  have "trim (join [LF] (print_patch ps)) = join [LF] (print_patch ps)"
    using printed_ends[of ps] trim_surrounded[of "[]" "[]" "join [LF] (print_patch ps)"]
    by (simp add: is_whitespace_def)
  then show ?thesis
    using parse_printed_lines[OF assms, of _ Lenient] assms
    by (simp add: parse_patch_def patch_lines_of_def lines_printed check_patch_boundaries_lenient_def strict_printed)
qed

lemma add_patch_run:
  "\<exists>rs' d. apply_patch mem_out mem_paths mem_fs (join [LF] (print_patch add_patch)) (lit ''/d'') empty_run = Some (rs', Ok d) \<and>
     exact d \<and> delta_changes d = [\<lparr>change_path = lit ''/d/a'', file_change = DeltaAdd (lit ''hi'' @ [LF]) None\<rparr>]"
proof -
  have ok: "patch_ok add_patch"
    by (simp add: add_patch_def patch_ok_def name_ok_def line_ok_def str_eval)
  show ?thesis
    unfolding apply_patch_def apply_patch_with_options_def parse_printed[OF ok]
    by (simp add: denote_patch_def add_patch_def apply_hunks_with_options_def apply_hunks_to_files_def
        apply_hunk_def resolve_path_def mem_paths_def mem_fs_def add_file_hunk_def empty_delta_def
        read_optional_file_text_for_delta_def note_existing_path_delta_support_def not_found_def empty_run_def
        write_file_with_missing_parent_retry_def push_change_def print_summary_def summary_lines_def no_paths_def
        mem_out_def)
      (simp add: lit_def)
qed

lemma applied_delta_exact_witness:
  "\<exists>rs' res. apply_patch_with_options mem_out mem_paths mem_fs (join [LF] (print_patch add_patch))
       default_options (lit ''/d'') empty_run = Some (rs', res) \<and>
     delta_changes (result_delta res) \<noteq> [] \<and>
     describes (delta_changes (result_delta res)) Map.empty (run_world rs') \<and>
     foldr undo_change (delta_changes (result_delta res)) (run_world rs') = Map.empty"
proof -
  obtain rs' d where run: "apply_patch_with_options mem_out mem_paths mem_fs (join [LF] (print_patch add_patch))
       default_options (lit ''/d'') empty_run = Some (rs', Ok d)" and d: "exact d" "delta_changes d \<noteq> []"
    using add_patch_run unfolding apply_patch_def by force
  have "describes (delta_changes (result_delta (Ok d))) (id (run_world empty_run)) (id (run_world rs')) \<and>
    foldr undo_change (delta_changes (result_delta (Ok d))) (id (run_world rs')) = id (run_world empty_run)"
    by (rule applied_delta_exact[OF text_fs_mem run]) (simp add: d(1))
  with run d(2) show ?thesis
    by (intro exI[of _ rs'] exI[of _ "Ok d"]) (simp add: empty_run_def)
qed

text \<open>
  C31: No text makes the program panic. Whatever text is passed as a patch, in whatever mode, on
  whatever file system and streams, applying it returns: with a delta, or with a failure that holds
  an error and a delta. (Hunks come from the parser, and the parser's hunks are complete.)
\<close>

theorem apply_patch_no_panic:
  "apply_patch_with_options wr po fs patch_text options cwd rs \<noteq> None"
proof (cases "parse_patch patch_text")
  case (Ok args)
  then have "list_all hunk_complete (hunks args)"
    using parse_patch_text_hunks[of patch_text Lenient args] by (simp add: parse_patch_def)
  then obtain st r where "apply_hunks_loop po fs options cwd (hunks args)
      \<lparr>world = run_world rs, delta = empty_delta, affected = no_paths\<rparr> = Some (st, r)"
    using apply_hunks_loop_total by (metis not_None_eq prod.exhaust)
  with Ok show ?thesis
    by (auto simp: apply_patch_with_options_def apply_hunks_with_options_def apply_hunks_to_files_def
        split: option.splits result.splits prod.splits)
qed (auto simp: apply_patch_with_options_def split: result.splits prod.splits)

text \<open>
  The summary. When all hunks were applied, the affected paths are the paths of the add,
  update and delete hunks, each list in patch order, with the move destination for a renamed file.
\<close>

theorem applied_summary:
  assumes "apply_hunks_to_files po fs options cwd hs w d = Some (w', d', Ok a)"
  shows "added a = map hunk_path (filter is_AddFile hs) \<and>
    modified a = map hunk_path (filter is_UpdateFile hs) \<and>
    deleted a = map hunk_path (filter is_DeleteFile hs) \<and>
    length (summary_lines a) = Suc (length hs)"
proof -
  obtain st where "apply_hunks_loop po fs options cwd hs \<lparr>world = w, delta = d, affected = no_paths\<rparr> = Some (st, Ok ())"
    "a = affected st"
    using assms by (auto simp: apply_hunks_to_files_def split: if_splits option.splits result.splits)
  then have a: "a = fold note_hunk hs no_paths"
    using apply_hunks_loop_affected by fastforce
  have "length (filter is_AddFile hs) + length (filter is_UpdateFile hs) + length (filter is_DeleteFile hs) = length hs"
  proof (induction hs)
    case (Cons h hs)
    then show ?case by (cases h) auto
  qed simp
  then show ?thesis
    unfolding a fold_note_hunk by (simp add: no_paths_def summary_lines_def)
qed

lemma applied_summary_witness:
  "\<exists>w' d a. apply_hunks_to_files mem_paths mem_fs default_options (lit ''/d'') [AddFile (lit ''f'') (lit ''x''), DeleteFile (lit ''f'')]
     Map.empty empty_delta = Some (w', d, Ok a) \<and> added a = [lit ''f''] \<and> deleted a = [lit ''f'']"
proof -
  have "\<exists>w' d a. apply_hunks_to_files mem_paths mem_fs default_options (lit ''/d'') [AddFile (lit ''f'') (lit ''x''), DeleteFile (lit ''f'')]
     Map.empty empty_delta = Some (w', d, Ok a)"
    by (simp add: apply_hunks_to_files_def apply_hunk_def resolve_path_def mem_paths_def mem_fs_def add_file_hunk_def
        delete_file_hunk_def ensure_not_directory_def read_optional_file_text_for_delta_def
        note_existing_path_delta_support_def not_found_def write_file_with_missing_parent_retry_def)
  then show ?thesis using applied_summary by fastforce
qed

text \<open>
  C34: Moving a file onto itself removes it. The destination is written first and the original is
  removed afterwards, so an update whose move destination resolves to its own path ends, when it
  succeeds, with the file gone, although the delta and the summary record a modification.
\<close>

theorem self_move_removes_file:
  assumes fs: "text_fs po fs files (follow_symlinks options)"
    and pl: "plain fs (follow_symlinks options) (world st) path"
    and "path_join po cwd p = Ok path" and "path_join po cwd m = Ok path"
    and run: "apply_hunk po fs options cwd (UpdateFile p (Some m) chunks) st = Some (st', Ok u)"
  shows "files (world st') path = None \<and> modified (affected st') = modified (affected st) @ [m]"
proof -
  let ?follow = "follow_symlinks options"
  let ?st = "st\<lparr>delta := (delta st)\<lparr>exact :=
    note_existing_path_delta_support fs path ?follow (world st) (exact (delta st))\<rparr>\<rparr>"
  obtain up where up: "move_file_hunk po fs ?follow path path m up ?st = (st', Ok u)"
    and read: "read_file_text fs path ?follow (world st) = Ok (original_contents up)"
    using run assms(3,4)
    by (auto simp: apply_hunk_def resolve_path_def update_file_hunk_def Let_def dest!: derive_original
        split: option.splits result.splits)
  obtain w v v' where w: "write_file_with_missing_parent_retry po fs path (new_contents up) ?follow (world st) = (w, Ok v)"
    and rm: "remove_file fs path ?follow w = (world st', Ok v')"
    using up by (auto simp: move_file_hunk_def Let_def split: prod.splits result.splits)
  have "plain fs ?follow w path"
    using write_retry_effect[OF fs pl w] text_fs_read[OF fs read] pl by simp
  from text_fs_remove(1)[OF fs this rm] apply_hunk_affected[OF run] show ?thesis
    by (simp add: note_hunk_def)
qed

lemma mem_fs_move:
  "world st p = Some c \<Longrightarrow> \<exists>st'. move_file_hunk mem_paths mem_fs follow p p aff up st = (st', Ok ())"
  unfolding move_file_hunk_def
  by (simp add: mem_fs_def write_file_with_missing_parent_retry_def ensure_not_directory_def Let_def split: prod.split)

lemma self_move_removes_file_witness:
  "\<exists>st' u. apply_hunk mem_paths mem_fs default_options (lit ''/d'')
      (UpdateFile (lit ''f'') (Some (lit ''f'')) [push_context_line (lit ''a'') default_chunk])
      \<lparr>world = [lit ''/d/f'' \<mapsto> lit ''a''], delta = empty_delta, affected = no_paths\<rparr> = Some (st', Ok u) \<and>
    world st' (lit ''/d/f'') = None"
proof -
  let ?st = "\<lparr>world = [lit ''/d/f'' \<mapsto> lit ''a''], delta = empty_delta, affected = no_paths\<rparr>"
  have join: "path_join mem_paths (lit ''/d'') (lit ''f'') = Ok (lit ''/d/f'')"
    by (simp add: mem_paths_def lit_def)
  have derive: "derive_new_contents_from_chunks (Ok (lit ''a'')) (lit ''/d/f'')
      [push_context_line (lit ''a'') default_chunk] NormalizeToLf =
    Some (Ok \<lparr>original_contents = [97], new_contents = [97, 10]\<rparr>)"
    by code_simp
  have "\<exists>st' u. apply_hunk mem_paths mem_fs default_options (lit ''/d'')
      (UpdateFile (lit ''f'') (Some (lit ''f'')) [push_context_line (lit ''a'') default_chunk]) ?st = Some (st', Ok u)"
    using join derive mem_fs_move
    by (simp add: apply_hunk_def resolve_path_def update_file_hunk_def default_options_def Let_def)
      (simp add: mem_fs_def mem_paths_def)
  then obtain st' u where run: "apply_hunk mem_paths mem_fs default_options (lit ''/d'')
      (UpdateFile (lit ''f'') (Some (lit ''f'')) [push_context_line (lit ''a'') default_chunk]) ?st = Some (st', Ok u)"
    by blast
  have "id (world st') (lit ''/d/f'') = None"
    using self_move_removes_file[OF text_fs_mem mem_plain join join run] by (rule conjunct1)
  with run show ?thesis by auto
qed

end
