(* ===== verification/Turn_Diff_Tracker.thy ===== *)
theory Turn_Diff_Tracker
  imports Apply_Patch "HOL-Library.AList" "HOL-Library.List_Lexorder"
begin

text \<open>
  \<open>core/src/turn_diff_tracker.rs\<close>: the net text diff of a turn, accumulated from the deltas of the
  patches applied in it, without reading the files again.

  A \<open>HashMap\<close> is an association list with distinct keys in its iteration order, which the program
  leaves open. Paths, the line diff (crate \<open>similar\<close>) and the blob hash (crate \<open>sha1\<close>) are functions of
  a record. Revision numbers count tracked contents and are natural numbers.

  The lemmas give: while the tracker is valid its two maps hold the contents of every touched file
  before the turn and now; rendering with the cache gives the same text as rendering afresh; files
  that are all back to their old contents give no diff.
\<close>

section \<open>State\<close>

record tracked_content =
  tc_content :: rstr
  revision :: nat

datatype 'p tracked_path = TrackedPath (tp_environment_id: rstr) (tp_path: 'p)

record 'p diff_cache_key =
  left_path :: "'p tracked_path"
  left_revision :: "nat option"
  right_path :: "'p tracked_path"
  right_revision :: "nat option"

record 'p turn_diff_tracker =
  valid :: bool
  display_roots_by_environment :: "(rstr \<times> 'p) list"
  baseline_by_path :: "('p tracked_path \<times> tracked_content) list"
  current_by_path :: "('p tracked_path \<times> tracked_content) list"
  origin_by_current_path :: "('p tracked_path \<times> 'p tracked_path) list"
  next_revision :: nat
  rendered_diffs :: "('p diff_cache_key \<times> rstr option) list"
  unified_diff :: "rstr option"

record 'p diff_context =
  line_diff :: "rstr \<Rightarrow> rstr \<Rightarrow> rstr \<Rightarrow> rstr \<Rightarrow> rstr"
  blob_oid :: "rstr \<Rightarrow> rstr"
  relative_path_from :: "'p \<Rightarrow> 'p \<Rightarrow> rstr option"
  native_path_string :: "'p \<Rightarrow> rstr"

definition ZERO_OID :: rstr where "ZERO_OID = replicate 40 48"
definition DEV_NULL :: rstr where "DEV_NULL = lit ''/dev/null''"
definition REGULAR_FILE_MODE :: rstr where "REGULAR_FILE_MODE = lit ''100644''"

definition default_tracker :: "'p turn_diff_tracker" where
  "default_tracker = \<lparr>valid = True, display_roots_by_environment = [], baseline_by_path = [],
     current_by_path = [], origin_by_current_path = [], next_revision = 0, rendered_diffs = [],
     unified_diff = None\<rparr>"

definition with_environment_display_roots :: "(rstr \<times> 'p) list \<Rightarrow> 'p turn_diff_tracker" where
  "with_environment_display_roots roots =
     default_tracker\<lparr>display_roots_by_environment := fold (\<lambda>(k, v). AList.update k v) roots []\<rparr>"

section \<open>Applying changes\<close>

text \<open>\<open>contains_key\<close> on both maps: the path has been touched.\<close>

definition has_key :: "'k \<Rightarrow> ('k \<times> 'v) list \<Rightarrow> bool" where
  "has_key k m \<longleftrightarrow> map_of m k \<noteq> None"

definition untracked :: "'p tracked_path \<Rightarrow> 'p turn_diff_tracker \<Rightarrow> bool" where
  "untracked path t \<longleftrightarrow> \<not> has_key path (current_by_path t) \<and> \<not> has_key path (baseline_by_path t)"

definition make_content :: "rstr \<Rightarrow> 'p turn_diff_tracker \<Rightarrow> tracked_content \<times> 'p turn_diff_tracker" where
  "make_content content t =
     (\<lparr>tc_content = content, revision = next_revision t\<rparr>, t\<lparr>next_revision := next_revision t + 1\<rparr>)"

definition insert_baseline :: "'p tracked_path \<Rightarrow> rstr \<Rightarrow> 'p turn_diff_tracker \<Rightarrow> 'p turn_diff_tracker" where
  "insert_baseline path content t =
     (let (c, t') = make_content content t in t'\<lparr>baseline_by_path := AList.update path c (baseline_by_path t')\<rparr>)"

definition insert_current :: "'p tracked_path \<Rightarrow> rstr \<Rightarrow> 'p turn_diff_tracker \<Rightarrow> 'p turn_diff_tracker" where
  "insert_current path content t =
     (let (c, t') = make_content content t in t'\<lparr>current_by_path := AList.update path c (current_by_path t')\<rparr>)"

definition remove_origin :: "'p tracked_path \<Rightarrow> 'p turn_diff_tracker \<Rightarrow> 'p turn_diff_tracker" where
  "remove_origin path t = t\<lparr>origin_by_current_path := AList.delete path (origin_by_current_path t)\<rparr>"

definition remove_current :: "'p tracked_path \<Rightarrow> 'p turn_diff_tracker \<Rightarrow> 'p turn_diff_tracker" where
  "remove_current path t = t\<lparr>current_by_path := AList.delete path (current_by_path t)\<rparr>"

definition apply_add ::
  "'p tracked_path \<Rightarrow> rstr \<Rightarrow> rstr option \<Rightarrow> 'p turn_diff_tracker \<Rightarrow> 'p turn_diff_tracker" where
  "apply_add path content overwritten t =
     (let t1 = remove_origin path t;
          t2 = (case overwritten of
                  Some old \<Rightarrow> (if untracked path t1 then insert_baseline path old t1 else t1)
                | None \<Rightarrow> t1)
      in insert_current path content t2)"

definition apply_delete :: "'p tracked_path \<Rightarrow> rstr \<Rightarrow> 'p turn_diff_tracker \<Rightarrow> 'p turn_diff_tracker" where
  "apply_delete path content t =
     (let t1 = remove_current path t;
          t2 = (if \<not> has_key path (current_by_path t) \<and> \<not> has_key path (baseline_by_path t1)
                then insert_baseline path content t1 else t1)
      in remove_origin path t2)"

definition apply_update ::
  "'p tracked_path \<Rightarrow> 'p tracked_path option \<Rightarrow> rstr \<Rightarrow> rstr option \<Rightarrow> rstr \<Rightarrow>
   'p turn_diff_tracker \<Rightarrow> 'p turn_diff_tracker" where
  "apply_update source_path move_path old overwritten new t =
     (let t1 = (if untracked source_path t then insert_baseline source_path old t else t)
      in case move_path of
           None \<Rightarrow> insert_current source_path new t1
         | Some dest \<Rightarrow>
             (let t2 = (case overwritten of
                          Some ov \<Rightarrow> (if untracked dest t1 then insert_baseline dest ov t1 else t1)
                        | None \<Rightarrow> t1);
                  origin = (case map_of (origin_by_current_path t2) source_path of
                              Some q \<Rightarrow> q | None \<Rightarrow> source_path);
                  t3 = remove_current source_path (remove_origin source_path t2);
                  t4 = remove_origin dest (insert_current dest new t3)
              in if dest \<noteq> origin
                 then t4\<lparr>origin_by_current_path := AList.update dest origin (origin_by_current_path t4)\<rparr>
                 else t4))"

definition apply_change ::
  "rstr \<Rightarrow> 'p applied_patch_change \<Rightarrow> 'p turn_diff_tracker \<Rightarrow> 'p turn_diff_tracker" where
  "apply_change env c t =
     (case file_change c of
        DeltaAdd content overwritten \<Rightarrow> apply_add (TrackedPath env (change_path c)) content overwritten t
      | DeltaDelete content \<Rightarrow> apply_delete (TrackedPath env (change_path c)) content t
      | DeltaUpdate move_path old overwritten new \<Rightarrow>
          apply_update (TrackedPath env (change_path c)) (map_option (TrackedPath env) move_path) old overwritten new t)"

section \<open>Rendering\<close>

definition display_path :: "'p diff_context \<Rightarrow> 'p turn_diff_tracker \<Rightarrow> 'p tracked_path \<Rightarrow> rstr" where
  "display_path ctx t path =
     (let display = (case map_of (display_roots_by_environment t) (tp_environment_id path) of
                       None \<Rightarrow> native_path_string ctx (tp_path path)
                     | Some root \<Rightarrow>
                         (case relative_path_from ctx (tp_path path) root of
                            None \<Rightarrow> native_path_string ctx (tp_path path)
                          | Some rel \<Rightarrow> rel))
      in if length (display_roots_by_environment t) > 1 \<and> tp_environment_id path \<noteq> []
         then tp_environment_id path @ 47 # display else display)"

definition to_slashes :: "rstr \<Rightarrow> rstr" where
  "to_slashes s = map (\<lambda>c. if c = 92 then 47 else c) s"

definition render_diff ::
  "'p diff_context \<Rightarrow> 'p turn_diff_tracker \<Rightarrow> 'p tracked_path \<Rightarrow> rstr option \<Rightarrow> 'p tracked_path \<Rightarrow> rstr option \<Rightarrow> rstr option" where
  "render_diff ctx t lpath lcontent rpath rcontent =
     (if lcontent = rcontent then None
      else
        let left_display = to_slashes (display_path ctx t lpath);
            right_display = to_slashes (display_path ctx t rpath);
            oid = (\<lambda>c. case c of None \<Rightarrow> ZERO_OID | Some s \<Rightarrow> blob_oid ctx s);
            head = lit ''diff --git a/'' @ left_display @ lit '' b/'' @ right_display @ [LF];
            mode = (case (lcontent, rcontent) of
                      (None, Some _) \<Rightarrow> lit ''new file mode '' @ REGULAR_FILE_MODE @ [LF]
                    | (Some _, None) \<Rightarrow> lit ''deleted file mode '' @ REGULAR_FILE_MODE @ [LF]
                    | _ \<Rightarrow> []);
            old_header = (case lcontent of Some _ \<Rightarrow> lit ''a/'' @ left_display | None \<Rightarrow> DEV_NULL);
            new_header = (case rcontent of Some _ \<Rightarrow> lit ''b/'' @ right_display | None \<Rightarrow> DEV_NULL)
        in Some (head @ mode @ lit ''index '' @ oid lcontent @ lit ''..'' @ oid rcontent @ [LF] @
             line_diff ctx (case lcontent of Some s \<Rightarrow> s | None \<Rightarrow> []) (case rcontent of Some s \<Rightarrow> s | None \<Rightarrow> [])
               old_header new_header))"

definition is_rename :: "'p turn_diff_tracker \<Rightarrow> 'p tracked_path \<Rightarrow> 'p tracked_path \<Rightarrow> bool" where
  "is_rename t dest origin \<longleftrightarrow>
     \<not> (dest = origin \<or> has_key origin (current_by_path t) \<or> \<not> has_key dest (current_by_path t) \<or>
        \<not> has_key origin (baseline_by_path t) \<or> has_key dest (baseline_by_path t))"

definition rename_pairs :: "'p turn_diff_tracker \<Rightarrow> ('p tracked_path \<times> 'p tracked_path) list" where
  "rename_pairs t =
     fold (\<lambda>(dest, origin) m. if is_rename t dest origin then AList.update origin dest m else m)
       (origin_by_current_path t) []"

definition push_diff :: "rstr option \<Rightarrow> rstr \<Rightarrow> rstr" where
  "push_diff rendered aggregated =
     (case rendered of
        None \<Rightarrow> aggregated
      | Some diff \<Rightarrow>
          (if last_opt (aggregated @ diff) = Some LF then aggregated @ diff else aggregated @ diff @ [LF]))"

text \<open>\<open>Vec::dedup\<close>: drop an element equal to the one before it.\<close>

fun dedup :: "'a list \<Rightarrow> 'a list" where
  "dedup [] = []"
| "dedup [x] = [x]"
| "dedup (x # y # ys) = (if x = y then dedup (y # ys) else x # dedup (y # ys))"

definition tracked_paths :: "'p diff_context \<Rightarrow> 'p turn_diff_tracker \<Rightarrow> 'p tracked_path list" where
  "tracked_paths ctx t =
     dedup (sort_key (display_path ctx t) (map fst (baseline_by_path t) @ map fst (current_by_path t)))"

definition cache_key ::
  "'p turn_diff_tracker \<Rightarrow> 'p tracked_path \<Rightarrow> 'p tracked_path \<Rightarrow> 'p diff_cache_key" where
  "cache_key t lp rp = \<lparr>left_path = lp, left_revision = map_option revision (map_of (baseline_by_path t) lp),
     right_path = rp, right_revision = map_option revision (map_of (current_by_path t) rp)\<rparr>"

definition render_pair :: "'p diff_context \<Rightarrow> 'p turn_diff_tracker \<Rightarrow> 'p tracked_path \<Rightarrow> 'p tracked_path \<Rightarrow> rstr option" where
  "render_pair ctx t lp rp =
     render_diff ctx t lp (map_option tc_content (map_of (baseline_by_path t) lp))
       rp (map_option tc_content (map_of (current_by_path t) rp))"

text \<open>The loop of \<open>refresh_unified_diff\<close>: handled paths, previous cache, new cache, text so far.\<close>

fun refresh_loop ::
  "'p diff_context \<Rightarrow> 'p turn_diff_tracker \<Rightarrow> ('p tracked_path \<times> 'p tracked_path) list \<Rightarrow> 'p tracked_path list \<Rightarrow>
   'p tracked_path set \<Rightarrow> ('p diff_cache_key \<times> rstr option) list \<Rightarrow> ('p diff_cache_key \<times> rstr option) list \<Rightarrow> rstr \<Rightarrow>
   ('p diff_cache_key \<times> rstr option) list \<times> rstr" where
  "refresh_loop ctx t pairs [] handled prev rendered agg = (rendered, agg)"
| "refresh_loop ctx t pairs (path # paths) handled prev rendered agg =
     (if path \<in> handled then refresh_loop ctx t pairs paths handled prev rendered agg
      else if path \<in> set (map snd pairs) then refresh_loop ctx t pairs paths (insert path handled) prev rendered agg
      else
        let (rp, handled') = (case map_of pairs path of
                                Some dest \<Rightarrow> (dest, insert dest (insert path handled))
                              | None \<Rightarrow> (path, insert path handled));
            key = cache_key t path rp;
            diff = (case map_of prev key of Some cached \<Rightarrow> cached | None \<Rightarrow> render_pair ctx t path rp)
        in refresh_loop ctx t pairs paths handled' (AList.delete key prev)
             (AList.update key diff rendered) (push_diff diff agg))"

definition refresh_unified_diff :: "'p diff_context \<Rightarrow> 'p turn_diff_tracker \<Rightarrow> 'p turn_diff_tracker" where
  "refresh_unified_diff ctx t =
     (let (rendered, aggregated) =
            refresh_loop ctx t (rename_pairs t) (tracked_paths ctx t) {} (rendered_diffs t) [] []
      in t\<lparr>rendered_diffs := rendered, unified_diff := (if aggregated = [] then None else Some aggregated)\<rparr>)"

definition invalidate :: "'p turn_diff_tracker \<Rightarrow> 'p turn_diff_tracker" where
  "invalidate t = t\<lparr>valid := False, rendered_diffs := [], unified_diff := None\<rparr>"

definition track_delta ::
  "'p diff_context \<Rightarrow> rstr \<Rightarrow> 'p applied_patch_delta \<Rightarrow> 'p turn_diff_tracker \<Rightarrow> 'p turn_diff_tracker" where
  "track_delta ctx env d t =
     (if \<not> valid t then t
      else if \<not> exact d then invalidate t
      else refresh_unified_diff ctx (fold (apply_change env) (delta_changes d) t))"

section \<open>Specification\<close>

text \<open>The contents the two maps hold.\<close>

definition base_of :: "'p turn_diff_tracker \<Rightarrow> 'p tracked_path \<Rightarrow> rstr option" where
  "base_of t p = map_option tc_content (map_of (baseline_by_path t) p)"

definition cur_of :: "'p turn_diff_tracker \<Rightarrow> 'p tracked_path \<Rightarrow> rstr option" where
  "cur_of t p = map_option tc_content (map_of (current_by_path t) p)"

text \<open>
  The tracker is right about a turn that found the files \<open>F0\<close> (of all environments) and has made
  them \<open>F\<close>: a touched path is recorded with its contents then and now, any other path is unchanged.
\<close>

definition tracks ::
  "('p tracked_path \<Rightarrow> rstr option) \<Rightarrow> ('p tracked_path \<Rightarrow> rstr option) \<Rightarrow> 'p turn_diff_tracker \<Rightarrow> bool" where
  "tracks F0 F t \<longleftrightarrow>
     (\<forall>p. if untracked p t then F p = F0 p else base_of t p = F0 p \<and> cur_of t p = F p)"

text \<open>A change, in an environment.\<close>

definition in_env :: "rstr \<Rightarrow> 'p applied_patch_change \<Rightarrow> 'p tracked_path applied_patch_change" where
  "in_env env c = \<lparr>change_path = TrackedPath env (change_path c),
     file_change = map_applied_patch_file_change (TrackedPath env) (file_change c)\<rparr>"

fun self_move :: "'p applied_patch_change \<Rightarrow> bool" where
  "self_move c \<longleftrightarrow> (case file_change c of DeltaUpdate (Some dest) _ _ _ \<Rightarrow> dest = change_path c | _ \<Rightarrow> False)"

text \<open>Rendering without a cache.\<close>

fun fresh_loop ::
  "'p diff_context \<Rightarrow> 'p turn_diff_tracker \<Rightarrow> ('p tracked_path \<times> 'p tracked_path) list \<Rightarrow> 'p tracked_path list \<Rightarrow>
   'p tracked_path set \<Rightarrow> rstr \<Rightarrow> rstr" where
  "fresh_loop ctx t pairs [] handled agg = agg"
| "fresh_loop ctx t pairs (path # paths) handled agg =
     (if path \<in> handled then fresh_loop ctx t pairs paths handled agg
      else if path \<in> set (map snd pairs) then fresh_loop ctx t pairs paths (insert path handled) agg
      else case map_of pairs path of
        Some dest \<Rightarrow> fresh_loop ctx t pairs paths (insert dest (insert path handled)) (push_diff (render_pair ctx t path dest) agg)
      | None \<Rightarrow> fresh_loop ctx t pairs paths (insert path handled) (push_diff (render_pair ctx t path path) agg))"

definition fresh_diff :: "'p diff_context \<Rightarrow> 'p turn_diff_tracker \<Rightarrow> rstr option" where
  "fresh_diff ctx t =
     (let agg = fresh_loop ctx t (rename_pairs t) (tracked_paths ctx t) {} []
      in if agg = [] then None else Some agg)"

text \<open>
  The cache is right when there is a history \<open>h\<close> of contents by revision that the two maps and the
  cache agree with: every cached text is what rendering the contents of its key's revisions gives.
\<close>

definition content_ok :: "(nat \<Rightarrow> rstr) \<Rightarrow> nat \<Rightarrow> tracked_content \<Rightarrow> bool" where
  "content_ok h n c \<longleftrightarrow> revision c < n \<and> h (revision c) = tc_content c"

definition key_ok :: "nat \<Rightarrow> 'p diff_cache_key \<Rightarrow> bool" where
  "key_ok n k \<longleftrightarrow> (\<forall>r \<in> set_option (left_revision k) \<union> set_option (right_revision k). r < n)"

definition entry_ok ::
  "'p diff_context \<Rightarrow> 'p turn_diff_tracker \<Rightarrow> (nat \<Rightarrow> rstr) \<Rightarrow> 'p diff_cache_key \<Rightarrow> rstr option \<Rightarrow> bool" where
  "entry_ok ctx t h k d \<longleftrightarrow> key_ok (next_revision t) k \<and>
     d = render_diff ctx t (left_path k) (map_option h (left_revision k)) (right_path k) (map_option h (right_revision k))"

definition history_ok :: "'p diff_context \<Rightarrow> (nat \<Rightarrow> rstr) \<Rightarrow> 'p turn_diff_tracker \<Rightarrow> bool" where
  "history_ok ctx h t \<longleftrightarrow>
     (\<forall>p c. map_of (baseline_by_path t) p = Some c \<longrightarrow> content_ok h (next_revision t) c) \<and>
     (\<forall>p c. map_of (current_by_path t) p = Some c \<longrightarrow> content_ok h (next_revision t) c) \<and>
     (\<forall>k d. map_of (rendered_diffs t) k = Some d \<longrightarrow> entry_ok ctx t h k d)"

definition cache_ok :: "'p diff_context \<Rightarrow> 'p turn_diff_tracker \<Rightarrow> bool" where
  "cache_ok ctx t \<longleftrightarrow> (\<exists>h. history_ok ctx h t)"

section \<open>The maps hold the right contents\<close>

lemma untracked_iff: "untracked p t \<longleftrightarrow> cur_of t p = None \<and> base_of t p = None"
  by (simp add: untracked_def has_key_def cur_of_def base_of_def)

lemma map_effects [simp]:
  "base_of (insert_baseline p c t) = (base_of t)(p \<mapsto> c)" "cur_of (insert_baseline p c t) = cur_of t"
  "cur_of (insert_current p c t) = (cur_of t)(p \<mapsto> c)" "base_of (insert_current p c t) = base_of t"
  "base_of (remove_origin p t) = base_of t" "cur_of (remove_origin p t) = cur_of t"
  "cur_of (remove_current p t) = (cur_of t)(p := None)" "base_of (remove_current p t) = base_of t"
  "base_of (t\<lparr>origin_by_current_path := m\<rparr>) = base_of t" "cur_of (t\<lparr>origin_by_current_path := m\<rparr>) = cur_of t"
  by (auto simp: base_of_def cur_of_def insert_baseline_def insert_current_def remove_origin_def remove_current_def
      make_content_def update_conv' delete_conv' fun_eq_iff)

definition tracks_at :: "rstr option \<Rightarrow> rstr option \<Rightarrow> rstr option \<Rightarrow> rstr option \<Rightarrow> bool" where
  "tracks_at f0 f b c \<longleftrightarrow> (b = f0 \<and> c = f) \<or> (b = None \<and> c = None \<and> f = f0)"

lemma tracks_iff: "tracks F0 F t \<longleftrightarrow> (\<forall>p. tracks_at (F0 p) (F p) (base_of t p) (cur_of t p))"
proof -
  have "(if untracked p t then F p = F0 p else base_of t p = F0 p \<and> cur_of t p = F p) \<longleftrightarrow>
      tracks_at (F0 p) (F p) (base_of t p) (cur_of t p)" for p
    by (auto simp: tracks_at_def untracked_iff)
  then show ?thesis unfolding tracks_def by blast
qed

lemma tracksI: "(\<And>q. tracks_at (F0 q) (F q) (base_of t q) (cur_of t q)) \<Longrightarrow> tracks F0 F t"
  and tracksD: "tracks F0 F t \<Longrightarrow> tracks_at (F0 q) (F q) (base_of t q) (cur_of t q)"
  unfolding tracks_iff by blast+

lemma apply_add_tracks:
  assumes "tracks F0 F t" and "F p = overwritten"
  shows "tracks F0 (F(p \<mapsto> content)) (apply_add p content overwritten t)"
proof (rule tracksI)
  fix q
  show "tracks_at (F0 q) ((F(p \<mapsto> content)) q) (base_of (apply_add p content overwritten t) q)
      (cur_of (apply_add p content overwritten t) q)"
    using tracksD[OF assms(1), of q] tracksD[OF assms(1), of p] assms(2)
    by (cases "q = p"; cases overwritten) (auto simp: tracks_at_def apply_add_def untracked_iff Let_def)
qed

lemma has_key_current: "has_key p (current_by_path t) \<longleftrightarrow> cur_of t p \<noteq> None"
  and has_key_baseline: "has_key p (baseline_by_path t) \<longleftrightarrow> base_of t p \<noteq> None"
  by (simp_all add: has_key_def cur_of_def base_of_def)

lemma apply_delete_tracks:
  assumes "tracks F0 F t" and "F p = Some content"
  shows "tracks F0 (F(p := None)) (apply_delete p content t)"
proof (rule tracksI)
  fix q
  show "tracks_at (F0 q) ((F(p := None)) q) (base_of (apply_delete p content t) q) (cur_of (apply_delete p content t) q)"
    using tracksD[OF assms(1), of q] tracksD[OF assms(1), of p] assms(2)
    by (cases "q = p") (auto simp: tracks_at_def apply_delete_def has_key_current has_key_baseline Let_def)
qed

lemma apply_rewrite_tracks:
  assumes "tracks F0 F t" and "F p = Some old"
  shows "tracks F0 (F(p \<mapsto> new)) (apply_update p None old ov new t)"
proof (rule tracksI)
  fix q
  show "tracks_at (F0 q) ((F(p \<mapsto> new)) q) (base_of (apply_update p None old ov new t) q)
      (cur_of (apply_update p None old ov new t) q)"
    using tracksD[OF assms(1), of q] tracksD[OF assms(1), of p] assms(2)
    by (cases "q = p") (auto simp: tracks_at_def apply_update_def untracked_iff Let_def)
qed

lemma base_of_move:
  "dest \<noteq> p \<Longrightarrow> base_of (apply_update p (Some dest) old ov new t) =
     (let b = (if untracked p t then (base_of t)(p \<mapsto> old) else base_of t)
      in if untracked dest t \<and> ov \<noteq> None then b(dest := ov) else b)"
  by (cases ov) (auto simp: apply_update_def untracked_iff Let_def)

lemma cur_of_move:
  "cur_of (apply_update p (Some dest) old ov new t) = (cur_of t)(p := None, dest \<mapsto> new)"
  by (cases ov) (auto simp: apply_update_def Let_def)

lemma apply_move_tracks:
  assumes "tracks F0 F t" and "F p = Some old" and "F dest = ov" and "dest \<noteq> p"
  shows "tracks F0 ((F(dest \<mapsto> new))(p := None)) (apply_update p (Some dest) old ov new t)"
proof (rule tracksI)
  fix q
  show "tracks_at (F0 q) (((F(dest \<mapsto> new))(p := None)) q) (base_of (apply_update p (Some dest) old ov new t) q)
      (cur_of (apply_update p (Some dest) old ov new t) q)"
    unfolding base_of_move[OF assms(4)] cur_of_move
    using tracksD[OF assms(1), of q] tracksD[OF assms(1), of p] tracksD[OF assms(1), of dest] assms(2-4)
    by (cases "q = p"; cases "q = dest") (auto simp: tracks_at_def untracked_iff Let_def)
qed

lemma apply_change_tracks:
  assumes "tracks F0 F t" and "change_sound (in_env env c) F" and "\<not> self_move c"
  shows "tracks F0 (replay_change (in_env env c) F) (apply_change env c t)"
  using assms
  by (auto simp: in_env_def apply_change_def apply_add_tracks apply_delete_tracks apply_rewrite_tracks
      apply_move_tracks
      split: applied_patch_file_change.splits option.splits)

lemma fold_apply_change_tracks:
  "tracks F0 F t \<Longrightarrow> describes (map (in_env env) cs) F G \<Longrightarrow> list_all (\<lambda>c. \<not> self_move c) cs \<Longrightarrow>
   tracks F0 G (fold (apply_change env) cs t)"
proof (induction cs arbitrary: F t)
  case (Cons c cs)
  then have "tracks F0 (replay_change (in_env env c) F) (apply_change env c t)"
    by (simp add: apply_change_tracks del: change_sound.simps replay_change.simps self_move.simps)
  with Cons show ?case
    by (simp del: change_sound.simps replay_change.simps self_move.simps)
qed simp

lemma refresh_maps [simp]:
  "base_of (refresh_unified_diff ctx t) = base_of t" "cur_of (refresh_unified_diff ctx t) = cur_of t"
  "valid (refresh_unified_diff ctx t) = valid t"
  by (auto simp: refresh_unified_diff_def base_of_def cur_of_def split: prod.splits)

lemma tracks_refresh [simp]: "tracks F0 F (refresh_unified_diff ctx t) \<longleftrightarrow> tracks F0 F t"
  by (simp add: tracks_def untracked_iff)

text \<open>What the primitive updates leave alone.\<close>

lemma valid_primitives [simp]:
  "valid (insert_baseline p c t) = valid t" "valid (insert_current p c t) = valid t"
  "valid (remove_origin p t) = valid t" "valid (remove_current p t) = valid t"
  by (simp_all add: insert_baseline_def insert_current_def remove_origin_def remove_current_def make_content_def)

text \<open>A property of trackers that every primitive update keeps is kept by every change.\<close>

lemma apply_change_induct:
  assumes base: "\<And>p c t. P t \<Longrightarrow> P (insert_baseline p c t)"
    and cur: "\<And>p c t. P t \<Longrightarrow> P (insert_current p c t)"
    and orig: "\<And>p t. P t \<Longrightarrow> P (remove_origin p t)"
    and rem: "\<And>p t. P t \<Longrightarrow> P (remove_current p t)"
    and upd: "\<And>m t. P t \<Longrightarrow> P (t\<lparr>origin_by_current_path := m\<rparr>)"
    and "P t"
  shows "P (fold (apply_change env) cs t)"
proof -
  have ifP: "P a \<Longrightarrow> P b \<Longrightarrow> P (if x then a else b)" for x a b by simp
  have optP: "P a \<Longrightarrow> (\<And>x. P (f x)) \<Longrightarrow> P (case z of None \<Rightarrow> a | Some x \<Rightarrow> f x)"
    for a and f :: "'x \<Rightarrow> 'a turn_diff_tracker" and z by (cases z) auto
  have "P (apply_add p c ov t)" if "P t" for p c ov t
    unfolding apply_add_def Let_def by (intro ifP optP base cur orig that)
  moreover have "P (apply_delete p c t)" if "P t" for p c t
    unfolding apply_delete_def Let_def by (intro ifP base rem orig that)
  moreover have "P (apply_update p mv old ov new t)" if "P t" for p mv old ov new t
    unfolding apply_update_def Let_def
    by (cases mv; cases ov) (simp only: option.case, intro ifP base cur rem orig upd that)+
  ultimately have "P (apply_change env c t)" if "P t" for c t
    using that by (auto simp: apply_change_def split: applied_patch_file_change.splits)
  with \<open>P t\<close> show ?thesis by (induction cs arbitrary: t) auto
qed

lemma fold_apply_change_valid: "valid (fold (apply_change env) cs t) = valid t"
  by (rule apply_change_induct[where P = "\<lambda>u. valid u = valid t"])
    simp_all

section \<open>The cache\<close>

lemma render_diff_frame:
  "display_roots_by_environment t' = display_roots_by_environment t \<Longrightarrow> render_diff ctx t' = render_diff ctx t"
  by (simp add: render_diff_def display_path_def fun_eq_iff)

lemma entry_ok_extend:
  assumes "entry_ok ctx t h k d" and "\<And>r. r < next_revision t \<Longrightarrow> h' r = h r"
    and "next_revision t \<le> next_revision t'" and "display_roots_by_environment t' = display_roots_by_environment t"
  shows "entry_ok ctx t' h' k d"
proof -
  have "map_option h' (left_revision k) = map_option h (left_revision k)"
    "map_option h' (right_revision k) = map_option h (right_revision k)"
    using assms(1,2) by (cases "left_revision k"; cases "right_revision k"; simp add: entry_ok_def key_ok_def)+
  with assms(1,3) show ?thesis
    unfolding entry_ok_def key_ok_def render_diff_frame[OF assms(4)] by fastforce
qed

lemma content_ok_extend:
  "content_ok h n c \<Longrightarrow> n \<le> n' \<Longrightarrow> (\<And>r. r < n \<Longrightarrow> h' r = h r) \<Longrightarrow> content_ok h' n' c"
  by (simp add: content_ok_def)

lemma history_extend:
  assumes "history_ok ctx h t"
    and frame: "display_roots_by_environment t' = display_roots_by_environment t" "rendered_diffs t' = rendered_diffs t"
      "next_revision t \<le> next_revision t'" "\<And>r. r < next_revision t \<Longrightarrow> h' r = h r"
    and "\<And>p c. map_of (baseline_by_path t') p = Some c \<Longrightarrow>
      map_of (baseline_by_path t) p = Some c \<or> content_ok h' (next_revision t') c"
    and "\<And>p c. map_of (current_by_path t') p = Some c \<Longrightarrow>
      map_of (current_by_path t) p = Some c \<or> content_ok h' (next_revision t') c"
  shows "history_ok ctx h' t'"
proof -
  have old: "content_ok h (next_revision t) c \<Longrightarrow> content_ok h' (next_revision t') c" for c
    using frame by (auto intro: content_ok_extend)
  have "entry_ok ctx t' h' k d" if "map_of (rendered_diffs t') k = Some d" for k d
    using assms(1) that frame entry_ok_extend[of ctx t h k d h' t'] by (simp add: history_ok_def)
  with assms old show ?thesis unfolding history_ok_def by metis
qed

lemma cache_ok_primitives:
  assumes "cache_ok ctx t"
  shows "cache_ok ctx (insert_baseline p c t)" "cache_ok ctx (insert_current p c t)"
    "cache_ok ctx (remove_origin p t)" "cache_ok ctx (remove_current p t)"
    "cache_ok ctx (t\<lparr>origin_by_current_path := m\<rparr>)"
proof -
  obtain h where h: "history_ok ctx h t" using assms by (auto simp: cache_ok_def)
  let ?h = "h(next_revision t := c)"
  have "history_ok ctx ?h (insert_baseline p c t)"
    by (rule history_extend[OF h])
      (auto simp: insert_baseline_def make_content_def update_conv' content_ok_def split: if_splits)
  then show "cache_ok ctx (insert_baseline p c t)" by (auto simp: cache_ok_def)
  have "history_ok ctx ?h (insert_current p c t)"
    by (rule history_extend[OF h])
      (auto simp: insert_current_def make_content_def update_conv' content_ok_def split: if_splits)
  then show "cache_ok ctx (insert_current p c t)" by (auto simp: cache_ok_def)
  have "history_ok ctx h (remove_origin p t)" "history_ok ctx h (remove_current p t)"
    "history_ok ctx h (t\<lparr>origin_by_current_path := m\<rparr>)"
    by (rule history_extend[OF h]; auto simp: remove_origin_def remove_current_def delete_conv' split: if_splits)+
  then show "cache_ok ctx (remove_origin p t)" "cache_ok ctx (remove_current p t)"
    "cache_ok ctx (t\<lparr>origin_by_current_path := m\<rparr>)" by (auto simp: cache_ok_def)
qed

lemma history_contents:
  assumes "history_ok ctx h t"
  shows "map_option h (map_option revision (map_of (baseline_by_path t) p)) = base_of t p"
    and "map_option h (map_option revision (map_of (current_by_path t) p)) = cur_of t p"
  using assms
  by (auto simp: history_ok_def content_ok_def base_of_def cur_of_def option.map_comp intro!: map_option_cong)

lemma cached_pair:
  assumes "history_ok ctx h t"
  shows "entry_ok ctx t h (cache_key t lp rp) d \<longleftrightarrow> d = render_pair ctx t lp rp"
proof -
  have "key_ok (next_revision t) (cache_key t lp rp)"
    using assms by (auto simp: key_ok_def cache_key_def history_ok_def content_ok_def)
  moreover have "render_pair ctx t lp rp = render_diff ctx t lp
      (map_option h (left_revision (cache_key t lp rp))) rp (map_option h (right_revision (cache_key t lp rp)))"
    using history_contents[OF assms] by (simp add: cache_key_def render_pair_def base_of_def cur_of_def)
  ultimately show ?thesis by (simp add: entry_ok_def cache_key_def)
qed

definition entries_ok ::
  "'p diff_context \<Rightarrow> 'p turn_diff_tracker \<Rightarrow> (nat \<Rightarrow> rstr) \<Rightarrow> ('p diff_cache_key \<times> rstr option) list \<Rightarrow> bool" where
  "entries_ok ctx t h m \<longleftrightarrow> (\<forall>k d. map_of m k = Some d \<longrightarrow> entry_ok ctx t h k d)"

lemma refresh_loop_fresh:
  assumes h: "history_ok ctx h t"
  shows "entries_ok ctx t h prev \<Longrightarrow> entries_ok ctx t h rendered \<Longrightarrow>
    snd (refresh_loop ctx t pairs paths handled prev rendered agg) = fresh_loop ctx t pairs paths handled agg \<and>
    entries_ok ctx t h (fst (refresh_loop ctx t pairs paths handled prev rendered agg))"
proof (induction paths arbitrary: handled prev rendered agg)
  case (Cons path paths)
  have diff: "(case map_of prev (cache_key t path rp) of Some cached \<Rightarrow> cached | None \<Rightarrow> render_pair ctx t path rp) =
      render_pair ctx t path rp" for rp
  proof (cases "map_of prev (cache_key t path rp)")
    case (Some cached)
    with Cons(2) have "entry_ok ctx t h (cache_key t path rp) cached" unfolding entries_ok_def by blast
    with Some cached_pair[OF h, of path rp] show ?thesis by simp
  qed simp
  have "entries_ok ctx t h (AList.delete k prev)" for k
    using Cons(2) by (auto simp: entries_ok_def delete_conv' split: if_splits)
  moreover have "entries_ok ctx t h (AList.update (cache_key t path rp) (render_pair ctx t path rp) rendered)" for rp
    using Cons(3) cached_pair[OF h] by (auto simp: entries_ok_def update_conv' split: if_splits)
  ultimately show ?case
    using Cons by (cases "map_of pairs path") (auto simp: Let_def diff)
qed simp

lemma refresh_fresh:
  assumes "cache_ok ctx t"
  shows "unified_diff (refresh_unified_diff ctx t) = fresh_diff ctx t" and "cache_ok ctx (refresh_unified_diff ctx t)"
proof -
  obtain h where h: "history_ok ctx h t" using assms by (auto simp: cache_ok_def)
  have "entries_ok ctx t h (rendered_diffs t)" "entries_ok ctx t h []"
    using h by (auto simp: entries_ok_def history_ok_def)
  note loop = refresh_loop_fresh[OF h this, of "rename_pairs t" "tracked_paths ctx t" "{}" "[]"]
  obtain rendered agg where r: "refresh_loop ctx t (rename_pairs t) (tracked_paths ctx t) {} (rendered_diffs t) [] [] = (rendered, agg)"
    by fastforce
  with loop show "unified_diff (refresh_unified_diff ctx t) = fresh_diff ctx t"
    by (simp add: refresh_unified_diff_def fresh_diff_def)
  have "history_ok ctx h (refresh_unified_diff ctx t)"
    using h r loop entry_ok_extend[of ctx t h _ _ h "refresh_unified_diff ctx t"]
    by (auto simp: history_ok_def entries_ok_def refresh_unified_diff_def)
  then show "cache_ok ctx (refresh_unified_diff ctx t)" by (auto simp: cache_ok_def)
qed

lemma fresh_diff_frame:
  "fresh_diff ctx (t\<lparr>rendered_diffs := r, unified_diff := u\<rparr>) = fresh_diff ctx t"
proof -
  let ?t = "t\<lparr>rendered_diffs := r, unified_diff := u\<rparr>"
  have d: "display_path ctx ?t = display_path ctx t" by (simp add: display_path_def fun_eq_iff)
  have "render_pair ctx ?t = render_pair ctx t"
    using render_diff_frame[of ?t t ctx] by (simp add: render_pair_def fun_eq_iff)
  then have "fresh_loop ctx ?t pairs paths handled agg = fresh_loop ctx t pairs paths handled agg" for pairs paths handled agg
    by (induction paths arbitrary: handled agg) (auto split: option.splits)
  moreover have "rename_pairs ?t = rename_pairs t" "tracked_paths ctx ?t = tracked_paths ctx t"
    using d by (simp_all add: rename_pairs_def is_rename_def tracked_paths_def)
  ultimately show ?thesis by (simp add: fresh_diff_def)
qed

lemma cache_ok_default: "cache_ok ctx (with_environment_display_roots roots)"
  by (auto simp: cache_ok_def history_ok_def with_environment_display_roots_def default_tracker_def)

lemma cache_ok_fold: "cache_ok ctx t \<Longrightarrow> cache_ok ctx (fold (apply_change env) cs t)"
  by (rule apply_change_induct[where P = "cache_ok ctx"]) (simp_all add: cache_ok_primitives)

lemma cache_ok_invalidate: "cache_ok ctx t \<Longrightarrow> cache_ok ctx (invalidate t)"
  unfolding cache_ok_def history_ok_def by (auto simp: invalidate_def)

lemma cache_ok_track: "cache_ok ctx t \<Longrightarrow> cache_ok ctx (track_delta ctx env d t)"
  by (simp add: track_delta_def cache_ok_invalidate cache_ok_fold refresh_fresh(2))

section \<open>Trackers of a turn\<close>

text \<open>A turn's tracker starts with its display roots and takes deltas, or is invalidated.\<close>

inductive tracker_reachable :: "'p diff_context \<Rightarrow> 'p turn_diff_tracker \<Rightarrow> bool" for ctx where
  start: "tracker_reachable ctx (with_environment_display_roots roots)"
| delta: "tracker_reachable ctx t \<Longrightarrow> tracker_reachable ctx (track_delta ctx env d t)"
| invalidate: "tracker_reachable ctx t \<Longrightarrow> tracker_reachable ctx (invalidate t)"

lemma reachable_cache: "tracker_reachable ctx t \<Longrightarrow> cache_ok ctx t"
  by (induction rule: tracker_reachable.induct)
    (simp_all add: cache_ok_default cache_ok_track cache_ok_invalidate)

lemma reachable_diff:
  "tracker_reachable ctx t \<Longrightarrow> unified_diff t = (if valid t then fresh_diff ctx t else None)"
proof (induction rule: tracker_reachable.induct)
  case (start roots)
  show ?case
    by (simp add: with_environment_display_roots_def default_tracker_def fresh_diff_def tracked_paths_def)
next
  case (delta t env d)
  let ?u = "fold (apply_change env) (delta_changes d) t"
  have "fresh_diff ctx (refresh_unified_diff ctx ?u) = fresh_diff ctx ?u"
    using fresh_diff_frame by (auto simp: refresh_unified_diff_def split: prod.splits)
  with delta show ?case
    using refresh_fresh(1)[OF cache_ok_fold[OF reachable_cache]]
    by (auto simp: track_delta_def invalidate_def fold_apply_change_valid)
next
  case (invalidate t)
  show ?case by (simp add: invalidate_def)
qed

text \<open>The files of one environment among those of all.\<close>

definition with_env_files ::
  "rstr \<Rightarrow> 'p files \<Rightarrow> ('p tracked_path \<Rightarrow> rstr option) \<Rightarrow> 'p tracked_path \<Rightarrow> rstr option" where
  "with_env_files env A F q = (if tp_environment_id q = env then A (tp_path q) else F q)"

lemma with_env_files_upd:
  "with_env_files env (A(p := x)) F = (with_env_files env A F)(TrackedPath env p := x)"
  by (auto simp: with_env_files_def fun_eq_iff tracked_path.expand)

lemma describes_in_env:
  "describes cs A B \<Longrightarrow> describes (map (in_env env) cs) (with_env_files env A F) (with_env_files env B F)"
proof (induction cs A B rule: describes.induct)
  case (2 c cs A B)
  have "change_sound (in_env env c) (with_env_files env A F) = change_sound c A"
    by (auto simp: in_env_def with_env_files_def split: applied_patch_file_change.splits option.splits)
  moreover have "replay_change (in_env env c) (with_env_files env A F) = with_env_files env (replay_change c A) F"
    by (auto simp: in_env_def with_env_files_upd split: applied_patch_file_change.splits option.splits)
  ultimately show ?case using 2 by (simp del: change_sound.simps replay_change.simps)
qed simp

lemma track_delta_tracks:
  assumes "valid t" and "tracks F0 F t" and "exact d" and "describes (map (in_env env) (delta_changes d)) F G"
    and "list_all (\<lambda>c. \<not> self_move c) (delta_changes d)"
  shows "valid (track_delta ctx env d t) \<and> tracks F0 G (track_delta ctx env d t)"
  using assms fold_apply_change_tracks[OF assms(2,4,5)]
  by (simp add: track_delta_def fold_apply_change_valid)

section \<open>No net change\<close>

lemma fold_no_rename:
  "\<forall>(d, q) \<in> set ps. \<not> is_rename t d q \<Longrightarrow>
   fold (\<lambda>(dest, origin) m. if is_rename t dest origin then AList.update origin dest m else m) ps m = m"
  by (induction ps arbitrary: m) auto

lemma unchanged_no_diff:
  assumes "tracks F F t"
  shows "fresh_diff ctx t = None"
proof -
  have eq: "base_of t p = cur_of t p" for p
    using tracksD[OF assms, of p] by (auto simp: tracks_at_def)
  have "\<not> is_rename t d q" for d q
    using eq[of q] by (auto simp: is_rename_def has_key_current has_key_baseline)
  then have pairs: "rename_pairs t = []"
    unfolding rename_pairs_def by (intro fold_no_rename) blast
  have "render_pair ctx t p p = None" for p
    using eq[of p] by (simp add: render_pair_def render_diff_def base_of_def cur_of_def)
  then have "fresh_loop ctx t [] paths handled agg = agg" for paths handled agg
    by (induction paths arbitrary: handled agg) (auto simp: push_diff_def)
  with pairs show ?thesis by (simp add: fresh_diff_def)
qed

section \<open>The claims\<close>

definition sample_ctx :: "rstr diff_context" where
  "sample_ctx = \<lparr>line_diff = (\<lambda>old new h1 h2. h1 @ h2), blob_oid = (\<lambda>s. s),
     relative_path_from = (\<lambda>p root. None), native_path_string = (\<lambda>p. p)\<rparr>"



text \<open>
  The diff of a turn. In every tracker a turn can reach, the text it hands out is what rendering all
  touched files afresh gives, so the cache of rendered diffs never shows; a tracker that met an inexact
  delta, or was invalidated, hands out none.
\<close>

theorem tracker_diff_is_fresh:
  assumes "tracker_reachable ctx t"
  shows "unified_diff t = (if valid t then fresh_diff ctx t else None)"
  by (rule reachable_diff[OF assms])

lemma tracker_diff_is_fresh_witness:
  "unified_diff (track_delta sample_ctx [] \<lparr>delta_changes = [], exact = False\<rparr> (default_tracker :: rstr turn_diff_tracker)) = None"
proof -
  have "(default_tracker :: rstr turn_diff_tracker) = with_environment_display_roots []"
    by (simp add: with_environment_display_roots_def default_tracker_def)
  then have "tracker_reachable sample_ctx (default_tracker :: rstr turn_diff_tracker)"
    by (metis tracker_reachable.start)
  from tracker_diff_is_fresh[OF tracker_reachable.delta[OF this]] show ?thesis
    by (simp add: track_delta_def invalidate_def default_tracker_def)
qed

text \<open>
  No net change, no diff. When every file has the contents it had before the turn, whatever
  happened in between, a reachable tracker that is right about the turn hands out no diff.
\<close>

theorem unchanged_files_no_diff:
  assumes "tracker_reachable ctx t" and "tracks F F t"
  shows "unified_diff t = None"
  using reachable_diff[OF assms(1)] unchanged_no_diff[OF assms(2)] by simp

lemma unchanged_files_no_diff_witness:
  "unified_diff (track_delta sample_ctx [] \<lparr>delta_changes =
      [\<lparr>change_path = lit ''f'', file_change = DeltaDelete (lit ''x'')\<rparr>,
       \<lparr>change_path = lit ''f'', file_change = DeltaAdd (lit ''x'') None\<rparr>], exact = True\<rparr> default_tracker) = None"
proof -
  let ?F = "(\<lambda>_. None)(TrackedPath [] (lit ''f'') \<mapsto> lit ''x'')"
  let ?cs = "[\<lparr>change_path = lit ''f'', file_change = DeltaDelete (lit ''x'')\<rparr>,
       \<lparr>change_path = lit ''f'', file_change = DeltaAdd (lit ''x'') None\<rparr>]"
  have d: "(default_tracker :: rstr turn_diff_tracker) = with_environment_display_roots []"
    by (simp add: with_environment_display_roots_def default_tracker_def)
  have reach: "tracker_reachable sample_ctx (default_tracker :: rstr turn_diff_tracker)"
    unfolding d by (rule tracker_reachable.start)
  have "tracks ?F ?F (track_delta sample_ctx [] \<lparr>delta_changes = ?cs, exact = True\<rparr> default_tracker)"
    by (rule conjunct2[OF track_delta_tracks[where F = ?F]])
      (auto simp: default_tracker_def tracks_iff tracks_at_def base_of_def cur_of_def in_env_def)
  from unchanged_files_no_diff[OF tracker_reachable.delta[OF reach] this] show ?thesis .
qed

end
