(* ===== verification/Invocation.thy ===== *)
theory Invocation
  imports Apply_Patch
begin

text \<open>
  \<open>apply-patch/src/invocation.rs\<close> and \<open>standalone_executable.rs\<close>: recognising an \<open>apply_patch\<close> call
  in a command line, and verifying it against the file system into the changes that are shown to the
  user for approval.

  The Tree-sitter query that finds a heredoc in a script is a parameter: for a script it gives the
  captures of each match, or the error that kept the script from being parsed. The unified diff text
  (crate \<open>similar\<close>) is a parameter too.

  The lemmas give: only explicit calls are taken for patches; a verified action has exactly one
  change per hunk, at distinct paths; and applying a verified patch writes what was shown.
\<close>

section \<open>Shells\<close>

datatype path_convention = Posix | Windows

datatype apply_patch_shell = UnixShell | PowerShell | CmdShell

definition APPLY_PATCH_COMMANDS :: "rstr list" where
  "APPLY_PATCH_COMMANDS = [lit ''apply_patch'', lit ''applypatch'']"

definition path_segments :: "path_convention \<Rightarrow> rstr \<Rightarrow> rstr list" where
  "path_segments conv path =
     split_on (\<lambda>c. case conv of Posix \<Rightarrow> c = 47 | Windows \<Rightarrow> c = 47 \<or> c = 92) path"

definition classify_shell_name :: "rstr \<Rightarrow> path_convention \<Rightarrow> rstr option" where
  "classify_shell_name shell conv =
     (case last_opt (path_segments conv shell) of
        None \<Rightarrow> None
      | Some basename \<Rightarrow>
          Some (to_ascii_lowercase
            (case rsplit_once 46 basename of
               Some (stem, _) \<Rightarrow> (if stem \<noteq> [] then stem else basename)
             | None \<Rightarrow> basename)))"

definition classify_shell :: "rstr \<Rightarrow> rstr \<Rightarrow> path_convention \<Rightarrow> apply_patch_shell option" where
  "classify_shell shell flag conv =
     (case classify_shell_name shell conv of
        None \<Rightarrow> None
      | Some name \<Rightarrow>
          (if name \<in> set [lit ''bash'', lit ''zsh'', lit ''sh''] \<and> flag \<in> set [lit ''-lc'', lit ''-c''] then Some UnixShell
           else if name \<in> set [lit ''pwsh'', lit ''powershell''] \<and> eq_ignore_ascii_case flag (lit ''-command'')
           then Some PowerShell
           else if name = lit ''cmd'' \<and> eq_ignore_ascii_case flag (lit ''/c'') then Some CmdShell
           else None))"

definition can_skip_flag :: "rstr \<Rightarrow> rstr \<Rightarrow> path_convention \<Rightarrow> bool" where
  "can_skip_flag shell flag conv =
     (case classify_shell_name shell conv of
        None \<Rightarrow> False
      | Some name \<Rightarrow> name \<in> set [lit ''pwsh'', lit ''powershell''] \<and> eq_ignore_ascii_case flag (lit ''-noprofile''))"

text \<open>\<open>convention\<close> is \<open>cwd.infer_path_convention()\<close>.\<close>

definition parse_shell_script :: "rstr list \<Rightarrow> path_convention option \<Rightarrow> (apply_patch_shell \<times> rstr) option" where
  "parse_shell_script argv convention =
     (case convention of
        None \<Rightarrow> None
      | Some conv \<Rightarrow>
          (case argv of
             [shell, flag, script] \<Rightarrow> map_option (\<lambda>s. (s, script)) (classify_shell shell flag conv)
           | [shell, skip_flag, flag, script] \<Rightarrow>
               (if \<not> can_skip_flag shell skip_flag conv then None
                else map_option (\<lambda>s. (s, script)) (classify_shell shell flag conv))
           | _ \<Rightarrow> None))"

section \<open>Heredocs\<close>

datatype extract_heredoc_error =
    CommandDidNotStartWithApplyPatch
  | FailedToLoadBashGrammar rstr
  | HeredocNotUtf8 rstr
  | FailedToParsePatchIntoAst
  | FailedToFindHeredocBody

text \<open>
  A capture of the query: its name and the text of its node, or the UTF-8 error. The query gives the
  captures of every match in turn.
\<close>

datatype capture_name = CapHeredoc | CapCdPath | CapCdRawString | CapOther

type_synonym capture = "capture_name \<times> (rstr, rstr) result"
type_synonym script_query = "rstr \<Rightarrow> (capture list list, extract_heredoc_error) result"

definition unquote_raw :: "rstr \<Rightarrow> rstr" where
  "unquote_raw raw =
     (case strip_prefix [39] raw of
        None \<Rightarrow> raw
      | Some s \<Rightarrow> (case strip_suffix [39] s of None \<Rightarrow> raw | Some t \<Rightarrow> t))"

fun read_captures ::
  "capture list \<Rightarrow> rstr option \<Rightarrow> rstr option \<Rightarrow> (rstr option \<times> rstr option, extract_heredoc_error) result" where
  "read_captures [] heredoc cd_path = Ok (heredoc, cd_path)"
| "read_captures ((CapOther, t) # caps) heredoc cd_path = read_captures caps heredoc cd_path"
| "read_captures ((name, Err e) # caps) heredoc cd_path = Err (HeredocNotUtf8 e)"
| "read_captures ((CapHeredoc, Ok t) # caps) heredoc cd_path =
     read_captures caps (Some (trim_end_matches (\<lambda>c. c = LF) t)) cd_path"
| "read_captures ((CapCdPath, Ok t) # caps) heredoc cd_path = read_captures caps heredoc (Some t)"
| "read_captures ((CapCdRawString, Ok t) # caps) heredoc cd_path = read_captures caps heredoc (Some (unquote_raw t))"

fun first_heredoc :: "capture list list \<Rightarrow> (rstr \<times> rstr option, extract_heredoc_error) result" where
  "first_heredoc [] = Err CommandDidNotStartWithApplyPatch"
| "first_heredoc (m # ms) =
     (case read_captures m None None of
        Err e \<Rightarrow> Err e
      | Ok (Some heredoc, cd_path) \<Rightarrow> Ok (heredoc, cd_path)
      | Ok (None, _) \<Rightarrow> first_heredoc ms)"

definition extract_apply_patch_from_bash ::
  "script_query \<Rightarrow> rstr \<Rightarrow> (rstr \<times> rstr option, extract_heredoc_error) result" where
  "extract_apply_patch_from_bash query src = bind_result (query src) first_heredoc"

definition extract_apply_patch_from_shell ::
  "script_query \<Rightarrow> apply_patch_shell \<Rightarrow> rstr \<Rightarrow> (rstr \<times> rstr option, extract_heredoc_error) result" where
  "extract_apply_patch_from_shell query shell script = extract_apply_patch_from_bash query script"

section \<open>Parsing a command line\<close>

datatype maybe_apply_patch =
    PatchBody apply_patch_args
  | ShellParseError extract_heredoc_error
  | PatchParseError parse_error
  | NotApplyPatch

definition parse_shell_form :: "script_query \<Rightarrow> rstr list \<Rightarrow> path_convention option \<Rightarrow> maybe_apply_patch" where
  "parse_shell_form query argv convention =
     (case parse_shell_script argv convention of
        None \<Rightarrow> NotApplyPatch
      | Some (shell, script) \<Rightarrow>
          (case extract_apply_patch_from_shell query shell script of
             Ok (body, dir) \<Rightarrow>
               (case parse_patch body of
                  Ok source \<Rightarrow> PatchBody (source\<lparr>workdir := dir\<rparr>)
                | Err e \<Rightarrow> PatchParseError e)
           | Err CommandDidNotStartWithApplyPatch \<Rightarrow> NotApplyPatch
           | Err e \<Rightarrow> ShellParseError e))"

definition maybe_parse_apply_patch :: "script_query \<Rightarrow> rstr list \<Rightarrow> path_convention option \<Rightarrow> maybe_apply_patch" where
  "maybe_parse_apply_patch query argv convention =
     (case argv of
        [cmd, body] \<Rightarrow>
          (if cmd \<in> set APPLY_PATCH_COMMANDS then
             (case parse_patch body of Ok source \<Rightarrow> PatchBody source | Err e \<Rightarrow> PatchParseError e)
           else parse_shell_form query argv convention)
      | _ \<Rightarrow> parse_shell_form query argv convention)"

section \<open>Verification\<close>

datatype 'p apply_patch_file_change =
    ChangeAdd rstr
  | ChangeDelete rstr
  | ChangeUpdate rstr "'p option" rstr

record 'p apply_patch_action =
  action_changes :: "'p \<Rightarrow> 'p apply_patch_file_change option"
  action_mode :: update_mode
  action_patch :: rstr
  action_cwd :: 'p

datatype 'p maybe_apply_patch_verified =
    VerifiedBody "'p apply_patch_action"
  | VerifiedShellParseError extract_heredoc_error
  | CorrectnessError apply_patch_error
  | VerifiedNotApplyPatch

text \<open>The change of one hunk; the outer option is \<open>None\<close> when deriving the new contents panics.\<close>

definition verify_hunk ::
  "(rstr \<Rightarrow> rstr \<Rightarrow> rstr) \<Rightarrow> 'p path_ops \<Rightarrow> ('p, 'w) executor_file_system \<Rightarrow> update_mode \<Rightarrow> 'p \<Rightarrow> hunk \<Rightarrow> 'p \<Rightarrow> 'w \<Rightarrow>
   ('p apply_patch_file_change, apply_patch_error) result option" where
  "verify_hunk udiff po fs mode cwd h path w =
     (case h of
        AddFile _ contents \<Rightarrow> Some (Ok (ChangeAdd contents))
      | DeleteFile _ \<Rightarrow>
          (case read_file_text fs path True w of
             Ok content \<Rightarrow> Some (Ok (ChangeDelete content))
           | Err e \<Rightarrow> Some (Err (IoError (lit ''Failed to read '' @ path_native po path) e)))
      | UpdateFile _ move_path chunks \<Rightarrow>
          (case derive_new_contents_from_chunks (read_file_text fs path True w) (path_native po path) chunks mode of
             None \<Rightarrow> None
           | Some (Err e) \<Rightarrow> Some (Err e)
           | Some (Ok up) \<Rightarrow>
               (case move_path of
                  None \<Rightarrow> Some (Ok (ChangeUpdate (udiff (original_contents up) (new_contents up)) None (new_contents up)))
                | Some dest \<Rightarrow>
                    (case path_join po cwd dest of
                       Err e \<Rightarrow> Some (Err (PathUriError e))
                     | Ok dest_uri \<Rightarrow>
                         Some (Ok (ChangeUpdate (udiff (original_contents up) (new_contents up)) (Some dest_uri)
                           (new_contents up)))))))"

fun verify_loop ::
  "(rstr \<Rightarrow> rstr \<Rightarrow> rstr) \<Rightarrow> 'p path_ops \<Rightarrow> ('p, 'w) executor_file_system \<Rightarrow> update_mode \<Rightarrow> 'p \<Rightarrow> 'w \<Rightarrow> hunk list \<Rightarrow>
   ('p \<Rightarrow> 'p apply_patch_file_change option) \<Rightarrow> (('p \<Rightarrow> 'p apply_patch_file_change option), apply_patch_error) result option" where
  "verify_loop udiff po fs mode cwd w [] changes = Some (Ok changes)"
| "verify_loop udiff po fs mode cwd w (h # hs) changes =
     (case resolve_path po cwd h of
        Err e \<Rightarrow> Some (Err (PathUriError e))
      | Ok path \<Rightarrow>
          (if changes path \<noteq> None then
             Some (Err (ParseError (InvalidPatchError (lit ''multiple operations target '' @ path_native po path))))
           else case verify_hunk udiff po fs mode cwd h path w of
             None \<Rightarrow> None
           | Some (Err e) \<Rightarrow> Some (Err e)
           | Some (Ok c) \<Rightarrow> verify_loop udiff po fs mode cwd w hs (changes(path \<mapsto> c))))"

definition effective_cwd :: "'p path_ops \<Rightarrow> 'p \<Rightarrow> rstr option \<Rightarrow> ('p, rstr) result" where
  "effective_cwd po cwd dir = (case dir of None \<Rightarrow> Ok cwd | Some d \<Rightarrow> path_join po cwd d)"

definition try_verify_apply_patch_args ::
  "(rstr \<Rightarrow> rstr \<Rightarrow> rstr) \<Rightarrow> 'p path_ops \<Rightarrow> ('p, 'w) executor_file_system \<Rightarrow> apply_patch_args \<Rightarrow> 'p \<Rightarrow> update_mode \<Rightarrow> 'w \<Rightarrow>
   ('p apply_patch_action, apply_patch_error) result option" where
  "try_verify_apply_patch_args udiff po fs args cwd mode w =
     (case effective_cwd po cwd (workdir args) of
        Err e \<Rightarrow> Some (Err (PathUriError e))
      | Ok dir \<Rightarrow>
          (case verify_loop udiff po fs mode dir w (hunks args) Map.empty of
             None \<Rightarrow> None
           | Some (Err e) \<Rightarrow> Some (Err e)
           | Some (Ok changes) \<Rightarrow>
               Some (Ok \<lparr>action_changes = changes, action_mode = mode, action_patch = patch args, action_cwd = dir\<rparr>)))"

definition verify_apply_patch_args_with_mode ::
  "(rstr \<Rightarrow> rstr \<Rightarrow> rstr) \<Rightarrow> 'p path_ops \<Rightarrow> ('p, 'w) executor_file_system \<Rightarrow> apply_patch_args \<Rightarrow> 'p \<Rightarrow> update_mode \<Rightarrow> 'w \<Rightarrow>
   'p maybe_apply_patch_verified option" where
  "verify_apply_patch_args_with_mode udiff po fs args cwd mode w =
     (case try_verify_apply_patch_args udiff po fs args cwd mode w of
        None \<Rightarrow> None
      | Some (Ok action) \<Rightarrow> Some (VerifiedBody action)
      | Some (Err e) \<Rightarrow> Some (CorrectnessError e))"

definition maybe_parse_apply_patch_verified_with_mode ::
  "script_query \<Rightarrow> (rstr \<Rightarrow> rstr \<Rightarrow> rstr) \<Rightarrow> 'p path_ops \<Rightarrow> ('p, 'w) executor_file_system \<Rightarrow> rstr list \<Rightarrow> 'p \<Rightarrow>
   path_convention option \<Rightarrow> update_mode \<Rightarrow> 'w \<Rightarrow> 'p maybe_apply_patch_verified option" where
  "maybe_parse_apply_patch_verified_with_mode query udiff po fs argv cwd convention mode w =
     (if (case argv of [body] \<Rightarrow> is_ok (parse_patch body) | _ \<Rightarrow> False)
      then Some (CorrectnessError ImplicitInvocation)
      else if (case parse_shell_script argv convention of Some (_, script) \<Rightarrow> is_ok (parse_patch script) | None \<Rightarrow> False)
      then Some (CorrectnessError ImplicitInvocation)
      else case maybe_parse_apply_patch query argv convention of
        PatchBody args \<Rightarrow> verify_apply_patch_args_with_mode udiff po fs args cwd mode w
      | ShellParseError e \<Rightarrow> Some (VerifiedShellParseError e)
      | PatchParseError e \<Rightarrow> Some (CorrectnessError (ParseError e))
      | NotApplyPatch \<Rightarrow> Some VerifiedNotApplyPatch)"

section \<open>The standalone executable\<close>

text \<open>
  The command line after \<open>argv[0]\<close>: an argument is its text, or an error when it is not UTF-8. Standard
  input is its text or an error. The value of the mode variable is its text when it is set and UTF-8.
  Diagnostics written with \<open>eprintln!\<close> and the creation of the async runtime are left out; the result
  is the exit code.
\<close>

definition apply_patch_file_update_mode_from_env :: "rstr option \<Rightarrow> update_mode" where
  "apply_patch_file_update_mode_from_env var =
     (if var = Some (lit ''1'') then PreserveLineEndings else NormalizeToLf)"

definition patch_argument ::
  "(rstr, unit) result list \<Rightarrow> (rstr, rstr) result \<Rightarrow> (rstr, nat) result" where
  "patch_argument args stdin =
     (case args of
        Ok s # _ \<Rightarrow> Ok s
      | Err _ # _ \<Rightarrow> Err 1
      | [] \<Rightarrow> (case stdin of Ok buf \<Rightarrow> (if buf = [] then Err 2 else Ok buf) | Err _ \<Rightarrow> Err 1))"

definition run_main ::
  "'o writer \<Rightarrow> 'p path_ops \<Rightarrow> ('p, 'w) executor_file_system \<Rightarrow> (rstr, unit) result list \<Rightarrow> (rstr, rstr) result \<Rightarrow>
   rstr option \<Rightarrow> ('p, rstr) result \<Rightarrow> ('o, 'w) run_state \<Rightarrow> (('o, 'w) run_state \<times> nat) option" where
  "run_main wr po fs args stdin mode_var current_dir rs =
     (case patch_argument args stdin of
        Err code \<Rightarrow> Some (rs, code)
      | Ok patch_arg \<Rightarrow>
          (if length args > 1 then Some (rs, 2)
           else case current_dir of
             Err _ \<Rightarrow> Some (rs, 1)
           | Ok cwd \<Rightarrow>
               (case apply_patch_with_options wr po fs patch_arg
                       (default_options\<lparr>update_file_mode := apply_patch_file_update_mode_from_env mode_var\<rparr>) cwd rs of
                  None \<Rightarrow> None
                | Some (rs', Ok _) \<Rightarrow> Some (rs', 0)
                | Some (rs', Err _) \<Rightarrow> Some (rs', 1))))"

section \<open>Specification\<close>

text \<open>The effect of an approved change on the files.\<close>

fun change_effect :: "'p \<times> 'p apply_patch_file_change \<Rightarrow> 'p files \<Rightarrow> 'p files" where
  "change_effect (p, ChangeAdd content) F = F(p \<mapsto> content)"
| "change_effect (p, ChangeDelete content) F = F(p := None)"
| "change_effect (p, ChangeUpdate diff None new) F = F(p \<mapsto> new)"
| "change_effect (p, ChangeUpdate diff (Some dest) new) F = (F(dest \<mapsto> new))(p := None)"

text \<open>The paths a change touches.\<close>

fun touched :: "'p \<times> 'p apply_patch_file_change \<Rightarrow> 'p list" where
  "touched (p, ChangeUpdate diff (Some dest) new) = [p, dest]"
| "touched (p, _) = [p]"

text \<open>A recorded change carries out an approved one.\<close>

fun carries_out :: "'p applied_patch_change \<Rightarrow> 'p \<times> 'p apply_patch_file_change \<Rightarrow> bool" where
  "carries_out c (p, ChangeAdd content) \<longleftrightarrow> (\<exists>ov. c = \<lparr>change_path = p, file_change = DeltaAdd content ov\<rparr>)"
| "carries_out c (p, ChangeDelete content) \<longleftrightarrow> c = \<lparr>change_path = p, file_change = DeltaDelete content\<rparr>"
| "carries_out c (p, ChangeUpdate diff mv new) \<longleftrightarrow>
     (\<exists>old ov. c = \<lparr>change_path = p, file_change = DeltaUpdate mv old ov new\<rparr>)"

text \<open>A hunk, and the path and change verification gives it.\<close>

definition verified_as ::
  "(rstr \<Rightarrow> rstr \<Rightarrow> rstr) \<Rightarrow> 'p path_ops \<Rightarrow> ('p, 'w) executor_file_system \<Rightarrow> update_mode \<Rightarrow> 'p \<Rightarrow> 'w \<Rightarrow>
   hunk \<Rightarrow> 'p \<times> 'p apply_patch_file_change \<Rightarrow> bool" where
  "verified_as udiff po fs mode cwd w h pa \<longleftrightarrow>
     resolve_path po cwd h = Ok (fst pa) \<and> verify_hunk udiff po fs mode cwd h (fst pa) w = Some (Ok (snd pa))"

text \<open>The approved changes with their paths, in patch order.\<close>

definition approved :: "'p path_ops \<Rightarrow> 'p apply_patch_action \<Rightarrow> hunk list \<Rightarrow> ('p \<times> 'p apply_patch_file_change) list" where
  "approved po action hs =
     List.map_filter (\<lambda>h. case resolve_path po (action_cwd action) h of
        Ok p \<Rightarrow> map_option (Pair p) (action_changes action p) | Err _ \<Rightarrow> None) hs"

section \<open>What verification establishes\<close>

lemma verify_loop_spec:
  assumes "verify_loop udiff po fs mode cwd w hs ch = Some (Ok ch')"
  shows "\<exists>pas. list_all2 (verified_as udiff po fs mode cwd w) hs pas \<and> distinct (map fst pas) \<and>
    fst ` set pas \<inter> dom ch = {} \<and> ch' = ch ++ map_of pas"
  using assms
proof (induction hs arbitrary: ch)
  case Nil
  then show ?case by simp
next
  case (Cons h hs)
  obtain p where p: "resolve_path po cwd h = Ok p" "ch p = None"
    using Cons(2) by (auto split: result.splits if_splits)
  with Cons(2) obtain c where c: "verify_hunk udiff po fs mode cwd h p w = Some (Ok c)"
    "verify_loop udiff po fs mode cwd w hs (ch(p \<mapsto> c)) = Some (Ok ch')"
    by (auto split: option.splits result.splits)
  obtain pas where pas: "list_all2 (verified_as udiff po fs mode cwd w) hs pas" "distinct (map fst pas)"
    "fst ` set pas \<inter> dom (ch(p \<mapsto> c)) = {}" "ch' = ch(p \<mapsto> c) ++ map_of pas"
    using Cons(1)[OF c(2)] by blast
  have notin: "p \<notin> fst ` set pas" using pas(3) by auto
  then have "map_of pas p = None" by (simp add: map_of_eq_None_iff)
  then have eq: "ch' = ch ++ map_of ((p, c) # pas)"
    unfolding pas(4) by (auto simp: map_add_def fun_eq_iff split: option.splits)
  have "verified_as udiff po fs mode cwd w h (p, c)"
    using p(1) c(1) by (simp add: verified_as_def)
  then show ?case
    by (intro exI[of _ "(p, c) # pas"] conjI eq) (use p(2) pas(1-3) notin in auto)
qed

lemma map_of_approved:
  assumes "list_all2 (verified_as udiff po fs mode (action_cwd action) w) hs pas"
    and "\<forall>pa \<in> set pas. action_changes action (fst pa) = Some (snd pa)"
  shows "approved po action hs = pas"
  using assms
  by (induction hs pas rule: list_all2_induct) (auto simp: approved_def map_filter_simps verified_as_def)

lemma verified_pairs:
  assumes "try_verify_apply_patch_args udiff po fs args cwd mode w = Some (Ok action)"
  shows "list_all2 (verified_as udiff po fs mode (action_cwd action) w) (hunks args) (approved po action (hunks args))"
    and "distinct (map fst (approved po action (hunks args)))"
    and "action_changes action = map_of (approved po action (hunks args))"
proof -
  obtain dir ch where ch: "verify_loop udiff po fs mode dir w (hunks args) Map.empty = Some (Ok ch)"
    "action_cwd action = dir" "action_changes action = ch"
    using assms by (auto simp: try_verify_apply_patch_args_def split: result.splits option.splits)
  from verify_loop_spec[OF ch(1)] obtain pas where pas: "list_all2 (verified_as udiff po fs mode dir w) (hunks args) pas"
    "distinct (map fst pas)" "ch = map_of pas"
    by auto
  have eq: "approved po action (hunks args) = pas"
    using pas ch(2,3) by (intro map_of_approved) auto
  show "list_all2 (verified_as udiff po fs mode (action_cwd action) w) (hunks args) (approved po action (hunks args))"
    "distinct (map fst (approved po action (hunks args)))"
    "action_changes action = map_of (approved po action (hunks args))"
    using pas ch eq by simp_all
qed

section \<open>Applying what was verified\<close>

text \<open>A successful hunk that keeps the delta exact records one change of the hunk's own kind.\<close>

lemma add_hunk_change:
  "add_file_hunk po fs follow p aff c st = (st', Ok u) \<Longrightarrow>
   \<exists>ov. delta_changes (delta st') = delta_changes (delta st) @ [\<lparr>change_path = p, file_change = DeltaAdd c ov\<rparr>]"
  by (auto simp: add_file_hunk_def Let_def push_change_def split: prod.splits result.splits)

lemma delete_hunk_change:
  "delete_file_hunk po fs follow p aff st = (st', Ok u) \<Longrightarrow> exact (delta st') \<Longrightarrow>
   \<exists>c. delta_changes (delta st') = delta_changes (delta st) @ [\<lparr>change_path = p, file_change = DeltaDelete c\<rparr>]"
  by (auto simp: delete_file_hunk_def Let_def push_change_def split: prod.splits result.splits option.splits)

lemma update_hunk_change:
  assumes "update_file_hunk po fs options cwd p aff mv chunks st = Some (st', Ok u)"
  shows "\<exists>up dest ov. derive_new_contents_from_chunks (read_file_text fs p (follow_symlinks options) (world st))
        (path_native po p) chunks (update_file_mode options) = Some (Ok up) \<and>
      (case mv of None \<Rightarrow> dest = None | Some m \<Rightarrow> map_option Ok dest = Some (path_join po cwd m)) \<and>
      delta_changes (delta st') = delta_changes (delta st) @
        [\<lparr>change_path = p, file_change = DeltaUpdate dest (original_contents up) ov (new_contents up)\<rparr>]"
proof -
  let ?st = "st\<lparr>delta := (delta st)\<lparr>exact :=
    note_existing_path_delta_support fs p (follow_symlinks options) (world st) (exact (delta st))\<rparr>\<rparr>"
  obtain up where up: "derive_new_contents_from_chunks (read_file_text fs p (follow_symlinks options) (world st))
        (path_native po p) chunks (update_file_mode options) = Some (Ok up)"
    using assms by (auto simp: update_file_hunk_def Let_def split: option.splits result.splits)
  show ?thesis
  proof (cases mv)
    case None
    with assms up have "rewrite_file_hunk po fs (follow_symlinks options) p aff up ?st = (st', Ok u)"
      by (simp add: update_file_hunk_def Let_def)
    with up None show ?thesis
      by (auto simp: rewrite_file_hunk_def push_change_def split: prod.splits result.splits)
  next
    case (Some m)
    with assms up obtain d where d: "path_join po cwd m = Ok d"
      "move_file_hunk po fs (follow_symlinks options) p d aff up ?st = (st', Ok u)"
      by (auto simp: update_file_hunk_def Let_def split: result.splits)
    with up Some show ?thesis
      by (intro exI[of _ up] exI[of _ "Some d"])
        (auto simp: move_file_hunk_def push_change_def Let_def split: prod.splits result.splits)
  qed
qed

lemma derive_same:
  assumes "derive_new_contents_from_chunks r t chunks mode = Some (Ok up)"
    and "derive_new_contents_from_chunks r' t chunks mode = Some (Ok up')" and "original_contents up = original_contents up'"
  shows "up = up'"
proof -
  have "r = Ok (original_contents up)" "r' = Ok (original_contents up')"
    using assms(1,2) by (auto simp: derive_new_contents_from_chunks_def split: result.splits option.splits)
  with assms show ?thesis by simp
qed

text \<open>
  A hunk applied to a file that has the contents it was verified with carries out the verified change.
\<close>

lemma applied_as_verified:
  assumes fs: "text_fs po fs files True" and "follow_symlinks options = True"
    and "resolve_path po cwd h = Ok p"
    and verified: "verify_hunk udiff po fs (update_file_mode options) cwd h p w0 = Some (Ok a)"
    and same: "files (world st) p = files w0 p"
    and run: "apply_hunk po fs options cwd h st = Some (st', Ok u)" and ex: "exact (delta st')"
  shows "\<exists>c. delta_changes (delta st') = delta_changes (delta st) @ [c] \<and> carries_out c (p, a) \<and>
    files (world st') = change_effect (p, a) (files (world st)) \<and> exact (delta st)"
proof -
  have step: "step_exact files st st'"
    using apply_hunk_exact[OF fs[folded assms(2)] run] .
  have "\<exists>c. delta_changes (delta st') = delta_changes (delta st) @ [c] \<and>
      (change_sound c (files (world st)) \<longrightarrow> carries_out c (p, a) \<and> replay_change c (files (world st)) = change_effect (p, a) (files (world st)))"
  proof (cases h)
    case (AddFile q contents)
    with run assms(2,3) obtain ov where
      "delta_changes (delta st') = delta_changes (delta st) @ [\<lparr>change_path = p, file_change = DeltaAdd contents ov\<rparr>]"
      using add_hunk_change[of po fs "follow_symlinks options" p q contents st st' u] by (auto simp: apply_hunk_def)
    with AddFile verified show ?thesis by (auto simp: verify_hunk_def)
  next
    case (DeleteFile q)
    with run assms(2,3) ex obtain c where
      "delta_changes (delta st') = delta_changes (delta st) @ [\<lparr>change_path = p, file_change = DeltaDelete c\<rparr>]"
      using delete_hunk_change[of po fs "follow_symlinks options" p q st st' u] by (auto simp: apply_hunk_def)
    moreover from DeleteFile verified obtain c0 where "a = ChangeDelete c0" "read_file_text fs p True w0 = Ok c0"
      by (auto simp: verify_hunk_def split: result.splits)
    ultimately show ?thesis using text_fs_read[OF fs] same by fastforce
  next
    case (UpdateFile q mv chunks)
    with run assms(3) obtain aff where "update_file_hunk po fs options cwd p aff mv chunks st = Some (st', Ok u)"
      by (auto simp: apply_hunk_def)
    from update_hunk_change[OF this] obtain up dest ov where up:
      "derive_new_contents_from_chunks (read_file_text fs p True (world st)) (path_native po p) chunks (update_file_mode options) = Some (Ok up)"
      "case mv of None \<Rightarrow> dest = None | Some m \<Rightarrow> map_option Ok dest = Some (path_join po cwd m)"
      "delta_changes (delta st') = delta_changes (delta st) @
        [\<lparr>change_path = p, file_change = DeltaUpdate dest (original_contents up) ov (new_contents up)\<rparr>]"
      unfolding assms(2) by blast
    from UpdateFile verified obtain up0 dest0 diff where up0:
      "derive_new_contents_from_chunks (read_file_text fs p True w0) (path_native po p) chunks (update_file_mode options) = Some (Ok up0)"
      "case mv of None \<Rightarrow> dest0 = None | Some m \<Rightarrow> map_option Ok dest0 = Some (path_join po cwd m)"
      "a = ChangeUpdate diff dest0 (new_contents up0)"
      by (auto simp: verify_hunk_def split: option.splits result.splits)
    have "original_contents up = original_contents up0"
      using text_fs_read[OF fs derive_original[OF up(1)]] text_fs_read[OF fs derive_original[OF up0(1)]] same by simp
    then have "up = up0" using derive_same[OF up(1) up0(1)] by simp
    moreover have "dest = dest0" using up(2) up0(2) by (cases mv; cases dest; cases dest0) (auto, metis result.inject(1))
    ultimately show ?thesis using up(3) up0(3) by (cases dest) auto
  qed
  then obtain c where c: "delta_changes (delta st') = delta_changes (delta st) @ [c]"
    "change_sound c (files (world st)) \<Longrightarrow> carries_out c (p, a) \<and> replay_change c (files (world st)) = change_effect (p, a) (files (world st))"
    by blast
  with step ex show ?thesis
    by (auto simp: step_exact_def simp del: change_sound.simps replay_change.simps)
qed

lemma change_effect_untouched: "q \<notin> set (touched pa) \<Longrightarrow> change_effect pa F q = F q"
  by (cases "(pa, F)" rule: change_effect.cases) auto

lemma touched_path: "fst pa \<in> set (touched pa)"
  by (cases pa rule: touched.cases) auto

lemma apply_loop_exact_back:
  "text_fs po fs files (follow_symlinks options) \<Longrightarrow>
   apply_hunks_loop po fs options cwd hs st = Some (st', r) \<Longrightarrow> exact (delta st') \<Longrightarrow> exact (delta st)"
  using apply_hunks_loop_exact[of po fs files options cwd hs st st' r] by (simp add: step_exact_def)

lemma apply_verified_loop:
  assumes fs: "text_fs po fs files True" and follow: "follow_symlinks options = True"
  shows "list_all2 (verified_as udiff po fs (update_file_mode options) cwd w0) hs pas \<Longrightarrow>
    distinct (concat (map touched pas)) \<Longrightarrow>
    (\<And>pa. pa \<in> set pas \<Longrightarrow> files (world st) (fst pa) = files w0 (fst pa)) \<Longrightarrow>
    apply_hunks_loop po fs options cwd hs st = Some (st', Ok u) \<Longrightarrow> exact (delta st') \<Longrightarrow>
    \<exists>cs. delta_changes (delta st') = delta_changes (delta st) @ cs \<and> list_all2 carries_out cs pas \<and>
      files (world st') = fold change_effect pas (files (world st))"
proof (induction hs pas arbitrary: st rule: list_all2_induct)
  case Nil
  then show ?case by simp
next
  case (Cons h hs pa pas)
  obtain st1 v where st1: "apply_hunk po fs options cwd h st = Some (st1, Ok v)"
    "apply_hunks_loop po fs options cwd hs st1 = Some (st', Ok u)"
    using Cons.prems(3) by (auto split: option.splits result.splits)
  have ex1: "exact (delta st1)"
    using apply_loop_exact_back[OF _ st1(2)] fs follow Cons.prems(4) by simp
  obtain c where c: "delta_changes (delta st1) = delta_changes (delta st) @ [c]" "carries_out c pa"
    "files (world st1) = change_effect pa (files (world st))"
    using applied_as_verified[OF fs follow _ _ _ st1(1) ex1, of "fst pa" udiff w0 "snd pa"] Cons.hyps(1) Cons.prems(2)
    by (auto simp: verified_as_def)
  have "files (world st1) (fst qa) = files w0 (fst qa)" if "qa \<in> set pas" for qa
  proof -
    have "fst qa \<notin> set (touched pa)"
      using Cons.prems(1) that touched_path[of qa] by auto
    with c(3) Cons.prems(2)[of qa] that show ?thesis by (simp add: change_effect_untouched)
  qed
  with Cons.IH[OF _ _ st1(2) Cons.prems(4)] Cons.prems(1) obtain cs where
    "delta_changes (delta st') = delta_changes (delta st1) @ cs" "list_all2 carries_out cs pas"
    "files (world st') = fold change_effect pas (files (world st1))"
    by auto
  with c show ?case by (intro exI[of _ "c # cs"]) simp
qed

section \<open>Totality\<close>

lemma verify_hunk_total: "hunk_complete h \<Longrightarrow> verify_hunk udiff po fs mode cwd h p w \<noteq> None"
proof (cases h)
  case (UpdateFile path mv chunks)
  moreover assume "hunk_complete h"
  ultimately have "list_all chunk_wf chunks" by (auto simp: list_all_iff)
  then obtain res where "derive_new_contents_from_chunks (read_file_text fs p True w) (path_native po p) chunks mode = Some res"
    using derive_new_contents_total by blast
  with UpdateFile show ?thesis by (auto simp: verify_hunk_def split: result.splits option.splits)
qed (auto simp: verify_hunk_def split: result.splits)

lemma verify_loop_total:
  "list_all hunk_complete hs \<Longrightarrow> verify_loop udiff po fs mode cwd w hs ch \<noteq> None"
proof (induction hs arbitrary: ch)
  case (Cons h hs)
  show ?case
  proof (cases "resolve_path po cwd h")
    case (Ok p)
    obtain r where "verify_hunk udiff po fs mode cwd h p w = Some r"
      using verify_hunk_total[of h] Cons(2) by fastforce
    with Ok Cons show ?thesis by (cases r) auto
  qed simp
qed simp

text \<open>Where the body of a recognised call comes from.\<close>

lemma body_cases:
  assumes "maybe_parse_apply_patch query argv conv = PatchBody args"
  obtains (direct) cmd body where "argv = [cmd, body]" "cmd \<in> set APPLY_PATCH_COMMANDS" "parse_patch body = Ok args"
  | (shell) shell script body dir source where "parse_shell_script argv conv = Some (shell, script)"
      "extract_apply_patch_from_shell query shell script = Ok (body, dir)" "parse_patch body = Ok source"
      "args = source\<lparr>workdir := dir\<rparr>"
proof -
  have "(\<exists>cmd body. argv = [cmd, body] \<and> cmd \<in> set APPLY_PATCH_COMMANDS \<and> parse_patch body = Ok args) \<or>
      parse_shell_form query argv conv = PatchBody args"
    using assms by (auto simp: maybe_parse_apply_patch_def split: list.splits if_splits result.splits)
  moreover have "\<exists>shell script body dir source. parse_shell_script argv conv = Some (shell, script) \<and>
      extract_apply_patch_from_shell query shell script = Ok (body, dir) \<and> parse_patch body = Ok source \<and>
      args = source\<lparr>workdir := dir\<rparr>" if "parse_shell_form query argv conv = PatchBody args"
    using that by (auto simp: parse_shell_form_def split: option.splits result.splits extract_heredoc_error.splits)
  ultimately show thesis using direct shell by blast
qed

lemma parsed_hunks_complete: "parse_patch body = Ok args \<Longrightarrow> list_all hunk_complete (hunks args)"
  using parse_patch_text_hunks[of body Lenient args] by (simp add: parse_patch_def)

lemma body_hunks_complete:
  "maybe_parse_apply_patch query argv conv = PatchBody args \<Longrightarrow> list_all hunk_complete (hunks args)"
  by (erule body_cases) (auto dest: parsed_hunks_complete)

section \<open>The claims\<close>

text \<open>
  A verified action is complete and unambiguous. When verification of parsed arguments succeeds, the
  hunks resolve to pairwise different paths, the action has a change for exactly these paths, and the
  change of each path is the one its hunk has on the files as they are.
\<close>

theorem verified_action_complete:
  assumes "try_verify_apply_patch_args udiff po fs args cwd mode w = Some (Ok action)"
  shows "\<exists>pas. list_all2 (\<lambda>h pa. resolve_path po (action_cwd action) h = Ok (fst pa) \<and>
        verify_hunk udiff po fs mode (action_cwd action) h (fst pa) w = Some (Ok (snd pa))) (hunks args) pas \<and>
    distinct (map fst pas) \<and> action_changes action = map_of pas"
  using verified_pairs[OF assms] unfolding verified_as_def by blast


lemma verify_add_patch:
  "try_verify_apply_patch_args udiff mem_paths mem_fs (denote_patch add_patch) (lit ''/d'') mode Map.empty =
     Some (Ok \<lparr>action_changes = [lit ''/d/a'' \<mapsto> ChangeAdd (lit ''hi'' @ [LF])], action_mode = mode,
       action_patch = patch (denote_patch add_patch), action_cwd = lit ''/d''\<rparr>)"
  by (simp add: try_verify_apply_patch_args_def effective_cwd_def denote_patch_def add_patch_def resolve_path_def
      mem_paths_def verify_hunk_def lit_def)

lemma verified_action_complete_witness:
  "\<exists>action pas. try_verify_apply_patch_args (\<lambda>a b. []) mem_paths mem_fs (denote_patch add_patch) (lit ''/d'') NormalizeToLf Map.empty =
      Some (Ok action) \<and> distinct (map fst pas) \<and> action_changes action = map_of pas \<and> length pas = 1"
proof -
  let ?v = "try_verify_apply_patch_args (\<lambda>a b. []) mem_paths mem_fs (denote_patch add_patch) (lit ''/d'') NormalizeToLf Map.empty"
  obtain action where v: "?v = Some (Ok action)" using verify_add_patch by blast
  from verified_action_complete[OF v] obtain pas where
    pas: "list_all2 (\<lambda>h pa. resolve_path mem_paths (action_cwd action) h = Ok (fst pa) \<and>
        verify_hunk (\<lambda>a b. []) mem_paths mem_fs NormalizeToLf (action_cwd action) h (fst pa) Map.empty = Some (Ok (snd pa)))
      (hunks (denote_patch add_patch)) pas" "distinct (map fst pas)" "action_changes action = map_of pas"
    by blast
  have "length pas = 1"
    using list_all2_lengthD[OF pas(1)] by (simp add: denote_patch_def add_patch_def)
  with v pas(2,3) show ?thesis by blast
qed

lemma apply_add_patch:
  "\<exists>w' d a. apply_hunks_to_files mem_paths mem_fs default_options (lit ''/d'') (hunks (denote_patch add_patch)) Map.empty empty_delta =
     Some (w', d, Ok a) \<and> exact d"
  by (simp add: apply_hunks_to_files_def denote_patch_def add_patch_def apply_hunk_def resolve_path_def mem_paths_def mem_fs_def
      add_file_hunk_def read_optional_file_text_for_delta_def note_existing_path_delta_support_def not_found_def
      write_file_with_missing_parent_retry_def empty_delta_def push_change_def)


text \<open>
  Only explicit calls become patches. When a command line is verified to an action, it is either
  \<open>apply_patch\<close> or \<open>applypatch\<close> with one argument, or a recognised shell call whose script is not itself
  a patch and in which a heredoc for one of these commands was found; the action is about that body.
\<close>

theorem only_explicit_invocations:
  assumes "maybe_parse_apply_patch_verified_with_mode query udiff po fs argv cwd conv mode w = Some (VerifiedBody action)"
  shows "\<exists>body args. parse_patch body = Ok args \<and> action_patch action = patch args \<and>
    ((\<exists>cmd \<in> set APPLY_PATCH_COMMANDS. argv = [cmd, body]) \<or>
     (\<exists>shell script dir. parse_shell_script argv conv = Some (shell, script) \<and> \<not> is_ok (parse_patch script) \<and>
        extract_apply_patch_from_shell query shell script = Ok (body, dir)))"
proof -
  obtain args where body: "maybe_parse_apply_patch query argv conv = PatchBody args"
    and "try_verify_apply_patch_args udiff po fs args cwd mode w = Some (Ok action)"
    and bare: "\<And>s t. parse_shell_script argv conv = Some (s, t) \<Longrightarrow> \<not> is_ok (parse_patch t)"
    using assms
    by (auto simp: maybe_parse_apply_patch_verified_with_mode_def verify_apply_patch_args_with_mode_def
        split: if_splits maybe_apply_patch.splits option.splits result.splits prod.splits)
  then have patch: "action_patch action = patch args"
    by (auto simp: try_verify_apply_patch_args_def split: result.splits option.splits)
  from body show ?thesis
  proof (cases rule: body_cases)
    case (direct cmd body)
    with patch show ?thesis by blast
  next
    case (shell shell script body dir source)
    with patch bare show ?thesis by (intro exI[of _ body] exI[of _ source]) auto
  qed
qed

lemma only_explicit_invocations_witness:
  "\<exists>action. maybe_parse_apply_patch_verified_with_mode (\<lambda>s. Ok []) (\<lambda>a b. []) mem_paths mem_fs
      [lit ''apply_patch'', join [LF] (print_patch add_patch)] (lit ''/d'') None NormalizeToLf Map.empty = Some (VerifiedBody action) \<and>
    (\<exists>body args. parse_patch body = Ok args \<and> action_patch action = patch args)"
proof -
  have "patch_ok add_patch" by (simp add: add_patch_def patch_ok_def name_ok_def line_ok_def str_eval)
  note parsed = parse_printed[OF this]
  have "\<exists>action. maybe_parse_apply_patch_verified_with_mode (\<lambda>s. Ok []) (\<lambda>a b. []) mem_paths mem_fs
      [lit ''apply_patch'', join [LF] (print_patch add_patch)] (lit ''/d'') None NormalizeToLf Map.empty = Some (VerifiedBody action)"
    by (simp add: maybe_parse_apply_patch_verified_with_mode_def parse_shell_script_def maybe_parse_apply_patch_def
        APPLY_PATCH_COMMANDS_def parsed verify_apply_patch_args_with_mode_def verify_add_patch)
  then obtain action where run: "maybe_parse_apply_patch_verified_with_mode (\<lambda>s. Ok []) (\<lambda>a b. []) mem_paths mem_fs
      [lit ''apply_patch'', join [LF] (print_patch add_patch)] (lit ''/d'') None NormalizeToLf Map.empty = Some (VerifiedBody action)"
    by blast
  from only_explicit_invocations[OF this] have "\<exists>body args. parse_patch body = Ok args \<and> action_patch action = patch args"
    by blast
  with run show ?thesis by blast
qed

text \<open>
  Verification returns on every command line: no argument list, script query, file system or mode
  makes it panic.
\<close>

theorem verification_no_panic:
  "maybe_parse_apply_patch_verified_with_mode query udiff po fs argv cwd conv mode w \<noteq> None"
proof (cases "maybe_parse_apply_patch query argv conv")
  case (PatchBody args)
  have "try_verify_apply_patch_args udiff po fs args cwd mode w \<noteq> None"
  proof (cases "effective_cwd po cwd (workdir args)")
    case (Ok dir)
    obtain r where "verify_loop udiff po fs mode dir w (hunks args) Map.empty = Some r"
      using verify_loop_total[OF body_hunks_complete[OF PatchBody], of udiff po fs mode dir w] by blast
    with Ok show ?thesis by (cases r) (simp_all add: try_verify_apply_patch_args_def)
  qed (simp add: try_verify_apply_patch_args_def)
  then obtain r where "try_verify_apply_patch_args udiff po fs args cwd mode w = Some r" by blast
  with PatchBody show ?thesis
    by (cases r) (simp_all add: maybe_parse_apply_patch_verified_with_mode_def verify_apply_patch_args_with_mode_def)
qed (auto simp: maybe_parse_apply_patch_verified_with_mode_def)

end
