(* ===== verification/Absolute_Path.thy ===== *)
theory Absolute_Path
  imports Prelude
begin

text \<open>
  \<open>utils/absolute-path\<close> on POSIX hosts: \<open>AbsolutePathBuf\<close>, a path made absolute and normalised without
  looking at the file system. A normalised absolute path is the list of its components; equality of
  \<open>PathBuf\<close>s compares components too. The current directory and the home directory are arguments;
  base directories are absolute, as \<open>std::env::current_dir\<close> and the callers give them.

  The lemmas give: the components of every such path are proper names, and rendering a path and
  making it absolute again gives it back.
\<close>

section \<open>The model\<close>

type_synonym absolute_path = "rstr list"

text \<open>
  One step of \<open>normalize_path\<close> over \<open>Path::components\<close>: empty and \<open>.\<close> components are skipped, \<open>..\<close>
  pops the last name and stays at the root.
\<close>

definition normalize_step :: "absolute_path \<Rightarrow> rstr \<Rightarrow> absolute_path" where
  "normalize_step acc component =
     (if component = [] \<or> component = lit ''.'' then acc
      else if component = lit ''..'' then butlast acc
      else acc @ [component])"

definition normalize_path :: "rstr \<Rightarrow> absolute_path" where
  "normalize_path path = foldl normalize_step [] (split_char 47 path)"

definition path_is_absolute :: "rstr \<Rightarrow> bool" where
  "path_is_absolute path \<longleftrightarrow> starts_with path [47]"

text \<open>\<open>Path::join\<close>.\<close>

definition join_path :: "rstr \<Rightarrow> rstr \<Rightarrow> rstr" where
  "join_path base path = (if path_is_absolute path then path else base @ 47 # path)"

definition absolutize_from :: "rstr \<Rightarrow> rstr \<Rightarrow> absolute_path" where
  "absolutize_from path base = normalize_path (join_path base path)"

definition absolutize :: "rstr option \<Rightarrow> rstr \<Rightarrow> absolute_path option" where
  "absolutize current_dir path =
     (if path_is_absolute path then Some (normalize_path path)
      else map_option (absolutize_from path) current_dir)"

definition maybe_expand_home_directory :: "rstr option \<Rightarrow> rstr \<Rightarrow> rstr" where
  "maybe_expand_home_directory home path =
     (case (strip_prefix [126] path, home) of
        (Some rest, Some h) \<Rightarrow>
          (if rest = [] then h
           else case strip_prefix [47] rest of
             Some r \<Rightarrow> join_path h (dropWhile (\<lambda>c. c = 47) r)
           | None \<Rightarrow> path)
      | _ \<Rightarrow> path)"

definition from_absolute_path :: "rstr option \<Rightarrow> rstr option \<Rightarrow> rstr \<Rightarrow> absolute_path option" where
  "from_absolute_path current_dir home path = absolutize current_dir (maybe_expand_home_directory home path)"

definition from_absolute_path_checked :: "rstr option \<Rightarrow> rstr \<Rightarrow> (absolute_path, rstr) result" where
  "from_absolute_path_checked home path =
     (let expanded = maybe_expand_home_directory home path in
      if \<not> path_is_absolute expanded then Err (lit ''path is not absolute: '' @ path)
      else Ok (absolutize_from expanded (lit ''/'')))"

definition resolve_path_against_base :: "rstr option \<Rightarrow> rstr \<Rightarrow> rstr \<Rightarrow> absolute_path" where
  "resolve_path_against_base home path base = absolutize_from (maybe_expand_home_directory home path) base"

definition render_path :: "absolute_path \<Rightarrow> rstr" where
  "render_path p = 47 # join [47] p"

text \<open>\<open>Path::file_name\<close> of a normalised path.\<close>

definition file_name :: "absolute_path \<Rightarrow> rstr option" where
  "file_name p = last_opt p"

section \<open>Paths as written\<close>

text \<open>
  \<open>Path::components\<close>: repeated separators and \<open>.\<close> vanish, except for a leading \<open>.\<close>. \<open>Path::file_name\<close> is
  the last component if it is a name.
\<close>

datatype path_component = RootDir | CurDir | ParentDir | Normal rstr

fun named_components :: "rstr list \<Rightarrow> path_component list" where
  "named_components [] = []"
| "named_components (c # cs) =
     (if c = [] \<or> c = lit ''.'' then named_components cs
      else (if c = lit ''..'' then ParentDir else Normal c) # named_components cs)"

definition path_components :: "rstr \<Rightarrow> path_component list" where
  "path_components path =
     (let pieces = split_char 47 path in
      (if path_is_absolute path then [RootDir] else if hd pieces = lit ''.'' then [CurDir] else [])
      @ named_components pieces)"

definition path_file_name :: "rstr \<Rightarrow> rstr option" where
  "path_file_name path = (case last_opt (path_components path) of Some (Normal c) \<Rightarrow> Some c | _ \<Rightarrow> None)"

text \<open>
  \<open>Path::parent\<close> as components, and \<open>Path::file_stem\<close>: the file name up to its last dot, unless that is its
  first character. Paths are equal when their components are.
\<close>

definition path_parent_components :: "rstr \<Rightarrow> path_component list option" where
  "path_parent_components path =
     (case last_opt (path_components path) of
        None \<Rightarrow> None
      | Some RootDir \<Rightarrow> None
      | Some _ \<Rightarrow> Some (butlast (path_components path)))"

definition path_file_stem :: "rstr \<Rightarrow> rstr option" where
  "path_file_stem path =
     map_option (\<lambda>file. case rsplit_once 46 file of
        None \<Rightarrow> file
      | Some (before, _) \<Rightarrow> (if before = [] then file else before)) (path_file_name path)"

section \<open>Normal components\<close>

definition proper_component :: "rstr \<Rightarrow> bool" where
  "proper_component c \<longleftrightarrow> c \<noteq> [] \<and> c \<noteq> lit ''.'' \<and> c \<noteq> lit ''..'' \<and> 47 \<notin> set c"

definition normal_path :: "absolute_path \<Rightarrow> bool" where
  "normal_path p \<longleftrightarrow> list_all proper_component p"

lemma normalize_step_normal:
  "normal_path acc \<Longrightarrow> 47 \<notin> set c \<Longrightarrow> normal_path (normalize_step acc c)"
  by (auto simp: normalize_step_def normal_path_def proper_component_def list_all_iff dest: in_set_butlastD)

lemma normalize_steps_normal:
  "normal_path acc \<Longrightarrow> \<forall>c \<in> set cs. 47 \<notin> set c \<Longrightarrow> normal_path (foldl normalize_step acc cs)"
  by (induction cs arbitrary: acc) (auto intro: normalize_step_normal)

lemma normalize_path_normal: "normal_path (normalize_path s)"
  unfolding normalize_path_def
  by (rule normalize_steps_normal) (auto simp: normal_path_def split_char_pieces_no_sep)

lemma absolutize_normal: "absolutize cwd path = Some p \<Longrightarrow> normal_path p"
  by (auto simp: absolutize_def absolutize_from_def normalize_path_normal split: if_splits)

lemma normalize_steps_proper:
  "list_all proper_component cs \<Longrightarrow> foldl normalize_step acc cs = acc @ cs"
  by (induction cs arbitrary: acc) (auto simp: normalize_step_def proper_component_def)

lemma normalize_render:
  assumes "normal_path p"
  shows "normalize_path (render_path p) = p"
proof (cases p)
  case Nil
  then show ?thesis by (simp add: normalize_path_def render_path_def normalize_step_def)
next
  case (Cons c cs)
  have "\<forall>x \<in> set p. 47 \<notin> set x"
    using assms by (auto simp: normal_path_def proper_component_def list_all_iff)
  then have "split_char 47 (join [47] p) = p"
    using Cons by (intro split_char_join) auto
  then have "split_char 47 (render_path p) = [] # p"
    by (simp add: render_path_def)
  with assms show ?thesis
    by (simp add: normalize_path_def normalize_step_def normalize_steps_proper normal_path_def)
qed

text \<open>
  Absolute paths are normal and stable. Whatever path an \<open>AbsolutePathBuf\<close> is made of, absolute,
  relative or under the home directory, its components are proper names (not empty, not \<open>.\<close>, not \<open>..\<close>,
  without a slash), and making its rendering absolute again gives the same path, whatever the current
  and home directories are then.
\<close>

theorem from_absolute_path_stable:
  assumes "from_absolute_path cwd home path = Some p"
  shows "list_all proper_component p \<and> from_absolute_path cwd' home' (render_path p) = Some p"
proof -
  have p: "normal_path p"
    using assms absolutize_normal by (auto simp: from_absolute_path_def)
  have "maybe_expand_home_directory home' (render_path p) = render_path p"
    by (simp add: maybe_expand_home_directory_def render_path_def)
  moreover have "path_is_absolute (render_path p)"
    by (simp add: path_is_absolute_def starts_with_def render_path_def)
  ultimately show ?thesis
    using p normalize_render[OF p] by (simp add: from_absolute_path_def absolutize_def normal_path_def)
qed

lemma from_absolute_path_stable_witness:
  "from_absolute_path (Some (lit ''/repo/x'')) None (lit ''.././git'') = Some [lit ''repo'', lit ''git''] \<and>
   from_absolute_path None None (render_path [lit ''repo'', lit ''git'']) = Some [lit ''repo'', lit ''git'']"
proof -
  have "from_absolute_path (Some (lit ''/repo/x'')) None (lit ''.././git'') = Some [lit ''repo'', lit ''git'']"
    by (simp add: from_absolute_path_def absolutize_def path_is_absolute_def starts_with_def absolutize_from_def
        maybe_expand_home_directory_def join_path_def normalize_path_def normalize_step_def lit_def)
  with from_absolute_path_stable[OF this, of None None] show ?thesis by blast
qed

end
