(* ===== verification/Exec_Policy.thy ===== *)
theory Exec_Policy
  imports Absolute_Path "HOL-Library.List_Lexorder"
begin

text \<open>
  \<open>execpolicy\<close>: the rules that decide whether a command may run (\<open>decision.rs\<close>, \<open>rule.rs\<close>,
  \<open>policy.rs\<close>, \<open>executable_name.rs\<close> on POSIX hosts).

  \<^item> A rule is a \<open>PrefixRule\<close>, the only implementation of the trait \<open>Rule\<close>.
  \<^item> The rules are indexed by program in a \<open>MultiMap\<close>. Its documented behaviour is the locale
    \<open>multimap\<close>; the model uses an association list in the order in which the map is iterated.
    \<open>HashMap\<close>s that are only looked up and extended are maps.
  \<^item> The working directory and the home directory, which \<open>AbsolutePathBuf::try_from\<close> reads, are the
    record \<open>host_env\<close>; the heuristics the caller supplies are a function argument.
  \<^item> A panic is \<open>None\<close>.
\<close>

section \<open>Decisions and errors\<close>

datatype decision = Allow | Prompt | Forbidden

text \<open>The derived \<open>Ord\<close>: the order of the constructors.\<close>

fun severity :: "decision \<Rightarrow> nat" where
  "severity Allow = 0"
| "severity Prompt = 1"
| "severity Forbidden = 2"

lemma severity_inject [simp]: "severity a = severity b \<longleftrightarrow> a = b"
  by (cases a; cases b) auto

instantiation decision :: linorder
begin

definition less_eq_decision :: "decision \<Rightarrow> decision \<Rightarrow> bool" where
  "less_eq_decision a b \<longleftrightarrow> severity a \<le> severity b"

definition less_decision :: "decision \<Rightarrow> decision \<Rightarrow> bool" where
  "less_decision a b \<longleftrightarrow> severity a < severity b"

instance
  by standard (auto simp: less_eq_decision_def less_decision_def)

end

lemma decision_le_simps [simp]:
  "Allow \<le> d" "d \<le> Forbidden" "Forbidden \<le> d \<longleftrightarrow> d = Forbidden"
  by (cases d; simp add: less_eq_decision_def)+

record text_position =
  line :: nat
  column :: nat

record text_range =
  start :: text_position
  end_pos :: text_position

record error_location =
  loc_path :: rstr
  loc_range :: text_range

text \<open>\<open>Error\<close>; the type of Starlark's own errors is the parameter \<open>'s\<close>.\<close>

datatype 's policy_error =
    InvalidDecision rstr
  | InvalidPattern rstr
  | InvalidExample rstr
  | InvalidRule rstr
  | ExampleDidNotMatch "rstr list" "rstr list" "error_location option"
  | ExampleDidMatch rstr rstr "error_location option"
  | Starlark 's

definition parse_decision :: "rstr \<Rightarrow> (decision, 's policy_error) result" where
  "parse_decision raw =
     (if raw = lit ''allow'' then Ok Allow
      else if raw = lit ''prompt'' then Ok Prompt
      else if raw = lit ''forbidden'' then Ok Forbidden
      else Err (InvalidDecision raw))"

section \<open>Prefix rules\<close>

datatype pattern_token = Single rstr | Alts "rstr list"

fun token_matches :: "pattern_token \<Rightarrow> rstr \<Rightarrow> bool" where
  "token_matches (Single expected) tok = (expected = tok)"
| "token_matches (Alts alts) tok = list_ex (\<lambda>alt. alt = tok) alts"

fun alternatives :: "pattern_token \<Rightarrow> rstr list" where
  "alternatives (Single expected) = [expected]"
| "alternatives (Alts alts) = alts"

record prefix_pattern =
  first :: rstr
  rest :: "pattern_token list"

definition matches_prefix :: "prefix_pattern \<Rightarrow> rstr list \<Rightarrow> rstr list option" where
  "matches_prefix pat cmd =
     (let pattern_length = length (rest pat) + 1 in
      if length cmd < pattern_length \<or> cmd ! 0 \<noteq> first pat then None
      else if list_all (\<lambda>(p, c). token_matches p c) (zip (rest pat) (drop 1 (take pattern_length cmd)))
      then Some (take pattern_length cmd) else None)"

datatype rule_match =
    PrefixRuleMatch (matched_prefix: "rstr list") (match_decision: decision)
      (resolved_program: "absolute_path option") (match_justification: "rstr option")
  | HeuristicsRuleMatch (command: "rstr list") (match_decision: decision)

fun with_resolved_program :: "absolute_path \<Rightarrow> rule_match \<Rightarrow> rule_match" where
  "with_resolved_program program (PrefixRuleMatch p d _ j) = PrefixRuleMatch p d (Some program) j"
| "with_resolved_program program (HeuristicsRuleMatch c d) = HeuristicsRuleMatch c d"

record prefix_rule =
  pattern :: prefix_pattern
  rule_decision :: decision
  justification :: "rstr option"

definition rule_program :: "prefix_rule \<Rightarrow> rstr" where
  "rule_program r = first (pattern r)"

definition rule_matches :: "prefix_rule \<Rightarrow> rstr list \<Rightarrow> rule_match option" where
  "rule_matches r cmd =
     map_option (\<lambda>p. PrefixRuleMatch p (rule_decision r) None (justification r))
       (matches_prefix (pattern r) cmd)"

section \<open>Network rules\<close>

datatype network_rule_protocol = Http | Https | Socks5Tcp | Socks5Udp

definition parse_protocol :: "rstr \<Rightarrow> (network_rule_protocol, 's policy_error) result" where
  "parse_protocol raw =
     (if raw = lit ''http'' then Ok Http
      else if raw = lit ''https'' \<or> raw = lit ''https_connect'' \<or> raw = lit ''http-connect'' then Ok Https
      else if raw = lit ''socks5_tcp'' then Ok Socks5Tcp
      else if raw = lit ''socks5_udp'' then Ok Socks5Udp
      else Err (InvalidRule
        (lit ''network_rule protocol must be one of http, https, socks5_tcp, socks5_udp (got '' @ raw @ lit '')'')))"

fun as_policy_string :: "network_rule_protocol \<Rightarrow> rstr" where
  "as_policy_string Http = lit ''http''"
| "as_policy_string Https = lit ''https''"
| "as_policy_string Socks5Tcp = lit ''socks5_tcp''"
| "as_policy_string Socks5Udp = lit ''socks5_udp''"

record network_rule =
  host :: rstr
  protocol :: network_rule_protocol
  net_decision :: decision
  net_justification :: "rstr option"

text \<open>A port after the colon: digits, at least one.\<close>

definition port_digits :: "rstr \<Rightarrow> bool" where
  "port_digits port \<longleftrightarrow> port \<noteq> [] \<and> list_all is_ascii_digit port"

definition bracketed_host :: "rstr \<Rightarrow> rstr \<Rightarrow> (rstr, 's policy_error) result" where
  "bracketed_host raw stripped =
     (case split_once 93 stripped of
        None \<Rightarrow> Err (InvalidRule (lit ''network_rule host has an invalid bracketed IPv6 literal''))
      | Some (inside, tail) \<Rightarrow>
          (let port_ok = (case strip_prefix [58] tail of None \<Rightarrow> False | Some port \<Rightarrow> port_digits port) in
           if tail \<noteq> [] \<and> \<not> port_ok
           then Err (InvalidRule (lit ''network_rule host contains an unsupported suffix: '' @ raw))
           else Ok inside))"

definition strip_port :: "rstr \<Rightarrow> rstr" where
  "strip_port h =
     (if count_list h 58 = 1 then
        (case rsplit_once 58 h of
           Some (candidate, port) \<Rightarrow> (if candidate \<noteq> [] \<and> port_digits port then candidate else h)
         | None \<Rightarrow> h)
      else h)"

definition finish_host :: "rstr \<Rightarrow> (rstr, 's policy_error) result" where
  "finish_host h =
     (let normalized = to_ascii_lowercase (trim (trim_end_matches (\<lambda>c. c = 46) h)) in
      if normalized = [] then Err (InvalidRule (lit ''network_rule host cannot be empty''))
      else if 42 \<in> set normalized
      then Err (InvalidRule (lit ''network_rule host must be a specific host; wildcards are not allowed''))
      else if list_ex is_whitespace normalized
      then Err (InvalidRule (lit ''network_rule host cannot contain whitespace''))
      else Ok normalized)"

definition normalize_network_rule_host :: "rstr \<Rightarrow> (rstr, 's policy_error) result" where
  "normalize_network_rule_host raw =
     (let h = trim raw in
      if h = [] then Err (InvalidRule (lit ''network_rule host cannot be empty''))
      else if sublist (lit ''://'') h \<or> 47 \<in> set h \<or> 63 \<in> set h \<or> 35 \<in> set h
      then Err (InvalidRule
        (lit ''network_rule host must be a hostname or IP literal (without scheme or path)''))
      else case strip_prefix [91] h of
        Some stripped \<Rightarrow> bind_result (bracketed_host raw stripped) finish_host
      | None \<Rightarrow> finish_host (strip_port h))"

section \<open>Multimaps\<close>

text \<open>\<open>MultiMap\<close>: every key has a vector of values, to which \<open>insert\<close> appends.\<close>

type_synonym ('k, 'v) multi_map = "('k \<times> 'v list) list"

fun multi_insert :: "'k \<Rightarrow> 'v \<Rightarrow> ('k, 'v) multi_map \<Rightarrow> ('k, 'v) multi_map" where
  "multi_insert k v [] = [(k, [v])]"
| "multi_insert k v ((k', vs) # m) =
     (if k = k' then (k', vs @ [v]) # m else (k', vs) # multi_insert k v m)"

abbreviation get_vec :: "('k, 'v) multi_map \<Rightarrow> 'k \<Rightarrow> 'v list option" where
  "get_vec \<equiv> map_of"

definition multi_insert_all :: "('k, 'v) multi_map \<Rightarrow> ('k, 'v) multi_map \<Rightarrow> ('k, 'v) multi_map" where
  "multi_insert_all m other =
     foldl (\<lambda>acc (k, vs). foldl (\<lambda>acc v. multi_insert k v acc) acc vs) m other"

section \<open>The policy\<close>

record policy =
  rules_by_program :: "(rstr, prefix_rule) multi_map"
  network_rules :: "network_rule list"
  host_executables_by_name :: "rstr \<rightharpoonup> absolute_path list"

record host_env =
  current_dir :: "rstr option"
  home_dir :: "rstr option"

definition policy_from_parts ::
  "(rstr, prefix_rule) multi_map \<Rightarrow> network_rule list \<Rightarrow> (rstr \<rightharpoonup> absolute_path list) \<Rightarrow> policy"
where
  "policy_from_parts rules nets hosts =
     \<lparr>rules_by_program = rules, network_rules = nets, host_executables_by_name = hosts\<rparr>"

definition policy_new :: "(rstr, prefix_rule) multi_map \<Rightarrow> policy" where
  "policy_new rules = policy_from_parts rules [] (\<lambda>_. None)"

definition policy_empty :: policy where
  "policy_empty = policy_new []"

text \<open>
  \<open>RequirementsExecPolicy\<close> compares policies by the sorted renderings of their rules; the derived
  \<open>Debug\<close> rendering of a rule is the argument \<open>debug\<close>.
\<close>

definition fingerprint :: "(prefix_rule \<Rightarrow> rstr) \<Rightarrow> policy \<Rightarrow> rstr list" where
  "fingerprint debug p =
     sort (concat (map (\<lambda>(program, rules). map (\<lambda>r. program @ lit '':'' @ debug r) rules) (rules_by_program p)))"

definition requirements_eq :: "(prefix_rule \<Rightarrow> rstr) \<Rightarrow> policy \<Rightarrow> policy \<Rightarrow> bool" where
  "requirements_eq debug p q \<longleftrightarrow> fingerprint debug p = fingerprint debug q"

fun render_pattern_token :: "pattern_token \<Rightarrow> rstr" where
  "render_pattern_token (Single value) = value"
| "render_pattern_token (Alts alts) = lit ''['' @ join (lit ''|'') alts @ lit '']''"

definition get_allowed_prefixes :: "policy \<Rightarrow> rstr list list" where
  "get_allowed_prefixes p =
     remdups_adj (sort (concat (map (\<lambda>(program, rules).
       map (\<lambda>r. first (pattern r) # map render_pattern_token (rest (pattern r)))
         (filter (\<lambda>r. rule_decision r = Allow) rules)) (rules_by_program p))))"

definition add_prefix_rule :: "rstr list \<Rightarrow> decision \<Rightarrow> policy \<Rightarrow> (policy, 's policy_error) result" where
  "add_prefix_rule pre d p =
     (case pre of
        [] \<Rightarrow> Err (InvalidPattern (lit ''prefix cannot be empty''))
      | first_token # others \<Rightarrow>
          (let r = \<lparr>pattern = \<lparr>first = first_token, rest = map Single others\<rparr>,
                    rule_decision = d, justification = None\<rparr> in
           Ok (p\<lparr>rules_by_program := multi_insert first_token r (rules_by_program p)\<rparr>)))"

definition blank_justification :: "rstr option \<Rightarrow> bool" where
  "blank_justification j \<longleftrightarrow> (case j of None \<Rightarrow> False | Some raw \<Rightarrow> trim raw = [])"

definition add_network_rule ::
  "rstr \<Rightarrow> network_rule_protocol \<Rightarrow> decision \<Rightarrow> rstr option \<Rightarrow> policy \<Rightarrow> (policy, 's policy_error) result"
where
  "add_network_rule raw proto d j p =
     bind_result (normalize_network_rule_host raw) (\<lambda>h.
       if blank_justification j then Err (InvalidRule (lit ''justification cannot be empty''))
       else Ok (p\<lparr>network_rules := network_rules p @
              [\<lparr>host = h, protocol = proto, net_decision = d, net_justification = j\<rparr>]\<rparr>))"

definition set_host_executable_paths :: "rstr \<Rightarrow> absolute_path list \<Rightarrow> policy \<Rightarrow> policy" where
  "set_host_executable_paths name paths p =
     p\<lparr>host_executables_by_name := (host_executables_by_name p)(name \<mapsto> paths)\<rparr>"

definition merge_overlay :: "policy \<Rightarrow> policy \<Rightarrow> policy" where
  "merge_overlay p overlay =
     policy_from_parts (multi_insert_all (rules_by_program p) (rules_by_program overlay))
       (network_rules p @ network_rules overlay)
       (host_executables_by_name p ++ host_executables_by_name overlay)"

definition upsert_domain :: "rstr list \<Rightarrow> rstr \<Rightarrow> rstr list" where
  "upsert_domain entries h = filter (\<lambda>e. e \<noteq> h) entries @ [h]"

definition compile_network_rule :: "rstr list \<times> rstr list \<Rightarrow> network_rule \<Rightarrow> rstr list \<times> rstr list" where
  "compile_network_rule = (\<lambda>(allowed, denied) rule.
     case net_decision rule of
       Allow \<Rightarrow> (upsert_domain allowed (host rule), filter (\<lambda>e. e \<noteq> host rule) denied)
     | Forbidden \<Rightarrow> (filter (\<lambda>e. e \<noteq> host rule) allowed, upsert_domain denied (host rule))
     | Prompt \<Rightarrow> (allowed, denied))"

definition compiled_network_domains :: "policy \<Rightarrow> rstr list \<times> rstr list" where
  "compiled_network_domains p = foldl compile_network_rule ([], []) (network_rules p)"

section \<open>Matching\<close>

definition executable_lookup_key :: "rstr \<Rightarrow> rstr" where
  "executable_lookup_key raw = raw"

definition executable_path_lookup_key :: "absolute_path \<Rightarrow> rstr option" where
  "executable_path_lookup_key path = map_option executable_lookup_key (file_name path)"

definition match_exact_rules :: "policy \<Rightarrow> rstr list \<Rightarrow> rule_match list option" where
  "match_exact_rules p cmd =
     (case cmd of
        [] \<Rightarrow> None
      | prog # _ \<Rightarrow>
          Some (case get_vec (rules_by_program p) prog of
                  Some rules \<Rightarrow> List.map_filter (\<lambda>r. rule_matches r cmd) rules
                | None \<Rightarrow> []))"

definition match_host_executable_rules :: "host_env \<Rightarrow> policy \<Rightarrow> rstr list \<Rightarrow> rule_match list" where
  "match_host_executable_rules env p cmd =
     (case cmd of
        [] \<Rightarrow> []
      | prog # args \<Rightarrow>
        (case from_absolute_path (current_dir env) (home_dir env) prog of
           None \<Rightarrow> []
         | Some program \<Rightarrow>
        (case executable_path_lookup_key program of
           None \<Rightarrow> []
         | Some basename \<Rightarrow>
        (case get_vec (rules_by_program p) basename of
           None \<Rightarrow> []
         | Some rules \<Rightarrow>
        (if case host_executables_by_name p basename of
              None \<Rightarrow> False
            | Some paths \<Rightarrow> \<not> list_ex (\<lambda>path. path = program) paths
         then []
         else map (with_resolved_program program)
                (List.map_filter (\<lambda>r. rule_matches r (basename # args)) rules))))))"

text \<open>The option \<open>resolve_host_executables\<close> of \<open>MatchOptions\<close> is the argument \<open>resolve\<close>.\<close>

definition matched_rules_of :: "host_env \<Rightarrow> policy \<Rightarrow> bool \<Rightarrow> rstr list \<Rightarrow> rule_match list" where
  "matched_rules_of env p resolve cmd =
     (case match_exact_rules p cmd of
        Some (m # ms) \<Rightarrow> m # ms
      | _ \<Rightarrow> (if resolve then match_host_executable_rules env p cmd else []))"

definition matches_for_command_with_options ::
  "host_env \<Rightarrow> policy \<Rightarrow> rstr list \<Rightarrow> (rstr list \<Rightarrow> decision) option \<Rightarrow> bool \<Rightarrow> rule_match list"
where
  "matches_for_command_with_options env p cmd fallback resolve =
     (let matched = matched_rules_of env p resolve cmd in
      case fallback of
        Some heuristics \<Rightarrow>
          (if matched = [] then [HeuristicsRuleMatch cmd (heuristics cmd)] else matched)
      | None \<Rightarrow> matched)"

definition matches_for_command ::
  "host_env \<Rightarrow> policy \<Rightarrow> rstr list \<Rightarrow> (rstr list \<Rightarrow> decision) option \<Rightarrow> rule_match list"
where
  "matches_for_command env p cmd fallback = matches_for_command_with_options env p cmd fallback False"

record evaluation =
  eval_decision :: decision
  matched_rules :: "rule_match list"

fun is_prefix_match :: "rule_match \<Rightarrow> bool" where
  "is_prefix_match (PrefixRuleMatch _ _ _ _) = True"
| "is_prefix_match (HeuristicsRuleMatch _ _) = False"

definition is_match :: "evaluation \<Rightarrow> bool" where
  "is_match ev \<longleftrightarrow> list_ex is_prefix_match (matched_rules ev)"

text \<open>The \<open>expect\<close> on the maximum of no decisions panics.\<close>

definition from_matches :: "rule_match list \<Rightarrow> evaluation option" where
  "from_matches ms =
     (case map match_decision ms of
        [] \<Rightarrow> None
      | d # ds \<Rightarrow> Some \<lparr>eval_decision = fold max ds d, matched_rules = ms\<rparr>)"

definition check_with_options ::
  "host_env \<Rightarrow> policy \<Rightarrow> rstr list \<Rightarrow> (rstr list \<Rightarrow> decision) \<Rightarrow> bool \<Rightarrow> evaluation option"
where
  "check_with_options env p cmd heuristics resolve =
     from_matches (matches_for_command_with_options env p cmd (Some heuristics) resolve)"

definition check :: "host_env \<Rightarrow> policy \<Rightarrow> rstr list \<Rightarrow> (rstr list \<Rightarrow> decision) \<Rightarrow> evaluation option" where
  "check env p cmd heuristics = from_matches (matches_for_command_with_options env p cmd (Some heuristics) False)"

definition check_multiple_with_options ::
  "host_env \<Rightarrow> policy \<Rightarrow> rstr list list \<Rightarrow> (rstr list \<Rightarrow> decision) \<Rightarrow> bool \<Rightarrow> evaluation option"
where
  "check_multiple_with_options env p cmds heuristics resolve =
     from_matches (concat (map (\<lambda>cmd. matches_for_command_with_options env p cmd (Some heuristics) resolve) cmds))"

definition check_multiple ::
  "host_env \<Rightarrow> policy \<Rightarrow> rstr list list \<Rightarrow> (rstr list \<Rightarrow> decision) \<Rightarrow> evaluation option"
where
  "check_multiple env p cmds heuristics = check_multiple_with_options env p cmds heuristics False"

section \<open>Specification vocabulary\<close>

definition or_default :: "'a list option \<Rightarrow> 'a list" where
  "or_default r = (case r of None \<Rightarrow> [] | Some xs \<Rightarrow> xs)"

definition all_rules :: "policy \<Rightarrow> prefix_rule list" where
  "all_rules p = concat (map snd (rules_by_program p))"

text \<open>Every rule is stored under its own program, and every program has one entry.\<close>

definition index_ok :: "(rstr, prefix_rule) multi_map \<Rightarrow> bool" where
  "index_ok m \<longleftrightarrow> distinct (map fst m) \<and> (\<forall>(k, rs) \<in> set m. \<forall>r \<in> set rs. rule_program r = k)"

text \<open>The policies that the operations of \<open>Policy\<close> build from the empty one.\<close>

inductive built_policy :: "policy \<Rightarrow> bool" where
  empty: "built_policy policy_empty"
| add_prefix: "built_policy p \<Longrightarrow> add_prefix_rule pre d p = (Ok q :: (policy, unit policy_error) result) \<Longrightarrow> built_policy q"
| add_network: "built_policy p \<Longrightarrow> add_network_rule raw proto d j p = (Ok q :: (policy, unit policy_error) result) \<Longrightarrow> built_policy q"
| set_host: "built_policy p \<Longrightarrow> built_policy (set_host_executable_paths name paths p)"
| merge: "built_policy p \<Longrightarrow> built_policy q \<Longrightarrow> built_policy (merge_overlay p q)"

inductive_cases built_policy_cases: "built_policy p"

text \<open>The last network rule about a host that is not a prompt.\<close>

definition last_verdict :: "network_rule list \<Rightarrow> rstr \<Rightarrow> decision option" where
  "last_verdict rules h =
     map_option net_decision (last_opt (filter (\<lambda>r. host r = h \<and> net_decision r \<noteq> Prompt) rules))"

section \<open>The multimap interface\<close>

text \<open>What the \<open>multimap\<close> crate documents of the operations the policy calls.\<close>

locale multimap =
  fixes invar :: "'m \<Rightarrow> bool"
    and empty :: 'm
    and insert :: "'k \<Rightarrow> 'v \<Rightarrow> 'm \<Rightarrow> 'm"
    and get :: "'m \<Rightarrow> 'k \<Rightarrow> 'v list option"
    and iter_all :: "'m \<Rightarrow> ('k \<times> 'v list) list"
  assumes invar_empty: "invar empty"
    and invar_insert: "invar m \<Longrightarrow> invar (insert k v m)"
    and get_empty: "get empty k = None"
    and get_insert: "invar m \<Longrightarrow>
      get (insert k v m) k' = (if k' = k then Some (or_default (get m k) @ [v]) else get m k')"
    and iter_distinct: "invar m \<Longrightarrow> distinct (map fst (iter_all m))"
    and iter_get: "invar m \<Longrightarrow> map_of (iter_all m) k = get m k"
begin

lemma insert_vec:
  "invar m \<Longrightarrow> invar (foldl (\<lambda>acc v. insert k v acc) m vs) \<and>
     or_default (get (foldl (\<lambda>acc v. insert k v acc) m vs) k') =
     or_default (get m k') @ (if k' = k then vs else [])"
  by (induction vs arbitrary: m) (auto simp: invar_insert get_insert or_default_def)

lemma insert_entries:
  "invar m \<Longrightarrow> distinct (map fst es) \<Longrightarrow>
     invar (foldl (\<lambda>acc (k, vs). foldl (\<lambda>acc v. insert k v acc) acc vs) m es) \<and>
     or_default (get (foldl (\<lambda>acc (k, vs). foldl (\<lambda>acc v. insert k v acc) acc vs) m es) k') =
     or_default (get m k') @ or_default (map_of es k')"
proof (induction es arbitrary: m)
  case Nil
  then show ?case by (simp add: or_default_def)
next
  case (Cons e es)
  obtain k vs where e: "e = (k, vs)" by force
  let ?m = "foldl (\<lambda>acc v. insert k v acc) m vs"
  have m: "invar ?m" "or_default (get ?m k') = or_default (get m k') @ (if k' = k then vs else [])"
    using insert_vec[of m k vs k'] Cons.prems(1) by auto
  have "map_of es k = None"
    using Cons.prems(2) e by (simp add: map_of_eq_None_iff)
  then show ?case
    using Cons.IH[OF m(1)] Cons.prems(2) m(2) by (auto simp: e or_default_def)
qed

lemma insert_all:
  assumes "invar m" and "invar n"
  shows "invar (foldl (\<lambda>acc (k, vs). foldl (\<lambda>acc v. insert k v acc) acc vs) m (iter_all n))"
    and "or_default (get (foldl (\<lambda>acc (k, vs). foldl (\<lambda>acc v. insert k v acc) acc vs) m (iter_all n)) k) =
         or_default (get m k) @ or_default (get n k)"
  using insert_entries[OF assms(1) iter_distinct[OF assms(2)]] iter_get[OF assms(2)] by auto

end

lemma multi_insert_keys:
  "fst ` set (multi_insert k v m) = Set.insert k (fst ` set m)"
  by (induction k v m rule: multi_insert.induct) auto

lemma multi_insert_distinct: "distinct (map fst m) \<Longrightarrow> distinct (map fst (multi_insert k v m))"
  by (induction k v m rule: multi_insert.induct) (auto simp: multi_insert_keys)

lemma get_multi_insert:
  "map_of (multi_insert k v m) k' = (if k' = k then Some (or_default (map_of m k) @ [v]) else map_of m k')"
  by (induction k v m rule: multi_insert.induct) (auto simp: or_default_def)

interpretation rules: multimap "\<lambda>m. distinct (map fst m)" "[]" multi_insert map_of "\<lambda>m. m"
  by unfold_locales (auto simp: multi_insert_distinct get_multi_insert)

section \<open>The index\<close>

lemma multi_insert_entries:
  "(k', rs) \<in> set (multi_insert k v m) \<Longrightarrow> r \<in> set rs \<Longrightarrow>
     (k' = k \<and> r = v) \<or> (\<exists>rs'. (k', rs') \<in> set m \<and> r \<in> set rs')"
  by (induction k v m rule: multi_insert.induct) (auto split: if_splits)

lemma index_ok_insert: "index_ok m \<Longrightarrow> rule_program r = k \<Longrightarrow> index_ok (multi_insert k r m)"
  unfolding index_ok_def by (fastforce simp: multi_insert_distinct dest: multi_insert_entries)

lemma index_ok_insert_vec:
  "index_ok m \<Longrightarrow> \<forall>r \<in> set rs. rule_program r = k \<Longrightarrow>
     index_ok (foldl (\<lambda>acc v. multi_insert k v acc) m rs)"
  by (induction rs arbitrary: m) (auto intro: index_ok_insert)

lemma index_ok_merge: "index_ok m \<Longrightarrow> index_ok n \<Longrightarrow> index_ok (multi_insert_all m n)"
proof -
  assume m: "index_ok m" and n: "index_ok n"
  have step: "index_ok (foldl (\<lambda>acc (k, vs). foldl (\<lambda>acc v. multi_insert k v acc) acc vs) m es)"
    if "\<forall>(k, rs) \<in> set es. \<forall>r \<in> set rs. rule_program r = k" for es
    using m that
  proof (induction es arbitrary: m)
    case (Cons e es)
    obtain k rs where e: "e = (k, rs)" by force
    have "index_ok (foldl (\<lambda>acc v. multi_insert k v acc) m rs)"
      using Cons.prems e by (auto intro: index_ok_insert_vec)
    from Cons.IH[OF this] Cons.prems(2) show ?case by (simp add: e)
  qed simp
  have "\<forall>(k, rs) \<in> set n. \<forall>r \<in> set rs. rule_program r = k"
    using n by (simp add: index_ok_def)
  from step[OF this] show ?thesis by (simp add: multi_insert_all_def)
qed

lemma built_policy_index_ok: "built_policy p \<Longrightarrow> index_ok (rules_by_program p)"
  by (induction rule: built_policy.induct)
    (auto simp: policy_empty_def policy_new_def policy_from_parts_def add_prefix_rule_def
      add_network_rule_def set_host_executable_paths_def merge_overlay_def rule_program_def
      split: list.splits if_splits intro!: index_ok_insert index_ok_merge simp: index_ok_def[of "[]"])

section \<open>Rules and patterns\<close>

lemma token_matches_iff: "token_matches p t \<longleftrightarrow> t \<in> set (alternatives p)"
  by (cases p) (auto simp: list_ex_iff)

lemma matches_prefix_Some_iff:
  "matches_prefix pat cmd = Some m \<longleftrightarrow>
     (\<exists>args extra. cmd = first pat # args @ extra \<and> m = first pat # args \<and>
        list_all2 (\<lambda>p a. a \<in> set (alternatives p)) (rest pat) args)"
proof
  assume h: "matches_prefix pat cmd = Some m"
  then obtain c cs where c: "cmd = c # cs" "c = first pat" "length (rest pat) \<le> length cs"
    by (cases cmd) (auto simp: matches_prefix_def Let_def split: if_splits)
  let ?n = "length (rest pat)"
  have "list_all2 token_matches (rest pat) (take ?n cs)" "m = c # take ?n cs"
    using h c by (auto simp: matches_prefix_def list_all2_iff list_all_iff split: if_splits)
  then show "\<exists>args extra. cmd = first pat # args @ extra \<and> m = first pat # args \<and>
      list_all2 (\<lambda>p a. a \<in> set (alternatives p)) (rest pat) args"
    using c by (intro exI[of _ "take ?n cs"] exI[of _ "drop ?n cs"]) (auto simp: token_matches_iff[abs_def])
next
  assume "\<exists>args extra. cmd = first pat # args @ extra \<and> m = first pat # args \<and>
      list_all2 (\<lambda>p a. a \<in> set (alternatives p)) (rest pat) args"
  then obtain args extra where a: "cmd = first pat # args @ extra" "m = first pat # args"
      "list_all2 (\<lambda>p a. a \<in> set (alternatives p)) (rest pat) args" by blast
  then have "length (rest pat) = length args" by (simp add: list_all2_lengthD)
  with a show "matches_prefix pat cmd = Some m"
    by (auto simp: matches_prefix_def list_all2_iff list_all_iff token_matches_iff)
qed

text \<open>A rule matches exactly the commands that begin with one reading of its pattern, and reports that prefix.\<close>

lemma rule_matches_Some_iff:
  "rule_matches r cmd = Some m \<longleftrightarrow>
     (\<exists>args extra. cmd = rule_program r # args @ extra \<and>
        list_all2 (\<lambda>p a. a \<in> set (alternatives p)) (rest (pattern r)) args \<and>
        m = PrefixRuleMatch (rule_program r # args) (rule_decision r) None (justification r))"
  by (auto simp: rule_matches_def matches_prefix_Some_iff rule_program_def)

lemma rule_matches_program: "rule_matches r cmd = Some m \<Longrightarrow> cmd \<noteq> [] \<and> hd cmd = rule_program r"
  by (auto simp: rule_matches_Some_iff)

section \<open>Matching commands\<close>

lemma map_filter_empty: "(\<forall>x \<in> set xs. f x = None) \<Longrightarrow> List.map_filter f xs = []"
  by (auto simp: List.map_filter_def filter_empty_conv)

lemma map_filter_append: "List.map_filter f (xs @ ys) = List.map_filter f xs @ List.map_filter f ys"
  by (simp add: List.map_filter_def)

lemma match_exact_or_default:
  "match_exact_rules p (c # cs) =
     Some (List.map_filter (\<lambda>r. rule_matches r (c # cs)) (or_default (map_of (rules_by_program p) c)))"
  by (auto simp: match_exact_rules_def or_default_def List.map_filter_def split: option.splits)

lemma index_scan:
  assumes "\<forall>(k, rs) \<in> set m. \<forall>r \<in> set rs. rule_program r = k" and "distinct (map fst m)"
  shows "List.map_filter (\<lambda>r. rule_matches r (c # cs)) (concat (map snd m)) =
         List.map_filter (\<lambda>r. rule_matches r (c # cs)) (or_default (map_of m c))"
  using assms
proof (induction m)
  case Nil
  then show ?case by (simp add: or_default_def)
next
  case (Cons e m)
  obtain k rs where e: "e = (k, rs)" by force
  have IH: "List.map_filter (\<lambda>r. rule_matches r (c # cs)) (concat (map snd m)) =
      List.map_filter (\<lambda>r. rule_matches r (c # cs)) (or_default (map_of m c))"
    using Cons by auto
  have "List.map_filter (\<lambda>r. rule_matches r (c # cs)) rs = []" if "k \<noteq> c"
    using Cons.prems(1) that e rule_matches_program by (fastforce intro!: map_filter_empty)
  moreover have "map_of m c = None" if "k = c"
    using Cons.prems(2) that e by (simp add: map_of_eq_None_iff)
  ultimately show ?case
    using IH by (auto simp: e map_filter_append or_default_def)
qed

text \<open>
  The index never changes an answer. In every policy that the operations of \<open>Policy\<close> build, in
  whatever order, each rule is stored under its own program, and looking a command up by its first
  word finds the same matches, in the same order, as trying every rule of the policy.
\<close>

theorem indexed_lookup_is_scan:
  assumes "built_policy p"
  shows "index_ok (rules_by_program p) \<and>
         match_exact_rules p cmd =
           (if cmd = [] then None else Some (List.map_filter (\<lambda>r. rule_matches r cmd) (all_rules p)))"
proof -
  have ok: "index_ok (rules_by_program p)"
    using assms by (rule built_policy_index_ok)
  then have "match_exact_rules p (c # cs) = Some (List.map_filter (\<lambda>r. rule_matches r (c # cs)) (all_rules p))" for c cs
    unfolding all_rules_def match_exact_or_default index_ok_def by (simp add: index_scan)
  with ok show ?thesis
    by (cases cmd) (auto simp: match_exact_rules_def)
qed

text \<open>A policy that allows \<open>git status\<close>, built by the operations.\<close>

definition sample_rule :: prefix_rule where
  "sample_rule = \<lparr>pattern = \<lparr>first = lit ''git'', rest = [Single (lit ''status'')]\<rparr>,
     rule_decision = Allow, justification = None\<rparr>"

definition sample_policy :: policy where
  "sample_policy = policy_new [(lit ''git'', [sample_rule])]"

lemma sample_policy_built: "built_policy sample_policy"
proof (rule built_policy.add_prefix[OF built_policy.empty])
  show "add_prefix_rule [lit ''git'', lit ''status''] Allow policy_empty = (Ok sample_policy :: (policy, unit policy_error) result)"
    by (simp add: add_prefix_rule_def policy_empty_def policy_new_def policy_from_parts_def sample_policy_def sample_rule_def)
qed

lemma indexed_lookup_is_scan_witness:
  "built_policy sample_policy \<and>
   match_exact_rules sample_policy [lit ''git'', lit ''status''] =
     Some [PrefixRuleMatch [lit ''git'', lit ''status''] Allow None None]"
  using indexed_lookup_is_scan[OF sample_policy_built, of "[lit ''git'', lit ''status'']"] sample_policy_built
  by (simp add: all_rules_def sample_policy_def policy_new_def policy_from_parts_def sample_rule_def
      rule_matches_def matches_prefix_def List.map_filter_def lit_def)

section \<open>Evaluations\<close>

lemma fold_max_Max: "fold max ds (d :: 'a :: linorder) = Max (Set.insert d (set ds))"
  by (metis Max.set_eq_fold list.simps(15))

lemma Max_UN:
  assumes "finite A" and "A \<noteq> {}" and "\<And>a. a \<in> A \<Longrightarrow> finite (B a) \<and> B a \<noteq> {}"
  shows "Max (\<Union>a \<in> A. B a) = Max ((\<lambda>a. Max (B a)) ` A)"
  using assms
proof (induction rule: finite_ne_induct)
  case (insert a A)
  have "Max (B a \<union> (\<Union>a \<in> A. B a)) = max (Max (B a)) (Max (\<Union>a \<in> A. B a))"
    using insert by (intro Max_Un) auto
  with insert show ?case by simp
qed simp

lemma from_matches_Some_iff:
  "from_matches ms = Some ev \<longleftrightarrow>
     ms \<noteq> [] \<and> ev = \<lparr>eval_decision = Max (match_decision ` set ms), matched_rules = ms\<rparr>"
  by (cases ms) (auto simp: from_matches_def fold_max_Max simp del: Max_insert)

lemma from_matches_None_iff: "from_matches ms = None \<longleftrightarrow> ms = []"
  by (cases ms) (auto simp: from_matches_def)

lemma rule_matches_is_prefix_match: "rule_matches r cmd = Some m \<Longrightarrow> is_prefix_match m"
  by (auto simp: rule_matches_def)

lemma match_exact_prefix: "match_exact_rules p cmd = Some ms \<Longrightarrow> m \<in> set ms \<Longrightarrow> is_prefix_match m"
  by (auto simp: match_exact_rules_def List.map_filter_def rule_matches_is_prefix_match
      split: list.splits option.splits)

lemma with_resolved_is_prefix_match [simp]: "is_prefix_match (with_resolved_program pr m) = is_prefix_match m"
  by (cases m) auto

lemma match_host_prefix: "m \<in> set (match_host_executable_rules env p cmd) \<Longrightarrow> is_prefix_match m"
  by (auto simp: match_host_executable_rules_def List.map_filter_def rule_matches_is_prefix_match
      split: list.splits option.splits if_splits)

lemma matched_rules_prefix: "m \<in> set (matched_rules_of env p resolve cmd) \<Longrightarrow> is_prefix_match m"
  by (auto simp: matched_rules_of_def match_host_prefix match_exact_prefix
      split: option.splits list.splits if_splits)

lemma matches_with_fallback:
  "matches_for_command_with_options env p cmd (Some h) resolve =
     (if matched_rules_of env p resolve cmd = [] then [HeuristicsRuleMatch cmd (h cmd)]
      else matched_rules_of env p resolve cmd)"
  by (simp add: matches_for_command_with_options_def Let_def)

lemma check_Some:
  "check_with_options env p cmd h resolve =
     Some \<lparr>eval_decision = Max (match_decision ` set (matches_for_command_with_options env p cmd (Some h) resolve)),
           matched_rules = matches_for_command_with_options env p cmd (Some h) resolve\<rparr>"
  by (simp add: check_with_options_def from_matches_Some_iff matches_with_fallback)

text \<open>
  C16: Checking a command always gives a verdict, the strictest one. \<open>check_with_options\<close> never panics;
  its decision is the most severe decision among the matches it returns; those are the matching rules
  when there are any, and only otherwise the one match with the caller's heuristic decision, and
  \<open>is_match\<close> tells the two cases apart.
\<close>

theorem check_strictest:
  "\<exists>ev. check_with_options env p cmd h resolve = Some ev \<and>
     eval_decision ev = Max (match_decision ` set (matched_rules ev)) \<and>
     (is_match ev \<longleftrightarrow> matched_rules_of env p resolve cmd \<noteq> []) \<and>
     matched_rules ev =
      (if is_match ev then matched_rules_of env p resolve cmd else [HeuristicsRuleMatch cmd (h cmd)])"
proof -
  let ?ms = "matches_for_command_with_options env p cmd (Some h) resolve"
  let ?ev = "\<lparr>eval_decision = Max (match_decision ` set ?ms), matched_rules = ?ms\<rparr>"
  have m: "is_match ?ev \<longleftrightarrow> matched_rules_of env p resolve cmd \<noteq> []"
    using matched_rules_prefix[of _ env p resolve cmd]
    by (cases "matched_rules_of env p resolve cmd")
      (auto simp: is_match_def matches_with_fallback list_ex_iff)
  show ?thesis
    by (rule exI[of _ ?ev]) (use m check_Some in \<open>auto simp: matches_with_fallback\<close>)
qed

text \<open>
  Several commands are as strict as the strictest of them. \<open>check_multiple_with_options\<close> panics
  exactly when it is given no command; otherwise its decision is the most severe of the decisions of
  the single commands, and its matches are theirs in order.
\<close>

theorem check_multiple_strictest:
  "(check_multiple_with_options env p cmds h resolve = None \<longleftrightarrow> cmds = []) \<and>
   map_option eval_decision (check_multiple_with_options env p cmds h resolve) =
     (if cmds = [] then None
      else Some (Max ((\<lambda>cmd. eval_decision (the (check_with_options env p cmd h resolve))) ` set cmds))) \<and>
   map_option matched_rules (check_multiple_with_options env p cmds h resolve) =
     (if cmds = [] then None
      else Some (concat (map (\<lambda>cmd. matched_rules (the (check_with_options env p cmd h resolve))) cmds)))"
proof (cases "cmds = []")
  case True
  then show ?thesis by (simp add: check_multiple_with_options_def from_matches_None_iff)
next
  case False
  let ?f = "\<lambda>cmd. matches_for_command_with_options env p cmd (Some h) resolve"
  let ?ms = "concat (map ?f cmds)"
  have ne: "?f cmd \<noteq> []" for cmd by (simp add: matches_with_fallback)
  with False have "?ms \<noteq> []" by (cases cmds) auto
  then have ev: "check_multiple_with_options env p cmds h resolve =
      Some \<lparr>eval_decision = Max (match_decision ` set ?ms), matched_rules = ?ms\<rparr>"
    by (simp add: check_multiple_with_options_def from_matches_Some_iff)
  have "Max (match_decision ` set ?ms) = Max (\<Union>cmd \<in> set cmds. match_decision ` set (?f cmd))"
    by (rule arg_cong[of _ _ Max]) auto
  also have "\<dots> = Max ((\<lambda>cmd. Max (match_decision ` set (?f cmd))) ` set cmds)"
    using False ne by (intro Max_UN) auto
  finally show ?thesis
    using False ev by (simp add: check_Some)
qed

section \<open>Merging policies\<close>

lemma merge_lookup:
  assumes "index_ok (rules_by_program p)" and "index_ok (rules_by_program q)"
  shows "or_default (map_of (rules_by_program (merge_overlay p q)) k) =
         or_default (map_of (rules_by_program p) k) @ or_default (map_of (rules_by_program q) k)"
  using assms rules.insert_all(2)[of "rules_by_program p" "rules_by_program q" k]
  by (simp add: merge_overlay_def policy_from_parts_def multi_insert_all_def index_ok_def)

lemma matched_rules_exact: "matched_rules_of env p False cmd = or_default (match_exact_rules p cmd)"
  by (auto simp: matched_rules_of_def or_default_def split: option.splits list.splits)

lemma merge_matches:
  assumes "index_ok (rules_by_program p)" and "index_ok (rules_by_program q)"
  shows "matched_rules_of env (merge_overlay p q) False cmd =
         matched_rules_of env p False cmd @ matched_rules_of env q False cmd"
proof (cases cmd)
  case Nil
  then show ?thesis by (simp add: matched_rules_exact match_exact_rules_def or_default_def)
next
  case (Cons c cs)
  have some: "or_default (Some xs) = xs" for xs :: "rule_match list"
    by (simp add: or_default_def)
  show ?thesis
    unfolding Cons matched_rules_exact match_exact_or_default some merge_lookup[OF assms] map_filter_append ..
qed

lemma matching_check:
  assumes "check env p cmd h = Some ev" and "is_match ev"
  shows "matched_rules_of env p False cmd = matched_rules ev" and "matched_rules ev \<noteq> []"
    and "eval_decision ev = Max (match_decision ` set (matched_rules ev))"
  using assms by (auto simp: check_def from_matches_Some_iff matches_with_fallback is_match_def split: if_splits)

text \<open>
  Overlays can only tighten. When a rule of either of two policies decides a command, their merge
  decides it too: it reports that policy's matches among its own, and its decision is at least as
  severe, whatever the other policy holds. So a command one of them forbids stays forbidden.
\<close>

theorem merge_overlay_tightens:
  assumes "index_ok (rules_by_program p)" and "index_ok (rules_by_program q)"
    and "check env p cmd h = Some ev \<or> check env q cmd h = Some ev" and "is_match ev"
  shows "\<exists>ev'. check env (merge_overlay p q) cmd h = Some ev' \<and> is_match ev' \<and>
           set (matched_rules ev) \<subseteq> set (matched_rules ev') \<and> eval_decision ev \<le> eval_decision ev' \<and>
           (eval_decision ev = Forbidden \<longrightarrow> eval_decision ev' = Forbidden)"
proof -
  let ?ms = "matched_rules_of env (merge_overlay p q) False cmd"
  let ?ev = "\<lparr>eval_decision = Max (match_decision ` set ?ms), matched_rules = ?ms\<rparr>"
  have sub: "set (matched_rules ev) \<subseteq> set ?ms" and ne: "matched_rules ev \<noteq> []"
    using assms(3,4) matching_check by (auto simp: merge_matches[OF assms(1,2)])
  then have "?ms \<noteq> []" by auto
  then have c: "check env (merge_overlay p q) cmd h = Some ?ev" "is_match ?ev"
    using matched_rules_prefix[of "hd ?ms" env "merge_overlay p q" False cmd]
    by (auto simp: check_def from_matches_Some_iff matches_with_fallback is_match_def list_ex_iff intro!: bexI[of _ "hd ?ms"])
  have "eval_decision ev = Max (match_decision ` set (matched_rules ev))"
    using assms(3,4) matching_check(3) by blast
  also have "\<dots> \<le> Max (match_decision ` set ?ms)"
    using sub ne by (intro Max_mono) auto
  finally show ?thesis
    using c sub by (auto intro!: exI[of _ ?ev])
qed

definition forbid_policy :: policy where
  "forbid_policy = policy_new [(lit ''git'', [sample_rule\<lparr>rule_decision := Forbidden\<rparr>])]"

definition sample_env :: host_env where
  "sample_env = \<lparr>current_dir = Some (lit ''/repo''), home_dir = None\<rparr>"

lemmas policy_eval = sample_policy_def forbid_policy_def policy_new_def policy_from_parts_def sample_rule_def
  rule_matches_def matches_prefix_def List.map_filter_def

lemma merge_overlay_tightens_witness:
  "\<exists>ev'. check sample_env (merge_overlay forbid_policy sample_policy) [lit ''git'', lit ''status''] (\<lambda>_. Allow) = Some ev' \<and>
     eval_decision ev' = Forbidden"
proof -
  let ?ev = "\<lparr>eval_decision = Forbidden,
    matched_rules = [PrefixRuleMatch [lit ''git'', lit ''status''] Forbidden None None]\<rparr>"
  have "index_ok (rules_by_program forbid_policy)" "index_ok (rules_by_program sample_policy)"
    by (simp_all add: policy_eval index_ok_def rule_program_def)
  moreover have "check sample_env forbid_policy [lit ''git'', lit ''status''] (\<lambda>_. Allow) = Some ?ev"
    by (simp add: check_def matches_with_fallback matched_rules_exact match_exact_rules_def or_default_def
        policy_eval from_matches_def)
  ultimately show ?thesis
    using merge_overlay_tightens[of forbid_policy sample_policy sample_env _ "\<lambda>_. Allow" ?ev]
    by (fastforce simp: is_match_def)
qed

section \<open>Host executables\<close>

lemma match_host_elem:
  assumes "m \<in> set (match_host_executable_rules env p (prog # args))"
  shows "\<exists>path base r m0. from_absolute_path (current_dir env) (home_dir env) prog = Some path \<and>
    file_name path = Some base \<and> rule_matches r (base # args) = Some m0 \<and> m = with_resolved_program path m0 \<and>
    (case host_executables_by_name p base of None \<Rightarrow> True | Some paths \<Rightarrow> path \<in> set paths)"
proof -
  obtain path where path: "from_absolute_path (current_dir env) (home_dir env) prog = Some path"
    using assms by (cases "from_absolute_path (current_dir env) (home_dir env) prog")
      (auto simp: match_host_executable_rules_def)
  obtain base where base: "executable_path_lookup_key path = Some base"
    using assms path by (cases "executable_path_lookup_key path") (auto simp: match_host_executable_rules_def)
  obtain rules where rules: "map_of (rules_by_program p) base = Some rules"
    using assms path base by (cases "map_of (rules_by_program p) base") (auto simp: match_host_executable_rules_def)
  have "(case host_executables_by_name p base of None \<Rightarrow> True | Some paths \<Rightarrow> path \<in> set paths)"
    using assms path base rules
    by (cases "host_executables_by_name p base") (auto simp: match_host_executable_rules_def list_ex_iff split: if_splits)
  moreover have "m \<in> set (map (with_resolved_program path) (List.map_filter (\<lambda>r. rule_matches r (base # args)) rules))"
    using assms path base rules
    by (auto simp: match_host_executable_rules_def simp del: set_map split: if_splits option.splits)
  then obtain r m0 where "rule_matches r (base # args) = Some m0" "m = with_resolved_program path m0"
    by (auto simp: List.map_filter_def)
  moreover have "file_name path = Some base"
    using base by (simp add: executable_path_lookup_key_def executable_lookup_key_def)
  ultimately show ?thesis
    using path by blast
qed


text \<open>
  Rules for a bare program name reach a program path only as declared. When a match of a
  \<open>PrefixRule\<close> carries a resolved program, the command's first word resolves to that path, whose last
  component is the program of the rule; no rule matched the first word as it is; and if the policy lists
  the paths of that executable, the path is one of them. Without the option, no match is resolved.
\<close>

theorem resolved_programs_are_declared:
  assumes "m \<in> set (matched_rules_of env p resolve cmd)" and "resolved_program m = Some program"
  shows "resolve \<and> or_default (match_exact_rules p cmd) = [] \<and>
    from_absolute_path (current_dir env) (home_dir env) (hd cmd) = Some program \<and>
    file_name program = Some (hd (matched_prefix m)) \<and> tl (matched_prefix m) = take (length (matched_prefix m) - 1) (tl cmd) \<and>
    (case host_executables_by_name p (hd (matched_prefix m)) of
       None \<Rightarrow> True | Some paths \<Rightarrow> program \<in> set paths)"
proof -
  have exact: "\<forall>m \<in> set (or_default (match_exact_rules p cmd)). resolved_program m = None"
    by (auto simp: match_exact_rules_def or_default_def List.map_filter_def rule_matches_def
        split: list.splits option.splits)
  then have none: "or_default (match_exact_rules p cmd) = []" and m: "resolve" "m \<in> set (match_host_executable_rules env p cmd)"
    using assms by (auto simp: matched_rules_of_def or_default_def split: option.splits list.splits if_splits)
  obtain prog args where cmd: "cmd = prog # args"
    using m by (auto simp: match_host_executable_rules_def split: list.splits)
  obtain path base r m0 where h: "from_absolute_path (current_dir env) (home_dir env) prog = Some path"
      "file_name path = Some base" "rule_matches r (base # args) = Some m0" "m = with_resolved_program path m0"
      "case host_executables_by_name p base of None \<Rightarrow> True | Some paths \<Rightarrow> path \<in> set paths"
    using match_host_elem m(2) unfolding cmd by blast
  obtain as extra where "args = as @ extra" "base = rule_program r"
      "m0 = PrefixRuleMatch (base # as) (rule_decision r) None (justification r)"
    using h(3) by (auto simp: rule_matches_Some_iff)
  with h assms(2) none m(1) cmd show ?thesis by auto
qed

lemma resolved_programs_are_declared_witness:
  "matched_rules_of sample_env (set_host_executable_paths (lit ''git'') [[lit ''usr'', lit ''git'']] sample_policy) True
     [lit ''/usr/git'', lit ''status''] =
     [PrefixRuleMatch [lit ''git'', lit ''status''] Allow (Some [lit ''usr'', lit ''git'']) None] \<and>
   from_absolute_path (current_dir sample_env) (home_dir sample_env) (lit ''/usr/git'') = Some [lit ''usr'', lit ''git'']"
proof -
  let ?p = "set_host_executable_paths (lit ''git'') [[lit ''usr'', lit ''git'']] sample_policy"
  have eq: "matched_rules_of sample_env ?p True [lit ''/usr/git'', lit ''status''] =
     [PrefixRuleMatch [lit ''git'', lit ''status''] Allow (Some [lit ''usr'', lit ''git'']) None]"
    by (simp add: matched_rules_of_def match_exact_rules_def match_host_executable_rules_def
        executable_path_lookup_key_def executable_lookup_key_def file_name_def
        set_host_executable_paths_def policy_eval sample_env_def from_absolute_path_def absolutize_def
        path_is_absolute_def starts_with_def maybe_expand_home_directory_def normalize_path_def normalize_step_def lit_def)
  then show ?thesis
    using resolved_programs_are_declared[of "PrefixRuleMatch [lit ''git'', lit ''status''] Allow (Some [lit ''usr'', lit ''git'']) None"
        sample_env ?p True "[lit ''/usr/git'', lit ''status'']" "[lit ''usr'', lit ''git'']"] by simp
qed

text \<open>
  The README speaks of absolute program paths, but \<open>AbsolutePathBuf::try_from\<close> resolves a relative first word
  against the working directory, so that a rule for \<open>git\<close> also decides \<open>./git\<close>.
\<close>

lemma relative_program_matches_basename_rule:
  "matched_rules_of sample_env sample_policy True [lit ''./git'', lit ''status''] =
     [PrefixRuleMatch [lit ''git'', lit ''status''] Allow (Some [lit ''repo'', lit ''git'']) None]"
  by (simp add: matched_rules_of_def match_exact_rules_def match_host_executable_rules_def
      executable_path_lookup_key_def executable_lookup_key_def file_name_def
      policy_eval sample_env_def from_absolute_path_def absolutize_def absolutize_from_def join_path_def
      path_is_absolute_def starts_with_def maybe_expand_home_directory_def normalize_path_def normalize_step_def lit_def)

section \<open>Network domains\<close>

definition domains_ok :: "network_rule list \<Rightarrow> rstr list \<times> rstr list \<Rightarrow> bool" where
  "domains_ok rules = (\<lambda>(allowed, denied). distinct allowed \<and> distinct denied \<and>
     (\<forall>h. (h \<in> set allowed) = (last_verdict rules h = Some Allow)) \<and>
     (\<forall>h. (h \<in> set denied) = (last_verdict rules h = Some Forbidden)))"

lemma last_verdict_snoc:
  "last_verdict (rules @ [r]) h = (if host r = h \<and> net_decision r \<noteq> Prompt then Some (net_decision r) else last_verdict rules h)"
  by (auto simp: last_verdict_def last_opt_def)

lemma compile_network_rule_ok:
  "domains_ok rules d \<Longrightarrow> domains_ok (rules @ [r]) (compile_network_rule d r)"
  by (cases d; cases "net_decision r")
    (auto simp: domains_ok_def compile_network_rule_def upsert_domain_def last_verdict_snoc)

text \<open>
  The compiled domain lists obey the last word on each host. A host is in the allowed list exactly
  when the last network rule about it that is not a prompt allows it, and in the denied list exactly
  when that rule forbids it; no list has a host twice, and no host is in both.
\<close>

theorem compiled_network_domains_last_wins:
  "\<exists>allowed denied. compiled_network_domains p = (allowed, denied) \<and>
     distinct allowed \<and> distinct denied \<and> set allowed \<inter> set denied = {} \<and>
     (\<forall>h. (h \<in> set allowed) = (last_verdict (network_rules p) h = Some Allow)) \<and>
     (\<forall>h. (h \<in> set denied) = (last_verdict (network_rules p) h = Some Forbidden))"
proof -
  have "domains_ok rules (foldl compile_network_rule ([], []) rules)" for rules
  proof (induction rules rule: rev_induct)
    case Nil
    show ?case by (simp add: domains_ok_def last_verdict_def)
  next
    case (snoc r rules)
    then show ?case by (simp add: compile_network_rule_ok)
  qed
  then have "domains_ok (network_rules p) (compiled_network_domains p)"
    by (simp add: compiled_network_domains_def)
  then show ?thesis
    by (cases "compiled_network_domains p") (auto simp: domains_ok_def)
qed

section \<open>Network hosts\<close>

lemma in_set_tlD: "x \<in> set (tl xs) \<Longrightarrow> x \<in> set xs"
  by (cases xs) auto

lemma split_once_sets: "split_once c s = Some (a, b) \<Longrightarrow> set a \<subseteq> set s \<and> set b \<subseteq> set s"
  by (auto simp: split_once_def dest: set_takeWhileD set_dropWhileD in_set_tlD split: if_splits)

lemma rsplit_once_sets: "rsplit_once c s = Some (a, b) \<Longrightarrow> set a \<subseteq> set s \<and> set b \<subseteq> set s"
  using set_takeWhileD[of _ "\<lambda>x. x \<noteq> c" "rev s"] set_dropWhileD[of _ "\<lambda>x. x \<noteq> c" "rev s"]
  by (auto simp: rsplit_once_def dest!: in_set_tlD split: if_splits)

lemma set_trim_end_matches: "set (trim_end_matches P s) \<subseteq> set s"
  by (auto simp: trim_end_matches_def dest: set_dropWhileD)

lemma strip_port_set: "set (strip_port h) \<subseteq> set h"
  by (auto simp: strip_port_def split: option.splits prod.splits if_splits dest: rsplit_once_sets)

lemma bracketed_host_set: "bracketed_host raw s = Ok h \<Longrightarrow> set h \<subseteq> set s"
  by (auto simp: bracketed_host_def Let_def split: option.splits prod.splits if_splits dest!: split_once_sets)

lemma ascii_lower_idem [simp]: "ascii_lower (ascii_lower c) = ascii_lower c"
  by (simp add: ascii_lower_def)

lemma finish_host_Ok:
  assumes "finish_host h = Ok n"
  shows "n \<noteq> [] \<and> 42 \<notin> set n \<and> (\<forall>c \<in> set n. \<not> is_whitespace c) \<and>
     set n \<subseteq> ascii_lower ` set h \<and> to_ascii_lowercase n = n"
proof -
  let ?t = "trim (trim_end_matches (\<lambda>c. c = 46) h)"
  have "set ?t \<subseteq> set h"
    using set_trim set_trim_end_matches by blast
  then have "set (to_ascii_lowercase ?t) \<subseteq> ascii_lower ` set h"
    by (auto simp: to_ascii_lowercase_def)
  moreover have "to_ascii_lowercase (to_ascii_lowercase ?t) = to_ascii_lowercase ?t"
    by (simp add: to_ascii_lowercase_def)
  ultimately show ?thesis
    using assms by (auto simp: finish_host_def Let_def list_ex_iff split: if_splits)
qed

lemma normalize_host_finish:
  assumes "normalize_network_rule_host raw = (Ok n :: (rstr, 's policy_error) result)"
  shows "\<exists>h. finish_host h = (Ok n :: (rstr, 's policy_error) result) \<and> set h \<subseteq> set raw - {47, 63, 35}"
proof -
  have no: "47 \<notin> set (trim raw)" "63 \<notin> set (trim raw)" "35 \<notin> set (trim raw)"
    using assms by (auto simp: normalize_network_rule_host_def Let_def split: if_splits)
  have "\<exists>h. finish_host h = (Ok n :: (rstr, 's policy_error) result) \<and> set h \<subseteq> set (trim raw)"
  proof (cases "strip_prefix [91] (trim raw)")
    case None
    then show ?thesis
      using assms strip_port_set[of "trim raw"]
      by (auto simp: normalize_network_rule_host_def Let_def split: if_splits)
  next
    case (Some t)
    then have "set t \<subseteq> set (trim raw)" by (auto simp: strip_prefix_Some_iff)
    moreover obtain h where "bracketed_host raw t = (Ok h :: (rstr, 's policy_error) result)"
        "finish_host h = (Ok n :: (rstr, 's policy_error) result)"
      using assms Some by (auto simp: normalize_network_rule_host_def Let_def split: if_splits)
    ultimately show ?thesis
      using bracketed_host_set by (metis subset_trans)
  qed
  then show ?thesis
    using no set_trim[of raw] by blast
qed

text \<open>
  A network rule's host is a plain host name. Whatever text it is given, \<open>normalize_network_rule_host\<close> returns
  only non-empty hosts in lower case without blanks, wildcards, slashes, question marks or
  hash signs, all of whose characters come from the text.
\<close>

theorem normalized_host_is_plain:
  assumes "normalize_network_rule_host raw = (Ok n :: (rstr, 's policy_error) result)"
  shows "n \<noteq> [] \<and> to_ascii_lowercase n = n \<and> (\<forall>c \<in> set n. \<not> is_whitespace c) \<and>
    set n \<inter> {42, 47, 63, 35} = {} \<and> set n \<subseteq> ascii_lower ` set raw"
proof -
  obtain h where h: "finish_host h = (Ok n :: (rstr, 's policy_error) result)" "set h \<subseteq> set raw - {47, 63, 35}"
    using normalize_host_finish[OF assms] by blast
  have low: "ascii_lower c = d \<longleftrightarrow> c = d" if "d < 65" for c d
    using that by (auto simp: ascii_lower_def)
  have "d \<notin> ascii_lower ` set h" if "d \<in> {47, 63, 35}" for d
  proof -
    have "d < 65" using that by auto
    then show ?thesis using h(2) that low by (auto simp: image_iff)
  qed
  then have "set n \<inter> {47, 63, 35} = {}"
    using finish_host_Ok[OF h(1)] by blast
  then show ?thesis
    using finish_host_Ok[OF h(1)] h(2) by blast
qed

lemmas host_eval = normalize_network_rule_host_def finish_host_def strip_port_def port_digits_def rsplit_once_def
  is_ascii_digit_def to_ascii_lowercase_def ascii_lower_def sublist_Cons_right str_eval

lemma normalized_host_is_plain_witness:
  "normalize_network_rule_host (lit '' Api.Com.:443'') =
     (Ok (lit ''api.com'') :: (rstr, unit policy_error) result) \<and>
   to_ascii_lowercase (lit ''api.com'') = lit ''api.com''"
proof -
  have "normalize_network_rule_host (lit '' Api.Com.:443'') =
      (Ok (lit ''api.com'') :: (rstr, unit policy_error) result)"
    by (simp add: host_eval)
  from normalized_host_is_plain[OF this] this show ?thesis by blast
qed

text \<open>
  Normalising is not idempotent: a trailing dot hides a port from the first pass, which then leaves a
  text that a second pass reads as host and port. A rule saved with \<open>blocking_append_network_rule\<close> is
  normalised again when the policy file is loaded.
\<close>

lemma normalize_host_not_idempotent:
  "normalize_network_rule_host (lit ''a.com:80.'') = (Ok (lit ''a.com:80'') :: (rstr, unit policy_error) result) \<and>
   normalize_network_rule_host (lit ''a.com:80'') = (Ok (lit ''a.com'') :: (rstr, unit policy_error) result)"
  by (simp add: host_eval)

end
