(* ===== verification/Exec_Policy_Parser.thy ===== *)
theory Exec_Policy_Parser
  imports Exec_Policy
begin

text \<open>
  \<open>execpolicy/src/parser.rs\<close>: policy files are Starlark programs that call three builtins,
  \<open>prefix_rule\<close>, \<open>network_rule\<close> and \<open>host_executable\<close>, which fill a builder; after a file has run, the
  examples its rules declare are checked.

  The Starlark interpreter, the \<open>shlex\<close> crate and derived \<open>Debug\<close> renderings are not part of the
  repository: they are the fields of the record \<open>host_language\<close>. A builtin returns nothing and a
  failing one ends the program, so what a program does to the builder is the sequence of its calls.
  The lemmas show what a call adds to the policy, that the builder stays well formed whatever files are
  parsed and however they fail, and that the examples of a file that parses are true of its policy.
\<close>

section \<open>Starlark values and calls\<close>

datatype starlark_value =
    StarlarkStr rstr
  | StarlarkList "starlark_value list"
  | StarlarkOther rstr

text \<open>\<open>Value::get_type\<close>, \<open>Value::unpack_str\<close>.\<close>

fun get_type :: "starlark_value \<Rightarrow> rstr" where
  "get_type (StarlarkStr _) = lit ''string''"
| "get_type (StarlarkList _) = lit ''list''"
| "get_type (StarlarkOther t) = t"

fun unpack_str :: "starlark_value \<Rightarrow> rstr option" where
  "unpack_str (StarlarkStr s) = Some s"
| "unpack_str _ = None"

text \<open>A resolved \<open>FileSpan\<close>: lines and columns count from zero.\<close>

record file_span =
  filename :: rstr
  begin_line :: nat
  begin_column :: nat
  end_line :: nat
  end_column :: nat

datatype builtin_call =
    PrefixRuleCall "starlark_value list" "rstr option" "starlark_value list option"
      "starlark_value list option" "rstr option" "file_span option"
  | NetworkRuleCall rstr rstr rstr "rstr option"
  | HostExecutableCall rstr "starlark_value list"

text \<open>
  \<open>evaluate\<close> gives the calls of a program and the error that ends it after them, if there is one; a
  program that does not parse makes no call.
\<close>

record 's host_language =
  evaluate :: "rstr \<Rightarrow> rstr \<Rightarrow> builtin_call list \<times> 's option"
  wrap_error :: "'s policy_error \<Rightarrow> 's"
  error_span :: "'s \<Rightarrow> file_span option"
  shlex_split :: "rstr \<Rightarrow> rstr list option"
  shlex_join :: "rstr list \<Rightarrow> rstr option"
  debug_rule :: "prefix_rule \<Rightarrow> rstr"
  debug_match :: "rule_match \<Rightarrow> rstr"
  cwd_error :: rstr

section \<open>Locations of errors\<close>

definition error_location_from_file_span :: "file_span \<Rightarrow> error_location" where
  "error_location_from_file_span span =
     \<lparr>loc_path = filename span,
      loc_range = \<lparr>start = \<lparr>line = begin_line span + 1, column = begin_column span + 1\<rparr>,
                   end_pos = \<lparr>line = end_line span + 1, column = end_column span + 1\<rparr>\<rparr>\<rparr>"

fun with_location :: "error_location \<Rightarrow> 's policy_error \<Rightarrow> 's policy_error" where
  "with_location l (ExampleDidNotMatch rules exs None) = ExampleDidNotMatch rules exs (Some l)"
| "with_location l (ExampleDidMatch rule ex None) = ExampleDidMatch rule ex (Some l)"
| "with_location l e = e"

fun error_loc :: "'s host_language \<Rightarrow> 's policy_error \<Rightarrow> error_location option" where
  "error_loc st (ExampleDidNotMatch _ _ l) = l"
| "error_loc st (ExampleDidMatch _ _ l) = l"
| "error_loc st (Starlark e) = map_option error_location_from_file_span (error_span st e)"
| "error_loc st _ = None"

definition attach_validation_location :: "error_location option \<Rightarrow> 's policy_error \<Rightarrow> 's policy_error" where
  "attach_validation_location l e = (case l of Some x \<Rightarrow> with_location x e | None \<Rightarrow> e)"

section \<open>Patterns and examples\<close>

text \<open>Collecting an iterator of \<open>Result\<close>s: the first error ends it.\<close>

fun collect_map :: "('a \<Rightarrow> ('b, 'e) result) \<Rightarrow> 'a list \<Rightarrow> ('b list, 'e) result" where
  "collect_map f [] = Ok []"
| "collect_map f (x # xs) = bind_result (f x) (\<lambda>y. bind_result (collect_map f xs) (\<lambda>ys. Ok (y # ys)))"

definition pattern_alternative :: "starlark_value \<Rightarrow> (rstr, 's policy_error) result" where
  "pattern_alternative v =
     (case unpack_str v of
        Some s \<Rightarrow> Ok s
      | None \<Rightarrow> Err (InvalidPattern (lit ''pattern alternative must be a string (got '' @ get_type v @ lit '')'')))"

fun parse_pattern_token :: "starlark_value \<Rightarrow> (pattern_token, 's policy_error) result" where
  "parse_pattern_token (StarlarkStr s) = Ok (Single s)"
| "parse_pattern_token (StarlarkList vs) =
     bind_result (collect_map pattern_alternative vs) (\<lambda>tokens.
       case tokens of
         [] \<Rightarrow> Err (InvalidPattern (lit ''pattern alternatives cannot be empty''))
       | [single] \<Rightarrow> Ok (Single single)
       | _ \<Rightarrow> Ok (Alts tokens))"
| "parse_pattern_token (StarlarkOther t) =
     Err (InvalidPattern (lit ''pattern element must be a string or list of strings (got '' @ t @ lit '')''))"

definition parse_pattern :: "starlark_value list \<Rightarrow> (pattern_token list, 's policy_error) result" where
  "parse_pattern pat =
     bind_result (collect_map parse_pattern_token pat) (\<lambda>tokens.
       if tokens = [] then Err (InvalidPattern (lit ''pattern cannot be empty'')) else Ok tokens)"

definition parse_string_example :: "'s host_language \<Rightarrow> rstr \<Rightarrow> (rstr list, 's policy_error) result" where
  "parse_string_example st raw =
     (case shlex_split st raw of
        None \<Rightarrow> Err (InvalidExample (lit ''example string has invalid shell syntax''))
      | Some tokens \<Rightarrow>
          (if tokens = [] then Err (InvalidExample (lit ''example cannot be an empty string'')) else Ok tokens))"

definition example_token :: "starlark_value \<Rightarrow> (rstr, 's policy_error) result" where
  "example_token v =
     (case unpack_str v of
        Some s \<Rightarrow> Ok s
      | None \<Rightarrow> Err (InvalidExample (lit ''example tokens must be strings (got '' @ get_type v @ lit '')'')))"

definition parse_list_example :: "starlark_value list \<Rightarrow> (rstr list, 's policy_error) result" where
  "parse_list_example vs =
     bind_result (collect_map example_token vs) (\<lambda>tokens.
       if tokens = [] then Err (InvalidExample (lit ''example cannot be an empty list'')) else Ok tokens)"

fun parse_example :: "'s host_language \<Rightarrow> starlark_value \<Rightarrow> (rstr list, 's policy_error) result" where
  "parse_example st (StarlarkStr raw) = parse_string_example st raw"
| "parse_example st (StarlarkList vs) = parse_list_example vs"
| "parse_example st (StarlarkOther t) =
     Err (InvalidExample (lit ''example must be a string or list of strings (got '' @ t @ lit '')''))"

definition parse_examples :: "'s host_language \<Rightarrow> starlark_value list \<Rightarrow> (rstr list list, 's policy_error) result" where
  "parse_examples st vs = collect_map (parse_example st) vs"

text \<open>\<open>examples.map(parse_examples).transpose()?.unwrap_or_default()\<close>.\<close>

definition optional_examples ::
  "'s host_language \<Rightarrow> starlark_value list option \<Rightarrow> (rstr list list, 's policy_error) result"
where
  "optional_examples st vs = (case vs of None \<Rightarrow> Ok [] | Some xs \<Rightarrow> parse_examples st xs)"

definition parse_network_rule_decision :: "rstr \<Rightarrow> (decision, 's policy_error) result" where
  "parse_network_rule_decision raw = (if raw = lit ''deny'' then Ok Forbidden else parse_decision raw)"

section \<open>Host executables\<close>

definition parse_literal_absolute_path ::
  "'s host_language \<Rightarrow> host_env \<Rightarrow> rstr \<Rightarrow> (absolute_path, 's policy_error) result"
where
  "parse_literal_absolute_path st env raw =
     (if \<not> path_is_absolute raw
      then Err (InvalidRule (lit ''host_executable paths must be absolute (got '' @ raw @ lit '')''))
      else case from_absolute_path (current_dir env) (home_dir env) raw of
        Some path \<Rightarrow> Ok path
      | None \<Rightarrow> Err (InvalidRule (lit ''invalid absolute path `'' @ raw @ lit ''`: '' @ cwd_error st)))"

definition validate_host_executable_name :: "rstr \<Rightarrow> (unit, 's policy_error) result" where
  "validate_host_executable_name name =
     (if name = [] then Err (InvalidRule (lit ''host_executable name cannot be empty''))
      else if length (path_components name) \<noteq> 1 \<or> path_file_name name \<noteq> Some name
      then Err (InvalidRule (lit ''host_executable name must be a bare executable name (got '' @ name @ lit '')''))
      else Ok ())"

section \<open>The builder\<close>

record pending_example_validation =
  val_rules :: "prefix_rule list"
  val_matches :: "rstr list list"
  val_not_matches :: "rstr list list"
  val_location :: "error_location option"

record policy_builder =
  b_rules_by_program :: "(rstr, prefix_rule) multi_map"
  b_network_rules :: "network_rule list"
  b_host_executables_by_name :: "rstr \<rightharpoonup> absolute_path list"
  pending_example_validations :: "pending_example_validation list"

definition builder_new :: policy_builder where
  "builder_new = \<lparr>b_rules_by_program = [], b_network_rules = [], b_host_executables_by_name = (\<lambda>_. None),
     pending_example_validations = []\<rparr>"

definition add_rule :: "prefix_rule \<Rightarrow> policy_builder \<Rightarrow> policy_builder" where
  "add_rule r b = b\<lparr>b_rules_by_program := multi_insert (rule_program r) r (b_rules_by_program b)\<rparr>"

definition builder_add_network_rule :: "network_rule \<Rightarrow> policy_builder \<Rightarrow> policy_builder" where
  "builder_add_network_rule r b = b\<lparr>b_network_rules := b_network_rules b @ [r]\<rparr>"

definition add_host_executable :: "rstr \<Rightarrow> absolute_path list \<Rightarrow> policy_builder \<Rightarrow> policy_builder" where
  "add_host_executable name paths b =
     b\<lparr>b_host_executables_by_name := (b_host_executables_by_name b)(name \<mapsto> paths)\<rparr>"

definition add_pending_example_validation ::
  "prefix_rule list \<Rightarrow> rstr list list \<Rightarrow> rstr list list \<Rightarrow> error_location option \<Rightarrow> policy_builder \<Rightarrow> policy_builder"
where
  "add_pending_example_validation rs ms nms l b =
     b\<lparr>pending_example_validations := pending_example_validations b @
        [\<lparr>val_rules = rs, val_matches = ms, val_not_matches = nms, val_location = l\<rparr>]\<rparr>"

definition build :: "policy_builder \<Rightarrow> policy" where
  "build b = policy_from_parts (b_rules_by_program b) (b_network_rules b) (b_host_executables_by_name b)"

section \<open>The builtins\<close>

text \<open>The rules of one \<open>prefix_rule\<close>: one for each alternative of the first token.\<close>

definition expand_rules :: "pattern_token \<Rightarrow> pattern_token list \<Rightarrow> decision \<Rightarrow> rstr option \<Rightarrow> prefix_rule list" where
  "expand_rules first_token remaining d j =
     map (\<lambda>head. \<lparr>pattern = \<lparr>first = head, rest = remaining\<rparr>, rule_decision = d, justification = j\<rparr>)
       (alternatives first_token)"

definition check_justification :: "rstr option \<Rightarrow> (rstr option, 's policy_error) result" where
  "check_justification j =
     (if blank_justification j then Err (InvalidRule (lit ''justification cannot be empty'')) else Ok j)"

definition prefix_rule_builtin ::
  "'s host_language \<Rightarrow> starlark_value list \<Rightarrow> rstr option \<Rightarrow> starlark_value list option \<Rightarrow>
   starlark_value list option \<Rightarrow> rstr option \<Rightarrow> file_span option \<Rightarrow> policy_builder \<Rightarrow>
   (policy_builder, 's policy_error) result"
where
  "prefix_rule_builtin st pat d matches not_matches j span b =
     bind_result (case d of Some raw \<Rightarrow> parse_decision raw | None \<Rightarrow> Ok Allow) (\<lambda>decision.
     bind_result (check_justification j) (\<lambda>j.
     bind_result (parse_pattern pat) (\<lambda>pattern_tokens.
     bind_result (optional_examples st matches) (\<lambda>ms.
     bind_result (optional_examples st not_matches) (\<lambda>nms.
     case pattern_tokens of
       [] \<Rightarrow> Err (InvalidPattern (lit ''pattern cannot be empty''))
     | first_token # remaining \<Rightarrow>
         (let rules = expand_rules first_token remaining decision j;
              b' = add_pending_example_validation rules ms nms (map_option error_location_from_file_span span) b
          in Ok (fold add_rule rules b')))))))"

definition network_rule_builtin ::
  "rstr \<Rightarrow> rstr \<Rightarrow> rstr \<Rightarrow> rstr option \<Rightarrow> policy_builder \<Rightarrow> (policy_builder, 's policy_error) result"
where
  "network_rule_builtin h proto d j b =
     bind_result (parse_protocol proto) (\<lambda>protocol.
     bind_result (parse_network_rule_decision d) (\<lambda>decision.
     bind_result (check_justification j) (\<lambda>j.
     bind_result (normalize_network_rule_host h) (\<lambda>hst.
       Ok (builder_add_network_rule
         \<lparr>host = hst, protocol = protocol, net_decision = decision, net_justification = j\<rparr> b)))))"

definition host_executable_path ::
  "'s host_language \<Rightarrow> host_env \<Rightarrow> rstr \<Rightarrow> starlark_value \<Rightarrow> (absolute_path, 's policy_error) result"
where
  "host_executable_path st env name v =
     (case unpack_str v of
        None \<Rightarrow> Err (InvalidRule (lit ''host_executable paths must be strings (got '' @ get_type v @ lit '')''))
      | Some raw \<Rightarrow>
          bind_result (parse_literal_absolute_path st env raw) (\<lambda>path.
            let wrong = Err (InvalidRule (lit ''host_executable path `'' @ raw @ lit ''` must have basename `'' @ name @ lit ''`'')) in
            case executable_path_lookup_key path of
              None \<Rightarrow> wrong
            | Some path_name \<Rightarrow> (if path_name \<noteq> executable_lookup_key name then wrong else Ok path)))"

fun host_executable_paths ::
  "'s host_language \<Rightarrow> host_env \<Rightarrow> rstr \<Rightarrow> starlark_value list \<Rightarrow> absolute_path list \<Rightarrow> (absolute_path list, 's policy_error) result"
where
  "host_executable_paths st env name [] parsed = Ok parsed"
| "host_executable_paths st env name (v # vs) parsed =
     bind_result (host_executable_path st env name v) (\<lambda>path.
       host_executable_paths st env name vs (if path \<in> set parsed then parsed else parsed @ [path]))"

definition host_executable_builtin ::
  "'s host_language \<Rightarrow> host_env \<Rightarrow> rstr \<Rightarrow> starlark_value list \<Rightarrow> policy_builder \<Rightarrow> (policy_builder, 's policy_error) result"
where
  "host_executable_builtin st env name paths b =
     bind_result (validate_host_executable_name name) (\<lambda>_.
     bind_result (host_executable_paths st env name paths []) (\<lambda>parsed.
       Ok (add_host_executable (executable_lookup_key name) parsed b)))"

fun run_call :: "'s host_language \<Rightarrow> host_env \<Rightarrow> builtin_call \<Rightarrow> policy_builder \<Rightarrow> (policy_builder, 's policy_error) result" where
  "run_call st env (PrefixRuleCall pat d ms nms j l) b = prefix_rule_builtin st pat d ms nms j l b"
| "run_call st env (NetworkRuleCall h proto d j) b = network_rule_builtin h proto d j b"
| "run_call st env (HostExecutableCall name paths) b = host_executable_builtin st env name paths b"

text \<open>The calls of a program; the first one that fails ends it, and the builder keeps what came before.\<close>

fun run_calls ::
  "'s host_language \<Rightarrow> host_env \<Rightarrow> builtin_call list \<Rightarrow> policy_builder \<Rightarrow> policy_builder \<times> (unit, 's policy_error) result"
where
  "run_calls st env [] b = (b, Ok ())"
| "run_calls st env (c # cs) b =
     (case run_call st env c b of
        Ok b' \<Rightarrow> run_calls st env cs b'
      | Err e \<Rightarrow> (b, Err e))"

section \<open>Checking the examples\<close>

definition render_example :: "'s host_language \<Rightarrow> rstr list \<Rightarrow> rstr" where
  "render_example st ex = (case shlex_join st ex of Some s \<Rightarrow> s | None \<Rightarrow> lit ''unable to render example'')"

definition validate_match_examples ::
  "'s host_language \<Rightarrow> host_env \<Rightarrow> policy \<Rightarrow> prefix_rule list \<Rightarrow> rstr list list \<Rightarrow> (unit, 's policy_error) result"
where
  "validate_match_examples st env p rules exs =
     (let unmatched_examples = map (render_example st)
            (filter (\<lambda>ex. matches_for_command_with_options env p ex None True = []) exs) in
      if unmatched_examples = [] then Ok ()
      else Err (ExampleDidNotMatch (map (debug_rule st) rules) unmatched_examples None))"

fun validate_not_match_examples ::
  "'s host_language \<Rightarrow> host_env \<Rightarrow> policy \<Rightarrow> rstr list list \<Rightarrow> (unit, 's policy_error) result"
where
  "validate_not_match_examples st env p [] = Ok ()"
| "validate_not_match_examples st env p (ex # exs) =
     (case matches_for_command_with_options env p ex None True of
        m # _ \<Rightarrow> Err (ExampleDidMatch (debug_match st m) (render_example st ex) None)
      | [] \<Rightarrow> validate_not_match_examples st env p exs)"

text \<open>The policy one validation is checked against: the rules it comes from and the executables known so far.\<close>

definition validation_policy :: "(rstr \<rightharpoonup> absolute_path list) \<Rightarrow> pending_example_validation \<Rightarrow> policy" where
  "validation_policy hosts v =
     policy_from_parts (foldl (\<lambda>m r. multi_insert (rule_program r) r m) [] (val_rules v)) [] hosts"

definition run_validation ::
  "'s host_language \<Rightarrow> host_env \<Rightarrow> (rstr \<rightharpoonup> absolute_path list) \<Rightarrow> pending_example_validation \<Rightarrow> (unit, 's policy_error) result"
where
  "run_validation st env hosts v =
     (let p = validation_policy hosts v in
      bind_result (map_err (attach_validation_location (val_location v))
        (validate_not_match_examples st env p (val_not_matches v))) (\<lambda>_.
      map_err (attach_validation_location (val_location v))
        (validate_match_examples st env p (val_rules v) (val_matches v))))"

fun run_validations ::
  "'s host_language \<Rightarrow> host_env \<Rightarrow> (rstr \<rightharpoonup> absolute_path list) \<Rightarrow> pending_example_validation list \<Rightarrow> (unit, 's policy_error) result"
where
  "run_validations st env hosts [] = Ok ()"
| "run_validations st env hosts (v # vs) =
     bind_result (run_validation st env hosts v) (\<lambda>_. run_validations st env hosts vs)"

text \<open>The index is a former length of a vector that only grows, so the slice does not panic.\<close>

definition validate_pending_examples_from ::
  "'s host_language \<Rightarrow> host_env \<Rightarrow> nat \<Rightarrow> policy_builder \<Rightarrow> (unit, 's policy_error) result"
where
  "validate_pending_examples_from st env from_index b =
     run_validations st env (b_host_executables_by_name b) (drop from_index (pending_example_validations b))"

definition parse ::
  "'s host_language \<Rightarrow> host_env \<Rightarrow> rstr \<Rightarrow> rstr \<Rightarrow> policy_builder \<Rightarrow> policy_builder \<times> (unit, 's policy_error) result"
where
  "parse st env policy_identifier policy_file_contents b =
     (let pending_validation_count = length (pending_example_validations b);
          (calls, failure) = evaluate st policy_identifier policy_file_contents in
      case run_calls st env calls b of
        (b', Err e) \<Rightarrow> (b', Err (Starlark (wrap_error st e)))
      | (b', Ok _) \<Rightarrow>
          (case failure of
             Some e \<Rightarrow> (b', Err (Starlark e))
           | None \<Rightarrow> (b', validate_pending_examples_from st env pending_validation_count b')))"

section \<open>Specification vocabulary\<close>

text \<open>The commands a pattern describes, and the matches it reports for one.\<close>

definition pattern_matches ::
  "pattern_token \<Rightarrow> pattern_token list \<Rightarrow> decision \<Rightarrow> rstr option \<Rightarrow> rstr list \<Rightarrow> rule_match set"
where
  "pattern_matches t ts d j cmd =
     {PrefixRuleMatch (c # args) d None j | c args extra.
        cmd = c # args @ extra \<and> c \<in> set (alternatives t) \<and>
        list_all2 (\<lambda>p a. a \<in> set (alternatives p)) ts args}"

definition lookup_rules :: "(rstr, prefix_rule) multi_map \<Rightarrow> rstr \<Rightarrow> prefix_rule list" where
  "lookup_rules m k = or_default (map_of m k)"

definition host_entry_ok :: "rstr \<Rightarrow> absolute_path list \<Rightarrow> bool" where
  "host_entry_ok name paths \<longleftrightarrow> proper_component name \<and> distinct paths \<and>
     (\<forall>path \<in> set paths. normal_path path \<and> file_name path = Some name)"

text \<open>
  A builder is well formed: rules are indexed by their program, the rules of every validation are in
  the policy, and the listed paths of an executable end in its name.
\<close>

definition builder_ok :: "policy_builder \<Rightarrow> bool" where
  "builder_ok b \<longleftrightarrow> index_ok (b_rules_by_program b) \<and>
     (\<forall>v \<in> set (pending_example_validations b). \<forall>r \<in> set (val_rules v).
        r \<in> set (lookup_rules (b_rules_by_program b) (rule_program r))) \<and>
     (\<forall>name paths. b_host_executables_by_name b name = Some paths \<longrightarrow> host_entry_ok name paths)"

text \<open>Parsing several files one after the other, going on after a file that fails.\<close>

definition parse_files :: "'s host_language \<Rightarrow> host_env \<Rightarrow> (rstr \<times> rstr) list \<Rightarrow> policy_builder" where
  "parse_files st env files = foldl (\<lambda>b (ident, contents). fst (parse st env ident contents b)) builder_new files"

section \<open>Collecting\<close>

lemma collect_map_Ok_iff: "collect_map f xs = Ok ys \<longleftrightarrow> list_all2 (\<lambda>x y. f x = Ok y) xs ys"
  by (induction xs arbitrary: ys) (auto simp: list_all2_Cons1)

lemma collect_map_Ok_elem: "collect_map f xs = Ok ys \<Longrightarrow> x \<in> set xs \<Longrightarrow> \<exists>y \<in> set ys. f x = Ok y"
  unfolding collect_map_Ok_iff by (induction rule: list_all2_induct) auto

section \<open>Names of executables\<close>

lemma named_components_proper:
  "list_all proper_component cs \<Longrightarrow> named_components cs = map Normal cs"
  by (induction cs) (auto simp: proper_component_def)

lemma validate_host_executable_name_Ok_iff:
  "validate_host_executable_name name = Ok () \<longleftrightarrow> proper_component name"
proof
  assume "proper_component name"
  then have "split_char 47 name = [name]" "\<not> path_is_absolute name" "name \<noteq> []" "name \<noteq> lit ''.''"
    by (auto simp: proper_component_def split_char_no_sep path_is_absolute_def starts_with_iff_prefix prefix_def)
  moreover have "named_components [name] = [Normal name]"
    using \<open>proper_component name\<close> named_components_proper[of "[name]"] by (simp del: named_components.simps)
  ultimately show "validate_host_executable_name name = Ok ()"
    by (simp add: validate_host_executable_name_def path_components_def path_file_name_def)
next
  assume ok: "validate_host_executable_name name = Ok ()"
  then have n: "name \<noteq> []" "length (path_components name) = 1" "path_file_name name = Some name"
    by (auto simp: validate_host_executable_name_def split: if_splits)
  then have c: "path_components name = [Normal name]"
    by (cases "path_components name") (auto simp: path_file_name_def split: path_component.splits)
  have named: "Normal c \<in> set (named_components cs) \<Longrightarrow> c \<in> set cs \<and> c \<noteq> [] \<and> c \<noteq> lit ''.'' \<and> c \<noteq> lit ''..''" for c cs
    by (induction cs) (auto split: if_splits)
  have "Normal name \<in> set (named_components (split_char 47 name))"
    using c by (auto simp: path_components_def Let_def split: if_splits)
  with named[OF this] show "proper_component name"
    using split_char_pieces_no_sep[of name 47 name] by (auto simp: proper_component_def)
qed

section \<open>What a rule adds\<close>

lemma lookup_insert:
  "lookup_rules (multi_insert (rule_program r) r m) k =
     lookup_rules m k @ (if rule_program r = k then [r] else [])"
  by (simp add: lookup_rules_def get_multi_insert or_default_def)

lemma lookup_insert_rules:
  "lookup_rules (foldl (\<lambda>m r. multi_insert (rule_program r) r m) m rs) k =
     lookup_rules m k @ filter (\<lambda>r. rule_program r = k) rs"
  by (induction rs arbitrary: m) (auto simp: lookup_insert)

lemma index_ok_insert_rules:
  "index_ok m \<Longrightarrow> index_ok (foldl (\<lambda>m r. multi_insert (rule_program r) r m) m rs)"
  by (induction rs arbitrary: m) (auto intro: index_ok_insert)

lemma fold_add_rule:
  "fold add_rule rs b = b\<lparr>b_rules_by_program := foldl (\<lambda>m r. multi_insert (rule_program r) r m) (b_rules_by_program b) rs\<rparr>"
  by (induction rs arbitrary: b) (auto simp: add_rule_def)

lemma exact_matches:
  "or_default (match_exact_rules p cmd) =
     (case cmd of [] \<Rightarrow> [] | c # _ \<Rightarrow> List.map_filter (\<lambda>r. rule_matches r cmd) (lookup_rules (rules_by_program p) c))"
proof (cases cmd)
  case Nil
  then show ?thesis by (simp add: match_exact_rules_def or_default_def)
next
  case (Cons c cs)
  have some: "or_default (Some xs) = xs" for xs :: "rule_match list"
    by (simp add: or_default_def)
  show ?thesis unfolding Cons match_exact_or_default some lookup_rules_def by simp
qed

lemma map_filter_set: "set (List.map_filter f xs) = {y. \<exists>x \<in> set xs. f x = Some y}"
  by (force simp: List.map_filter_def)

lemma exact_matches_set:
  "set (or_default (match_exact_rules p cmd)) =
     {m. \<exists>r. cmd \<noteq> [] \<and> r \<in> set (lookup_rules (rules_by_program p) (hd cmd)) \<and> rule_matches r cmd = Some m}"
  by (cases cmd) (auto simp: exact_matches map_filter_set)

lemma expand_rules_matches:
  "{m. \<exists>r \<in> set (expand_rules t ts d j). rule_matches r cmd = Some m} = pattern_matches t ts d j cmd"
  by (auto simp: expand_rules_def pattern_matches_def rule_matches_Some_iff rule_program_def)

lemma prefix_rule_builtin_Ok:
  assumes "prefix_rule_builtin st pat d ms nms j span b = (Ok b' :: (policy_builder, 's policy_error) result)"
  obtains dec t ts exs nexs where
    "(case d of Some raw \<Rightarrow> parse_decision raw | None \<Rightarrow> Ok Allow) = (Ok dec :: (decision, 's policy_error) result)"
    "parse_pattern pat = (Ok (t # ts) :: (pattern_token list, 's policy_error) result)"
    "optional_examples st ms = Ok exs" "optional_examples st nms = Ok nexs" "\<not> blank_justification j"
    "b' = fold add_rule (expand_rules t ts dec j)
        (add_pending_example_validation (expand_rules t ts dec j) exs nexs (map_option error_location_from_file_span span) b)"
proof -
  obtain dec toks exs nexs where h:
    "(case d of Some raw \<Rightarrow> parse_decision raw | None \<Rightarrow> Ok Allow) = (Ok dec :: (decision, 's policy_error) result)"
    "parse_pattern pat = (Ok toks :: (pattern_token list, 's policy_error) result)"
    "optional_examples st ms = Ok exs" "optional_examples st nms = Ok nexs" "\<not> blank_justification j"
    "(case toks of [] \<Rightarrow> Err (InvalidPattern (lit ''pattern cannot be empty'')) | t # ts \<Rightarrow>
        Ok (fold add_rule (expand_rules t ts dec j)
          (add_pending_example_validation (expand_rules t ts dec j) exs nexs
            (map_option error_location_from_file_span span) b))) = (Ok b' :: (policy_builder, 's policy_error) result)"
    using assms unfolding prefix_rule_builtin_def Let_def by (auto simp: check_justification_def split: if_splits)
  show thesis
    using h by (cases toks) (auto intro!: that)
qed

text \<open>
  A \<open>prefix_rule\<close> adds exactly its pattern. A call that succeeds has a non-empty pattern; afterwards
  the policy under construction reports for every command what it reported before, and the match of the
  new pattern if the command starts with one of its readings, with the call's decision (allow when it
  gives none) and justification. Splitting the alternatives of the first token over several rules
  loses and adds nothing.
\<close>

theorem prefix_rule_adds_pattern:
  assumes "prefix_rule_builtin st pat d ms nms j span b = (Ok b' :: (policy_builder, 's policy_error) result)"
  shows "\<exists>t ts dec. parse_pattern pat = (Ok (t # ts) :: (pattern_token list, 's policy_error) result) \<and>
    (case d of Some raw \<Rightarrow> parse_decision raw | None \<Rightarrow> Ok Allow) = (Ok dec :: (decision, 's policy_error) result) \<and>
    (\<forall>cmd. set (or_default (match_exact_rules (build b') cmd)) =
       set (or_default (match_exact_rules (build b) cmd)) \<union> pattern_matches t ts dec j cmd)"
proof -
  obtain dec t ts exs nexs where h:
    "(case d of Some raw \<Rightarrow> parse_decision raw | None \<Rightarrow> Ok Allow) = (Ok dec :: (decision, 's policy_error) result)"
    "parse_pattern pat = (Ok (t # ts) :: (pattern_token list, 's policy_error) result)"
    "b' = fold add_rule (expand_rules t ts dec j)
        (add_pending_example_validation (expand_rules t ts dec j) exs nexs (map_option error_location_from_file_span span) b)"
    using prefix_rule_builtin_Ok[OF assms] by metis
  have look: "lookup_rules (rules_by_program (build b')) k =
      lookup_rules (rules_by_program (build b)) k @ filter (\<lambda>r. rule_program r = k) (expand_rules t ts dec j)" for k
    by (simp add: h(3) fold_add_rule build_def policy_from_parts_def add_pending_example_validation_def lookup_insert_rules)
  have "set (or_default (match_exact_rules (build b') cmd)) =
      set (or_default (match_exact_rules (build b) cmd)) \<union> pattern_matches t ts dec j cmd" for cmd
    unfolding exact_matches_set look expand_rules_matches[symmetric]
    using rule_matches_program by fastforce
  with h show ?thesis by blast
qed

section \<open>The builder stays well formed\<close>

lemma builder_ok_new: "builder_ok builder_new"
  by (simp add: builder_ok_def builder_new_def index_ok_def)

lemma prefix_rule_builder_ok:
  assumes "builder_ok b" and "prefix_rule_builtin st pat d ms nms j span b = Ok b'"
  shows "builder_ok b'"
proof -
  obtain dec t ts exs nexs where b': "b' = fold add_rule (expand_rules t ts dec j)
      (add_pending_example_validation (expand_rules t ts dec j) exs nexs (map_option error_location_from_file_span span) b)"
    using prefix_rule_builtin_Ok[OF assms(2)] by metis
  show ?thesis
    using assms(1)
    by (auto simp: b' builder_ok_def fold_add_rule add_pending_example_validation_def lookup_insert_rules index_ok_insert_rules)
qed

lemma network_rule_builder_ok:
  "builder_ok b \<Longrightarrow> network_rule_builtin h proto d j b = Ok b' \<Longrightarrow> builder_ok b'"
  by (auto simp: network_rule_builtin_def builder_add_network_rule_def builder_ok_def)

lemma host_executable_path_Ok:
  assumes "host_executable_path st env name v = Ok path"
  shows "normal_path path \<and> file_name path = Some name"
proof -
  obtain raw where "parse_literal_absolute_path st env raw = Ok path" "executable_path_lookup_key path = Some name"
    using assms unfolding host_executable_path_def executable_lookup_key_def Let_def
    by (cases "unpack_str v") (auto split: if_splits option.splits)
  then show ?thesis
    by (auto simp: parse_literal_absolute_path_def executable_path_lookup_key_def executable_lookup_key_def
        from_absolute_path_def absolutize_normal split: if_splits option.splits)
qed

lemma host_executable_paths_Ok:
  "host_executable_paths st env name vs parsed = Ok paths \<Longrightarrow> distinct parsed \<Longrightarrow>
     \<forall>path \<in> set parsed. normal_path path \<and> file_name path = Some name \<Longrightarrow>
     distinct paths \<and> (\<forall>path \<in> set paths. normal_path path \<and> file_name path = Some name)"
proof (induction vs arbitrary: parsed)
  case Nil
  then show ?case by simp
next
  case (Cons v vs)
  obtain path where path: "host_executable_path st env name v = Ok path"
    and more: "host_executable_paths st env name vs (if path \<in> set parsed then parsed else parsed @ [path]) = Ok paths"
    using Cons.prems(1) unfolding host_executable_paths.simps bind_result_Ok_iff by blast
  show ?case
  proof (rule Cons.IH[OF more])
    show "distinct (if path \<in> set parsed then parsed else parsed @ [path])"
      using Cons.prems(2) by simp
    show "\<forall>p \<in> set (if path \<in> set parsed then parsed else parsed @ [path]). normal_path p \<and> file_name p = Some name"
      using Cons.prems(3) host_executable_path_Ok[OF path] by simp
  qed
qed

lemma host_executable_builder_ok:
  assumes "builder_ok b" and "host_executable_builtin st env name vs b = Ok b'"
  shows "builder_ok b'"
proof -
  obtain parsed where "validate_host_executable_name name = (Ok () :: (unit, 'a policy_error) result)"
      and parsed: "host_executable_paths st env name vs [] = Ok parsed"
      and b': "b' = add_host_executable name parsed b"
    using assms(2) by (auto simp: host_executable_builtin_def executable_lookup_key_def)
  then have "host_entry_ok name parsed"
    using host_executable_paths_Ok[OF parsed] by (simp add: host_entry_ok_def validate_host_executable_name_Ok_iff)
  with assms(1) show ?thesis
    by (auto simp: b' builder_ok_def add_host_executable_def)
qed

lemma run_call_builder_ok: "builder_ok b \<Longrightarrow> run_call st env c b = Ok b' \<Longrightarrow> builder_ok b'"
  by (cases c) (auto intro: prefix_rule_builder_ok network_rule_builder_ok host_executable_builder_ok)

lemma run_calls_builder_ok: "builder_ok b \<Longrightarrow> builder_ok (fst (run_calls st env cs b))"
  by (induction cs arbitrary: b) (auto split: result.splits intro: run_call_builder_ok)

lemma parse_fst: "fst (parse st env ident contents b) = fst (run_calls st env (fst (evaluate st ident contents)) b)"
  by (auto simp: parse_def Let_def split: prod.splits result.splits option.splits)

lemma parse_builder_ok: "builder_ok b \<Longrightarrow> builder_ok (fst (parse st env ident contents b))"
  by (simp add: parse_fst run_calls_builder_ok)

lemma parse_files_builder_ok: "builder_ok (parse_files st env files)"
proof -
  have "builder_ok (foldl (\<lambda>b (ident, contents). fst (parse st env ident contents b)) b files)" if "builder_ok b" for b
    using that by (induction files arbitrary: b) (auto simp: parse_builder_ok)
  then show ?thesis by (simp add: parse_files_def builder_ok_new)
qed

text \<open>
  C26: Policies built from files are well formed. Whatever files a \<open>PolicyParser\<close> reads, whether they parse
  or fail half way, the policy it builds keeps each rule under its own program and every rule whose
  examples it holds; and an executable with listed paths has a bare name, and distinct absolute paths
  that end in that name.
\<close>

theorem parsed_policy_well_formed:
  "index_ok (rules_by_program (build (parse_files st env files))) \<and>
   (\<Union>v \<in> set (pending_example_validations (parse_files st env files)). set (val_rules v))
      \<subseteq> set (all_rules (build (parse_files st env files))) \<and>
   (\<forall>name. case host_executables_by_name (build (parse_files st env files)) name of
      None \<Rightarrow> True
    | Some paths \<Rightarrow> proper_component name \<and> distinct paths \<and>
        list_all (\<lambda>path. list_all proper_component path \<and> last_opt path = Some name) paths)"
proof -
  let ?b = "parse_files st env files"
  have ok: "builder_ok ?b" by (rule parse_files_builder_ok)
  have "r \<in> set (all_rules (build ?b))" if "r \<in> set (lookup_rules (b_rules_by_program ?b) k)" for r k
    using that by (cases "map_of (b_rules_by_program ?b) k")
      (force simp: all_rules_def build_def policy_from_parts_def lookup_rules_def or_default_def dest: map_of_SomeD)+
  with ok show ?thesis
    by (auto simp: builder_ok_def build_def policy_from_parts_def host_entry_ok_def normal_path_def file_name_def
        list_all_iff split: option.splits)
qed

section \<open>Examples\<close>

lemma matches_no_fallback: "matches_for_command_with_options env p cmd None resolve = matched_rules_of env p resolve cmd"
  by (simp add: matches_for_command_with_options_def Let_def)

lemma match_host_lookup:
  "match_host_executable_rules env p (prog # args) =
     (case from_absolute_path (current_dir env) (home_dir env) prog of
        None \<Rightarrow> []
      | Some program \<Rightarrow>
     (case executable_path_lookup_key program of
        None \<Rightarrow> []
      | Some base \<Rightarrow>
         (if case host_executables_by_name p base of None \<Rightarrow> False | Some paths \<Rightarrow> program \<notin> set paths then []
          else map (with_resolved_program program)
            (List.map_filter (\<lambda>r. rule_matches r (base # args)) (lookup_rules (rules_by_program p) base)))))"
  by (auto simp: match_host_executable_rules_def lookup_rules_def or_default_def list_ex_iff List.map_filter_def
      split: option.splits)

lemma map_filter_Nil_iff: "List.map_filter f xs = [] \<longleftrightarrow> (\<forall>x \<in> set xs. f x = None)"
  by (auto simp: List.map_filter_def filter_empty_conv)

text \<open>More rules never lose a match.\<close>

lemma matched_rules_mono:
  assumes sub: "\<And>k. set (lookup_rules (rules_by_program p) k) \<subseteq> set (lookup_rules (rules_by_program q) k)"
    and hosts: "host_executables_by_name p = host_executables_by_name q"
    and "matched_rules_of env p resolve cmd \<noteq> []"
  shows "matched_rules_of env q resolve cmd \<noteq> []"
proof (cases "or_default (match_exact_rules p cmd) = []")
  case False
  then have "or_default (match_exact_rules q cmd) \<noteq> []"
    using sub by (cases cmd) (auto simp: exact_matches map_filter_Nil_iff)
  then show ?thesis
    by (auto simp: matched_rules_of_def or_default_def split: option.splits list.splits)
next
  case True
  then have r: "resolve" and ne: "match_host_executable_rules env p cmd \<noteq> []"
    using assms(3) by (auto simp: matched_rules_of_def or_default_def split: option.splits list.splits if_splits)
  obtain prog args where cmd: "cmd = prog # args"
    using ne by (cases cmd) (auto simp: match_host_executable_rules_def)
  have "match_host_executable_rules env q cmd \<noteq> []"
    using ne sub hosts unfolding cmd match_host_lookup
    by (auto simp: map_filter_Nil_iff split: option.splits if_splits) blast+
  with r show ?thesis
    by (auto simp: matched_rules_of_def split: option.splits list.splits)
qed

lemma no_match_no_rule:
  assumes "matched_rules_of env p resolve cmd = []" and "r \<in> set (lookup_rules (rules_by_program p) (rule_program r))"
  shows "rule_matches r cmd = None"
proof (rule ccontr)
  assume "rule_matches r cmd \<noteq> None"
  then obtain m where m: "rule_matches r cmd = Some m" by blast
  have "or_default (match_exact_rules p cmd) = []"
    using assms(1) by (auto simp: matched_rules_of_def or_default_def split: option.splits list.splits)
  moreover have "m \<in> set (or_default (match_exact_rules p cmd))"
    using m assms(2) rule_matches_program[OF m] by (auto simp: exact_matches_set)
  ultimately show False by simp
qed

lemma validate_match_examples_Ok:
  "validate_match_examples st env p rs exs = Ok () \<longleftrightarrow> (\<forall>ex \<in> set exs. matched_rules_of env p True ex \<noteq> [])"
  by (auto simp: validate_match_examples_def Let_def matches_no_fallback filter_empty_conv)

lemma validate_not_match_examples_Ok:
  "validate_not_match_examples st env p exs = Ok () \<longleftrightarrow> (\<forall>ex \<in> set exs. matched_rules_of env p True ex = [])"
  by (induction exs) (auto simp: matches_no_fallback split: list.splits)

lemma run_validation_Ok:
  "run_validation st env hosts v = Ok () \<longleftrightarrow>
     (\<forall>ex \<in> set (val_not_matches v). matched_rules_of env (validation_policy hosts v) True ex = []) \<and>
     (\<forall>ex \<in> set (val_matches v). matched_rules_of env (validation_policy hosts v) True ex \<noteq> [])"
  by (auto simp: run_validation_def Let_def validate_match_examples_Ok validate_not_match_examples_Ok)

lemma run_validations_Ok:
  "run_validations st env hosts vs = Ok () \<longleftrightarrow> (\<forall>v \<in> set vs. run_validation st env hosts v = Ok ())"
  by (induction vs) auto

lemma validation_lookup:
  "lookup_rules (rules_by_program (validation_policy hosts v)) k = filter (\<lambda>r. rule_program r = k) (val_rules v)"
  by (simp add: validation_policy_def policy_from_parts_def lookup_insert_rules) (simp add: lookup_rules_def or_default_def)

lemma validation_holds:
  assumes "builder_ok b" and "v \<in> set (pending_example_validations b)"
    and "run_validation st env (b_host_executables_by_name b) v = Ok ()"
  shows "(\<forall>ex \<in> set (val_matches v). matched_rules_of env (build b) True ex \<noteq> []) \<and>
         (\<forall>ex \<in> set (val_not_matches v). \<forall>r \<in> set (val_rules v). rule_matches r ex = None)"
proof -
  let ?p = "validation_policy (b_host_executables_by_name b) v"
  have "set (lookup_rules (rules_by_program ?p) k) \<subseteq> set (lookup_rules (rules_by_program (build b)) k)" for k
    using assms(1,2) by (auto simp: validation_lookup builder_ok_def build_def policy_from_parts_def)
  moreover have "host_executables_by_name ?p = host_executables_by_name (build b)"
    by (simp add: validation_policy_def build_def policy_from_parts_def)
  ultimately have "matched_rules_of env (build b) True ex \<noteq> []" if "matched_rules_of env ?p True ex \<noteq> []" for ex
    using matched_rules_mono that by blast
  moreover have "rule_matches r ex = None" if "matched_rules_of env ?p True ex = []" "r \<in> set (val_rules v)" for r ex
    using no_match_no_rule[OF that(1), of r] that(2) by (simp add: validation_lookup)
  ultimately show ?thesis
    using assms(3) by (simp add: run_validation_Ok)
qed

text \<open>Every validation that the calls of a program leave behind, the later ones included.\<close>

lemma run_call_pending:
  assumes "run_call st env c b = Ok b'"
  shows "\<exists>vs. pending_example_validations b' = pending_example_validations b @ vs \<and>
    (\<forall>pat d ms nms j span. c = PrefixRuleCall pat d ms nms j span \<longrightarrow>
       (\<exists>t ts dec exs nexs l. parse_pattern pat = (Ok (t # ts) :: (pattern_token list, 's policy_error) result) \<and>
          optional_examples st ms = (Ok exs :: (rstr list list, 's policy_error) result) \<and> optional_examples st nms = Ok nexs \<and>
          vs = [\<lparr>val_rules = expand_rules t ts dec j, val_matches = exs, val_not_matches = nexs, val_location = l\<rparr>]))"
proof (cases c)
  case (PrefixRuleCall pat d ms nms j span)
  then show ?thesis
    using assms by (auto elim!: prefix_rule_builtin_Ok simp: fold_add_rule add_pending_example_validation_def)
next
  case (NetworkRuleCall h proto d j)
  then show ?thesis
    using assms by (auto simp: network_rule_builtin_def builder_add_network_rule_def)
next
  case (HostExecutableCall name paths)
  then show ?thesis
    using assms by (auto simp: host_executable_builtin_def add_host_executable_def)
qed

lemma run_calls_pending:
  assumes "run_calls st env cs b = (b', Ok ())"
  shows "\<exists>vs. pending_example_validations b' = pending_example_validations b @ vs \<and>
    (\<forall>pat d ms nms j span. PrefixRuleCall pat d ms nms j span \<in> set cs \<longrightarrow>
       (\<exists>t ts dec exs nexs l. parse_pattern pat = (Ok (t # ts) :: (pattern_token list, 's policy_error) result) \<and>
          optional_examples st ms = (Ok exs :: (rstr list list, 's policy_error) result) \<and> optional_examples st nms = Ok nexs \<and>
          \<lparr>val_rules = expand_rules t ts dec j, val_matches = exs, val_not_matches = nexs, val_location = l\<rparr> \<in> set vs))"
  using assms
proof (induction cs arbitrary: b)
  case Nil
  then show ?case by simp
next
  case (Cons c cs)
  obtain b1 where b1: "run_call st env c b = Ok b1" "run_calls st env cs b1 = (b', Ok ())"
    using Cons.prems by (auto split: result.splits)
  from run_call_pending[OF b1(1)] Cons.IH[OF b1(2)] show ?case
    by (elim exE conjE) (rule exI, rule conjI, simp, fastforce)
qed

lemma optional_examples_elem:
  "optional_examples st xs = Ok exs \<Longrightarrow> x \<in> set (or_default xs) \<Longrightarrow> \<exists>ex \<in> set exs. parse_example st x = Ok ex"
  by (auto simp: optional_examples_def parse_examples_def or_default_def split: option.splits dest: collect_map_Ok_elem)

lemma parse_Ok:
  assumes "parse st env ident contents b = (b', Ok ())"
  shows "run_calls st env (fst (evaluate st ident contents)) b = (b', Ok ())"
    and "validate_pending_examples_from st env (length (pending_example_validations b)) b' = Ok ()"
  using assms by (auto simp: parse_def Let_def split: prod.splits result.splits option.splits)

text \<open>
  C24: A policy file that parses tells the truth about itself. After a file has been parsed without error,
  on top of whatever files came before, every positive example of every \<open>prefix_rule\<close> call in it is a
  command the policy built so far decides, and no negative example is a command the call's own pattern
  describes.
\<close>

theorem parse_ok_examples_hold:
  assumes "parse st env ident contents (parse_files st env files) = (b', Ok ())"
    and "PrefixRuleCall pat d ms nms j span \<in> set (fst (evaluate st ident contents))"
  shows "(\<forall>x \<in> set (or_default ms). \<exists>ex. parse_example st x = Ok ex \<and> matched_rules_of env (build b') True ex \<noteq> []) \<and>
    (\<exists>t ts. parse_pattern pat = (Ok (t # ts) :: (pattern_token list, 's policy_error) result) \<and>
       (\<forall>x \<in> set (or_default nms). \<exists>ex. parse_example st x = (Ok ex :: (rstr list, 's policy_error) result) \<and>
          (\<forall>dec. pattern_matches t ts dec j ex = {})))"
proof -
  let ?b = "parse_files st env files"
  note runs = parse_Ok[OF assms(1)]
  obtain vs where vs: "pending_example_validations b' = pending_example_validations ?b @ vs"
    and calls: "\<And>pat d ms nms j span. PrefixRuleCall pat d ms nms j span \<in> set (fst (evaluate st ident contents)) \<Longrightarrow>
       (\<exists>t ts dec exs nexs l. parse_pattern pat = (Ok (t # ts) :: (pattern_token list, 's policy_error) result) \<and>
          optional_examples st ms = (Ok exs :: (rstr list list, 's policy_error) result) \<and> optional_examples st nms = Ok nexs \<and>
          \<lparr>val_rules = expand_rules t ts dec j, val_matches = exs, val_not_matches = nexs, val_location = l\<rparr> \<in> set vs)"
    using run_calls_pending[OF runs(1)] by blast
  obtain t ts dec exs nexs l where c: "parse_pattern pat = (Ok (t # ts) :: (pattern_token list, 's policy_error) result)"
      "optional_examples st ms = (Ok exs :: (rstr list list, 's policy_error) result)" "optional_examples st nms = Ok nexs"
      and v: "\<lparr>val_rules = expand_rules t ts dec j, val_matches = exs, val_not_matches = nexs, val_location = l\<rparr> \<in> set vs"
      (is "?v \<in> _")
    using calls[OF assms(2)] by blast
  have ok: "builder_ok b'"
    using run_calls_builder_ok[OF parse_files_builder_ok] runs(1) by (metis fst_conv)
  have holds: "run_validation st env (b_host_executables_by_name b') ?v = Ok ()"
    using runs(2) v by (simp add: validate_pending_examples_from_def run_validations_Ok vs)
  have h: "\<forall>ex \<in> set exs. matched_rules_of env (build b') True ex \<noteq> []"
      "\<forall>ex \<in> set nexs. \<forall>r \<in> set (expand_rules t ts dec j). rule_matches r ex = None"
    using validation_holds[OF ok _ holds] v vs by simp_all
  have "pattern_matches t ts dec' j ex = {}" if "ex \<in> set nexs" for ex dec'
  proof -
    have "pattern_matches t ts dec j ex = {}"
      using h(2) that by (auto simp: expand_rules_matches[symmetric])
    then show ?thesis by (auto simp: pattern_matches_def)
  qed
  with h(1) c show ?thesis
    using optional_examples_elem[OF c(2)] optional_examples_elem[OF c(3)] by blast
qed

section \<open>A sample file\<close>

definition sample_call :: builtin_call where
  "sample_call = PrefixRuleCall [StarlarkList [StarlarkStr [1], StarlarkStr [2]], StarlarkStr [3]] None
     (Some [StarlarkList [StarlarkStr [2], StarlarkStr [3], StarlarkStr [4]]])
     (Some [StarlarkList [StarlarkStr [1], StarlarkStr [4]]]) None None"

definition sample_language :: "unit host_language" where
  "sample_language = \<lparr>evaluate = (\<lambda>_ _. ([sample_call], None)), wrap_error = (\<lambda>_. ()), error_span = (\<lambda>_. None),
     shlex_split = (\<lambda>s. Some [s]), shlex_join = (\<lambda>_. None), debug_rule = (\<lambda>_. []), debug_match = (\<lambda>_. []), cwd_error = []\<rparr>"

definition sample_builder :: policy_builder where
  "sample_builder = (let r = (\<lambda>p. \<lparr>pattern = \<lparr>first = [p], rest = [Single [3]]\<rparr>, rule_decision = Allow, justification = None\<rparr>) in
     \<lparr>b_rules_by_program = [([1], [r 1]), ([2], [r 2])], b_network_rules = [], b_host_executables_by_name = (\<lambda>_. None),
      pending_example_validations =
        [\<lparr>val_rules = [r 1, r 2], val_matches = [[[2], [3], [4]]], val_not_matches = [[[1], [4]]], val_location = None\<rparr>]\<rparr>)"

lemmas builder_eval = sample_call_def sample_language_def sample_builder_def Let_def prefix_rule_builtin_def
  check_justification_def blank_justification_def parse_pattern_def optional_examples_def parse_examples_def
  parse_list_example_def example_token_def pattern_alternative_def expand_rules_def fold_add_rule rule_program_def
  add_pending_example_validation_def builder_new_def

lemma sample_call_runs: "run_call sample_language sample_env sample_call builder_new = Ok sample_builder"
  by (simp add: builder_eval)

lemma prefix_rule_adds_pattern_witness:
  "\<exists>b' t ts dec. prefix_rule_builtin sample_language [StarlarkList [StarlarkStr [1], StarlarkStr [2]], StarlarkStr [3]] None
     (Some [StarlarkList [StarlarkStr [2], StarlarkStr [3], StarlarkStr [4]]])
     (Some [StarlarkList [StarlarkStr [1], StarlarkStr [4]]]) None None builder_new = Ok b' \<and>
   set (or_default (match_exact_rules (build b') [[2], [3], [5]])) =
     set (or_default (match_exact_rules (build builder_new) [[2], [3], [5]])) \<union> pattern_matches t ts dec None [[2], [3], [5]]"
proof -
  have "prefix_rule_builtin sample_language [StarlarkList [StarlarkStr [1], StarlarkStr [2]], StarlarkStr [3]] None
     (Some [StarlarkList [StarlarkStr [2], StarlarkStr [3], StarlarkStr [4]]])
     (Some [StarlarkList [StarlarkStr [1], StarlarkStr [4]]]) None None builder_new = Ok sample_builder"
    using sample_call_runs unfolding sample_call_def run_call.simps .
  from prefix_rule_adds_pattern[OF this] this show ?thesis by blast
qed

lemma parse_ok_examples_hold_witness:
  "parse sample_language sample_env [] [] builder_new = (sample_builder, Ok ()) \<and>
   matched_rules_of sample_env (build sample_builder) True [[2], [3], [4]] \<noteq> []"
proof -
  have "run_calls sample_language sample_env [sample_call] builder_new = (sample_builder, Ok ())"
    by (simp add: sample_call_runs)
  moreover have "validate_pending_examples_from sample_language sample_env 0 sample_builder = Ok ()"
    by (simp add: validate_pending_examples_from_def run_validations_Ok run_validation_Ok validation_policy_def
        policy_from_parts_def matched_rules_of_def match_exact_rules_def match_host_executable_rules_def
        rule_matches_def matches_prefix_def List.map_filter_def sample_builder_def Let_def rule_program_def
        sample_env_def from_absolute_path_def absolutize_def absolutize_from_def join_path_def
        path_is_absolute_def starts_with_def maybe_expand_home_directory_def normalize_path_def normalize_step_def lit_def
        executable_path_lookup_key_def executable_lookup_key_def file_name_def)
  ultimately have p: "parse sample_language sample_env [] [] (parse_files sample_language sample_env []) = (sample_builder, Ok ())"
    by (simp add: parse_def parse_files_def sample_language_def builder_new_def)
  from parse_ok_examples_hold[OF p, of "[StarlarkList [StarlarkStr [1], StarlarkStr [2]], StarlarkStr [3]]" None
      "Some [StarlarkList [StarlarkStr [2], StarlarkStr [3], StarlarkStr [4]]]"
      "Some [StarlarkList [StarlarkStr [1], StarlarkStr [4]]]" None None] p
  show ?thesis
    by (simp add: parse_files_def or_default_def parse_list_example_def example_token_def)
      (simp add: sample_language_def sample_call_def)
qed

end
