(* ===== verification/Exec_Policy_Amend.thy ===== *)
theory Exec_Policy_Amend
  imports Exec_Policy Patch_Types
begin

text \<open>
  \<open>execpolicy/src/amend.rs\<close> and \<open>sandbox_migration.rs\<close>: saving a rule the user has approved in a policy
  file, and removing saved rules that are no longer offered.

  The file system is the record \<open>policy_fs\<close> of the calls the code makes; what the code relies on is
  \<open>policy_files\<close>. JSON encoding and decoding (\<open>serde_json\<close>) is the record \<open>json_ops\<close>. The lemmas show that
  a saved rule becomes a line of the file exactly once and other lines stay, and that the migration
  removes exactly the banned rules, once.
\<close>

section \<open>Files and encodings\<close>

record ('p, 'w) policy_fs =
  parent_dir :: "'p \<Rightarrow> 'p option"
  create_dir :: "'p \<Rightarrow> 'w \<Rightarrow> 'w \<times> (unit, io_error) result"
  open_append :: "'p \<Rightarrow> 'w \<Rightarrow> 'w \<times> (unit, io_error) result"
  lock_file :: "'p \<Rightarrow> 'w \<Rightarrow> 'w \<times> (unit, io_error) result"
  seek_start :: "'p \<Rightarrow> 'w \<Rightarrow> 'w \<times> (unit, io_error) result"
  read_contents :: "'p \<Rightarrow> 'w \<Rightarrow> (rstr, io_error) result"
  append_all :: "'p \<Rightarrow> rstr \<Rightarrow> 'w \<Rightarrow> 'w \<times> (unit, io_error) result"
  try_exists :: "'p \<Rightarrow> 'w \<Rightarrow> (bool, io_error) result"
  open_rw :: "'p \<Rightarrow> 'w \<Rightarrow> 'w \<times> (unit, io_error) result"
  overwrite_all :: "'p \<Rightarrow> rstr \<Rightarrow> 'w \<Rightarrow> 'w \<times> (unit, io_error) result"
  set_len :: "'p \<Rightarrow> nat \<Rightarrow> 'w \<Rightarrow> 'w \<times> (unit, io_error) result"
  create_dir_all :: "'p \<Rightarrow> 'w \<Rightarrow> 'w \<times> (unit, io_error) result"
  persist_noclobber :: "'p \<Rightarrow> 'p \<Rightarrow> rstr \<Rightarrow> 'w \<Rightarrow> 'w \<times> (unit, io_error) result"

record json_ops =
  json_string :: "rstr \<Rightarrow> (rstr, rstr) result"
  json_strings_of :: "rstr \<Rightarrow> rstr list option"

text \<open>The length of a text in UTF-8 bytes, as \<open>String::len\<close> gives it.\<close>

definition utf8_len :: "rstr \<Rightarrow> nat" where
  "utf8_len s = sum_list (map (\<lambda>c. if c < 0x80 then 1 else if c < 0x800 then 2 else if c < 0x10000 then 3 else 4) s)"

datatype 'p amend_error =
    EmptyPrefix
  | InvalidNetworkRule rstr
  | MissingParent 'p
  | CreatePolicyDir 'p io_error
  | SerializePrefix rstr
  | SerializeNetworkRule rstr
  | OpenPolicyFile 'p io_error
  | WritePolicyFile 'p io_error
  | LockPolicyFile 'p io_error
  | SeekPolicyFile 'p io_error
  | ReadPolicyFile 'p io_error
  | PolicyMetadata 'p io_error

text \<open>A step that may fail: go on in the new world, or stop there with the error.\<close>

definition io_then ::
  "('e \<Rightarrow> 'f) \<Rightarrow> 'w \<times> ('a, 'e) result \<Rightarrow> ('w \<Rightarrow> 'a \<Rightarrow> 'w \<times> ('b, 'f) result) \<Rightarrow> 'w \<times> ('b, 'f) result"
where
  "io_then f r k = (case r of (w, Ok x) \<Rightarrow> k w x | (w, Err e) \<Rightarrow> (w, Err (f e)))"

section \<open>Appending a rule\<close>

definition append_locked_line ::
  "('p, 'w) policy_fs \<Rightarrow> 'p \<Rightarrow> rstr \<Rightarrow> 'w \<Rightarrow> 'w \<times> (unit, 'p amend_error) result"
where
  "append_locked_line fs path ln w =
     io_then (OpenPolicyFile path) (open_append fs path w) (\<lambda>w _.
     io_then (LockPolicyFile path) (lock_file fs path w) (\<lambda>w _.
     io_then (SeekPolicyFile path) (seek_start fs path w) (\<lambda>w _.
     io_then (ReadPolicyFile path) (w, read_contents fs path w) (\<lambda>w contents.
     if ln \<in> set (lines contents) then (w, Ok ())
     else io_then (WritePolicyFile path)
         (if contents \<noteq> [] \<and> \<not> ends_with contents [LF] then append_all fs path [LF] w else (w, Ok ())) (\<lambda>w _.
       io_then (WritePolicyFile path) (append_all fs path (ln @ [LF]) w) (\<lambda>w _. (w, Ok ())))))))"

definition append_rule_line ::
  "('p, 'w) policy_fs \<Rightarrow> 'p \<Rightarrow> rstr \<Rightarrow> 'w \<Rightarrow> 'w \<times> (unit, 'p amend_error) result"
where
  "append_rule_line fs path rule w =
     (case parent_dir fs path of
        None \<Rightarrow> (w, Err (MissingParent path))
      | Some dir \<Rightarrow>
          (case create_dir fs dir w of
             (w', Ok _) \<Rightarrow> append_locked_line fs path rule w'
           | (w', Err source) \<Rightarrow>
               (if io_kind source = AlreadyExists then append_locked_line fs path rule w'
                else (w', Err (CreatePolicyDir dir source)))))"

fun json_list :: "json_ops \<Rightarrow> rstr list \<Rightarrow> (rstr list, rstr) result" where
  "json_list js [] = Ok []"
| "json_list js (t # ts) = bind_result (json_string js t) (\<lambda>x. bind_result (json_list js ts) (\<lambda>xs. Ok (x # xs)))"

text \<open>Quotation marks inside the source's string literals.\<close>

abbreviation dq :: rstr where "dq \<equiv> [34]"

definition prefix_rule_line :: "rstr list \<Rightarrow> rstr" where
  "prefix_rule_line tokens =
     lit ''prefix_rule(pattern='' @ (lit ''['' @ join (lit '', '') tokens @ lit '']'')
     @ lit '', decision='' @ dq @ lit ''allow'' @ dq @ lit '')''"

definition blocking_append_allow_prefix_rule ::
  "json_ops \<Rightarrow> ('p, 'w) policy_fs \<Rightarrow> 'p \<Rightarrow> rstr list \<Rightarrow> 'w \<Rightarrow> 'w \<times> (unit, 'p amend_error) result"
where
  "blocking_append_allow_prefix_rule js fs path pre w =
     (if pre = [] then (w, Err EmptyPrefix)
      else case json_list js pre of
        Err source \<Rightarrow> (w, Err (SerializePrefix source))
      | Ok tokens \<Rightarrow> append_rule_line fs path (prefix_rule_line tokens) w)"

text \<open>
  \<open>Error::to_string\<close>; the texts that quote vectors with \<open>Debug\<close> or come from Starlark are the argument
  \<open>other\<close>. Normalising a host only makes the last of the plain ones.
\<close>

fun policy_error_text :: "('s policy_error \<Rightarrow> rstr) \<Rightarrow> 's policy_error \<Rightarrow> rstr" where
  "policy_error_text other (InvalidDecision s) = lit ''invalid decision: '' @ s"
| "policy_error_text other (InvalidPattern s) = lit ''invalid pattern element: '' @ s"
| "policy_error_text other (InvalidExample s) = lit ''invalid example: '' @ s"
| "policy_error_text other (InvalidRule s) = lit ''invalid rule: '' @ s"
| "policy_error_text other e = other e"

definition network_decision_text :: "decision \<Rightarrow> rstr" where
  "network_decision_text d = (case d of Allow \<Rightarrow> lit ''allow'' | Prompt \<Rightarrow> lit ''prompt'' | Forbidden \<Rightarrow> lit ''deny'')"

definition network_rule_line :: "json_ops \<Rightarrow> rstr \<Rightarrow> network_rule_protocol \<Rightarrow> decision \<Rightarrow> rstr option \<Rightarrow> (rstr, rstr) result" where
  "network_rule_line js h proto d j =
     bind_result (json_string js h) (\<lambda>jh.
     bind_result (json_string js (as_policy_string proto)) (\<lambda>jp.
     bind_result (json_string js (network_decision_text d)) (\<lambda>jd.
     bind_result (case j of None \<Rightarrow> Ok [] | Some t \<Rightarrow>
         bind_result (json_string js t) (\<lambda>jj. Ok [lit ''justification='' @ jj])) (\<lambda>more_args.
       Ok (lit ''network_rule(''
         @ join (lit '', '') ([lit ''host='' @ jh, lit ''protocol='' @ jp, lit ''decision='' @ jd] @ more_args)
         @ lit '')'')))))"

definition blocking_append_network_rule ::
  "('s policy_error \<Rightarrow> rstr) \<Rightarrow> json_ops \<Rightarrow> ('p, 'w) policy_fs \<Rightarrow> 'p \<Rightarrow> rstr \<Rightarrow> network_rule_protocol \<Rightarrow> decision \<Rightarrow>
   rstr option \<Rightarrow> 'w \<Rightarrow> 'w \<times> (unit, 'p amend_error) result"
where
  "blocking_append_network_rule other js fs path raw proto d j w =
     (case normalize_network_rule_host raw of
        Err e \<Rightarrow> (w, Err (InvalidNetworkRule (policy_error_text other e)))
      | Ok h \<Rightarrow>
          (if blank_justification j then (w, Err (InvalidNetworkRule (lit ''justification cannot be empty'')))
           else case network_rule_line js h proto d j of
             Err source \<Rightarrow> (w, Err (SerializeNetworkRule source))
           | Ok rule \<Rightarrow> append_rule_line fs path rule w))"

section \<open>Removing rules\<close>

text \<open>\<open>str::split_inclusive\<close> on the line feed: lines with their line feeds.\<close>

fun split_inclusive :: "rstr \<Rightarrow> rstr list" where
  "split_inclusive [] = []"
| "split_inclusive (c # cs) =
     (if c = LF then [c] # split_inclusive cs
      else (case split_inclusive cs of [] \<Rightarrow> [[c]] | l # ls \<Rightarrow> (c # l) # ls))"

definition or_self :: "'a option \<Rightarrow> 'a \<Rightarrow> 'a" where
  "or_self r x = (case r of None \<Rightarrow> x | Some y \<Rightarrow> y)"

definition should_remove_rule :: "json_ops \<Rightarrow> rstr list set \<Rightarrow> rstr \<Rightarrow> bool" where
  "should_remove_rule js banned ln =
     (let l1 = or_self (strip_suffix [LF] ln) ln;
          l2 = or_self (strip_suffix [CR] l1) l1 in
      case Option.bind (strip_prefix (lit ''prefix_rule(pattern='') l2)
             (strip_suffix (lit '', decision='' @ dq @ lit ''allow'' @ dq @ lit '')'')) of
        None \<Rightarrow> False
      | Some pat \<Rightarrow>
          (case json_strings_of js pat of
             None \<Rightarrow> False
           | Some pre \<Rightarrow> map to_ascii_lowercase pre \<in> banned))"

definition strip_banned_allow_rules :: "json_ops \<Rightarrow> rstr list list \<Rightarrow> rstr \<Rightarrow> rstr" where
  "strip_banned_allow_rules js banned contents =
     (let banned_set = set (map (map to_ascii_lowercase) banned) in
      concat (filter (\<lambda>l. \<not> should_remove_rule js banned_set l) (split_inclusive contents)))"

definition clean_rules_file ::
  "json_ops \<Rightarrow> ('p, 'w) policy_fs \<Rightarrow> 'p \<Rightarrow> rstr list list \<Rightarrow> 'w \<Rightarrow> 'w \<times> (unit, io_error) result"
where
  "clean_rules_file js fs path banned w =
     (case read_contents fs path w of
        Err err \<Rightarrow> (if io_kind err = NotFound then (w, Ok ()) else (w, Err err))
      | Ok contents \<Rightarrow>
          (if strip_banned_allow_rules js banned contents = contents then (w, Ok ())
           else case open_rw fs path w of
             (w', Err err) \<Rightarrow> (if io_kind err = NotFound then (w', Ok ()) else (w', Err err))
           | (w', Ok _) \<Rightarrow>
               io_then id (w', read_contents fs path w') (\<lambda>w' contents.
               let retained = strip_banned_allow_rules js banned contents in
               if retained = contents then (w', Ok ())
               else io_then id (seek_start fs path w') (\<lambda>w' _.
                    io_then id (overwrite_all fs path retained w') (\<lambda>w' _.
                    io_then id (set_len fs path (utf8_len retained) w') (\<lambda>w' _. (w', Ok ())))))))"

text \<open>
  The marker is written to a temporary file that is then moved into place unless the marker exists;
  \<open>persist_noclobber\<close> stands for the whole of it.
\<close>

definition write_migration_marker ::
  "('p, 'w) policy_fs \<Rightarrow> 'p \<Rightarrow> 'p \<Rightarrow> 'w \<Rightarrow> 'w \<times> (unit, io_error) result"
where
  "write_migration_marker fs codex_home marker_path w =
     io_then id (create_dir_all fs codex_home w) (\<lambda>w _.
       case persist_noclobber fs codex_home marker_path (lit ''v1'' @ [LF]) w of
         (w', Ok _) \<Rightarrow> (w', Ok ())
       | (w', Err err) \<Rightarrow> (if io_kind err = AlreadyExists then (w', Ok ()) else (w', Err err)))"

definition prefix_rule_migration ::
  "json_ops \<Rightarrow> ('p, 'w) policy_fs \<Rightarrow> ('p \<Rightarrow> rstr \<Rightarrow> 'p) \<Rightarrow> 'p \<Rightarrow> 'p \<Rightarrow> rstr list list \<Rightarrow> 'w \<Rightarrow> 'w \<times> (unit, io_error) result"
where
  "prefix_rule_migration js fs join_dir codex_home policy_path banned w =
     (let marker_path = join_dir codex_home (lit ''.sandbox_migration'') in
      case try_exists fs marker_path w of
        Err e \<Rightarrow> (w, Err e)
      | Ok True \<Rightarrow> (w, Ok ())
      | Ok False \<Rightarrow>
          io_then id (clean_rules_file js fs policy_path banned w) (\<lambda>w _.
          io_then id (write_migration_marker fs codex_home marker_path w) (\<lambda>w _. (w, Ok ()))))"

section \<open>What the code relies on\<close>

text \<open>
  The text of every file, the empty text for a file that does not exist. Preparing calls change no
  text; a successful read gives the text and one that reports \<open>NotFound\<close> a missing file; a successful
  append adds to the end, and overwriting from the start and cutting at the new length replaces the
  text. Moving the marker into place touches no other file, and afterwards it exists.
\<close>

definition neutral :: "('w \<Rightarrow> 'p \<Rightarrow> rstr) \<Rightarrow> ('p \<Rightarrow> 'w \<Rightarrow> 'w \<times> (unit, io_error) result) \<Rightarrow> bool" where
  "neutral txt op \<longleftrightarrow> (\<forall>p w w' r. op p w = (w', r) \<longrightarrow> txt w' = txt w)"

definition policy_files :: "('p, 'w) policy_fs \<Rightarrow> ('w \<Rightarrow> 'p \<Rightarrow> rstr) \<Rightarrow> bool" where
  "policy_files fs txt \<longleftrightarrow>
     neutral txt (create_dir fs) \<and> neutral txt (open_append fs) \<and> neutral txt (lock_file fs) \<and>
     neutral txt (seek_start fs) \<and> neutral txt (open_rw fs) \<and> neutral txt (create_dir_all fs) \<and>
     (\<forall>p w c. read_contents fs p w = Ok c \<longrightarrow> c = txt w p) \<and>
     (\<forall>p w e. read_contents fs p w = Err e \<and> io_kind e = NotFound \<longrightarrow> txt w p = []) \<and>
     (\<forall>p w w' e. open_rw fs p w = (w', Err e) \<and> io_kind e = NotFound \<longrightarrow> txt w p = []) \<and>
     (\<forall>p s w w'. append_all fs p s w = (w', Ok ()) \<longrightarrow> txt w' = (txt w)(p := txt w p @ s)) \<and>
     (\<forall>p s w w0 w1 w2. seek_start fs p w = (w0, Ok ()) \<and> overwrite_all fs p s w0 = (w1, Ok ()) \<and>
        set_len fs p (utf8_len s) w1 = (w2, Ok ()) \<longrightarrow> txt w2 = (txt w)(p := s)) \<and>
     (\<forall>d p s w w' r. persist_noclobber fs d p s w = (w', r) \<longrightarrow>
        (\<forall>q. q \<noteq> p \<longrightarrow> txt w' q = txt w q) \<and>
        (r = Ok () \<or> (\<exists>e. r = Err e \<and> io_kind e = AlreadyExists) \<longrightarrow> try_exists fs p w' = Ok True))"

text \<open>JSON strings escape control characters.\<close>

definition json_one_line :: "json_ops \<Rightarrow> bool" where
  "json_one_line js \<longleftrightarrow> (\<forall>s t. json_string js s = Ok t \<longrightarrow> LF \<notin> set t)"

text \<open>The text with its last line closed.\<close>

definition close_line :: "rstr \<Rightarrow> rstr" where
  "close_line s = (if s \<noteq> [] \<and> \<not> ends_with s [LF] then s @ [LF] else s)"

section \<open>Lines of appended texts\<close>

lemma split_char_append_sep: "split_char c (a @ c # b) = split_char c a @ split_char c b"
proof (induction a)
  case (Cons x a)
  obtain l ls where "split_char c a = l # ls"
    using split_char_nonempty by (meson list.exhaust)
  with Cons show ?case by simp
qed simp

lemma lines_closed: "lines (a @ [LF]) = map strip_cr (split_char LF a)"
  using split_char_append_sep[of LF a "[]"] by (simp add: lines_def)

lemma strip_cr_no_cr_end: "l = [] \<or> last l \<noteq> CR \<Longrightarrow> strip_cr l = l"
  by (auto simp: strip_cr_def strip_suffix_Some_iff split: option.splits)

lemma lines_append_line:
  assumes "s = [] \<or> ends_with s [LF]" and "LF \<notin> set l" and "l = [] \<or> last l \<noteq> CR"
  shows "lines (s @ l @ [LF]) = lines s @ [l]"
proof (cases "s = []")
  case True
  then show ?thesis
    using assms by (simp add: lines_closed split_char_no_sep strip_cr_no_cr_end) (simp add: lines_def)
next
  case False
  then obtain a where "s = a @ [LF]"
    using assms(1) by (auto simp: ends_with_iff_suffix suffix_def)
  then have "s @ l @ [LF] = (a @ LF # l) @ [LF]" by simp
  then show ?thesis
    using assms(2,3) \<open>s = a @ [LF]\<close>
    by (simp only: lines_closed split_char_append_sep) (simp add: split_char_no_sep strip_cr_no_cr_end lines_closed)
qed

lemma close_line_closed: "close_line s = [] \<or> ends_with (close_line s) [LF]"
  by (auto simp: close_line_def ends_with_iff_suffix suffix_def)

section \<open>Saved rules\<close>

lemma io_then_Ok: "io_then f r k = (w', Ok y) \<longleftrightarrow> (\<exists>w x. r = (w, Ok x) \<and> k w x = (w', Ok y))"
  by (auto simp: io_then_def split: prod.splits result.splits)

lemma neutralD: "neutral txt op \<Longrightarrow> op p w = (w', r) \<Longrightarrow> txt w' = txt w"
  by (auto simp: neutral_def)

lemma append_locked_line_Ok:
  assumes fs: "policy_files fs txt" and run: "append_locked_line fs path ln w = (w', Ok ())"
  shows "txt w' = (if ln \<in> set (lines (txt w path)) then txt w
                   else (txt w)(path := close_line (txt w path) @ ln @ [LF]))"
proof -
  have neutral: "neutral txt (open_append fs)" "neutral txt (lock_file fs)" "neutral txt (seek_start fs)"
    and read: "\<And>p w c. read_contents fs p w = Ok c \<Longrightarrow> c = txt w p"
    and app: "\<And>p s w w'. append_all fs p s w = (w', Ok ()) \<Longrightarrow> txt w' = (txt w)(p := txt w p @ s)"
    using fs by (auto simp: policy_files_def)
  obtain w1 w2 w3 contents where w: "open_append fs path w = (w1, Ok ())" "lock_file fs path w1 = (w2, Ok ())"
      "seek_start fs path w2 = (w3, Ok ())" "read_contents fs path w3 = Ok contents"
    and last: "(if ln \<in> set (lines contents) then (w3, Ok ())
      else io_then (WritePolicyFile path)
         (if contents \<noteq> [] \<and> \<not> ends_with contents [LF] then append_all fs path [LF] w3 else (w3, Ok ())) (\<lambda>w _.
       io_then (WritePolicyFile path) (append_all fs path (ln @ [LF]) w) (\<lambda>w _. (w, Ok ())))) = (w', Ok ())"
    using run unfolding append_locked_line_def io_then_Ok by auto
  have t: "txt w3 = txt w"
    using w neutral by (metis neutralD)
  then have c: "contents = txt w path"
    using read[OF w(4)] by simp
  show ?thesis
  proof (cases "ln \<in> set (lines contents)")
    case True
    then show ?thesis using last t c by simp
  next
    case False
    obtain w4 where w4: "(if contents \<noteq> [] \<and> \<not> ends_with contents [LF] then append_all fs path [LF] w3 else (w3, Ok ())) = (w4, Ok ())"
      "append_all fs path (ln @ [LF]) w4 = (w', Ok ())"
      using last False by (auto simp: io_then_Ok)
    have "txt w4 = (txt w)(path := close_line contents)"
      using w4(1) app[of path "[LF]" w3 w4] t c by (auto simp: close_line_def split: if_splits)
    then show ?thesis
      using app[OF w4(2)] False c by (simp add: close_line_def)
  qed
qed

lemma io_then_cases:
  assumes "io_then f r k = (w', res)"
  obtains (err) e where "r = (w', Err e)" | (ok) w1 x where "r = (w1, Ok x)" "k w1 x = (w', res)"
  using assms by (auto simp: io_then_def split: prod.splits result.splits)

lemma append_locked_line_again:
  assumes fs: "policy_files fs txt" and run: "append_locked_line fs path ln w = (w', r)"
    and present: "ln \<in> set (lines (txt w path))"
  shows "txt w' = txt w"
proof -
  have neutral: "neutral txt (open_append fs)" "neutral txt (lock_file fs)" "neutral txt (seek_start fs)"
    and read: "\<And>p w c. read_contents fs p w = Ok c \<Longrightarrow> c = txt w p"
    using fs by (auto simp: policy_files_def)
  note step = neutral[THEN neutralD]
  show ?thesis
    using run unfolding append_locked_line_def
    by (elim io_then_cases) (use present in \<open>auto dest!: step read split: if_splits\<close>)
qed

lemma append_rule_line_world:
  assumes "policy_files fs txt" and "append_rule_line fs path rule w = (w', r)"
  shows "txt w' = txt w \<and> (\<exists>e. r = Err e) \<or>
         (\<exists>w1. txt w1 = txt w \<and> append_locked_line fs path rule w1 = (w', r))"
proof -
  have "neutral txt (create_dir fs)" using assms(1) by (simp add: policy_files_def)
  then show ?thesis
    using assms(2) unfolding append_rule_line_def
    by (auto split: option.splits prod.splits result.splits if_splits dest: neutralD)
qed

lemma append_rule_line_Ok:
  assumes fs: "policy_files fs txt" and run: "append_rule_line fs path rule w = (w', Ok ())"
    and rule: "LF \<notin> set rule" "rule = [] \<or> last rule \<noteq> CR"
  shows "lines (txt w' path) = (if rule \<in> set (lines (txt w path)) then lines (txt w path)
           else lines (close_line (txt w path)) @ [rule])"
    and "\<forall>q. q \<noteq> path \<longrightarrow> txt w' q = txt w q"
    and "append_rule_line fs path rule w' = (w'', r) \<Longrightarrow> txt w'' = txt w'"
proof -
  obtain w1 where w1: "txt w1 = txt w" "append_locked_line fs path rule w1 = (w', Ok ())"
    using append_rule_line_world[OF fs run] by auto
  have t: "txt w' = (if rule \<in> set (lines (txt w path)) then txt w
      else (txt w)(path := close_line (txt w path) @ rule @ [LF]))"
    using append_locked_line_Ok[OF fs w1(2)] by (simp add: w1(1))
  show ls: "lines (txt w' path) = (if rule \<in> set (lines (txt w path)) then lines (txt w path)
           else lines (close_line (txt w path)) @ [rule])"
    using t lines_append_line[OF close_line_closed rule] by simp
  show "\<forall>q. q \<noteq> path \<longrightarrow> txt w' q = txt w q"
    using t by simp
  show "txt w'' = txt w'" if again: "append_rule_line fs path rule w' = (w'', r)"
  proof -
    have "rule \<in> set (lines (txt w' path))" using ls by (auto split: if_splits)
    then show ?thesis
      using append_rule_line_world[OF fs again] append_locked_line_again[OF fs] by metis
  qed
qed

lemma json_list_one_line: "json_one_line js \<Longrightarrow> json_list js ts = Ok xs \<Longrightarrow> \<forall>x \<in> set xs. LF \<notin> set x"
  by (induction ts arbitrary: xs) (auto simp: json_one_line_def)

lemma set_join: "set (join sep xs) \<subseteq> set sep \<union> \<Union> (set ` set xs)"
  by (induction sep xs rule: join.induct) auto

lemma prefix_rule_line_one_line:
  assumes "\<forall>x \<in> set tokens. LF \<notin> set x"
  shows "LF \<notin> set (prefix_rule_line tokens)" and "last (prefix_rule_line tokens) \<noteq> CR"
proof -
  have "LF \<notin> set (join (lit '', '') tokens)"
    using assms set_join[of "lit '', ''" tokens] by (auto simp: lit_def)
  then show "LF \<notin> set (prefix_rule_line tokens)"
    by (simp add: prefix_rule_line_def lit_def)
  show "last (prefix_rule_line tokens) \<noteq> CR"
    by (simp add: prefix_rule_line_def lit_def)
qed

text \<open>
  An approved rule is saved once and nothing else is touched. When
  \<open>blocking_append_allow_prefix_rule\<close> succeeds, the lines of the policy file are those it had, with the
  rule as a new last line unless it was among them; no other file changes; and saving the rule again,
  whether that succeeds or fails, changes no file.
\<close>

theorem saved_rule_once:
  assumes "policy_files fs txt" and "json_one_line js"
    and "blocking_append_allow_prefix_rule js fs path pre w = (w', Ok ())"
  shows "\<exists>tokens. json_list js pre = Ok tokens \<and>
      lines (txt w' path) = (if prefix_rule_line tokens \<in> set (lines (txt w path)) then lines (txt w path)
        else lines (close_line (txt w path)) @ [prefix_rule_line tokens]) \<and>
      (\<forall>q. q \<noteq> path \<longrightarrow> txt w' q = txt w q) \<and>
      (\<forall>w'' r. blocking_append_allow_prefix_rule js fs path pre w' = (w'', r) \<longrightarrow> txt w'' = txt w')"
proof -
  obtain tokens where tokens: "json_list js pre = Ok tokens"
    and run: "append_rule_line fs path (prefix_rule_line tokens) w = (w', Ok ())" and "pre \<noteq> []"
    using assms(3) by (auto simp: blocking_append_allow_prefix_rule_def split: if_splits result.splits)
  have "\<forall>x \<in> set tokens. LF \<notin> set x"
    using json_list_one_line[OF assms(2) tokens] .
  from append_rule_line_Ok[OF assms(1) run prefix_rule_line_one_line(1)[OF this] disjI2[OF prefix_rule_line_one_line(2)[OF this]]]
  show ?thesis
    using tokens \<open>pre \<noteq> []\<close> by (auto simp: blocking_append_allow_prefix_rule_def)
qed

section \<open>Lines with their endings\<close>

definition pieces_ok :: "rstr list \<Rightarrow> bool" where
  "pieces_ok ls \<longleftrightarrow> (\<forall>l \<in> set ls. l \<noteq> [] \<and> LF \<notin> set (butlast l)) \<and> (\<forall>l \<in> set (butlast ls). last l = LF)"

lemma concat_split_inclusive: "concat (split_inclusive s) = s"
  by (induction s) (auto split: list.splits)

lemma split_inclusive_line: "LF \<notin> set a \<Longrightarrow> split_inclusive (a @ LF # b) = (a @ [LF]) # split_inclusive b"
  by (induction a) auto

lemma split_inclusive_rest: "LF \<notin> set a \<Longrightarrow> a \<noteq> [] \<Longrightarrow> split_inclusive a = [a]"
proof (induction a)
  case (Cons x a)
  then show ?case by (cases a) auto
qed simp

lemma pieces_ok_split: "pieces_ok (split_inclusive s)"
  by (induction s) (auto simp: pieces_ok_def split: list.splits if_splits)

lemma split_inclusive_concat: "pieces_ok ls \<Longrightarrow> split_inclusive (concat ls) = ls"
proof (induction ls)
  case (Cons l ls)
  have l: "l \<noteq> []" "LF \<notin> set (butlast l)" and ls: "pieces_ok ls"
    using Cons.prems by (auto simp: pieces_ok_def split: if_splits)
  show ?case
  proof (cases "last l = LF")
    case True
    then have "l = butlast l @ [LF]" using l(1) by (metis append_butlast_last_id)
    then show ?thesis
      using split_inclusive_line[OF l(2), of "concat ls"] Cons.IH[OF ls] by (metis append.assoc append_Cons append_Nil concat.simps(2))
  next
    case False
    then have "ls = []" using Cons.prems by (cases ls) (auto simp: pieces_ok_def)
    moreover have "LF \<notin> set l"
      using l False by (metis append_butlast_last_id in_set_conv_decomp rotate1.simps(2) set_ConsD set_rotate1)
    ultimately show ?thesis using l(1) by (simp add: split_inclusive_rest)
  qed
qed simp

lemma butlast_filter: "set (butlast (filter P xs)) \<subseteq> set (butlast xs)"
proof (cases xs rule: rev_cases)
  case (snoc ys y)
  then show ?thesis by (auto dest: in_set_butlastD)
qed simp

lemma pieces_ok_filter: "pieces_ok ls \<Longrightarrow> pieces_ok (filter P ls)"
  using butlast_filter[of P ls] by (auto simp: pieces_ok_def)

section \<open>The migration\<close>

lemma strip_line_ending:
  "or_self (strip_suffix [CR] (or_self (strip_suffix [LF] l) l)) (or_self (strip_suffix [LF] l) l) = m \<Longrightarrow>
     \<exists>eol \<in> {[], [LF], [CR], [CR, LF]}. l = m @ eol"
  by (auto simp: or_self_def strip_suffix_Some_iff split: option.splits)

lemma strip_line_ending_of:
  assumes "eol \<in> {[], [LF], [CR], [CR, LF]}" and "m \<noteq> []" and "last m \<noteq> LF" and "last m \<noteq> CR"
  shows "or_self (strip_suffix [CR] (or_self (strip_suffix [LF] (m @ eol)) (m @ eol))) (or_self (strip_suffix [LF] (m @ eol)) (m @ eol)) = m"
proof -
  obtain a x where m: "m = a @ [x]" "x \<noteq> LF" "x \<noteq> CR"
    using assms(2-4) by (metis append_butlast_last_id)
  show ?thesis
    using assms(1) m(2,3) by (auto simp: m(1) or_self_def strip_suffix_def)
qed

lemma should_remove_rule_iff:
  "should_remove_rule js banned l \<longleftrightarrow>
     (\<exists>pat pre. \<exists>eol \<in> {[], [LF], [CR], [CR, LF]}.
        l = lit ''prefix_rule(pattern='' @ pat @ (lit '', decision='' @ dq @ lit ''allow'' @ dq @ lit '')'') @ eol \<and>
        json_strings_of js pat = Some pre \<and> map to_ascii_lowercase pre \<in> banned)"
  (is "_ \<longleftrightarrow> ?rhs")
proof -
  let ?suf = "lit '', decision='' @ dq @ lit ''allow'' @ dq @ lit '')''"
  let ?m = "or_self (strip_suffix [CR] (or_self (strip_suffix [LF] l) l)) (or_self (strip_suffix [LF] l) l)"
  have "should_remove_rule js banned l \<longleftrightarrow>
      (\<exists>pat pre. ?m = lit ''prefix_rule(pattern='' @ pat @ ?suf \<and> json_strings_of js pat = Some pre \<and>
         map to_ascii_lowercase pre \<in> banned)"
    unfolding should_remove_rule_def Let_def
    by (cases "strip_prefix (lit ''prefix_rule(pattern='') ?m";
        cases "Option.bind (strip_prefix (lit ''prefix_rule(pattern='') ?m) (strip_suffix ?suf)")
      (auto simp: strip_prefix_Some_iff strip_suffix_Some_iff split: option.splits
        dest: strip_prefix_None_iff[THEN iffD1] strip_suffix_None_iff[THEN iffD1] simp: prefix_def suffix_def)
  also have "\<dots> \<longleftrightarrow> ?rhs"
  proof
    assume "\<exists>pat pre. ?m = lit ''prefix_rule(pattern='' @ pat @ ?suf \<and> json_strings_of js pat = Some pre \<and>
         map to_ascii_lowercase pre \<in> banned"
    then show ?rhs using strip_line_ending[of l ?m] by fastforce
  next
    assume ?rhs
    then obtain pat pre eol where h: "eol \<in> {[], [LF], [CR], [CR, LF]}"
        "l = lit ''prefix_rule(pattern='' @ pat @ ?suf @ eol"
        "json_strings_of js pat = Some pre" "map to_ascii_lowercase pre \<in> banned" by blast
    have l: "l = (lit ''prefix_rule(pattern='' @ pat @ ?suf) @ eol"
      using h(2) by simp
    have "?m = lit ''prefix_rule(pattern='' @ pat @ ?suf"
      unfolding l by (rule strip_line_ending_of[OF h(1)]) (auto simp: lit_def)
    with h(3,4) show "\<exists>pat pre. ?m = lit ''prefix_rule(pattern='' @ pat @ ?suf \<and> json_strings_of js pat = Some pre \<and>
         map to_ascii_lowercase pre \<in> banned" by blast
  qed
  finally show ?thesis .
qed

lemma strip_banned_lines:
  "split_inclusive (strip_banned_allow_rules js banned c) =
     filter (\<lambda>l. \<not> should_remove_rule js (set (map (map to_ascii_lowercase) banned)) l) (split_inclusive c)"
  by (simp add: strip_banned_allow_rules_def Let_def split_inclusive_concat pieces_ok_filter pieces_ok_split)

lemma strip_banned_idem:
  "strip_banned_allow_rules js banned (strip_banned_allow_rules js banned c) = strip_banned_allow_rules js banned c"
  by (simp add: strip_banned_allow_rules_def[of js banned "strip_banned_allow_rules js banned c"] Let_def strip_banned_lines)
    (simp add: strip_banned_allow_rules_def Let_def)

text \<open>
  The migration removes banned allow rules and keeps every other byte. The lines of the cleaned
  policy, with their line endings, are the lines of the old one in order, without exactly those that
  consist of \<open>prefix_rule(pattern=P, decision="allow")\<close> and a line ending where \<open>P\<close> is the JSON of a
  banned prefix up to the case of ASCII letters; cleaning a cleaned policy changes nothing.
\<close>

theorem strip_banned_exact:
  "split_inclusive (strip_banned_allow_rules js banned c) =
     filter (\<lambda>l. \<not> (\<exists>pat pre. \<exists>eol \<in> {[], [LF], [CR], [CR, LF]}.
        l = lit ''prefix_rule(pattern='' @ pat @ (lit '', decision='' @ [34] @ lit ''allow'' @ [34] @ lit '')'') @ eol \<and>
        json_strings_of js pat = Some pre \<and>
        map to_ascii_lowercase pre \<in> set (map (map to_ascii_lowercase) banned))) (split_inclusive c) \<and>
   strip_banned_allow_rules js banned (strip_banned_allow_rules js banned c) = strip_banned_allow_rules js banned c"
  unfolding strip_banned_lines should_remove_rule_iff strip_banned_idem by simp

lemma strip_banned_Nil: "strip_banned_allow_rules js banned [] = []"
  by (simp add: strip_banned_allow_rules_def)

lemma clean_rules_file_Ok:
  assumes fs: "policy_files fs txt" and run: "clean_rules_file js fs path banned w = (w', Ok ())"
  shows "txt w' = (txt w)(path := strip_banned_allow_rules js banned (txt w path))"
proof (cases "read_contents fs path w")
  case (Err e)
  then have "txt w path = []" "w' = w"
    using run fs by (auto simp: clean_rules_file_def policy_files_def split: if_splits)
  then show ?thesis by (simp add: strip_banned_Nil fun_upd_idem)
next
  case (Ok contents)
  then have c: "contents = txt w path" using fs by (simp add: policy_files_def)
  show ?thesis
  proof (cases "strip_banned_allow_rules js banned contents = contents")
    case True
    then show ?thesis using run Ok c by (auto simp: clean_rules_file_def fun_upd_idem)
  next
    case False
    obtain w1 r1 where o1: "open_rw fs path w = (w1, r1)" by force
    have t1: "txt w1 = txt w" using o1 fs by (auto simp: policy_files_def dest: neutralD)
    have nonempty: "contents \<noteq> []" using False by (auto simp: strip_banned_Nil)
    show ?thesis
    proof (cases r1)
      case (Err e)
      then have "io_kind e = NotFound"
        using run \<open>read_contents fs path w = Ok contents\<close> False o1 by (auto simp: clean_rules_file_def split: if_splits)
      then have "txt w path = []" using fs o1 Err by (auto simp: policy_files_def)
      with nonempty c show ?thesis by simp
    next
      case (Ok u)
      have read1: "\<And>c. read_contents fs path w1 = Ok c \<Longrightarrow> c = contents"
        using fs unfolding policy_files_def t1[symmetric] c by metis
      obtain w2 w3 where "seek_start fs path w1 = (w2, Ok ())"
          "overwrite_all fs path (strip_banned_allow_rules js banned contents) w2 = (w3, Ok ())"
          "set_len fs path (utf8_len (strip_banned_allow_rules js banned contents)) w3 = (w', Ok ())"
        using run \<open>read_contents fs path w = Ok contents\<close> False o1 Ok read1
        by (auto simp: clean_rules_file_def io_then_Ok Let_def split: if_splits)
      then have "txt w' = (txt w1)(path := strip_banned_allow_rules js banned contents)"
        using fs unfolding policy_files_def by blast
      then show ?thesis by (simp add: t1 c)
    qed
  qed
qed

text \<open>
  The migration runs once. If it succeeds, the marker exists; the policy file is as it was if the
  marker already existed, and otherwise cleaned of the banned rules; no file but it and the marker has
  changed; and running it again succeeds and changes nothing at all, so that rules saved later stay.
\<close>

theorem migration_once:
  assumes fs: "policy_files fs txt" and "marker = join_dir codex_home (lit ''.sandbox_migration'')" and "path \<noteq> marker"
    and run: "prefix_rule_migration js fs join_dir codex_home path banned w = (w', Ok ())"
  shows "try_exists fs marker w' = Ok True \<and>
    txt w' path = (if try_exists fs marker w = Ok True then txt w path else strip_banned_allow_rules js banned (txt w path)) \<and>
    (\<forall>q. q \<notin> {path, marker} \<longrightarrow> txt w' q = txt w q) \<and>
    prefix_rule_migration js fs join_dir codex_home path banned w' = (w', Ok ())"
proof -
  have again: "prefix_rule_migration js fs join_dir codex_home path banned w'' = (w'', Ok ())"
    if "try_exists fs marker w'' = Ok True" for w''
    using that by (simp add: prefix_rule_migration_def assms(2))
  show ?thesis
  proof (cases "try_exists fs marker w = Ok True")
    case True
    then show ?thesis using run again by (simp add: prefix_rule_migration_def assms(2))
  next
    case False
    then obtain w1 where w1: "clean_rules_file js fs path banned w = (w1, Ok ())"
        "write_migration_marker fs codex_home marker w1 = (w', Ok ())"
      using run by (auto simp: prefix_rule_migration_def assms(2)[symmetric] io_then_Ok split: result.splits bool.splits)
    obtain w2 r where w2: "create_dir_all fs codex_home w1 = (w2, Ok ())"
        "persist_noclobber fs codex_home marker (lit ''v1'' @ [LF]) w2 = (w', r)"
        "r = Ok () \<or> (\<exists>e. r = Err e \<and> io_kind e = AlreadyExists)"
    proof -
      obtain w2 where c: "create_dir_all fs codex_home w1 = (w2, Ok ())"
        and k: "(case persist_noclobber fs codex_home marker (lit ''v1'' @ [LF]) w2 of
           (w', Ok _) \<Rightarrow> (w', Ok ())
         | (w', Err err) \<Rightarrow> (if io_kind err = AlreadyExists then (w', Ok ()) else (w', Err err))) = (w', Ok ())"
        using w1(2) unfolding write_migration_marker_def io_then_Ok by auto
      obtain w3 r where p: "persist_noclobber fs codex_home marker (lit ''v1'' @ [LF]) w2 = (w3, r)" by force
      show thesis
        by (rule that[of w2 r]) (use c k p in \<open>auto split: result.splits if_splits\<close>)
    qed
    have "txt w2 = txt w1" using w2(1) fs by (auto simp: policy_files_def dest: neutralD)
    moreover have "(\<forall>q. q \<noteq> marker \<longrightarrow> txt w' q = txt w2 q) \<and> try_exists fs marker w' = Ok True"
      using w2(2,3) fs unfolding policy_files_def by blast
    ultimately show ?thesis
      using clean_rules_file_Ok[OF fs w1(1)] False assms(3) again by simp
  qed
qed

section \<open>A file system in memory\<close>

fun take_utf8 :: "nat \<Rightarrow> rstr \<Rightarrow> rstr" where
  "take_utf8 n [] = []"
| "take_utf8 n (c # cs) = (if utf8_len [c] \<le> n then c # take_utf8 (n - utf8_len [c]) cs else [])"

definition mem_text :: "('p \<rightharpoonup> rstr) \<Rightarrow> 'p \<Rightarrow> rstr" where
  "mem_text w p = or_default (w p)"

definition mem_io :: "io_error_kind \<Rightarrow> io_error" where
  "mem_io k = \<lparr>io_kind = k, io_message = []\<rparr>"

definition mem_policy_fs :: "('p, 'p \<rightharpoonup> rstr) policy_fs" where
  "mem_policy_fs = \<lparr>parent_dir = Some, create_dir = (\<lambda>_ w. (w, Err (mem_io AlreadyExists))),
     open_append = (\<lambda>p w. (w(p \<mapsto> mem_text w p), Ok ())), lock_file = (\<lambda>_ w. (w, Ok ())),
     seek_start = (\<lambda>_ w. (w, Ok ())),
     read_contents = (\<lambda>p w. case w p of None \<Rightarrow> Err (mem_io NotFound) | Some s \<Rightarrow> Ok s),
     append_all = (\<lambda>p s w. (w(p \<mapsto> mem_text w p @ s), Ok ())),
     try_exists = (\<lambda>p w. Ok (w p \<noteq> None)),
     open_rw = (\<lambda>p w. (w, if w p = None then Err (mem_io NotFound) else Ok ())),
     overwrite_all = (\<lambda>p s w. (w(p \<mapsto> s @ drop (length s) (mem_text w p)), Ok ())),
     set_len = (\<lambda>p n w. (w(p \<mapsto> take_utf8 n (mem_text w p)), Ok ())),
     create_dir_all = (\<lambda>_ w. (w, Ok ())),
     persist_noclobber = (\<lambda>_ p s w. if w p = None then (w(p \<mapsto> s), Ok ()) else (w, Err (mem_io AlreadyExists)))\<rparr>"

lemma utf8_len_Cons: "utf8_len (c # cs) = utf8_len [c] + utf8_len cs" "0 < utf8_len [c]"
  by (simp_all add: utf8_len_def)

lemma take_utf8_append: "take_utf8 (utf8_len s) (s @ t) = s"
proof (induction s)
  case Nil
  show ?case by (cases t) (auto simp: utf8_len_Cons(2)[THEN gr_implies_not_zero] utf8_len_def split: if_splits)
next
  case (Cons c s)
  then show ?case by (simp add: utf8_len_Cons(1)[of c s])
qed

lemma mem_text_upd: "mem_text (w(p \<mapsto> s)) = (mem_text w)(p := s)"
  by (auto simp: mem_text_def or_default_def)

lemma mem_policy_files: "policy_files mem_policy_fs mem_text"
  unfolding policy_files_def
proof (intro conjI)
  show "\<forall>d p s w w' r. persist_noclobber mem_policy_fs d p s w = (w', r) \<longrightarrow>
        (\<forall>q. q \<noteq> p \<longrightarrow> mem_text w' q = mem_text w q) \<and>
        (r = Ok () \<or> (\<exists>e. r = Err e \<and> io_kind e = AlreadyExists) \<longrightarrow> try_exists mem_policy_fs p w' = Ok True)"
    by (auto simp: mem_policy_fs_def mem_text_upd split: if_splits)
qed (auto simp: mem_policy_fs_def neutral_def mem_text_upd fun_upd_idem take_utf8_append mem_text_def or_default_def
    split: option.splits if_splits)

definition plain_json :: json_ops where
  "plain_json = \<lparr>json_string = (\<lambda>s. Ok (34 # filter (\<lambda>c. c \<noteq> LF) s @ [34])),
     json_strings_of = (\<lambda>s. if length s < 4 then None else Some [take (length s - 4) (drop 2 s)])\<rparr>"

lemma saved_rule_once_witness:
  "\<exists>w'. blocking_append_allow_prefix_rule plain_json mem_policy_fs [1] [lit ''ls''] (\<lambda>_. None) = (w', Ok ()) \<and>
     lines (mem_text w' [1]) = [prefix_rule_line [34 # lit ''ls'' @ [34]]]"
proof -
  let ?rule = "prefix_rule_line [34 # lit ''ls'' @ [34]]"
  have js: "json_one_line plain_json" by (simp add: json_one_line_def plain_json_def)
  have tokens: "json_list plain_json [lit ''ls''] = Ok [34 # lit ''ls'' @ [34]]"
    by (simp add: plain_json_def lit_def)
  have run: "blocking_append_allow_prefix_rule plain_json mem_policy_fs [1] [lit ''ls''] (\<lambda>_. None) =
      ([[1] \<mapsto> ?rule @ [LF]], Ok ())"
    by (simp add: blocking_append_allow_prefix_rule_def tokens append_rule_line_def append_locked_line_def io_then_def
        mem_policy_fs_def mem_io_def mem_text_def or_default_def lines_def del: json_list.simps)
  show ?thesis
    using saved_rule_once[OF mem_policy_files js run] run
    by (auto simp: tokens mem_text_def or_default_def close_line_def lines_def[of "[]"] simp del: json_list.simps)
qed

lemma migration_once_witness:
  "prefix_rule_migration plain_json mem_policy_fs (@) [2] [1] [] [[1] \<mapsto> [5, 10]] =
     ([[1] \<mapsto> [5, 10], [2] @ lit ''.sandbox_migration'' \<mapsto> lit ''v1'' @ [LF]], Ok ()) \<and>
   try_exists mem_policy_fs ([2] @ lit ''.sandbox_migration'')
     [[1] \<mapsto> [5, 10], [2] @ lit ''.sandbox_migration'' \<mapsto> lit ''v1'' @ [LF]] = Ok True"
proof -
  let ?m = "[2] @ lit ''.sandbox_migration''"
  have ne: "?m \<noteq> [1]" by simp
  have keep: "strip_banned_allow_rules plain_json [] s = s" for s
    by (simp add: strip_banned_allow_rules_def Let_def should_remove_rule_iff concat_split_inclusive)
  have run: "prefix_rule_migration plain_json mem_policy_fs (@) [2] [1] [] [[1] \<mapsto> [5, 10]] =
      ([[1] \<mapsto> [5, 10], ?m \<mapsto> lit ''v1'' @ [LF]], Ok ())"
    by (simp add: prefix_rule_migration_def clean_rules_file_def write_migration_marker_def io_then_def keep mem_policy_fs_def)
  show ?thesis
    using migration_once[OF mem_policy_files refl ne[symmetric] run] run by simp
qed

end
