(* ===== verification/Shell_Syntax.thy ===== *)
theory Shell_Syntax
  imports Absolute_Path
begin

text \<open>
  \<open>shell-command/src/bash.rs\<close> and \<open>detect_shell_type\<close> of \<open>shell_detect.rs\<close>: finding the commands in a
  \<open>bash -lc\<close> script. Two readings are made of its syntax tree: a strict one that accepts only plain words
  joined by safe operators and is used to match policy rules, and a lenient one that collects the
  literal words of every command and is used to find dangerous commands.

  The Tree-sitter parser is the argument \<open>sitter\<close>, which gives the tree of a script and whether it has
  errors; a node has its kind, whether it is named, its text, its first byte and its children. The
  loops over an explicit stack are recursive functions with a termination proof. The lemmas show that
  a script the strict reading accepts has literal words only, and that the lenient reading then finds
  every command of the strict one.
\<close>

section \<open>Shells\<close>

datatype shell_type = Zsh | Bash | PowerShell | Sh | Cmd

definition known_shell :: "rstr \<Rightarrow> shell_type option" where
  "known_shell s =
     (if s = lit ''zsh'' then Some Zsh
      else if s = lit ''sh'' then Some Sh
      else if s = lit ''cmd'' then Some Cmd
      else if s = lit ''bash'' then Some Bash
      else if s = lit ''pwsh'' then Some PowerShell
      else if s = lit ''powershell'' then Some PowerShell
      else None)"

lemma split_char_sublist:
  "prefix (hd (split_char c s)) s \<and> (\<forall>p \<in> set (split_char c s). sublist p s)"
proof (induction s)
  case (Cons x s)
  obtain l ls where ls: "split_char c s = l # ls"
    using split_char_nonempty by (meson list.exhaust)
  with Cons show ?case
    by (auto simp: sublist_Cons_right split: list.splits)
qed simp

lemma path_file_name_piece:
  assumes "path_file_name path = Some c"
  shows "c \<in> set (split_char 47 path)"
proof -
  have named: "Normal c \<in> set (named_components cs) \<Longrightarrow> c \<in> set cs" for cs
    by (induction cs) (auto split: if_splits)
  obtain ys where "path_components path = ys @ [Normal c]"
    using assms by (auto simp: path_file_name_def last_opt_Some_iff split: option.splits path_component.splits)
  then have "Normal c \<in> set (path_components path)" by simp
  then have "Normal c \<in> set (named_components (split_char 47 path))"
    by (auto simp: path_components_def Let_def split: if_splits)
  then show ?thesis by (rule named)
qed

lemma rsplit_once_prefix: "rsplit_once c s = Some (a, b) \<Longrightarrow> length a < length s"
proof -
  assume h: "rsplit_once c s = Some (a, b)"
  then have "c \<in> set (rev s)" by (simp add: rsplit_once_def split: if_splits)
  then have "dropWhile (\<lambda>x. x \<noteq> c) (rev s) \<noteq> []" by (simp add: dropWhile_eq_Nil_conv)
  moreover have "length (dropWhile (\<lambda>x. x \<noteq> c) (rev s)) \<le> length s"
    by (metis length_dropWhile_le length_rev)
  ultimately show ?thesis
    using h by (cases "dropWhile (\<lambda>x. x \<noteq> c) (rev s)") (auto simp: rsplit_once_def split: if_splits)
qed

lemma path_file_stem_shorter:
  assumes "path_file_stem path = Some s" and "path_components s \<noteq> path_components path"
  shows "length s < length path"
proof -
  obtain c where c: "path_file_name path = Some c"
    and s: "s = (case rsplit_once 46 c of None \<Rightarrow> c | Some (before, _) \<Rightarrow> (if before = [] then c else before))"
    using assms(1) by (auto simp: path_file_stem_def)
  have sub: "sublist c path"
    using path_file_name_piece[OF c] split_char_sublist[of 47 path] by blast
  have "s = c \<or> length s < length c"
    using s rsplit_once_prefix[of 46 c] by (auto split: option.splits if_splits)
  moreover have "length c < length path" if "s = c"
  proof -
    obtain us vs where "path = us @ c @ vs" using sub by (auto simp: sublist_def)
    moreover have "path \<noteq> c" using assms(2) that by auto
    ultimately show ?thesis by auto
  qed
  ultimately show ?thesis
    using sublist_length_le[OF sub] by fastforce
qed

text \<open>The function calls itself with the file stem, which is shorter unless it is the same path.\<close>

function detect_shell_type :: "rstr \<Rightarrow> shell_type option" where
  "detect_shell_type path =
     (case known_shell path of
        Some t \<Rightarrow> Some t
      | None \<Rightarrow>
          (case path_file_stem path of
             None \<Rightarrow> None
           | Some s \<Rightarrow> (if path_components s \<noteq> path_components path then detect_shell_type s else None)))"
  by pat_completeness auto
termination
  by (relation "measure length") (auto simp: path_file_stem_shorter)

declare detect_shell_type.simps [simp del]

definition extract_bash_command :: "rstr list \<Rightarrow> (rstr \<times> rstr) option" where
  "extract_bash_command command =
     (case command of
        [shell, flag, script] \<Rightarrow>
          (if \<not> (flag = lit ''-lc'' \<or> flag = lit ''-c'') \<or>
              detect_shell_type shell \<notin> {Some Zsh, Some Bash, Some Sh}
           then None else Some (shell, script))
      | _ \<Rightarrow> None)"

section \<open>Syntax trees\<close>

datatype syntax_node =
  Node (kind: rstr) (is_named: bool) (node_text: rstr) (start_byte: nat) (children: "syntax_node list")

type_synonym tree_sitter = "rstr \<Rightarrow> (syntax_node \<times> bool) option"

definition named_children :: "syntax_node \<Rightarrow> syntax_node list" where
  "named_children n = filter is_named (children n)"

definition named_child_0 :: "syntax_node \<Rightarrow> syntax_node option" where
  "named_child_0 n = (case named_children n of [] \<Rightarrow> None | c # _ \<Rightarrow> Some c)"

fun node_count :: "syntax_node \<Rightarrow> nat" and nodes_count :: "syntax_node list \<Rightarrow> nat" where
  "node_count (Node _ _ _ _ cs) = Suc (nodes_count cs)"
| "nodes_count [] = 0"
| "nodes_count (n # ns) = node_count n + nodes_count ns"

lemma nodes_count_append [simp]: "nodes_count (xs @ ys) = nodes_count xs + nodes_count ys"
  by (induction xs) auto

lemma nodes_count_rev [simp]: "nodes_count (rev xs) = nodes_count xs"
  by (induction xs) auto

lemma nodes_count_filter: "nodes_count (filter P xs) \<le> nodes_count xs"
  by (induction xs) auto

lemma node_count_children: "node_count n = Suc (nodes_count (children n))"
  by (cases n) simp

section \<open>Words\<close>

definition expansion_chars :: "rstr" where
  "expansion_chars = lit ''{}*?[]'' @ [92] @ lit ''~^#$`''"

definition is_literal_word_or_number :: "syntax_node \<Rightarrow> bool" where
  "is_literal_word_or_number n \<longleftrightarrow>
     (kind n = lit ''word'' \<or> kind n = lit ''number'') \<and> named_children n = [] \<and>
     \<not> starts_with (node_text n) [61] \<and> \<not> list_ex (\<lambda>c. c \<in> set expansion_chars) (node_text n)"

definition parse_double_quoted_string :: "syntax_node \<Rightarrow> rstr option" where
  "parse_double_quoted_string n =
     (if kind n \<noteq> lit ''string'' then None
      else if list_ex (\<lambda>p. kind p \<noteq> lit ''string_content'') (named_children n) then None
      else case Option.bind (strip_prefix [34] (node_text n)) (strip_suffix [34]) of
        None \<Rightarrow> None
      | Some stripped \<Rightarrow>
          (if list_ex (\<lambda>(a, b). a = 92 \<and> b \<in> {36, 96, 34, 92, LF}) (zip stripped (tl stripped)) then None
           else Some stripped))"

definition parse_raw_string :: "syntax_node \<Rightarrow> rstr option" where
  "parse_raw_string n =
     (if kind n \<noteq> lit ''raw_string'' then None
      else Option.bind (strip_prefix [39] (node_text n)) (strip_suffix [39]))"

section \<open>The strict reading\<close>

definition concat_part :: "syntax_node \<Rightarrow> rstr option" where
  "concat_part p =
     (if kind p = lit ''word'' \<or> kind p = lit ''number'' then Some (node_text p)
      else if kind p = lit ''string'' then parse_double_quoted_string p
      else if kind p = lit ''raw_string'' then parse_raw_string p
      else None)"

fun concat_parts :: "syntax_node list \<Rightarrow> rstr option" where
  "concat_parts [] = Some []"
| "concat_parts (p # ps) =
     (case concat_part p of
        None \<Rightarrow> None
      | Some w \<Rightarrow> map_option (\<lambda>r. w @ r) (concat_parts ps))"

definition plain_word :: "syntax_node \<Rightarrow> rstr option" where
  "plain_word child =
     (if kind child = lit ''command_name'' then
        (case named_child_0 child of
           None \<Rightarrow> None
         | Some w \<Rightarrow> (if kind w \<noteq> lit ''word'' then None else Some (node_text w)))
      else if kind child = lit ''word'' \<or> kind child = lit ''number'' then Some (node_text child)
      else if kind child = lit ''string'' then parse_double_quoted_string child
      else if kind child = lit ''raw_string'' then parse_raw_string child
      else if kind child = lit ''concatenation'' then
        (case concat_parts (named_children child) of
           None \<Rightarrow> None
         | Some c \<Rightarrow> (if c = [] then None else Some c))
      else None)"

fun collect_opt :: "('a \<Rightarrow> 'b option) \<Rightarrow> 'a list \<Rightarrow> 'b list option" where
  "collect_opt f [] = Some []"
| "collect_opt f (x # xs) = (case f x of None \<Rightarrow> None | Some y \<Rightarrow> map_option (\<lambda>ys. y # ys) (collect_opt f xs))"

definition parse_plain_command_from_node :: "syntax_node \<Rightarrow> rstr list option" where
  "parse_plain_command_from_node cmd =
     (if kind cmd \<noteq> lit ''command'' then None else collect_opt plain_word (named_children cmd))"

definition ALLOWED_KINDS :: "rstr list" where
  "ALLOWED_KINDS = [lit ''program'', lit ''list'', lit ''pipeline'', lit ''command'', lit ''command_name'',
     lit ''word'', lit ''string'', lit ''string_content'', lit ''raw_string'', lit ''number'', lit ''concatenation'']"

definition ALLOWED_PUNCT_TOKENS :: "rstr list" where
  "ALLOWED_PUNCT_TOKENS = [lit ''&&'', lit ''||'', lit '';'', lit ''|'', [34], [39]]"

text \<open>What the loop accepts of one node.\<close>

definition node_accepted :: "syntax_node \<Rightarrow> bool" where
  "node_accepted n =
     (if is_named n then
        kind n \<in> set ALLOWED_KINDS \<and>
        ((kind n = lit ''word'' \<or> kind n = lit ''number'') \<longrightarrow> is_literal_word_or_number n)
      else
        \<not> (list_ex (\<lambda>c. c \<in> set (lit ''&;|'')) (kind n) \<and> kind n \<notin> set ALLOWED_PUNCT_TOKENS) \<and>
        (kind n \<in> set ALLOWED_PUNCT_TOKENS \<or> trim (kind n) = []))"

function walk_plain :: "syntax_node list \<Rightarrow> syntax_node list \<Rightarrow> syntax_node list option" where
  "walk_plain [] command_nodes = Some command_nodes"
| "walk_plain (n # stack) command_nodes =
     (if \<not> node_accepted n then None
      else walk_plain (rev (children n) @ stack)
        (if is_named n \<and> kind n = lit ''command'' then command_nodes @ [n] else command_nodes))"
  by pat_completeness auto
termination
  by (relation "measure (\<lambda>(stack, _). nodes_count stack)") (auto simp: node_count_children)

definition try_parse_word_only_commands_sequence :: "syntax_node \<times> bool \<Rightarrow> rstr list list option" where
  "try_parse_word_only_commands_sequence = (\<lambda>(root, has_error).
     if has_error then None
     else case walk_plain [root] [] of
       None \<Rightarrow> None
     | Some command_nodes \<Rightarrow> collect_opt parse_plain_command_from_node (sort_key start_byte command_nodes))"

definition parse_shell_script_into_commands :: "tree_sitter \<Rightarrow> rstr \<Rightarrow> rstr list list option" where
  "parse_shell_script_into_commands sitter script =
     Option.bind (sitter script) try_parse_word_only_commands_sequence"

definition parse_shell_lc_plain_commands :: "tree_sitter \<Rightarrow> rstr list \<Rightarrow> rstr list list option" where
  "parse_shell_lc_plain_commands sitter command =
     (case extract_bash_command command of
        None \<Rightarrow> None
      | Some (_, script) \<Rightarrow> parse_shell_script_into_commands sitter script)"

section \<open>The lenient reading\<close>

fun parse_literal_shell_word :: "syntax_node \<Rightarrow> rstr option"
  and parse_literal_parts :: "syntax_node list \<Rightarrow> rstr option" where
  "parse_literal_shell_word (Node k nm t s cs) =
     (let n = Node k nm t s cs in
      if k = lit ''word'' \<or> k = lit ''number'' then (if is_literal_word_or_number n then Some t else None)
      else if k = lit ''string'' then parse_double_quoted_string n
      else if k = lit ''raw_string'' then parse_raw_string n
      else if k = lit ''concatenation'' then
        (case parse_literal_parts cs of
           None \<Rightarrow> None
         | Some c \<Rightarrow> (if c = [] then None else Some c))
      else None)"
| "parse_literal_parts [] = Some []"
| "parse_literal_parts (p # ps) =
     (if is_named p then
        (case parse_literal_shell_word p of
           None \<Rightarrow> None
         | Some w \<Rightarrow> map_option (\<lambda>r. w @ r) (parse_literal_parts ps))
      else parse_literal_parts ps)"

fun literal_words :: "syntax_node list \<Rightarrow> bool \<Rightarrow> rstr list \<Rightarrow> (bool \<times> rstr list) option" where
  "literal_words [] found words = Some (found, words)"
| "literal_words (child # cs) found words =
     (if kind child = lit ''command_name'' then
        (case Option.bind (named_child_0 child) parse_literal_shell_word of
           None \<Rightarrow> None
         | Some w \<Rightarrow> literal_words cs True (words @ [w]))
      else if found then
        (case parse_literal_shell_word child of
           Some w \<Rightarrow> literal_words cs found (words @ [w])
         | None \<Rightarrow> literal_words cs found words)
      else literal_words cs found words)"

definition parse_literal_command_from_node :: "syntax_node \<Rightarrow> rstr list option" where
  "parse_literal_command_from_node cmd =
     (if kind cmd \<noteq> lit ''command'' then None
      else case literal_words (named_children cmd) False [] of
        Some (True, words) \<Rightarrow> Some words
      | _ \<Rightarrow> None)"

function walk_literal :: "syntax_node list \<Rightarrow> rstr list list \<Rightarrow> rstr list list" where
  "walk_literal [] commands = commands"
| "walk_literal (n # stack) commands =
     walk_literal (rev (named_children n) @ stack)
       (case parse_literal_command_from_node n of None \<Rightarrow> commands | Some c \<Rightarrow> commands @ [c])"
  by pat_completeness auto
termination
  by (relation "measure (\<lambda>(stack, _). nodes_count stack)")
    (auto simp: node_count_children named_children_def less_Suc_eq_le nodes_count_filter)

definition parse_shell_lc_literal_commands :: "tree_sitter \<Rightarrow> rstr list \<Rightarrow> rstr list list option" where
  "parse_shell_lc_literal_commands sitter command =
     (case extract_bash_command command of
        None \<Rightarrow> None
      | Some (_, script) \<Rightarrow>
          (case sitter script of
             None \<Rightarrow> None
           | Some (root, has_error) \<Rightarrow> (if has_error then None else Some (walk_literal [root] []))))"

section \<open>Nodes of a tree\<close>

fun subnodes :: "syntax_node \<Rightarrow> syntax_node list" and subnodes_list :: "syntax_node list \<Rightarrow> syntax_node list" where
  "subnodes (Node k nm t s cs) = Node k nm t s cs # subnodes_list cs"
| "subnodes_list [] = []"
| "subnodes_list (n # ns) = subnodes n @ subnodes_list ns"

text \<open>
  What the Bash grammar of Tree-sitter promises: anonymous nodes are tokens without children, and a
  command node has exactly one name, before which only assignments, redirections and comments stand.
\<close>

definition PREFIX_KINDS :: "rstr list" where
  "PREFIX_KINDS = [lit ''variable_assignment'', lit ''file_redirect'', lit ''herestring_redirect'', lit ''comment'']"

definition bash_node :: "syntax_node \<Rightarrow> bool" where
  "bash_node n \<longleftrightarrow> (is_named n \<or> children n = []) \<and>
     (kind n = lit ''command'' \<longrightarrow>
        (case dropWhile (\<lambda>c. kind c \<in> set PREFIX_KINDS) (named_children n) of
           [] \<Rightarrow> False
         | c # cs \<Rightarrow> kind c = lit ''command_name'' \<and> list_all (\<lambda>c. kind c \<noteq> lit ''command_name'') cs))"

definition bash_tree :: "syntax_node \<Rightarrow> bool" where
  "bash_tree root \<longleftrightarrow> list_all bash_node (subnodes root)"

definition bash_grammar :: "tree_sitter \<Rightarrow> bool" where
  "bash_grammar sitter \<longleftrightarrow>
     (\<forall>script root err. sitter script = Some (root, err) \<longrightarrow> is_named root \<and> bash_tree root)"

lemma subnodes_list_append [simp]: "subnodes_list (xs @ ys) = subnodes_list xs @ subnodes_list ys"
  by (induction xs) auto

lemma subnodes_list_rev: "set (subnodes_list (rev xs)) = set (subnodes_list xs)"
  by (induction xs) auto

lemma subnodes_step: "subnodes n = n # subnodes_list (children n)"
  by (cases n) simp

lemma subnodes_list_child: "c \<in> set cs \<Longrightarrow> set (subnodes c) \<subseteq> set (subnodes_list cs)"
  by (induction cs) auto

lemma self_in_subnodes: "n \<in> set (subnodes n)"
  by (simp add: subnodes_step)

lemma child_in_subnodes: "c \<in> set (children n) \<Longrightarrow> c \<in> set (subnodes_list (children n))"
  using subnodes_list_child self_in_subnodes by blast

lemma subnodes_closed:
  "n \<in> set (subnodes m) \<Longrightarrow> set (subnodes_list (children n)) \<subseteq> set (subnodes m)"
  "n \<in> set (subnodes_list ms) \<Longrightarrow> set (subnodes_list (children n)) \<subseteq> set (subnodes_list ms)"
  by (induction m and ms rule: subnodes_subnodes_list.induct) auto

section \<open>What the strict reading accepts\<close>

lemma walk_plain_Some:
  "walk_plain stack acc = Some out \<Longrightarrow>
     list_all node_accepted (subnodes_list stack) \<and>
     set out = set acc \<union> {n \<in> set (subnodes_list stack). is_named n \<and> kind n = lit ''command''}"
proof (induction stack acc rule: walk_plain.induct)
  case (2 n stack acc)
  then have acc: "node_accepted n"
    and rec: "walk_plain (rev (children n) @ stack)
      (if is_named n \<and> kind n = lit ''command'' then acc @ [n] else acc) = Some out"
    by (auto split: if_splits)
  have "list_all node_accepted (subnodes_list (rev (children n) @ stack)) \<and>
     set out = set (if is_named n \<and> kind n = lit ''command'' then acc @ [n] else acc) \<union>
       {m \<in> set (subnodes_list (rev (children n) @ stack)). is_named m \<and> kind m = lit ''command''}"
    using 2(1)[OF _ rec] acc by simp
  then show ?case
    using acc by (auto simp: subnodes_step subnodes_list_rev list_all_iff)
qed simp

lemma collect_opt_Some_iff: "collect_opt f xs = Some ys \<longleftrightarrow> list_all2 (\<lambda>x y. f x = Some y) xs ys"
  by (induction xs arbitrary: ys) (auto simp: list_all2_Cons1 split: option.splits)

lemma collect_opt_set: "collect_opt f xs = Some ys \<Longrightarrow> set ys = {y. \<exists>x \<in> set xs. f x = Some y} \<and> (\<forall>x \<in> set xs. f x \<noteq> None)"
  unfolding collect_opt_Some_iff by (induction rule: list_all2_induct) auto

lemma plain_commands_Some:
  assumes "try_parse_word_only_commands_sequence (root, err) = Some cmds"
  shows "\<not> err" and "list_all node_accepted (subnodes root)"
    and "\<And>n. n \<in> set (subnodes root) \<Longrightarrow> is_named n \<Longrightarrow> kind n = lit ''command'' \<Longrightarrow> parse_plain_command_from_node n \<noteq> None"
    and "set cmds = {ws. \<exists>n \<in> set (subnodes root). is_named n \<and> kind n = lit ''command'' \<and> parse_plain_command_from_node n = Some ws}"
proof -
  obtain nodes where err: "\<not> err" and w: "walk_plain [root] [] = Some nodes"
    and c: "collect_opt parse_plain_command_from_node (sort_key start_byte nodes) = Some cmds"
    using assms by (auto simp: try_parse_word_only_commands_sequence_def split: if_splits option.splits)
  have n: "list_all node_accepted (subnodes root)" "set nodes = {n \<in> set (subnodes root). is_named n \<and> kind n = lit ''command''}"
    using walk_plain_Some[OF w] by auto
  note cs = collect_opt_set[OF c]
  show "\<not> err" by (rule err)
  show "list_all node_accepted (subnodes root)" by (rule n(1))
  show "parse_plain_command_from_node m \<noteq> None"
    if "m \<in> set (subnodes root)" "is_named m" "kind m = lit ''command''" for m
    using cs n(2) that by auto
  show "set cmds = {ws. \<exists>n \<in> set (subnodes root). is_named n \<and> kind n = lit ''command'' \<and> parse_plain_command_from_node n = Some ws}"
    using cs n(2) by auto
qed

section \<open>The lenient reading sees as much\<close>

lemma walk_literal_mono: "set acc \<subseteq> set (walk_literal stack acc)"
  by (induction stack acc rule: walk_literal.induct) (auto split: option.splits)

lemma walk_literal_finds:
  "list_all bash_node (subnodes_list stack) \<Longrightarrow> n \<in> set (subnodes_list stack) \<Longrightarrow> is_named n \<Longrightarrow>
     list_all is_named stack \<Longrightarrow> parse_literal_command_from_node n = Some c \<Longrightarrow> c \<in> set (walk_literal stack acc)"
proof (induction stack acc rule: walk_literal.induct)
  case (2 m stack acc)
  let ?acc = "case parse_literal_command_from_node m of None \<Rightarrow> acc | Some c \<Rightarrow> acc @ [c]"
  show ?case
  proof (cases "n = m")
    case True
    then have "c \<in> set ?acc" using 2(6) by simp
    then show ?thesis using walk_literal_mono[of ?acc] by auto
  next
    case False
    have anon: "subnodes_list (children x) = []" if "x \<in> set (children m)" "\<not> is_named x" for x
      using 2(2) that child_in_subnodes[OF that(1)] by (auto simp: subnodes_step list_all_iff bash_node_def)
    have named: "n \<in> set (subnodes_list cs) \<Longrightarrow> (\<And>x. x \<in> set cs \<Longrightarrow> \<not> is_named x \<Longrightarrow> subnodes_list (children x) = []) \<Longrightarrow>
        n \<in> set (subnodes_list (filter is_named cs))" for cs
      using 2(4) by (induction cs) (auto simp: subnodes_step)
    have "n \<in> set (subnodes_list (rev (named_children m) @ stack))"
      using 2(3) False named[of "children m"] anon
      by (auto simp: subnodes_step subnodes_list_rev named_children_def)
    moreover have "set (subnodes_list (filter is_named cs)) \<subseteq> set (subnodes_list cs)" for cs
      by (induction cs) auto
    then have "list_all bash_node (subnodes_list (rev (named_children m) @ stack))"
      using 2(2) by (auto simp: subnodes_step subnodes_list_rev named_children_def list_all_iff)
    moreover have "list_all is_named (rev (named_children m) @ stack)"
      using 2(5) by (auto simp: named_children_def list_all_iff)
    ultimately show ?thesis
      using 2(1) 2(4) 2(6) by simp
  qed
qed simp

text \<open>Every command of the lenient reading is a command node of the tree.\<close>

lemma walk_literal_sound:
  "c \<in> set (walk_literal stack acc) \<Longrightarrow> list_all is_named stack \<Longrightarrow>
     c \<in> set acc \<or> (\<exists>n \<in> set (subnodes_list stack). is_named n \<and> parse_literal_command_from_node n = Some c)"
proof (induction stack acc rule: walk_literal.induct)
  case (2 m stack acc)
  have "set (subnodes_list (filter is_named cs)) \<subseteq> set (subnodes_list cs)" for cs
    by (induction cs) auto
  then have sub: "set (subnodes_list (rev (named_children m) @ stack)) \<subseteq> set (subnodes_list (m # stack))"
    by (auto simp: subnodes_step subnodes_list_rev named_children_def)
  have "list_all is_named (rev (named_children m) @ stack)"
    using 2(3) by (auto simp: named_children_def list_all_iff)
  then have "c \<in> set (case parse_literal_command_from_node m of None \<Rightarrow> acc | Some c \<Rightarrow> acc @ [c]) \<or>
      (\<exists>n \<in> set (subnodes_list (rev (named_children m) @ stack)). is_named n \<and> parse_literal_command_from_node n = Some c)"
    using 2(1,2) by simp
  moreover have "m \<in> set (subnodes_list (m # stack)) \<and> is_named m"
    using 2(3) by (simp add: self_in_subnodes)
  ultimately show ?case
    using sub by (auto split: option.splits)
qed simp

lemma literal_of_concat:
  "list_all node_accepted cs \<Longrightarrow> concat_parts (filter is_named cs) = Some w \<Longrightarrow> parse_literal_parts cs = Some w"
proof (induction cs arbitrary: w)
  case (Cons p ps)
  show ?case
  proof (cases "is_named p")
    case True
    then obtain a b where ab: "concat_part p = Some a" "concat_parts (filter is_named ps) = Some b" "w = a @ b"
      using Cons.prems(2) by (auto split: option.splits)
    have "parse_literal_shell_word p = Some a"
      using ab(1) Cons.prems(1) True
      by (cases p) (auto simp: concat_part_def node_accepted_def Let_def split: if_splits)
    then show ?thesis
      using True ab Cons.IH[of b] Cons.prems(1) by simp
  next
    case False
    then show ?thesis using Cons by simp
  qed
qed simp

lemma literal_of_plain_word:
  assumes "node_accepted c" and "is_named c" and "list_all node_accepted (children c)"
    and "kind c \<noteq> lit ''command_name''" and "plain_word c = Some w"
  shows "parse_literal_shell_word c = Some w"
proof (cases c)
  case (Node k nm t s cs)
  show ?thesis
    using assms literal_of_concat[of cs]
    by (auto simp: Node plain_word_def node_accepted_def named_children_def Let_def split: if_splits option.splits)
qed

lemma literal_words_plain:
  assumes "\<forall>c \<in> set cs. node_accepted c \<and> is_named c \<and> list_all node_accepted (children c) \<and> kind c \<noteq> lit ''command_name''"
    and "collect_opt plain_word cs = Some ws"
  shows "literal_words cs True acc = Some (True, acc @ ws)"
  using assms
proof (induction cs arbitrary: ws acc)
  case (Cons c cs)
  obtain a b where ab: "plain_word c = Some a" "collect_opt plain_word cs = Some b" "ws = a # b"
    using Cons.prems(2) by (auto split: option.splits)
  have "parse_literal_shell_word c = Some a"
    using Cons.prems(1) ab(1) by (intro literal_of_plain_word) auto
  then show ?case
    using Cons.IH[OF _ ab(2), of "acc @ [a]"] Cons.prems(1) ab(3) by auto
qed simp

lemma accepted_no_prefix: "node_accepted n \<Longrightarrow> is_named n \<Longrightarrow> kind n \<notin> set PREFIX_KINDS"
  by (auto simp: node_accepted_def ALLOWED_KINDS_def PREFIX_KINDS_def lit_def)

lemma literal_of_plain_command:
  assumes ok: "list_all node_accepted (subnodes n)" and "bash_node n" and plain: "parse_plain_command_from_node n = Some ws"
  shows "parse_literal_command_from_node n = Some ws"
proof -
  have k: "kind n = lit ''command''" and col: "collect_opt plain_word (named_children n) = Some ws"
    using plain by (auto simp: parse_plain_command_from_node_def split: if_splits)
  have sub: "set (named_children n) \<subseteq> set (children n)" by (auto simp: named_children_def)
  have acc: "node_accepted x \<and> list_all node_accepted (children x)" if "x \<in> set (children n)" for x
  proof -
    have "set (subnodes x) \<subseteq> set (subnodes n)"
      using subnodes_list_child[OF that] by (auto simp: subnodes_step[of n])
    moreover have "set (children x) \<subseteq> set (subnodes x)"
      using child_in_subnodes[of _ x] by (auto simp: subnodes_step[of x])
    ultimately show ?thesis
      using ok self_in_subnodes[of x] by (auto simp: list_all_iff)
  qed
  have "kind x \<notin> set PREFIX_KINDS" if "x \<in> set (named_children n)" for x
    using acc[of x] that accepted_no_prefix[of x] by (auto simp: named_children_def)
  then have "dropWhile (\<lambda>c. kind c \<in> set PREFIX_KINDS) (named_children n) = named_children n"
    by (cases "named_children n") auto
  then obtain c cs where c: "named_children n = c # cs" "kind c = lit ''command_name''" "list_all (\<lambda>c. kind c \<noteq> lit ''command_name'') cs"
    using assms(2) k by (auto simp: bash_node_def split: list.splits)
  obtain w ws' where w: "plain_word c = Some w" "collect_opt plain_word cs = Some ws'" "ws = w # ws'"
    using col c(1) by (auto split: option.splits)
  obtain d where d: "named_child_0 c = Some d" "kind d = lit ''word''" "w = node_text d"
    using w(1) c(2) by (auto simp: plain_word_def split: option.splits if_splits)
  have "d \<in> set (named_children c)"
    using d(1) by (cases "named_children c") (auto simp: named_child_0_def)
  then have "d \<in> set (children c)" "is_named d"
    by (auto simp: named_children_def)
  moreover have "c \<in> set (children n)" using c(1) sub by auto
  ultimately have "node_accepted d" using acc[of c] by (auto simp: list_all_iff)
  then have "is_literal_word_or_number d" using \<open>is_named d\<close> d(2) by (simp add: node_accepted_def)
  then have "parse_literal_shell_word d = Some w"
    using d(2,3) by (cases d) (simp add: Let_def)
  moreover have "literal_words cs True [w] = Some (True, [w] @ ws')"
  proof (rule literal_words_plain[OF _ w(2)])
    show "\<forall>c \<in> set cs. node_accepted c \<and> is_named c \<and> list_all node_accepted (children c) \<and> kind c \<noteq> lit ''command_name''"
    proof
      fix x assume "x \<in> set cs"
      then have "x \<in> set (named_children n)" using c(1) by simp
      then have "x \<in> set (children n)" "is_named x" by (auto simp: named_children_def)
      with acc[of x] c(3) \<open>x \<in> set cs\<close>
      show "node_accepted x \<and> is_named x \<and> list_all node_accepted (children x) \<and> kind x \<noteq> lit ''command_name''"
        by (auto simp: list_all_iff)
    qed
  qed
  ultimately show ?thesis
    using k c(1,2) d(1) w(3) by (simp add: parse_literal_command_from_node_def)
qed


text \<open>
  The search for dangerous commands sees every command that policy rules are matched against. On
  trees of the Bash grammar, when the strict reading of a \<open>bash -lc\<close> script succeeds, the lenient one
  succeeds too and finds all its commands, word for word.
\<close>

theorem literal_reading_covers_plain:
  assumes "parse_shell_lc_plain_commands sitter command = Some cmds"
    and "bash_grammar sitter"
  shows "\<exists>lits. parse_shell_lc_literal_commands sitter command = Some lits \<and> set cmds \<subseteq> set lits"
proof -
  obtain shell script root err where e: "extract_bash_command command = Some (shell, script)"
      "sitter script = Some (root, err)" "try_parse_word_only_commands_sequence (root, err) = Some cmds"
    using assms(1) by (auto simp: parse_shell_lc_plain_commands_def parse_shell_script_into_commands_def bind_eq_Some_conv split: option.splits)
  note p = plain_commands_Some[OF e(3)]
  have tree: "is_named root" "list_all bash_node (subnodes_list [root])"
    using assms(2) e(2) by (auto simp: bash_grammar_def bash_tree_def)
  have "ws \<in> set (walk_literal [root] [])" if "ws \<in> set cmds" for ws
  proof -
    obtain n where n: "n \<in> set (subnodes root)" "is_named n" "parse_plain_command_from_node n = Some ws"
      using p(4) \<open>ws \<in> set cmds\<close> by auto
    have "list_all node_accepted (subnodes n)"
      using p(2) n(1) subnodes_closed(1)[OF n(1)] by (auto simp: subnodes_step[of n] list_all_iff)
    then have "parse_literal_command_from_node n = Some ws"
      using n tree(2) by (intro literal_of_plain_command) (auto simp: list_all_iff)
    then show ?thesis
      using walk_literal_finds[OF tree(2)] n(1,2) tree(1) by simp
  qed
  then show ?thesis
    using e(1,2) p(1) by (auto simp: parse_shell_lc_literal_commands_def)
qed

section \<open>A sample script\<close>

definition sample_word :: "rstr \<Rightarrow> nat \<Rightarrow> syntax_node" where
  "sample_word t i = Node (lit ''word'') True t i []"

definition sample_tree :: syntax_node where
  "sample_tree = Node (lit ''program'') True [108, 32, 97] 0
     [Node (lit ''command'') True [108, 32, 97] 0
       [Node (lit ''command_name'') True [108] 0 [sample_word [108] 0], sample_word [97] 2]]"

definition sample_sitter :: tree_sitter where
  "sample_sitter script = (if script = [108, 32, 97] then Some (sample_tree, False) else None)"

lemma accepted_inner:
  "k \<in> {lit ''program'', lit ''command'', lit ''command_name''} \<Longrightarrow> node_accepted (Node k True t i cs)"
  by (auto simp: node_accepted_def ALLOWED_KINDS_def lit_def)

lemma accepted_sample_word: "c \<in> {108, 97} \<Longrightarrow> node_accepted (sample_word [c] i)"
  by (auto simp: sample_word_def node_accepted_def ALLOWED_KINDS_def is_literal_word_or_number_def
      named_children_def starts_with_def expansion_chars_def lit_def)

lemma sample_word_parts [simp]:
  "children (sample_word t i) = []" "is_named (sample_word t i)" "kind (sample_word t i) \<noteq> lit ''command''"
  by (simp_all add: sample_word_def lit_def)

lemma sample_accepted: "walk_plain [sample_tree] [] = Some [hd (children sample_tree)]"
proof -
  have k: "lit ''program'' \<noteq> lit ''command''" "lit ''command_name'' \<noteq> lit ''command''"
    by (simp_all add: lit_def)
  show ?thesis by (simp add: sample_tree_def accepted_inner accepted_sample_word k)
qed

lemma sample_shell: "detect_shell_type (lit ''bash'') = Some Bash"
  by (subst detect_shell_type.simps) (simp add: known_shell_def lit_def)

lemma sample_command: "extract_bash_command [lit ''bash'', lit ''-c'', [108, 32, 97]] = Some (lit ''bash'', [108, 32, 97])"
  by (simp add: extract_bash_command_def sample_shell)

declare walk_plain.simps [simp del]

lemma sample_plain: "parse_shell_lc_plain_commands sample_sitter [lit ''bash'', lit ''-c'', [108, 32, 97]] = Some [[[108], [97]]]"
  by (simp add: parse_shell_lc_plain_commands_def parse_shell_script_into_commands_def sample_command sample_sitter_def
      try_parse_word_only_commands_sequence_def sample_accepted)
    (simp add: parse_plain_command_from_node_def plain_word_def named_children_def named_child_0_def sample_tree_def sample_word_def lit_def)


lemma sample_grammar: "bash_grammar sample_sitter"
  by (auto simp: bash_grammar_def sample_sitter_def sample_tree_def sample_word_def bash_tree_def bash_node_def PREFIX_KINDS_def
      named_children_def lit_def split: if_splits)

lemma literal_reading_covers_plain_witness:
  "\<exists>lits. parse_shell_lc_literal_commands sample_sitter [lit ''bash'', lit ''-c'', [108, 32, 97]] = Some lits \<and> [[108], [97]] \<in> set lits"
  using literal_reading_covers_plain[OF sample_plain sample_grammar] by auto

end
