(* ===== verification/Windows_Commands.thy ===== *)
theory Windows_Commands
  imports Prelude
begin

text \<open>
  The checks for dangerous Windows commands (\<open>shell-command/src/command_safety/windows_dangerous_commands.rs\<close>):
  PowerShell invocations, \<open>cmd /c\<close> command lines and programs that open a URL directly. The \<open>shlex\<close>,
  \<open>regex\<close> and \<open>url\<close> crates are parameters (record \<open>windows_deps\<close>): how a script splits into words, what
  the URL pattern captures, and the scheme of a string that parses as a URL. The lemmas show that the two
  hand-written scanners find what they look for: command operators glued to other text are always
  separated, and a forced delete is found wherever its words stand next to each other.
\<close>

record windows_deps =
  shlex_words :: "rstr \<Rightarrow> rstr list option"
  url_capture :: "rstr \<Rightarrow> rstr option"
  url_scheme :: "rstr \<Rightarrow> rstr option"

section \<open>URLs and executables\<close>

text \<open>\<open>str::find\<close>, as the rest of the string from the first occurrence on; lower-casing keeps positions.\<close>

fun find_from :: "rstr \<Rightarrow> rstr \<Rightarrow> nat option" where
  "find_from p [] = (if p = [] then Some 0 else None)"
| "find_from p (c # s) = (if starts_with (c # s) p then Some 0 else map_option Suc (find_from p s))"

definition looks_like_url :: "windows_deps \<Rightarrow> rstr \<Rightarrow> bool" where
  "looks_like_url deps token =
     (let lowercase_token = to_ascii_lowercase token;
          idx = (case find_from (lit ''https://'') lowercase_token of
                   Some i \<Rightarrow> Some i
                 | None \<Rightarrow> find_from (lit ''http://'') lowercase_token);
          urlish = (case idx of Some i \<Rightarrow> drop i token | None \<Rightarrow> token);
          candidate = (case url_capture deps urlish of Some m \<Rightarrow> m | None \<Rightarrow> urlish)
      in case url_scheme deps candidate of
           None \<Rightarrow> False
         | Some s \<Rightarrow> s = lit ''http'' \<or> s = lit ''https'')"

definition args_have_url :: "windows_deps \<Rightarrow> rstr list \<Rightarrow> bool" where
  "args_have_url deps args = list_ex (looks_like_url deps) args"

definition strip_drive :: "rstr \<Rightarrow> rstr" where
  "strip_drive name =
     (case name of
        drive # c # cs \<Rightarrow> (if c = 58 \<and> is_ascii_alphabetic drive then cs else name)
      | _ \<Rightarrow> name)"

definition executable_basename :: "rstr \<Rightarrow> rstr option" where
  "executable_basename exe =
     (let name = last_piece (\<lambda>c. c = 47 \<or> c = 92) exe in
      if name = [] then None
      else let name = strip_drive name in
        if name = [] then None else Some (to_ascii_lowercase name))"

definition is_powershell_executable :: "rstr \<Rightarrow> bool" where
  "is_powershell_executable exe \<longleftrightarrow>
     executable_basename exe \<in> {Some (lit ''powershell''), Some (lit ''powershell.exe''), Some (lit ''pwsh''), Some (lit ''pwsh.exe'')}"

definition is_browser_executable :: "rstr \<Rightarrow> bool" where
  "is_browser_executable name \<longleftrightarrow>
     name \<in> set [lit ''chrome'', lit ''chrome.exe'', lit ''msedge'', lit ''msedge.exe'',
                lit ''firefox'', lit ''firefox.exe'', lit ''iexplore'', lit ''iexplore.exe'']"

section \<open>Flags\<close>

definition has_force_flag_cmd :: "rstr list \<Rightarrow> bool" where
  "has_force_flag_cmd args = list_ex (\<lambda>a. eq_ignore_ascii_case a (lit ''/f'')) args"

definition has_recursive_flag_cmd :: "rstr list \<Rightarrow> bool" where
  "has_recursive_flag_cmd args = list_ex (\<lambda>a. eq_ignore_ascii_case a (lit ''/s'')) args"

definition has_quiet_flag_cmd :: "rstr list \<Rightarrow> bool" where
  "has_quiet_flag_cmd args = list_ex (\<lambda>a. eq_ignore_ascii_case a (lit ''/q'')) args"

section \<open>Forced deletes\<close>

definition DELETE_CMDLETS :: "rstr list" where
  "DELETE_CMDLETS = [lit ''remove-item'', lit ''ri'', lit ''rm'', lit ''del'', lit ''erase'', lit ''rd'', lit ''rmdir'']"

definition SEG_SEPS :: "rchar list" where
  "SEG_SEPS = lit '';|&'' @ [10, 13, 9]"

definition SOFT_SEPS :: "rchar list" where
  "SOFT_SEPS = lit ''{}()[],;''"

text \<open>The segments are kept with the one being filled last; there is always one.\<close>

definition push_word :: "rstr list list \<Rightarrow> rstr \<Rightarrow> rstr list list" where
  "push_word segments cur =
     (let s = trim cur in
      if segments \<noteq> [] \<and> s \<noteq> [] then butlast segments @ [last segments @ [s]] else segments)"

fun scan_token :: "rstr list list \<Rightarrow> rstr \<Rightarrow> rstr \<Rightarrow> rstr list list \<times> rstr" where
  "scan_token segments cur [] = (segments, cur)"
| "scan_token segments cur (ch # s) =
     (if ch \<in> set SEG_SEPS then
        let segments = push_word segments cur in
        scan_token (if segments \<noteq> [] \<and> last segments \<noteq> [] then segments @ [[]] else segments) [] s
      else scan_token segments (cur @ [ch]) s)"

fun build_segments :: "rstr list list \<Rightarrow> rstr list \<Rightarrow> rstr list list" where
  "build_segments segments [] = segments"
| "build_segments segments (tok # tokens) =
     (let (segments, cur) = scan_token segments [] tok in build_segments (push_word segments cur) tokens)"

definition segment_atoms :: "rstr list \<Rightarrow> rstr list" where
  "segment_atoms seg =
     filter (\<lambda>s. s \<noteq> []) (map trim (concat (map (split_on (\<lambda>c. c \<in> set SOFT_SEPS)) seg)))"

definition is_delete_atom :: "rstr \<Rightarrow> bool" where
  "is_delete_atom a = list_ex (\<lambda>cmd. eq_ignore_ascii_case a cmd) DELETE_CMDLETS"

definition is_force_atom :: "rstr \<Rightarrow> bool" where
  "is_force_atom a \<longleftrightarrow> eq_ignore_ascii_case a (lit ''-force'') \<or> eq_ignore_ascii_case (take 7 a) (lit ''-force:'')"

definition has_force_delete_cmdlet :: "rstr list \<Rightarrow> bool" where
  "has_force_delete_cmdlet tokens =
     list_ex (\<lambda>seg. list_ex is_delete_atom (segment_atoms seg) \<and> list_ex is_force_atom (segment_atoms seg))
       (build_segments [[]] tokens)"

section \<open>PowerShell\<close>

definition is_dangerous_powershell_words :: "windows_deps \<Rightarrow> rstr list \<Rightarrow> bool" where
  "is_dangerous_powershell_words deps words =
     (let tokens_lc = map (\<lambda>t. to_ascii_lowercase (trim_matches (\<lambda>c. c = 34) (trim_matches (\<lambda>c. c = 39) t))) words;
          has_url = args_have_url deps words
      in if has_url \<and>
            list_ex (\<lambda>t. t \<in> {lit ''start-process'', lit ''start'', lit ''saps'', lit ''invoke-item'', lit ''ii''} \<or>
                         sublist (lit ''start-process'') t \<or> sublist (lit ''invoke-item'') t) tokens_lc
         then True
         else if has_url \<and> list_ex (\<lambda>t. sublist (lit ''shellexecute'') t \<or> sublist (lit ''shell.application'') t) tokens_lc
         then True
         else if (case tokens_lc of
                    [] \<Rightarrow> False
                  | first_token # _ \<Rightarrow>
                      first_token = lit ''rundll32'' \<and>
                        list_ex (\<lambda>t. sublist (lit ''url.dll,fileprotocolhandler'') t) tokens_lc \<and> has_url \<or>
                      first_token = lit ''mshta'' \<and> has_url \<or>
                      is_browser_executable first_token \<and> has_url \<or>
                      first_token \<in> {lit ''explorer'', lit ''explorer.exe''} \<and> has_url)
         then True
         else has_force_delete_cmdlet tokens_lc)"

fun parse_powershell_invocation :: "windows_deps \<Rightarrow> rstr list \<Rightarrow> rstr list option" where
  "parse_powershell_invocation deps [] = None"
| "parse_powershell_invocation deps (arg # args) =
     (let lower = to_ascii_lowercase arg in
      if lower \<in> {lit ''-command'', lit ''/command'', lit ''-c''} then
        (case args of
           [script] \<Rightarrow> shlex_words deps script
         | _ \<Rightarrow> None)
      else if starts_with lower (lit ''-command:'') \<or> starts_with lower (lit ''/command:'') then
        (if args \<noteq> [] then None
         else case split_once 58 arg of
           None \<Rightarrow> None
         | Some (_, script) \<Rightarrow> shlex_words deps script)
      else if lower \<in> {lit ''-nologo'', lit ''-noprofile'', lit ''-noninteractive'', lit ''-mta'', lit ''-sta''} then
        parse_powershell_invocation deps args
      else if starts_with lower [45] then parse_powershell_invocation deps args
      else Some (arg # args))"

definition is_dangerous_powershell :: "windows_deps \<Rightarrow> rstr list \<Rightarrow> bool" where
  "is_dangerous_powershell deps command =
     (case command of
        [] \<Rightarrow> False
      | exe # args \<Rightarrow>
          (if \<not> is_powershell_executable exe then False
           else case parse_powershell_invocation deps args of
             None \<Rightarrow> False
           | Some tokens \<Rightarrow> is_dangerous_powershell_words deps tokens))"

section \<open>The command prompt\<close>

fun split_operators :: "rstr \<Rightarrow> rstr \<Rightarrow> rstr list" where
  "split_operators cur [] = (if cur = [] then [] else [cur])"
| "split_operators cur (ch # s) =
     (if ch = 38 \<or> ch = 124 then
        (if cur = [] then [] else [cur]) @
        (if s \<noteq> [] \<and> hd s = ch then [ch, hd s] # split_operators [] (tl s) else [ch] # split_operators [] s)
      else split_operators (cur @ [ch]) s)"

definition split_embedded_cmd_operators :: "rstr \<Rightarrow> rstr list" where
  "split_embedded_cmd_operators token = filter (\<lambda>s. trim s \<noteq> []) (split_operators [] token)"

definition CMD_SEPARATORS :: "rstr list" where
  "CMD_SEPARATORS = [lit ''&'', lit ''&&'', lit ''|'', lit ''||'']"

fun skip_cmd_switches :: "rstr list \<Rightarrow> rstr list option" where
  "skip_cmd_switches [] = Some []"
| "skip_cmd_switches (arg # args) =
     (let lower = to_ascii_lowercase arg in
      if lower \<in> {lit ''/c'', lit ''/r'', lit ''-c''} then Some args
      else if starts_with lower [47] then skip_cmd_switches args
      else None)"

definition is_dangerous_segment :: "windows_deps \<Rightarrow> rstr list \<Rightarrow> bool" where
  "is_dangerous_segment deps segment =
     (case segment of
        [] \<Rightarrow> False
      | cmd # _ \<Rightarrow>
          eq_ignore_ascii_case cmd (lit ''start'') \<and> args_have_url deps segment \<or>
          (eq_ignore_ascii_case cmd (lit ''del'') \<or> eq_ignore_ascii_case cmd (lit ''erase'')) \<and> has_force_flag_cmd segment \<or>
          (eq_ignore_ascii_case cmd (lit ''rd'') \<or> eq_ignore_ascii_case cmd (lit ''rmdir'')) \<and>
            has_recursive_flag_cmd segment \<and> has_quiet_flag_cmd segment)"

definition is_dangerous_cmd :: "windows_deps \<Rightarrow> rstr list \<Rightarrow> bool" where
  "is_dangerous_cmd deps command =
     (case command of
        [] \<Rightarrow> False
      | exe # args \<Rightarrow>
          (case executable_basename exe of
             None \<Rightarrow> False
           | Some base \<Rightarrow>
               if base \<noteq> lit ''cmd'' \<and> base \<noteq> lit ''cmd.exe'' then False
               else case skip_cmd_switches args of
                 None \<Rightarrow> False
               | Some remaining \<Rightarrow>
                   (if remaining = [] then False
                    else let cmd_tokens = (case remaining of
                                [only] \<Rightarrow> (case shlex_words deps only of Some ws \<Rightarrow> ws | None \<Rightarrow> [only])
                              | _ \<Rightarrow> remaining);
                             tokens = concat (map split_embedded_cmd_operators cmd_tokens)
                         in list_ex (is_dangerous_segment deps) (split_on (\<lambda>t. t \<in> set CMD_SEPARATORS) tokens))))"

section \<open>Direct launches\<close>

definition is_direct_gui_launch :: "windows_deps \<Rightarrow> rstr list \<Rightarrow> bool" where
  "is_direct_gui_launch deps command =
     (case command of
        [] \<Rightarrow> False
      | exe # args \<Rightarrow>
          (case executable_basename exe of
             None \<Rightarrow> False
           | Some base \<Rightarrow>
               base \<in> {lit ''explorer'', lit ''explorer.exe''} \<and> args_have_url deps args \<or>
               base \<in> {lit ''mshta'', lit ''mshta.exe''} \<and> args_have_url deps args \<or>
               (base = lit ''rundll32'' \<or> base = lit ''rundll32.exe'') \<and>
                 list_ex (\<lambda>t. sublist (lit ''url.dll,fileprotocolhandler'') (to_ascii_lowercase t)) args \<and>
                 args_have_url deps args \<or>
               is_browser_executable base \<and> args_have_url deps args))"

definition is_dangerous_command_windows :: "windows_deps \<Rightarrow> rstr list \<Rightarrow> bool" where
  "is_dangerous_command_windows deps command =
     (if is_dangerous_powershell deps command then True
      else if is_dangerous_cmd deps command then True
      else is_direct_gui_launch deps command)"

section \<open>Operators are always separated\<close>

definition is_operator :: "rstr \<Rightarrow> bool" where
  "is_operator t \<longleftrightarrow> t \<in> set CMD_SEPARATORS"

lemma is_operator_iff: "is_operator t \<longleftrightarrow> t \<in> {[38], [38, 38], [124], [124, 124]}"
  by (auto simp: is_operator_def CMD_SEPARATORS_def lit_def)

lemma split_operators_concat: "concat (split_operators cur s) = cur @ s"
  by (induction cur s rule: split_operators.induct) (auto, metis list.collapse, metis list.collapse)

lemma split_operators_parts:
  "38 \<notin> set cur \<Longrightarrow> 124 \<notin> set cur \<Longrightarrow> p \<in> set (split_operators cur s) \<Longrightarrow>
     is_operator p \<or> (38 \<notin> set p \<and> 124 \<notin> set p)"
  by (induction cur s rule: split_operators.induct) (auto simp: is_operator_iff split: if_splits)

text \<open>
  Splitting a \<open>cmd\<close> token at its operators loses nothing but blanks: its pieces put together, before blank
  ones are dropped, are the token, and each piece is an operator or free of operator characters.
\<close>

lemma operators_separated:
  "concat (split_operators [] token) = token \<and>
   (\<forall>p \<in> set (split_embedded_cmd_operators token). is_operator p \<or> (38 \<notin> set p \<and> 124 \<notin> set p))"
  using split_operators_parts[of "[]" _ token] by (auto simp: split_operators_concat split_embedded_cmd_operators_def)

section \<open>Forced deletes are found\<close>

lemma push_word_nonempty [simp]: "push_word segs w = [] \<longleftrightarrow> segs = []"
  by (simp add: push_word_def Let_def)

lemma scan_token_nonempty: "segs \<noteq> [] \<Longrightarrow> fst (scan_token segs cur s) \<noteq> []"
  by (induction segs cur s rule: scan_token.induct) (auto simp: Let_def)

lemma scan_token_plain: "set s \<inter> set SEG_SEPS = {} \<Longrightarrow> scan_token segs cur s = (segs, cur @ s)"
  by (induction s arbitrary: cur) auto

text \<open>Scanning only ever extends a segment, or starts the next one.\<close>

definition seg_le :: "rstr list list \<Rightarrow> rstr list list \<Rightarrow> bool" where
  "seg_le xs ys \<longleftrightarrow> (\<forall>x \<in> set xs. \<exists>y \<in> set ys. set x \<subseteq> set y)"

lemma seg_le_refl [simp]: "seg_le xs xs"
  by (auto simp: seg_le_def)

lemma seg_le_trans: "seg_le xs ys \<Longrightarrow> seg_le ys zs \<Longrightarrow> seg_le xs zs"
  unfolding seg_le_def by (meson subset_trans)

lemma seg_le_push: "seg_le segs (push_word segs w)"
  by (cases segs rule: rev_cases) (auto simp: push_word_def Let_def seg_le_def)

lemma seg_le_append: "seg_le segs (segs @ t)"
  by (auto simp: seg_le_def)

lemma seg_le_scan: "seg_le segs (fst (scan_token segs cur s))"
proof (induction segs cur s rule: scan_token.induct)
  case (2 segs cur ch s)
  let ?p = "push_word segs cur"
  have "seg_le segs (if ?p \<noteq> [] \<and> last ?p \<noteq> [] then ?p @ [[]] else ?p)"
    using seg_le_push[of segs cur] seg_le_trans[OF seg_le_push seg_le_append, of segs cur] by simp
  then show ?case
    using 2 by (auto simp: Let_def intro: seg_le_trans)
qed simp

lemma seg_le_build: "seg_le segs (build_segments segs tokens)"
proof (induction tokens arbitrary: segs)
  case (Cons tok tokens)
  obtain segs' cur where s: "scan_token segs [] tok = (segs', cur)" by (cases "scan_token segs [] tok")
  have "seg_le segs segs'" using seg_le_scan[of segs "[]" tok] by (simp add: s)
  then show ?case
    using Cons[of "push_word segs' cur"] seg_le_push[of segs' cur] by (auto simp: s intro: seg_le_trans)
qed simp

lemma build_segments_append: "build_segments segs (xs @ ys) = build_segments (build_segments segs xs) ys"
  by (induction xs arbitrary: segs) (auto split: prod.splits)

lemma build_segments_nonempty: "segs \<noteq> [] \<Longrightarrow> build_segments segs tokens \<noteq> []"
proof (induction tokens arbitrary: segs)
  case (Cons tok tokens)
  then show ?case
    using scan_token_nonempty[of segs "[]" tok] by (cases "scan_token segs [] tok") simp
qed simp

lemma build_segments_plain:
  assumes "segs \<noteq> []" and "\<forall>t \<in> set run. set t \<inter> set SEG_SEPS = {}"
  shows "\<exists>seg \<in> set (build_segments segs run). set (map trim run) - {[]} \<subseteq> set seg \<and>
    seg = last (build_segments segs run) \<and> set (last segs) \<subseteq> set seg"
  using assms
proof (induction run arbitrary: segs)
  case (Cons t run)
  have s: "build_segments segs (t # run) = build_segments (push_word segs t) run"
    using Cons.prems(2) by (simp add: scan_token_plain)
  have p: "set (last segs) \<subseteq> set (last (push_word segs t))" "trim t \<noteq> [] \<Longrightarrow> trim t \<in> set (last (push_word segs t))"
    using Cons.prems(1) by (auto simp: push_word_def Let_def)
  from Cons.IH[of "push_word segs t"] Cons.prems
  obtain seg where g: "seg \<in> set (build_segments (push_word segs t) run)" "set (map trim run) - {[]} \<subseteq> set seg"
      "seg = last (build_segments (push_word segs t) run)" "set (last (push_word segs t)) \<subseteq> set seg"
    by auto
  have "set (map trim (t # run)) - {[]} \<subseteq> set seg"
    using g(2,4) p(2) by auto
  then show ?case
    unfolding s using g p(1) by blast
qed simp

lemma segment_run:
  assumes "\<forall>t \<in> set run. set t \<inter> set SEG_SEPS = {}"
  shows "\<exists>seg \<in> set (build_segments [[]] (before @ run @ after)). set (map trim run) - {[]} \<subseteq> set seg"
proof -
  let ?segs = "build_segments [[]] before"
  have "?segs \<noteq> []" by (rule build_segments_nonempty) simp
  from build_segments_plain[OF this assms] obtain seg
    where seg: "seg \<in> set (build_segments ?segs run)" "set (map trim run) - {[]} \<subseteq> set seg" by blast
  then obtain seg' where "seg' \<in> set (build_segments (build_segments ?segs run) after)" "set seg \<subseteq> set seg'"
    using seg_le_build[of "build_segments ?segs run" after] by (auto simp: seg_le_def)
  then show ?thesis using seg(2) by (auto simp: build_segments_append)
qed

lemma split_on_none: "\<forall>c \<in> set s. \<not> P c \<Longrightarrow> split_on P s = [s]"
  by (induction s) auto

lemma segment_atoms_word:
  assumes "w \<in> set seg" and "set w \<inter> set SOFT_SEPS = {}" and "trim w \<noteq> []"
  shows "trim w \<in> set (segment_atoms seg)"
proof -
  have "split_on (\<lambda>c. c \<in> set SOFT_SEPS) w = [w]" using assms(2) by (intro split_on_none) auto
  then have "w \<in> set (concat (map (split_on (\<lambda>c. c \<in> set SOFT_SEPS)) seg))" using assms(1) by force
  then show ?thesis using assms(3) by (simp add: segment_atoms_def)
qed

text \<open>
  A forced delete cannot be hidden among other words. If somewhere in the words of a PowerShell command
  there is a run of words without command separators that has a deleting command and a force flag (both
  as words of their own, in any letter case and with blanks around them), the scanner reports it,
  whatever comes before and after.
\<close>

theorem forced_delete_found:
  assumes "\<forall>t \<in> set run. set t \<inter> set SEG_SEPS = {}"
    and "d \<in> set run" and "set d \<inter> set SOFT_SEPS = {}" and "is_delete_atom (trim d)"
    and "f \<in> set run" and "set f \<inter> set SOFT_SEPS = {}" and "is_force_atom (trim f)"
  shows "has_force_delete_cmdlet (before @ run @ after)"
proof -
  obtain seg where seg: "seg \<in> set (build_segments [[]] (before @ run @ after))" "set (map trim run) - {[]} \<subseteq> set seg"
    using segment_run[OF assms(1)] by blast
  have ne: "trim d \<noteq> []" "trim f \<noteq> []"
    using assms(4,7)
    by (auto simp: is_delete_atom_def is_force_atom_def DELETE_CMDLETS_def eq_ignore_ascii_case_def to_ascii_lowercase_def lit_def)
  have in_seg: "trim d \<in> set seg" "trim f \<in> set seg"
    using seg(2) assms(2,5) ne by auto
  have soft: "set (trim d) \<inter> set SOFT_SEPS = {}" "set (trim f) \<inter> set SOFT_SEPS = {}"
    using assms(3,6) set_trim by blast+
  have "trim d \<in> set (segment_atoms seg)" "trim f \<in> set (segment_atoms seg)"
    using segment_atoms_word[OF in_seg(1) soft(1)] segment_atoms_word[OF in_seg(2) soft(2)] ne by auto
  then show ?thesis
    using seg(1) assms(4,7) by (auto simp: has_force_delete_cmdlet_def list_ex_iff)
qed

lemma forced_delete_found_witness:
  "has_force_delete_cmdlet ([lit ''ls;''] @ [lit ''Remove-Item'', lit ''x'', lit ''-FORCE''] @ [])"
  by (rule forced_delete_found[of _ "lit ''Remove-Item''" "lit ''-FORCE''"])
    (auto simp: SEG_SEPS_def SOFT_SEPS_def is_delete_atom_def is_force_atom_def DELETE_CMDLETS_def
      eq_ignore_ascii_case_def to_ascii_lowercase_def ascii_lower_def str_eval)

end
