(* ===== verification/Dangerous_Command.thy ===== *)
theory Dangerous_Command
  imports Shell_Syntax Windows_Commands
begin

text \<open>
  The search for dangerous commands (\<open>shell-command/src/command_safety/is_dangerous_command.rs\<close>). The four
  mutually recursive functions are one \<open>function\<close> declaration: looking through \<open>sudo\<close>, \<open>env\<close>, \<open>trap\<close>
  and shell scripts raises the wrapper depth, and the depth limit makes the recursion end. The relation
  \<open>wraps\<close> says, without a depth and without the checker, which commands a command runs; the main
  theorem characterises the checker by it.
\<close>

datatype dangerous_command_platform = Posix | Windows

datatype dangerous_command_match = ForcedRm | Other

definition MAX_DANGEROUS_COMMAND_WRAPPER_DEPTH :: nat where
  "MAX_DANGEROUS_COMMAND_WRAPPER_DEPTH = 8"

fun strip_first_suffix :: "rstr list \<Rightarrow> rstr \<Rightarrow> rstr option" where
  "strip_first_suffix [] name = None"
| "strip_first_suffix (x # xs) name =
     (case strip_suffix x name of Some stripped \<Rightarrow> Some stripped | None \<Rightarrow> strip_first_suffix xs name)"

definition executable_name_lookup_key :: "dangerous_command_platform \<Rightarrow> rstr \<Rightarrow> rstr option" where
  "executable_name_lookup_key platform raw =
     (case platform of
        Posix \<Rightarrow> (let name = last_piece (\<lambda>c. c = 47) raw in if name = [] then None else Some name)
      | Windows \<Rightarrow>
          (let name = last_piece (\<lambda>c. c = 47 \<or> c = 92) raw in
           if name = [] then None
           else let name = to_ascii_lowercase (strip_drive name) in
             case strip_first_suffix [lit ''.exe'', lit ''.cmd'', lit ''.bat'', lit ''.com''] name of
               Some stripped \<Rightarrow> Some stripped
             | None \<Rightarrow> (if name = [] then None else Some name)))"

definition is_force_argument :: "rstr \<Rightarrow> bool" where
  "is_force_argument arg \<longleftrightarrow>
     arg = lit ''--force'' \<or>
     (case strip_prefix [45] arg of None \<Rightarrow> False | Some flags \<Rightarrow> \<not> starts_with flags [45] \<and> 102 \<in> set flags)"

definition rm_args_include_force_option :: "rstr list \<Rightarrow> bool" where
  "rm_args_include_force_option args =
     list_ex is_force_argument (takeWhile (\<lambda>arg. arg \<noteq> lit ''--'') args)"

definition is_env_option :: "rstr \<Rightarrow> bool" where
  "is_env_option argument \<longleftrightarrow>
     argument = lit ''-i'' \<or> argument = lit ''--ignore-environment'' \<or>
     (case split_once 61 argument of None \<Rightarrow> False | Some (name, _) \<Rightarrow> name \<noteq> [] \<and> \<not> starts_with name [45])"

fun skip_env_options :: "rstr list \<Rightarrow> rstr list" where
  "skip_env_options [] = []"
| "skip_env_options (argument # args) =
     (if argument = lit ''--'' then args
      else if is_env_option argument then skip_env_options args
      else argument # args)"

definition trap_action :: "rstr list \<Rightarrow> rstr option" where
  "trap_action args =
     (let args = (case args of a # as \<Rightarrow> (if a = lit ''--'' then as else args) | [] \<Rightarrow> []) in
      case args of
        [] \<Rightarrow> None
      | action # _ \<Rightarrow> (if starts_with action [45] then None else Some action))"

function dangerous_command_match_with_depth ::
    "tree_sitter \<Rightarrow> windows_deps \<Rightarrow> dangerous_command_platform \<Rightarrow> rstr list \<Rightarrow> nat \<Rightarrow> dangerous_command_match option"
  and dangerous_command_match_for_exec ::
    "tree_sitter \<Rightarrow> windows_deps \<Rightarrow> dangerous_command_platform \<Rightarrow> rstr list \<Rightarrow> nat \<Rightarrow> dangerous_command_match option"
  and dangerous_command_match_for_env ::
    "tree_sitter \<Rightarrow> windows_deps \<Rightarrow> dangerous_command_platform \<Rightarrow> rstr list \<Rightarrow> nat \<Rightarrow> dangerous_command_match option"
  and dangerous_command_match_for_trap ::
    "tree_sitter \<Rightarrow> windows_deps \<Rightarrow> dangerous_command_platform \<Rightarrow> rstr list \<Rightarrow> nat \<Rightarrow> dangerous_command_match option"
where
  "dangerous_command_match_with_depth sitter deps platform command wrapper_depth =
     (if wrapper_depth > MAX_DANGEROUS_COMMAND_WRAPPER_DEPTH then Some Other
      else case dangerous_command_match_for_exec sitter deps platform command wrapper_depth of
        Some m \<Rightarrow> Some m
      | None \<Rightarrow>
          (case Option.bind (parse_shell_lc_literal_commands sitter command)
             (\<lambda>commands. find_map
                (\<lambda>c. dangerous_command_match_with_depth sitter deps platform c (wrapper_depth + 1)) commands) of
             Some m \<Rightarrow> Some m
           | None \<Rightarrow>
               (if platform = Windows \<and> is_dangerous_command_windows deps command then Some Other else None)))"
| "dangerous_command_match_for_exec sitter deps platform command wrapper_depth =
     (let cmd0 = (case command of [] \<Rightarrow> None | c # _ \<Rightarrow> executable_name_lookup_key platform c) in
      if cmd0 = Some (lit ''rm'') \<and> rm_args_include_force_option (tl command) then Some ForcedRm
      else if cmd0 = Some (lit ''sudo'') then
        dangerous_command_match_with_depth sitter deps platform (tl command) (wrapper_depth + 1)
      else if cmd0 = Some (lit ''env'') then
        dangerous_command_match_for_env sitter deps platform command wrapper_depth
      else if cmd0 = Some (lit ''trap'') then
        dangerous_command_match_for_trap sitter deps platform command wrapper_depth
      else None)"
| "dangerous_command_match_for_env sitter deps platform command wrapper_depth =
     dangerous_command_match_with_depth sitter deps platform (skip_env_options (tl command)) (wrapper_depth + 1)"
| "dangerous_command_match_for_trap sitter deps platform command wrapper_depth =
     (case trap_action (tl command) of
        None \<Rightarrow> None
      | Some action \<Rightarrow>
          dangerous_command_match_with_depth sitter deps platform [lit ''sh'', lit ''-c'', action] (wrapper_depth + 1))"
  by pat_completeness auto
termination
  by (relation "measure (\<lambda>x. case x of
        Inl (Inl (_, _, _, _, d)) \<Rightarrow> (if d > 8 then 0 else 3 * (9 - d) + 3)
      | Inl (Inr (_, _, _, _, d)) \<Rightarrow> 3 * (9 - d) + 2
      | Inr (Inl (_, _, _, _, d)) \<Rightarrow> 3 * (9 - d) + 1
      | Inr (Inr (_, _, _, _, d)) \<Rightarrow> 3 * (9 - d) + 1)")
    (auto simp: MAX_DANGEROUS_COMMAND_WRAPPER_DEPTH_def)

declare dangerous_command_match_with_depth.simps [simp del]
  dangerous_command_match_for_exec.simps [simp del]
  dangerous_command_match_for_env.simps [simp del]
  dangerous_command_match_for_trap.simps [simp del]

definition dangerous_command_match_for_platform ::
    "tree_sitter \<Rightarrow> windows_deps \<Rightarrow> rstr list \<Rightarrow> dangerous_command_platform \<Rightarrow> dangerous_command_match option" where
  "dangerous_command_match_for_platform sitter deps command platform =
     dangerous_command_match_with_depth sitter deps platform command 0"

definition dangerous_powershell_words_match ::
    "windows_deps \<Rightarrow> rstr list \<Rightarrow> dangerous_command_platform \<Rightarrow> dangerous_command_match option" where
  "dangerous_powershell_words_match deps command platform =
     (if platform = Windows then (if is_dangerous_powershell_words deps command then Some Other else None) else None)"

section \<open>What a command runs\<close>

definition forced_rm :: "dangerous_command_platform \<Rightarrow> rstr list \<Rightarrow> bool" where
  "forced_rm platform command \<longleftrightarrow>
     (\<exists>prog args before flag after. command = prog # args \<and>
        executable_name_lookup_key platform prog = Some (lit ''rm'') \<and>
        args = before @ flag # after \<and> lit ''--'' \<notin> set before \<and> is_force_argument flag)"

text \<open>One step: the program named by the words runs other words, or a script with a command in it.\<close>

inductive wraps :: "tree_sitter \<Rightarrow> dangerous_command_platform \<Rightarrow> rstr list \<Rightarrow> rstr list \<Rightarrow> bool"
  for sitter platform where
  sudo: "executable_name_lookup_key platform prog = Some (lit ''sudo'') \<Longrightarrow> wraps sitter platform (prog # inner) inner"
| env: "executable_name_lookup_key platform prog = Some (lit ''env'') \<Longrightarrow> list_all is_env_option opts \<Longrightarrow>
    (case inner of [] \<Rightarrow> True | a # _ \<Rightarrow> \<not> is_env_option a \<and> a \<noteq> lit ''--'') \<Longrightarrow>
    wraps sitter platform (prog # opts @ inner) inner"
| env_dashes: "executable_name_lookup_key platform prog = Some (lit ''env'') \<Longrightarrow> list_all is_env_option opts \<Longrightarrow>
    wraps sitter platform (prog # opts @ lit ''--'' # inner) inner"
| trap: "executable_name_lookup_key platform prog = Some (lit ''trap'') \<Longrightarrow> \<not> starts_with action [45] \<Longrightarrow>
    wraps sitter platform (prog # action # signals) [lit ''sh'', lit ''-c'', action]"
| trap_dashes: "executable_name_lookup_key platform prog = Some (lit ''trap'') \<Longrightarrow> \<not> starts_with action [45] \<Longrightarrow>
    wraps sitter platform (prog # lit ''--'' # action # signals) [lit ''sh'', lit ''-c'', action]"
| script: "extract_bash_command command = Some (shell, src) \<Longrightarrow> sitter src = Some (root, False) \<Longrightarrow>
    n \<in> set (subnodes root) \<Longrightarrow> is_named n \<Longrightarrow> parse_literal_command_from_node n = Some inner \<Longrightarrow>
    wraps sitter platform command inner"

lemma takeWhile_list_ex_iff:
  "list_ex P (takeWhile Q xs) \<longleftrightarrow> (\<exists>us x vs. xs = us @ x # vs \<and> (\<forall>u \<in> set us. Q u) \<and> Q x \<and> P x)"
proof
  assume "list_ex P (takeWhile Q xs)"
  then obtain x us vs where t: "takeWhile Q xs = us @ x # vs" "P x"
    by (metis list_ex_iff split_list)
  have "\<forall>u \<in> set (takeWhile Q xs). Q u" by (metis set_takeWhileD)
  moreover have "xs = us @ x # (vs @ dropWhile Q xs)"
    using takeWhile_dropWhile_id[of Q xs] t(1) by simp
  ultimately show "\<exists>us x vs. xs = us @ x # vs \<and> (\<forall>u \<in> set us. Q u) \<and> Q x \<and> P x"
    using t by auto
qed (auto simp: list_ex_iff)

lemma dashes_no_force: "\<not> is_force_argument (lit ''--'')"
  by (simp add: is_force_argument_def starts_with_def lit_def)

lemma rm_force_iff:
  "rm_args_include_force_option args \<longleftrightarrow>
     (\<exists>before flag after. args = before @ flag # after \<and> lit ''--'' \<notin> set before \<and> is_force_argument flag)"
  unfolding rm_args_include_force_option_def takeWhile_list_ex_iff using dashes_no_force by metis

lemma forced_rm_iff:
  "forced_rm platform command \<longleftrightarrow>
     command \<noteq> [] \<and> executable_name_lookup_key platform (hd command) = Some (lit ''rm'') \<and>
     rm_args_include_force_option (tl command)"
  by (cases command) (auto simp: forced_rm_def rm_force_iff)

lemma dashes_no_option: "\<not> is_env_option (lit ''--'')"
  by (simp add: is_env_option_def split_once_def lit_def)

lemma skip_env_options_split:
  "(\<exists>opts. list_all is_env_option opts \<and> args = opts @ lit ''--'' # skip_env_options args) \<or>
   (\<exists>opts. list_all is_env_option opts \<and> args = opts @ skip_env_options args \<and>
      (case skip_env_options args of [] \<Rightarrow> True | a # _ \<Rightarrow> \<not> is_env_option a \<and> a \<noteq> lit ''--''))"
proof (induction args)
  case (Cons a args)
  show ?case
  proof (cases "a \<noteq> lit ''--'' \<and> is_env_option a")
    case True
    from Cons.IH show ?thesis
    proof (elim disjE exE conjE)
      fix opts assume "list_all is_env_option opts" "args = opts @ lit ''--'' # skip_env_options args"
      then show ?thesis using True by (intro disjI1 exI[of _ "a # opts"]) simp
    next
      fix opts assume "list_all is_env_option opts" "args = opts @ skip_env_options args"
        "case skip_env_options args of [] \<Rightarrow> True | a # _ \<Rightarrow> \<not> is_env_option a \<and> a \<noteq> lit ''--''"
      then show ?thesis using True by (intro disjI2 exI[of _ "a # opts"]) simp
    qed
  next
    case False
    show ?thesis
    proof (cases "a = lit ''--''")
      case True
      then show ?thesis by (intro disjI1 exI[of _ "[]"]) simp
    next
      case False
      with \<open>\<not> (a \<noteq> lit ''--'' \<and> is_env_option a)\<close> show ?thesis by (intro disjI2 exI[of _ "[]"]) simp
    qed
  qed
qed simp

lemma skip_env_options_options:
  "list_all is_env_option opts \<Longrightarrow> skip_env_options (opts @ args) = skip_env_options args"
  by (induction opts) (auto simp: dashes_no_option)

lemma skip_env_options_stop:
  "(case inner of [] \<Rightarrow> True | a # _ \<Rightarrow> \<not> is_env_option a \<and> a \<noteq> lit ''--'') \<Longrightarrow> skip_env_options inner = inner"
  by (cases inner) auto


text \<open>The wrapped command, as the checker computes it.\<close>

definition unwrap :: "dangerous_command_platform \<Rightarrow> rstr list \<Rightarrow> rstr list option" where
  "unwrap platform command =
     (case command of
        [] \<Rightarrow> None
      | prog # args \<Rightarrow>
          (let key = executable_name_lookup_key platform prog in
           if key = Some (lit ''sudo'') then Some args
           else if key = Some (lit ''env'') then Some (skip_env_options args)
           else if key = Some (lit ''trap'') then map_option (\<lambda>a. [lit ''sh'', lit ''-c'', a]) (trap_action args)
           else None))"

lemma lookup_keys_distinct [simp]:
  "lit ''sudo'' \<noteq> lit ''env''" "lit ''env'' \<noteq> lit ''sudo''" "lit ''trap'' \<noteq> lit ''sudo''" "lit ''trap'' \<noteq> lit ''env''"
  "lit ''rm'' \<noteq> lit ''sudo''" "lit ''rm'' \<noteq> lit ''env''" "lit ''rm'' \<noteq> lit ''trap''"
  "lit ''sudo'' \<noteq> lit ''rm''" "lit ''env'' \<noteq> lit ''rm''" "lit ''trap'' \<noteq> lit ''rm''"
  by (simp_all add: lit_def)

lemma trap_action_Some_iff:
  "trap_action args = Some action \<longleftrightarrow>
     (\<exists>signals. (args = action # signals \<or> args = lit ''--'' # action # signals) \<and> \<not> starts_with action [45])"
proof -
  have d: "starts_with (lit ''--'') [45]" by (simp add: starts_with_def lit_def)
  then show ?thesis
    by (auto simp: trap_action_def Let_def split: list.splits if_splits)
qed

lemma unwrap_wraps: "unwrap platform command = Some inner \<Longrightarrow> wraps sitter platform command inner"
proof (cases command)
  case (Cons prog args)
  assume u: "unwrap platform command = Some inner"
  consider (sudo) "executable_name_lookup_key platform prog = Some (lit ''sudo'')" "inner = args"
    | (env) "executable_name_lookup_key platform prog = Some (lit ''env'')" "inner = skip_env_options args"
    | (trap) action where "executable_name_lookup_key platform prog = Some (lit ''trap'')"
        "trap_action args = Some action" "inner = [lit ''sh'', lit ''-c'', action]"
    using u by (auto simp: unwrap_def Cons Let_def split: if_splits)
  then show ?thesis
  proof cases
    case env
    from skip_env_options_split[of args] show ?thesis
    proof (elim disjE exE conjE)
      fix opts assume "list_all is_env_option opts" "args = opts @ lit ''--'' # skip_env_options args"
      then show ?thesis using wraps.env_dashes[OF env(1), of opts sitter inner] env(2) Cons by simp
    next
      fix opts assume "list_all is_env_option opts" "args = opts @ skip_env_options args"
        "case skip_env_options args of [] \<Rightarrow> True | a # _ \<Rightarrow> \<not> is_env_option a \<and> a \<noteq> lit ''--''"
      then show ?thesis using wraps.env[OF env(1), of opts inner sitter] env(2) Cons by simp
    qed
  next
    case trap
    then show ?thesis
      using Cons by (auto simp: trap_action_Some_iff intro: wraps.trap wraps.trap_dashes)
  qed (simp add: Cons wraps.sudo)
qed (simp add: unwrap_def)

lemma literal_commands_iff:
  assumes "bash_grammar sitter"
  shows "(\<exists>lits. parse_shell_lc_literal_commands sitter command = Some lits \<and> inner \<in> set lits) \<longleftrightarrow>
    (\<exists>shell src root n. extract_bash_command command = Some (shell, src) \<and> sitter src = Some (root, False) \<and>
       n \<in> set (subnodes root) \<and> is_named n \<and> parse_literal_command_from_node n = Some inner)" (is "?l \<longleftrightarrow> ?r")
proof
  assume ?l
  then obtain shell src root where e: "extract_bash_command command = Some (shell, src)" "sitter src = Some (root, False)"
      "inner \<in> set (walk_literal [root] [])"
    by (auto simp: parse_shell_lc_literal_commands_def split: option.splits prod.splits if_splits)
  then show ?r using walk_literal_sound[OF e(3)] assms by (auto simp: bash_grammar_def)
next
  assume ?r
  then obtain shell src root n where e: "extract_bash_command command = Some (shell, src)" "sitter src = Some (root, False)"
      "n \<in> set (subnodes root)" "is_named n" "parse_literal_command_from_node n = Some inner"
    by blast
  have "inner \<in> set (walk_literal [root] [])"
    using assms e(2) e(3,4,5) by (intro walk_literal_finds[of "[root]" n]) (auto simp: bash_grammar_def bash_tree_def)
  then show ?l using e(1,2) by (simp add: parse_shell_lc_literal_commands_def)
qed

lemma wraps_iff:
  assumes "bash_grammar sitter"
  shows "wraps sitter platform command inner \<longleftrightarrow>
    unwrap platform command = Some inner \<or>
    (\<exists>lits. parse_shell_lc_literal_commands sitter command = Some lits \<and> inner \<in> set lits)"
proof
  assume "wraps sitter platform command inner"
  then show "unwrap platform command = Some inner \<or>
    (\<exists>lits. parse_shell_lc_literal_commands sitter command = Some lits \<and> inner \<in> set lits)"
  proof cases
    case (script shell src root n)
    then show ?thesis unfolding literal_commands_iff[OF assms] by blast
  qed (auto simp: unwrap_def Let_def skip_env_options_options skip_env_options_stop trap_action_Some_iff)
next
  assume "unwrap platform command = Some inner \<or>
    (\<exists>lits. parse_shell_lc_literal_commands sitter command = Some lits \<and> inner \<in> set lits)"
  then show "wraps sitter platform command inner"
    unfolding literal_commands_iff[OF assms] by (auto intro: unwrap_wraps wraps.script)
qed

section \<open>The checker, step by step\<close>

lemma for_exec_iff:
  "dangerous_command_match_for_exec sitter deps platform command d \<noteq> None \<longleftrightarrow>
     forced_rm platform command \<or>
     (\<exists>inner. unwrap platform command = Some inner \<and>
        dangerous_command_match_with_depth sitter deps platform inner (Suc d) \<noteq> None)"
  by (cases command)
    (auto simp: dangerous_command_match_for_exec.simps dangerous_command_match_for_env.simps
      dangerous_command_match_for_trap.simps forced_rm_iff unwrap_def Let_def split: option.splits if_splits)

definition flagged :: "windows_deps \<Rightarrow> dangerous_command_platform \<Rightarrow> rstr list \<Rightarrow> bool" where
  "flagged deps platform command \<longleftrightarrow>
     forced_rm platform command \<or> platform = Windows \<and> is_dangerous_command_windows deps command"

lemma with_depth_limit: "d > 8 \<Longrightarrow> dangerous_command_match_with_depth sitter deps platform command d = Some Other"
  by (subst dangerous_command_match_with_depth.simps) (simp add: MAX_DANGEROUS_COMMAND_WRAPPER_DEPTH_def)

lemma with_depth_step:
  assumes "bash_grammar sitter" and "d \<le> 8"
  shows "dangerous_command_match_with_depth sitter deps platform command d \<noteq> None \<longleftrightarrow>
    flagged deps platform command \<or>
    (\<exists>inner. wraps sitter platform command inner \<and>
       dangerous_command_match_with_depth sitter deps platform inner (Suc d) \<noteq> None)"
proof -
  let ?exec = "dangerous_command_match_for_exec sitter deps platform command d"
  let ?rec = "\<lambda>c. dangerous_command_match_with_depth sitter deps platform c (Suc d)"
  have "dangerous_command_match_with_depth sitter deps platform command d \<noteq> None \<longleftrightarrow>
      ?exec \<noteq> None \<or>
      (\<exists>lits. parse_shell_lc_literal_commands sitter command = Some lits \<and> find_map ?rec lits \<noteq> None) \<or>
      platform = Windows \<and> is_dangerous_command_windows deps command"
    using assms(2)
    by (subst dangerous_command_match_with_depth.simps)
      (auto simp: MAX_DANGEROUS_COMMAND_WRAPPER_DEPTH_def bind_eq_Some_conv split: option.splits)
  moreover have "(\<exists>inner. wraps sitter platform command inner \<and> P inner) \<longleftrightarrow>
      (\<exists>inner. unwrap platform command = Some inner \<and> P inner) \<or>
      (\<exists>lits. parse_shell_lc_literal_commands sitter command = Some lits \<and> (\<exists>inner \<in> set lits. P inner))" for P
    unfolding wraps_iff[OF assms(1)] by auto
  ultimately show ?thesis
    by (simp only: for_exec_iff flagged_def find_map_None_iff) auto
qed

lemma with_depth_iff:
  assumes "bash_grammar sitter" and "d + k = 9"
  shows "dangerous_command_match_with_depth sitter deps platform command d \<noteq> None \<longleftrightarrow>
    (\<exists>n < k. \<exists>inner. (wraps sitter platform ^^ n) command inner \<and> flagged deps platform inner) \<or>
    (\<exists>inner. (wraps sitter platform ^^ k) command inner)"
  using assms(2)
proof (induction k arbitrary: d command)
  case (Suc k)
  let ?w = "wraps sitter platform"
  have IH: "dangerous_command_match_with_depth sitter deps platform inner (Suc d) \<noteq> None \<longleftrightarrow>
      (\<exists>n < k. \<exists>i. (?w ^^ n) inner i \<and> flagged deps platform i) \<or> (\<exists>i. (?w ^^ k) inner i)" for inner
    using Suc.IH[of "Suc d" inner] Suc.prems by simp
  have n: "(\<exists>n < Suc k. P n) \<longleftrightarrow> P 0 \<or> (\<exists>n < k. P (Suc n))" for P
    by (metis Suc_less_eq gr0_conv_Suc not_gr0 zero_less_Suc)
  have step: "(?w ^^ Suc n) command i \<longleftrightarrow> (\<exists>c. ?w command c \<and> (?w ^^ n) c i)" for n i
    by (auto simp del: relpowp.simps intro: relpowp_Suc_I2 elim: relpowp_Suc_E2)
  have "d \<le> 8" using Suc.prems by simp
  then show ?case
    unfolding with_depth_step[OF assms(1) \<open>d \<le> 8\<close>] IH n step by auto
qed (simp add: with_depth_limit)

text \<open>
  C14: The checker finds exactly the commands it is meant to find. A command is reported if and only if,
  unwrapping \<open>sudo\<close>, \<open>env\<close>, \<open>trap\<close> and shell scripts at most eight times in any combination, it runs
  a forced \<open>rm\<close> (or, on Windows, a dangerous Windows command), or it can be unwrapped nine times. So no
  nesting of wrappers hides a forced \<open>rm\<close>, and nothing else is reported. The trees are those of the
  Bash grammar.
\<close>

theorem dangerous_command_iff:
  assumes "bash_grammar sitter"
  shows "dangerous_command_match_for_platform sitter deps command platform \<noteq> None \<longleftrightarrow>
    (\<exists>n \<le> MAX_DANGEROUS_COMMAND_WRAPPER_DEPTH. \<exists>inner. (wraps sitter platform ^^ n) command inner \<and> flagged deps platform inner) \<or>
    (\<exists>inner. (wraps sitter platform ^^ Suc MAX_DANGEROUS_COMMAND_WRAPPER_DEPTH) command inner)"
proof -
  have "(n < 9) = (n \<le> (8::nat))" for n by auto
  then show ?thesis
    using with_depth_iff[OF assms, of 0 9 deps platform command]
    by (simp add: dangerous_command_match_for_platform_def MAX_DANGEROUS_COMMAND_WRAPPER_DEPTH_def del: relpowp.simps)
qed

section \<open>Examples\<close>

definition no_deps :: windows_deps where
  "no_deps = \<lparr>shlex_words = (\<lambda>_. None), url_capture = (\<lambda>_. None), url_scheme = (\<lambda>_. None)\<rparr>"

lemma posix_keys:
  "executable_name_lookup_key Posix (lit ''rm'') = Some (lit ''rm'')"
  "executable_name_lookup_key Posix (lit ''sudo'') = Some (lit ''sudo'')"
  "executable_name_lookup_key Posix (lit ''env'') = Some (lit ''env'')"
  by (simp_all add: executable_name_lookup_key_def last_piece_def lit_def)

lemma sample_forced_rm: "forced_rm Posix [lit ''rm'', lit ''-rf'', lit ''/'']"
  unfolding forced_rm_iff
  by (simp add: posix_keys rm_args_include_force_option_def) (simp add: is_force_argument_def starts_with_def lit_def)

lemma dangerous_command_iff_witness:
  "dangerous_command_match_for_platform sample_sitter no_deps
     [lit ''sudo'', lit ''rm'', lit ''-rf'', lit ''/''] Posix \<noteq> None"
proof -
  have "(wraps sample_sitter Posix ^^ 1) [lit ''sudo'', lit ''rm'', lit ''-rf'', lit ''/''] [lit ''rm'', lit ''-rf'', lit ''/'']"
    by (simp add: OO_def wraps.sudo posix_keys)
  moreover have "flagged no_deps Posix [lit ''rm'', lit ''-rf'', lit ''/'']"
    by (simp add: flagged_def sample_forced_rm)
  ultimately show ?thesis
    unfolding dangerous_command_iff[OF sample_grammar]
    by (intro disjI1 exI[of _ "1::nat"]) (auto simp: MAX_DANGEROUS_COMMAND_WRAPPER_DEPTH_def simp del: relpowp.simps)
qed

section \<open>Nested wrappers\<close>

lemma env_step:
  assumes "d \<le> 8" and "\<not> is_env_option (hd command)" and "hd command \<noteq> lit ''--''" and "command \<noteq> []"
  and "parse_shell_lc_literal_commands sitter (lit ''env'' # command) = None"
  shows "dangerous_command_match_with_depth sitter deps Posix (lit ''env'' # command) d =
    dangerous_command_match_with_depth sitter deps Posix command (Suc d)"
proof -
  have "skip_env_options command = command" using assms(2-4) by (cases command) auto
  then have "dangerous_command_match_for_exec sitter deps Posix (lit ''env'' # command) d =
      dangerous_command_match_with_depth sitter deps Posix command (Suc d)"
    by (simp add: dangerous_command_match_for_exec.simps dangerous_command_match_for_env.simps posix_keys)
  then show ?thesis
    using assms(1,5)
    by (subst dangerous_command_match_with_depth.simps)
      (auto simp: MAX_DANGEROUS_COMMAND_WRAPPER_DEPTH_def split: option.splits)
qed

lemma env_no_shell: "extract_bash_command (lit ''env'' # command) = None"
proof -
  have "detect_shell_type (lit ''env'') = None"
    by (subst detect_shell_type.simps) (simp add: known_shell_def path_file_stem_def path_file_name_def path_components_def rsplit_once_def str_eval lit_def)
  then show ?thesis by (auto simp: extract_bash_command_def split: list.splits)
qed

lemma env_no_option: "\<not> is_env_option (lit ''env'')" "\<not> is_env_option (lit ''rm'')"
    "lit ''env'' \<noteq> lit ''--''" "lit ''rm'' \<noteq> lit ''--''"
  by (simp_all add: is_env_option_def split_once_def lit_def)

lemma forced_rm_here:
  "d \<le> 8 \<Longrightarrow> rm_args_include_force_option args \<Longrightarrow>
     dangerous_command_match_with_depth sitter deps Posix (lit ''rm'' # args) d = Some ForcedRm"
  by (subst dangerous_command_match_with_depth.simps)
    (simp add: dangerous_command_match_for_exec.simps posix_keys MAX_DANGEROUS_COMMAND_WRAPPER_DEPTH_def)

lemma nested_env:
  "rm_args_include_force_option args \<Longrightarrow>
     dangerous_command_match_with_depth sitter deps Posix (replicate n (lit ''env'') @ lit ''rm'' # args) d =
       Some (if d + n \<le> 8 then ForcedRm else Other)"
proof (induction n arbitrary: d)
  case (Suc n)
  have h: "hd (replicate n (lit ''env'') @ lit ''rm'' # args) \<in> {lit ''env'', lit ''rm''}" by (cases n) auto
  show ?case
  proof (cases "d \<le> 8")
    case True
    then show ?thesis
      using env_step[OF True, of "replicate n (lit ''env'') @ lit ''rm'' # args"] h env_no_option Suc
      by (auto simp: parse_shell_lc_literal_commands_def env_no_shell)
  qed (simp add: with_depth_limit)
qed (simp add: forced_rm_here with_depth_limit)

text \<open>
  Deep nesting fails closed, at exactly the limit. A forced \<open>rm\<close> behind any number of \<open>env\<close> wrappers
  is reported as a forced \<open>rm\<close> up to eight wrappers, and as dangerous for another reason beyond.
\<close>

theorem nested_wrappers_fail_closed:
  assumes "rm_args_include_force_option args"
  shows "dangerous_command_match_for_platform sitter deps (replicate n (lit ''env'') @ lit ''rm'' # args) Posix =
    Some (if n \<le> MAX_DANGEROUS_COMMAND_WRAPPER_DEPTH then ForcedRm else Other)"
  using nested_env[OF assms, of sitter deps n 0]
  by (simp add: dangerous_command_match_for_platform_def MAX_DANGEROUS_COMMAND_WRAPPER_DEPTH_def)

lemma nested_wrappers_fail_closed_witness:
  "dangerous_command_match_for_platform sample_sitter no_deps
     (replicate 9 (lit ''env'') @ lit ''rm'' # [lit ''-f'']) Posix = Some Other"
proof -
  have "rm_args_include_force_option [lit ''-f'']"
    by (simp add: rm_args_include_force_option_def is_force_argument_def starts_with_def lit_def)
  from nested_wrappers_fail_closed[OF this, of sample_sitter no_deps 9] show ?thesis
    by (simp add: MAX_DANGEROUS_COMMAND_WRAPPER_DEPTH_def)
qed

end
