(* ===== verification/PowerShell_Syntax.thy ===== *)
theory PowerShell_Syntax
  imports Shell_Syntax Windows_Commands
begin

text \<open>
  Reading literal PowerShell scripts (\<open>shell-command/src/powershell.rs\<close> and
  \<open>command_safety/powershell_tree_sitter.rs\<close>). Tree-sitter with its PowerShell grammar is a parameter, as
  for Bash. Positions count characters where the source counts bytes; the text of a node is read from
  the script, not from the masked copy that is parsed, so a node contributes its start and its length.
  Shown: words quoted for PowerShell are read back exactly, and only scripts made of literal commands
  are read at all.
\<close>

record powershell_grammar =
  load_error :: "rstr option"
  parse_tree :: tree_sitter

definition POWERSHELL_FLAGS :: "rstr list" where
  "POWERSHELL_FLAGS = [lit ''-nologo'', lit ''-noprofile'', lit ''-command'', lit ''-c'']"

fun find_script :: "rstr list \<Rightarrow> rstr option" where
  "find_script (flag # script # args) =
     (if to_ascii_lowercase flag \<notin> set POWERSHELL_FLAGS then None
      else if eq_ignore_ascii_case flag (lit ''-Command'') \<or> eq_ignore_ascii_case flag (lit ''-c'') then Some script
      else find_script (script # args))"
| "find_script _ = None"

definition extract_powershell_command :: "rstr list \<Rightarrow> (rstr \<times> rstr) option" where
  "extract_powershell_command command =
     (case command of
        shell # args \<Rightarrow>
          (if length command < 3 then None
           else if detect_shell_type shell \<noteq> Some PowerShell then None
           else map_option (Pair shell) (find_script args))
      | [] \<Rightarrow> None)"

section \<open>Masking\<close>

definition is_rejected_bare_character :: "rchar \<Rightarrow> bool" where
  "is_rejected_bare_character ch \<longleftrightarrow> ch \<in> set (lit ''$@'' @ [39, 34] @ lit ''(){}[];|&><,'')"

definition is_inline_parameter_token_separator :: "rchar \<Rightarrow> bool" where
  "is_inline_parameter_token_separator ch \<longleftrightarrow> is_whitespace ch \<or> ch \<in> set (lit ''|&;#><(){}'')"

definition is_rejected_inline_parameter_character :: "rchar \<Rightarrow> bool" where
  "is_rejected_inline_parameter_character ch \<longleftrightarrow> is_whitespace ch \<or> is_rejected_bare_character ch \<or> ch = 96 \<or> ch = 35"

definition char_position :: "rchar \<Rightarrow> rstr \<Rightarrow> nat option" where
  "char_position c s = (if c \<in> set s then Some (length (takeWhile (\<lambda>x. x \<noteq> c) s)) else None)"

definition push_inline_parameter_equals :: "rstr \<Rightarrow> nat \<Rightarrow> nat \<Rightarrow> nat list" where
  "push_inline_parameter_equals script start_pos end_index =
     (let tok = take (end_index - start_pos) (drop start_pos script) in
      if starts_with tok (lit ''--'') \<and> list_all (\<lambda>ch. \<not> is_rejected_inline_parameter_character ch) tok then
        (case char_position 61 tok of
           None \<Rightarrow> []
         | Some relative_equals \<Rightarrow>
             (if relative_equals > 2 \<and> relative_equals + 1 < length tok then [start_pos + relative_equals] else []))
      else [])"

fun inline_equals_loop :: "rstr \<Rightarrow> nat \<Rightarrow> nat \<Rightarrow> rstr \<Rightarrow> nat list" where
  "inline_equals_loop script start_pos index [] = push_inline_parameter_equals script start_pos (length script)"
| "inline_equals_loop script start_pos index (ch # chars) =
     (if is_inline_parameter_token_separator ch
      then push_inline_parameter_equals script start_pos index @ inline_equals_loop script (index + 1) (index + 1) chars
      else inline_equals_loop script start_pos (index + 1) chars)"

definition inline_double_dash_parameter_equals :: "rstr \<Rightarrow> nat list" where
  "inline_double_dash_parameter_equals script = inline_equals_loop script 0 0 script"

definition mask_equals :: "rstr \<Rightarrow> rstr" where
  "mask_equals script = fold (\<lambda>i src. src[i := 32]) (inline_double_dash_parameter_equals script) script"

section \<open>Walking the tree\<close>

text \<open>The node's text in the script.\<close>

definition source_text :: "rstr \<Rightarrow> syntax_node \<Rightarrow> rstr" where
  "source_text script n = take (length (node_text n)) (drop (start_byte n) script)"

definition source_range :: "syntax_node \<Rightarrow> nat \<times> nat" where
  "source_range n = (start_byte n, start_byte n + length (node_text n))"

function collect_command_nodes :: "syntax_node list \<Rightarrow> syntax_node list \<Rightarrow> syntax_node list" where
  "collect_command_nodes [] commands = commands"
| "collect_command_nodes (n # stack) commands =
     (if kind n = lit ''command'' then collect_command_nodes stack (commands @ [n])
      else collect_command_nodes (named_children n @ stack) commands)"
  by pat_completeness auto
termination
  by (relation "measure (\<lambda>(stack, _). nodes_count stack)")
    (auto simp: node_count_children named_children_def less_Suc_eq_le nodes_count_filter)

text \<open>The first node on the stack walk over named children that has a property.\<close>

function find_named :: "(syntax_node \<Rightarrow> bool) \<Rightarrow> syntax_node list \<Rightarrow> syntax_node option" where
  "find_named P [] = None"
| "find_named P (n # stack) = (if P n then Some n else find_named P (rev (named_children n) @ stack))"
  by pat_completeness auto
termination
  by (relation "measure (\<lambda>(_, stack). nodes_count stack)")
    (auto simp: node_count_children named_children_def less_Suc_eq_le nodes_count_filter)

definition is_requires_comment :: "rstr \<Rightarrow> syntax_node \<Rightarrow> bool" where
  "is_requires_comment script n \<longleftrightarrow>
     kind n = lit ''comment'' \<and>
     starts_with (to_ascii_lowercase (trim_start (source_text script n))) (lit ''#requires'')"

definition has_requires_directive :: "syntax_node \<Rightarrow> rstr \<Rightarrow> bool" where
  "has_requires_directive root script \<longleftrightarrow> find_named (is_requires_comment script) [root] \<noteq> None"

definition is_allowed_named_kind :: "rstr \<Rightarrow> bool" where
  "is_allowed_named_kind k \<longleftrightarrow>
     k \<in> set [lit ''program'', lit ''statement_list'', lit ''pipeline'', lit ''pipeline_chain'',
       lit ''pipeline_chain_tail'', lit ''command'', lit ''command_name'', lit ''command_elements'',
       lit ''command_argument_sep'', lit ''command_parameter'', lit ''generic_token'',
       lit ''array_literal_expression'', lit ''unary_expression'', lit ''string_literal'',
       lit ''verbatim_string_characters'', lit ''expandable_string_literal'', lit ''integer_literal'',
       lit ''decimal_integer_literal'', lit ''comment'', lit ''empty_statement'',
       lit ''expression_with_unary_operator'']"

definition first_unrecognized_named_kind :: "syntax_node \<Rightarrow> rstr option" where
  "first_unrecognized_named_kind root =
     map_option kind (find_named (\<lambda>n. is_named n \<and> \<not> is_allowed_named_kind (kind n)) [root])"

section \<open>Coverage\<close>

definition at_boundary :: "rstr \<Rightarrow> nat \<Rightarrow> bool" where
  "at_boundary script index \<longleftrightarrow>
     (case last_opt (take index script) of None \<Rightarrow> False | Some previous \<Rightarrow> is_whitespace previous \<or> previous = 59)"

function covered_from :: "rstr \<Rightarrow> (nat \<times> nat) list \<Rightarrow> nat \<Rightarrow> bool \<Rightarrow> bool \<Rightarrow> nat \<Rightarrow> bool" where
  "covered_from script ranges index can_chain needs_command paren_depth =
     (if index < length script then
        if ranges \<noteq> [] \<and> index = fst (hd ranges) then
          covered_from script (tl ranges) (snd (hd ranges)) True False paren_depth
        else
          (let ch = script ! index; next_index = index + 1 in
           if ch = CR \<or> ch = LF then covered_from script ranges next_index False needs_command paren_depth
           else if is_whitespace ch then covered_from script ranges next_index can_chain needs_command paren_depth
           else if ch = 59 then
             (if needs_command then False else covered_from script ranges next_index False needs_command paren_depth)
           else if ch = 40 \<and> \<not> can_chain then
             covered_from script ranges next_index can_chain needs_command (paren_depth + 1)
           else if ch = 41 \<and> paren_depth > 0 \<and> \<not> needs_command then
             covered_from script ranges next_index can_chain needs_command (paren_depth - 1)
           else if ch = 124 \<and> can_chain then
             covered_from script ranges
               (if starts_with (drop next_index script) [124] then next_index + 1 else next_index) False True paren_depth
           else if ch = 38 \<and> can_chain \<and> starts_with (drop next_index script) [38] then
             covered_from script ranges (next_index + 1) False True paren_depth
           else if ch = 35 \<and> \<not> needs_command then
             (if index > 0 \<and> \<not> at_boundary script index then False
              else covered_from script ranges
                (next_index + length (takeWhile (\<lambda>c. c \<noteq> CR \<and> c \<noteq> LF) (drop next_index script)))
                can_chain needs_command paren_depth)
           else if starts_with (drop index script) (lit ''<#'') \<and> \<not> needs_command \<and>
               (index = 0 \<or> at_boundary script index) then
             (case find_from (lit ''#>'') (drop next_index script) of
                None \<Rightarrow> False
              | Some e \<Rightarrow> covered_from script ranges (next_index + e + 2) can_chain needs_command paren_depth)
           else False)
      else ranges = [] \<and> \<not> needs_command \<and> paren_depth = 0)"
  by pat_completeness auto
termination
  by (relation "measures [\<lambda>(_, ranges, _). length ranges, \<lambda>(script, _, index, _). length script - index]") auto

declare covered_from.simps [simp del]

definition source_is_covered_by_commands :: "rstr \<Rightarrow> (nat \<times> nat) list \<Rightarrow> bool" where
  "source_is_covered_by_commands script command_ranges = covered_from script command_ranges 0 False False 0"

section \<open>Lowering a command\<close>

fun parse_single_quoted :: "rstr \<Rightarrow> rstr \<Rightarrow> (rstr \<times> rstr, rstr) result" where
  "parse_single_quoted value [] = Err (lit ''unterminated single-quoted string'')"
| "parse_single_quoted value (c # chars) =
     (if c = 39 then
        if chars \<noteq> [] \<and> hd chars = 39 then parse_single_quoted (value @ [39]) (tl chars)
        else Ok (value, chars)
      else parse_single_quoted (value @ [c]) chars)"

definition decode_backtick_escape :: "rchar \<Rightarrow> rchar" where
  "decode_backtick_escape ch =
     (if ch = 48 then 0 else if ch = 97 then 7 else if ch = 98 then 8 else if ch = 102 then 12
      else if ch = 110 then 10 else if ch = 114 then 13 else if ch = 116 then 9 else if ch = 118 then 11 else ch)"

fun parse_double_quoted :: "rstr \<Rightarrow> rstr \<Rightarrow> (rstr \<times> rstr, rstr) result" where
  "parse_double_quoted value [] = Err (lit ''unterminated double-quoted string'')"
| "parse_double_quoted value (c # chars) =
     (if c = 34 then Ok (value, chars)
      else if c = 36 then Err (lit ''expandable string contains variable syntax'')
      else if c = 96 then
        (if chars = [] then Err (lit ''trailing PowerShell escape'')
         else if hd chars = 101 then Err (lit ''PowerShell-version-dependent escape'')
         else if hd chars = 117 \<and> starts_with (tl chars) [123] then Err (lit ''PowerShell Unicode escape'')
         else parse_double_quoted (value @ [decode_backtick_escape (hd chars)]) (tl chars))
      else parse_double_quoted (value @ [c]) chars)"

text \<open>\<open>Debug\<close> of the characters that can occur here.\<close>

definition char_debug :: "rchar \<Rightarrow> rstr" where
  "char_debug ch = [39] @ (if ch = 39 then [92, 39] else [ch]) @ [39]"

fun parse_bare_word :: "rstr \<Rightarrow> rstr \<Rightarrow> (rstr \<times> rstr, rstr) result" where
  "parse_bare_word value [] = (if value = [] then Err (lit ''empty bare word'') else Ok (value, []))"
| "parse_bare_word value (ch # chars) =
     (if is_whitespace ch then (if value = [] then Err (lit ''empty bare word'') else Ok (value, ch # chars))
      else if ch = 96 then
        (if chars = [] then Err (lit ''trailing PowerShell escape'')
         else if hd chars = 101 then Err (lit ''PowerShell-version-dependent escape'')
         else parse_bare_word (value @ [decode_backtick_escape (hd chars)]) (tl chars))
      else if is_rejected_bare_character ch then Err (lit ''dynamic or structural bare character: '' @ char_debug ch)
      else parse_bare_word (value @ [ch]) chars)"

definition reject_unsupported_bare_word :: "rstr \<Rightarrow> (unit, rstr) result" where
  "reject_unsupported_bare_word word =
     (if starts_with word [45] \<and> \<not> starts_with word (lit ''--'') \<and> 58 \<in> set word
      then Err (lit ''attached PowerShell parameter value'')
      else if (case word of [] \<Rightarrow> False | ch # _ \<Rightarrow> is_ascii_digit ch) \<and>
          \<not> (word = lit ''0'' \<or> (\<not> starts_with word [48] \<and> list_all is_ascii_digit word))
      then Err (lit ''non-canonical numeric-leading bare word'')
      else Ok ())"

text \<open>One word: its value, the characters after it, and whether it was bare.\<close>

definition parse_word :: "rstr \<Rightarrow> ((rstr \<times> rstr) \<times> bool, rstr) result" where
  "parse_word chars =
     (if hd chars = 39 then bind_result (parse_single_quoted [] (tl chars)) (\<lambda>r. Ok (r, False))
      else if hd chars = 34 then bind_result (parse_double_quoted [] (tl chars)) (\<lambda>r. Ok (r, False))
      else bind_result (parse_bare_word [] chars) (\<lambda>r. Ok (r, True)))"

lemma parse_single_quoted_shorter: "parse_single_quoted v s = Ok (w, r) \<Longrightarrow> length r < length s"
  by (induction v s rule: parse_single_quoted.induct) (auto split: if_splits)

lemma parse_double_quoted_shorter: "parse_double_quoted v s = Ok (w, r) \<Longrightarrow> length r < length s"
  by (induction v s rule: parse_double_quoted.induct) (auto split: if_splits)

lemma parse_bare_word_shorter: "parse_bare_word v s = Ok (w, r) \<Longrightarrow> length r \<le> length s \<and> (v = [] \<longrightarrow> length r < length s)"
proof (induction v s rule: parse_bare_word.induct)
  case (2 v ch chars)
  show ?case
  proof (cases chars)
    case Nil
    then show ?thesis using 2 by (auto split: if_splits)
  next
    case (Cons d ds)
    then show ?thesis using 2 by (auto split: if_splits)
  qed
qed (auto split: if_splits)

lemma parse_word_shorter: "chars \<noteq> [] \<Longrightarrow> parse_word chars = Ok ((w, r), b) \<Longrightarrow> length r < length chars"
  using parse_single_quoted_shorter[of "[]" "tl chars"] parse_double_quoted_shorter[of "[]" "tl chars"]
    parse_bare_word_shorter[of "[]" chars]
  by (auto simp: parse_word_def split: if_splits)

lemma parse_word_progress:
  assumes "parse_word (dropWhile is_whitespace chars) = Ok ((w, r), b)" and "x \<in> set chars" and "\<not> is_whitespace x"
  shows "length r < length chars"
proof -
  have "dropWhile is_whitespace chars \<noteq> []" using assms(2,3) by (auto simp: dropWhile_eq_Nil_conv)
  from less_le_trans[OF parse_word_shorter[OF this assms(1)] length_dropWhile_le] show ?thesis .
qed

function lower_words :: "rstr list \<Rightarrow> rstr \<Rightarrow> (rstr list, rstr) result" where
  "lower_words words chars =
     (let cs = dropWhile is_whitespace chars in
      if cs = [] \<or> hd cs = 35 then Ok words
      else bind_result (parse_word cs) (\<lambda>((word, others), is_bare).
        if others \<noteq> [] \<and> \<not> is_whitespace (hd others) \<and> hd others \<noteq> 35
        then Err (lit ''adjacent/concatenated command elements'')
        else if word = [] then Err (lit ''empty word'')
        else bind_result (if is_bare then reject_unsupported_bare_word word else Ok ()) (\<lambda>_.
          lower_words (words @ [word]) others)))"
  by pat_completeness auto
termination
  by (relation "measure (\<lambda>(_, chars). length chars)")
    (auto intro: parse_word_progress)

declare lower_words.simps [simp del]

definition lower_command_text :: "rstr \<Rightarrow> (rstr list, rstr) result" where
  "lower_command_text command_text =
     bind_result (lower_words [] (trim command_text)) (\<lambda>words.
       if words = [] then Err (lit ''command lowered to no words'') else Ok words)"

fun lower_nodes :: "rstr \<Rightarrow> syntax_node list \<Rightarrow> (rstr list list, rstr) result" where
  "lower_nodes script [] = Ok []"
| "lower_nodes script (n # ns) =
     bind_result (lower_command_text (source_text script n)) (\<lambda>words.
     bind_result (lower_nodes script ns) (\<lambda>commands. Ok (words # commands)))"

definition UNICODE_ALIASES :: "rchar list" where
  "UNICODE_ALIASES = [0x2018, 0x2019, 0x201C, 0x201D, 0x2013, 0x2014, 0x2015]"

definition lower_with_tree_sitter :: "powershell_grammar \<Rightarrow> rstr \<Rightarrow> (rstr list list, rstr) result" where
  "lower_with_tree_sitter grammar script =
     (if list_ex (\<lambda>ch. ch \<in> set UNICODE_ALIASES) script then Err (lit ''PowerShell Unicode syntax alias'')
      else case load_error grammar of
        Some error \<Rightarrow> Err (lit ''load grammar: '' @ error)
      | None \<Rightarrow>
          (case parse_tree grammar (mask_equals script) of
             None \<Rightarrow> Err (lit ''tree-sitter returned no tree'')
           | Some (root, has_error) \<Rightarrow>
               (if has_error then Err (lit ''tree contains ERROR or missing nodes'')
                else if has_requires_directive root script
                then Err (lit ''requires directives can execute before command lowering'')
                else case first_unrecognized_named_kind root of
                  Some k \<Rightarrow> Err (lit ''unrecognized named node: '' @ k)
                | None \<Rightarrow>
                    (let command_nodes = collect_command_nodes [root] [] in
                     if command_nodes = [] then Err (lit ''no literal command nodes'')
                     else bind_result (lower_nodes script command_nodes) (\<lambda>commands.
                       if \<not> source_is_covered_by_commands script (map source_range command_nodes)
                       then Err (lit ''source outside literal command nodes'')
                       else if list_ex (\<lambda>c. case c of [] \<Rightarrow> False | w # _ \<Rightarrow> eq_ignore_ascii_case w (lit ''using'')) commands
                       then Err (lit ''using declarations require the PowerShell AST oracle'')
                       else if list_ex (\<lambda>c. c = [] \<or> list_ex (\<lambda>w. w = []) c) commands
                       then Err (lit ''empty lowered command or word'')
                       else Ok commands)))))"

definition try_parse_powershell_commands :: "powershell_grammar \<Rightarrow> rstr \<Rightarrow> rstr list list option" where
  "try_parse_powershell_commands grammar script =
     (case lower_with_tree_sitter grammar script of Ok commands \<Rightarrow> Some commands | Err _ \<Rightarrow> None)"

definition parse_powershell_script_into_plain_commands :: "powershell_grammar \<Rightarrow> rstr \<Rightarrow> rstr list list option" where
  "parse_powershell_script_into_plain_commands grammar script = try_parse_powershell_commands grammar script"

definition parse_powershell_command_into_plain_commands :: "powershell_grammar \<Rightarrow> rstr list \<Rightarrow> rstr list list option" where
  "parse_powershell_command_into_plain_commands grammar command =
     (case extract_powershell_command command of
        None \<Rightarrow> None
      | Some (_, script) \<Rightarrow> try_parse_powershell_commands grammar script)"

definition UTF8_OUTPUT_PREFIX :: rstr where
  "UTF8_OUTPUT_PREFIX = lit ''try { [Console]::OutputEncoding=[System.Text.Encoding]::UTF8 } catch {}'' @ [LF]"

definition prefix_powershell_script_with_utf8 :: "rstr list \<Rightarrow> rstr list" where
  "prefix_powershell_script_with_utf8 command =
     (case extract_powershell_command command of
        None \<Rightarrow> command
      | Some (_, script) \<Rightarrow>
          butlast command @
          [if starts_with (trim_start script) UTF8_OUTPUT_PREFIX then script else UTF8_OUTPUT_PREFIX @ script])"

section \<open>Quoted words are read back\<close>

text \<open>A word in single quotes, with quotes inside doubled, as PowerShell writes it.\<close>

definition quote_word :: "rstr \<Rightarrow> rstr" where
  "quote_word w = [39] @ concat (map (\<lambda>c. if c = 39 then [39, 39] else [c]) w) @ [39]"

definition quote_words :: "rstr list \<Rightarrow> rstr" where
  "quote_words ws = join [32] (map quote_word ws)"

lemma parse_quoted:
  "r = [] \<or> hd r \<noteq> 39 \<Longrightarrow>
     parse_single_quoted v (concat (map (\<lambda>c. if c = 39 then [39, 39] else [c]) w) @ [39] @ r) = Ok (v @ w, r)"
  by (induction w arbitrary: v) auto

lemma blank_facts: "is_whitespace 32" "\<not> is_whitespace 39"
  by (simp_all add: is_whitespace_def)

lemma quote_word_head: "\<exists>q. quote_word w @ r = 39 # q"
  by (simp add: quote_word_def)

lemma lower_quoted:
  "w \<noteq> [] \<Longrightarrow> r = [] \<or> hd r = 32 \<Longrightarrow> lower_words acc (quote_word w @ r) = lower_words (acc @ [w]) r"
  using parse_quoted[of r "[]" w]
  by (subst lower_words.simps) (auto simp: quote_word_def blank_facts parse_word_def Let_def)

lemma lower_blank: "lower_words acc (32 # r) = lower_words acc r"
  by (subst (1 2) lower_words.simps) (simp add: blank_facts)

lemma lower_quoted_words:
  "\<forall>w \<in> set ws. w \<noteq> [] \<Longrightarrow> lower_words acc (quote_words ws) = Ok (acc @ ws)"
proof (induction ws arbitrary: acc)
  case Nil
  show ?case by (subst lower_words.simps) (simp add: quote_words_def)
next
  case (Cons w ws)
  show ?case
  proof (cases ws)
    case Nil
    have "lower_words (acc @ [w]) [] = Ok (acc @ [w])" by (subst lower_words.simps) simp
    then show ?thesis using lower_quoted[of w "[]" acc] Cons.prems by (simp add: Nil quote_words_def)
  next
    case (Cons w' ws')
    have "quote_words (w # ws) = quote_word w @ 32 # quote_words ws" by (simp add: Cons quote_words_def)
    then show ?thesis
      using lower_quoted[of w "32 # quote_words ws" acc] lower_blank[of "acc @ [w]" "quote_words ws"] Cons.IH[of "acc @ [w]"] Cons.prems
      by simp
  qed
qed

lemma trim_between: "\<not> is_whitespace a \<Longrightarrow> \<not> is_whitespace b \<Longrightarrow> trim (a # s @ [b]) = a # s @ [b]"
  by (simp add: trim_def trim_start_def trim_end_def trim_end_matches_def)

lemma quote_words_ends: "ws \<noteq> [] \<Longrightarrow> \<exists>s. quote_words ws = 39 # s @ [39]"
proof (induction ws)
  case (Cons w ws)
  then show ?case by (cases ws) (auto simp: quote_words_def quote_word_def)
qed simp

text \<open>
  PowerShell words survive quoting. A command written as any non-empty words, each in single quotes with
  the quotes inside doubled, is read as exactly these words, whatever characters they contain.
\<close>

theorem quoted_words_round_trip:
  assumes "ws \<noteq> []" and "\<forall>w \<in> set ws. w \<noteq> []"
  shows "lower_command_text (quote_words ws) = Ok ws"
proof -
  obtain s where "quote_words ws = 39 # s @ [39]" using quote_words_ends[OF assms(1)] by blast
  then have "trim (quote_words ws) = quote_words ws" by (simp add: trim_between blank_facts)
  then show ?thesis using lower_quoted_words[OF assms(2), of "[]"] assms(1) by (simp add: lower_command_text_def)
qed

lemma quoted_words_round_trip_witness:
  "lower_command_text (quote_words [lit ''rm'', [39, 32, 36]]) = Ok [lit ''rm'', [39, 32, 36]]"
  by (rule quoted_words_round_trip) (simp_all add: lit_def)

section \<open>Only literal scripts are read\<close>

fun named_subnodes :: "syntax_node \<Rightarrow> syntax_node list" and named_subnodes_list :: "syntax_node list \<Rightarrow> syntax_node list" where
  "named_subnodes (Node k nm t s cs) = Node k nm t s cs # named_subnodes_list cs"
| "named_subnodes_list [] = []"
| "named_subnodes_list (n # ns) = (if is_named n then named_subnodes n else []) @ named_subnodes_list ns"

lemma named_subnodes_step: "named_subnodes n = n # concat (map named_subnodes (named_children n))"
proof -
  have "named_subnodes_list cs = concat (map named_subnodes (filter is_named cs))" for cs
    by (induction cs) auto
  then show ?thesis by (cases n) (simp add: named_children_def)
qed

lemma find_named_None_iff:
  "find_named P stack = None \<longleftrightarrow> (\<forall>n \<in> set (concat (map named_subnodes stack)). \<not> P n)"
proof (induction P stack rule: find_named.induct)
  case (2 P n stack)
  then show ?case by (auto simp: named_subnodes_step[of n])
qed simp

lemma collect_command_nodes_set:
  "set (collect_command_nodes stack acc) \<subseteq>
     set acc \<union> {n \<in> set (concat (map named_subnodes stack)). kind n = lit ''command''}"
proof (induction stack acc rule: collect_command_nodes.induct)
  case (2 n stack acc)
  then show ?case by (auto simp: named_subnodes_step[of n] split: if_splits)
qed simp

lemma lower_nodes_Ok_iff:
  "lower_nodes script ns = Ok cs \<longleftrightarrow> list_all2 (\<lambda>n c. lower_command_text (source_text script n) = Ok c) ns cs"
  by (induction ns arbitrary: cs) (auto simp: list_all2_Cons1)

text \<open>
  Only literal PowerShell scripts are split into commands. When a script is read, its tree has no error and
  only nodes of the allowed kinds, there is no requires directive, every command comes from a command
  node of the tree and all its words are non-empty, none is a using declaration, and what lies outside
  the command nodes has been accepted as separators and comments.
\<close>

theorem powershell_commands_are_literal:
  assumes "try_parse_powershell_commands grammar script = Some commands"
  shows "\<exists>root nodes. parse_tree grammar (mask_equals script) = Some (root, False) \<and> nodes \<noteq> [] \<and>
    (\<forall>n \<in> set (named_subnodes root). (is_named n \<longrightarrow> is_allowed_named_kind (kind n)) \<and> \<not> is_requires_comment script n) \<and>
    (\<forall>n \<in> set nodes. n \<in> set (named_subnodes root) \<and> kind n = lit ''command'') \<and>
    list_all2 (\<lambda>n c. lower_command_text (source_text script n) = Ok c) nodes commands \<and>
    source_is_covered_by_commands script (map source_range nodes) \<and>
    (\<forall>c \<in> set commands. c \<noteq> [] \<and> [] \<notin> set c \<and> \<not> eq_ignore_ascii_case (hd c) (lit ''using''))"
proof -
  have ok: "lower_with_tree_sitter grammar script = Ok commands"
    using assms by (auto simp: try_parse_powershell_commands_def split: result.splits)
  obtain root where root: "parse_tree grammar (mask_equals script) = Some (root, False)"
      "\<not> has_requires_directive root script" "first_unrecognized_named_kind root = None"
    using ok by (auto simp: lower_with_tree_sitter_def split: option.splits if_splits)
  let ?nodes = "collect_command_nodes [root] []"
  have n: "?nodes \<noteq> []" "lower_nodes script ?nodes = Ok commands"
      "source_is_covered_by_commands script (map source_range ?nodes)"
      "\<not> list_ex (\<lambda>c. case c of [] \<Rightarrow> False | w # _ \<Rightarrow> eq_ignore_ascii_case w (lit ''using'')) commands"
      "\<not> list_ex (\<lambda>c. c = [] \<or> list_ex (\<lambda>w. w = []) c) commands"
    using ok root by (auto simp: lower_with_tree_sitter_def Let_def split: option.splits if_splits)
  have "\<forall>m \<in> set (named_subnodes root). (is_named m \<longrightarrow> is_allowed_named_kind (kind m)) \<and> \<not> is_requires_comment script m"
    using root(2,3) by (auto simp: has_requires_directive_def first_unrecognized_named_kind_def find_named_None_iff
        simp del: find_named.simps)
  moreover have "\<forall>m \<in> set ?nodes. m \<in> set (named_subnodes root) \<and> kind m = lit ''command''"
    using collect_command_nodes_set[of "[root]" "[]"] by auto
  moreover have "\<forall>c \<in> set commands. c \<noteq> [] \<and> [] \<notin> set c \<and> \<not> eq_ignore_ascii_case (hd c) (lit ''using'')"
  proof
    fix c assume c: "c \<in> set commands"
    then have "c \<noteq> [] \<and> [] \<notin> set c"
      and "\<not> (case c of [] \<Rightarrow> False | w # _ \<Rightarrow> eq_ignore_ascii_case w (lit ''using''))"
      using n(4,5) by (auto simp: list_ex_iff)
    then show "c \<noteq> [] \<and> [] \<notin> set c \<and> \<not> eq_ignore_ascii_case (hd c) (lit ''using'')"
      by (cases c) auto
  qed
  ultimately show ?thesis
    using root(1) n(1,2,3) unfolding lower_nodes_Ok_iff by blast
qed

definition sample_ps_tree :: syntax_node where
  "sample_ps_tree = Node (lit ''program'') True [108] 0 [Node (lit ''command'') True [108] 0 []]"

definition sample_ps_grammar :: powershell_grammar where
  "sample_ps_grammar = \<lparr>load_error = None, parse_tree = (\<lambda>s. if s = [108] then Some (sample_ps_tree, False) else None)\<rparr>"

lemma sample_ps_mask: "mask_equals [108] = [108]"
  by (simp add: mask_equals_def inline_double_dash_parameter_equals_def is_inline_parameter_token_separator_def
      push_inline_parameter_equals_def starts_with_def is_whitespace_def lit_def)

lemma sample_ps_walk:
  "\<not> has_requires_directive sample_ps_tree [108]" "first_unrecognized_named_kind sample_ps_tree = None"
  "collect_command_nodes [sample_ps_tree] [] = [Node (lit ''command'') True [108] 0 []]"
  by (simp_all add: has_requires_directive_def first_unrecognized_named_kind_def is_requires_comment_def
      is_allowed_named_kind_def sample_ps_tree_def named_children_def lit_def)

lemma sample_ps_covered: "source_is_covered_by_commands [108] [(0, 1)]"
  unfolding source_is_covered_by_commands_def
  by (subst covered_from.simps, simp, subst covered_from.simps, simp)

lemma sample_ps_lower: "lower_nodes [108] [Node (lit ''command'') True [108] 0 []] = Ok [[[108]]]"
proof -
  have "lower_words [[108]] [] = Ok [[108]]" by (subst lower_words.simps) simp
  then have "lower_words [] [108] = Ok [[108]]"
    by (subst lower_words.simps)
      (simp add: parse_word_def is_whitespace_def is_rejected_bare_character_def reject_unsupported_bare_word_def
        starts_with_def is_ascii_digit_def lit_def)
  then show ?thesis
    by (simp add: source_text_def lower_command_text_def trim_def trim_start_def trim_end_def trim_end_matches_def is_whitespace_def)
qed

declare collect_command_nodes.simps [simp del] lower_nodes.simps [simp del] find_named.simps [simp del]

lemma sample_ps_not_using: "\<not> eq_ignore_ascii_case [108] (lit ''using'')"
  by (simp add: eq_ignore_ascii_case_def to_ascii_lowercase_def lit_def)

lemma sample_ps_parse: "try_parse_powershell_commands sample_ps_grammar [108] = Some [[[108]]]"
proof -
  have "source_is_covered_by_commands [108] [(0, Suc 0)]" using sample_ps_covered by simp
  then show ?thesis
    by (simp add: try_parse_powershell_commands_def lower_with_tree_sitter_def sample_ps_grammar_def sample_ps_mask sample_ps_walk
        sample_ps_lower source_range_def UNICODE_ALIASES_def sample_ps_not_using)
qed

lemma powershell_commands_are_literal_witness:
  "\<exists>nodes. nodes \<noteq> [] \<and> (\<forall>n \<in> set nodes. kind n = lit ''command'') \<and>
     list_all2 (\<lambda>n c. lower_command_text (source_text [108] n) = Ok c) nodes [[[108]]]"
  using powershell_commands_are_literal[OF sample_ps_parse] by blast

end
