(* ===== verification/Permissions.thy ===== *)
theory Permissions
  imports Prelude
begin

text \<open>
  The vocabulary of permissions shared by approval and sandboxing: approval policies
  (\<open>protocol/src/protocol.rs\<close>), filesystem sandbox policies (\<open>protocol/src/permissions.rs\<close>) and permission
  profiles (\<open>protocol/src/models.rs\<close>), for Unix builds. What entries mean for concrete paths is in
  \<open>Sandbox_Access\<close>; here a policy is asked for its kind and its entries, so the type of path URIs is the
  parameter \<open>'u\<close>.
\<close>

section \<open>Approval policies\<close>

record granular_approval_config =
  sandbox_approval :: bool
  rules_approval :: bool
  skill_approval :: bool
  request_permissions :: bool
  mcp_elicitations :: bool

definition allows_sandbox_approval :: "granular_approval_config \<Rightarrow> bool" where
  "allows_sandbox_approval g = sandbox_approval g"

definition allows_rules_approval :: "granular_approval_config \<Rightarrow> bool" where
  "allows_rules_approval g = rules_approval g"

datatype ask_for_approval = UnlessTrusted | OnRequest | Granular granular_approval_config | Never

datatype sandbox_permissions = UseDefault | RequireEscalated | WithAdditionalPermissions

definition requires_escalated_permissions :: "sandbox_permissions \<Rightarrow> bool" where
  "requires_escalated_permissions p \<longleftrightarrow> p = RequireEscalated"

definition requests_sandbox_override :: "sandbox_permissions \<Rightarrow> bool" where
  "requests_sandbox_override p \<longleftrightarrow> p \<noteq> UseDefault"

datatype windows_sandbox_level = LevelDisabled | RestrictedToken | Elevated

section \<open>Filesystem policies\<close>

datatype network_sandbox_policy = NetworkRestricted | NetworkEnabled

text \<open>The derived \<open>Ord\<close> gives conflict precedence: the order of the constructors.\<close>

datatype file_system_access_mode = Read | Write | Deny

fun access_rank :: "file_system_access_mode \<Rightarrow> nat" where
  "access_rank Read = 0"
| "access_rank Write = 1"
| "access_rank Deny = 2"

lemma access_rank_inject [simp]: "access_rank a = access_rank b \<longleftrightarrow> a = b"
  by (cases a; cases b) auto

instantiation file_system_access_mode :: linorder
begin

definition less_eq_file_system_access_mode :: "file_system_access_mode \<Rightarrow> file_system_access_mode \<Rightarrow> bool" where
  "less_eq_file_system_access_mode a b \<longleftrightarrow> access_rank a \<le> access_rank b"

definition less_file_system_access_mode :: "file_system_access_mode \<Rightarrow> file_system_access_mode \<Rightarrow> bool" where
  "less_file_system_access_mode a b \<longleftrightarrow> access_rank a < access_rank b"

instance
  by standard (auto simp: less_eq_file_system_access_mode_def less_file_system_access_mode_def)

end

definition can_read :: "file_system_access_mode \<Rightarrow> bool" where
  "can_read m \<longleftrightarrow> m \<noteq> Deny"

definition can_write :: "file_system_access_mode \<Rightarrow> bool" where
  "can_write m \<longleftrightarrow> m = Write"

datatype file_system_special_path =
    Root
  | Minimal
  | ProjectRoots "rstr option"
  | Tmpdir
  | SlashTmp
  | UnknownSpecial rstr "rstr option"

datatype 'u file_system_path = PathEntry 'u | GlobPattern rstr | Special file_system_special_path

datatype missing_path_behavior = SkipMissing

record 'u file_system_sandbox_entry =
  entry_path :: "'u file_system_path"
  entry_access :: file_system_access_mode
  entry_missing :: "missing_path_behavior option"

definition entry_new :: "'u file_system_path \<Rightarrow> file_system_access_mode \<Rightarrow> 'u file_system_sandbox_entry" where
  "entry_new p a = \<lparr>entry_path = p, entry_access = a, entry_missing = None\<rparr>"

definition skips_missing_path :: "'u file_system_sandbox_entry \<Rightarrow> bool" where
  "skips_missing_path e \<longleftrightarrow> entry_missing e = Some SkipMissing"

datatype file_system_sandbox_kind = Restricted | Unrestricted | ExternalSandbox

record 'u file_system_sandbox_policy =
  policy_kind :: file_system_sandbox_kind
  glob_scan_max_depth :: "nat option"
  policy_entries :: "'u file_system_sandbox_entry list"

definition unrestricted :: "'u file_system_sandbox_policy" where
  "unrestricted = \<lparr>policy_kind = Unrestricted, glob_scan_max_depth = None, policy_entries = []\<rparr>"

definition external_sandbox :: "'u file_system_sandbox_policy" where
  "external_sandbox = \<lparr>policy_kind = ExternalSandbox, glob_scan_max_depth = None, policy_entries = []\<rparr>"

definition restricted :: "'u file_system_sandbox_entry list \<Rightarrow> 'u file_system_sandbox_policy" where
  "restricted es = \<lparr>policy_kind = Restricted, glob_scan_max_depth = None, policy_entries = es\<rparr>"

definition remove_skip_missing_path_entries :: "'u file_system_sandbox_policy \<Rightarrow> 'u file_system_sandbox_policy" where
  "remove_skip_missing_path_entries p =
     p\<lparr>policy_entries := filter (\<lambda>e. \<not> skips_missing_path e) (policy_entries p)\<rparr>"

definition has_root_access :: "'u file_system_sandbox_policy \<Rightarrow> (file_system_access_mode \<Rightarrow> bool) \<Rightarrow> bool" where
  "has_root_access p pred \<longleftrightarrow>
     policy_kind p = Restricted \<and>
     list_ex (\<lambda>e. entry_path e = Special Root \<and> pred (entry_access e)) (policy_entries p)"

text \<open>On Unix the entry for \<open>/tmp\<close> counts like any other.\<close>

definition has_denied_read_restrictions :: "'u file_system_sandbox_policy \<Rightarrow> bool" where
  "has_denied_read_restrictions p \<longleftrightarrow>
     policy_kind p = Restricted \<and> list_ex (\<lambda>e. entry_access e = Deny) (policy_entries p)"

definition has_full_disk_read_access :: "'u file_system_sandbox_policy \<Rightarrow> bool" where
  "has_full_disk_read_access p =
     (case policy_kind p of
        Restricted \<Rightarrow> has_root_access p can_read \<and> \<not> has_denied_read_restrictions p
      | _ \<Rightarrow> True)"

definition include_platform_defaults :: "'u file_system_sandbox_policy \<Rightarrow> bool" where
  "include_platform_defaults p \<longleftrightarrow>
     \<not> has_full_disk_read_access p \<and> policy_kind p = Restricted \<and>
     list_ex (\<lambda>e. entry_path e = Special Minimal \<and> can_read (entry_access e)) (policy_entries p)"

fun push_new_entries ::
    "'u file_system_sandbox_entry list \<Rightarrow> 'u file_system_sandbox_entry list \<Rightarrow> 'u file_system_sandbox_entry list" where
  "push_new_entries es [] = es"
| "push_new_entries es (d # ds) = push_new_entries (if d \<in> set es then es else es @ [d]) ds"

definition deny_entries :: "'u file_system_sandbox_policy \<Rightarrow> 'u file_system_sandbox_entry list" where
  "deny_entries p = filter (\<lambda>e. entry_access e = Deny) (policy_entries p)"

definition preserve_deny_read_restrictions_from ::
    "'u file_system_sandbox_policy \<Rightarrow> 'u file_system_sandbox_policy \<Rightarrow> 'u file_system_sandbox_policy" where
  "preserve_deny_read_restrictions_from existing p =
     (let p1 = (if policy_kind p = Unrestricted \<and> deny_entries existing \<noteq> []
                then restricted [entry_new (Special Root) Write] else p)
      in if policy_kind p1 \<noteq> Restricted then p1
         else p1\<lparr>glob_scan_max_depth :=
                   (if glob_scan_max_depth p1 = None then glob_scan_max_depth existing else glob_scan_max_depth p1),
                 policy_entries := push_new_entries (policy_entries p1) (deny_entries existing)\<rparr>)"

section \<open>Permission profiles\<close>

datatype 'u managed_file_system_permissions =
    ManagedRestricted "'u file_system_sandbox_entry list" "nat option"
  | ManagedUnrestricted

datatype 'u permission_profile =
    Managed "'u managed_file_system_permissions" network_sandbox_policy
  | Disabled
  | External network_sandbox_policy

fun to_sandbox_policy :: "'u managed_file_system_permissions \<Rightarrow> 'u file_system_sandbox_policy" where
  "to_sandbox_policy (ManagedRestricted es depth) =
     \<lparr>policy_kind = Restricted, glob_scan_max_depth = depth, policy_entries = es\<rparr>"
| "to_sandbox_policy ManagedUnrestricted = unrestricted"

fun file_system_sandbox_policy_of :: "'u permission_profile \<Rightarrow> 'u file_system_sandbox_policy" where
  "file_system_sandbox_policy_of (Managed fs _) = to_sandbox_policy fs"
| "file_system_sandbox_policy_of Disabled = unrestricted"
| "file_system_sandbox_policy_of (External _) = external_sandbox"

fun network_sandbox_policy_of :: "'u permission_profile \<Rightarrow> network_sandbox_policy" where
  "network_sandbox_policy_of (Managed _ network) = network"
| "network_sandbox_policy_of Disabled = NetworkEnabled"
| "network_sandbox_policy_of (External network) = network"

section \<open>Denied reads survive\<close>

lemma push_new_entries_set: "set (push_new_entries es ds) = set es \<union> set ds"
  by (induction es ds rule: push_new_entries.induct) auto

lemma push_new_entries_id: "set ds \<subseteq> set es \<Longrightarrow> push_new_entries es ds = es"
  by (induction es ds rule: push_new_entries.induct) auto

lemma push_new_entries_prefix: "\<exists>new. push_new_entries es ds = es @ new \<and> set new \<subseteq> set ds"
proof (induction es ds rule: push_new_entries.induct)
  case (2 es d ds)
  then show ?case by (cases "d \<in> set es") auto
qed simp

lemma deny_entries_push:
  "policy_entries q = push_new_entries es (deny_entries existing) \<Longrightarrow>
     set (deny_entries q) = set (filter (\<lambda>e. entry_access e = Deny) es) \<union> set (deny_entries existing)"
  by (auto simp: deny_entries_def push_new_entries_set)

lemma granted_push:
  assumes "policy_entries q = push_new_entries es (deny_entries existing)"
  shows "filter (\<lambda>e. entry_access e \<noteq> Deny) (policy_entries q) = filter (\<lambda>e. entry_access e \<noteq> Deny) es"
proof -
  obtain new where "policy_entries q = es @ new" "set new \<subseteq> set (deny_entries existing)"
    using assms push_new_entries_prefix[of es "deny_entries existing"] by auto
  then show ?thesis by (auto simp: filter_empty_conv deny_entries_def)
qed

lemma preserve_restricted:
  "policy_kind p = Restricted \<Longrightarrow> preserve_deny_read_restrictions_from existing p =
     p\<lparr>glob_scan_max_depth := (if glob_scan_max_depth p = None then glob_scan_max_depth existing else glob_scan_max_depth p),
       policy_entries := push_new_entries (policy_entries p) (deny_entries existing)\<rparr>"
  by (simp add: preserve_deny_read_restrictions_from_def)

lemma preserve_again:
  assumes "policy_kind p = Restricted" and "set (deny_entries existing) \<subseteq> set (policy_entries p)"
    and "glob_scan_max_depth p = None \<Longrightarrow> glob_scan_max_depth existing = None"
  shows "preserve_deny_read_restrictions_from existing p = p"
  using assms(3) by (simp add: preserve_restricted[OF assms(1)] push_new_entries_id[OF assms(2)])

lemma preserve_idem_restricted:
  assumes "policy_kind p = Restricted"
  shows "preserve_deny_read_restrictions_from existing (preserve_deny_read_restrictions_from existing p) =
    preserve_deny_read_restrictions_from existing p"
proof (rule preserve_again)
  show "policy_kind (preserve_deny_read_restrictions_from existing p) = Restricted"
    by (simp add: preserve_restricted[OF assms] assms)
  show "set (deny_entries existing) \<subseteq> set (policy_entries (preserve_deny_read_restrictions_from existing p))"
    by (simp add: preserve_restricted[OF assms] push_new_entries_set)
  show "glob_scan_max_depth existing = None" if "glob_scan_max_depth (preserve_deny_read_restrictions_from existing p) = None"
    using that by (auto simp: preserve_restricted[OF assms] split: if_splits)
qed

lemma preserve_unrestricted:
  "policy_kind p = Unrestricted \<Longrightarrow> deny_entries existing \<noteq> [] \<Longrightarrow>
     preserve_deny_read_restrictions_from existing p =
     preserve_deny_read_restrictions_from existing (restricted [entry_new (Special Root) Write])"
  by (simp add: preserve_deny_read_restrictions_from_def restricted_def)

text \<open>
  Denied reads survive the replacement of a policy. Carrying the restrictions of an existing policy over to
  a new one keeps every denied entry of both (unless an external sandbox is in charge), makes an
  unrestricted policy restricted when there is something to deny, grants nothing the new policy did not
  grant, and doing it again changes nothing.
\<close>

theorem denied_reads_preserved:
  fixes existing p :: "'u file_system_sandbox_policy"
  defines "q \<equiv> preserve_deny_read_restrictions_from existing p"
  shows "(policy_kind p \<noteq> ExternalSandbox \<and> deny_entries existing \<noteq> [] \<longrightarrow>
            policy_kind q = Restricted \<and> set (deny_entries existing) \<subseteq> set (deny_entries q)) \<and>
         (policy_kind p = Restricted \<longrightarrow> set (deny_entries q) = set (deny_entries p) \<union> set (deny_entries existing)) \<and>
         (policy_kind p = Restricted \<longrightarrow>
            filter (\<lambda>e. entry_access e \<noteq> Deny) (policy_entries q) = filter (\<lambda>e. entry_access e \<noteq> Deny) (policy_entries p)) \<and>
         preserve_deny_read_restrictions_from existing q = q"
proof (cases "policy_kind p")
  case Restricted
  have es: "policy_entries q = push_new_entries (policy_entries p) (deny_entries existing)"
    and k: "policy_kind q = Restricted"
    unfolding q_def by (simp_all add: preserve_restricted[OF Restricted] Restricted)
  have "set (deny_entries q) = set (deny_entries p) \<union> set (deny_entries existing)"
    unfolding deny_entries_push[OF es] by (simp add: deny_entries_def)
  then show ?thesis
    using k granted_push[OF es] preserve_idem_restricted[OF Restricted, of existing] Restricted unfolding q_def by auto
next
  case Unrestricted
  show ?thesis
  proof (cases "deny_entries existing = []")
    case True
    then show ?thesis using Unrestricted unfolding q_def by (simp add: preserve_deny_read_restrictions_from_def)
  next
    case False
    let ?r = "restricted [entry_new (Special Root) Write] :: 'u file_system_sandbox_policy"
    have r: "policy_kind ?r = Restricted" by (simp add: restricted_def)
    have q: "q = preserve_deny_read_restrictions_from existing ?r"
      unfolding q_def by (rule preserve_unrestricted[OF Unrestricted False])
    have es: "policy_entries q = push_new_entries (policy_entries ?r) (deny_entries existing)"
      and k: "policy_kind q = Restricted"
      unfolding q by (simp_all add: preserve_restricted[OF r] r)
    then show ?thesis
      using deny_entries_push[OF es] preserve_idem_restricted[OF r, of existing] Unrestricted unfolding q by auto
  qed
next
  case ExternalSandbox
  then show ?thesis unfolding q_def by (simp add: preserve_deny_read_restrictions_from_def)
qed

definition deny_tmp :: "unit file_system_sandbox_policy" where
  "deny_tmp = restricted [entry_new (Special SlashTmp) Deny]"

lemma denied_reads_preserved_witness:
  "set (deny_entries deny_tmp) \<subseteq> set (deny_entries (preserve_deny_read_restrictions_from deny_tmp unrestricted))"
proof -
  have "policy_kind (unrestricted :: unit file_system_sandbox_policy) \<noteq> ExternalSandbox" "deny_entries deny_tmp \<noteq> []"
    by (simp_all add: unrestricted_def deny_entries_def deny_tmp_def restricted_def entry_new_def)
  then show ?thesis using denied_reads_preserved[of unrestricted deny_tmp] by blast
qed

end
