(* ===== verification/Exec_Approval.thy ===== *)
theory Exec_Approval
  imports Exec_Policy_Parser Exec_Policy_Amend Dangerous_Command PowerShell_Syntax Permissions
begin

text \<open>
  Whether a command runs, asks, or is refused (\<open>core/src/exec_policy.rs\<close> with \<open>model_policy.rs\<close> and
  \<open>executable_identity.rs\<close>, for Unix builds). A command line is split into the commands it runs, each is
  checked against the policy, commands no rule matches are judged by the approval policy, the
  sandbox and the search for dangerous commands, and the strictest verdict becomes a requirement for
  the tool that runs it. The parsers and \<open>shlex\<close> are parameters (record \<open>command_tools\<close>).
\<close>

section \<open>Constants\<close>

definition PROMPT_CONFLICT_REASON :: rstr where
  "PROMPT_CONFLICT_REASON = lit ''approval required by policy, but AskForApproval is set to Never''"

definition REJECT_SANDBOX_APPROVAL_REASON :: rstr where
  "REJECT_SANDBOX_APPROVAL_REASON =
     lit ''approval required by policy, but AskForApproval::Granular.sandbox_approval is false''"

definition REJECT_RULES_APPROVAL_REASON :: rstr where
  "REJECT_RULES_APPROVAL_REASON =
     lit ''approval required by policy rule, but AskForApproval::Granular.rules is false''"

definition BANNED_PREFIX_SUGGESTIONS :: "rstr list list" where
  "BANNED_PREFIX_SUGGESTIONS = [
    [lit ''/bin/bash''], [lit ''/bin/bash'', lit ''-c''], [lit ''/bin/bash'', lit ''-lc''], [lit ''/bin/sh''],
    [lit ''/bin/sh'', lit ''-c''], [lit ''/bin/sh'', lit ''-lc''], [lit ''/bin/zsh''],
    [lit ''/bin/zsh'', lit ''-c''], [lit ''/bin/zsh'', lit ''-lc''], [lit ''Rscript''], [lit ''bash''],
    [lit ''bash'', lit ''-c''], [lit ''bash'', lit ''-lc''], [lit ''bun''], [lit ''bun'', lit ''-e''],
    [lit ''bun'', lit ''run''], [lit ''cmd''], [lit ''cmd'', lit ''/c''], [lit ''cmd'', lit ''/k''],
    [lit ''cmd.exe''], [lit ''cmd.exe'', lit ''/c''], [lit ''cmd.exe'', lit ''/k''], [lit ''dash''],
    [lit ''dash'', lit ''-c''], [lit ''deno''], [lit ''deno'', lit ''eval''], [lit ''env''], [lit ''fish''],
    [lit ''fish'', lit ''-c''], [lit ''git''], [lit ''julia''], [lit ''julia'', lit ''-e''], [lit ''ksh''],
    [lit ''ksh'', lit ''-c''], [lit ''lua''], [lit ''lua'', lit ''-e''], [lit ''node''], [lit ''node'', lit ''-e''],
    [lit ''nodejs''], [lit ''nodejs'', lit ''-e''], [lit ''npm'', lit ''run''], [lit ''osascript''], [lit ''perl''],
    [lit ''perl'', lit ''-e''], [lit ''php''], [lit ''php'', lit ''-r''], [lit ''pnpm'', lit ''run''],
    [lit ''powershell''], [lit ''powershell'', lit ''-Command''], [lit ''powershell'', lit ''-EncodedCommand''],
    [lit ''powershell'', lit ''-File''], [lit ''powershell'', lit ''-c''], [lit ''powershell.exe''],
    [lit ''powershell.exe'', lit ''-Command''], [lit ''powershell.exe'', lit ''-EncodedCommand''],
    [lit ''powershell.exe'', lit ''-File''], [lit ''powershell.exe'', lit ''-c''], [lit ''pwsh''],
    [lit ''pwsh'', lit ''-Command''], [lit ''pwsh'', lit ''-EncodedCommand''], [lit ''pwsh'', lit ''-File''],
    [lit ''pwsh'', lit ''-c''], [lit ''pwsh'', lit ''-e''], [lit ''pwsh'', lit ''-ec''], [lit ''pwsh'', lit ''-f''],
    [lit ''py''], [lit ''py'', lit ''-3''], [lit ''pypy''], [lit ''pypy3''], [lit ''python''],
    [lit ''python'', lit ''-''], [lit ''python'', lit ''-c''], [lit ''python3''], [lit ''python3'', lit ''-''],
    [lit ''python3'', lit ''-c''], [lit ''pythonw''], [lit ''pyw''], [lit ''rm''], [lit ''ruby''],
    [lit ''ruby'', lit ''-e''], [lit ''sh''], [lit ''sh'', lit ''-c''], [lit ''sh'', lit ''-lc''], [lit ''sudo''],
    [lit ''yarn'', lit ''run''], [lit ''zsh''], [lit ''zsh'', lit ''-c''], [lit ''zsh'', lit ''-lc'']]"

section \<open>Types\<close>

datatype command_origin = Generic | PowerShellOrigin

record 'u unmatched_command_context =
  ctx_approval_policy :: ask_for_approval
  ctx_permission_profile :: "'u permission_profile"
  ctx_windows_sandbox_level :: windows_sandbox_level
  ctx_sandbox_permissions :: sandbox_permissions
  ctx_command_origin :: command_origin

record exec_policy_commands =
  parsed_commands :: "rstr list list"
  parsed_origin :: command_origin

datatype allow_prefix_rules = Honor | IgnoreForCyberModel

text \<open>\<open>ExecPolicyAmendment\<close> holds the words of the prefix.\<close>

type_synonym exec_policy_amendment = "rstr list"

datatype exec_approval_requirement =
    Skip (bypass_sandbox: bool) (skip_amendment: "exec_policy_amendment option")
  | NeedsApproval (approval_reason: "rstr option") (approval_amendment: "exec_policy_amendment option")
  | Refused (refusal_reason: rstr)

record 'u exec_approval_request =
  req_command :: "rstr list"
  req_approval_policy :: ask_for_approval
  req_permission_profile :: "'u permission_profile"
  req_environment_policy :: "policy option"
  req_windows_sandbox_level :: windows_sandbox_level
  req_sandbox_permissions :: sandbox_permissions
  req_prefix_rule :: "rstr list option"
  req_allow_prefix_rules :: allow_prefix_rules

record command_tools =
  bash_sitter :: tree_sitter
  powershell :: powershell_grammar
  windows_tools :: windows_deps
  try_join :: "rstr list \<Rightarrow> rstr option"

section \<open>Prompts\<close>

fun is_policy_match :: "rule_match \<Rightarrow> bool" where
  "is_policy_match (PrefixRuleMatch _ _ _ _) = True"
| "is_policy_match (HeuristicsRuleMatch _ _) = False"

fun prompt_is_rejected_by_policy :: "ask_for_approval \<Rightarrow> bool \<Rightarrow> rstr option" where
  "prompt_is_rejected_by_policy Never prompt_is_rule = Some PROMPT_CONFLICT_REASON"
| "prompt_is_rejected_by_policy OnRequest prompt_is_rule = None"
| "prompt_is_rejected_by_policy UnlessTrusted prompt_is_rule = None"
| "prompt_is_rejected_by_policy (Granular granular_config) prompt_is_rule =
     (if prompt_is_rule then
        (if \<not> allows_rules_approval granular_config then Some REJECT_RULES_APPROVAL_REASON else None)
      else if \<not> allows_sandbox_approval granular_config then Some REJECT_SANDBOX_APPROVAL_REASON
      else None)"

section \<open>Commands no rule matches\<close>

definition dangerous_command_match_for_origin ::
    "command_tools \<Rightarrow> rstr list \<Rightarrow> command_origin \<Rightarrow> dangerous_command_platform \<Rightarrow> dangerous_command_match option" where
  "dangerous_command_match_for_origin tools cmd origin platform =
     (case origin of
        Generic \<Rightarrow> dangerous_command_match_for_platform (bash_sitter tools) (windows_tools tools) cmd platform
      | PowerShellOrigin \<Rightarrow> dangerous_powershell_words_match (windows_tools tools) cmd platform)"

definition dangerous_command_match_for_heuristics ::
    "command_tools \<Rightarrow> evaluation \<Rightarrow> decision \<Rightarrow> command_origin \<Rightarrow> dangerous_command_platform \<Rightarrow> dangerous_command_match option" where
  "dangerous_command_match_for_heuristics tools ev d origin platform =
     find_map (\<lambda>rm. case rm of
         HeuristicsRuleMatch cmd matched_decision \<Rightarrow>
           (if matched_decision = d then dangerous_command_match_for_origin tools cmd origin platform else None)
       | _ \<Rightarrow> None) (matched_rules ev)"

text \<open>The check for a disabled Windows sandbox is false on Unix.\<close>

definition render_decision_for_unmatched_command_for_platform ::
    "command_tools \<Rightarrow> rstr list \<Rightarrow> 'u unmatched_command_context \<Rightarrow> dangerous_command_platform \<Rightarrow> decision" where
  "render_decision_for_unmatched_command_for_platform tools cmd ctx platform =
     (if dangerous_command_match_for_origin tools cmd (ctx_command_origin ctx) platform \<noteq> None then
        (case ctx_approval_policy ctx of Never \<Rightarrow> Forbidden | _ \<Rightarrow> Prompt)
      else
        (let sandbox_kind = policy_kind (file_system_sandbox_policy_of (ctx_permission_profile ctx));
             restricted_decision =
               (if requests_sandbox_override (ctx_sandbox_permissions ctx) then Prompt else Allow)
         in case ctx_approval_policy ctx of
              Never \<Rightarrow> Allow
            | UnlessTrusted \<Rightarrow> Prompt
            | OnRequest \<Rightarrow> (case sandbox_kind of Restricted \<Rightarrow> restricted_decision | _ \<Rightarrow> Allow)
            | Granular _ \<Rightarrow> (case sandbox_kind of Restricted \<Rightarrow> restricted_decision | _ \<Rightarrow> Allow)))"

definition commands_for_exec_policy_for_platform ::
    "command_tools \<Rightarrow> rstr list \<Rightarrow> dangerous_command_platform \<Rightarrow> exec_policy_commands" where
  "commands_for_exec_policy_for_platform tools cmd platform =
     (case parse_shell_lc_plain_commands (bash_sitter tools) cmd of
        Some (c # cs) \<Rightarrow> \<lparr>parsed_commands = c # cs, parsed_origin = Generic\<rparr>
      | _ \<Rightarrow>
          (case (if platform = Windows then parse_powershell_command_into_plain_commands (powershell tools) cmd else None) of
             Some (c # cs) \<Rightarrow> \<lparr>parsed_commands = c # cs, parsed_origin = PowerShellOrigin\<rparr>
           | _ \<Rightarrow> \<lparr>parsed_commands = [cmd], parsed_origin = Generic\<rparr>))"

section \<open>Amendments\<close>

definition try_derive_execpolicy_amendment_for_prompt_rules :: "rule_match list \<Rightarrow> exec_policy_amendment option" where
  "try_derive_execpolicy_amendment_for_prompt_rules ms =
     (if list_ex (\<lambda>rm. is_policy_match rm \<and> match_decision rm = Prompt) ms then None
      else find_map (\<lambda>rm. case rm of
             HeuristicsRuleMatch cmd Prompt \<Rightarrow> Some cmd
           | _ \<Rightarrow> None) ms)"

definition try_derive_execpolicy_amendment_for_allow_rules :: "rule_match list \<Rightarrow> exec_policy_amendment option" where
  "try_derive_execpolicy_amendment_for_allow_rules ms =
     (if list_ex is_policy_match ms then None
      else find_map (\<lambda>rm. case rm of
             HeuristicsRuleMatch cmd Allow \<Rightarrow> Some cmd
           | _ \<Rightarrow> None) ms)"

text \<open>Checking one command with a fallback always gives an evaluation.\<close>

definition prefix_rule_would_approve_all_commands ::
    "host_env \<Rightarrow> policy \<Rightarrow> rstr list \<Rightarrow> rstr list list \<Rightarrow> (rstr list \<Rightarrow> decision) \<Rightarrow> bool" where
  "prefix_rule_would_approve_all_commands env p pre cmds fallback =
     (case (add_prefix_rule pre Allow p :: (policy, unit policy_error) result) of
        Err _ \<Rightarrow> False
      | Ok q \<Rightarrow> list_all (\<lambda>cmd. map_option eval_decision (check_with_options env q cmd fallback True) = Some Allow) cmds)"

definition derive_requested_execpolicy_amendment_from_prefix_rule ::
    "host_env \<Rightarrow> rstr list option \<Rightarrow> rule_match list \<Rightarrow> policy \<Rightarrow> rstr list list \<Rightarrow> (rstr list \<Rightarrow> decision) \<Rightarrow>
     exec_policy_amendment option" where
  "derive_requested_execpolicy_amendment_from_prefix_rule env prefix_words ms p cmds fallback =
     (case prefix_words of
        None \<Rightarrow> None
      | Some pre \<Rightarrow>
          (if pre = [] then None
           else if list_ex (\<lambda>banned. length pre = length banned \<and> pre = banned) BANNED_PREFIX_SUGGESTIONS then None
           else if list_ex is_policy_match ms then None
           else if prefix_rule_would_approve_all_commands env p pre cmds fallback then Some pre
           else None))"

section \<open>Reasons\<close>

text \<open>\<open>Iterator::max_by_key\<close>: the last of the largest.\<close>

definition max_by_key :: "('a \<Rightarrow> nat) \<Rightarrow> 'a list \<Rightarrow> 'a option" where
  "max_by_key f xs =
     foldl (\<lambda>acc x. case acc of None \<Rightarrow> Some x | Some y \<Rightarrow> (if f y \<le> f x then Some x else Some y)) None xs"

definition render_shlex_command :: "command_tools \<Rightarrow> rstr list \<Rightarrow> rstr" where
  "render_shlex_command tools args =
     (case try_join tools args of Some s \<Rightarrow> s | None \<Rightarrow> join [32] args)"

abbreviation backquoted :: "rstr \<Rightarrow> rstr" where "backquoted s \<equiv> [96] @ s @ [96]"

definition derive_prompt_reason :: "command_tools \<Rightarrow> rstr list \<Rightarrow> evaluation \<Rightarrow> rstr option" where
  "derive_prompt_reason tools args ev =
     (let rendered = render_shlex_command tools args;
          prompts = List.map_filter (\<lambda>rm. case rm of
              PrefixRuleMatch pre Prompt _ j \<Rightarrow> Some (length pre, j)
            | _ \<Rightarrow> None) (matched_rules ev)
      in case max_by_key fst prompts of
           Some (_, Some why) \<Rightarrow> Some (backquoted rendered @ lit '' requires approval: '' @ why)
         | Some (_, None) \<Rightarrow> Some (backquoted rendered @ lit '' requires approval by policy'')
         | None \<Rightarrow> None)"

fun dangerous_command_rejection_reason :: "dangerous_command_match \<Rightarrow> rstr" where
  "dangerous_command_rejection_reason ForcedRm = lit ''rm -f style commands are not permitted. Use a safer approach''"
| "dangerous_command_rejection_reason Other = lit ''blocked by policy''"

definition derive_forbidden_reason ::
    "command_tools \<Rightarrow> rstr list \<Rightarrow> evaluation \<Rightarrow> dangerous_command_match option \<Rightarrow> rstr" where
  "derive_forbidden_reason tools args ev danger =
     (let rendered = render_shlex_command tools args;
          forbidden = List.map_filter (\<lambda>rm. case rm of
              PrefixRuleMatch pre Forbidden _ j \<Rightarrow> Some (pre, j)
            | _ \<Rightarrow> None) (matched_rules ev)
      in case max_by_key (\<lambda>(pre, _). length pre) forbidden of
           Some (_, Some why) \<Rightarrow> backquoted rendered @ lit '' rejected: '' @ why
         | Some (pre, None) \<Rightarrow>
             backquoted rendered @ lit '' rejected: policy forbids commands starting with '' @
             backquoted (render_shlex_command tools pre)
         | None \<Rightarrow>
             (case danger of
                Some m \<Rightarrow> backquoted rendered @ lit '' rejected: '' @ dangerous_command_rejection_reason m
              | None \<Rightarrow> backquoted rendered @ lit '' rejected: blocked by policy''))"

definition derive_rejected_prompt_reason :: "rstr \<Rightarrow> dangerous_command_match option \<Rightarrow> rstr" where
  "derive_rejected_prompt_reason fallback_reason danger =
     (case danger of
        Some ForcedRm \<Rightarrow> dangerous_command_rejection_reason ForcedRm
      | _ \<Rightarrow> fallback_reason)"

section \<open>The manager\<close>

record exec_policy_manager =
  current :: policy

definition manager_new :: "policy \<Rightarrow> exec_policy_manager" where
  "manager_new p = \<lparr>current = p\<rparr>"

text \<open>\<open>model_policy.rs\<close>: without allow rules for some models, then under the policy of the environment.\<close>

definition current_for_prefix_rules :: "exec_policy_manager \<Rightarrow> allow_prefix_rules \<Rightarrow> policy" where
  "current_for_prefix_rules mgr allow =
     (let p = current mgr in
      if allow = Honor then p
      else policy_from_parts
        (foldl (\<lambda>acc (program, r). multi_insert program r acc) []
          (concat (map (\<lambda>(program, rs). map (Pair program) (filter (\<lambda>r. rule_decision r \<noteq> Allow) rs)) (rules_by_program p))))
        (network_rules p) (host_executables_by_name p))"

definition current_for_environment :: "exec_policy_manager \<Rightarrow> policy option \<Rightarrow> allow_prefix_rules \<Rightarrow> policy" where
  "current_for_environment mgr environment_policy allow =
     (let p = current_for_prefix_rules mgr allow in
      case environment_policy of
        Some overlay \<Rightarrow> merge_overlay p overlay
      | None \<Rightarrow> p)"

definition exec_policy_fallback ::
    "command_tools \<Rightarrow> 'u exec_approval_request \<Rightarrow> command_origin \<Rightarrow> dangerous_command_platform \<Rightarrow> rstr list \<Rightarrow> decision" where
  "exec_policy_fallback tools req origin platform cmd =
     render_decision_for_unmatched_command_for_platform tools cmd
       \<lparr>ctx_approval_policy = req_approval_policy req, ctx_permission_profile = req_permission_profile req,
        ctx_windows_sandbox_level = req_windows_sandbox_level req,
        ctx_sandbox_permissions = req_sandbox_permissions req, ctx_command_origin = origin\<rparr> platform"

definition requirement_for_evaluation ::
    "command_tools \<Rightarrow> host_env \<Rightarrow> policy \<Rightarrow> 'u exec_approval_request \<Rightarrow> exec_policy_commands \<Rightarrow> dangerous_command_platform \<Rightarrow>
     evaluation \<Rightarrow> exec_approval_requirement" where
  "requirement_for_evaluation tools env p req pcs platform ev =
     (let origin = parsed_origin pcs;
          auto_amendment_allowed = (req_allow_prefix_rules req = Honor);
          requested_amendment =
            (if auto_amendment_allowed
             then derive_requested_execpolicy_amendment_from_prefix_rule env (req_prefix_rule req) (matched_rules ev) p
                    (parsed_commands pcs) (exec_policy_fallback tools req origin platform)
             else None)
      in case eval_decision ev of
           Forbidden \<Rightarrow>
             Refused (derive_forbidden_reason tools (req_command req) ev
               (dangerous_command_match_for_heuristics tools ev Forbidden origin platform))
         | Prompt \<Rightarrow>
             (let prompt_is_rule = list_ex (\<lambda>rm. is_policy_match rm \<and> match_decision rm = Prompt) (matched_rules ev)
              in case prompt_is_rejected_by_policy (req_approval_policy req) prompt_is_rule of
                   Some reason \<Rightarrow>
                     (if prompt_is_rule then Refused reason
                      else Refused (derive_rejected_prompt_reason reason
                        (dangerous_command_match_for_heuristics tools ev Prompt origin platform)))
                 | None \<Rightarrow>
                     NeedsApproval (derive_prompt_reason tools (req_command req) ev)
                       (case requested_amendment of
                          Some a \<Rightarrow> Some a
                        | None \<Rightarrow>
                            (if auto_amendment_allowed
                             then try_derive_execpolicy_amendment_for_prompt_rules (matched_rules ev) else None)))
         | Allow \<Rightarrow>
             Skip (list_all (\<lambda>cmd. list_ex (\<lambda>rm. is_policy_match rm \<and> match_decision rm = Allow)
                     (matches_for_command_with_options env p cmd None True)) (parsed_commands pcs))
               (if auto_amendment_allowed
                then try_derive_execpolicy_amendment_for_allow_rules (matched_rules ev) else None))"

text \<open>Evaluating no commands panics.\<close>

definition create_exec_approval_requirement_for_parsed_commands ::
    "command_tools \<Rightarrow> host_env \<Rightarrow> exec_policy_manager \<Rightarrow> 'u exec_approval_request \<Rightarrow> exec_policy_commands \<Rightarrow>
     dangerous_command_platform \<Rightarrow> exec_approval_requirement option" where
  "create_exec_approval_requirement_for_parsed_commands tools env mgr req pcs platform =
     (let p = current_for_environment mgr (req_environment_policy req) (req_allow_prefix_rules req) in
      map_option (requirement_for_evaluation tools env p req pcs platform)
        (check_multiple_with_options env p (parsed_commands pcs)
          (exec_policy_fallback tools req (parsed_origin pcs) platform) True))"

definition create_exec_approval_requirement_for_command_platform ::
    "command_tools \<Rightarrow> host_env \<Rightarrow> exec_policy_manager \<Rightarrow> 'u exec_approval_request \<Rightarrow> dangerous_command_platform \<Rightarrow>
     exec_approval_requirement option" where
  "create_exec_approval_requirement_for_command_platform tools env mgr req platform =
     create_exec_approval_requirement_for_parsed_commands tools env mgr req
       (commands_for_exec_policy_for_platform tools (req_command req) platform) platform"

section \<open>Shells\<close>

datatype unified_exec_shell_mode = Direct | ZshFork

text \<open>\<open>executable_identity.rs\<close>; paths are compared by their components.\<close>

definition shell_approval_command :: "rstr list \<Rightarrow> rstr \<Rightarrow> unified_exec_shell_mode \<Rightarrow> rstr list" where
  "shell_approval_command cmd configured_shell mode =
     (case cmd of
        [] \<Rightarrow> cmd
      | executable # _ \<Rightarrow>
          (let is_system_shell =
                 (case path_parent_components executable of
                    None \<Rightarrow> False
                  | Some parent \<Rightarrow> parent = path_components (lit ''/bin'') \<or> parent = path_components (lit ''/usr/bin''));
               is_configured_shell = (path_components executable = path_components configured_shell)
           in if is_configured_shell \<or> is_system_shell \<or> mode = ZshFork then cmd else [executable]))"

definition create_exec_approval_requirement_for_shell ::
    "command_tools \<Rightarrow> host_env \<Rightarrow> exec_policy_manager \<Rightarrow> 'u exec_approval_request \<Rightarrow> rstr \<Rightarrow> unified_exec_shell_mode \<Rightarrow>
     dangerous_command_platform \<Rightarrow> exec_approval_requirement option" where
  "create_exec_approval_requirement_for_shell tools env mgr req configured_shell mode platform =
     (let cmd = req_command req;
          executable = shell_approval_command cmd configured_shell mode
      in if length executable = length cmd
         then create_exec_approval_requirement_for_command_platform tools env mgr req platform
         else
           (let pcs =
              (case (if platform = Windows then extract_powershell_command cmd else None) of
                 Some (_, script) \<Rightarrow>
                   \<lparr>parsed_commands = (case parse_powershell_script_into_plain_commands (powershell tools) script of
                        Some cs \<Rightarrow> cs | None \<Rightarrow> [cmd]),
                    parsed_origin = PowerShellOrigin\<rparr>
               | None \<Rightarrow> commands_for_exec_policy_for_platform tools cmd platform)
            in create_exec_approval_requirement_for_parsed_commands tools env mgr (req\<lparr>req_command := executable\<rparr>)
                 (pcs\<lparr>parsed_commands := executable # parsed_commands pcs\<rparr>) platform))"

section \<open>The commands of a request\<close>

definition effective_policy :: "exec_policy_manager \<Rightarrow> 'u exec_approval_request \<Rightarrow> policy" where
  "effective_policy mgr req = current_for_environment mgr (req_environment_policy req) (req_allow_prefix_rules req)"

text \<open>What \<open>create_exec_approval_requirement_for_shell\<close> checks: the commands the request runs.\<close>

definition shell_policy_commands ::
    "command_tools \<Rightarrow> rstr list \<Rightarrow> rstr \<Rightarrow> unified_exec_shell_mode \<Rightarrow> dangerous_command_platform \<Rightarrow> exec_policy_commands" where
  "shell_policy_commands tools cmd configured_shell mode platform =
     (let executable = shell_approval_command cmd configured_shell mode in
      if length executable = length cmd then commands_for_exec_policy_for_platform tools cmd platform
      else
        (let pcs =
           (case (if platform = Windows then extract_powershell_command cmd else None) of
              Some (_, script) \<Rightarrow>
                \<lparr>parsed_commands = (case parse_powershell_script_into_plain_commands (powershell tools) script of
                     Some cs \<Rightarrow> cs | None \<Rightarrow> [cmd]),
                 parsed_origin = PowerShellOrigin\<rparr>
            | None \<Rightarrow> commands_for_exec_policy_for_platform tools cmd platform)
         in pcs\<lparr>parsed_commands := executable # parsed_commands pcs\<rparr>))"

lemma commands_for_nonempty: "parsed_commands (commands_for_exec_policy_for_platform tools cmd platform) \<noteq> []"
  by (auto simp: commands_for_exec_policy_for_platform_def split: option.splits list.splits)

lemma shell_policy_commands_nonempty:
  "parsed_commands (shell_policy_commands tools cmd configured_shell mode platform) \<noteq> []"
  using commands_for_nonempty by (auto simp: shell_policy_commands_def Let_def)

lemma shell_requirement_eq:
  "\<exists>c. create_exec_approval_requirement_for_shell tools env mgr req configured_shell mode platform =
     create_exec_approval_requirement_for_parsed_commands tools env mgr (req\<lparr>req_command := c\<rparr>)
       (shell_policy_commands tools (req_command req) configured_shell mode platform) platform"
proof (cases "length (shell_approval_command (req_command req) configured_shell mode) = length (req_command req)")
  case True
  then show ?thesis
    by (intro exI[of _ "req_command req"])
      (simp add: create_exec_approval_requirement_for_shell_def shell_policy_commands_def Let_def
        create_exec_approval_requirement_for_command_platform_def)
next
  case False
  then show ?thesis
    by (intro exI[of _ "shell_approval_command (req_command req) configured_shell mode"])
      (simp add: create_exec_approval_requirement_for_shell_def shell_policy_commands_def Let_def)
qed

section \<open>Evaluations of requests\<close>

lemma policy_match_is_prefix_match: "is_policy_match = is_prefix_match"
proof
  fix m show "is_policy_match m = is_prefix_match m" by (cases m) auto
qed

lemma evaluation_of_commands:
  assumes "check_multiple_with_options env p cmds h True = Some ev"
  shows "cmds \<noteq> []" and "matched_rules ev = concat (map (\<lambda>cmd. matches_for_command_with_options env p cmd (Some h) True) cmds)"
    and "matched_rules ev \<noteq> []" and "eval_decision ev = Max (match_decision ` set (matched_rules ev))"
  using assms by (auto simp: check_multiple_with_options_def from_matches_Some_iff)

lemma evaluation_exists: "cmds \<noteq> [] \<Longrightarrow> \<exists>ev. check_multiple_with_options env p cmds h True = Some ev"
  by (cases cmds) (auto simp: check_multiple_with_options_def from_matches_Some_iff matches_with_fallback)

lemma matches_of_command:
  assumes "check_multiple_with_options env p cmds h True = Some ev" and "cmd \<in> set cmds"
  shows "m \<in> set (matched_rules_of env p True cmd) \<Longrightarrow> m \<in> set (matched_rules ev)"
    and "matched_rules_of env p True cmd = [] \<Longrightarrow> HeuristicsRuleMatch cmd (h cmd) \<in> set (matched_rules ev)"
  using assms(2) unfolding evaluation_of_commands(2)[OF assms(1)] by (auto simp: matches_with_fallback intro!: bexI[of _ cmd])

lemma decision_le_eval:
  assumes "check_multiple_with_options env p cmds h True = Some ev" and "m \<in> set (matched_rules ev)"
  shows "match_decision m \<le> eval_decision ev"
  unfolding evaluation_of_commands(4)[OF assms(1)] using assms(2) by (intro Max_ge) auto

lemma matches_cases:
  assumes "check_multiple_with_options env p cmds h True = Some ev" and "m \<in> set (matched_rules ev)"
  obtains cmd where "cmd \<in> set cmds" "m \<in> set (matched_rules_of env p True cmd)" "is_policy_match m"
  | cmd where "cmd \<in> set cmds" "matched_rules_of env p True cmd = []" "m = HeuristicsRuleMatch cmd (h cmd)"
proof -
  from assms(2) obtain cmd where c: "cmd \<in> set cmds" "m \<in> set (matches_for_command_with_options env p cmd (Some h) True)"
    unfolding evaluation_of_commands(2)[OF assms(1)] by auto
  show thesis
  proof (cases "matched_rules_of env p True cmd = []")
    case True
    then show thesis using c that(2) by (simp add: matches_with_fallback)
  next
    case False
    then show thesis
      using c that(1) matched_rules_prefix by (auto simp: matches_with_fallback policy_match_is_prefix_match)
  qed
qed

text \<open>The fallback of a request does not look at the request's command.\<close>

lemma fallback_of_command [simp]:
  "exec_policy_fallback tools (req\<lparr>req_command := c\<rparr>) origin platform = exec_policy_fallback tools req origin platform"
  by (simp add: exec_policy_fallback_def fun_eq_iff)

abbreviation request_evaluation where
  "request_evaluation tools env mgr req pcs platform \<equiv>
     check_multiple_with_options env (effective_policy mgr req) (parsed_commands pcs)
       (exec_policy_fallback tools req (parsed_origin pcs) platform) True"

lemma shell_requirement_cases:
  assumes "create_exec_approval_requirement_for_shell tools env mgr req configured_shell mode platform = Some r"
  obtains ev c where
    "request_evaluation tools env mgr req (shell_policy_commands tools (req_command req) configured_shell mode platform) platform = Some ev"
    "r = requirement_for_evaluation tools env (effective_policy mgr req) (req\<lparr>req_command := c\<rparr>)
       (shell_policy_commands tools (req_command req) configured_shell mode platform) platform ev"
proof -
  obtain c where "create_exec_approval_requirement_for_parsed_commands tools env mgr (req\<lparr>req_command := c\<rparr>)
      (shell_policy_commands tools (req_command req) configured_shell mode platform) platform = Some r"
    using shell_requirement_eq[of tools env mgr req configured_shell mode platform] assms by auto
  then show thesis
    by (auto simp: create_exec_approval_requirement_for_parsed_commands_def Let_def effective_policy_def intro: that)
qed

lemma shell_requirement_exists:
  "\<exists>r. create_exec_approval_requirement_for_shell tools env mgr req configured_shell mode platform = Some r"
proof -
  obtain c where c: "create_exec_approval_requirement_for_shell tools env mgr req configured_shell mode platform =
     create_exec_approval_requirement_for_parsed_commands tools env mgr (req\<lparr>req_command := c\<rparr>)
       (shell_policy_commands tools (req_command req) configured_shell mode platform) platform"
    using shell_requirement_eq by blast
  then show ?thesis
    using evaluation_exists[OF shell_policy_commands_nonempty]
    by (force simp: create_exec_approval_requirement_for_parsed_commands_def Let_def)
qed

text \<open>
  C36: A request for approval is always answered. Whatever the command, the policy, the parsers and the platform,
  the check of a shell command returns a requirement; the panic on an empty list of commands is out of
  reach.
\<close>

theorem shell_requirement_total:
  "\<exists>r. create_exec_approval_requirement_for_shell tools env mgr req configured_shell mode platform = Some r"
  by (rule shell_requirement_exists)

section \<open>Refusals\<close>

lemma forbidden_refused:
  assumes "eval_decision ev = Forbidden"
  shows "\<exists>reason. requirement_for_evaluation tools env p req pcs platform ev = Refused reason"
  using assms by (simp add: requirement_for_evaluation_def Let_def)

lemma forbidden_shell_refused:
  assumes "cmd \<in> set (parsed_commands (shell_policy_commands tools (req_command req) configured_shell mode platform))"
    and "m \<in> set (matched_rules_of env (effective_policy mgr req) True cmd)" and "match_decision m = Forbidden"
  shows "\<exists>reason. create_exec_approval_requirement_for_shell tools env mgr req configured_shell mode platform = Some (Refused reason)"
proof -
  obtain r where r: "create_exec_approval_requirement_for_shell tools env mgr req configured_shell mode platform = Some r"
    using shell_requirement_exists by blast
  then show ?thesis
  proof (rule shell_requirement_cases)
    fix ev c
    assume ev: "request_evaluation tools env mgr req (shell_policy_commands tools (req_command req) configured_shell mode platform) platform = Some ev"
      and q: "r = requirement_for_evaluation tools env (effective_policy mgr req) (req\<lparr>req_command := c\<rparr>)
        (shell_policy_commands tools (req_command req) configured_shell mode platform) platform ev"
    have "Forbidden \<le> eval_decision ev"
      using decision_le_eval[OF ev matches_of_command(1)[OF ev assms(1,2)]] assms(3) by simp
    then show ?thesis
      using forbidden_refused q r by (metis decision_le_simps(3))
  qed
qed

text \<open>
  A forbidding rule is final. If any command of a request is matched by a rule that forbids it, the request
  is refused: no approval policy, sandbox, heuristic, requested prefix or other rule turns that into a
  prompt or lets the command run.
\<close>

theorem forbidden_rule_is_final:
  assumes "cmd \<in> set (parsed_commands (shell_policy_commands tools (req_command req) configured_shell mode platform))"
    and "m \<in> set (matched_rules_of env (effective_policy mgr req) True cmd)" and "match_decision m = Forbidden"
  shows "\<exists>reason. create_exec_approval_requirement_for_shell tools env mgr req configured_shell mode platform = Some (Refused reason)"
  by (rule forbidden_shell_refused[OF assms])

section \<open>When nothing is asked\<close>

lemma skip_evaluation:
  assumes "requirement_for_evaluation tools env p req pcs platform ev = Skip b a"
  shows "eval_decision ev = Allow"
    and "b \<longleftrightarrow> (\<forall>cmd \<in> set (parsed_commands pcs). \<exists>m \<in> set (matched_rules_of env p True cmd). match_decision m = Allow)"
  using assms
  by (auto simp: requirement_for_evaluation_def Let_def list_all_iff list_ex_iff matches_for_command_with_options_def
      policy_match_is_prefix_match matched_rules_prefix split: decision.splits option.splits if_splits)

lemma unmatched_allowed:
  assumes "exec_policy_fallback tools req origin platform cmd = Allow"
  shows "dangerous_command_match_for_origin tools cmd origin platform = None" and "req_approval_policy req \<noteq> UnlessTrusted"
    and "policy_kind (file_system_sandbox_policy_of (req_permission_profile req)) = Restricted \<Longrightarrow>
      requests_sandbox_override (req_sandbox_permissions req) \<Longrightarrow> req_approval_policy req = Never"
  using assms
  by (auto simp: exec_policy_fallback_def render_decision_for_unmatched_command_for_platform_def Let_def
      split: ask_for_approval.splits file_system_sandbox_kind.splits if_splits)

lemma allow_le: "(d :: decision) \<le> Allow \<longleftrightarrow> d = Allow"
  by (cases d) (auto simp: less_eq_decision_def)

lemma skip_unmatched:
  assumes "create_exec_approval_requirement_for_shell tools env mgr req configured_shell mode platform = Some (Skip b a)"
    and "cmd \<in> set (parsed_commands pcs)" and "pcs = shell_policy_commands tools (req_command req) configured_shell mode platform"
    and "matched_rules_of env (effective_policy mgr req) True cmd = []"
  shows "exec_policy_fallback tools req (parsed_origin pcs) platform cmd = Allow"
proof -
  from assms(1) obtain ev c where
    ev: "request_evaluation tools env mgr req pcs platform = Some ev"
    and q: "Skip b a = requirement_for_evaluation tools env (effective_policy mgr req) (req\<lparr>req_command := c\<rparr>) pcs platform ev"
    by (rule shell_requirement_cases) (simp add: assms(3))
  show ?thesis
    using decision_le_eval[OF ev matches_of_command(2)[OF ev assms(2,4)]] skip_evaluation(1)[OF q[symmetric]]
    by (simp add: allow_le)
qed

text \<open>
  C6: A command runs without asking only if every command it contains is fine. When a request is answered by
  skipping approval, then for each of its commands all matching rules allow it, and if no rule matches it,
  it is not dangerous, the project is not untrusted, and it does not ask to leave a restricted sandbox
  unless prompts are off. The sandbox is bypassed exactly when each command is matched by a rule.
\<close>

theorem skip_is_justified:
  assumes "create_exec_approval_requirement_for_shell tools env mgr req configured_shell mode platform = Some (Skip b a)"
    and "cmd \<in> set (parsed_commands pcs)" and "pcs = shell_policy_commands tools (req_command req) configured_shell mode platform"
  shows "(\<forall>m \<in> set (matched_rules_of env (effective_policy mgr req) True cmd). match_decision m = Allow) \<and>
    (matched_rules_of env (effective_policy mgr req) True cmd = [] \<longrightarrow>
       dangerous_command_match_for_origin tools cmd (parsed_origin pcs) platform = None \<and>
       req_approval_policy req \<noteq> UnlessTrusted \<and>
       (policy_kind (file_system_sandbox_policy_of (req_permission_profile req)) = Restricted \<and>
          requests_sandbox_override (req_sandbox_permissions req) \<longrightarrow> req_approval_policy req = Never)) \<and>
    (b \<longleftrightarrow> (\<forall>c \<in> set (parsed_commands pcs). matched_rules_of env (effective_policy mgr req) True c \<noteq> []))"
proof -
  let ?p = "effective_policy mgr req"
  from assms(1) obtain ev c where
    ev: "request_evaluation tools env mgr req pcs platform = Some ev"
    and q: "Skip b a = requirement_for_evaluation tools env ?p (req\<lparr>req_command := c\<rparr>) pcs platform ev"
    by (rule shell_requirement_cases) (simp add: assms(3))
  note sk = skip_evaluation[OF q[symmetric]]
  have allow: "match_decision m = Allow" if "m \<in> set (matched_rules ev)" for m
    using decision_le_eval[OF ev that] sk(1) by (simp add: allow_le)
  have rules: "match_decision m = Allow" if "c' \<in> set (parsed_commands pcs)" "m \<in> set (matched_rules_of env ?p True c')" for c' m
    using allow matches_of_command(1)[OF ev that] by simp
  have "b \<longleftrightarrow> (\<forall>c \<in> set (parsed_commands pcs). matched_rules_of env ?p True c \<noteq> [])"
  proof -
    have "(\<exists>m \<in> set (matched_rules_of env ?p True c'). match_decision m = Allow) \<longleftrightarrow> matched_rules_of env ?p True c' \<noteq> []"
      if "c' \<in> set (parsed_commands pcs)" for c'
      using rules[OF that] by (cases "matched_rules_of env ?p True c'") auto
    then show ?thesis using sk(2) by auto
  qed
  then show ?thesis
    using rules[OF assms(2)] unmatched_allowed[OF skip_unmatched[OF assms]] by blast
qed

section \<open>When the user is asked\<close>

text \<open>
  The user is asked only if the approval policy permits the question. With prompts off no request asks; with
  granular approval, a prompt by a rule needs the rules setting and any other prompt the sandbox setting.
  What would have been asked is refused instead.
\<close>

theorem asks_only_when_permitted:
  assumes "create_exec_approval_requirement_for_shell tools env mgr req configured_shell mode platform = Some (NeedsApproval reason a)"
    and "pcs = shell_policy_commands tools (req_command req) configured_shell mode platform"
  shows "req_approval_policy req \<noteq> Never \<and>
    (\<forall>g. req_approval_policy req = Granular g \<longrightarrow>
       (if \<exists>cmd \<in> set (parsed_commands pcs). \<exists>m \<in> set (matched_rules_of env (effective_policy mgr req) True cmd). match_decision m = Prompt
        then rules_approval g else sandbox_approval g))"
proof -
  let ?p = "effective_policy mgr req"
  from assms(1) obtain ev c where
    ev: "request_evaluation tools env mgr req pcs platform = Some ev"
    and q: "NeedsApproval reason a = requirement_for_evaluation tools env ?p (req\<lparr>req_command := c\<rparr>) pcs platform ev"
    by (rule shell_requirement_cases) (simp add: assms(2))
  let ?rule = "list_ex (\<lambda>rm. is_policy_match rm \<and> match_decision rm = Prompt) (matched_rules ev)"
  have none: "prompt_is_rejected_by_policy (req_approval_policy req) ?rule = None"
    using q by (auto simp: requirement_for_evaluation_def Let_def split: decision.splits option.splits if_splits)
  have "?rule \<longleftrightarrow> (\<exists>cmd \<in> set (parsed_commands pcs). \<exists>m \<in> set (matched_rules_of env ?p True cmd). match_decision m = Prompt)"
  proof
    assume ?rule
    then obtain m where m: "m \<in> set (matched_rules ev)" "is_policy_match m" "match_decision m = Prompt" by (auto simp: list_ex_iff)
    from ev m(1) show "\<exists>cmd \<in> set (parsed_commands pcs). \<exists>m \<in> set (matched_rules_of env ?p True cmd). match_decision m = Prompt"
      by (rule matches_cases) (use m in auto)
  next
    assume "\<exists>cmd \<in> set (parsed_commands pcs). \<exists>m \<in> set (matched_rules_of env ?p True cmd). match_decision m = Prompt"
    then obtain cmd m where "cmd \<in> set (parsed_commands pcs)" "m \<in> set (matched_rules_of env ?p True cmd)" "match_decision m = Prompt"
      by blast
    then show ?rule
      using matches_of_command(1)[OF ev] matched_rules_prefix by (force simp: list_ex_iff policy_match_is_prefix_match)
  qed
  then show ?thesis
    using none by (auto simp: allows_rules_approval_def allows_sandbox_approval_def split: if_splits)
qed

section \<open>Amendments\<close>

lemma find_prompt: "find_map (\<lambda>rm. case rm of HeuristicsRuleMatch cmd Prompt \<Rightarrow> Some cmd | _ \<Rightarrow> None) ms = Some a \<Longrightarrow>
    HeuristicsRuleMatch a Prompt \<in> set ms"
  by (auto dest!: find_map_SomeD split: rule_match.splits decision.splits)

lemma find_allow: "find_map (\<lambda>rm. case rm of HeuristicsRuleMatch cmd Allow \<Rightarrow> Some cmd | _ \<Rightarrow> None) ms = Some a \<Longrightarrow>
    HeuristicsRuleMatch a Allow \<in> set ms"
  by (auto dest!: find_map_SomeD split: rule_match.splits decision.splits)

lemma requested_amendment_Some:
  assumes "derive_requested_execpolicy_amendment_from_prefix_rule env pre ms p cmds h = Some a"
  shows "pre = Some a" and "a \<noteq> []" and "a \<notin> set BANNED_PREFIX_SUGGESTIONS" and "prefix_rule_would_approve_all_commands env p a cmds h"
  using assms
  by (auto simp: derive_requested_execpolicy_amendment_from_prefix_rule_def list_ex_iff split: option.splits if_splits)

definition proposed_amendment :: "exec_approval_requirement \<Rightarrow> exec_policy_amendment option" where
  "proposed_amendment r =
     (case r of Skip _ a \<Rightarrow> a | NeedsApproval _ a \<Rightarrow> a | Refused _ \<Rightarrow> None)"

lemma heuristic_match_unmatched:
  assumes "check_multiple_with_options env p cmds h True = Some ev" and "HeuristicsRuleMatch a d \<in> set (matched_rules ev)"
  shows "a \<in> set cmds \<and> matched_rules_of env p True a = []"
  using assms by (rule matches_cases) auto

lemma amendment_cases:
  assumes "check_multiple_with_options env p (parsed_commands pcs) (exec_policy_fallback tools req (parsed_origin pcs) platform) True = Some ev"
    and "proposed_amendment (requirement_for_evaluation tools env p req pcs platform ev) = Some a"
  shows "req_allow_prefix_rules req = Honor \<and>
    (req_prefix_rule req = Some a \<and> a \<noteq> [] \<and> a \<notin> set BANNED_PREFIX_SUGGESTIONS \<and>
       prefix_rule_would_approve_all_commands env p a (parsed_commands pcs) (exec_policy_fallback tools req (parsed_origin pcs) platform) \<or>
     a \<in> set (parsed_commands pcs) \<and> matched_rules_of env p True a = [])"
proof (cases "eval_decision ev")
  case Allow
  then have "req_allow_prefix_rules req = Honor" "HeuristicsRuleMatch a Allow \<in> set (matched_rules ev)"
    using assms(2)
    by (auto simp: proposed_amendment_def requirement_for_evaluation_def Let_def try_derive_execpolicy_amendment_for_allow_rules_def
        split: if_splits dest!: find_allow)
  then show ?thesis using heuristic_match_unmatched[OF assms(1)] by blast
next
  case Prompt
  let ?h = "exec_policy_fallback tools req (parsed_origin pcs) platform"
  have honor: "req_allow_prefix_rules req = Honor"
    using assms(2) Prompt by (auto simp: proposed_amendment_def requirement_for_evaluation_def Let_def split: option.splits if_splits)
  let ?req = "derive_requested_execpolicy_amendment_from_prefix_rule env (req_prefix_rule req) (matched_rules ev) p (parsed_commands pcs) ?h"
  show ?thesis
  proof (cases ?req)
    case None
    then have "HeuristicsRuleMatch a Prompt \<in> set (matched_rules ev)"
      using assms(2) Prompt honor
      by (auto simp: proposed_amendment_def requirement_for_evaluation_def Let_def try_derive_execpolicy_amendment_for_prompt_rules_def
          split: option.splits if_splits dest!: find_prompt)
    then show ?thesis using honor heuristic_match_unmatched[OF assms(1)] by blast
  next
    case (Some x)
    then have "x = a"
      using assms(2) Prompt honor
      by (auto simp: proposed_amendment_def requirement_for_evaluation_def Let_def split: option.splits if_splits)
    then show ?thesis using honor requested_amendment_Some[OF Some] by blast
  qed
next
  case Forbidden
  then show ?thesis using assms(2) by (simp add: proposed_amendment_def requirement_for_evaluation_def Let_def)
qed

lemma proposed_amendment_simps [simp]:
  "proposed_amendment (Skip b a) = a" "proposed_amendment (NeedsApproval reason a) = a" "proposed_amendment (Refused why) = None"
  by (simp_all add: proposed_amendment_def)

text \<open>
  What the user is offered to allow for good is what was asked. A proposed rule is either the prefix the model
  requested, which is not on the list of banned prefixes and with which every command of the request would
  be allowed, or one of the commands of the request itself that no rule decides. Models whose allow rules
  are ignored are offered nothing.
\<close>

theorem amendment_is_justified:
  assumes "create_exec_approval_requirement_for_shell tools env mgr req configured_shell mode platform = Some r"
    and "proposed_amendment r = Some a" and "pcs = shell_policy_commands tools (req_command req) configured_shell mode platform"
  shows "req_allow_prefix_rules req = Honor \<and>
    (req_prefix_rule req = Some a \<and> a \<noteq> [] \<and> a \<notin> set BANNED_PREFIX_SUGGESTIONS \<and>
       prefix_rule_would_approve_all_commands env (effective_policy mgr req) a (parsed_commands pcs)
         (exec_policy_fallback tools req (parsed_origin pcs) platform) \<or>
     a \<in> set (parsed_commands pcs) \<and> matched_rules_of env (effective_policy mgr req) True a = [])"
proof -
  from assms(1) obtain ev c where
    ev: "request_evaluation tools env mgr req pcs platform = Some ev"
    and q: "r = requirement_for_evaluation tools env (effective_policy mgr req) (req\<lparr>req_command := c\<rparr>) pcs platform ev"
    by (rule shell_requirement_cases) (simp add: assms(3))
  show ?thesis
    using amendment_cases[of env "effective_policy mgr req" pcs tools "req\<lparr>req_command := c\<rparr>" platform ev a] ev q assms(2) by simp
qed

section \<open>Models whose allow rules are ignored\<close>

lemma matched_rule_decision:
  assumes "m \<in> set (matched_rules_of env p resolve cmd)"
  shows "\<exists>r \<in> set (all_rules p). match_decision m = rule_decision r"
proof -
  have lookup: "\<exists>r \<in> set (all_rules p). match_decision m0 = rule_decision r"
    if "map_of (rules_by_program p) k = Some rs" "m0 \<in> set (List.map_filter (\<lambda>r. rule_matches r c) rs)" for k rs c m0
    using that by (force simp: all_rules_def map_filter_set rule_matches_def dest: map_of_SomeD)
  have "m \<in> set (or_default (match_exact_rules p cmd)) \<or> m \<in> set (match_host_executable_rules env p cmd)"
    using assms by (auto simp: matched_rules_of_def or_default_def split: option.splits list.splits if_splits)
  then show ?thesis
  proof
    assume "m \<in> set (or_default (match_exact_rules p cmd))"
    then show ?thesis
      by (auto simp: match_exact_rules_def or_default_def split: list.splits option.splits intro: lookup[OF sym])
  next
    assume h: "m \<in> set (match_host_executable_rules env p cmd)"
    then obtain k rs c m0 path where "map_of (rules_by_program p) k = Some rs"
        "m0 \<in> set (List.map_filter (\<lambda>r. rule_matches r c) rs)" "m = with_resolved_program path m0"
      by (auto simp: match_host_executable_rules_def split: list.splits option.splits if_splits) metis+
    moreover have "match_decision (with_resolved_program path m0) = match_decision m0" by (cases m0) auto
    ultimately show ?thesis using lookup by metis
  qed
qed

lemma multi_insert_values: "set (concat (map snd (multi_insert k v m))) = Set.insert v (set (concat (map snd m)))"
  by (induction k v m rule: multi_insert.induct) auto

lemma insert_pairs_values:
  "set (concat (map snd (foldl (\<lambda>acc (k, v). multi_insert k v acc) m kvs))) = set (concat (map snd m)) \<union> snd ` set kvs"
proof (induction kvs arbitrary: m)
  case (Cons kv kvs)
  then show ?case by (cases kv) (simp add: multi_insert_values del: set_concat)
qed simp

lemma ignored_allow_rules:
  "set (all_rules (current_for_prefix_rules mgr IgnoreForCyberModel)) = {r \<in> set (all_rules (current mgr)). rule_decision r \<noteq> Allow}"
proof -
  have "set (all_rules (current_for_prefix_rules mgr IgnoreForCyberModel)) =
      snd ` set (concat (map (\<lambda>(program, rs). map (Pair program) (filter (\<lambda>r. rule_decision r \<noteq> Allow) rs)) (rules_by_program (current mgr))))"
    by (simp add: all_rules_def current_for_prefix_rules_def policy_from_parts_def Let_def insert_pairs_values del: set_concat)
  also have "\<dots> = (\<Union>(program, rs) \<in> set (rules_by_program (current mgr)). {r \<in> set rs. rule_decision r \<noteq> Allow})"
    by (auto simp: image_iff) (metis case_prodI)
  also have "\<dots> = {r \<in> set (all_rules (current mgr)). rule_decision r \<noteq> Allow}"
    by (auto simp: all_rules_def) (metis snd_conv)
  finally show ?thesis .
qed

text \<open>
  Ignored allow rules grant nothing. For a model whose allow rules are ignored, with no policy of the
  environment, every other rule of the policy stays in force, and a request that is not asked about
  still runs in its sandbox and is offered no rule to save.
\<close>

theorem ignored_rules_grant_nothing:
  assumes "req_allow_prefix_rules req = IgnoreForCyberModel" and "req_environment_policy req = None"
  shows "set (all_rules (effective_policy mgr req)) = {r \<in> set (all_rules (current mgr)). rule_decision r \<noteq> Allow} \<and>
    (create_exec_approval_requirement_for_shell tools env mgr req configured_shell mode platform = Some (Skip b a) \<longrightarrow> \<not> b \<and> a = None)"
proof -
  have p: "effective_policy mgr req = current_for_prefix_rules mgr IgnoreForCyberModel"
    by (simp add: effective_policy_def current_for_environment_def assms)
  let ?pcs = "shell_policy_commands tools (req_command req) configured_shell mode platform"
  have "\<not> b \<and> a = None"
    if r: "create_exec_approval_requirement_for_shell tools env mgr req configured_shell mode platform = Some (Skip b a)"
  proof -
    from r obtain ev c where
      ev: "request_evaluation tools env mgr req ?pcs platform = Some ev"
      and q: "Skip b a = requirement_for_evaluation tools env (effective_policy mgr req) (req\<lparr>req_command := c\<rparr>) ?pcs platform ev"
      by (rule shell_requirement_cases) simp
    have a: "a = None"
      using q assms(1) by (auto simp: requirement_for_evaluation_def Let_def split: decision.splits option.splits if_splits)
    obtain cmd where cmd: "cmd \<in> set (parsed_commands ?pcs)"
      using shell_policy_commands_nonempty by (metis list.set_intros(1) neq_Nil_conv)
    have "match_decision m \<noteq> Allow" if "m \<in> set (matched_rules_of env (effective_policy mgr req) True cmd)" for m
      using matched_rule_decision[OF that] ignored_allow_rules[of mgr] unfolding p by auto
    then have "\<not> b" using skip_evaluation(2)[OF q[symmetric]] cmd by blast
    with a show ?thesis by simp
  qed
  then show ?thesis unfolding p using ignored_allow_rules by blast
qed

section \<open>Examples\<close>

definition sample_tools :: command_tools where
  "sample_tools = \<lparr>bash_sitter = (\<lambda>_. None), powershell = sample_ps_grammar, windows_tools = no_deps, try_join = (\<lambda>_. None)\<rparr>"

abbreviation git_status :: "rstr list" where "git_status \<equiv> [lit ''git'', lit ''status'']"

definition sample_request :: "ask_for_approval \<Rightarrow> allow_prefix_rules \<Rightarrow> unit exec_approval_request" where
  "sample_request approval allow =
     \<lparr>req_command = git_status, req_approval_policy = approval, req_permission_profile = Managed (ManagedRestricted [] None) NetworkRestricted,
      req_environment_policy = None, req_windows_sandbox_level = LevelDisabled, req_sandbox_permissions = RequireEscalated,
      req_prefix_rule = None, req_allow_prefix_rules = allow\<rparr>"

lemma sample_commands: "shell_policy_commands sample_tools git_status [] ZshFork Posix = \<lparr>parsed_commands = [git_status], parsed_origin = Generic\<rparr>"
  by (simp add: shell_policy_commands_def shell_approval_command_def commands_for_exec_policy_for_platform_def
      parse_shell_lc_plain_commands_def extract_bash_command_def)

lemma sample_policy_of: "effective_policy (manager_new p) (sample_request approval Honor) = p"
  by (simp add: effective_policy_def current_for_environment_def current_for_prefix_rules_def manager_new_def sample_request_def)

lemma forbid_policy_matches:
  "matched_rules_of sample_env forbid_policy True git_status = [PrefixRuleMatch git_status Forbidden None None]"
  by (simp add: matched_rules_of_def match_exact_rules_def policy_eval)

lemma sample_policy_matches:
  "matched_rules_of sample_env sample_policy True git_status = [PrefixRuleMatch git_status Allow None None]"
  by (simp add: matched_rules_of_def match_exact_rules_def policy_eval)

lemma empty_policy_matches: "matched_rules_of env policy_empty True (c # cs) = []"
  by (auto simp: matched_rules_of_def match_exact_rules_def match_host_executable_rules_def policy_empty_def policy_new_def policy_from_parts_def
      split: option.splits)

lemma forbidden_rule_is_final_witness:
  "\<exists>reason. create_exec_approval_requirement_for_shell sample_tools sample_env (manager_new forbid_policy)
     (sample_request OnRequest Honor) [] ZshFork Posix = Some (Refused reason)"
proof (rule forbidden_rule_is_final[of git_status _ _ _ _ _ "PrefixRuleMatch git_status Forbidden None None"])
  have c: "req_command (sample_request OnRequest Honor) = git_status" by (simp add: sample_request_def)
  show "git_status \<in> set (parsed_commands (shell_policy_commands sample_tools (req_command (sample_request OnRequest Honor)) [] ZshFork Posix))"
    unfolding c sample_commands by simp
  show "PrefixRuleMatch git_status Forbidden None None
      \<in> set (matched_rules_of sample_env (effective_policy (manager_new forbid_policy) (sample_request OnRequest Honor)) True git_status)"
    unfolding sample_policy_of forbid_policy_matches by simp
qed simp

lemma sample_skip:
  "create_exec_approval_requirement_for_shell sample_tools sample_env (manager_new sample_policy)
     (sample_request OnRequest Honor) [] ZshFork Posix = Some (Skip True None)"
proof -
  obtain r where r: "create_exec_approval_requirement_for_shell sample_tools sample_env (manager_new sample_policy)
     (sample_request OnRequest Honor) [] ZshFork Posix = Some r" using shell_requirement_exists by blast
  have c: "req_command (sample_request OnRequest Honor) = git_status" by (simp add: sample_request_def)
  from r obtain ev cmd where
    ev: "request_evaluation sample_tools sample_env (manager_new sample_policy) (sample_request OnRequest Honor)
      \<lparr>parsed_commands = [git_status], parsed_origin = Generic\<rparr> Posix = Some ev"
    and q: "r = requirement_for_evaluation sample_tools sample_env sample_policy (sample_request OnRequest Honor\<lparr>req_command := cmd\<rparr>)
      \<lparr>parsed_commands = [git_status], parsed_origin = Generic\<rparr> Posix ev"
    by (rule shell_requirement_cases) (simp add: c sample_commands sample_policy_of)
  have "ev = \<lparr>eval_decision = Allow, matched_rules = [PrefixRuleMatch git_status Allow None None]\<rparr>"
    using ev by (simp add: sample_policy_of check_multiple_with_options_def from_matches_Some_iff matches_with_fallback sample_policy_matches)
  then have "r = Skip True None"
    unfolding q by (simp add: requirement_for_evaluation_def Let_def matches_for_command_with_options_def sample_policy_matches
        try_derive_execpolicy_amendment_for_allow_rules_def sample_request_def)
  with r show ?thesis by simp
qed

lemma skip_is_justified_witness:
  "list_all (\<lambda>m. match_decision m = Allow) (matched_rules_of sample_env sample_policy True git_status)"
proof -
  have c: "req_command (sample_request OnRequest Honor) = git_status" by (simp add: sample_request_def)
  have "git_status \<in> set (parsed_commands (shell_policy_commands sample_tools (req_command (sample_request OnRequest Honor)) [] ZshFork Posix))"
    unfolding c sample_commands by simp
  from skip_is_justified[OF sample_skip this refl] show ?thesis unfolding sample_policy_of list_all_iff by blast
qed

lemma git_not_dangerous: "dangerous_command_match_for_platform sitter deps git_status Posix = None"
proof -
  have k: "executable_name_lookup_key Posix (lit ''git'') = Some (lit ''git'')"
    by (simp add: executable_name_lookup_key_def last_piece_def lit_def)
  have "lit ''git'' \<notin> {lit ''rm'', lit ''sudo'', lit ''env'', lit ''trap''}" by (simp add: lit_def)
  then show ?thesis
    unfolding dangerous_command_match_for_platform_def
    by (subst dangerous_command_match_with_depth.simps)
      (simp add: dangerous_command_match_for_exec.simps k parse_shell_lc_literal_commands_def extract_bash_command_def MAX_DANGEROUS_COMMAND_WRAPPER_DEPTH_def)
qed

lemma sample_asks:
  "create_exec_approval_requirement_for_shell sample_tools sample_env (manager_new policy_empty)
     (sample_request OnRequest Honor) [] ZshFork Posix = Some (NeedsApproval None (Some git_status))"
proof -
  obtain r where r: "create_exec_approval_requirement_for_shell sample_tools sample_env (manager_new policy_empty)
     (sample_request OnRequest Honor) [] ZshFork Posix = Some r" using shell_requirement_exists by blast
  have c: "req_command (sample_request OnRequest Honor) = git_status" by (simp add: sample_request_def)
  from r obtain ev cmd where
    ev: "request_evaluation sample_tools sample_env (manager_new policy_empty) (sample_request OnRequest Honor)
      \<lparr>parsed_commands = [git_status], parsed_origin = Generic\<rparr> Posix = Some ev"
    and q: "r = requirement_for_evaluation sample_tools sample_env policy_empty (sample_request OnRequest Honor\<lparr>req_command := cmd\<rparr>)
      \<lparr>parsed_commands = [git_status], parsed_origin = Generic\<rparr> Posix ev"
    by (rule shell_requirement_cases) (simp add: c sample_commands sample_policy_of)
  have "exec_policy_fallback sample_tools (sample_request OnRequest Honor) Generic Posix git_status = Prompt"
    by (simp add: exec_policy_fallback_def render_decision_for_unmatched_command_for_platform_def
        dangerous_command_match_for_origin_def git_not_dangerous sample_request_def requests_sandbox_override_def)
  then have "ev = \<lparr>eval_decision = Prompt, matched_rules = [HeuristicsRuleMatch git_status Prompt]\<rparr>"
    using ev by (simp add: sample_policy_of check_multiple_with_options_def from_matches_Some_iff matches_with_fallback empty_policy_matches)
  then have "r = NeedsApproval None (Some git_status)"
    unfolding q by (simp add: requirement_for_evaluation_def Let_def derive_prompt_reason_def max_by_key_def List.map_filter_def
        derive_requested_execpolicy_amendment_from_prefix_rule_def try_derive_execpolicy_amendment_for_prompt_rules_def sample_request_def)
  with r show ?thesis by simp
qed

lemma asks_only_when_permitted_witness: "req_approval_policy (sample_request OnRequest Honor) \<noteq> Never"
  using asks_only_when_permitted[OF sample_asks refl] by blast

lemma amendment_is_justified_witness:
  "git_status \<in> set (parsed_commands (shell_policy_commands sample_tools git_status [] ZshFork Posix)) \<and>
   matched_rules_of sample_env policy_empty True git_status = []"
proof -
  have c: "req_command (sample_request OnRequest Honor) = git_status" "req_prefix_rule (sample_request OnRequest Honor) = None"
    by (simp_all add: sample_request_def)
  show ?thesis
    using amendment_is_justified[OF sample_asks proposed_amendment_simps(2) refl] unfolding sample_policy_of c by simp
qed

lemma ignored_rules_grant_nothing_witness:
  "set (all_rules (effective_policy (manager_new sample_policy) (sample_request OnRequest IgnoreForCyberModel))) = {}"
proof -
  have "req_allow_prefix_rules (sample_request OnRequest IgnoreForCyberModel) = IgnoreForCyberModel"
    "req_environment_policy (sample_request OnRequest IgnoreForCyberModel) = None" by (simp_all add: sample_request_def)
  from ignored_rules_grant_nothing[OF this, of "manager_new sample_policy"] show ?thesis
    by (auto simp: manager_new_def all_rules_def sample_policy_def policy_new_def policy_from_parts_def sample_rule_def)
qed

end
