(* ===== verification/Config_Layers.thy ===== *)
theory Config_Layers
  imports Absolute_Path "HOL-Library.Sublist"
begin

text \<open>
  The configuration layers of \<open>config/src/config_layer_source.rs\<close> and \<open>config/src/state.rs\<close>: where a
  layer comes from, its precedence, and the stack of layers the session's configuration and policy
  files are taken from.

  TOML values, their hashes and the checks other modules make of them are arguments (\<open>toml_tools\<close>), as
  is the type of the requirements apart from the part that the policy uses.

  The lemmas give: a stack is sorted by precedence with its project layers from the root down, every
  operation that exchanges user layers keeps that, and exchanging a stack's user layers for its own
  changes nothing.
\<close>

section \<open>Sources\<close>

datatype config_layer_source =
    PackagedDefaults absolute_path
  | Mdm rstr rstr
  | SystemSource absolute_path
  | EnterpriseManaged rstr rstr
  | UserSource absolute_path "rstr option"
  | ProjectSource absolute_path
  | SessionFlags
  | LegacyManagedConfigTomlFromFile absolute_path
  | LegacyManagedConfigTomlFromMdm

fun precedence :: "config_layer_source \<Rightarrow> int" where
  "precedence (PackagedDefaults _) = -10"
| "precedence (Mdm _ _) = 0"
| "precedence (SystemSource _) = 10"
| "precedence (EnterpriseManaged _ _) = 15"
| "precedence (UserSource _ profile) = (if profile \<noteq> None then 21 else 20)"
| "precedence (ProjectSource _) = 25"
| "precedence SessionFlags = 30"
| "precedence (LegacyManagedConfigTomlFromFile _) = 40"
| "precedence LegacyManagedConfigTomlFromMdm = 50"

fun format_config_layer_source :: "rstr \<Rightarrow> config_layer_source \<Rightarrow> rstr" where
  "format_config_layer_source _ (PackagedDefaults file) = lit ''packaged defaults ('' @ render_path file @ lit '')''"
| "format_config_layer_source _ (Mdm domain key) = lit ''MDM ('' @ domain @ lit '':'' @ key @ lit '')''"
| "format_config_layer_source _ (SystemSource file) = lit ''system ('' @ render_path file @ lit '')''"
| "format_config_layer_source _ (EnterpriseManaged ident name) = lit ''enterprise-managed ('' @ name @ lit '', '' @ ident @ lit '')''"
| "format_config_layer_source _ (UserSource file _) = lit ''user ('' @ render_path file @ lit '')''"
| "format_config_layer_source config_toml_file (ProjectSource dot_codex_folder) =
     lit ''project ('' @ render_path dot_codex_folder @ lit ''/'' @ config_toml_file @ lit '')''"
| "format_config_layer_source _ SessionFlags = lit ''session-flags''"
| "format_config_layer_source _ (LegacyManagedConfigTomlFromFile file) =
     lit ''legacy managed_config.toml ('' @ render_path file @ lit '')''"
| "format_config_layer_source _ LegacyManagedConfigTomlFromMdm = lit ''legacy managed_config.toml (MDM)''"

text \<open>\<open>matches!(layer.name, ConfigLayerSource::User { .. })\<close>.\<close>

fun is_user_source :: "config_layer_source \<Rightarrow> bool" where
  "is_user_source (UserSource _ _) = True"
| "is_user_source _ = False"

fun is_user_file :: "absolute_path \<Rightarrow> config_layer_source \<Rightarrow> bool" where
  "is_user_file config_toml (UserSource file _) = (file = config_toml)"
| "is_user_file _ _ = False"

fun project_folder :: "config_layer_source \<Rightarrow> absolute_path option" where
  "project_folder (ProjectSource dot_codex_folder) = Some dot_codex_folder"
| "project_folder _ = None"

section \<open>Layers\<close>

record raw_toml_layer =
  raw_contents :: rstr
  raw_base_dir :: absolute_path

record 'c config_layer_entry =
  layer_name :: config_layer_source
  layer_config :: 'c
  layer_version :: rstr
  disabled_reason :: "rstr option"
  raw_toml :: "raw_toml_layer option"
  hooks_config_folder_override :: "absolute_path option"

record 'c toml_tools =
  version_for_toml :: "'c \<Rightarrow> rstr"
  validate_shell_environment_policy_filter_config :: "'c \<Rightarrow> (unit, rstr) result"

definition layer_new :: "'c toml_tools \<Rightarrow> config_layer_source \<Rightarrow> 'c \<Rightarrow> 'c config_layer_entry" where
  "layer_new toml name config =
     \<lparr>layer_name = name, layer_config = config, layer_version = version_for_toml toml config, disabled_reason = None,
      raw_toml = None, hooks_config_folder_override = None\<rparr>"

definition layer_new_with_raw_toml ::
    "'c toml_tools \<Rightarrow> config_layer_source \<Rightarrow> 'c \<Rightarrow> rstr \<Rightarrow> absolute_path \<Rightarrow> 'c config_layer_entry" where
  "layer_new_with_raw_toml toml name config raw base_dir =
     (layer_new toml name config)\<lparr>raw_toml := Some \<lparr>raw_contents = raw, raw_base_dir = base_dir\<rparr>\<rparr>"

definition layer_new_disabled :: "'c toml_tools \<Rightarrow> config_layer_source \<Rightarrow> 'c \<Rightarrow> rstr \<Rightarrow> 'c config_layer_entry" where
  "layer_new_disabled toml name config reason = (layer_new toml name config)\<lparr>disabled_reason := Some reason\<rparr>"

definition is_disabled :: "'c config_layer_entry \<Rightarrow> bool" where
  "is_disabled layer \<longleftrightarrow> disabled_reason layer \<noteq> None"

text \<open>\<open>AbsolutePathBuf::parent\<close>.\<close>

definition parent_path :: "absolute_path \<Rightarrow> absolute_path option" where
  "parent_path p = (if p = [] then None else Some (butlast p))"

definition config_folder :: "'c config_layer_entry \<Rightarrow> absolute_path option" where
  "config_folder layer =
     (case layer_name layer of
        SystemSource file \<Rightarrow> parent_path file
      | UserSource file _ \<Rightarrow> parent_path file
      | ProjectSource dot_codex_folder \<Rightarrow> Some dot_codex_folder
      | _ \<Rightarrow> None)"

definition hooks_config_folder :: "'c config_layer_entry \<Rightarrow> absolute_path option" where
  "hooks_config_folder layer =
     (case hooks_config_folder_override layer of Some f \<Rightarrow> Some f | None \<Rightarrow> config_folder layer)"

section \<open>The stack\<close>

record ('c, 'r) config_layer_stack =
  model_provider_requirements :: "'c option"
  layers :: "'c config_layer_entry list"
  requirements :: 'r
  ignore_user_and_project_exec_policy_rules :: bool
  startup_warnings :: "rstr list option"

datatype config_error = InvalidData rstr

fun validate_enabled_config_layers :: "'c toml_tools \<Rightarrow> rstr \<Rightarrow> 'c config_layer_entry list \<Rightarrow> (unit, config_error) result" where
  "validate_enabled_config_layers toml config_toml_file [] = Ok ()"
| "validate_enabled_config_layers toml config_toml_file (layer # ls) =
     (if is_disabled layer then validate_enabled_config_layers toml config_toml_file ls
      else case validate_shell_environment_policy_filter_config toml (layer_config layer) of
        Err e \<Rightarrow> Err (InvalidData (lit ''invalid shell environment policy in ''
          @ format_config_layer_source config_toml_file (layer_name layer) @ lit '': '' @ e))
      | Ok _ \<Rightarrow> validate_enabled_config_layers toml config_toml_file ls)"

text \<open>\<open>Path::ancestors\<close>: the path itself first.\<close>

definition ancestors :: "absolute_path \<Rightarrow> absolute_path list" where
  "ancestors p = rev (prefixes p)"

fun verify_project_ordering :: "absolute_path option \<Rightarrow> config_layer_source list \<Rightarrow> (unit, config_error) result" where
  "verify_project_ordering previous [] = Ok ()"
| "verify_project_ordering previous (name # names) =
     (case project_folder name of
        None \<Rightarrow> verify_project_ordering previous names
      | Some folder \<Rightarrow>
          (case previous of
             None \<Rightarrow> verify_project_ordering (Some folder) names
           | Some prev \<Rightarrow>
               (case parent_path prev of
                  None \<Rightarrow> Err (InvalidData (lit ''project layer has no parent directory''))
                | Some parent \<Rightarrow>
                    (if prev = folder \<or> \<not> list_ex (\<lambda>ancestor. ancestor = parent) (ancestors folder)
                     then Err (InvalidData (lit ''project layers are not ordered from root to cwd''))
                     else verify_project_ordering (Some folder) names))))"

definition verify_layer_ordering :: "'c config_layer_entry list \<Rightarrow> (unit, config_error) result" where
  "verify_layer_ordering ls =
     (if \<not> sorted (map (precedence \<circ> layer_name) ls)
      then Err (InvalidData (lit ''config layers are not in correct precedence order''))
      else verify_project_ordering None (map layer_name ls))"

text \<open>The provider definitions of the requirements, as a value or an error, come from another module.\<close>

definition stack_new ::
    "'c toml_tools \<Rightarrow> rstr \<Rightarrow> ('r \<Rightarrow> ('c, config_error) result) \<Rightarrow> 'c config_layer_entry list \<Rightarrow> 'r \<Rightarrow>
     (('c, 'r) config_layer_stack, config_error) result" where
  "stack_new toml config_toml_file to_config ls reqs =
     bind_result (validate_enabled_config_layers toml config_toml_file ls) (\<lambda>_.
     bind_result (verify_layer_ordering ls) (\<lambda>_.
     bind_result (to_config reqs) (\<lambda>providers.
       Ok \<lparr>model_provider_requirements = Some providers, layers = ls, requirements = reqs,
           ignore_user_and_project_exec_policy_rules = False, startup_warnings = None\<rparr>)))"

definition with_user_and_project_exec_policy_rules_ignored ::
    "bool \<Rightarrow> ('c, 'r) config_layer_stack \<Rightarrow> ('c, 'r) config_layer_stack" where
  "with_user_and_project_exec_policy_rules_ignored ignore stack =
     stack\<lparr>ignore_user_and_project_exec_policy_rules := ignore\<rparr>"

definition with_startup_warnings :: "rstr list \<Rightarrow> ('c, 'r) config_layer_stack \<Rightarrow> ('c, 'r) config_layer_stack" where
  "with_startup_warnings warnings stack = stack\<lparr>startup_warnings := Some warnings\<rparr>"

definition get_active_user_layer :: "('c, 'r) config_layer_stack \<Rightarrow> 'c config_layer_entry option" where
  "get_active_user_layer stack = find (\<lambda>layer. is_user_source (layer_name layer)) (rev (layers stack))"

definition get_user_config_file :: "('c, 'r) config_layer_stack \<Rightarrow> absolute_path option" where
  "get_user_config_file stack =
     (case get_active_user_layer stack of
        None \<Rightarrow> None
      | Some layer \<Rightarrow> (case layer_name layer of UserSource file _ \<Rightarrow> Some file | _ \<Rightarrow> None))"

text \<open>\<open>ProfileV2Name::from_str\<close>.\<close>

definition parse_profile_v2_name :: "rstr \<Rightarrow> rstr option" where
  "parse_profile_v2_name value =
     (if value = [] \<or> \<not> list_all (\<lambda>c. is_ascii_alphabetic c \<or> is_ascii_digit c \<or> c = 95 \<or> c = 45) value
      then None else Some value)"

text \<open>
  Inserting by precedence: before the first layer of higher precedence, else at the end.
\<close>

fun insert_layer :: "'c config_layer_entry \<Rightarrow> 'c config_layer_entry list \<Rightarrow> 'c config_layer_entry list" where
  "insert_layer user_layer [] = [user_layer]"
| "insert_layer user_layer (layer # ls) =
     (if precedence (layer_name layer) > precedence (layer_name user_layer) then user_layer # layer # ls
      else layer # insert_layer user_layer ls)"

fun remove_user_file :: "absolute_path \<Rightarrow> 'c config_layer_entry list \<Rightarrow> 'c config_layer_entry list" where
  "remove_user_file config_toml [] = []"
| "remove_user_file config_toml (layer # ls) =
     (if is_user_file config_toml (layer_name layer) then ls else layer # remove_user_file config_toml ls)"

definition with_user_config_profile ::
    "'c toml_tools \<Rightarrow> rstr \<Rightarrow> absolute_path \<Rightarrow> rstr option \<Rightarrow> 'c \<Rightarrow> ('c, 'r) config_layer_stack \<Rightarrow>
     (('c, 'r) config_layer_stack, config_error) result" where
  "with_user_config_profile toml config_toml_file config_toml profile user_config stack =
     (let user_layer = layer_new toml (UserSource config_toml profile) user_config in
      bind_result (validate_enabled_config_layers toml config_toml_file [user_layer]) (\<lambda>_.
        Ok (stack\<lparr>layers := insert_layer user_layer (remove_user_file config_toml (layers stack))\<rparr>)))"

definition user_profile_of :: "absolute_path \<Rightarrow> 'c config_layer_entry \<Rightarrow> rstr option" where
  "user_profile_of config_toml layer =
     (case layer_name layer of
        UserSource file profile \<Rightarrow>
          (if file = config_toml then Option.bind profile parse_profile_v2_name else None)
      | _ \<Rightarrow> None)"

definition with_user_config ::
    "'c toml_tools \<Rightarrow> rstr \<Rightarrow> absolute_path \<Rightarrow> 'c \<Rightarrow> ('c, 'r) config_layer_stack \<Rightarrow>
     (('c, 'r) config_layer_stack, config_error) result" where
  "with_user_config toml config_toml_file config_toml user_config stack =
     with_user_config_profile toml config_toml_file config_toml
       (find_map (user_profile_of config_toml) (layers stack)) user_config stack"

definition with_user_layer_from :: "('c, 'r) config_layer_stack \<Rightarrow> ('c, 'r) config_layer_stack \<Rightarrow> ('c, 'r) config_layer_stack" where
  "with_user_layer_from other stack =
     (let user_layers = filter (\<lambda>layer. is_user_source (layer_name layer)) (layers other);
          others = filter (\<lambda>layer. \<not> is_user_source (layer_name layer)) (layers stack)
      in stack\<lparr>layers := fold insert_layer user_layers others\<rparr>)"

definition all_layers_low_to_high :: "('c, 'r) config_layer_stack \<Rightarrow> 'c config_layer_entry list" where
  "all_layers_low_to_high stack = layers stack"

definition layers_low_to_high :: "('c, 'r) config_layer_stack \<Rightarrow> 'c config_layer_entry list" where
  "layers_low_to_high stack = filter (\<lambda>layer. \<not> is_disabled layer) (all_layers_low_to_high stack)"

definition layers_high_to_low :: "('c, 'r) config_layer_stack \<Rightarrow> 'c config_layer_entry list" where
  "layers_high_to_low stack = rev (layers_low_to_high stack)"

section \<open>Inserting by precedence\<close>

abbreviation layer_precedence :: "'c config_layer_entry \<Rightarrow> int" where
  "layer_precedence layer \<equiv> precedence (layer_name layer)"

abbreviation by_precedence :: "'c config_layer_entry list \<Rightarrow> bool" where
  "by_precedence ls \<equiv> sorted (map (precedence \<circ> layer_name) ls)"

abbreviation is_user_layer :: "'c config_layer_entry \<Rightarrow> bool" where
  "is_user_layer layer \<equiv> is_user_source (layer_name layer)"

lemma insert_layer_set [simp]: "set (insert_layer x ls) = insert x (set ls)"
  by (induction ls) auto

lemma insert_layer_sorted: "by_precedence ls \<Longrightarrow> by_precedence (insert_layer x ls)"
  by (induction ls) auto

lemma fold_insert_sorted: "by_precedence ls \<Longrightarrow> by_precedence (fold insert_layer us ls)"
  by (induction us arbitrary: ls) (auto simp: insert_layer_sorted)

lemma insert_layer_filter_out: "\<not> P x \<Longrightarrow> filter P (insert_layer x ls) = filter P ls"
  by (induction ls) auto

lemma fold_insert_filter_out: "\<forall>u \<in> set us. \<not> P u \<Longrightarrow> filter P (fold insert_layer us ls) = filter P ls"
  by (induction us arbitrary: ls) (auto simp: insert_layer_filter_out)

lemma insert_layer_last: "\<forall>l \<in> set ls. layer_precedence l \<le> layer_precedence x \<Longrightarrow> insert_layer x ls = ls @ [x]"
  by (induction ls) auto

lemma insert_layer_first: "\<forall>l \<in> set ls. layer_precedence l > layer_precedence x \<Longrightarrow> insert_layer x ls = x # ls"
  by (cases ls) auto

lemma insert_layer_filter: "by_precedence ls \<Longrightarrow> P x \<Longrightarrow> filter P (insert_layer x ls) = insert_layer x (filter P ls)"
  by (induction ls) (auto intro!: insert_layer_first[symmetric] dest: less_le_trans)

lemma fold_insert_filter:
  "by_precedence ls \<Longrightarrow> \<forall>u \<in> set us. P u \<Longrightarrow> filter P (fold insert_layer us ls) = fold insert_layer us (filter P ls)"
  by (induction us arbitrary: ls) (auto simp: insert_layer_filter insert_layer_sorted)

lemma fold_insert_append: "by_precedence (ls @ us) \<Longrightarrow> fold insert_layer us ls = ls @ us"
proof (induction us arbitrary: ls)
  case (Cons u us)
  then have "insert_layer u ls = ls @ [u]" by (intro insert_layer_last) (auto simp: sorted_append)
  then show ?case using Cons.IH[of "ls @ [u]"] Cons.prems by simp
qed simp

lemma remove_user_file_filter: "filter (Not \<circ> is_user_layer) (remove_user_file f ls) = filter (Not \<circ> is_user_layer) ls"
proof (induction ls)
  case (Cons l ls)
  then show ?case by (cases "layer_name l") auto
qed simp

lemma remove_user_file_sorted: "by_precedence ls \<Longrightarrow> by_precedence (remove_user_file f ls)"
proof (induction ls)
  case (Cons l ls)
  have "set (remove_user_file f ls) \<subseteq> set ls" by (induction ls) auto
  then show ?case using Cons by auto
qed simp

section \<open>The order of project layers\<close>

definition next_project :: "absolute_path \<Rightarrow> absolute_path \<Rightarrow> bool" where
  "next_project prev folder \<longleftrightarrow> prev \<noteq> [] \<and> prev \<noteq> folder \<and> prefix (butlast prev) folder"

definition project_folders :: "'c config_layer_entry list \<Rightarrow> absolute_path list" where
  "project_folders ls = List.map_filter (project_folder \<circ> layer_name) ls"

lemma ancestors_iff: "list_ex (\<lambda>a. a = x) (ancestors folder) \<longleftrightarrow> prefix x folder"
  by (auto simp: ancestors_def list_ex_iff)

lemma verify_project_ordering_Ok:
  "verify_project_ordering prev (map layer_name ls) = Ok () \<longleftrightarrow>
     successively next_project ((case prev of None \<Rightarrow> [] | Some p \<Rightarrow> [p]) @ project_folders ls)"
proof (induction ls arbitrary: prev)
  case (Cons l ls)
  show ?case
    by (cases "project_folder (layer_name l)"; cases prev)
      (auto simp: Cons.IH project_folders_def List.map_filter_simps ancestors_iff next_project_def parent_path_def)
qed (auto simp: project_folders_def List.map_filter_simps split: option.splits)

lemma project_folders_filter: "project_folders (filter (Not \<circ> is_user_layer) ls) = project_folders ls"
proof (induction ls)
  case (Cons l ls)
  then show ?case by (cases "layer_name l") (auto simp: project_folders_def List.map_filter_simps)
qed (simp add: project_folders_def List.map_filter_simps)

text \<open>What a stack promises of its layers.\<close>

definition stack_ordered :: "('c, 'r) config_layer_stack \<Rightarrow> bool" where
  "stack_ordered stack \<longleftrightarrow> by_precedence (layers stack) \<and> successively next_project (project_folders (layers stack))"

lemma verify_layer_ordering_Ok:
  "verify_layer_ordering ls = Ok () \<longleftrightarrow> by_precedence ls \<and> successively next_project (project_folders ls)"
  using verify_project_ordering_Ok[of None ls] by (simp add: verify_layer_ordering_def)

text \<open>Stacks as the program makes them.\<close>

inductive built_stack :: "'c toml_tools \<Rightarrow> ('c, 'r) config_layer_stack \<Rightarrow> bool" for toml where
  new: "stack_new toml file to_config ls reqs = Ok stack \<Longrightarrow> built_stack toml stack"
| ignored: "built_stack toml stack \<Longrightarrow> built_stack toml (with_user_and_project_exec_policy_rules_ignored ignore stack)"
| warnings: "built_stack toml stack \<Longrightarrow> built_stack toml (with_startup_warnings ws stack)"
| user_config: "built_stack toml stack \<Longrightarrow>
    with_user_config_profile toml file config_toml profile user_config stack = Ok stack' \<Longrightarrow> built_stack toml stack'"
| user_layer: "built_stack toml stack \<Longrightarrow> built_stack toml other \<Longrightarrow> built_stack toml (with_user_layer_from other stack)"

lemma stack_ordered_user_layers:
  assumes "stack_ordered stack" and "by_precedence ls"
    and "filter (Not \<circ> is_user_layer) ls = filter (Not \<circ> is_user_layer) (layers stack)"
  shows "stack_ordered (stack\<lparr>layers := ls\<rparr>)"
  using assms project_folders_filter[of ls] project_folders_filter[of "layers stack"] by (simp add: stack_ordered_def)

lemma with_user_config_profile_Ok:
  assumes "with_user_config_profile toml file config_toml profile user_config stack = Ok stack'"
  shows "stack' = stack\<lparr>layers := insert_layer (layer_new toml (UserSource config_toml profile) user_config)
    (remove_user_file config_toml (layers stack))\<rparr>"
  using assms by (simp add: with_user_config_profile_def Let_def)

lemma with_user_layer_from_others:
  "filter (Not \<circ> is_user_layer) (layers (with_user_layer_from other stack)) = filter (Not \<circ> is_user_layer) (layers stack)"
  by (simp add: with_user_layer_from_def Let_def fold_insert_filter_out comp_def)

lemma built_stack_ordered: "built_stack toml stack \<Longrightarrow> stack_ordered stack"
proof (induction rule: built_stack.induct)
  case (new cf to_config ls reqs stack)
  then have "verify_layer_ordering ls = Ok ()" "layers stack = ls" by (auto simp: stack_new_def)
  then show ?case by (simp add: verify_layer_ordering_Ok stack_ordered_def)
next
  case (user_config stack cf config_toml profile user_config stack')
  show ?case unfolding with_user_config_profile_Ok[OF user_config.hyps(2)]
    using user_config.IH by (intro stack_ordered_user_layers)
      (auto simp: stack_ordered_def insert_layer_sorted remove_user_file_sorted insert_layer_filter_out
        remove_user_file_filter layer_new_def)
next
  case (user_layer stack other)
  have "with_user_layer_from other stack = stack\<lparr>layers := layers (with_user_layer_from other stack)\<rparr>"
    by (simp add: with_user_layer_from_def Let_def)
  moreover have "by_precedence (layers (with_user_layer_from other stack))"
    using user_layer.IH by (simp add: with_user_layer_from_def Let_def stack_ordered_def fold_insert_sorted sorted_filter)
  ultimately show ?case
    using stack_ordered_user_layers[OF user_layer.IH(1) _ with_user_layer_from_others] by metis
qed (simp_all add: with_user_and_project_exec_policy_rules_ignored_def with_startup_warnings_def stack_ordered_def)

text \<open>
  The layers of every stack the program builds are sorted by precedence, and its project layers lead
  from the root down: each lies below the directory that holds the one before it, and differs from it.
  This holds through every exchange of user layers.
\<close>

theorem layers_stay_ordered:
  assumes "built_stack toml stack"
  shows "sorted (map (precedence \<circ> layer_name) (layers stack)) \<and>
    successively next_project (project_folders (layers stack))"
  using built_stack_ordered[OF assms] by (simp add: stack_ordered_def)

section \<open>Exchanging user layers\<close>

text \<open>In a sorted stack the user layers are together.\<close>

lemma user_precedence: "is_user_source name \<longleftrightarrow> 20 \<le> precedence name \<and> precedence name \<le> 21"
  by (cases name) auto

lemma sorted_middle:
  assumes "by_precedence ls"
  shows "\<exists>low users high. ls = low @ users @ high \<and> (\<forall>l \<in> set low. layer_precedence l < 20) \<and>
    (\<forall>l \<in> set users. is_user_layer l) \<and> (\<forall>l \<in> set high. layer_precedence l > 21)"
  using assms
proof (induction ls)
  case (Cons l ls)
  then obtain low users high where ls: "ls = low @ users @ high"
    and m: "\<forall>l \<in> set low. layer_precedence l < 20" "\<forall>l \<in> set users. is_user_layer l" "\<forall>l \<in> set high. layer_precedence l > 21"
    by auto
  have le: "\<forall>x \<in> set low \<union> set users. layer_precedence l \<le> layer_precedence x" using Cons.prems by (auto simp: ls)
  consider "layer_precedence l < 20" | "is_user_layer l" | "layer_precedence l > 21" by (fastforce simp: user_precedence)
  then show ?case
  proof cases
    case 1
    then show ?thesis using m ls by (intro exI[of _ "l # low"] exI[of _ users] exI[of _ high]) auto
  next
    case 2
    then have "low = []" using m(1) le by (cases low) (auto simp: user_precedence)
    then show ?thesis using 2 m ls by (intro exI[of _ "[]"] exI[of _ "l # users"] exI[of _ high]) auto
  next
    case 3
    then have "low = []" using m(1) le by (cases low) auto
    moreover have "users = []" using 3 m(2) le by (cases users) (auto simp: user_precedence)
    ultimately show ?thesis using 3 m ls by (intro exI[of _ "[]"] exI[of _ "[]"] exI[of _ "l # high"]) auto
  qed
qed simp

lemma insert_layer_middle:
  "\<forall>l \<in> set low. layer_precedence l \<le> layer_precedence x \<Longrightarrow> insert_layer x (low @ ls) = low @ insert_layer x ls"
  by (induction low) auto

lemma insert_layer_below:
  "\<forall>l \<in> set high. layer_precedence l > layer_precedence x \<Longrightarrow> insert_layer x (ls @ high) = insert_layer x ls @ high"
  by (induction ls) (auto simp: insert_layer_first)

lemma fold_insert_middle:
  assumes "\<forall>u \<in> set us. is_user_layer u" and "\<forall>l \<in> set low. layer_precedence l < 20" and "\<forall>l \<in> set high. layer_precedence l > 21"
  shows "fold insert_layer us (low @ ls @ high) = low @ fold insert_layer us ls @ high"
  using assms(1)
proof (induction us arbitrary: ls)
  case (Cons u us)
  then have "20 \<le> layer_precedence u" "layer_precedence u \<le> 21" by (auto simp: user_precedence)
  with assms(2,3) have "insert_layer u (low @ ls @ high) = low @ insert_layer u ls @ high"
    by (subst insert_layer_middle) (force, subst insert_layer_below, force, simp)
  then show ?case using Cons by simp
qed simp

lemma filter_middle:
  assumes "\<forall>l \<in> set low. layer_precedence l < 20" and "\<forall>l \<in> set users. is_user_layer l" and "\<forall>l \<in> set high. layer_precedence l > 21"
  shows "filter is_user_layer (low @ users @ high) = users"
    and "filter (\<lambda>l. \<not> is_user_layer l) (low @ users @ high) = low @ high"
proof -
  have "filter is_user_layer low = []" "filter is_user_layer high = []" "filter is_user_layer users = users"
    "filter (\<lambda>l. \<not> is_user_layer l) low = low" "filter (\<lambda>l. \<not> is_user_layer l) high = high"
    "filter (\<lambda>l. \<not> is_user_layer l) users = []"
    using assms by (force simp: user_precedence filter_empty_conv filter_id_conv)+
  then show "filter is_user_layer (low @ users @ high) = users"
    and "filter (\<lambda>l. \<not> is_user_layer l) (low @ users @ high) = low @ high" by simp_all
qed

text \<open>
  Exchanging user layers touches nothing else. Taking them from another stack leaves exactly the
  user layers of that stack, in its order, and the other layers of this one, in theirs; taking them
  from the stack itself changes nothing.
\<close>

theorem user_layers_exchanged:
  assumes "built_stack toml stack" and "built_stack toml other"
  shows "filter is_user_layer (layers (with_user_layer_from other stack)) = filter is_user_layer (layers other) \<and>
    filter (\<lambda>l. \<not> is_user_layer l) (layers (with_user_layer_from other stack)) = filter (\<lambda>l. \<not> is_user_layer l) (layers stack) \<and>
    with_user_layer_from stack stack = stack"
proof (intro conjI)
  have o: "by_precedence (layers stack)" "by_precedence (layers other)"
    using assms built_stack_ordered by (auto simp: stack_ordered_def)
  show "filter (\<lambda>l. \<not> is_user_layer l) (layers (with_user_layer_from other stack)) = filter (\<lambda>l. \<not> is_user_layer l) (layers stack)"
    using with_user_layer_from_others[of other stack] by (simp add: comp_def)
  show "filter is_user_layer (layers (with_user_layer_from other stack)) = filter is_user_layer (layers other)"
    using o by (simp add: with_user_layer_from_def Let_def fold_insert_filter sorted_filter)
      (simp add: fold_insert_append[of "[]", simplified] sorted_filter filter_False)
  obtain low users high where ls: "layers stack = low @ users @ high"
    and m: "\<forall>l \<in> set low. layer_precedence l < 20" "\<forall>l \<in> set users. is_user_layer l" "\<forall>l \<in> set high. layer_precedence l > 21"
    using sorted_middle[OF o(1)] by blast
  have "fold insert_layer users (low @ [] @ high) = low @ fold insert_layer users [] @ high"
    by (rule fold_insert_middle[OF m(2,1,3)])
  also have "fold insert_layer users [] = users"
    using o(1) fold_insert_append[of "[]" users] by (simp add: ls sorted_append)
  finally show "with_user_layer_from stack stack = stack"
    by (simp add: with_user_layer_from_def Let_def ls filter_middle[OF m, simplified])
qed

section \<open>A sample stack\<close>

definition sample_toml :: "unit toml_tools" where
  "sample_toml = \<lparr>version_for_toml = (\<lambda>_. []), validate_shell_environment_policy_filter_config = (\<lambda>_. Ok ())\<rparr>"

definition sample_layers :: "unit config_layer_entry list" where
  "sample_layers =
     [layer_new sample_toml (SystemSource [lit ''etc'', lit ''codex'', lit ''config.toml'']) (),
      layer_new sample_toml (UserSource [lit ''home'', lit ''.codex'', lit ''config.toml''] None) (),
      layer_new sample_toml (ProjectSource [lit ''w'', lit ''.codex'']) (),
      layer_new sample_toml (ProjectSource [lit ''w'', lit ''a'', lit ''.codex'']) ()]"

definition sample_stack :: "(unit, unit) config_layer_stack" where
  "sample_stack = \<lparr>model_provider_requirements = Some (), layers = sample_layers, requirements = (),
     ignore_user_and_project_exec_policy_rules = False, startup_warnings = None\<rparr>"

lemma sample_stack_built: "built_stack sample_toml sample_stack"
proof (rule built_stack.new)
  show "stack_new sample_toml (lit ''config.toml'') (\<lambda>_. Ok ()) sample_layers () = Ok sample_stack"
    by (simp add: stack_new_def sample_layers_def sample_toml_def is_disabled_def layer_new_def verify_layer_ordering_def
        parent_path_def ancestors_def sample_stack_def lit_def)
qed

lemma layers_stay_ordered_witness:
  "sorted (map (precedence \<circ> layer_name) sample_layers) \<and>
   next_project [lit ''w'', lit ''.codex''] [lit ''w'', lit ''a'', lit ''.codex'']"
  using layers_stay_ordered[OF sample_stack_built]
  by (simp add: sample_stack_def sample_layers_def project_folders_def List.map_filter_simps layer_new_def)

lemma user_layers_exchanged_witness: "with_user_layer_from sample_stack sample_stack = sample_stack"
  using user_layers_exchanged[OF sample_stack_built sample_stack_built] by simp

end
