(* ===== verification/Requirements_Policy.thy ===== *)
theory Requirements_Policy
  imports Exec_Policy_Parser
begin

text \<open>
  \<open>config/src/requirements_exec_policy.rs\<close>: the rules of \<open>requirements.toml\<close>, which an administrator sets
  and which are merged over the policy of every session.

  The lemmas give: a requirements file that is accepted reports for every command exactly the matches
  of its patterns and allows nothing; one that is rejected is rejected for its first faulty rule.
\<close>

section \<open>The TOML rules\<close>

record pattern_token_toml =
  toml_token :: "rstr option"
  toml_any_of :: "rstr list option"

datatype decision_toml = AllowToml | PromptToml | ForbiddenToml

fun as_decision :: "decision_toml \<Rightarrow> decision" where
  "as_decision AllowToml = Allow"
| "as_decision PromptToml = Prompt"
| "as_decision ForbiddenToml = Forbidden"

record prefix_rule_toml =
  toml_pattern :: "pattern_token_toml list"
  toml_decision :: "decision_toml option"
  toml_justification :: "rstr option"

record requirements_exec_policy_toml =
  toml_prefix_rules :: "prefix_rule_toml list"

datatype requirements_parse_error =
    EmptyPrefixRules
  | EmptyPattern nat
  | InvalidPatternToken nat nat rstr
  | EmptyJustification nat
  | MissingDecision nat
  | AllowDecisionNotAllowed nat

definition toml_pattern_token :: "nat \<Rightarrow> nat \<Rightarrow> pattern_token_toml \<Rightarrow> (pattern_token, requirements_parse_error) result" where
  "toml_pattern_token rule_index token_index t =
     (case (toml_token t, toml_any_of t) of
        (Some single, None) \<Rightarrow>
          (if trim single = [] then Err (InvalidPatternToken rule_index token_index (lit ''token cannot be empty''))
           else Ok (Single single))
      | (None, Some alts) \<Rightarrow>
          (if alts = [] then Err (InvalidPatternToken rule_index token_index (lit ''any_of cannot be empty''))
           else if list_ex (\<lambda>alt. trim alt = []) alts
           then Err (InvalidPatternToken rule_index token_index (lit ''any_of cannot include empty tokens''))
           else Ok (Alts alts))
      | (Some _, Some _) \<Rightarrow>
          Err (InvalidPatternToken rule_index token_index (lit ''set either token or any_of, not both''))
      | (None, None) \<Rightarrow> Err (InvalidPatternToken rule_index token_index (lit ''set either token or any_of'')))"

fun toml_pattern_tokens :: "nat \<Rightarrow> nat \<Rightarrow> pattern_token_toml list \<Rightarrow> (pattern_token list, requirements_parse_error) result" where
  "toml_pattern_tokens rule_index token_index [] = Ok []"
| "toml_pattern_tokens rule_index token_index (t # ts) =
     bind_result (toml_pattern_token rule_index token_index t) (\<lambda>tok.
     bind_result (toml_pattern_tokens rule_index (token_index + 1) ts) (\<lambda>toks. Ok (tok # toks)))"

definition toml_rule_decision :: "nat \<Rightarrow> prefix_rule_toml \<Rightarrow> (decision, requirements_parse_error) result" where
  "toml_rule_decision rule_index r =
     (case toml_decision r of
        Some AllowToml \<Rightarrow> Err (AllowDecisionNotAllowed rule_index)
      | Some d \<Rightarrow> Ok (as_decision d)
      | None \<Rightarrow> Err (MissingDecision rule_index))"

text \<open>One rule as the pattern and the decision it stands for.\<close>

definition toml_rule ::
    "nat \<Rightarrow> prefix_rule_toml \<Rightarrow> (pattern_token \<times> pattern_token list \<times> decision, requirements_parse_error) result" where
  "toml_rule rule_index r =
     (if blank_justification (toml_justification r) then Err (EmptyJustification rule_index)
      else if toml_pattern r = [] then Err (EmptyPattern rule_index)
      else bind_result (toml_pattern_tokens rule_index 0 (toml_pattern r)) (\<lambda>tokens.
        bind_result (toml_rule_decision rule_index r) (\<lambda>d.
          case tokens of
            [] \<Rightarrow> Err (EmptyPattern rule_index)
          | first_token # remaining \<Rightarrow> Ok (first_token, remaining, d))))"

definition insert_heads ::
    "pattern_token \<Rightarrow> pattern_token list \<Rightarrow> decision \<Rightarrow> rstr option \<Rightarrow> (rstr, prefix_rule) multi_map \<Rightarrow> (rstr, prefix_rule) multi_map" where
  "insert_heads first_token remaining d j m =
     foldl (\<lambda>m head. multi_insert head
         \<lparr>pattern = \<lparr>first = head, rest = remaining\<rparr>, rule_decision = d, justification = j\<rparr> m)
       m (alternatives first_token)"

fun toml_rules ::
    "nat \<Rightarrow> prefix_rule_toml list \<Rightarrow> (rstr, prefix_rule) multi_map \<Rightarrow> ((rstr, prefix_rule) multi_map, requirements_parse_error) result" where
  "toml_rules rule_index [] m = Ok m"
| "toml_rules rule_index (r # rs) m =
     bind_result (toml_rule rule_index r) (\<lambda>(first_token, remaining, d).
       toml_rules (rule_index + 1) rs (insert_heads first_token remaining d (toml_justification r) m))"

definition to_policy :: "requirements_exec_policy_toml \<Rightarrow> (policy, requirements_parse_error) result" where
  "to_policy reqs =
     (if toml_prefix_rules reqs = [] then Err EmptyPrefixRules
      else bind_result (toml_rules 0 (toml_prefix_rules reqs) []) (\<lambda>m. Ok (policy_new m)))"

section \<open>What the rules mean\<close>

text \<open>The matches of a rule; where the rule stands in the file does not matter.\<close>

definition toml_rule_matches :: "prefix_rule_toml \<Rightarrow> rstr list \<Rightarrow> rule_match set" where
  "toml_rule_matches r cmd =
     (case toml_rule 0 r of
        Ok (t, ts, d) \<Rightarrow> pattern_matches t ts d (toml_justification r) cmd
      | Err _ \<Rightarrow> {})"

lemma toml_pattern_tokens_index:
  "toml_pattern_tokens i k ts = Ok toks \<longleftrightarrow> toml_pattern_tokens 0 k ts = Ok toks"
  by (induction ts arbitrary: k toks) (auto simp: toml_pattern_token_def split: option.splits if_splits)

lemma toml_rule_index: "toml_rule i r = Ok x \<longleftrightarrow> toml_rule 0 r = Ok x"
  by (auto simp: toml_rule_def toml_rule_decision_def toml_pattern_tokens_index[of i]
      split: if_splits list.splits option.splits decision_toml.splits)

lemma toml_rule_restricts: "toml_rule i r = Ok (t, ts, d) \<Longrightarrow> d \<noteq> Allow"
  by (auto simp: toml_rule_def toml_rule_decision_def neq_Nil_conv
      split: if_splits list.splits option.splits decision_toml.splits)

lemma insert_heads_rules:
  "insert_heads t ts d j m = foldl (\<lambda>m r. multi_insert (rule_program r) r m) m (expand_rules t ts d j)"
  by (simp add: insert_heads_def expand_rules_def foldl_map rule_program_def)

lemma toml_rules_Ok:
  assumes "toml_rules i rs m = Ok m'"
  shows "\<exists>rules. m' = foldl (\<lambda>m r. multi_insert (rule_program r) r m) m rules \<and>
    (\<forall>r \<in> set rs. \<exists>x. toml_rule 0 r = Ok x) \<and>
    (\<forall>cmd. {x. \<exists>r \<in> set rules. rule_matches r cmd = Some x} = (\<Union>r \<in> set rs. toml_rule_matches r cmd))"
  using assms
proof (induction rs arbitrary: i m)
  case Nil
  then show ?case by (intro exI[of _ "[]"]) simp
next
  case (Cons r rs)
  then obtain t ts d where r: "toml_rule i r = Ok (t, ts, d)"
    and go: "toml_rules (i + 1) rs (insert_heads t ts d (toml_justification r) m) = Ok m'"
    by auto
  obtain rules where IH: "m' = foldl (\<lambda>m r. multi_insert (rule_program r) r m) (insert_heads t ts d (toml_justification r) m) rules"
    "\<forall>r \<in> set rs. \<exists>x. toml_rule 0 r = Ok x"
    "\<And>cmd. {x. \<exists>r \<in> set rules. rule_matches r cmd = Some x} = (\<Union>r \<in> set rs. toml_rule_matches r cmd)"
    using Cons.IH[OF go] by blast
  have r0: "toml_rule 0 r = Ok (t, ts, d)" using r toml_rule_index by metis
  have "{x. \<exists>q \<in> set (expand_rules t ts d (toml_justification r) @ rules). rule_matches q cmd = Some x} =
      pattern_matches t ts d (toml_justification r) cmd \<union> (\<Union>r \<in> set rs. toml_rule_matches r cmd)" for cmd
    unfolding expand_rules_matches[symmetric] IH(3)[symmetric] by auto
  then show ?case
    using IH(1,2) r0 by (intro exI[of _ "expand_rules t ts d (toml_justification r) @ rules"])
      (auto simp: insert_heads_rules toml_rule_matches_def)
qed

lemma to_policy_rules:
  assumes "to_policy reqs = Ok p"
  shows "\<exists>rules. p = policy_new (foldl (\<lambda>m r. multi_insert (rule_program r) r m) [] rules) \<and>
    (\<forall>r \<in> set (toml_prefix_rules reqs). \<exists>x. toml_rule 0 r = Ok x) \<and>
    (\<forall>cmd. {x. \<exists>r \<in> set rules. rule_matches r cmd = Some x} = (\<Union>r \<in> set (toml_prefix_rules reqs). toml_rule_matches r cmd))"
proof -
  obtain m where "toml_rules 0 (toml_prefix_rules reqs) [] = Ok m" "p = policy_new m"
    using assms by (auto simp: to_policy_def split: if_splits)
  moreover from toml_rules_Ok[OF this(1)] obtain rules where
    "m = foldl (\<lambda>m r. multi_insert (rule_program r) r m) [] rules" "\<forall>r \<in> set (toml_prefix_rules reqs). \<exists>x. toml_rule 0 r = Ok x"
    "\<forall>cmd. {x. \<exists>r \<in> set rules. rule_matches r cmd = Some x} = (\<Union>r \<in> set (toml_prefix_rules reqs). toml_rule_matches r cmd)"
    by blast
  ultimately show ?thesis by (intro exI[of _ rules]) simp
qed

lemma index_ok_Nil [simp]: "index_ok []"
  by (simp add: index_ok_def)

lemma to_policy_index_ok: "to_policy reqs = Ok p \<Longrightarrow> index_ok (rules_by_program p)"
  using to_policy_rules[of reqs p] by (auto simp: policy_new_def policy_from_parts_def index_ok_insert_rules)

lemma lookup_rules_Nil [simp]: "lookup_rules [] k = []"
  by (simp add: lookup_rules_def or_default_def)

text \<open>
  Requirements say exactly what their rules say, and only restrict. When a requirements file is
  accepted, its policy reports for a command the matches of the patterns in the file, alternatives of
  the first token included, and no match allows anything.
\<close>

theorem requirements_policy_exact:
  assumes "to_policy reqs = Ok p"
  shows "set (matched_rules_of env p False cmd) = (\<Union>r \<in> set (toml_prefix_rules reqs). toml_rule_matches r cmd) \<and>
    Allow \<notin> match_decision ` set (matched_rules_of env p False cmd)"
proof
  obtain rules where p: "p = policy_new (foldl (\<lambda>m r. multi_insert (rule_program r) r m) [] rules)"
    and ms: "\<forall>cmd. {x. \<exists>r \<in> set rules. rule_matches r cmd = Some x} = (\<Union>r \<in> set (toml_prefix_rules reqs). toml_rule_matches r cmd)"
    using to_policy_rules[OF assms] by (elim exE conjE) (rule that)
  have look: "lookup_rules (rules_by_program p) k = filter (\<lambda>r. rule_program r = k) rules" for k
    by (simp add: p policy_new_def policy_from_parts_def lookup_insert_rules)
  have "set (matched_rules_of env p False cmd) = {x. \<exists>r \<in> set rules. rule_matches r cmd = Some x}"
    unfolding matched_rules_exact exact_matches_set look using rule_matches_program by fastforce
  then show eq: "set (matched_rules_of env p False cmd) = (\<Union>r \<in> set (toml_prefix_rules reqs). toml_rule_matches r cmd)"
    using ms by simp
  have "match_decision m \<noteq> Allow" if "m \<in> toml_rule_matches r cmd" for r m
    using that toml_rule_restricts[of 0 r]
    by (auto simp: toml_rule_matches_def pattern_matches_def split: result.splits)
  then show "Allow \<notin> match_decision ` set (matched_rules_of env p False cmd)" unfolding eq by force
qed

section \<open>Errors\<close>

fun error_rule_index :: "requirements_parse_error \<Rightarrow> nat option" where
  "error_rule_index EmptyPrefixRules = None"
| "error_rule_index (EmptyPattern i) = Some i"
| "error_rule_index (InvalidPatternToken i _ _) = Some i"
| "error_rule_index (EmptyJustification i) = Some i"
| "error_rule_index (MissingDecision i) = Some i"
| "error_rule_index (AllowDecisionNotAllowed i) = Some i"

lemma toml_pattern_token_error: "toml_pattern_token i k t = Err e \<Longrightarrow> error_rule_index e = Some i"
  by (auto simp: toml_pattern_token_def split: option.splits if_splits)

lemma toml_pattern_tokens_error: "toml_pattern_tokens i k ts = Err e \<Longrightarrow> error_rule_index e = Some i"
  by (induction ts arbitrary: k) (auto simp: bind_result_Err_iff dest: toml_pattern_token_error)

lemma toml_rule_error: "toml_rule i r = Err e \<Longrightarrow> error_rule_index e = Some i"
  by (auto simp: toml_rule_def toml_rule_decision_def bind_result_Err_iff neq_Nil_conv dest: toml_pattern_tokens_error toml_pattern_token_error
      split: if_splits list.splits option.splits decision_toml.splits)

lemma toml_rules_Err:
  "toml_rules i rs m = Err e \<Longrightarrow>
     \<exists>k < length rs. error_rule_index e = Some (i + k) \<and> toml_rule (i + k) (rs ! k) = Err e \<and>
       (\<forall>r \<in> set (take k rs). \<exists>x. toml_rule 0 r = Ok x)"
proof (induction rs arbitrary: i m)
  case (Cons r rs)
  show ?case
  proof (cases "toml_rule i r")
    case (Ok x)
    then obtain k where "k < length rs" "error_rule_index e = Some (i + 1 + k)" "toml_rule (i + 1 + k) (rs ! k) = Err e"
      "\<forall>r \<in> set (take k rs). \<exists>x. toml_rule 0 r = Ok x"
      using Cons by (fastforce split: prod.splits)
    then show ?thesis using Ok toml_rule_index[of i r x] by (cases x; intro exI[of _ "Suc k"]) auto
  next
    case (Err e')
    then show ?thesis using Cons.prems toml_rule_error[OF Err] by (intro exI[of _ 0]) auto
  qed
qed simp

text \<open>
  A rejected requirements file is rejected for a reason in it: it has no rules, or the error names the
  first rule that is at fault, and the rules before it are fine.
\<close>

theorem requirements_error_first:
  assumes "to_policy reqs = Err e"
  shows "(toml_prefix_rules reqs = [] \<and> e = EmptyPrefixRules) \<or>
    (\<exists>k < length (toml_prefix_rules reqs). error_rule_index e = Some k \<and> toml_rule k (toml_prefix_rules reqs ! k) = Err e \<and>
       (\<forall>r \<in> set (take k (toml_prefix_rules reqs)). \<exists>x. toml_rule 0 r = Ok x))"
  using assms toml_rules_Err[of 0 "toml_prefix_rules reqs" "[]" e]
  by (auto simp: to_policy_def bind_result_Err_iff split: if_splits)

definition sample_requirements :: requirements_exec_policy_toml where
  "sample_requirements = \<lparr>toml_prefix_rules =
     [\<lparr>toml_pattern = [\<lparr>toml_token = Some (lit ''git''), toml_any_of = None\<rparr>], toml_decision = Some ForbiddenToml,
       toml_justification = None\<rparr>]\<rparr>"

lemma sample_requirements_policy:
  "to_policy sample_requirements = Ok (policy_new [(lit ''git'', [\<lparr>pattern = \<lparr>first = lit ''git'', rest = []\<rparr>,
     rule_decision = Forbidden, justification = None\<rparr>])])"
  by (simp add: to_policy_def sample_requirements_def toml_rule_def toml_rule_decision_def toml_pattern_token_def
      insert_heads_def blank_justification_def trim_def trim_start_def trim_end_def trim_end_matches_def is_whitespace_def lit_def)

lemma requirements_policy_exact_witness:
  "\<exists>p. to_policy sample_requirements = Ok p \<and>
     Allow \<notin> match_decision ` set (matched_rules_of sample_env p False [lit ''git'', lit ''push''])"
  using requirements_policy_exact[OF sample_requirements_policy, of sample_env "[lit ''git'', lit ''push'']"]
    sample_requirements_policy by auto

lemma requirements_error_first_witness:
  "\<exists>k < 1. error_rule_index (EmptyPattern 0) = Some k"
proof -
  have "to_policy \<lparr>toml_prefix_rules = [\<lparr>toml_pattern = [], toml_decision = None, toml_justification = None\<rparr>]\<rparr> = Err (EmptyPattern 0)"
    by (simp add: to_policy_def toml_rule_def blank_justification_def)
  from requirements_error_first[OF this] show ?thesis by auto
qed

end
