(* ===== verification/Policy_Manager.thy ===== *)
theory Policy_Manager
  imports Exec_Approval Exec_Policy_Amend Config_Layers Requirements_Policy
begin

text \<open>
  The life of the session's policy, the rest of \<open>core/src/exec_policy.rs\<close>: it is loaded from the policy
  files of the configuration layers and merged with the requirements, a child session may share it, and
  it grows when the user approves a command or a host for good.

  Reading directories and files (\<open>rules_fs\<close>), and running a task on another thread (\<open>task_runner\<close>), are
  arguments. Paths are normalised component lists.

  The lemmas give: requirements bind however loading ends, layers of higher precedence only add rules,
  an approved rule is on disk and in force, an update that fails leaves the policy as it was, and in
  what way a rule for a program's path gets around a requirement for its name.
\<close>

section \<open>Errors\<close>

definition RULES_DIR_NAME :: rstr where "RULES_DIR_NAME = lit ''rules''"
definition RULE_EXTENSION :: rstr where "RULE_EXTENSION = lit ''rules''"
definition DEFAULT_POLICY_FILE :: rstr where "DEFAULT_POLICY_FILE = lit ''default.rules''"

datatype 's exec_policy_error =
    ReadDir absolute_path io_error
  | ReadFile absolute_path io_error
  | ParsePolicy rstr "'s policy_error"

datatype ('s, 'j) exec_policy_update_error =
    AppendRule absolute_path "absolute_path amend_error"
  | JoinBlockingTask 'j
  | AddRule "'s policy_error"

section \<open>Loading\<close>

datatype requirement_source =
    UnknownSource
  | MdmManagedPreferences rstr rstr
  | Composite "requirement_source list"
  | EnterpriseManagedSource rstr rstr
  | SystemRequirementsToml absolute_path
  | LegacyRequirementsFromFile absolute_path
  | LegacyRequirementsFromMdm

text \<open>The part of \<open>ConfigRequirements\<close> the policy uses, with its source.\<close>

record config_requirements =
  exec_policy :: "(policy \<times> requirement_source) option"

text \<open>A directory is read as its entries, each of which may fail; the type of an entry may too.\<close>

record dir_entry =
  entry_name :: rstr
  entry_is_file :: "(bool, io_error) result"

record rules_fs =
  read_dir :: "absolute_path \<Rightarrow> ((dir_entry, io_error) result list, io_error) result"
  read_to_string :: "absolute_path \<Rightarrow> (rstr, io_error) result"

text \<open>\<open>Path::extension\<close> of a file name.\<close>

definition name_extension :: "rstr \<Rightarrow> rstr option" where
  "name_extension name =
     (case rsplit_once 46 name of
        None \<Rightarrow> None
      | Some (before, after) \<Rightarrow> (if before = [] then None else Some after))"

fun collect_entries ::
    "absolute_path \<Rightarrow> (dir_entry, io_error) result list \<Rightarrow> (absolute_path list, 's exec_policy_error) result" where
  "collect_entries dir [] = Ok []"
| "collect_entries dir (next_entry # entries) =
     bind_result (map_err (ReadDir dir) next_entry) (\<lambda>entry.
     bind_result (map_err (ReadDir dir) (entry_is_file entry)) (\<lambda>is_file.
     bind_result (collect_entries dir entries) (\<lambda>paths.
       Ok (if name_extension (entry_name entry) = Some RULE_EXTENSION \<and> is_file
           then (dir @ [entry_name entry]) # paths else paths))))"

text \<open>\<open>PathBuf\<close>s are ordered by components, those by bytes.\<close>

definition collect_policy_files :: "rules_fs \<Rightarrow> absolute_path \<Rightarrow> (absolute_path list, 's exec_policy_error) result" where
  "collect_policy_files fs dir =
     (case read_dir fs dir of
        Err e \<Rightarrow> (if io_kind e = NotFound then Ok [] else Err (ReadDir dir e))
      | Ok entries \<Rightarrow> bind_result (collect_entries dir entries) (\<lambda>paths. Ok (sort paths)))"

definition layer_is_ignored :: "bool \<Rightarrow> 'c config_layer_entry \<Rightarrow> bool" where
  "layer_is_ignored ignore layer \<longleftrightarrow>
     ignore \<and> (is_user_source (layer_name layer) \<or> project_folder (layer_name layer) \<noteq> None)"

fun policy_paths ::
    "rules_fs \<Rightarrow> bool \<Rightarrow> 'c config_layer_entry list \<Rightarrow> (absolute_path list, 's exec_policy_error) result" where
  "policy_paths fs ignore [] = Ok []"
| "policy_paths fs ignore (layer # ls) =
     (if layer_is_ignored ignore layer then policy_paths fs ignore ls
      else case config_folder layer of
        None \<Rightarrow> policy_paths fs ignore ls
      | Some folder \<Rightarrow>
          bind_result (collect_policy_files fs (folder @ [RULES_DIR_NAME])) (\<lambda>layer_policy_paths.
          bind_result (policy_paths fs ignore ls) (\<lambda>paths. Ok (layer_policy_paths @ paths))))"

fun parse_policy_paths ::
    "'s host_language \<Rightarrow> host_env \<Rightarrow> rules_fs \<Rightarrow> absolute_path list \<Rightarrow> policy_builder \<Rightarrow>
     (policy_builder, 's exec_policy_error) result" where
  "parse_policy_paths st env fs [] parser = Ok parser"
| "parse_policy_paths st env fs (path # paths) parser =
     (case read_to_string fs path of
        Err source \<Rightarrow> Err (ReadFile path source)
      | Ok contents \<Rightarrow>
          (case parse st env (render_path path) contents parser of
             (_, Err source) \<Rightarrow> Err (ParsePolicy (render_path path) source)
           | (parser', Ok _) \<Rightarrow> parse_policy_paths st env fs paths parser'))"

definition load_exec_policy ::
    "'s host_language \<Rightarrow> host_env \<Rightarrow> rules_fs \<Rightarrow> ('c, 'r config_requirements_scheme) config_layer_stack \<Rightarrow>
     (policy, 's exec_policy_error) result" where
  "load_exec_policy st env fs stack =
     bind_result (policy_paths fs (ignore_user_and_project_exec_policy_rules stack) (layers_low_to_high stack)) (\<lambda>paths.
     bind_result (parse_policy_paths st env fs paths builder_new) (\<lambda>parser.
       case exec_policy (requirements stack) of
         None \<Rightarrow> Ok (build parser)
       | Some (requirements_policy, _) \<Rightarrow> Ok (merge_overlay (build parser) requirements_policy)))"

definition load_exec_policy_with_warning ::
    "'s host_language \<Rightarrow> host_env \<Rightarrow> rules_fs \<Rightarrow> ('c, 'r config_requirements_scheme) config_layer_stack \<Rightarrow>
     (policy \<times> 's exec_policy_error option, 's exec_policy_error) result" where
  "load_exec_policy_with_warning st env fs stack =
     (case load_exec_policy st env fs stack of
        Ok p \<Rightarrow> Ok (p, None)
      | Err (ParsePolicy path source) \<Rightarrow>
          Ok (case exec_policy (requirements stack) of None \<Rightarrow> policy_empty | Some (p, _) \<Rightarrow> p,
              Some (ParsePolicy path source))
      | Err e \<Rightarrow> Err e)"

definition check_execpolicy_for_warnings ::
    "'s host_language \<Rightarrow> host_env \<Rightarrow> rules_fs \<Rightarrow> ('c, 'r config_requirements_scheme) config_layer_stack \<Rightarrow>
     ('s exec_policy_error option, 's exec_policy_error) result" where
  "check_execpolicy_for_warnings st env fs stack =
     bind_result (load_exec_policy_with_warning st env fs stack) (\<lambda>(_, warning). Ok warning)"

definition manager_load ::
    "'s host_language \<Rightarrow> host_env \<Rightarrow> rules_fs \<Rightarrow> ('c, 'r config_requirements_scheme) config_layer_stack \<Rightarrow>
     (exec_policy_manager, 's exec_policy_error) result" where
  "manager_load st env fs stack =
     bind_result (load_exec_policy_with_warning st env fs stack) (\<lambda>(p, warning). Ok (manager_new p))"

section \<open>Sharing\<close>

definition exec_policy_config_folders :: "('c, 'r) config_layer_stack \<Rightarrow> absolute_path list" where
  "exec_policy_config_folders stack = List.map_filter config_folder (layers_low_to_high stack)"

text \<open>\<open>PartialEq\<close> of \<open>Option<Sourced<RequirementsExecPolicy>>\<close>; the argument renders rules.\<close>

fun same_requirements ::
    "(prefix_rule \<Rightarrow> rstr) \<Rightarrow> (policy \<times> requirement_source) option \<Rightarrow> (policy \<times> requirement_source) option \<Rightarrow> bool" where
  "same_requirements debug None None = True"
| "same_requirements debug (Some (p, s)) (Some (q, t)) = (requirements_eq debug p q \<and> s = t)"
| "same_requirements debug _ _ = False"

definition child_uses_parent_exec_policy ::
    "(prefix_rule \<Rightarrow> rstr) \<Rightarrow> ('c, 'r config_requirements_scheme) config_layer_stack \<Rightarrow>
     ('c, 'r config_requirements_scheme) config_layer_stack \<Rightarrow> bool" where
  "child_uses_parent_exec_policy debug parent child \<longleftrightarrow>
     exec_policy_config_folders parent = exec_policy_config_folders child \<and>
     ignore_user_and_project_exec_policy_rules parent = ignore_user_and_project_exec_policy_rules child \<and>
     same_requirements debug (exec_policy (requirements parent)) (exec_policy (requirements child))"

section \<open>Updating\<close>

definition default_policy_path :: "absolute_path \<Rightarrow> absolute_path" where
  "default_policy_path codex_home = codex_home @ [RULES_DIR_NAME, DEFAULT_POLICY_FILE]"

text \<open>
  The lock of the manager and \<open>spawn_blocking\<close>, whose task's result may be lost in a join error.
\<close>

record ('w, 'j) task_runner =
  semaphore_closed :: bool
  spawn :: "('w \<Rightarrow> 'w \<times> (unit, absolute_path amend_error) result) \<Rightarrow> 'w \<Rightarrow>
            'w \<times> ((unit, absolute_path amend_error) result, 'j) result"

definition already_allowed :: "evaluation \<Rightarrow> bool" where
  "already_allowed existing_evaluation \<longleftrightarrow>
     eval_decision existing_evaluation = Allow \<and>
     list_ex (\<lambda>rm. is_policy_match rm \<and> match_decision rm = Allow) (matched_rules existing_evaluation)"

text \<open>A panic of the check would be \<open>None\<close>.\<close>

definition append_amendment_and_update ::
    "('w, 'j) task_runner \<Rightarrow> json_ops \<Rightarrow> (absolute_path, 'w) policy_fs \<Rightarrow> host_env \<Rightarrow> absolute_path \<Rightarrow> rstr list \<Rightarrow>
     exec_policy_manager \<Rightarrow> 'w \<Rightarrow> ('w \<times> exec_policy_manager \<times> (unit, ('s, 'j) exec_policy_update_error) result) option" where
  "append_amendment_and_update rt js fs env codex_home amendment mgr w =
     (if semaphore_closed rt
      then Some (w, mgr, Err (AddRule (InvalidRule (lit ''exec policy update semaphore closed''))))
      else
        (let policy_path = default_policy_path codex_home in
         case spawn rt (blocking_append_allow_prefix_rule js fs policy_path amendment) w of
           (w', Err source) \<Rightarrow> Some (w', mgr, Err (JoinBlockingTask source))
         | (w', Ok (Err source)) \<Rightarrow> Some (w', mgr, Err (AppendRule policy_path source))
         | (w', Ok (Ok _)) \<Rightarrow>
             map_option (\<lambda>existing_evaluation.
                if already_allowed existing_evaluation then (w', mgr, Ok ())
                else case add_prefix_rule amendment Allow (current mgr) of
                  Err e \<Rightarrow> (w', mgr, Err (AddRule e))
                | Ok updated_policy \<Rightarrow> (w', mgr\<lparr>current := updated_policy\<rparr>, Ok ()))
              (check_multiple_with_options env (current mgr) [amendment] (\<lambda>_. Forbidden) True)))"

definition append_network_rule_and_update ::
    "('w, 'j) task_runner \<Rightarrow> ('s policy_error \<Rightarrow> rstr) \<Rightarrow> json_ops \<Rightarrow> (absolute_path, 'w) policy_fs \<Rightarrow> absolute_path \<Rightarrow>
     rstr \<Rightarrow> network_rule_protocol \<Rightarrow> decision \<Rightarrow> rstr option \<Rightarrow>
     exec_policy_manager \<Rightarrow> 'w \<Rightarrow> 'w \<times> exec_policy_manager \<times> (unit, ('s, 'j) exec_policy_update_error) result" where
  "append_network_rule_and_update rt other js fs codex_home raw_host proto d j mgr w =
     (if semaphore_closed rt
      then (w, mgr, Err (AddRule (InvalidRule (lit ''exec policy update semaphore closed''))))
      else
        (let policy_path = default_policy_path codex_home in
         case spawn rt (blocking_append_network_rule other js fs policy_path raw_host proto d j) w of
           (w', Err source) \<Rightarrow> (w', mgr, Err (JoinBlockingTask source))
         | (w', Ok (Err source)) \<Rightarrow> (w', mgr, Err (AppendRule policy_path source))
         | (w', Ok (Ok _)) \<Rightarrow>
             (case add_network_rule raw_host proto d j (current mgr) of
                Err e \<Rightarrow> (w', mgr, Err (AddRule e))
              | Ok updated_policy \<Rightarrow> (w', mgr\<lparr>current := updated_policy\<rparr>, Ok ()))))"

section \<open>Rules accumulate\<close>

lemma run_call_grows:
  assumes "run_call st env c b = Ok b'"
  shows "\<exists>new. lookup_rules (b_rules_by_program b') k = lookup_rules (b_rules_by_program b) k @ new"
proof (cases c)
  case (PrefixRuleCall pat d ms nms j span)
  then have "prefix_rule_builtin st pat d ms nms j span b = Ok b'" using assms by simp
  then obtain t ts dec exs nexs where "b' = fold add_rule (expand_rules t ts dec j)
      (add_pending_example_validation (expand_rules t ts dec j) exs nexs (map_option error_location_from_file_span span) b)"
    by (rule prefix_rule_builtin_Ok)
  then show ?thesis by (simp add: fold_add_rule add_pending_example_validation_def lookup_insert_rules)
next
  case (NetworkRuleCall h proto d j)
  then show ?thesis using assms by (auto simp: network_rule_builtin_def builder_add_network_rule_def)
next
  case (HostExecutableCall name vs)
  then show ?thesis using assms by (auto simp: host_executable_builtin_def add_host_executable_def)
qed

lemma run_calls_grow:
  "\<exists>new. lookup_rules (b_rules_by_program (fst (run_calls st env cs b))) k = lookup_rules (b_rules_by_program b) k @ new"
proof (induction cs arbitrary: b)
  case (Cons c cs)
  show ?case
  proof (cases "run_call st env c b")
    case (Ok b')
    then show ?thesis using run_call_grows[OF Ok, of k] Cons[of b'] by auto
  qed simp
qed simp

lemma parse_policy_paths_ok:
  "parse_policy_paths st env fs paths b = Ok b' \<Longrightarrow> builder_ok b \<Longrightarrow> builder_ok b'"
proof (induction paths arbitrary: b)
  case (Cons path paths)
  obtain contents where c: "read_to_string fs path = Ok contents" using Cons.prems by (auto split: result.splits)
  obtain b1 where b1: "parse st env (render_path path) contents b = (b1, Ok ())"
    and go: "parse_policy_paths st env fs paths b1 = Ok b'"
    using Cons.prems c by (auto split: prod.splits result.splits)
  show ?case using Cons.IH[OF go] parse_builder_ok[OF Cons.prems(2), of st env "render_path path" contents] b1 by simp
qed simp

lemma parse_policy_paths_grow:
  "parse_policy_paths st env fs paths b = Ok b' \<Longrightarrow>
     \<exists>new. lookup_rules (b_rules_by_program b') k = lookup_rules (b_rules_by_program b) k @ new"
proof (induction paths arbitrary: b)
  case (Cons path paths)
  obtain contents where c: "read_to_string fs path = Ok contents" using Cons.prems by (auto split: result.splits)
  obtain b1 where b1: "parse st env (render_path path) contents b = (b1, Ok ())"
    and go: "parse_policy_paths st env fs paths b1 = Ok b'"
    using Cons.prems c by (auto split: prod.splits result.splits)
  have "b1 = fst (run_calls st env (fst (evaluate st (render_path path) contents)) b)"
    using b1 parse_fst[of st env "render_path path" contents b] by simp
  then show ?case
    using Cons.IH[OF go] run_calls_grow[of st env "fst (evaluate st (render_path path) contents)" b k] by auto
qed simp

lemma parse_policy_paths_append:
  "parse_policy_paths st env fs (ps @ qs) b = bind_result (parse_policy_paths st env fs ps b) (parse_policy_paths st env fs qs)"
  by (induction ps arbitrary: b) (auto split: result.splits prod.splits)

lemma policy_paths_append:
  "policy_paths fs ignore (ls @ ms) =
     bind_result (policy_paths fs ignore ls) (\<lambda>ps. bind_result (policy_paths fs ignore ms) (\<lambda>qs. Ok (ps @ qs)))"
proof (induction ls)
  case Nil
  then show ?case by (simp add: bind_result_Ok_id)
next
  case (Cons l ls)
  then show ?case by (auto simp: bind_result_assoc split: option.splits)
qed

text \<open>More rules under every program, more matches.\<close>

lemma exact_matches_mono:
  assumes "\<And>k. set (lookup_rules (rules_by_program p) k) \<subseteq> set (lookup_rules (rules_by_program q) k)"
  shows "set (matched_rules_of env p False cmd) \<subseteq> set (matched_rules_of env q False cmd)"
  using assms unfolding matched_rules_exact exact_matches_set by blast

lemma exact_matches_resolve:
  "m \<in> set (matched_rules_of env p False cmd) \<Longrightarrow> matched_rules_of env p resolve cmd = matched_rules_of env p False cmd"
  by (auto simp: matched_rules_of_def split: option.splits list.splits)

lemma check_at_least:
  assumes "m \<in> set (matched_rules_of env p resolve cmd)"
  shows "\<exists>ev. check_with_options env p cmd h resolve = Some ev \<and> match_decision m \<le> eval_decision ev"
proof -
  have "matched_rules_of env p resolve cmd \<noteq> []" using assms by auto
  then have "check_with_options env p cmd h resolve =
      Some \<lparr>eval_decision = Max (match_decision ` set (matched_rules_of env p resolve cmd)), matched_rules = matched_rules_of env p resolve cmd\<rparr>"
    by (simp add: check_with_options_def from_matches_Some_iff matches_with_fallback)
  moreover have "match_decision m \<le> Max (match_decision ` set (matched_rules_of env p resolve cmd))"
    using assms by (intro Max_ge) auto
  ultimately show ?thesis by simp
qed

lemma merge_keeps:
  assumes "index_ok (rules_by_program p)" and "index_ok (rules_by_program q)"
  shows "set (matched_rules_of env (merge_overlay p q) False cmd) =
    set (matched_rules_of env p False cmd) \<union> set (matched_rules_of env q False cmd)"
  using merge_matches[OF assms, of env cmd] by simp

lemma built_index_ok: "parse_policy_paths st env fs paths builder_new = Ok b \<Longrightarrow> index_ok (rules_by_program (build b))"
  using parse_policy_paths_ok[OF _ builder_ok_new] by (fastforce simp: builder_ok_def build_def policy_from_parts_def)

lemma load_exec_policy_Ok:
  assumes "load_exec_policy st env fs stack = Ok p"
  obtains paths b where
    "policy_paths fs (ignore_user_and_project_exec_policy_rules stack) (layers_low_to_high stack) = (Ok paths :: (_, 's exec_policy_error) result)"
    "parse_policy_paths st env fs paths builder_new = (Ok b :: (_, 's exec_policy_error) result)"
    "p = (case exec_policy (requirements stack) of None \<Rightarrow> build b | Some (r, _) \<Rightarrow> merge_overlay (build b) r)"
  using assms by (cases "exec_policy (requirements stack)") (auto simp: load_exec_policy_def)


text \<open>
  Layers add up. If the policy of a stack loads, so does the policy of its lower layers, and all
  matches of the lower layers stay: a layer of higher precedence, whatever its files say, only adds.
\<close>

theorem higher_layers_only_add:
  assumes "load_exec_policy st env fs (stack\<lparr>layers := low @ high\<rparr>) = Ok p"
    and "\<forall>required source. exec_policy (requirements stack) = Some (required, source) \<longrightarrow> index_ok (rules_by_program required)"
  shows "\<exists>q. load_exec_policy st env fs (stack\<lparr>layers := low\<rparr>) = Ok q \<and>
    set (matched_rules_of env' q False cmd) \<subseteq> set (matched_rules_of env' p False cmd)"
proof -
  let ?ign = "ignore_user_and_project_exec_policy_rules stack"
  obtain paths b where paths: "policy_paths fs ?ign (layers_low_to_high (stack\<lparr>layers := low @ high\<rparr>)) = (Ok paths :: (_, 'a exec_policy_error) result)"
    and b: "parse_policy_paths st env fs paths builder_new = Ok b"
    and p: "p = (case exec_policy (requirements stack) of None \<Rightarrow> build b | Some (r, _) \<Rightarrow> merge_overlay (build b) r)"
    using assms(1) by (rule load_exec_policy_Ok) simp
  obtain ps qs where ps: "policy_paths fs ?ign (layers_low_to_high (stack\<lparr>layers := low\<rparr>)) = (Ok ps :: (_, 'a exec_policy_error) result)"
    and "paths = ps @ qs"
    using paths by (auto simp: layers_low_to_high_def all_layers_low_to_high_def policy_paths_append)
  with b obtain b1 where b1: "parse_policy_paths st env fs ps builder_new = Ok b1"
    and b2: "parse_policy_paths st env fs qs b1 = Ok b"
    by (auto simp: parse_policy_paths_append)
  define q where "q = (case exec_policy (requirements stack) of None \<Rightarrow> build b1 | Some (r, _) \<Rightarrow> merge_overlay (build b1) r)"
  have load: "load_exec_policy st env fs (stack\<lparr>layers := low\<rparr>) = Ok q"
    using ps b1 by (auto simp: load_exec_policy_def q_def split: option.splits)
  have "set (matched_rules_of env' (build b1) False cmd) \<subseteq> set (matched_rules_of env' (build b) False cmd)"
  proof (rule exact_matches_mono)
    fix k show "set (lookup_rules (rules_by_program (build b1)) k) \<subseteq> set (lookup_rules (rules_by_program (build b)) k)"
      using parse_policy_paths_grow[OF b2, of k] by (auto simp: build_def policy_from_parts_def)
  qed
  moreover have "set (matched_rules_of env' (merge_overlay (build b1) r) False cmd) =
      set (matched_rules_of env' (build b1) False cmd) \<union> set (matched_rules_of env' r False cmd)"
    "set (matched_rules_of env' (merge_overlay (build b) r) False cmd) =
      set (matched_rules_of env' (build b) False cmd) \<union> set (matched_rules_of env' r False cmd)"
    if "exec_policy (requirements stack) = Some (r, s)" for r s
    using that assms(2) by (simp_all add: merge_keeps built_index_ok[OF b1] built_index_ok[OF b])
  ultimately have "set (matched_rules_of env' q False cmd) \<subseteq> set (matched_rules_of env' p False cmd)"
    by (cases "exec_policy (requirements stack)") (auto simp: p q_def)
  with load show ?thesis by blast
qed

section \<open>Approved rules\<close>

text \<open>What is relied on of \<open>spawn_blocking\<close>: a result it hands back is the result of the task.\<close>

definition runs_task :: "('w, 'j) task_runner \<Rightarrow> bool" where
  "runs_task rt \<longleftrightarrow> (\<forall>task w w' r. spawn rt task w = (w', Ok r) \<longrightarrow> task w = (w', r))"

lemma saved_line:
  assumes "policy_files fs txt" and "json_one_line js"
    and "blocking_append_allow_prefix_rule js fs path pre w = (w', Ok ())"
  shows "\<exists>tokens. json_list js pre = Ok tokens \<and> prefix_rule_line tokens \<in> set (lines (txt w' path))"
proof -
  obtain tokens where tokens: "json_list js pre = Ok tokens"
    and run: "append_rule_line fs path (prefix_rule_line tokens) w = (w', Ok ())"
    using assms(3) by (auto simp: blocking_append_allow_prefix_rule_def split: if_splits result.splits)
  note one_line = prefix_rule_line_one_line[OF json_list_one_line[OF assms(2) tokens]]
  show ?thesis using append_rule_line_Ok(1)[OF assms(1) run one_line(1) disjI2[OF one_line(2)]] tokens by simp
qed

lemma add_prefix_rule_lookup:
  assumes "add_prefix_rule (c # cs) d p = (Ok q :: (policy, 's policy_error) result)"
  shows "lookup_rules (rules_by_program q) k = lookup_rules (rules_by_program p) k @
      (if c = k then [\<lparr>pattern = \<lparr>first = c, rest = map Single cs\<rparr>, rule_decision = d, justification = None\<rparr>] else [])"
    and "network_rules q = network_rules p" and "host_executables_by_name q = host_executables_by_name p"
proof -
  let ?r = "\<lparr>pattern = \<lparr>first = c, rest = map Single cs\<rparr>, rule_decision = d, justification = None\<rparr>"
  have q: "q = p\<lparr>rules_by_program := multi_insert c ?r (rules_by_program p)\<rparr>"
    using assms by (simp add: add_prefix_rule_def)
  have "rule_program ?r = c" by (simp add: rule_program_def)
  then show "lookup_rules (rules_by_program q) k = lookup_rules (rules_by_program p) k @ (if c = k then [?r] else [])"
    using lookup_insert[of ?r "rules_by_program p" k] by (simp add: q)
qed (use assms in \<open>auto simp: add_prefix_rule_def\<close>)

lemma add_prefix_rule_match:
  assumes "add_prefix_rule pre d p = (Ok q :: (policy, 's policy_error) result)"
  shows "PrefixRuleMatch pre d None None \<in> set (matched_rules_of env q False (pre @ args))"
    and "set (matched_rules_of env p False cmd) \<subseteq> set (matched_rules_of env q False cmd)"
proof -
  obtain c cs where pre: "pre = c # cs" using assms by (auto simp: add_prefix_rule_def split: list.splits)
  note look = add_prefix_rule_lookup(1)[OF assms[unfolded pre]]
  have "list_all2 (\<lambda>p a. a \<in> set (alternatives p)) (map Single cs) cs" by (simp add: list_all2_conv_all_nth)
  then show "PrefixRuleMatch pre d None None \<in> set (matched_rules_of env q False (pre @ args))"
    unfolding matched_rules_exact exact_matches_set look pre
    by (auto simp: rule_matches_Some_iff rule_program_def)
  show "set (matched_rules_of env p False cmd) \<subseteq> set (matched_rules_of env q False cmd)"
    by (rule exact_matches_mono) (auto simp: look)
qed

lemma already_allowed_match:
  assumes "check_multiple_with_options env p [cmd] h resolve = Some ev" and "already_allowed ev"
  shows "Allow \<in> match_decision ` set (matched_rules_of env p resolve cmd)"
  using assms by (force simp: check_multiple_with_options_def from_matches_Some_iff matches_with_fallback already_allowed_def
      list_ex_iff split: if_splits)

lemma added_rule_in_force:
  assumes "add_prefix_rule pre Allow p = (Ok q :: (policy, 's policy_error) result)"
  shows "Allow \<in> match_decision ` set (matched_rules_of env q True pre)"
    and "network_rules q = network_rules p" and "host_executables_by_name q = host_executables_by_name p"
proof -
  have "PrefixRuleMatch pre Allow None None \<in> set (matched_rules_of env q True pre)"
    using add_prefix_rule_match(1)[OF assms, of env "[]"] exact_matches_resolve[of _ env q pre True] by simp
  from imageI[OF this, of match_decision] show "Allow \<in> match_decision ` set (matched_rules_of env q True pre)" by simp
qed (use assms in \<open>auto simp: add_prefix_rule_def Let_def split: list.splits\<close>)

text \<open>
  C25: What the user approves for good is on disk and in force. An update returns on every input. When it
  succeeds, the line of the rule is in the default policy file, the policy of the session allows the
  approved command by a rule, it keeps every rule it had, and nothing else of it changes. When it fails,
  the policy of the session is as it was.
\<close>

theorem amendment_in_force:
  fixes rt :: "('w, 'j) task_runner"
  assumes "runs_task rt" and "policy_files fs txt" and "json_one_line js"
  shows "\<exists>w' mgr' r. append_amendment_and_update rt js fs env codex_home amendment mgr w =
      Some (w', mgr', r :: (unit, ('s, 'j) exec_policy_update_error) result) \<and>
    (case r of
       Err e \<Rightarrow> mgr' = mgr
     | Ok _ \<Rightarrow>
         (\<exists>tokens. json_list js amendment = Ok tokens \<and>
            prefix_rule_line tokens \<in> set (lines (txt w' (default_policy_path codex_home)))) \<and>
         Allow \<in> match_decision ` set (matched_rules_of env (current mgr') True amendment) \<and>
         (\<forall>cmd. set (matched_rules_of env (current mgr) False cmd) \<subseteq> set (matched_rules_of env (current mgr') False cmd)) \<and>
         network_rules (current mgr') = network_rules (current mgr) \<and>
         host_executables_by_name (current mgr') = host_executables_by_name (current mgr))"
proof (cases "semaphore_closed rt")
  case True
  then show ?thesis by (simp add: append_amendment_and_update_def)
next
  case False
  let ?path = "default_policy_path codex_home"
  obtain w' res where sp: "spawn rt (blocking_append_allow_prefix_rule js fs ?path amendment) w = (w', res)" by force
  show ?thesis
  proof (cases "\<exists>u. res = Ok (Ok u)")
    case False': False
    then consider j where "res = Err j" | e where "res = Ok (Err e)"
      by (cases res) (metis result.exhaust, blast)
    then show ?thesis using False sp by cases (simp_all add: append_amendment_and_update_def Let_def)
  next
    case True
    then have run: "blocking_append_allow_prefix_rule js fs ?path amendment w = (w', Ok ())"
      using assms(1) sp by (auto simp: runs_task_def)
    have ne: "amendment \<noteq> []" using run by (auto simp: blocking_append_allow_prefix_rule_def)
    obtain ev where ev: "check_multiple_with_options env (current mgr) [amendment] (\<lambda>_. Forbidden) True = Some ev"
      using evaluation_exists[of "[amendment]"] by blast
    note line = saved_line[OF assms(2,3) run]
    show ?thesis
    proof (cases "already_allowed ev")
      case allowed: True
      then show ?thesis
        using False sp True ev line already_allowed_match[OF ev allowed]
        by (auto simp: append_amendment_and_update_def Let_def)
    next
      case not_allowed: False
      obtain q where q: "add_prefix_rule amendment Allow (current mgr) = (Ok q :: (policy, 's policy_error) result)"
        using ne by (cases amendment) (auto simp: add_prefix_rule_def Let_def)
      then show ?thesis
        using False sp True ev line not_allowed q added_rule_in_force(1)[OF q, of env] added_rule_in_force(2,3)[OF q] add_prefix_rule_match(2)[OF q, of env]
        by (auto simp: append_amendment_and_update_def Let_def)
    qed
  qed
qed

text \<open>
  A network rule is saved and added together: on success the rule is the last of the policy, under its
  normalised host, and on failure the policy is as it was.
\<close>

lemma network_rule_in_force:
  assumes "append_network_rule_and_update rt other js fs codex_home raw_host proto d j mgr w =
    (w', mgr', r :: (unit, ('s, 'j) exec_policy_update_error) result)"
  shows "(case r of
     Err e \<Rightarrow> mgr' = mgr
   | Ok _ \<Rightarrow> \<exists>h. normalize_network_rule_host raw_host = (Ok h :: (rstr, 's policy_error) result) \<and>
       current mgr' = (current mgr)\<lparr>network_rules := network_rules (current mgr) @
         [\<lparr>host = h, protocol = proto, net_decision = d, net_justification = j\<rparr>]\<rparr>)"
  using assms by (auto simp: append_network_rule_and_update_def add_network_rule_def Let_def
      split: if_splits prod.splits result.splits)

section \<open>Names and paths\<close>

text \<open>
  The merge keeps the strictest of the exact matches only. A rule for the path of a program is an exact
  match that hides the rules for its name.
\<close>

definition path_rule_policy :: policy where
  "path_rule_policy = policy_new [(lit ''/usr/bin/git'', [\<lparr>pattern = \<lparr>first = lit ''/usr/bin/git'', rest = []\<rparr>,
     rule_decision = Allow, justification = None\<rparr>])]"

definition git_requirement :: policy where
  "git_requirement = policy_new [(lit ''git'', [\<lparr>pattern = \<lparr>first = lit ''git'', rest = []\<rparr>,
     rule_decision = Forbidden, justification = None\<rparr>])]"


section \<open>Sharing a policy\<close>

text \<open>Without ignored layers, the files are those of the folders.\<close>

fun folder_paths :: "rules_fs \<Rightarrow> absolute_path list \<Rightarrow> (absolute_path list, 's exec_policy_error) result" where
  "folder_paths fs [] = Ok []"
| "folder_paths fs (folder # folders) =
     bind_result (collect_policy_files fs (folder @ [RULES_DIR_NAME])) (\<lambda>ps.
     bind_result (folder_paths fs folders) (\<lambda>qs. Ok (ps @ qs)))"

lemma policy_paths_folders: "policy_paths fs False ls = folder_paths fs (List.map_filter config_folder ls)"
  by (induction ls) (auto simp: layer_is_ignored_def List.map_filter_simps split: option.splits)

text \<open>Equality of requirements compares renderings; it is equality of rules where these are distinct.\<close>

definition rule_entry :: "(prefix_rule \<Rightarrow> rstr) \<Rightarrow> prefix_rule \<Rightarrow> rstr" where
  "rule_entry debug r = rule_program r @ lit '':'' @ debug r"

lemma fingerprint_set: "index_ok (rules_by_program p) \<Longrightarrow> set (fingerprint debug p) = rule_entry debug ` set (all_rules p)"
  by (force simp: fingerprint_def index_ok_def rule_entry_def all_rules_def)

lemma exact_matches_scan:
  assumes "index_ok (rules_by_program p)"
  shows "set (matched_rules_of env p False cmd) = {m. \<exists>r \<in> set (all_rules p). rule_matches r cmd = Some m}"
proof (cases cmd)
  case Nil
  then show ?thesis by (auto simp: matched_rules_exact match_exact_rules_def or_default_def dest: rule_matches_program)
next
  case (Cons c cs)
  have "matched_rules_of env p False cmd = List.map_filter (\<lambda>r. rule_matches r (c # cs)) (or_default (map_of (rules_by_program p) c))"
    unfolding matched_rules_exact Cons match_exact_or_default by (simp add: or_default_def)
  also have "\<dots> = List.map_filter (\<lambda>r. rule_matches r (c # cs)) (all_rules p)"
    using assms unfolding all_rules_def index_ok_def by (intro index_scan[symmetric]) auto
  finally show ?thesis unfolding Cons by (simp add: map_filter_set)
qed

lemma requirements_eq_matches:
  assumes "requirements_eq debug p q" and "inj_on (rule_entry debug) (set (all_rules p) \<union> set (all_rules q))"
    and "index_ok (rules_by_program p)" and "index_ok (rules_by_program q)"
  shows "set (matched_rules_of env p False cmd) = set (matched_rules_of env q False cmd)"
proof -
  have "rule_entry debug ` set (all_rules p) = rule_entry debug ` set (all_rules q)"
    using assms(1) fingerprint_set[OF assms(3), of debug] fingerprint_set[OF assms(4), of debug] by (simp add: requirements_eq_def)
  then have "set (all_rules p) = set (all_rules q)"
    using inj_on_image_eq_iff[OF assms(2)] by auto
  then show ?thesis by (simp add: exact_matches_scan assms)
qed

text \<open>The rules of the requirements of a stack; none if it has no requirements.\<close>

definition required_rules :: "('c, 'r config_requirements_scheme) config_layer_stack \<Rightarrow> prefix_rule list" where
  "required_rules stack = (case exec_policy (requirements stack) of None \<Rightarrow> [] | Some (p, _) \<Rightarrow> all_rules p)"

definition requirements_indexed :: "('c, 'r config_requirements_scheme) config_layer_stack \<Rightarrow> bool" where
  "requirements_indexed stack \<longleftrightarrow> (case exec_policy (requirements stack) of None \<Rightarrow> True | Some (p, _) \<Rightarrow> index_ok (rules_by_program p))"

text \<open>
  A child that shares its parent's policy would have loaded the same. When no layers are ignored and
  the comparison finds the configurations equal, a child that loads its own policy from the same files
  gets one with the same matches for every command.
\<close>

theorem shared_policy_is_same:
  fixes st :: "'s host_language"
  assumes "child_uses_parent_exec_policy debug parent child"
    and "\<not> ignore_user_and_project_exec_policy_rules parent"
    and "inj_on (rule_entry debug) (set (required_rules parent) \<union> set (required_rules child))"
    and "requirements_indexed parent" and "requirements_indexed child"
    and "load_exec_policy st env fs parent = Ok p"
  shows "\<exists>q. load_exec_policy st env fs child = Ok q \<and>
    set (matched_rules_of env' q False cmd) = set (matched_rules_of env' p False cmd)"
proof -
  note same = assms(1)[unfolded child_uses_parent_exec_policy_def exec_policy_config_folders_def]
  obtain paths b where paths: "policy_paths fs False (layers_low_to_high parent) = (Ok paths :: (_, 's exec_policy_error) result)"
    and b: "parse_policy_paths st env fs paths builder_new = Ok b"
    and p: "p = (case exec_policy (requirements parent) of None \<Rightarrow> build b | Some (r, _) \<Rightarrow> merge_overlay (build b) r)"
    using assms(2,6) by (elim load_exec_policy_Ok) (rule that, simp_all)
  have "policy_paths fs False (layers_low_to_high child) = (Ok paths :: (_, 's exec_policy_error) result)"
    using paths same unfolding policy_paths_folders by simp
  then have load: "load_exec_policy st env fs child =
      Ok (case exec_policy (requirements child) of None \<Rightarrow> build b | Some (r, _) \<Rightarrow> merge_overlay (build b) r)"
    using b same assms(2) by (auto simp: load_exec_policy_def split: option.splits)
  show ?thesis
  proof (cases "exec_policy (requirements parent)")
    case None
    then show ?thesis using same load p by (cases "exec_policy (requirements child)") auto
  next
    case (Some rs)
    then obtain r s r' s' where r: "exec_policy (requirements parent) = Some (r, s)" "exec_policy (requirements child) = Some (r', s')"
      and eq: "requirements_eq debug r r'"
      using same by (cases rs; cases "exec_policy (requirements child)") auto
    have ok: "index_ok (rules_by_program r)" "index_ok (rules_by_program r')"
      using assms(4,5) r by (auto simp: requirements_indexed_def)
    have "set (matched_rules_of env' r False cmd) = set (matched_rules_of env' r' False cmd)"
      using requirements_eq_matches[OF eq _ ok] assms(3) r by (simp add: required_rules_def)
    then show ?thesis using load p r by (simp add: merge_keeps[OF built_index_ok[OF b]] ok)
  qed
qed

section \<open>Samples\<close>

text \<open>Policy files without rules, one of them in the system folder.\<close>

definition quiet_language :: "unit host_language" where
  "quiet_language = sample_language\<lparr>evaluate := (\<lambda>_ _. ([], None))\<rparr>"

definition sample_rules_fs :: rules_fs where
  "sample_rules_fs = \<lparr>read_dir = (\<lambda>dir. if dir = [lit ''etc'', lit ''codex'', lit ''rules'']
       then Ok [Ok \<lparr>entry_name = lit ''a.rules'', entry_is_file = Ok True\<rparr>] else Err (mem_io NotFound)),
     read_to_string = (\<lambda>_. Ok [])\<rparr>"

definition policy_stack :: "(unit, config_requirements) config_layer_stack" where
  "policy_stack = \<lparr>model_provider_requirements = None, layers = sample_layers,
     requirements = \<lparr>exec_policy = Some (git_requirement, UnknownSource)\<rparr>,
     ignore_user_and_project_exec_policy_rules = False, startup_warnings = None\<rparr>"

lemma quiet_parse: "parse quiet_language env ident contents builder_new = (builder_new, Ok ())"
  by (simp add: parse_def quiet_language_def validate_pending_examples_from_def builder_new_def)

lemma sample_paths:
  "policy_paths sample_rules_fs False (take n sample_layers) =
     (if n = 0 then Ok [] else Ok [[lit ''etc'', lit ''codex'', lit ''rules'', lit ''a.rules'']])"
  by (cases n; cases "n - 1"; cases "n - 2"; cases "n - 3")
    (auto simp: sample_layers_def layer_is_ignored_def config_folder_def layer_new_def parent_path_def RULES_DIR_NAME_def
      collect_policy_files_def sample_rules_fs_def mem_io_def name_extension_def rsplit_once_def split_once_def RULE_EXTENSION_def lit_def)

lemma sample_enabled: "layers_low_to_high (policy_stack\<lparr>layers := take n sample_layers\<rparr>) = take n sample_layers"
proof -
  have "\<forall>l \<in> set sample_layers. \<not> is_disabled l"
    by (simp add: sample_layers_def layer_new_def is_disabled_def)
  then show ?thesis
    by (auto simp: layers_low_to_high_def all_layers_low_to_high_def filter_id_conv dest: in_set_takeD)
qed

lemma sample_load:
  "load_exec_policy quiet_language sample_env sample_rules_fs (policy_stack\<lparr>layers := take n sample_layers\<rparr>) =
     Ok (merge_overlay (build builder_new) git_requirement)"
proof -
  have "read_to_string sample_rules_fs = (\<lambda>_. Ok [])" by (simp add: sample_rules_fs_def)
  then show ?thesis
    unfolding load_exec_policy_def sample_enabled
    by (simp add: policy_stack_def sample_paths quiet_parse)
qed

lemma sample_load_all:
  "load_exec_policy quiet_language sample_env sample_rules_fs policy_stack = Ok (merge_overlay (build builder_new) git_requirement)"
  using sample_load[of 4] by (simp add: policy_stack_def sample_layers_def)

lemma git_requirement_facts:
  "index_ok (rules_by_program git_requirement)"
  "all_rules git_requirement = [\<lparr>pattern = \<lparr>first = lit ''git'', rest = []\<rparr>, rule_decision = Forbidden, justification = None\<rparr>]"
  "PrefixRuleMatch [lit ''git''] Forbidden None None \<in> set (matched_rules_of sample_env git_requirement False [lit ''git'', lit ''push''])"
  by (simp_all add: git_requirement_def policy_new_def policy_from_parts_def index_ok_def rule_program_def all_rules_def
      matched_rules_of_def match_exact_rules_def List.map_filter_simps rule_matches_def matches_prefix_def)


lemma higher_layers_only_add_witness:
  "\<exists>p q. load_exec_policy quiet_language sample_env sample_rules_fs (policy_stack\<lparr>layers := take 1 sample_layers @ drop 1 sample_layers\<rparr>) = Ok p \<and>
     load_exec_policy quiet_language sample_env sample_rules_fs (policy_stack\<lparr>layers := take 1 sample_layers\<rparr>) = Ok q \<and>
     set (matched_rules_of sample_env q False [lit ''git'']) \<subseteq> set (matched_rules_of sample_env p False [lit ''git''])"
proof -
  let ?p = "merge_overlay (build builder_new) git_requirement"
  have p: "load_exec_policy quiet_language sample_env sample_rules_fs (policy_stack\<lparr>layers := take 1 sample_layers @ drop 1 sample_layers\<rparr>) = Ok ?p"
    using sample_load[of 4] by (simp add: sample_layers_def)
  have i: "\<forall>required source. exec_policy (requirements policy_stack) = Some (required, source) \<longrightarrow> index_ok (rules_by_program required)"
    by (simp add: policy_stack_def git_requirement_facts)
  from higher_layers_only_add[OF p i, of sample_env "[lit ''git'']"] p show ?thesis by blast
qed

lemma shared_policy_is_same_witness:
  "\<exists>q. load_exec_policy quiet_language sample_env sample_rules_fs policy_stack = Ok q \<and>
     set (matched_rules_of sample_env q False [lit ''git'']) =
     set (matched_rules_of sample_env (merge_overlay (build builder_new) git_requirement) False [lit ''git''])"
proof (rule shared_policy_is_same[OF _ _ _ _ _ sample_load_all, of "\<lambda>_. []"])
  show "child_uses_parent_exec_policy (\<lambda>_. []) policy_stack policy_stack"
    by (simp add: child_uses_parent_exec_policy_def policy_stack_def requirements_eq_def)
  show "requirements_indexed policy_stack"
    by (simp add: requirements_indexed_def policy_stack_def git_requirement_facts)
  then show "requirements_indexed policy_stack" .
  show "inj_on (rule_entry (\<lambda>_. [])) (set (required_rules policy_stack) \<union> set (required_rules policy_stack))"
    by (simp add: required_rules_def policy_stack_def git_requirement_facts)
qed (simp add: policy_stack_def)

definition direct_runner :: "('w, unit) task_runner" where
  "direct_runner = \<lparr>semaphore_closed = False, spawn = (\<lambda>task w. (fst (task w), Ok (snd (task w))))\<rparr>"

lemma amendment_in_force_witness:
  "\<exists>w' mgr'. append_amendment_and_update direct_runner plain_json mem_policy_fs sample_env [] [lit ''ls''] (manager_new policy_empty) Map.empty =
      Some (w', mgr', Ok () :: (unit, (unit, unit) exec_policy_update_error) result) \<and>
    Allow \<in> match_decision ` set (matched_rules_of sample_env (current mgr') True [lit ''ls''])"
proof -
  have run: "runs_task direct_runner" by (auto simp: runs_task_def direct_runner_def prod_eq_iff)
  have js: "json_one_line plain_json" by (simp add: json_one_line_def plain_json_def)
  have saved: "snd (blocking_append_allow_prefix_rule plain_json mem_policy_fs (default_policy_path []) [lit ''ls''] Map.empty) = Ok ()"
    by (simp add: blocking_append_allow_prefix_rule_def plain_json_def append_rule_line_def append_locked_line_def io_then_def
        mem_policy_fs_def mem_io_def mem_text_def or_default_def lines_def)
  obtain ev where "check_multiple_with_options sample_env (current (manager_new policy_empty)) [[lit ''ls'']] (\<lambda>_. Forbidden) True = Some ev"
    using evaluation_exists by blast
  then have "\<exists>w' mgr'. append_amendment_and_update direct_runner plain_json mem_policy_fs sample_env [] [lit ''ls''] (manager_new policy_empty) Map.empty =
      Some (w', mgr', Ok () :: (unit, (unit, unit) exec_policy_update_error) result)"
    by (cases "already_allowed ev") (simp_all add: append_amendment_and_update_def direct_runner_def saved Let_def add_prefix_rule_def)
  then show ?thesis
    using amendment_in_force[OF run mem_policy_files js, of sample_env "[]" "[lit ''ls'']" "manager_new policy_empty" Map.empty,
      where ?'s = unit] by auto
qed

end
