(* ===== verification/Head_Tail_Buffer.thy ===== *)
theory Head_Tail_Buffer
  imports Prelude "HOL-Library.Word"
begin

text \<open>
  \<open>core/src/unified_exec/head_tail_buffer.rs\<close>: the output of a long-running command, of which a stable
  prefix and the newest suffix are kept in a fixed budget. The const parameter \<open>MAX_BYTES\<close> is the
  argument \<open>cap\<close>; \<open>usize\<close> additions that saturate do so at the largest 64-bit number.

  Every sequence of pushes, of chunks or of whole buffers, leaves the summary of the concatenated
  output: a function of the bytes alone, however they were cut.
\<close>

type_synonym byte = "8 word"

definition usize_max :: nat where "usize_max = 2 ^ 64 - 1"

definition saturating_add :: "nat \<Rightarrow> nat \<Rightarrow> nat" where
  "saturating_add a b = min (a + b) usize_max"

record head_tail_buffer =
  head :: "byte list"
  tail :: "byte list"
  omitted_bytes :: nat

definition empty_buffer :: head_tail_buffer where
  "empty_buffer = \<lparr>head = [], tail = [], omitted_bytes = 0\<rparr>"

definition HEAD_BUDGET :: "nat \<Rightarrow> nat" where
  "HEAD_BUDGET cap = cap div 2"

definition TAIL_BUDGET :: "nat \<Rightarrow> nat" where
  "TAIL_BUDGET cap = cap - HEAD_BUDGET cap"

definition retained_bytes :: "head_tail_buffer \<Rightarrow> nat" where
  "retained_bytes b = saturating_add (length (head b)) (length (tail b))"

definition total_bytes :: "head_tail_buffer \<Rightarrow> nat" where
  "total_bytes b = saturating_add (retained_bytes b) (omitted_bytes b)"

text \<open>\<open>split_at_checked\<close> past the end gives the whole chunk and nothing.\<close>

definition fill_head :: "nat \<Rightarrow> byte list \<Rightarrow> head_tail_buffer \<Rightarrow> head_tail_buffer \<times> byte list" where
  "fill_head cap chunk b =
     (let remaining_head = HEAD_BUDGET cap - length (head b);
          (chunk_head, chunk_tail) =
            (if remaining_head \<le> length chunk then (take remaining_head chunk, drop remaining_head chunk)
             else (chunk, []))
      in (b\<lparr>head := head b @ chunk_head\<rparr>, chunk_tail))"

text \<open>The bytes skipped are part of the chunk's excess, so the slice does not panic.\<close>

definition push_tail :: "nat \<Rightarrow> byte list \<Rightarrow> head_tail_buffer \<Rightarrow> head_tail_buffer" where
  "push_tail cap chunk b =
     (let remaining_tail = TAIL_BUDGET cap - length (tail b);
          excess_tail = length chunk - remaining_tail;
          b1 = b\<lparr>omitted_bytes := saturating_add (omitted_bytes b) excess_tail\<rparr>
      in if excess_tail < length (tail b)
         then b1\<lparr>tail := drop excess_tail (tail b) @ chunk\<rparr>
         else b1\<lparr>tail := drop (excess_tail - length (tail b)) chunk\<rparr>)"

definition push_chunk :: "nat \<Rightarrow> byte list \<Rightarrow> head_tail_buffer \<Rightarrow> head_tail_buffer" where
  "push_chunk cap chunk b = (let (b1, rest_chunk) = fill_head cap chunk b in push_tail cap rest_chunk b1)"

definition to_bytes :: "head_tail_buffer \<Rightarrow> byte list" where
  "to_bytes b = head b @ tail b"

fun decimal_bytes :: "nat \<Rightarrow> byte list" where
  "decimal_bytes n = (if n < 10 then [of_nat (48 + n)] else decimal_bytes (n div 10) @ [of_nat (48 + n mod 10)])"

definition ascii_bytes :: "rstr \<Rightarrow> byte list" where
  "ascii_bytes s = map of_nat s"

definition format_output_omission_marker :: "nat \<Rightarrow> byte list" where
  "format_output_omission_marker n = ascii_bytes (lit ''... '') @ decimal_bytes n @ ascii_bytes (lit '' bytes omitted ...'')"

definition to_bytes_with_omission_marker :: "head_tail_buffer \<Rightarrow> byte list" where
  "to_bytes_with_omission_marker b =
     (if omitted_bytes b = 0 then to_bytes b
      else head b @ [10] @ format_output_omission_marker (omitted_bytes b) @ [10] @ tail b)"

text \<open>
  \<open>VecDeque::as_slices\<close> cuts the source tail at a place that depends on its memory: the argument \<open>k\<close>.
\<close>

definition push_buffer :: "nat \<Rightarrow> nat \<Rightarrow> head_tail_buffer \<Rightarrow> head_tail_buffer \<Rightarrow> head_tail_buffer" where
  "push_buffer cap k src b =
     (let b1 = b\<lparr>omitted_bytes := saturating_add (omitted_bytes b) (omitted_bytes src)\<rparr>;
          (b2, overflow) = (if head b1 = [] then (b1\<lparr>head := head src\<rparr>, []) else fill_head cap (head src) b1)
      in if length (tail src) = TAIL_BUDGET cap
         then b2\<lparr>omitted_bytes := saturating_add (saturating_add (omitted_bytes b2) (length (tail b2))) (length overflow),
                 tail := tail src\<rparr>
         else (let b3 = push_tail cap overflow b2
               in if tail b3 = [] then b3\<lparr>tail := tail src\<rparr>
                  else push_tail cap (drop k (tail src)) (push_tail cap (take k (tail src)) b3)))"

section \<open>Specification\<close>

definition lastn :: "nat \<Rightarrow> 'a list \<Rightarrow> 'a list" where
  "lastn n xs = drop (length xs - n) xs"

definition summary :: "nat \<Rightarrow> byte list \<Rightarrow> head_tail_buffer" where
  "summary cap s =
     \<lparr>head = take (HEAD_BUDGET cap) s,
      tail = lastn (TAIL_BUDGET cap) (drop (HEAD_BUDGET cap) s),
      omitted_bytes = min (length s - cap) usize_max\<rparr>"

lemma budgets: "HEAD_BUDGET cap + TAIL_BUDGET cap = cap"
  by (simp add: HEAD_BUDGET_def TAIL_BUDGET_def)

lemma length_lastn [simp]: "length (lastn n xs) = min n (length xs)"
  by (simp add: lastn_def)

lemma lastn_append: "lastn n (xs @ ys) = (if n \<le> length ys then lastn n ys else lastn (n - length ys) xs @ ys)"
  by (auto simp: lastn_def)

lemma saturating_add_min: "saturating_add (min a usize_max) b = min (a + b) usize_max"
  "saturating_add (min a usize_max) (min b usize_max) = min (a + b) usize_max"
  by (auto simp: saturating_add_def min_def)

text \<open>The tail of the bytes \<open>u\<close> that did not fit the head.\<close>

lemma push_tail_spec:
  assumes "tail b = lastn (TAIL_BUDGET cap) u" and "omitted_bytes b = min (length u - TAIL_BUDGET cap) usize_max"
  shows "push_tail cap c b = b\<lparr>tail := lastn (TAIL_BUDGET cap) (u @ c),
     omitted_bytes := min (length (u @ c) - TAIL_BUDGET cap) usize_max\<rparr>"
proof -
  let ?T = "TAIL_BUDGET cap"
  have om: "saturating_add (omitted_bytes b) (length c - (?T - length (tail b))) = min (length (u @ c) - ?T) usize_max"
    by (auto simp: assms saturating_add_def min_def)
  have tl: "(if length c - (?T - length (tail b)) < length (tail b)
      then drop (length c - (?T - length (tail b))) (tail b) @ c
      else drop (length c - (?T - length (tail b)) - length (tail b)) c) = lastn ?T (u @ c)"
  proof (cases "?T \<le> length u")
    case True
    moreover have "length c + (length u - ?T) = length u + length c - ?T" using True by simp
    ultimately show ?thesis by (auto simp: assms lastn_def min_def)
  next
    case False
    moreover have "length c - (?T - length u) = length u + length c - ?T" using False by simp
    ultimately show ?thesis by (auto simp: assms lastn_def min_def)
  qed
  show ?thesis
    unfolding push_tail_def Let_def om using tl by (cases b) (auto split: if_splits)
qed

lemma push_chunk_summary: "push_chunk cap c (summary cap s) = summary cap (s @ c)"
proof -
  let ?H = "HEAD_BUDGET cap"
  let ?r = "?H - length s"
  have f: "fill_head cap c (summary cap s) = ((summary cap s)\<lparr>head := take ?H (s @ c)\<rparr>, drop ?r c)"
    by (auto simp: fill_head_def summary_def Let_def min_def)
  have om: "length s - cap = length (drop ?H s) - TAIL_BUDGET cap" for s :: "byte list"
    using budgets[of cap] by auto
  have t: "tail ((summary cap s)\<lparr>head := take ?H (s @ c)\<rparr>) = lastn (TAIL_BUDGET cap) (drop ?H s)"
    by (simp add: summary_def)
  have o: "omitted_bytes ((summary cap s)\<lparr>head := take ?H (s @ c)\<rparr>) = min (length (drop ?H s) - TAIL_BUDGET cap) usize_max"
    by (simp only: summary_def om head_tail_buffer.simps)
  have d: "drop ?H s @ drop ?r c = drop ?H (s @ c)" by simp
  show ?thesis
    unfolding push_chunk_def f Let_def prod.case push_tail_spec[OF t o] d
    by (simp only: summary_def head_tail_buffer.simps om)
qed

lemma summary_Nil: "summary cap [] = empty_buffer"
  by (simp add: summary_def empty_buffer_def lastn_def)

lemma push_chunks_summary: "foldl (\<lambda>b c. push_chunk cap c b) (summary cap s) cs = summary cap (s @ concat cs)"
  by (induction cs arbitrary: s) (auto simp: push_chunk_summary)

lemma omitted_sum: "n \<le> c \<Longrightarrow> (a - n) + (c - n) + min n a + b = a + b + c - (n :: nat)"
  by (cases "n \<le> a") auto

lemma push_buffer_summary: "push_buffer cap k (summary cap t) (summary cap s) = summary cap (s @ t)"
proof -
  let ?H = "HEAD_BUDGET cap" and ?T = "TAIL_BUDGET cap"
  let ?u = "drop ?H s" and ?v = "drop ?H t" and ?ov = "drop (?H - length s) (take ?H t)"
  have om: "length s - cap = length (drop ?H s) - ?T" for s :: "byte list"
    using budgets[of cap] by auto
  have uv: "drop ?H (s @ t) = ?u @ ?ov @ ?v"
  proof -
    have "drop (?H - length s) t = drop (?H - length s) (take ?H t @ drop ?H t)" by simp
    also have "\<dots> = ?ov @ ?v" by (subst drop_append) (simp add: min_def)
    finally show ?thesis by simp
  qed
  let ?b1 = "(summary cap s)\<lparr>omitted_bytes := saturating_add (omitted_bytes (summary cap s)) (omitted_bytes (summary cap t))\<rparr>"
  have o1: "omitted_bytes ?b1 = min ((length ?u - ?T) + (length ?v - ?T)) usize_max"
    by (simp only: summary_def saturating_add_min(2) om head_tail_buffer.simps)
  have b2: "(if head ?b1 = [] then (?b1\<lparr>head := head (summary cap t)\<rparr>, []) else fill_head cap (head (summary cap t)) ?b1) =
      (?b1\<lparr>head := take ?H (s @ t)\<rparr>, ?ov)"
    by (auto simp: summary_def fill_head_def Let_def min_def)
  let ?b2 = "?b1\<lparr>head := take ?H (s @ t)\<rparr>"
  have fold: "push_buffer cap k (summary cap t) (summary cap s) =
      (if length (tail (summary cap t)) = ?T
       then ?b2\<lparr>omitted_bytes := saturating_add (saturating_add (omitted_bytes ?b2) (length (tail ?b2))) (length ?ov),
              tail := tail (summary cap t)\<rparr>
       else (let b3 = push_tail cap ?ov ?b2
             in if tail b3 = [] then b3\<lparr>tail := tail (summary cap t)\<rparr>
                else push_tail cap (drop k (tail (summary cap t))) (push_tail cap (take k (tail (summary cap t))) b3)))"
    unfolding push_buffer_def Let_def b2 by simp
  have goal: "summary cap (s @ t) = \<lparr>head = take ?H (s @ t), tail = lastn ?T (?u @ ?ov @ ?v),
      omitted_bytes = min (length (?u @ ?ov @ ?v) - ?T) usize_max\<rparr>"
    by (simp only: summary_def om uv)
  have b2_eq: "?b2 = \<lparr>head = take ?H (s @ t), tail = lastn ?T ?u,
      omitted_bytes = min ((length ?u - ?T) + (length ?v - ?T)) usize_max\<rparr>"
    using o1 by (simp add: summary_def)
  have tt: "tail (summary cap t) = lastn ?T ?v" by (simp add: summary_def)
  show ?thesis
  proof (cases "?T \<le> length ?v")
    case True
    have "length (lastn ?T ?v) = ?T" using True by simp
    moreover have "lastn ?T (?u @ ?ov @ ?v) = lastn ?T ?v" using True by (simp add: lastn_append)
    moreover have "(length ?u - ?T) + (length ?v - ?T) + min ?T (length ?u) + length ?ov = length (?u @ ?ov @ ?v) - ?T"
      unfolding length_append using omitted_sum[OF True, of "length ?u" "length ?ov"] by (simp only: add.assoc)
    ultimately show ?thesis
      unfolding fold goal b2_eq tt
      by (simp only: saturating_add_min(1) head_tail_buffer.simps length_lastn refl if_True)
  next
    case False
    then have small: "length ?v < ?T" "lastn ?T ?v = ?v" "length (lastn ?T ?v) \<noteq> ?T" by (auto simp: lastn_def)
    have t2: "tail ?b2 = lastn ?T ?u" "omitted_bytes ?b2 = min (length ?u - ?T) usize_max"
      unfolding b2_eq using small(1) by simp_all
    let ?b3 = "?b2\<lparr>tail := lastn ?T (?u @ ?ov), omitted_bytes := min (length (?u @ ?ov) - ?T) usize_max\<rparr>"
    have p3: "push_tail cap ?ov ?b2 = ?b3" by (rule push_tail_spec[OF t2])
    show ?thesis
    proof (cases "lastn ?T (?u @ ?ov) = []")
      case True
      then have nil: "?u = []" "?ov = []" using small(1) by (auto simp: lastn_def)
      have "push_buffer cap k (summary cap t) (summary cap s) = ?b3\<lparr>tail := ?v\<rparr>"
        unfolding fold tt Let_def p3 using small True by simp
      also have "\<dots> = summary cap (s @ t)"
        unfolding goal b2_eq nil using small by simp
      finally show ?thesis .
    next
      case ne: False
      have s1: "push_tail cap (take k ?v) ?b3 = ?b3\<lparr>tail := lastn ?T ((?u @ ?ov) @ take k ?v),
          omitted_bytes := min (length ((?u @ ?ov) @ take k ?v) - ?T) usize_max\<rparr>"
        by (rule push_tail_spec) simp_all
      have s2: "push_tail cap (drop k ?v) (push_tail cap (take k ?v) ?b3) =
          (push_tail cap (take k ?v) ?b3)\<lparr>tail := lastn ?T (((?u @ ?ov) @ take k ?v) @ drop k ?v),
            omitted_bytes := min (length (((?u @ ?ov) @ take k ?v) @ drop k ?v) - ?T) usize_max\<rparr>"
        by (rule push_tail_spec, unfold s1) simp_all
      have cat: "((?u @ ?ov) @ take k ?v) @ drop k ?v = ?u @ ?ov @ ?v" by (simp only: append_assoc append_take_drop_id)
      have "push_buffer cap k (summary cap t) (summary cap s) = push_tail cap (drop k ?v) (push_tail cap (take k ?v) ?b3)"
        unfolding fold tt Let_def p3 using small ne by simp
      also have "\<dots> = summary cap (s @ t)"
        unfolding s2 cat unfolding s1 unfolding goal b2_eq by simp
      finally show ?thesis .
    qed
  qed
qed

text \<open>
  C33: Output is summarised independently of how it arrives. Whatever sequence of chunks a buffer with the
  budget \<open>cap\<close> receives, it holds the first half of the budget from the start of the output, the
  newest bytes after that in the rest of the budget, and the number of bytes left out; and merging
  the buffer of a later part into it, wherever the later buffer's memory wraps around, gives the
  buffer of the whole output.
\<close>

theorem buffer_summarises_output:
  "foldl (\<lambda>b c. push_chunk cap c b) empty_buffer cs =
     \<lparr>head = take (HEAD_BUDGET cap) (concat cs),
      tail = lastn (TAIL_BUDGET cap) (drop (HEAD_BUDGET cap) (concat cs)),
      omitted_bytes = min (length (concat cs) - cap) usize_max\<rparr> \<and>
   push_buffer cap k (foldl (\<lambda>b c. push_chunk cap c b) empty_buffer ds) (foldl (\<lambda>b c. push_chunk cap c b) empty_buffer cs) =
     foldl (\<lambda>b c. push_chunk cap c b) empty_buffer (cs @ ds)"
proof -
  have run: "foldl (\<lambda>b c. push_chunk cap c b) empty_buffer xs = summary cap (concat xs)" for xs
    using push_chunks_summary[of cap "[]" xs] by (simp add: summary_Nil)
  show ?thesis
    unfolding run push_buffer_summary by (simp add: summary_def)
qed

text \<open>
  C35: The buffer keeps its bounds. It never holds more bytes than its budget, its total is the number of
  bytes it has seen (as long as that fits a \<open>usize\<close>), output within the budget is returned unchanged,
  and output beyond it is returned as its start and its end around the marker.
\<close>

theorem buffer_bounds:
  fixes cs :: "byte list list" and cap :: nat
  defines "b \<equiv> foldl (\<lambda>b c. push_chunk cap c b) empty_buffer cs"
  assumes "length (concat cs) \<le> usize_max"
  shows "length (head b) + length (tail b) \<le> cap \<and> total_bytes b = length (concat cs) \<and>
    to_bytes_with_omission_marker b =
      (if length (concat cs) \<le> cap then concat cs
       else take (HEAD_BUDGET cap) (concat cs) @ [10] @ format_output_omission_marker (length (concat cs) - cap) @ [10] @
         drop (length (concat cs) - TAIL_BUDGET cap) (concat cs))"
proof -
  let ?s = "concat cs"
  have b: "b = summary cap ?s"
    using push_chunks_summary[of cap "[]" cs] by (simp add: b_def summary_Nil)
  have lens: "length (head b) = min (length ?s) (HEAD_BUDGET cap)"
      "length (tail b) = min (TAIL_BUDGET cap) (length ?s - HEAD_BUDGET cap)" "omitted_bytes b = length ?s - cap"
    using assms(2) by (simp_all add: b summary_def)
  have r: "length (head b) + length (tail b) = min (length ?s) cap"
    using lens budgets[of cap] by (auto simp: min_def)
  have "total_bytes b = length ?s"
    using r lens(3) assms(2) by (auto simp: total_bytes_def retained_bytes_def saturating_add_def min_def)
  moreover have "to_bytes b = ?s" if "length ?s \<le> cap"
    using that budgets[of cap] by (auto simp: to_bytes_def b summary_def lastn_def)
  moreover have "tail b = drop (length ?s - TAIL_BUDGET cap) ?s" if "\<not> length ?s \<le> cap"
  proof -
    have "length ?s - HEAD_BUDGET cap - TAIL_BUDGET cap + HEAD_BUDGET cap = length ?s - TAIL_BUDGET cap"
      using that budgets[of cap] by simp
    then show ?thesis by (simp add: b summary_def lastn_def)
  qed
  ultimately show ?thesis
    using r lens(3) by (auto simp: to_bytes_with_omission_marker_def b summary_def)
qed

lemma buffer_bounds_witness:
  "total_bytes (foldl (\<lambda>b c. push_chunk 4 c b) empty_buffer [[1, 2, 3], [4, 5]]) = 5 \<and>
   length (concat [[1, 2, 3], [4, 5 :: byte]]) \<le> usize_max"
  using buffer_bounds[of "[[1, 2, 3], [4, 5]]" 4] by (simp add: usize_max_def)

end
