(* ===== verification/Path_Uri.thy ===== *)
theory Path_Uri
  imports Prelude
begin

text \<open>
  The paths of the permission policies, \<open>utils/path-uri/src/lib.rs\<close>: \<open>file:\<close> URIs that are
  inspected by their segments, under the path convention of the machine they belong to and not of
  the one that runs the code.

  The crate \<open>url\<close> and the codecs \<open>urlencoding\<close> and \<open>base64\<close> are a parameter, the record
  \<open>url_library\<close> over a type of URLs; a \<open>PathUri\<close> is a value of that type. What the proofs use of
  them is named by \<open>url_laws\<close>: how the segments change under \<open>pop_if_empty\<close>, \<open>pop\<close> and \<open>push\<close>, and
  that decoding undoes the encoding of a pushed segment.
\<close>

section \<open>The URL library\<close>

text \<open>
  \<open>url_clear_host\<close> is \<open>set_host(None)\<close> and \<open>url_parse_fallback\<close> is the parser on the prefix of
  fallback URIs followed by URL-safe base64 text: the source marks their failure as unreachable, so
  they are total. \<open>decode_utf8\<close> is \<open>urlencoding::decode\<close>, which fails on bytes that are not UTF-8.
\<close>

type_synonym rbytes = "nat list"

record 'url url_library =
  url_scheme :: "'url \<Rightarrow> rstr"
  url_username :: "'url \<Rightarrow> rstr"
  url_password :: "'url \<Rightarrow> rstr option"
  url_port :: "'url \<Rightarrow> nat option"
  url_query :: "'url \<Rightarrow> rstr option"
  url_fragment :: "'url \<Rightarrow> rstr option"
  url_host_str :: "'url \<Rightarrow> rstr option"
  url_as_str :: "'url \<Rightarrow> rstr"
  url_path :: "'url \<Rightarrow> rstr"
  url_path_segments :: "'url \<Rightarrow> rstr list"
  url_set_host :: "rstr \<Rightarrow> 'url \<Rightarrow> 'url option"
  url_clear_host :: "'url \<Rightarrow> 'url"
  url_set_path :: "rstr \<Rightarrow> 'url \<Rightarrow> 'url"
  url_pop_if_empty :: "'url \<Rightarrow> 'url"
  url_pop :: "'url \<Rightarrow> 'url"
  url_push :: "rstr \<Rightarrow> 'url \<Rightarrow> 'url"
  url_with_segments :: "rstr list \<Rightarrow> 'url \<Rightarrow> 'url"
  url_parse :: "rstr \<Rightarrow> 'url option"
  url_parse_fallback :: "rstr \<Rightarrow> 'url"
  decode_binary :: "rstr \<Rightarrow> rbytes"
  decode_utf8 :: "rstr \<Rightarrow> rstr option"
  base64_decode :: "rstr \<Rightarrow> rbytes option"
  base64_encode :: "rbytes \<Rightarrow> rstr"
  utf8_bytes :: "rstr \<Rightarrow> rbytes"

section \<open>Conventions and errors\<close>

datatype path_convention = PosixPath | WindowsPath

text \<open>The convention of the host: the development follows the Unix build.\<close>

definition native_convention :: path_convention where
  "native_convention = PosixPath"

datatype path_uri_parse_error =
    InvalidUri
  | UnsupportedScheme rstr
  | InvalidFileUriPath rstr
  | CredentialsNotAllowed
  | PortNotAllowed
  | QueryNotAllowed
  | FragmentNotAllowed
  | JoinPathMustBeDescendant rstr

definition FILE_SCHEME :: rstr where
  "FILE_SCHEME = lit ''file''"

definition BAD_PATH_URI_PREFIX :: rstr where
  "BAD_PATH_URI_PREFIX = lit ''file:///%00/bad/path/''"

definition is_windows_separator_char :: "rchar \<Rightarrow> bool" where
  "is_windows_separator_char c \<longleftrightarrow> c = 92 \<or> c = 47"

fun convention_path_segments :: "path_convention \<Rightarrow> rstr \<Rightarrow> rstr list" where
  "convention_path_segments PosixPath path = split_char 47 path"
| "convention_path_segments WindowsPath path = split_on is_windows_separator_char path"

definition home_relative_suffix :: "path_convention \<Rightarrow> rstr \<Rightarrow> rstr option" where
  "home_relative_suffix convention path =
     (case strip_prefix [126] path of
        None \<Rightarrow> None
      | Some sfx \<Rightarrow>
          if sfx = [] \<or> starts_with sfx [47] \<or> convention = WindowsPath \<and> starts_with sfx [92]
          then Some sfx else None)"

text \<open>The segment that the root of a Windows drive or share keeps.\<close>

definition anchor_depth :: "path_convention \<Rightarrow> nat" where
  "anchor_depth convention = (if convention = WindowsPath then 1 else 0)"

section \<open>Reading a URI\<close>

definition decode_bad_path_uri :: "'url url_library \<Rightarrow> 'url \<Rightarrow> rbytes option" where
  "decode_bad_path_uri lib u =
     (case strip_prefix BAD_PATH_URI_PREFIX (url_as_str lib u) of
        None \<Rightarrow> None
      | Some encoded_path \<Rightarrow>
          if encoded_path = [] \<or> 47 \<in> set encoded_path then None
          else (case base64_decode lib encoded_path of
                  None \<Rightarrow> None
                | Some path_bytes \<Rightarrow> if base64_encode lib path_bytes = encoded_path then Some path_bytes else None))"

definition is_opaque :: "'url url_library \<Rightarrow> 'url \<Rightarrow> bool" where
  "is_opaque lib u \<longleftrightarrow> decode_bad_path_uri lib u \<noteq> None"

fun is_windows_drive_uri_segment :: "rstr \<Rightarrow> bool" where
  "is_windows_drive_uri_segment [drive, c] = (is_ascii_alphabetic drive \<and> c = 58)"
| "is_windows_drive_uri_segment [drive, c1, c2, c3] =
     (is_ascii_alphabetic drive \<and> c1 = 37 \<and> c2 = 51 \<and> (c3 = 65 \<or> c3 = 97))"
| "is_windows_drive_uri_segment _ = False"

fun infer_opaque_wide :: "rbytes \<Rightarrow> path_convention option" where
  "infer_opaque_wide (a # b # c # d # _) =
     (let w1 = a + 256 * b; w2 = c + 256 * d
      in if w1 < 256 \<and> is_ascii_alphabetic w1 \<and> w2 = 58 \<or> w1 = 92 \<and> w2 = 92 then Some WindowsPath else None)"
| "infer_opaque_wide _ = None"

definition infer_opaque_path_convention :: "rbytes \<Rightarrow> path_convention option" where
  "infer_opaque_path_convention path_bytes =
     (if starts_with path_bytes [47] then Some PosixPath
      else if odd (length path_bytes) then None
      else infer_opaque_wide path_bytes)"

definition named_segments :: "'url url_library \<Rightarrow> 'url \<Rightarrow> rstr list" where
  "named_segments lib u = filter (\<lambda>s. s \<noteq> []) (url_path_segments lib u)"

definition infer_path_convention :: "'url url_library \<Rightarrow> 'url \<Rightarrow> path_convention option" where
  "infer_path_convention lib u =
     (case decode_bad_path_uri lib u of
        Some path_bytes \<Rightarrow> infer_opaque_path_convention path_bytes
      | None \<Rightarrow>
          if url_host_str lib u \<noteq> None then Some WindowsPath
          else (case named_segments lib u of
                  [] \<Rightarrow> Some PosixPath
                | s # _ \<Rightarrow> if is_windows_drive_uri_segment s then Some WindowsPath else Some PosixPath))"

definition windows_identity_path_bytes :: "'url url_library \<Rightarrow> 'url \<Rightarrow> rbytes option" where
  "windows_identity_path_bytes lib u =
     (if infer_path_convention lib u \<noteq> Some WindowsPath \<or> is_opaque lib u \<or>
         list_ex (\<lambda>s. list_ex (\<lambda>b. b = 47 \<or> b = 92) (decode_binary lib s)) (url_path_segments lib u)
      then None
      else Some (decode_binary lib (url_path lib u)))"

definition uri_eq :: "'url url_library \<Rightarrow> 'url \<Rightarrow> 'url \<Rightarrow> bool" where
  "uri_eq lib u v \<longleftrightarrow>
     u = v \<or>
     (case (windows_identity_path_bytes lib u, windows_identity_path_bytes lib v) of
        (Some p, Some q) \<Rightarrow> url_host_str lib u = url_host_str lib v \<and> eq_ignore_ascii_case p q
      | _ \<Rightarrow> False)"

definition decode_uri_path :: "'url url_library \<Rightarrow> rstr \<Rightarrow> rstr" where
  "decode_uri_path lib path = (case decode_utf8 lib path of Some s \<Rightarrow> s | None \<Rightarrow> path)"

definition uri_basename :: "'url url_library \<Rightarrow> 'url \<Rightarrow> rstr option" where
  "uri_basename lib u =
     (if is_opaque lib u then None else map_option (decode_uri_path lib) (last_opt (named_segments lib u)))"

definition uri_parent :: "'url url_library \<Rightarrow> 'url \<Rightarrow> 'url option" where
  "uri_parent lib u =
     (if is_opaque lib u then None
      else (case infer_path_convention lib u of
              None \<Rightarrow> None
            | Some convention \<Rightarrow>
                if length (named_segments lib u) \<le> anchor_depth convention then None
                else Some (url_pop lib (url_pop_if_empty lib u))))"

text \<open>
  \<open>ancestors\<close>: the URI and its parents. The recursion is bounded by the number of segments, which
  every parent reduces until the root is reached (\<open>clean_ancestors\<close>).
\<close>

fun ancestors_upto :: "'url url_library \<Rightarrow> nat \<Rightarrow> 'url \<Rightarrow> 'url list" where
  "ancestors_upto lib 0 u = [u]"
| "ancestors_upto lib (Suc n) u =
     u # (case uri_parent lib u of None \<Rightarrow> [] | Some p \<Rightarrow> ancestors_upto lib n p)"

definition uri_ancestors :: "'url url_library \<Rightarrow> 'url \<Rightarrow> 'url list" where
  "uri_ancestors lib u = ancestors_upto lib (length (url_path_segments lib u)) u"

section \<open>Containment\<close>

definition containment_path_segments :: "'url url_library \<Rightarrow> 'url \<Rightarrow> path_convention \<Rightarrow> rstr list option" where
  "containment_path_segments lib u convention =
     (let segments = named_segments lib u
      in if list_ex (\<lambda>s. list_ex (\<lambda>b. b = 47 \<or> convention = WindowsPath \<and> b = 92) (decode_binary lib s)) segments
         then None else Some segments)"

fun same_native_segment :: "'url url_library \<Rightarrow> path_convention \<Rightarrow> rstr \<Rightarrow> rstr \<Rightarrow> bool" where
  "same_native_segment lib PosixPath path base = (decode_binary lib path = decode_binary lib base)"
| "same_native_segment lib WindowsPath path base =
     (eq_ignore_ascii_case path base \<or>
      eq_ignore_ascii_case (decode_uri_path lib path) (decode_uri_path lib base))"

definition native_path_segments_start_with ::
    "'url url_library \<Rightarrow> path_convention \<Rightarrow> rstr list \<Rightarrow> rstr list \<Rightarrow> bool" where
  "native_path_segments_start_with lib convention path_segments base_segments \<longleftrightarrow>
     length base_segments \<le> length path_segments \<and>
     list_all (\<lambda>(path, base). same_native_segment lib convention path base) (zip path_segments base_segments)"

definition uri_starts_with :: "'url url_library \<Rightarrow> 'url \<Rightarrow> 'url \<Rightarrow> bool" where
  "uri_starts_with lib u base \<longleftrightarrow>
     uri_eq lib u base \<or>
     \<not> is_opaque lib u \<and> \<not> is_opaque lib base \<and>
     url_host_str lib u = url_host_str lib base \<and>
     infer_path_convention lib u = infer_path_convention lib base \<and>
     (let convention = (case infer_path_convention lib u of Some c \<Rightarrow> c | None \<Rightarrow> PosixPath)
      in case (containment_path_segments lib u convention, containment_path_segments lib base convention) of
           (Some path_segments, Some base_segments) \<Rightarrow>
             native_path_segments_start_with lib convention path_segments base_segments
         | _ \<Rightarrow> False)"

definition lexical_depth :: "'url url_library \<Rightarrow> 'url \<Rightarrow> nat option" where
  "lexical_depth lib u =
     (if is_opaque lib u then None
      else (case infer_path_convention lib u of
              None \<Rightarrow> None
            | Some convention \<Rightarrow> map_option length (containment_path_segments lib u convention)))"

definition uri_overlaps :: "'url url_library \<Rightarrow> 'url \<Rightarrow> 'url \<Rightarrow> bool option" where
  "uri_overlaps lib u v =
     (if uri_eq lib u v then Some True
      else if lexical_depth lib u = None \<or> lexical_depth lib v = None then None
      else Some (uri_starts_with lib u v \<or> uri_starts_with lib v u))"

definition native_separator :: "path_convention \<Rightarrow> rstr" where
  "native_separator convention = (case convention of PosixPath \<Rightarrow> [47] | WindowsPath \<Rightarrow> [92])"

definition relative_path_from :: "'url url_library \<Rightarrow> 'url \<Rightarrow> 'url \<Rightarrow> rstr option" where
  "relative_path_from lib u base =
     (if uri_eq lib u base then Some []
      else if is_opaque lib u \<or> is_opaque lib base \<or> url_host_str lib u \<noteq> url_host_str lib base \<or>
              infer_path_convention lib u \<noteq> infer_path_convention lib base then None
      else (case infer_path_convention lib u of
              None \<Rightarrow> None
            | Some convention \<Rightarrow>
                (case (containment_path_segments lib u convention, containment_path_segments lib base convention) of
                   (Some path_segments, Some base_segments) \<Rightarrow>
                     if native_path_segments_start_with lib convention path_segments base_segments
                     then Some (join (native_separator convention)
                                  (map (decode_uri_path lib) (drop (length base_segments) path_segments)))
                     else None
                 | _ \<Rightarrow> None)))"

section \<open>Making a URI\<close>

definition validate_common_known_uri :: "'url url_library \<Rightarrow> 'url \<Rightarrow> (unit, path_uri_parse_error) result" where
  "validate_common_known_uri lib u =
     (if url_username lib u \<noteq> [] \<or> url_password lib u \<noteq> None then Err CredentialsNotAllowed
      else if url_port lib u \<noteq> None then Err PortNotAllowed
      else if url_query lib u \<noteq> None then Err QueryNotAllowed
      else if url_fragment lib u \<noteq> None then Err FragmentNotAllowed
      else Ok ())"

definition validate_file_url :: "'url url_library \<Rightarrow> 'url \<Rightarrow> (unit, path_uri_parse_error) result" where
  "validate_file_url lib u =
     bind_result (validate_common_known_uri lib u) (\<lambda>_.
       if 0 \<in> set (decode_binary lib (url_path lib u)) \<and> decode_bad_path_uri lib u = None
       then Err (InvalidFileUriPath (url_as_str lib u)) else Ok ())"

definition without_localhost_authority :: "'url url_library \<Rightarrow> 'url \<Rightarrow> 'url" where
  "without_localhost_authority lib u =
     (if url_host_str lib u = Some (lit ''localhost'') then url_clear_host lib u else u)"

definition with_normalized_windows_drive_letter :: "'url url_library \<Rightarrow> 'url \<Rightarrow> 'url" where
  "with_normalized_windows_drive_letter lib u =
     (if url_host_str lib u \<noteq> None then u
      else let path = url_path lib u;
               slashes = takeWhile (\<lambda>b. b = 47) path;
               drive = takeWhile (\<lambda>b. b \<noteq> 47) (drop (length slashes) path)
           in if \<not> is_windows_drive_uri_segment drive \<or> 65 \<le> hd drive \<and> hd drive \<le> 90 then u
              else url_set_path lib (slashes @ (hd drive - 32) # drop (length slashes + 1) path) u)"

definition uri_try_from :: "'url url_library \<Rightarrow> 'url \<Rightarrow> ('url, path_uri_parse_error) result" where
  "uri_try_from lib u =
     (if url_scheme lib u \<noteq> FILE_SCHEME then Err (UnsupportedScheme (url_scheme lib u))
      else bind_result (validate_file_url lib u) (\<lambda>_.
        Ok (with_normalized_windows_drive_letter lib (without_localhost_authority lib u))))"

definition uri_parse :: "'url url_library \<Rightarrow> rstr \<Rightarrow> ('url, path_uri_parse_error) result" where
  "uri_parse lib uri = (case url_parse lib uri of None \<Rightarrow> Err InvalidUri | Some u \<Rightarrow> uri_try_from lib u)"

definition from_opaque_path_bytes :: "'url url_library \<Rightarrow> rbytes \<Rightarrow> 'url" where
  "from_opaque_path_bytes lib path_bytes = url_parse_fallback lib (BAD_PATH_URI_PREFIX @ base64_encode lib path_bytes)"

fun encode_utf16 :: "rstr \<Rightarrow> nat list" where
  "encode_utf16 [] = []"
| "encode_utf16 (c # cs) =
     (if c < 65536 then [c] else [55296 + (c - 65536) div 1024, 56320 + (c - 65536) mod 1024]) @ encode_utf16 cs"

definition windows_opaque_path_uri :: "'url url_library \<Rightarrow> rstr \<Rightarrow> 'url" where
  "windows_opaque_path_uri lib path =
     from_opaque_path_bytes lib (concat (map (\<lambda>w. [w mod 256, w div 256]) (encode_utf16 path)))"

text \<open>The loop of \<open>path_uri_from_segments\<close>: depth, segments and whether a separator came last.\<close>

fun from_segments_loop :: "nat \<Rightarrow> nat \<Rightarrow> rstr list \<Rightarrow> bool \<Rightarrow> rstr list \<Rightarrow> nat \<times> rstr list \<times> bool" where
  "from_segments_loop anchor depth normalized trailing [] = (depth, normalized, trailing)"
| "from_segments_loop anchor depth normalized trailing (s # ss) =
     (if s = [] then from_segments_loop anchor depth normalized True ss
      else if s = lit ''.'' then from_segments_loop anchor depth normalized False ss
      else if s = lit ''..'' then
        (if anchor < depth then from_segments_loop anchor (depth - 1) (butlast normalized) False ss
         else from_segments_loop anchor depth normalized False ss)
      else from_segments_loop anchor (depth + 1) (normalized @ [s]) False ss)"

definition path_uri_from_segments ::
    "'url url_library \<Rightarrow> path_convention \<Rightarrow> rstr option \<Rightarrow> rstr list \<Rightarrow> 'url option" where
  "path_uri_from_segments lib convention host segments =
     Option.bind (url_parse lib (lit ''file:///'')) (\<lambda>u.
     Option.bind (case host of None \<Rightarrow> Some u | Some h \<Rightarrow> url_set_host lib h u) (\<lambda>u1.
     let anchor = anchor_depth convention;
         (depth, normalized, trailing) = from_segments_loop anchor 0 [] False segments;
         normalized' = (if trailing \<or> convention = WindowsPath \<and> host = None \<and> depth = anchor
                        then normalized @ [[]] else normalized)
     in (case uri_try_from lib (url_with_segments lib normalized' u1) of Ok v \<Rightarrow> Some v | Err _ \<Rightarrow> None)))"

definition parse_posix_path :: "'url url_library \<Rightarrow> rstr \<Rightarrow> 'url option" where
  "parse_posix_path lib path =
     (case strip_prefix [47] path of
        None \<Rightarrow> None
      | Some p \<Rightarrow>
          if 0 \<in> set p then Some (from_opaque_path_bytes lib (utf8_bytes lib (47 # p)))
          else path_uri_from_segments lib PosixPath None (split_char 47 p))"

fun is_windows_drive_absolute_path :: "rstr \<Rightarrow> bool" where
  "is_windows_drive_absolute_path (d # c # s # _) =
     (is_ascii_alphabetic d \<and> c = 58 \<and> is_windows_separator_char s)"
| "is_windows_drive_absolute_path _ = False"

definition normalize_windows_device_path :: "rstr \<Rightarrow> rstr option" where
  "normalize_windows_device_path path =
     (case strip_prefix (lit (replicate 2 CHR 0x5C @ ''?'' @ [CHR 0x5C] @ ''UNC'' @ [CHR 0x5C])) path of
        Some unc \<Rightarrow> Some ([92, 92] @ unc)
      | None \<Rightarrow>
     (case strip_prefix (lit (replicate 2 CHR 0x5C @ ''.'' @ [CHR 0x5C] @ ''UNC'' @ [CHR 0x5C])) path of
        Some unc \<Rightarrow> Some ([92, 92] @ unc)
      | None \<Rightarrow>
     (case find_map (\<lambda>p. case strip_prefix p path of
                           Some r \<Rightarrow> if is_windows_drive_absolute_path r then Some r else None
                         | None \<Rightarrow> None)
             [[92, 92, 63, 92], [92, 92, 46, 92]] of
        Some r \<Rightarrow> Some r
      | None \<Rightarrow> None)))"

fun uses_windows_namespace :: "rstr \<Rightarrow> bool" where
  "uses_windows_namespace (a # b # n # s # _) =
     (is_windows_separator_char a \<and> is_windows_separator_char b \<and> (n = 46 \<or> n = 63) \<and>
      is_windows_separator_char s)"
| "uses_windows_namespace _ = False"

definition dot_segment :: "rstr \<Rightarrow> bool" where
  "dot_segment s \<longleftrightarrow> s = lit ''.'' \<or> s = lit ''..''"

definition parse_unnormalized_windows_path :: "'url url_library \<Rightarrow> rstr \<Rightarrow> 'url option" where
  "parse_unnormalized_windows_path lib path =
     (if uses_windows_namespace path \<or> 0 \<in> set path then Some (windows_opaque_path_uri lib path)
      else if is_windows_drive_absolute_path path then
        path_uri_from_segments lib WindowsPath None
          (take 2 path # split_on is_windows_separator_char (drop 3 path))
      else if 2 \<le> length path \<and> is_windows_separator_char (path ! 0) \<and> is_windows_separator_char (path ! 1) then
        (case split_on is_windows_separator_char (drop 2 path) of
           h # share # components \<Rightarrow>
             if h = [] \<or> share = [] then None
             else if dot_segment h \<or> dot_segment share then Some (windows_opaque_path_uri lib path)
             else (case path_uri_from_segments lib WindowsPath (Some h) (share # components) of
                     Some u \<Rightarrow>
                       (case url_host_str lib u of
                          Some parsed \<Rightarrow>
                            if eq_ignore_ascii_case parsed h then Some u else Some (windows_opaque_path_uri lib path)
                        | None \<Rightarrow> Some (windows_opaque_path_uri lib path))
                   | None \<Rightarrow> Some (windows_opaque_path_uri lib path))
         | _ \<Rightarrow> None)
      else None)"

definition parse_windows_path :: "'url url_library \<Rightarrow> rstr \<Rightarrow> 'url option" where
  "parse_windows_path lib path =
     (case normalize_windows_device_path path of
        Some normalized \<Rightarrow>
          if starts_with normalized [92, 92] \<and>
             (case split_on is_windows_separator_char (drop 2 normalized) of
                h # share # _ \<Rightarrow> h = [] \<or> dot_segment h \<or> share = [] \<or> dot_segment share
              | _ \<Rightarrow> True)
          then Some (windows_opaque_path_uri lib path)
          else Some (case parse_unnormalized_windows_path lib normalized of
                       Some u \<Rightarrow>
                         if infer_path_convention lib u = Some WindowsPath \<and> \<not> is_opaque lib u \<and>
                            (\<not> starts_with normalized [92, 92] \<or>
                             (case url_host_str lib u of Some h \<Rightarrow> h \<noteq> [] | None \<Rightarrow> False))
                         then u else windows_opaque_path_uri lib path
                     | None \<Rightarrow> windows_opaque_path_uri lib path)
      | None \<Rightarrow> parse_unnormalized_windows_path lib path)"

definition from_absolute_native_path :: "'url url_library \<Rightarrow> rstr \<Rightarrow> path_convention \<Rightarrow> 'url option" where
  "from_absolute_native_path lib path convention =
     (case (case convention of PosixPath \<Rightarrow> parse_posix_path lib path | WindowsPath \<Rightarrow> parse_windows_path lib path) of
        None \<Rightarrow> None
      | Some u \<Rightarrow>
          if url_host_str lib u \<noteq> Some [] \<and> infer_path_convention lib u = Some convention then Some u
          else Some (case convention of
                       PosixPath \<Rightarrow> from_opaque_path_bytes lib (utf8_bytes lib path)
                     | WindowsPath \<Rightarrow> windows_opaque_path_uri lib path))"

section \<open>Joining paths\<close>

text \<open>What a drive-relative path like \<open>C:name\<close> appends; \<open>None\<close> when it names another drive.\<close>

definition drive_relative_rest :: "'url url_library \<Rightarrow> 'url \<Rightarrow> path_convention \<Rightarrow> rstr \<Rightarrow> rstr option" where
  "drive_relative_rest lib u convention path =
     (case path of
        drive # c # p \<Rightarrow>
          if convention = WindowsPath \<and> c = 58 \<and> is_ascii_alphabetic drive then
            (case named_segments lib u of
               s # _ \<Rightarrow> if is_windows_drive_uri_segment s \<and> ascii_lower (hd s) = ascii_lower drive
                        then Some p else None
             | [] \<Rightarrow> None)
          else Some path
      | _ \<Rightarrow> Some path)"

definition windows_root_relative :: "path_convention \<Rightarrow> rstr \<Rightarrow> bool" where
  "windows_root_relative convention path \<longleftrightarrow>
     convention = WindowsPath \<and>
     (case path of
        c # p \<Rightarrow> is_windows_separator_char c \<and> \<not> (case p of d # _ \<Rightarrow> is_windows_separator_char d | [] \<Rightarrow> False)
      | [] \<Rightarrow> False)"

fun join_component :: "'url url_library \<Rightarrow> nat \<Rightarrow> rstr \<Rightarrow> 'url \<times> nat \<Rightarrow> 'url \<times> nat" where
  "join_component lib anchor component (u, depth) =
     (if component = [] \<or> component = lit ''.'' then (u, depth)
      else if component = lit ''..'' then (if anchor < depth then (url_pop lib u, depth - 1) else (u, depth))
      else (url_push lib component u, depth + 1))"

definition join_components :: "'url url_library \<Rightarrow> path_convention \<Rightarrow> 'url \<Rightarrow> rstr \<Rightarrow> 'url" where
  "join_components lib convention u path =
     (let anchor = anchor_depth convention;
          depth = length (named_segments lib u);
          u1 = url_pop_if_empty lib u;
          start = (if windows_root_relative convention path
                   then ((url_pop lib ^^ (depth - anchor)) u1, min depth anchor) else (u1, depth));
          text_path = (case convention of PosixPath \<Rightarrow> path | WindowsPath \<Rightarrow> map (\<lambda>c. if c = 92 then 47 else c) path)
      in fst (fold (join_component lib anchor) (split_char 47 text_path) start))"

definition uri_join :: "'url url_library \<Rightarrow> 'url \<Rightarrow> rstr \<Rightarrow> ('url, path_uri_parse_error) result" where
  "uri_join lib u path =
     (if 0 \<in> set path then Err (InvalidFileUriPath path)
      else if path = [] then Ok u
      else (case infer_path_convention lib u of
              None \<Rightarrow> Err (InvalidFileUriPath (url_as_str lib u))
            | Some convention \<Rightarrow>
                (case from_absolute_native_path lib path convention of
                   Some absolute \<Rightarrow> Ok absolute
                 | None \<Rightarrow>
                     (case drive_relative_rest lib u convention path of
                        None \<Rightarrow> Err (InvalidFileUriPath path)
                      | Some rel \<Rightarrow>
                          if is_opaque lib u then Err (InvalidFileUriPath (url_as_str lib u))
                          else uri_try_from lib (join_components lib convention u rel)))))"

definition join_descendant :: "'url url_library \<Rightarrow> 'url \<Rightarrow> rstr \<Rightarrow> ('url, path_uri_parse_error) result" where
  "join_descendant lib u path =
     bind_result (uri_join lib u path) (\<lambda>descendant.
       if starts_with path [47] \<or>
          infer_path_convention lib u = Some WindowsPath \<and>
            (starts_with path [92] \<or> list_ex (\<lambda>s. 58 \<in> set s) (convention_path_segments WindowsPath path)) \<or>
          \<not> uri_starts_with lib descendant u
       then Err (JoinPathMustBeDescendant path) else Ok descendant)"

section \<open>What the library promises\<close>

text \<open>
  A segment that the library stores as text: nothing its URL parser drops or rewrites.
\<close>

definition plain_segment :: "rstr \<Rightarrow> bool" where
  "plain_segment s \<longleftrightarrow>
     s \<noteq> [] \<and> \<not> dot_segment s \<and> list_all (\<lambda>c. c \<notin> {0, 9, 10, 13, 47, 92, 124} \<and> c < 128) s"

definition file_url_plain :: "'url url_library \<Rightarrow> 'url \<Rightarrow> bool" where
  "file_url_plain lib u \<longleftrightarrow>
     url_scheme lib u = FILE_SCHEME \<and> validate_common_known_uri lib u = Ok () \<and> url_host_str lib u = None"

definition segment_laws :: "'url url_library \<Rightarrow> bool" where
  "segment_laws lib \<longleftrightarrow>
     (\<forall>u. url_path_segments lib u \<noteq> []) \<and>
     (\<forall>u. url_path_segments lib (url_pop_if_empty lib u) =
            (let ss = url_path_segments lib u in if 2 \<le> length ss \<and> last ss = [] then butlast ss else ss)) \<and>
     (\<forall>u. url_path_segments lib (url_pop lib u) =
            (let ss = url_path_segments lib u in if 2 \<le> length ss then butlast ss else [[]])) \<and>
     (\<forall>u. url_host_str lib (url_pop lib (url_pop_if_empty lib u)) = url_host_str lib u) \<and>
     (\<forall>u ss. ss \<noteq> [] \<and> list_all plain_segment ss \<longrightarrow>
            map (decode_binary lib) (url_path_segments lib (url_with_segments lib ss u)) = ss \<and>
            [] \<notin> set (url_path_segments lib (url_with_segments lib ss u))) \<and>
     (\<forall>u ss. file_url_plain lib u \<longrightarrow> file_url_plain lib (url_with_segments lib ss u))"

definition codec_laws :: "'url url_library \<Rightarrow> bool" where
  "codec_laws lib \<longleftrightarrow>
     (\<forall>u. is_opaque lib u \<longrightarrow> list_ex (\<lambda>s. 0 \<in> set (decode_binary lib s)) (named_segments lib u)) \<and>
     (\<forall>u. set (decode_binary lib (url_path lib u)) =
            insert 47 (\<Union> (set ` decode_binary lib ` set (url_path_segments lib u)))) \<and>
     (\<forall>u. url_path lib u = concat (map (\<lambda>s. 47 # s) (url_path_segments lib u))) \<and>
     (\<forall>s. is_windows_drive_uri_segment s \<longrightarrow> decode_binary lib s = [hd s, 58]) \<and>
     (\<forall>u. 47 \<notin> set (concat (url_path_segments lib u))) \<and>
     (\<forall>s t. decode_utf8 lib s = Some t \<and> plain_segment t \<longrightarrow> decode_binary lib s = t) \<and>
     (\<forall>s. decode_utf8 lib s = None \<longrightarrow> 37 \<in> set s) \<and>
     (\<forall>s. 37 \<notin> set s \<and> plain_segment s \<longrightarrow> decode_utf8 lib s = Some s) \<and>
     (\<exists>u. url_parse lib (lit ''file:///'') = Some u \<and> file_url_plain lib u)"

definition url_laws :: "'url url_library \<Rightarrow> bool" where
  "url_laws lib \<longleftrightarrow> segment_laws lib \<and> codec_laws lib"

lemma segments_nonempty: "url_laws lib \<Longrightarrow> url_path_segments lib u \<noteq> []"
  unfolding url_laws_def segment_laws_def by blast

lemma pop_if_empty_segments:
  "url_laws lib \<Longrightarrow> url_path_segments lib (url_pop_if_empty lib u) =
     (let ss = url_path_segments lib u in if 2 \<le> length ss \<and> last ss = [] then butlast ss else ss)"
  unfolding url_laws_def segment_laws_def by blast

lemma pop_segments:
  "url_laws lib \<Longrightarrow> url_path_segments lib (url_pop lib u) =
     (let ss = url_path_segments lib u in if 2 \<le> length ss then butlast ss else [[]])"
  unfolding url_laws_def segment_laws_def by blast

lemma parent_host:
  "url_laws lib \<Longrightarrow> url_host_str lib (url_pop lib (url_pop_if_empty lib u)) = url_host_str lib u"
  unfolding url_laws_def segment_laws_def by blast

lemma opaque_has_nul:
  "url_laws lib \<Longrightarrow> is_opaque lib u \<Longrightarrow> \<exists>s \<in> set (named_segments lib u). 0 \<in> set (decode_binary lib s)"
  unfolding url_laws_def codec_laws_def list_ex_iff by blast

lemma path_bytes:
  "url_laws lib \<Longrightarrow> set (decode_binary lib (url_path lib u)) =
     insert 47 (\<Union> (set ` decode_binary lib ` set (url_path_segments lib u)))"
  unfolding url_laws_def codec_laws_def by blast

lemma path_text: "url_laws lib \<Longrightarrow> url_path lib u = concat (map (\<lambda>s. 47 # s) (url_path_segments lib u))"
  unfolding url_laws_def codec_laws_def by blast

lemma drive_bytes: "url_laws lib \<Longrightarrow> is_windows_drive_uri_segment s \<Longrightarrow> decode_binary lib s = [hd s, 58]"
  unfolding url_laws_def codec_laws_def by blast

lemma segments_no_slash: "url_laws lib \<Longrightarrow> 47 \<notin> set (concat (url_path_segments lib u))"
  unfolding url_laws_def codec_laws_def by blast

section \<open>POSIX paths\<close>

text \<open>
  A URI that the policies can place: a POSIX one whose segments are unambiguous, with the decoded
  segments as its path. Containment is the prefix order of these paths.
\<close>

definition posix_uri :: "'url url_library \<Rightarrow> 'url \<Rightarrow> bool" where
  "posix_uri lib u \<longleftrightarrow> infer_path_convention lib u = Some PosixPath \<and> lexical_depth lib u \<noteq> None"

definition posix_path :: "'url url_library \<Rightarrow> 'url \<Rightarrow> rbytes list" where
  "posix_path lib u = map (decode_binary lib) (named_segments lib u)"

lemma posix_uriD:
  assumes "posix_uri lib u"
  shows "\<not> is_opaque lib u" "url_host_str lib u = None"
    "containment_path_segments lib u PosixPath = Some (named_segments lib u)"
    "lexical_depth lib u = Some (length (posix_path lib u))"
    "infer_path_convention lib u = Some PosixPath"
proof -
  show no: "\<not> is_opaque lib u" and conv: "infer_path_convention lib u = Some PosixPath"
    using assms by (auto simp: posix_uri_def lexical_depth_def split: if_splits)
  show "url_host_str lib u = None"
    using no conv by (auto simp: infer_path_convention_def is_opaque_def split: option.splits if_splits)
  show "containment_path_segments lib u PosixPath = Some (named_segments lib u)"
    using assms no conv by (auto simp: posix_uri_def lexical_depth_def containment_path_segments_def Let_def split: if_splits)
  then show "lexical_depth lib u = Some (length (posix_path lib u))"
    using no conv by (simp add: lexical_depth_def posix_path_def)
qed

text \<open>A containment order: what lies below what, and how deep.\<close>

locale containment =
  fixes below :: "'p \<Rightarrow> 'p \<Rightarrow> bool" and depth :: "'p \<Rightarrow> nat"
  assumes below_refl: "below p p"
    and below_trans: "below p q \<Longrightarrow> below q r \<Longrightarrow> below p r"
    and below_depth: "below p q \<Longrightarrow> depth q \<le> depth p"
    and below_linear: "below p q \<Longrightarrow> below p r \<Longrightarrow> depth q \<le> depth r \<Longrightarrow> below r q"
begin

lemma same_depth_same_region:
  assumes "below p q" "below p r" "depth q = depth r"
  shows "below x q \<longleftrightarrow> below x r"
  using assms below_linear[of p q r] below_linear[of p r q] below_trans[of x r q] below_trans[of x q r] by auto

lemma chain:
  assumes "below p q" "below p r"
  shows "below q r \<or> below r q"
  using assms below_linear[of p q r] below_linear[of p r q] by linarith

end

lemma posix_starts_with:
  "native_path_segments_start_with lib PosixPath ps bs \<longleftrightarrow> prefix (map (decode_binary lib) bs) (map (decode_binary lib) ps)"
proof (induction ps arbitrary: bs)
  case Nil
  then show ?case by (cases bs) (auto simp: native_path_segments_start_with_def)
next
  case (Cons p ps)
  then show ?case
    by (cases bs) (auto simp: native_path_segments_start_with_def)
qed

interpretation posix: containment "native_path_segments_start_with lib PosixPath" length for lib
proof (unfold_locales, unfold posix_starts_with)
  fix p q r :: "rstr list"
  let ?d = "map (decode_binary lib)"
  show "prefix (?d p) (?d p)" by simp
  show "prefix (?d q) (?d p) \<Longrightarrow> prefix (?d r) (?d q) \<Longrightarrow> prefix (?d r) (?d p)"
    using prefix_order.trans by blast
  show "prefix (?d q) (?d p) \<Longrightarrow> length q \<le> length p"
    using prefix_length_le by fastforce
  show "prefix (?d q) (?d p) \<Longrightarrow> prefix (?d r) (?d p) \<Longrightarrow> length q \<le> length r \<Longrightarrow> prefix (?d q) (?d r)"
    using prefix_length_prefix[of "?d q" "?d p" "?d r"] by simp
qed

lemma uri_starts_with_posix:
  assumes "posix_uri lib u" "posix_uri lib b"
  shows "uri_starts_with lib u b \<longleftrightarrow>
           native_path_segments_start_with lib PosixPath (named_segments lib u) (named_segments lib b)"
proof -
  have "uri_eq lib u b \<longleftrightarrow> u = b"
    using posix_uriD[OF assms(1)] by (auto simp: uri_eq_def windows_identity_path_bytes_def)
  then show ?thesis
    using posix_uriD[OF assms(1)] posix_uriD[OF assms(2)] posix.below_refl
    by (auto simp: uri_starts_with_def)
qed

lemma uri_starts_with_prefix:
  assumes "posix_uri lib u" "posix_uri lib b"
  shows "uri_starts_with lib u b \<longleftrightarrow> prefix (posix_path lib b) (posix_path lib u)"
  using uri_starts_with_posix[OF assms] by (simp add: posix_starts_with posix_path_def)

section \<open>Parents\<close>

definition clean_uri :: "'url url_library \<Rightarrow> 'url \<Rightarrow> bool" where
  "clean_uri lib u \<longleftrightarrow> posix_uri lib u \<and> list_all (\<lambda>s. 0 \<notin> set (decode_binary lib s)) (named_segments lib u)"

lemma filter_butlast_prefix: "prefix (filter P (butlast xs)) (filter P xs)"
  by (metis append_butlast_last_id butlast.simps(1) filter_append prefixI prefix_order.refl)

lemma parent_segments:
  assumes "url_laws lib" "url_path_segments lib u \<noteq> []"
  defines "p \<equiv> url_pop lib (url_pop_if_empty lib u)"
  shows "prefix (named_segments lib p) (named_segments lib u)" "url_path_segments lib p \<noteq> []"
    "length (url_path_segments lib p) < length (url_path_segments lib u) \<or> named_segments lib p = []"
proof -
  let ?ss = "url_path_segments lib u"
  have cases: "url_path_segments lib p = [[]] \<or>
      length ?ss \<ge> 2 \<and> (url_path_segments lib p = butlast ?ss \<or>
      length ?ss \<ge> 3 \<and> url_path_segments lib p = butlast (butlast ?ss))"
    unfolding p_def pop_segments[OF assms(1)] pop_if_empty_segments[OF assms(1)]
    by (auto simp: Let_def)
  moreover have "prefix (filter P (butlast (butlast ?ss))) (filter P ?ss)" for P
    using filter_butlast_prefix prefix_order.trans by blast
  ultimately show "prefix (named_segments lib p) (named_segments lib u)"
    by (auto simp: named_segments_def filter_butlast_prefix)
  show "url_path_segments lib p \<noteq> []"
      "length (url_path_segments lib p) < length ?ss \<or> named_segments lib p = []"
    using cases by (auto simp: named_segments_def butlast_conv_take)
qed

lemma clean_uriI:
  assumes "url_laws lib" "list_all (\<lambda>s. {0, 47} \<inter> set (decode_binary lib s) = {}) (named_segments lib u)"
    "url_host_str lib u = None" "\<And>s ss. named_segments lib u = s # ss \<Longrightarrow> \<not> is_windows_drive_uri_segment s"
  shows "clean_uri lib u"
proof -
  have no: "decode_bad_path_uri lib u = None"
    using opaque_has_nul[OF assms(1), of u] assms(2) by (force simp: is_opaque_def list_all_iff)
  then have "infer_path_convention lib u = Some PosixPath"
    using assms(3,4) by (auto simp: infer_path_convention_def split: list.splits)
  with no assms(2) show ?thesis
    by (auto simp: clean_uri_def posix_uri_def lexical_depth_def is_opaque_def containment_path_segments_def
      list_all_iff list_ex_iff Let_def)
qed

lemma clean_uriD:
  assumes "clean_uri lib u"
  shows "list_all (\<lambda>s. {0, 47} \<inter> set (decode_binary lib s) = {}) (named_segments lib u)" "url_host_str lib u = None"
    "named_segments lib u = s # ss \<Longrightarrow> \<not> is_windows_drive_uri_segment s"
proof -
  have px: "posix_uri lib u" using assms by (simp add: clean_uri_def)
  show "url_host_str lib u = None"
    using posix_uriD[OF px] by simp
  show "list_all (\<lambda>s. {0, 47} \<inter> set (decode_binary lib s) = {}) (named_segments lib u)"
    using assms posix_uriD(3)[OF px]
    by (auto simp: clean_uri_def containment_path_segments_def Let_def list_all_iff list_ex_iff split: if_splits)
  show "named_segments lib u = s # ss \<Longrightarrow> \<not> is_windows_drive_uri_segment s"
    using posix_uriD(1,2,5)[OF px] by (auto simp: infer_path_convention_def is_opaque_def split: option.splits if_splits)
qed

lemma clean_parent:
  assumes "url_laws lib" "clean_uri lib u" "uri_parent lib u = Some p" "url_path_segments lib u \<noteq> []"
  shows "clean_uri lib p" "prefix (named_segments lib p) (named_segments lib u)" "url_path_segments lib p \<noteq> []"
    "length (url_path_segments lib p) < length (url_path_segments lib u) \<or> named_segments lib p = []"
proof -
  have p: "p = url_pop lib (url_pop_if_empty lib u)"
    using assms(3) by (auto simp: uri_parent_def split: if_splits option.splits)
  show pre: "prefix (named_segments lib p) (named_segments lib u)" and "url_path_segments lib p \<noteq> []"
    "length (url_path_segments lib p) < length (url_path_segments lib u) \<or> named_segments lib p = []"
    using parent_segments[OF assms(1,4)] p by simp_all
  then obtain rest where rest: "named_segments lib u = named_segments lib p @ rest"
    by (auto simp: prefix_def)
  show "clean_uri lib p"
    using clean_uriD[OF assms(2)] rest p parent_host[OF assms(1)]
    by (intro clean_uriI[OF assms(1)]) (auto simp: Cons_eq_append_conv)
qed

lemma parent_exists: "posix_uri lib u \<Longrightarrow> uri_parent lib u = None \<longleftrightarrow> named_segments lib u = []"
  using posix_uriD[of lib u] by (auto simp: uri_parent_def anchor_depth_def)

lemma ancestors_upto_nonempty [simp]: "ancestors_upto lib n u \<noteq> []"
  by (cases n) auto

lemma clean_ancestors_upto:
  assumes "url_laws lib"
  shows "clean_uri lib u \<Longrightarrow> url_path_segments lib u \<noteq> [] \<Longrightarrow>
      length (url_path_segments lib u) \<le> n \<or> named_segments lib u = [] \<Longrightarrow>
      (\<forall>a \<in> set (ancestors_upto lib n u). clean_uri lib a \<and> prefix (named_segments lib a) (named_segments lib u)) \<and>
      named_segments lib (last (ancestors_upto lib n u)) = []"
proof (induction n arbitrary: u)
  case 0
  then show ?case by simp
next
  case (Suc n)
  have px: "posix_uri lib u" using Suc.prems by (simp add: clean_uri_def)
  show ?case
  proof (cases "uri_parent lib u")
    case None
    then have "named_segments lib u = []" using parent_exists[OF px] by simp
    with None Suc.prems(1) show ?thesis by simp
  next
    case (Some p)
    note parent = clean_parent[OF assms Suc.prems(1) Some Suc.prems(2)]
    have "named_segments lib u \<noteq> []"
      using Some parent_exists[OF px] by fastforce
    then have "length (url_path_segments lib p) \<le> n \<or> named_segments lib p = []"
      using Suc.prems(3) parent(4) by linarith
    from Suc.IH[OF parent(1,3) this] Some Suc.prems(1) parent(2) show ?thesis
      by (auto intro: prefix_order.trans)
  qed
qed

lemmas clean_ancestors = clean_ancestors_upto[OF _ _ _ disjI1[OF order_refl], folded uri_ancestors_def]

section \<open>Absolute paths of plain segments\<close>

definition path_of_segments :: "rstr list \<Rightarrow> rstr" where
  "path_of_segments ts = concat (map (\<lambda>t. 47 # t) ts)"

lemma split_char_single: "c \<notin> set t \<Longrightarrow> split_char c t = [t]"
  by (induction t) auto

lemma plain_segmentD:
  assumes "plain_segment t"
  shows "t \<noteq> []" "t \<noteq> lit ''.''" "t \<noteq> lit ''..''" "0 \<notin> set t" "47 \<notin> set t"
  using assms by (auto simp: plain_segment_def dot_segment_def list_all_iff)

lemma split_path_of_segments:
  "list_all (\<lambda>t. 47 \<notin> set t) (t # ts) \<Longrightarrow> split_char 47 (t @ path_of_segments ts) = t # ts"
proof (induction ts arbitrary: t)
  case Nil
  then show ?case by (simp add: path_of_segments_def split_char_single)
next
  case (Cons t' ts)
  then have "split_char 47 (t @ 47 # (t' @ path_of_segments ts)) = t # split_char 47 (t' @ path_of_segments ts)"
    by (simp add: split_char_append split_char_single)
  with Cons show ?case by (simp add: path_of_segments_def)
qed

lemma plain_segments_loop:
  "list_all plain_segment ss \<Longrightarrow>
     from_segments_loop anchor depth normalized trailing ss =
       (depth + length ss, normalized @ ss, if ss = [] then trailing else False)"
  by (induction anchor depth normalized trailing ss rule: from_segments_loop.induct) (auto dest: plain_segmentD)

lemma try_from_plain:
  assumes "url_laws lib" "file_url_plain lib u" "url_path_segments lib u = es" "es \<noteq> []" "[] \<notin> set es"
    "map (decode_binary lib) es = ts" "list_all plain_segment ts" "length (hd ts) \<noteq> 2"
  shows "uri_try_from lib u = Ok u \<and> clean_uri lib u \<and> posix_path lib u = ts"
proof -
  obtain e es' where es: "es = e # es'" using assms(4) by (cases es) auto
  have ts: "\<And>t. t \<in> set ts \<Longrightarrow> 0 \<notin> set t \<and> 47 \<notin> set t"
    using assms(7) plain_segmentD by (auto simp: list_all_iff)
  have no_drive: "\<not> is_windows_drive_uri_segment e"
    using drive_bytes[OF assms(1), of e] assms(6,8) es by auto
  have no_slash: "47 \<notin> set e" and e: "e \<noteq> []"
    using segments_no_slash[OF assms(1), of u] assms(3,5) es by auto
  have path: "url_path lib u = 47 # e @ concat (map (\<lambda>s. 47 # s) es')"
    using path_text[OF assms(1), of u] assms(3) es by simp
  have "0 \<notin> set (decode_binary lib (url_path lib u))"
    using path_bytes[OF assms(1), of u] assms(3,6) ts by auto
  moreover have "takeWhile (\<lambda>b. b = 47) (url_path lib u) = [47]"
    unfolding path using no_slash e by (cases e) auto
  moreover have "takeWhile (\<lambda>b. b \<noteq> 47) (e @ concat (map (\<lambda>s. 47 # s) es')) = e"
    using no_slash by (cases es') (auto simp: takeWhile_append)
  then have "takeWhile (\<lambda>b. b \<noteq> 47) (drop 1 (url_path lib u)) = e"
    unfolding path by simp
  ultimately have "uri_try_from lib u = Ok u"
    using assms(2) no_drive
    by (simp add: uri_try_from_def file_url_plain_def validate_file_url_def without_localhost_authority_def
      with_normalized_windows_drive_letter_def Let_def)
  moreover have named: "named_segments lib u = es"
    using assms(3,5) by (auto simp: named_segments_def filter_id_conv)
  moreover have "clean_uri lib u"
    using assms(2,6) ts named no_drive es
    by (intro clean_uriI[OF assms(1)]) (auto simp: file_url_plain_def list_all_iff)
  ultimately show ?thesis
    using assms(6) by (simp add: posix_path_def)
qed

lemma posix_absolute_path:
  assumes "url_laws lib" "list_all plain_segment ts" "ts \<noteq> []" "length (hd ts) \<noteq> 2"
  shows "\<exists>u. from_absolute_native_path lib (path_of_segments ts) PosixPath = Some u \<and> clean_uri lib u \<and>
    posix_path lib u = ts \<and> map (decode_binary lib) (url_path_segments lib u) = ts"
proof -
  obtain t ts' where ts: "ts = t # ts'" using assms(3) by (cases ts) auto
  have free: "list_all (\<lambda>t. 47 \<notin> set t) ts" "0 \<notin> set (t @ path_of_segments ts')"
    using assms(2) plain_segmentD ts by (auto simp: list_all_iff path_of_segments_def)
  obtain u0 where u0: "url_parse lib (lit ''file:///'') = Some u0" "file_url_plain lib u0"
    using assms(1) unfolding url_laws_def codec_laws_def by blast
  define u where "u = url_with_segments lib ts u0"
  have plain: "file_url_plain lib u"
    using u0(2) assms(1) unfolding url_laws_def segment_laws_def u_def by blast
  have segs: "map (decode_binary lib) (url_path_segments lib u) = ts" "[] \<notin> set (url_path_segments lib u)"
    using assms(1-3) unfolding url_laws_def segment_laws_def u_def by blast+
  then have "url_path_segments lib u \<noteq> []" using assms(3) by auto
  note u = try_from_plain[OF assms(1) plain refl this segs(2,1) assms(2,4)]
  then have "infer_path_convention lib u = Some PosixPath" "url_host_str lib u = None"
    using posix_uriD[of lib u] by (auto simp: clean_uri_def)
  moreover have "path_uri_from_segments lib PosixPath None ts = Some u"
    using u0(1) u assms(2,3)
    by (simp add: path_uri_from_segments_def anchor_depth_def plain_segments_loop flip: u_def)
  then have "parse_posix_path lib (path_of_segments ts) = Some u"
    using free split_path_of_segments[of t ts'] ts by (simp add: parse_posix_path_def path_of_segments_def)
  ultimately show ?thesis
    using u segs by (auto simp: from_absolute_native_path_def)
qed

lemma posix_root_child:
  assumes "url_laws lib" "plain_segment t" "length t \<noteq> 2"
  shows "\<exists>u. from_absolute_native_path lib (47 # t) PosixPath = Some u \<and> clean_uri lib u \<and> posix_path lib u = [t]"
  using posix_absolute_path[OF assms(1), of "[t]"] assms(2,3) by (auto simp: path_of_segments_def)

lemma tmp_plain: "plain_segment (lit ''tmp'')" "length (lit ''tmp'') \<noteq> 2" "37 \<notin> set (lit ''tmp'')"
  "lit ''/tmp'' = 47 # lit ''tmp''" "0 \<notin> set (lit ''/tmp'')" "lit ''/tmp'' \<noteq> []"
  by (auto simp: plain_segment_def dot_segment_def lit_def)

lemma join_tmp:
  assumes "url_laws lib" "infer_path_convention lib cwd = Some PosixPath"
  shows "\<exists>u. uri_join lib cwd (lit ''/tmp'') = Ok u \<and> clean_uri lib u \<and> posix_path lib u = [lit ''tmp'']"
  using posix_root_child[OF assms(1) tmp_plain(1,2)] assms(2) tmp_plain(4-6)
  by (auto simp: uri_join_def)

lemma decoded_plain:
  assumes "url_laws lib" "decode_uri_path lib s = t" "plain_segment t" "37 \<notin> set t"
  shows "decode_binary lib s = t"
  using assms unfolding url_laws_def codec_laws_def decode_uri_path_def by (auto split: option.splits)

section \<open>A library that keeps the promises\<close>

text \<open>URLs as a host and segments, with percent-decoding: the promises above can be kept together.\<close>

definition hex_value :: "rchar \<Rightarrow> nat option" where
  "hex_value c =
     (if is_ascii_digit c then Some (c - 48)
      else if 65 \<le> c \<and> c \<le> 70 then Some (c - 55)
      else if 97 \<le> c \<and> c \<le> 102 then Some (c - 87) else None)"

fun percent_decode :: "rstr \<Rightarrow> rbytes" where
  "percent_decode (c # a # b # s) =
     (if c = 37 then
        (case (hex_value a, hex_value b) of
           (Some x, Some y) \<Rightarrow> (16 * x + y) # percent_decode s
         | _ \<Rightarrow> c # percent_decode (a # b # s))
      else c # percent_decode (a # b # s))"
| "percent_decode s = s"

definition percent_encode :: "rstr \<Rightarrow> rstr" where
  "percent_encode s = concat (map (\<lambda>c. if c = 37 then lit ''%25'' else [c]) s)"

type_synonym sample_url = "rstr option \<times> rstr list"

definition sample_segments :: "sample_url \<Rightarrow> rstr list" where
  "sample_segments u = (if snd u = [] then [[]] else map (filter (\<lambda>c. c \<noteq> 47)) (snd u))"

definition sample_pop :: "sample_url \<Rightarrow> sample_url" where
  "sample_pop u = (fst u, let ss = sample_segments u in if 2 \<le> length ss then butlast ss else [[]])"

definition sample_library :: "sample_url url_library" where
  "sample_library =
     \<lparr>url_scheme = (\<lambda>_. FILE_SCHEME), url_username = (\<lambda>_. []), url_password = (\<lambda>_. None), url_port = (\<lambda>_. None),
      url_query = (\<lambda>_. None), url_fragment = (\<lambda>_. None), url_host_str = fst,
      url_as_str = (\<lambda>u. lit ''file://'' @ (case fst u of None \<Rightarrow> [] | Some h \<Rightarrow> h) @ concat (map (\<lambda>s. 47 # s) (sample_segments u))),
      url_path = (\<lambda>u. concat (map (\<lambda>s. 47 # s) (sample_segments u))), url_path_segments = sample_segments,
      url_set_host = (\<lambda>h u. Some (Some h, snd u)), url_clear_host = (\<lambda>u. (None, snd u)),
      url_set_path = (\<lambda>p u. (fst u, split_char 47 (tl p))),
      url_pop_if_empty = (\<lambda>u. (fst u, let ss = sample_segments u in if 2 \<le> length ss \<and> last ss = [] then butlast ss else ss)),
      url_pop = sample_pop,
      url_push = (\<lambda>s u. (fst u, let ss = sample_segments u in if ss = [[]] then [percent_encode s] else ss @ [percent_encode s])),
      url_with_segments = (\<lambda>ss u. (fst u, map percent_encode ss)),
      url_parse = (\<lambda>s. if starts_with s (lit ''file:///'') then Some (None, split_char 47 (drop 8 s)) else None),
      url_parse_fallback = (\<lambda>s. (None, split_char 47 (drop 8 s))),
      decode_binary = percent_decode, decode_utf8 = (\<lambda>s. Some (percent_decode s)),
      base64_decode = (\<lambda>_. None), base64_encode = id, utf8_bytes = id\<rparr>"

lemma percent_decode_plain: "37 \<notin> set s \<Longrightarrow> percent_decode s = s"
  by (induction s rule: percent_decode.induct) auto

lemma percent_decode_char: "c \<noteq> 37 \<Longrightarrow> percent_decode (c # s) = c # percent_decode s"
  by (cases "(c # s)" rule: percent_decode.cases) auto

lemma percent_decode_encode: "percent_decode (percent_encode s) = s"
proof (induction s)
  case (Cons c s)
  have "percent_decode (37 # 50 # 53 # r) = 37 # percent_decode r" for r
    by (simp add: hex_value_def is_ascii_digit_def)
  with Cons show ?case
    by (simp add: percent_encode_def percent_decode_char lit_def)
qed (simp add: percent_encode_def)

lemma percent_decode_slash: "percent_decode (s @ 47 # r) = percent_decode s @ 47 # percent_decode r"
proof (induct s rule: percent_decode.induct, goal_cases)
  case (1 c a b s)
  then show ?case
    by (cases "c = 37"; cases "hex_value a"; cases "hex_value b") (auto simp: percent_decode_char)
next
  case (3 c)
  then show ?case
    by (cases "c = 37"; cases r) (auto simp: percent_decode_char hex_value_def is_ascii_digit_def)
next
  case (4 c d)
  then show ?case
    by (cases "c = 37"; cases "d = 37"; cases r) (auto simp: percent_decode_char hex_value_def is_ascii_digit_def)
qed (simp add: percent_decode_char)

lemma percent_decode_path:
  "percent_decode (concat (map (\<lambda>s. 47 # s) ss)) = concat (map (\<lambda>s. 47 # percent_decode s) ss)"
proof (induction ss)
  case (Cons s ss)
  have "percent_decode (s @ concat (map (\<lambda>s. 47 # s) ss)) = percent_decode s @ percent_decode (concat (map (\<lambda>s. 47 # s) ss))"
    by (cases ss) (simp_all add: percent_decode_slash percent_decode_char)
  with Cons show ?case by (simp add: percent_decode_char)
qed simp

lemma sample_segments_sane [simp]: "sample_segments u \<noteq> []" "s \<in> set (sample_segments u) \<Longrightarrow> 47 \<notin> set s"
  by (auto simp: sample_segments_def split: if_splits)

lemma sample_segments_id:
  assumes "ss \<noteq> []" "list_all (\<lambda>s. 47 \<notin> set s) ss"
  shows "sample_segments (h, ss) = ss"
proof -
  have "map (filter (\<lambda>c. c \<noteq> 47)) ss = map id ss"
    using assms(2) by (intro map_cong refl) (auto simp: list_all_iff filter_id_conv)
  then show ?thesis using assms(1) by (simp add: sample_segments_def)
qed

lemma sample_segments_again [simp]:
  "sample_segments (h, sample_segments u) = sample_segments u"
  "2 \<le> length (sample_segments u) \<Longrightarrow> sample_segments (h, butlast (sample_segments u)) = butlast (sample_segments u)"
  "sample_segments (h, [[]]) = [[]]"
proof -
  show "sample_segments (h, sample_segments u) = sample_segments u"
    by (rule sample_segments_id) (simp_all add: list_all_iff)
  show "sample_segments (h, butlast (sample_segments u)) = butlast (sample_segments u)"
    if "2 \<le> length (sample_segments u)"
  proof (rule sample_segments_id)
    have "length (butlast (sample_segments u)) \<noteq> 0" using that by simp
    then show "butlast (sample_segments u) \<noteq> []" by fastforce
  qed (auto simp: list_all_iff dest: in_set_butlastD)
qed (simp add: sample_segments_def)

lemma sample_segments_encoded:
  assumes "ss \<noteq> []" "list_all plain_segment ss"
  shows "sample_segments (h, map percent_encode ss) = map percent_encode ss"
  using assms by (intro sample_segments_id)
    (auto simp: list_all_iff plain_segment_def percent_encode_def lit_def split: if_splits)

lemma percent_encode_nonempty: "s \<noteq> [] \<Longrightarrow> percent_encode s \<noteq> []"
  by (cases s) (auto simp: percent_encode_def lit_def)

lemma sample_segment_laws: "segment_laws sample_library"
  unfolding segment_laws_def
proof (intro conjI allI impI)
  fix u and ss :: "rstr list"
  assume "ss \<noteq> [] \<and> list_all plain_segment ss"
  then have segs: "url_path_segments sample_library (url_with_segments sample_library ss u) = map percent_encode ss"
    and named: "list_all (\<lambda>s. s \<noteq> []) ss"
    by (simp_all add: sample_library_def sample_segments_encoded list_all_iff plain_segment_def)
  show "map (decode_binary sample_library) (url_path_segments sample_library (url_with_segments sample_library ss u)) = ss"
    "[] \<notin> set (url_path_segments sample_library (url_with_segments sample_library ss u))"
    unfolding segs using named percent_encode_nonempty
    by (simp_all add: sample_library_def percent_decode_encode comp_def list_all_iff image_iff) metis
qed (auto simp: sample_library_def sample_pop_def Let_def file_url_plain_def validate_common_known_uri_def)

lemma sample_codec_laws: "codec_laws sample_library"
  unfolding codec_laws_def
proof (intro conjI allI impI)
  fix u
  have "set (concat (map (\<lambda>s. 47 # percent_decode s) ss)) = insert 47 (\<Union> (set ` percent_decode ` set ss))"
    if "ss \<noteq> []" for ss
    using that by (cases ss) auto
  from this[OF sample_segments_sane(1)[of u]] show
    "set (decode_binary sample_library (url_path sample_library u)) =
       insert 47 (\<Union> (set ` decode_binary sample_library ` set (url_path_segments sample_library u)))"
    by (simp only: sample_library_def url_library.simps percent_decode_path)
next
  fix s
  assume "is_windows_drive_uri_segment s"
  then show "decode_binary sample_library s = [hd s, 58]"
    by (cases s rule: is_windows_drive_uri_segment.cases)
      (auto simp: sample_library_def percent_decode_char hex_value_def is_ascii_digit_def is_ascii_alphabetic_def)
next
  have "url_parse sample_library (lit ''file:///'') = Some (None, [[]])"
    by (simp add: sample_library_def starts_with_def lit_def)
  moreover have "file_url_plain sample_library (None, [[]])"
    by (simp add: sample_library_def file_url_plain_def validate_common_known_uri_def)
  ultimately show "\<exists>u. url_parse sample_library (lit ''file:///'') = Some u \<and> file_url_plain sample_library u"
    by blast
qed (auto simp: sample_library_def percent_decode_plain is_opaque_def decode_bad_path_uri_def split: option.splits if_splits)

lemma sample_library_laws: "url_laws sample_library"
  by (simp add: url_laws_def sample_segment_laws sample_codec_laws)

end
