(* ===== verification/Sandbox_Access.thy ===== *)
theory Sandbox_Access
  imports Permissions Path_Uri
begin

text \<open>
  What a filesystem policy grants at a path, \<open>protocol/src/permissions.rs\<close>: the entries are resolved
  against the directories of the executor, the deepest entry that covers the path decides, and the
  metadata directories of a writable root stay protected. The theorems compare this with the shortcuts
  that look at the entries alone.
\<close>

section \<open>Resolving the entries\<close>

record 'url policy_context =
  ctx_cwd :: 'url
  ctx_workspace_roots :: "'url list"
  ctx_user_home_dir :: "'url option"
  ctx_temporary_directories :: "'url list option"

definition file_system_root :: "'url url_library \<Rightarrow> 'url policy_context \<Rightarrow> 'url option" where
  "file_system_root lib ctx =
     (if lexical_depth lib (ctx_cwd ctx) = None then None else last_opt (uri_ancestors lib (ctx_cwd ctx)))"

definition ok_list :: "('a, 'e) result \<Rightarrow> 'a list" where
  "ok_list r = (case r of Ok x \<Rightarrow> [x] | Err _ \<Rightarrow> [])"

fun resolved_special :: "'url url_library \<Rightarrow> 'url policy_context \<Rightarrow> file_system_special_path \<Rightarrow> 'url list" where
  "resolved_special lib ctx Root = (case file_system_root lib ctx of Some r \<Rightarrow> [r] | None \<Rightarrow> [])"
| "resolved_special lib ctx (ProjectRoots None) = ctx_workspace_roots ctx"
| "resolved_special lib ctx (ProjectRoots (Some subpath)) =
     concat (map (\<lambda>root. ok_list (uri_join lib root subpath)) (ctx_workspace_roots ctx))"
| "resolved_special lib ctx Tmpdir = (case ctx_temporary_directories ctx of Some ds \<Rightarrow> ds | None \<Rightarrow> [])"
| "resolved_special lib ctx SlashTmp =
     (if infer_path_convention lib (ctx_cwd ctx) = Some PosixPath
      then ok_list (uri_join lib (ctx_cwd ctx) (lit ''/tmp'')) else [])"
| "resolved_special lib ctx Minimal = []"
| "resolved_special lib ctx (UnknownSpecial _ _) = []"

fun resolved_path :: "'url url_library \<Rightarrow> 'url policy_context \<Rightarrow> 'url file_system_path \<Rightarrow> 'url list" where
  "resolved_path lib ctx (PathEntry path) = [path]"
| "resolved_path lib ctx (GlobPattern _) = []"
| "resolved_path lib ctx (Special value) = resolved_special lib ctx value"

definition resolved_entry ::
    "'url url_library \<Rightarrow> 'url policy_context \<Rightarrow> 'url file_system_sandbox_entry \<Rightarrow> ('url \<times> file_system_access_mode) list" where
  "resolved_entry lib ctx e =
     map (\<lambda>path. (path, entry_access e))
       (filter (\<lambda>path. infer_path_convention lib path = infer_path_convention lib (ctx_cwd ctx))
         (resolved_path lib ctx (entry_path e)))"

definition resolved_entries ::
    "'url url_library \<Rightarrow> 'url policy_context \<Rightarrow> 'url file_system_sandbox_policy \<Rightarrow> ('url \<times> file_system_access_mode) list" where
  "resolved_entries lib ctx p = concat (map (resolved_entry lib ctx) (policy_entries p))"

section \<open>Access to a path\<close>

text \<open>The entries with their depth; an opaque root covers nothing, any other one without a depth fails.\<close>

fun entries_with_depth ::
    "'url url_library \<Rightarrow> ('url \<times> file_system_access_mode) list \<Rightarrow> ('url \<times> file_system_access_mode \<times> nat) list option" where
  "entries_with_depth lib [] = Some []"
| "entries_with_depth lib ((root, access) # es) =
     (case lexical_depth lib root of
        Some depth \<Rightarrow> map_option (\<lambda>ds. (root, access, depth) # ds) (entries_with_depth lib es)
      | None \<Rightarrow> if is_opaque lib root then entries_with_depth lib es else None)"

text \<open>\<open>Iterator::max_by_key\<close> with the key (depth, access): the last of the greatest.\<close>

fun key_le :: "nat \<times> file_system_access_mode \<Rightarrow> nat \<times> file_system_access_mode \<Rightarrow> bool" where
  "key_le (d, a) (d', a') \<longleftrightarrow> d < d' \<or> d = d' \<and> a \<le> a'"

fun deepest_access ::
    "('url \<times> file_system_access_mode \<times> nat) list \<Rightarrow> (nat \<times> file_system_access_mode) option \<Rightarrow> file_system_access_mode option" where
  "deepest_access [] best = map_option snd best"
| "deepest_access ((_, access, depth) # es) best =
     deepest_access es
       (case best of
          None \<Rightarrow> Some (depth, access)
        | Some k \<Rightarrow> if key_le k (depth, access) then Some (depth, access) else Some k)"

definition resolve_access ::
    "'url url_library \<Rightarrow> 'url policy_context \<Rightarrow> 'url file_system_sandbox_policy \<Rightarrow> 'url \<Rightarrow> file_system_access_mode" where
  "resolve_access lib ctx p path =
     (if policy_kind p \<noteq> Restricted then Write
      else (case infer_path_convention lib (ctx_cwd ctx) of
              None \<Rightarrow> Deny
            | Some convention \<Rightarrow>
                if infer_path_convention lib path \<noteq> Some convention \<or> lexical_depth lib path = None \<or>
                   lexical_depth lib (ctx_cwd ctx) = None
                then Deny
                else (case entries_with_depth lib (resolved_entries lib ctx p) of
                        None \<Rightarrow> Deny
                      | Some es \<Rightarrow>
                          (case deepest_access (filter (\<lambda>(root, _, _). uri_starts_with lib path root) es) None of
                             Some access \<Rightarrow> access
                           | None \<Rightarrow> Deny))))"

section \<open>Full-disk writes\<close>

fun special_path_matches_path_uri :: "'url url_library \<Rightarrow> file_system_special_path \<Rightarrow> 'url \<Rightarrow> bool" where
  "special_path_matches_path_uri lib Root path = (lexical_depth lib path \<noteq> None \<and> uri_parent lib path = None)"
| "special_path_matches_path_uri lib SlashTmp path =
     (infer_path_convention lib path = Some PosixPath \<and> lexical_depth lib path = Some 1 \<and>
      uri_basename lib path = Some (lit ''tmp''))"
| "special_path_matches_path_uri lib _ path = False"

fun special_paths_share_target :: "file_system_special_path \<Rightarrow> file_system_special_path \<Rightarrow> bool" where
  "special_paths_share_target Root Root = True"
| "special_paths_share_target Minimal Minimal = True"
| "special_paths_share_target Tmpdir Tmpdir = True"
| "special_paths_share_target SlashTmp SlashTmp = True"
| "special_paths_share_target (ProjectRoots a) (ProjectRoots b) = (a = b)"
| "special_paths_share_target (UnknownSpecial p a) (UnknownSpecial q b) = (p = q \<and> a = b)"
| "special_paths_share_target _ _ = False"

fun file_system_paths_share_target ::
    "'url url_library \<Rightarrow> path_convention \<Rightarrow> 'url file_system_path \<Rightarrow> 'url file_system_path \<Rightarrow> bool" where
  "file_system_paths_share_target lib convention (PathEntry l) (PathEntry r) = uri_eq lib l r"
| "file_system_paths_share_target lib convention (Special l) (Special r) = special_paths_share_target l r"
| "file_system_paths_share_target lib convention (PathEntry path) (Special value) =
     (infer_path_convention lib path = Some convention \<and> special_path_matches_path_uri lib value path)"
| "file_system_paths_share_target lib convention (Special value) (PathEntry path) =
     (infer_path_convention lib path = Some convention \<and> special_path_matches_path_uri lib value path)"
| "file_system_paths_share_target lib convention (GlobPattern l) (GlobPattern r) = (l = r)"
| "file_system_paths_share_target lib convention _ _ = False"

definition has_same_target_write_override ::
    "'url url_library \<Rightarrow> 'url file_system_sandbox_policy \<Rightarrow> path_convention \<Rightarrow> 'url file_system_sandbox_entry \<Rightarrow> bool" where
  "has_same_target_write_override lib p convention e \<longleftrightarrow>
     list_ex (\<lambda>c. can_write (entry_access c) \<and> entry_access c > entry_access e \<and>
                  file_system_paths_share_target lib convention (entry_path c) (entry_path e)) (policy_entries p)"

fun narrows_writes ::
    "'url url_library \<Rightarrow> 'url file_system_sandbox_policy \<Rightarrow> path_convention \<Rightarrow> 'url file_system_sandbox_entry \<Rightarrow> bool" where
  "narrows_writes lib p convention e =
     (if can_write (entry_access e) then False
      else (case entry_path e of
              PathEntry _ \<Rightarrow> \<not> has_same_target_write_override lib p convention e
            | GlobPattern _ \<Rightarrow> True
            | Special Root \<Rightarrow> entry_access e = Deny
            | Special SlashTmp \<Rightarrow>
                if convention = WindowsPath then False else \<not> has_same_target_write_override lib p convention e
            | Special Minimal \<Rightarrow> False
            | Special (UnknownSpecial _ _) \<Rightarrow> False
            | Special _ \<Rightarrow> \<not> has_same_target_write_override lib p convention e))"

definition has_write_narrowing_entries ::
    "'url url_library \<Rightarrow> 'url file_system_sandbox_policy \<Rightarrow> path_convention \<Rightarrow> bool" where
  "has_write_narrowing_entries lib p convention \<longleftrightarrow>
     policy_kind p = Restricted \<and> list_ex (narrows_writes lib p convention) (policy_entries p)"

definition has_full_disk_write_access_for_convention ::
    "'url url_library \<Rightarrow> path_convention option \<Rightarrow> 'url file_system_sandbox_policy \<Rightarrow> bool" where
  "has_full_disk_write_access_for_convention lib convention p =
     (if policy_kind p \<noteq> Restricted then True
      else (case convention of
              None \<Rightarrow> False
            | Some c \<Rightarrow> has_root_access p can_write \<and> \<not> has_write_narrowing_entries lib p c))"

definition has_full_disk_write_access :: "'url url_library \<Rightarrow> 'url file_system_sandbox_policy \<Rightarrow> bool" where
  "has_full_disk_write_access lib p = has_full_disk_write_access_for_convention lib (Some native_convention) p"

definition has_full_disk_write_access_with_context ::
    "'url url_library \<Rightarrow> 'url policy_context \<Rightarrow> 'url file_system_sandbox_policy \<Rightarrow> bool" where
  "has_full_disk_write_access_with_context lib ctx p =
     has_full_disk_write_access_for_convention lib (infer_path_convention lib (ctx_cwd ctx)) p"

section \<open>Protected metadata\<close>

definition PROTECTED_METADATA_PATH_NAMES :: "rstr list" where
  "PROTECTED_METADATA_PATH_NAMES = [lit ''.git'', lit ''.agents'', lit ''.codex'']"

definition protected_under ::
    "'url url_library \<Rightarrow> 'url \<Rightarrow> 'url \<Rightarrow> ('url \<times> rstr) option" where
  "protected_under lib path root =
     find_map (\<lambda>name. case join_descendant lib root name of
                        Ok protected \<Rightarrow> if uri_starts_with lib path protected then Some (protected, name) else None
                      | Err _ \<Rightarrow> None) PROTECTED_METADATA_PATH_NAMES"

definition metadata_write_denial ::
    "'url url_library \<Rightarrow> 'url policy_context \<Rightarrow> 'url file_system_sandbox_policy \<Rightarrow> 'url \<Rightarrow> rstr option" where
  "metadata_write_denial lib ctx p path =
     (if policy_kind p \<noteq> Restricted then None
      else let entries = resolved_entries lib ctx p
           in case find_map (\<lambda>(root, _). protected_under lib path root)
                     (filter (\<lambda>(_, access). can_write access) entries) of
                None \<Rightarrow> None
              | Some (protected, name) \<Rightarrow>
                  if list_ex (\<lambda>(root, access). can_write access \<and> uri_starts_with lib path root \<and>
                                               uri_starts_with lib root protected) entries
                  then None else Some name)"

definition can_write_path ::
    "'url url_library \<Rightarrow> 'url policy_context \<Rightarrow> 'url file_system_sandbox_policy \<Rightarrow> 'url \<Rightarrow> bool" where
  "can_write_path lib ctx p path \<longleftrightarrow>
     can_write (resolve_access lib ctx p path) \<and>
     (has_full_disk_write_access_with_context lib ctx p \<or> metadata_write_denial lib ctx p path = None)"

definition has_configured_writable_roots ::
    "'url url_library \<Rightarrow> 'url policy_context \<Rightarrow> 'url file_system_sandbox_policy \<Rightarrow> bool" where
  "has_configured_writable_roots lib ctx p \<longleftrightarrow>
     \<not> has_full_disk_write_access_with_context lib ctx p \<and>
     list_ex (\<lambda>(path, access). can_write access \<and> can_write_path lib ctx p path) (resolved_entries lib ctx p)"

section \<open>The workspace policy\<close>

definition read_only :: "'url file_system_sandbox_policy" where
  "read_only = restricted [entry_new (Special Root) Read]"

definition skip_missing_path_entry ::
    "'url file_system_path \<Rightarrow> file_system_access_mode \<Rightarrow> 'url file_system_sandbox_entry" where
  "skip_missing_path_entry path access = (entry_new path access)\<lparr>entry_missing := Some SkipMissing\<rparr>"

definition append_default_read_only_entry_if_no_explicit_rule ::
    "'url url_library \<Rightarrow> 'url file_system_path \<Rightarrow> 'url file_system_sandbox_entry list \<Rightarrow> 'url file_system_sandbox_entry list" where
  "append_default_read_only_entry_if_no_explicit_rule lib path es =
     (if list_ex (\<lambda>e. file_system_paths_share_target lib native_convention (entry_path e) path) es then es
      else es @ [skip_missing_path_entry path Read])"

text \<open>
  \<open>workspace_write\<close>. Which metadata paths of a writable root exist is read from the disk by
  \<open>default_read_only_subpaths_for_writable_root\<close>, here the parameter \<open>read_only_subpaths\<close>.
\<close>

definition workspace_write ::
    "'url url_library \<Rightarrow> ('url \<Rightarrow> 'url list) \<Rightarrow> 'url list \<Rightarrow> bool \<Rightarrow> bool \<Rightarrow> 'url file_system_sandbox_policy" where
  "workspace_write lib read_only_subpaths writable_roots exclude_tmpdir_env_var exclude_slash_tmp =
     (let es = [entry_new (Special Root) Read, entry_new (Special (ProjectRoots None)) Write]
             @ (if exclude_slash_tmp then [] else [entry_new (Special SlashTmp) Write])
             @ (if exclude_tmpdir_env_var then [] else [entry_new (Special Tmpdir) Write])
             @ map (\<lambda>root. entry_new (PathEntry root) Write) writable_roots;
          es' = fold (\<lambda>name. append_default_read_only_entry_if_no_explicit_rule lib (Special (ProjectRoots (Some name))))
                  PROTECTED_METADATA_PATH_NAMES es
      in restricted (fold (\<lambda>path. append_default_read_only_entry_if_no_explicit_rule lib (PathEntry path))
                       (concat (map read_only_subpaths writable_roots)) es'))"

section \<open>The deepest entry decides\<close>

lemma key_le_trans: "key_le k l \<Longrightarrow> key_le l m \<Longrightarrow> key_le k m"
  by (cases k; cases l; cases m) auto

lemma key_le_total: "key_le k l \<or> key_le l k"
  by (cases k; cases l) auto

lemma key_le_refl [simp]: "key_le k k"
  by (cases k) auto

abbreviation entry_keys :: "('url \<times> file_system_access_mode \<times> nat) list \<Rightarrow> (nat \<times> file_system_access_mode) set" where
  "entry_keys es \<equiv> (\<lambda>(_, access, depth). (depth, access)) ` set es"

lemma deepest_access_best:
  "deepest_access es (Some k) = Some a \<Longrightarrow>
     \<exists>d. (d, a) \<in> insert k (entry_keys es) \<and> (\<forall>l \<in> insert k (entry_keys es). key_le l (d, a))"
proof (induction es arbitrary: k)
  case Nil
  then show ?case by (cases k) auto
next
  case (Cons e es)
  obtain r x y where e: "e = (r, x, y)" by (cases e)
  let ?k = "if key_le k (y, x) then (y, x) else k"
  have "key_le k ?k" "key_le (y, x) ?k" "?k \<in> {k, (y, x)}"
    using key_le_total[of k "(y, x)"] by (auto simp del: key_le.simps)
  moreover have "deepest_access es (Some ?k) = Some a"
    using Cons.prems e by (auto split: if_splits)
  then obtain d where "(d, a) \<in> insert ?k (entry_keys es)" "\<forall>l \<in> insert ?k (entry_keys es). key_le l (d, a)"
    using Cons.IH by blast
  ultimately show ?case
    using e key_le_trans[of k ?k "(d, a)"] key_le_trans[of "(y, x)" ?k "(d, a)"] by (intro exI[of _ d]) auto
qed

lemma deepest_access_some: "deepest_access es (Some k) \<noteq> None"
  by (induction es arbitrary: k) (auto split: if_splits)

lemma deepest_access_None: "deepest_access es None = None \<longleftrightarrow> es = []"
proof (cases es)
  case (Cons e es')
  obtain r a d where "e = (r, a, d)" by (cases e)
  with Cons deepest_access_some[of es' "(d, a)"] show ?thesis by simp
qed simp

lemma deepest_access_Some:
  assumes "deepest_access es None = Some a"
  shows "\<exists>d. (d, a) \<in> entry_keys es \<and> (\<forall>l \<in> entry_keys es. key_le l (d, a))"
proof (cases es)
  case Nil
  with assms show ?thesis by simp
next
  case (Cons e es')
  then show ?thesis using assms deepest_access_best[of es'] by (cases e) auto
qed

lemma entries_with_depth_None:
  "entries_with_depth lib es = None \<longleftrightarrow> (\<exists>(r, a) \<in> set es. lexical_depth lib r = None \<and> \<not> is_opaque lib r)"
  by (induction es rule: entries_with_depth.induct) (auto split: option.splits if_splits)

lemma entries_with_depth_Some:
  "entries_with_depth lib es = Some ds \<Longrightarrow>
     set ds = {(r, a, d). (r, a) \<in> set es \<and> lexical_depth lib r = Some d}"
  by (induction es arbitrary: ds rule: entries_with_depth.induct) (auto split: option.splits if_splits)

text \<open>The resolved entries that cover a path, and the policies whose roots can all be placed.\<close>

definition covering ::
    "'url url_library \<Rightarrow> 'url policy_context \<Rightarrow> 'url file_system_sandbox_policy \<Rightarrow> 'url \<Rightarrow> ('url \<times> file_system_access_mode) set" where
  "covering lib ctx p path =
     {(r, a). (r, a) \<in> set (resolved_entries lib ctx p) \<and> lexical_depth lib r \<noteq> None \<and> uri_starts_with lib path r}"

definition placeable :: "'url url_library \<Rightarrow> 'url policy_context \<Rightarrow> 'url file_system_sandbox_policy \<Rightarrow> bool" where
  "placeable lib ctx p \<longleftrightarrow>
     list_all (\<lambda>(r, _). lexical_depth lib r \<noteq> None \<or> is_opaque lib r) (resolved_entries lib ctx p)"

lemma resolve_access_key:
  assumes "policy_kind p = Restricted" "placeable lib ctx p"
    "infer_path_convention lib path = infer_path_convention lib (ctx_cwd ctx)"
    "lexical_depth lib path \<noteq> None" "lexical_depth lib (ctx_cwd ctx) \<noteq> None"
  shows "covering lib ctx p path = {} \<and> resolve_access lib ctx p path = Deny \<or>
     (\<exists>r d. (r, resolve_access lib ctx p path) \<in> covering lib ctx p path \<and> lexical_depth lib r = Some d \<and>
       (\<forall>(r', a') \<in> covering lib ctx p path. key_le (the (lexical_depth lib r'), a') (d, resolve_access lib ctx p path)))"
proof -
  obtain ds where ds: "entries_with_depth lib (resolved_entries lib ctx p) = Some ds"
    using assms(2) entries_with_depth_None[of lib "resolved_entries lib ctx p"]
    by (cases "entries_with_depth lib (resolved_entries lib ctx p)") (auto simp: placeable_def list_all_iff)
  define es where "es = filter (\<lambda>(root, _, _). uri_starts_with lib path root) ds"
  have es: "set es = {(r, a, d). (r, a) \<in> covering lib ctx p path \<and> lexical_depth lib r = Some d}"
    using entries_with_depth_Some[OF ds] by (auto simp: es_def covering_def)
  have res: "resolve_access lib ctx p path = (case deepest_access es None of Some a \<Rightarrow> a | None \<Rightarrow> Deny)"
    using assms ds by (auto simp: resolve_access_def es_def lexical_depth_def split: option.splits if_splits)
  show ?thesis
  proof (cases "deepest_access es None")
    case None
    then have "covering lib ctx p path = {}"
      using es by (auto simp: deepest_access_None covering_def)
    with None res show ?thesis by simp
  next
    case (Some a)
    then obtain d where d: "(d, a) \<in> entry_keys es" "\<forall>l \<in> entry_keys es. key_le l (d, a)"
      using deepest_access_Some by blast
    then obtain r where "(r, a) \<in> covering lib ctx p path" "lexical_depth lib r = Some d"
      using es by auto
    moreover have "key_le (the (lexical_depth lib r'), a') (d, a)" if cov: "(r', a') \<in> covering lib ctx p path" for r' a'
    proof -
      obtain d' where "lexical_depth lib r' = Some d'" using cov unfolding covering_def by blast
      then have "(d', a') \<in> entry_keys es" using cov es by force
      with d(2) \<open>lexical_depth lib r' = Some d'\<close> show ?thesis by auto
    qed
    ultimately show ?thesis
      using Some res by (intro disjI2 exI[of _ r] exI[of _ d]) (auto simp del: key_le.simps)
  qed
qed

lemma covering_posix:
  assumes "posix_uri lib (ctx_cwd ctx)" "(r, a) \<in> covering lib ctx p path"
  shows "posix_uri lib r"
  using assms posix_uriD(5)[OF assms(1)]
  by (auto simp: covering_def resolved_entries_def resolved_entry_def posix_uri_def)

lemma posix_deepest:
  assumes "policy_kind p = Restricted" "placeable lib ctx p" "posix_uri lib (ctx_cwd ctx)" "posix_uri lib path"
    "covering lib ctx p path \<noteq> {}"
  obtains r where "(r, resolve_access lib ctx p path) \<in> covering lib ctx p path"
    "\<And>r' a'. (r', a') \<in> covering lib ctx p path \<Longrightarrow> prefix (posix_path lib r') (posix_path lib r)"
    "\<And>r' a'. (r', a') \<in> covering lib ctx p path \<Longrightarrow> posix_path lib r' = posix_path lib r \<Longrightarrow>
       a' \<le> resolve_access lib ctx p path"
proof -
  obtain r d where r: "(r, resolve_access lib ctx p path) \<in> covering lib ctx p path" "lexical_depth lib r = Some d"
    and key: "\<forall>(r', a') \<in> covering lib ctx p path. key_le (the (lexical_depth lib r'), a') (d, resolve_access lib ctx p path)"
    using resolve_access_key[OF assms(1,2), of path] posix_uriD(4,5)[OF assms(3)] posix_uriD(4,5)[OF assms(4)] assms(5)
    by auto
  have at: "posix_uri lib q \<and> prefix (posix_path lib q) (posix_path lib path) \<and> lexical_depth lib q = Some (length (posix_path lib q))"
    if cov: "(q, a) \<in> covering lib ctx p path" for q a
    using covering_posix[OF assms(3) cov] posix_uriD(4)[OF covering_posix[OF assms(3) cov]]
      uri_starts_with_prefix[OF assms(4) covering_posix[OF assms(3) cov]] cov
    by (simp add: covering_def)
  show thesis
  proof (rule that[OF r(1)])
    fix r' a' assume cov: "(r', a') \<in> covering lib ctx p path"
    then have "key_le (length (posix_path lib r'), a') (length (posix_path lib r), resolve_access lib ctx p path)"
      using key at[OF cov] at[OF r(1)] r(2) by fastforce
    then show "prefix (posix_path lib r') (posix_path lib r)"
      using at[OF cov] at[OF r(1)] prefix_length_prefix[of "posix_path lib r'" "posix_path lib path" "posix_path lib r"] by auto
    show "a' \<le> resolve_access lib ctx p path" if "posix_path lib r' = posix_path lib r"
      using \<open>key_le _ _\<close> that by simp
  qed
qed


section \<open>Denials only take access away\<close>

lemma resolve_access_unplaceable:
  assumes "policy_kind p = Restricted"
    "\<not> placeable lib ctx p \<or> infer_path_convention lib path \<noteq> infer_path_convention lib (ctx_cwd ctx) \<or>
     lexical_depth lib path = None \<or> lexical_depth lib (ctx_cwd ctx) = None"
  shows "resolve_access lib ctx p path = Deny"
proof (cases "placeable lib ctx p")
  case True
  with assms show ?thesis by (auto simp: resolve_access_def split: option.splits)
next
  case False
  then have "entries_with_depth lib (resolved_entries lib ctx p) = None"
    by (auto simp: entries_with_depth_None placeable_def list_all_iff)
  then show ?thesis using assms(1) by (auto simp: resolve_access_def split: option.splits)
qed

lemma resolve_access_range:
  assumes "policy_kind p = Restricted"
  shows "resolve_access lib ctx p path \<in> insert Deny (entry_access ` set (policy_entries p))"
proof (cases "placeable lib ctx p \<and> infer_path_convention lib path = infer_path_convention lib (ctx_cwd ctx) \<and>
    lexical_depth lib path \<noteq> None \<and> lexical_depth lib (ctx_cwd ctx) \<noteq> None")
  case False
  then show ?thesis using resolve_access_unplaceable[OF assms, of lib ctx path] by auto
next
  case True
  then have "resolve_access lib ctx p path = Deny \<or>
      (\<exists>r. (r, resolve_access lib ctx p path) \<in> covering lib ctx p path)"
    using resolve_access_key[OF assms, of lib ctx path] by blast
  then show ?thesis
    by (auto simp: covering_def resolved_entries_def resolved_entry_def)
qed

lemma key_le_antisym: "key_le k l \<Longrightarrow> key_le l k \<Longrightarrow> k = l"
  by (cases k; cases l) auto

lemma more_denials:
  assumes "policy_kind p = Restricted" "policy_kind q = Restricted"
    "set (resolved_entries lib ctx q) = set (resolved_entries lib ctx p) \<union> denied" "snd ` denied \<subseteq> {Deny}"
  shows "resolve_access lib ctx q path \<in> {resolve_access lib ctx p path, Deny}"
proof (cases "placeable lib ctx q \<and> infer_path_convention lib path = infer_path_convention lib (ctx_cwd ctx) \<and>
    lexical_depth lib path \<noteq> None \<and> lexical_depth lib (ctx_cwd ctx) \<noteq> None")
  case False
  then show ?thesis using resolve_access_unplaceable[OF assms(2), of lib ctx path] by auto
next
  case True
  then have "placeable lib ctx p"
    using assms(3) by (auto simp: placeable_def list_all_iff)
  let ?a = "resolve_access lib ctx p path" and ?b = "resolve_access lib ctx q path"
  have sub: "covering lib ctx p path \<subseteq> covering lib ctx q path"
    using assms(3) by (auto simp: covering_def)
  show ?thesis
  proof (rule ccontr)
    assume diff: "?b \<notin> {?a, Deny}"
    obtain r d where r: "(r, ?b) \<in> covering lib ctx q path" "lexical_depth lib r = Some d"
      and top: "\<forall>(r', a') \<in> covering lib ctx q path. key_le (the (lexical_depth lib r'), a') (d, ?b)"
      using resolve_access_key[OF assms(2), of lib ctx path] True diff by auto
    have "(r, ?b) \<in> covering lib ctx p path"
      using r(1) assms(3,4) diff by (force simp: covering_def)
    then obtain r' d' where r': "(r', ?a) \<in> covering lib ctx p path" "lexical_depth lib r' = Some d'"
      "key_le (d, ?b) (d', ?a)"
      using resolve_access_key[OF assms(1) \<open>placeable lib ctx p\<close>, of path] True r(2) by fastforce
    then have "key_le (d', ?a) (d, ?b)"
      using top sub by fastforce
    with r'(3) have "?a = ?b" using key_le_antisym by blast
    with diff show False by simp
  qed
qed

lemma resolved_entries_push:
  "set (resolved_entries lib ctx (p\<lparr>glob_scan_max_depth := n, policy_entries := push_new_entries (policy_entries p) es\<rparr>)) =
     set (resolved_entries lib ctx p) \<union> set (concat (map (resolved_entry lib ctx) es))"
  by (auto simp: resolved_entries_def push_new_entries_set)

text \<open>
  Replacing the allowed side of a policy while keeping the denied reads of the old one never grants
  more than the replacement: at every path, the policy that \<open>preserve_deny_read_restrictions_from\<close> makes
  answers what the replacement alone answers, or denies.
\<close>

theorem preserving_denials_grants_nothing:
  "resolve_access lib ctx (preserve_deny_read_restrictions_from existing p) path \<in> {resolve_access lib ctx p path, Deny}"
proof -
  let ?denied = "set (concat (map (resolved_entry lib ctx) (deny_entries existing)))"
  have deny: "snd ` ?denied \<subseteq> {Deny}"
    by (auto simp: resolved_entry_def deny_entries_def)
  have step: "resolve_access lib ctx (q\<lparr>glob_scan_max_depth := n,
      policy_entries := push_new_entries (policy_entries q) (deny_entries existing)\<rparr>) path \<in> {resolve_access lib ctx q path, Deny}"
    if "policy_kind q = Restricted" for q n
    using that by (intro more_denials[OF _ _ resolved_entries_push deny]) simp_all
  have root: "resolve_access lib ctx (restricted [entry_new (Special Root) Write]) path \<in> {Write, Deny}"
    using resolve_access_range[of "restricted [entry_new (Special Root) Write]" lib ctx path]
    by (auto simp: restricted_def entry_new_def)
  have free: "resolve_access lib ctx q path = Write" if "policy_kind q \<noteq> Restricted" for q
    using that by (simp add: resolve_access_def)
  have restr: "policy_kind (restricted [entry_new (Special Root) Write]) = Restricted"
    by (simp add: restricted_def)
  consider "policy_kind p = Restricted" | "policy_kind p = Unrestricted" "deny_entries existing \<noteq> []"
    | "policy_kind p \<noteq> Restricted" "preserve_deny_read_restrictions_from existing p = p"
    by (cases "policy_kind p"; cases "deny_entries existing = []")
      (auto simp: preserve_deny_read_restrictions_from_def Let_def)
  then show ?thesis
  proof cases
    case 1
    then show ?thesis using step[OF 1] by (simp add: preserve_deny_read_restrictions_from_def Let_def)
  next
    case 2
    let ?q = "restricted [entry_new (Special Root) Write]"
    have "preserve_deny_read_restrictions_from existing p = ?q\<lparr>glob_scan_max_depth := glob_scan_max_depth existing,
        policy_entries := push_new_entries (policy_entries ?q) (deny_entries existing)\<rparr>"
      using 2 by (simp add: preserve_deny_read_restrictions_from_def Let_def restricted_def)
    then show ?thesis
      using step[OF restr] root free[of p] 2(1) by (metis file_system_sandbox_kind.distinct(1) insert_iff empty_iff)
  next
    case 3
    then show ?thesis by simp
  qed
qed

section \<open>The full-disk shortcut\<close>

lemma root_resolved:
  assumes "url_laws lib" "clean_uri lib (ctx_cwd ctx)"
  shows "\<exists>r. file_system_root lib ctx = Some r \<and> clean_uri lib r \<and> posix_path lib r = []"
proof -
  let ?as = "uri_ancestors lib (ctx_cwd ctx)"
  note anc = clean_ancestors[OF assms segments_nonempty[OF assms(1)]]
  have "?as \<noteq> []" by (simp add: uri_ancestors_def)
  then have "clean_uri lib (last ?as)" using anc last_in_set by blast
  then show ?thesis
    using anc \<open>?as \<noteq> []\<close> assms(2) posix_uriD(4)[of lib "ctx_cwd ctx"]
    by (auto simp: file_system_root_def last_opt_def clean_uri_def posix_path_def)
qed

lemma special_place:
  assumes "url_laws lib" "clean_uri lib (ctx_cwd ctx)"
    "infer_path_convention lib l = Some PosixPath" "special_path_matches_path_uri lib v l"
  shows "posix_uri lib l \<and> (\<exists>r. resolved_special lib ctx v = [r] \<and> posix_uri lib r \<and> posix_path lib r = posix_path lib l)"
proof -
  have l: "posix_uri lib l"
    using assms(3,4) by (cases v) (auto simp: posix_uri_def)
  note parts = posix_uriD[OF l]
  consider "v = Root" | "v = SlashTmp"
    using assms(4) by (cases v) auto
  then show ?thesis
  proof cases
    case 1
    then have "posix_path lib l = []"
      using assms(4) parent_exists[OF l] by (simp add: posix_path_def)
    then show ?thesis
      using l 1 root_resolved[OF assms(1,2)] by (auto simp: clean_uri_def)
  next
    case 2
    then have "length (named_segments lib l) = 1" "uri_basename lib l = Some (lit ''tmp'')"
      using assms(4) parts(4) by (auto simp: posix_path_def)
    then obtain s where "named_segments lib l = [s]" "decode_uri_path lib s = lit ''tmp''"
      using parts(1) by (auto simp: uri_basename_def last_opt_def length_Suc_conv)
    then have "posix_path lib l = [lit ''tmp'']"
      using decoded_plain[OF assms(1) _ tmp_plain(1,3)] by (simp add: posix_path_def)
    moreover have "infer_path_convention lib (ctx_cwd ctx) = Some PosixPath"
      using assms(2) posix_uriD(5) by (auto simp: clean_uri_def)
    ultimately show ?thesis
      using l 2 join_tmp[OF assms(1), of "ctx_cwd ctx"] by (auto simp: clean_uri_def ok_list_def)
  qed
qed

lemma special_share_eq: "special_paths_share_target l r \<Longrightarrow> l = r"
  by (cases "(l, r)" rule: special_paths_share_target.cases) auto

lemma uri_eq_posix: "posix_uri lib r \<Longrightarrow> uri_eq lib l r \<Longrightarrow> l = r"
  using posix_uriD(5)[of lib r] by (auto simp: uri_eq_def windows_identity_path_bytes_def split: option.splits)

lemma shared_target_same_place:
  assumes "url_laws lib" "clean_uri lib (ctx_cwd ctx)" "file_system_paths_share_target lib PosixPath c e"
    "r \<in> set (resolved_path lib ctx e)" "posix_uri lib r"
  shows "\<exists>r' \<in> set (resolved_path lib ctx c). posix_uri lib r' \<and> posix_path lib r' = posix_path lib r"
proof -
  note place = special_place[OF assms(1,2)]
  show ?thesis
  proof (cases c)
    case c: (PathEntry l)
    show ?thesis
    proof (cases e)
      case (PathEntry q)
      then show ?thesis using assms c uri_eq_posix by fastforce
    next
      case (Special v)
      then show ?thesis using assms(3,4) c place[of l v] by auto
    qed (use assms c in auto)
  next
    case c: (Special v)
    show ?thesis
    proof (cases e)
      case (PathEntry q)
      then show ?thesis using assms(3,4) c place[of q v] by auto
    next
      case (Special w)
      then show ?thesis using assms(3-5) c special_share_eq by fastforce
    qed (use assms c in auto)
  qed (use assms(3,4) in \<open>cases e; auto\<close>)
qed

lemma covering_entry:
  assumes "(r, a) \<in> covering lib ctx p path"
  obtains e where "e \<in> set (policy_entries p)" "entry_access e = a" "r \<in> set (resolved_path lib ctx (entry_path e))"
  using assms by (auto simp: covering_def resolved_entries_def resolved_entry_def)

lemma coveringI:
  assumes "posix_uri lib (ctx_cwd ctx)" "posix_uri lib path" "e \<in> set (policy_entries p)"
    "r \<in> set (resolved_path lib ctx (entry_path e))" "posix_uri lib r" "prefix (posix_path lib r) (posix_path lib path)"
  shows "(r, entry_access e) \<in> covering lib ctx p path"
  using assms posix_uriD(4,5)[OF assms(5)] posix_uriD(5)[OF assms(1)] uri_starts_with_prefix[OF assms(2,5)]
  by (auto simp: covering_def resolved_entries_def resolved_entry_def)

lemma override_entry:
  assumes "has_same_target_write_override lib p PosixPath e"
  obtains c where "c \<in> set (policy_entries p)" "entry_access c = Write" "entry_access e = Read"
    "file_system_paths_share_target lib PosixPath (entry_path c) (entry_path e)"
  using assms
  by (cases "entry_access e")
    (auto simp: has_same_target_write_override_def list_ex_iff can_write_def less_file_system_access_mode_def)

lemma not_narrowing_shadowed:
  assumes "has_root_access p can_write" "\<not> narrows_writes lib p PosixPath e" "entry_access e \<noteq> Write"
    "r \<in> set (resolved_path lib ctx (entry_path e))" "e \<in> set (policy_entries p)"
  obtains c where "c \<in> set (policy_entries p)" "entry_access c = Write" "entry_access e = Read"
    "file_system_paths_share_target lib PosixPath (entry_path c) (entry_path e)"
proof (cases "entry_path e = Special Root")
  case True
  then have "entry_access e = Read"
    using assms(2,3) by (cases "entry_access e") (auto simp: can_write_def)
  moreover obtain c where "c \<in> set (policy_entries p)" "entry_path c = Special Root" "entry_access c = Write"
    using assms(1) by (auto simp: has_root_access_def list_ex_iff can_write_def)
  ultimately show ?thesis using that True by simp
next
  case False
  then have "has_same_target_write_override lib p PosixPath e"
    using assms(2-4)
    by (auto simp: can_write_def split: file_system_path.splits file_system_special_path.splits if_splits)
  then show ?thesis using override_entry that by blast
qed

lemma full_disk_resolves_write:
  assumes "url_laws lib" "clean_uri lib (ctx_cwd ctx)" "posix_uri lib path" "placeable lib ctx p"
    "has_full_disk_write_access_with_context lib ctx p"
  shows "resolve_access lib ctx p path = Write"
proof (cases "policy_kind p = Restricted")
  case False
  then show ?thesis by (simp add: resolve_access_def)
next
  case True
  have cwd: "posix_uri lib (ctx_cwd ctx)" using assms(2) by (simp add: clean_uri_def)
  have root: "has_root_access p can_write" and narrow: "\<not> has_write_narrowing_entries lib p PosixPath"
    using assms(5) True posix_uriD(5)[OF cwd]
    by (auto simp: has_full_disk_write_access_with_context_def has_full_disk_write_access_for_convention_def)
  obtain c where c: "c \<in> set (policy_entries p)" "entry_path c = Special Root" "entry_access c = Write"
    using root by (auto simp: has_root_access_def list_ex_iff can_write_def)
  obtain r0 where "file_system_root lib ctx = Some r0" "posix_uri lib r0" "posix_path lib r0 = []"
    using root_resolved[OF assms(1,2)] by (auto simp: clean_uri_def)
  then have "covering lib ctx p path \<noteq> {}"
    using coveringI[OF cwd assms(3) c(1), of r0] c(2) by auto
  then obtain r where r: "(r, resolve_access lib ctx p path) \<in> covering lib ctx p path"
    and tie: "\<And>r' a'. (r', a') \<in> covering lib ctx p path \<Longrightarrow> posix_path lib r' = posix_path lib r \<Longrightarrow>
      a' \<le> resolve_access lib ctx p path"
    by (rule posix_deepest[OF True assms(4) cwd assms(3)]) blast
  obtain e where e: "e \<in> set (policy_entries p)" "entry_access e = resolve_access lib ctx p path"
      "r \<in> set (resolved_path lib ctx (entry_path e))"
    by (rule covering_entry[OF r])
  have px: "posix_uri lib r" using covering_posix[OF cwd r] .
  show ?thesis
  proof (rule ccontr)
    assume no: "resolve_access lib ctx p path \<noteq> Write"
    have "\<not> narrows_writes lib p PosixPath e"
      using narrow True e(1) by (auto simp: has_write_narrowing_entries_def list_ex_iff)
    then obtain c where c: "c \<in> set (policy_entries p)" "entry_access c = Write" "entry_access e = Read"
      "file_system_paths_share_target lib PosixPath (entry_path c) (entry_path e)"
      using not_narrowing_shadowed[OF root _ _ e(3) e(1)] no e(2) by metis
    obtain r' where "r' \<in> set (resolved_path lib ctx (entry_path c))" "posix_uri lib r'" "posix_path lib r' = posix_path lib r"
      using shared_target_same_place[OF assms(1,2) c(4) e(3) px] by blast
    moreover have "prefix (posix_path lib r) (posix_path lib path)"
      using r uri_starts_with_prefix[OF assms(3) px] by (simp add: covering_def)
    ultimately have "Write \<le> resolve_access lib ctx p path"
      using coveringI[OF cwd assms(3) c(1), of r'] c(2) tie[of r' Write] by simp
    moreover have "resolve_access lib ctx p path = Read" using c(3) e(2) by simp
    ultimately show False by (simp add: less_eq_file_system_access_mode_def)
  qed
qed

text \<open>
  C21: The full-disk shortcut of a policy is right: when \<open>has_full_disk_write_access_with_context\<close> holds on
  a POSIX executor, whose roots can be placed, the entries resolve to write access at every path that can
  be placed, so \<open>can_write_path\<close> holds everywhere. An entry that a write entry for the same target
  overrides does not count against it.
\<close>

theorem full_disk_shortcut_sound:
  assumes "url_laws lib" "clean_uri lib (ctx_cwd ctx)" "posix_uri lib path" "placeable lib ctx p"
    "has_full_disk_write_access_with_context lib ctx p"
  shows "resolve_access lib ctx p path = Write \<and> can_write_path lib ctx p path"
  using full_disk_resolves_write[OF assms] assms(5) by (simp add: can_write_path_def can_write_def)

section \<open>Metadata directories\<close>

text \<open>
  A writable entry opens a metadata directory at a path when it covers the path and lies at or below a
  metadata directory of a writable root that covers the path too.
\<close>

definition opens_metadata ::
    "'url url_library \<Rightarrow> 'url policy_context \<Rightarrow> 'url file_system_sandbox_policy \<Rightarrow> 'url \<Rightarrow> bool" where
  "opens_metadata lib ctx p path \<longleftrightarrow>
     list_ex (\<lambda>(w, a). can_write a \<and> uri_starts_with lib path w \<and>
       list_ex (\<lambda>(root, b). can_write b \<and>
         list_ex (\<lambda>name. case join_descendant lib root name of
                           Ok d \<Rightarrow> uri_starts_with lib path d \<and> uri_starts_with lib w d
                         | Err _ \<Rightarrow> False) PROTECTED_METADATA_PATH_NAMES)
       (resolved_entries lib ctx p)) (resolved_entries lib ctx p)"

lemma protected_underD:
  assumes "protected_under lib path root = Some (d, name)"
  shows "name \<in> set PROTECTED_METADATA_PATH_NAMES" "join_descendant lib root name = Ok d" "uri_starts_with lib path d"
proof -
  obtain x where x: "x \<in> set PROTECTED_METADATA_PATH_NAMES"
    "(case join_descendant lib root x of
        Ok e \<Rightarrow> if uri_starts_with lib path e then Some (e, x) else None | Err _ \<Rightarrow> None) = Some (d, name)"
    using find_map_SomeD[OF assms[unfolded protected_under_def]] by blast
  then have "x = name \<and> join_descendant lib root x = Ok d \<and> uri_starts_with lib path d"
    by (cases "join_descendant lib root x") (auto split: if_splits)
  with x(1) show "name \<in> set PROTECTED_METADATA_PATH_NAMES" "join_descendant lib root name = Ok d"
    "uri_starts_with lib path d" by auto
qed

lemma protected_under_exists:
  assumes "name \<in> set PROTECTED_METADATA_PATH_NAMES" "join_descendant lib root name = Ok d" "uri_starts_with lib path d"
  shows "protected_under lib path root \<noteq> None"
  using assms by (auto simp: protected_under_def find_map_None_iff split: result.splits) force


section \<open>Witnesses\<close>

definition sample_uri :: "string list \<Rightarrow> sample_url" where
  "sample_uri ss = (None, map lit ss)"

definition sample_context :: "sample_url policy_context" where
  "sample_context = \<lparr>ctx_cwd = sample_uri [''w''], ctx_workspace_roots = [sample_uri [''w'']],
     ctx_user_home_dir = None, ctx_temporary_directories = None\<rparr>"

definition path_grant :: "string list \<Rightarrow> file_system_access_mode \<Rightarrow> sample_url file_system_sandbox_entry" where
  "path_grant ss access = entry_new (PathEntry (sample_uri ss)) access"


definition sample_policy :: "sample_url file_system_sandbox_policy" where
  "sample_policy = restricted [entry_new (Special Root) Read, path_grant [''w''] Write, path_grant [''w'', ''secret''] Deny]"

lemma sample_context_facts:
  "policy_kind sample_policy = Restricted" "placeable sample_library sample_context sample_policy"
  "clean_uri sample_library (ctx_cwd sample_context)" "posix_uri sample_library (ctx_cwd sample_context)"
  "posix_uri sample_library (sample_uri [''w'', ''secret'', ''x''])"
  by code_simp+


lemma full_disk_shortcut_sound_witness:
  "can_write_path sample_library sample_context
     (restricted [entry_new (Special Root) Write, path_grant [''w''] Read, path_grant [''w''] Write]) (sample_uri [''w'', ''x''])"
proof -
  let ?p = "restricted [entry_new (Special Root) Write, path_grant [''w''] Read, path_grant [''w''] Write]"
  have "posix_uri sample_library (sample_uri [''w'', ''x''])" "placeable sample_library sample_context ?p"
    "has_full_disk_write_access_with_context sample_library sample_context ?p"
    by code_simp+
  then show ?thesis
    using full_disk_shortcut_sound[OF sample_library_laws sample_context_facts(3)] by blast
qed


end
