(* ===== verification/Sandbox_Manager.thy ===== *)
theory Sandbox_Manager
  imports Sandbox_Access Exec_Approval
begin

text \<open>
  Which sandbox a command runs in. The first part follows \<open>sandboxing/src/policy_transforms.rs\<close>: how
  additional permissions that a command was granted are normalised, merged and laid over a permission
  profile. The second follows \<open>sandboxing/src/manager.rs\<close> and \<open>core/src/tools/sandboxing.rs\<close>: when a
  sandbox is required, which one the platform offers, and when a command may run without it. Entries
  are compared as the model compares paths, which on POSIX is how the code compares them.
\<close>

section \<open>Additional permissions\<close>

record 'u file_system_permissions =
  fsp_entries :: "'u file_system_sandbox_entry list"
  fsp_glob_scan_max_depth :: "nat option"

text \<open>\<open>NetworkPermissions\<close> has the one field \<open>enabled\<close>.\<close>

type_synonym network_permissions = "bool option"

record 'u additional_permission_profile =
  ap_network :: "network_permissions option"
  ap_file_system :: "'u file_system_permissions option"

definition additional_is_empty :: "'u additional_permission_profile \<Rightarrow> bool" where
  "additional_is_empty ap \<longleftrightarrow> ap_network ap = None \<and> ap_file_system ap = None"

definition fsp_is_empty :: "'u file_system_permissions \<Rightarrow> bool" where
  "fsp_is_empty fs \<longleftrightarrow> fsp_entries fs = []"

definition option_filter :: "('a \<Rightarrow> bool) \<Rightarrow> 'a option \<Rightarrow> 'a option" where
  "option_filter P x = (case x of Some y \<Rightarrow> if P y then Some y else None | None \<Rightarrow> None)"

definition is_glob_entry :: "'u file_system_sandbox_entry \<Rightarrow> bool" where
  "is_glob_entry e \<longleftrightarrow> (case entry_path e of GlobPattern _ \<Rightarrow> True | _ \<Rightarrow> False)"

fun normalize_entries ::
    "'u file_system_sandbox_entry list \<Rightarrow> 'u file_system_sandbox_entry list \<Rightarrow>
     ('u file_system_sandbox_entry list, rstr) result" where
  "normalize_entries acc [] = Ok acc"
| "normalize_entries acc (e # es) =
     (if is_glob_entry e \<and> entry_access e \<noteq> Deny
      then Err (lit ''glob file system permissions only support deny-read entries'')
      else normalize_entries (if e \<in> set acc then acc else acc @ [e]) es)"

definition normalize_additional_permissions ::
    "'u additional_permission_profile \<Rightarrow> ('u additional_permission_profile, rstr) result" where
  "normalize_additional_permissions ap =
     bind_result
       (case ap_file_system ap of
          None \<Rightarrow> Ok None
        | Some fs \<Rightarrow>
            bind_result (normalize_entries [] (fsp_entries fs)) (\<lambda>es.
              Ok (option_filter (\<lambda>fs. \<not> fsp_is_empty fs)
                    (Some \<lparr>fsp_entries = es, fsp_glob_scan_max_depth = fsp_glob_scan_max_depth fs\<rparr>))))
       (\<lambda>fs. Ok \<lparr>ap_network = option_filter (\<lambda>n. n \<noteq> None) (ap_network ap), ap_file_system = fs\<rparr>)"

datatype glob_scan_depth = Bounded nat | Unbounded

definition effective_glob_scan_depth ::
    "'u file_system_sandbox_entry list \<Rightarrow> nat option \<Rightarrow> glob_scan_depth option" where
  "effective_glob_scan_depth es depth =
     (if list_ex (\<lambda>e. entry_access e = Deny \<and> is_glob_entry e) es
      then Some (case depth of Some d \<Rightarrow> Bounded d | None \<Rightarrow> Unbounded) else None)"

definition merge_glob_scan_max_depth ::
    "'u file_system_sandbox_entry list \<Rightarrow> nat option \<Rightarrow> 'u file_system_sandbox_entry list \<Rightarrow> nat option \<Rightarrow> nat option" where
  "merge_glob_scan_max_depth left_entries left_depth right_entries right_depth =
     (case (effective_glob_scan_depth left_entries left_depth, effective_glob_scan_depth right_entries right_depth) of
        (Some Unbounded, _) \<Rightarrow> None
      | (_, Some Unbounded) \<Rightarrow> None
      | (Some (Bounded l), Some (Bounded r)) \<Rightarrow> Some (max l r)
      | (Some (Bounded l), None) \<Rightarrow> Some l
      | (None, Some (Bounded r)) \<Rightarrow> Some r
      | (None, None) \<Rightarrow> None)"

definition merge_permission_entries ::
    "'u file_system_sandbox_entry list \<Rightarrow> 'u file_system_sandbox_entry list \<Rightarrow> 'u file_system_sandbox_entry list" where
  "merge_permission_entries base permissions = push_new_entries [] (base @ permissions)"

definition non_zero :: "nat option \<Rightarrow> nat option" where
  "non_zero n = option_filter (\<lambda>k. k \<noteq> 0) n"

definition merge_permission_profiles ::
    "'u additional_permission_profile option \<Rightarrow> 'u additional_permission_profile option \<Rightarrow>
     'u additional_permission_profile option" where
  "merge_permission_profiles base permissions =
     (case permissions of
        None \<Rightarrow> base
      | Some p \<Rightarrow>
          (case base of
             None \<Rightarrow> option_filter (\<lambda>ap. \<not> additional_is_empty ap) (Some p)
           | Some b \<Rightarrow>
               let network = (if ap_network b = Some (Some True) \<or> ap_network p = Some (Some True)
                              then Some (Some True) else None);
                   file_system =
                     (case (ap_file_system b, ap_file_system p) of
                        (Some fb, Some fp) \<Rightarrow>
                          option_filter (\<lambda>fs. \<not> fsp_is_empty fs)
                            (Some \<lparr>fsp_entries = merge_permission_entries (fsp_entries fb) (fsp_entries fp),
                                   fsp_glob_scan_max_depth =
                                     non_zero (merge_glob_scan_max_depth (fsp_entries fb) (fsp_glob_scan_max_depth fb)
                                       (fsp_entries fp) (fsp_glob_scan_max_depth fp))\<rparr>)
                      | (Some fb, None) \<Rightarrow> Some fb
                      | (None, Some fp) \<Rightarrow> Some fp
                      | (None, None) \<Rightarrow> None)
               in option_filter (\<lambda>ap. \<not> additional_is_empty ap)
                    (Some \<lparr>ap_network = network, ap_file_system = file_system\<rparr>)))"

section \<open>The effective profile\<close>

definition merge_file_system_policy_with_additional_permissions ::
    "'u file_system_sandbox_policy \<Rightarrow> 'u file_system_permissions \<Rightarrow> 'u file_system_sandbox_policy" where
  "merge_file_system_policy_with_additional_permissions p fs =
     (case policy_kind p of
        Restricted \<Rightarrow>
          p\<lparr>policy_entries := push_new_entries (policy_entries p) (fsp_entries fs),
            glob_scan_max_depth := merge_glob_scan_max_depth (policy_entries p) (glob_scan_max_depth p)
              (fsp_entries fs) (fsp_glob_scan_max_depth fs)\<rparr>
      | _ \<Rightarrow> p)"

definition effective_file_system_sandbox_policy ::
    "'u file_system_sandbox_policy \<Rightarrow> 'u additional_permission_profile option \<Rightarrow> 'u file_system_sandbox_policy" where
  "effective_file_system_sandbox_policy p additional =
     (case Option.bind additional ap_file_system of
        None \<Rightarrow> p
      | Some fs \<Rightarrow> if fsp_is_empty fs then p else merge_file_system_policy_with_additional_permissions p fs)"

definition network_is_enabled :: "network_sandbox_policy \<Rightarrow> bool" where
  "network_is_enabled n \<longleftrightarrow> n = NetworkEnabled"

definition merge_network_access :: "bool \<Rightarrow> 'u additional_permission_profile \<Rightarrow> bool" where
  "merge_network_access base additional \<longleftrightarrow> base \<or> ap_network additional = Some (Some True)"

definition effective_network_sandbox_policy ::
    "network_sandbox_policy \<Rightarrow> 'u additional_permission_profile option \<Rightarrow> network_sandbox_policy" where
  "effective_network_sandbox_policy network additional =
     (case additional of
        Some ap \<Rightarrow> if merge_network_access (network_is_enabled network) ap then NetworkEnabled else NetworkRestricted
      | None \<Rightarrow> network)"

datatype sandbox_enforcement = EnforceManaged | EnforceDisabled | EnforceExternal

fun enforcement :: "'u permission_profile \<Rightarrow> sandbox_enforcement" where
  "enforcement (Managed _ _) = EnforceManaged"
| "enforcement Disabled = EnforceDisabled"
| "enforcement (External _) = EnforceExternal"

definition from_runtime_permissions_with_enforcement ::
    "sandbox_enforcement \<Rightarrow> 'u file_system_sandbox_policy \<Rightarrow> network_sandbox_policy \<Rightarrow> 'u permission_profile" where
  "from_runtime_permissions_with_enforcement enf p network =
     (case policy_kind p of
        ExternalSandbox \<Rightarrow> External network
      | Unrestricted \<Rightarrow> if enf = EnforceDisabled then Disabled else Managed ManagedUnrestricted network
      | Restricted \<Rightarrow> Managed (ManagedRestricted (policy_entries p) (non_zero (glob_scan_max_depth p))) network)"

definition effective_permission_profile ::
    "'u permission_profile \<Rightarrow> 'u additional_permission_profile option \<Rightarrow> 'u permission_profile" where
  "effective_permission_profile profile additional =
     from_runtime_permissions_with_enforcement (enforcement profile)
       (effective_file_system_sandbox_policy (file_system_sandbox_policy_of profile) additional)
       (effective_network_sandbox_policy (network_sandbox_policy_of profile) additional)"

section \<open>Choosing a sandbox\<close>

datatype sandbox_type = SandboxNone | MacosSeatbelt | LinuxSeccomp | WindowsRestrictedToken

datatype sandboxable_preference = Auto | Require | Forbid

datatype target_os = Macos | Linux | WindowsOs | OtherOs

definition get_platform_sandbox :: "target_os \<Rightarrow> bool \<Rightarrow> sandbox_type option" where
  "get_platform_sandbox os windows_sandbox_enabled =
     (case os of
        Macos \<Rightarrow> Some MacosSeatbelt
      | Linux \<Rightarrow> Some LinuxSeccomp
      | WindowsOs \<Rightarrow> if windows_sandbox_enabled then Some WindowsRestrictedToken else None
      | OtherOs \<Rightarrow> None)"

definition should_require_platform_sandbox ::
    "'url url_library \<Rightarrow> 'url file_system_sandbox_policy \<Rightarrow> network_sandbox_policy \<Rightarrow> bool \<Rightarrow> bool" where
  "should_require_platform_sandbox lib p network has_managed_network_requirements =
     (if has_managed_network_requirements then True
      else if \<not> network_is_enabled network then policy_kind p \<noteq> ExternalSandbox
      else (case policy_kind p of Restricted \<Rightarrow> \<not> has_full_disk_write_access lib p | _ \<Rightarrow> False))"

definition should_sandbox ::
    "'url url_library \<Rightarrow> 'url permission_profile \<Rightarrow> sandboxable_preference \<Rightarrow> bool \<Rightarrow> bool" where
  "should_sandbox lib profile pref has_managed_network_requirements =
     (case pref of
        Forbid \<Rightarrow> False
      | Require \<Rightarrow> True
      | Auto \<Rightarrow> should_require_platform_sandbox lib (file_system_sandbox_policy_of profile)
                 (network_sandbox_policy_of profile) has_managed_network_requirements)"

definition select_initial ::
    "'url url_library \<Rightarrow> target_os \<Rightarrow> 'url permission_profile \<Rightarrow> sandboxable_preference \<Rightarrow> windows_sandbox_level \<Rightarrow> bool \<Rightarrow>
     sandbox_type" where
  "select_initial lib os profile pref level has_managed_network_requirements =
     (if should_sandbox lib profile pref has_managed_network_requirements
      then (case get_platform_sandbox os (level \<noteq> LevelDisabled) of Some t \<Rightarrow> t | None \<Rightarrow> SandboxNone)
      else SandboxNone)"

section \<open>Running without a sandbox\<close>

definition unsandboxed_execution_allowed :: "'u file_system_sandbox_policy \<Rightarrow> bool" where
  "unsandboxed_execution_allowed p \<longleftrightarrow> \<not> has_denied_read_restrictions p"

datatype sandbox_override = NoOverride | BypassSandboxFirstAttempt

definition sandbox_override_for_first_attempt ::
    "sandbox_permissions \<Rightarrow> exec_approval_requirement \<Rightarrow> 'u file_system_sandbox_policy \<Rightarrow> sandbox_override" where
  "sandbox_override_for_first_attempt permissions requirement p =
     (if \<not> unsandboxed_execution_allowed p then NoOverride
      else if (case requirement of Skip bypass _ \<Rightarrow> bypass | _ \<Rightarrow> False) then BypassSandboxFirstAttempt
      else if requires_escalated_permissions permissions then BypassSandboxFirstAttempt
      else NoOverride)"

definition sandbox_permissions_preserving_denied_reads ::
    "sandbox_permissions \<Rightarrow> 'u file_system_sandbox_policy \<Rightarrow> sandbox_permissions" where
  "sandbox_permissions_preserving_denied_reads permissions p =
     (if requires_escalated_permissions permissions \<and> \<not> unsandboxed_execution_allowed p then UseDefault else permissions)"

definition managed_network_for_sandbox_permissions :: "'n option \<Rightarrow> sandbox_permissions \<Rightarrow> 'n option" where
  "managed_network_for_sandbox_permissions network permissions =
     (if requires_escalated_permissions permissions then None else network)"

definition default_exec_approval_requirement ::
    "ask_for_approval \<Rightarrow> 'u file_system_sandbox_policy \<Rightarrow> exec_approval_requirement" where
  "default_exec_approval_requirement policy p =
     (let needs_approval = (case policy of
                              Never \<Rightarrow> False
                            | UnlessTrusted \<Rightarrow> True
                            | _ \<Rightarrow> policy_kind p = Restricted)
      in if needs_approval \<and> (case policy of Granular g \<Rightarrow> \<not> allows_sandbox_approval g | _ \<Rightarrow> False)
         then Refused (lit ''approval policy disallowed sandbox approval prompt'')
         else if needs_approval then NeedsApproval None None
         else Skip False None)"

text \<open>The default methods of the trait \<open>Approvable\<close>.\<close>

definition should_bypass_approval :: "ask_for_approval \<Rightarrow> bool \<Rightarrow> bool" where
  "should_bypass_approval policy already_approved = (if already_approved then True else policy = Never)"

fun wants_no_sandbox_approval :: "ask_for_approval \<Rightarrow> bool" where
  "wants_no_sandbox_approval UnlessTrusted = True"
| "wants_no_sandbox_approval Never = False"
| "wants_no_sandbox_approval OnRequest = False"
| "wants_no_sandbox_approval (Granular g) = sandbox_approval g"

section \<open>Attempts\<close>

record ('url, 'n) sandbox_attempt =
  att_sandbox :: sandbox_type
  att_sandbox_requested :: bool
  att_permissions :: "'url permission_profile"
  att_exec_server_permissions :: "'url permission_profile"
  att_enforce_managed_network :: bool
  att_has_linux_sandbox_exe :: bool
  att_network_proxy :: "'n option"

definition is_escalated :: "'url url_library \<Rightarrow> ('url, 'n) sandbox_attempt \<Rightarrow> bool" where
  "is_escalated lib att \<longleftrightarrow>
     \<not> att_sandbox_requested att \<and>
     should_sandbox lib (att_permissions att) Auto (att_enforce_managed_network att)"

definition attempt_network_proxy :: "('url, 'n) sandbox_attempt \<Rightarrow> 'n option \<Rightarrow> 'n option" where
  "attempt_network_proxy att fallback =
     (if att_enforce_managed_network att
      then (case att_network_proxy att of Some n \<Rightarrow> Some n | None \<Rightarrow> fallback) else None)"

definition executor_windows_sandbox_level ::
    "'url url_library \<Rightarrow> windows_sandbox_level \<Rightarrow> 'url \<Rightarrow> windows_sandbox_level" where
  "executor_windows_sandbox_level lib level cwd =
     (if level = LevelDisabled \<and> infer_path_convention lib cwd = Some WindowsPath then RestrictedToken else level)"

section \<open>What a grant keeps and what needs no sandbox\<close>

lemma effective_profile_policy:
  "file_system_sandbox_policy_of (effective_permission_profile profile additional) =
     (let p = effective_file_system_sandbox_policy (file_system_sandbox_policy_of profile) additional
      in p\<lparr>glob_scan_max_depth := (if policy_kind p = Restricted then non_zero (glob_scan_max_depth p) else None)\<rparr>)"
  if "policy_kind (file_system_sandbox_policy_of profile) = Restricted"
  using that
  by (auto simp: effective_permission_profile_def from_runtime_permissions_with_enforcement_def Let_def
    effective_file_system_sandbox_policy_def merge_file_system_policy_with_additional_permissions_def split: option.splits)

lemma effective_entries:
  assumes "policy_kind (file_system_sandbox_policy_of profile) = Restricted"
  shows "policy_kind (file_system_sandbox_policy_of (effective_permission_profile profile additional)) = Restricted"
    and "set (policy_entries (file_system_sandbox_policy_of (effective_permission_profile profile additional))) =
      set (policy_entries (file_system_sandbox_policy_of profile)) \<union>
      (case Option.bind additional ap_file_system of None \<Rightarrow> {} | Some fs \<Rightarrow> set (fsp_entries fs))"
  using assms
  by (auto simp: effective_profile_policy Let_def effective_file_system_sandbox_policy_def fsp_is_empty_def
    merge_file_system_policy_with_additional_permissions_def push_new_entries_set split: option.splits)

text \<open>
  Permissions granted to a command never lift a denial: the effective profile of a restricted one is
  restricted, keeps every entry, so every denied read, and adds only entries of the grant; a command
  that may not run outside the sandbox may still not do so after the grant.
\<close>

theorem grants_keep_denials:
  assumes "policy_kind (file_system_sandbox_policy_of profile) = Restricted"
  shows "set (deny_entries (file_system_sandbox_policy_of profile)) \<subseteq>
       set (deny_entries (file_system_sandbox_policy_of (effective_permission_profile profile additional))) \<and>
     set (policy_entries (file_system_sandbox_policy_of (effective_permission_profile profile additional))) \<subseteq>
       set (policy_entries (file_system_sandbox_policy_of profile)) \<union>
       (case Option.bind additional ap_file_system of None \<Rightarrow> {} | Some fs \<Rightarrow> set (fsp_entries fs)) \<and>
     (unsandboxed_execution_allowed (file_system_sandbox_policy_of (effective_permission_profile profile additional)) \<longrightarrow>
       unsandboxed_execution_allowed (file_system_sandbox_policy_of profile))"
  using effective_entries[OF assms, of additional] assms
  by (auto simp: deny_entries_def unsandboxed_execution_allowed_def has_denied_read_restrictions_def list_ex_iff)

lemma external_kind:
  "policy_kind (file_system_sandbox_policy_of profile) = ExternalSandbox \<longleftrightarrow> enforcement profile = EnforceExternal"
proof (cases profile)
  case (Managed fs network)
  then show ?thesis by (cases fs) (simp_all add: unrestricted_def)
qed (simp_all add: unrestricted_def external_sandbox_def)

text \<open>
  C22: A tool that leaves the choice to the policy runs without a sandbox only when there is nothing to
  enforce: no managed network is active, and either the profile hands the sandbox to an external caller
  or networking is enabled and every path of a POSIX executor is writable under the policy.
\<close>

theorem no_sandbox_only_when_unrestricted:
  assumes "\<not> should_sandbox lib profile Auto managed" "url_laws lib" "clean_uri lib (ctx_cwd ctx)" "posix_uri lib path"
    "placeable lib ctx (file_system_sandbox_policy_of profile)"
  shows "\<not> managed \<and> resolve_access lib ctx (file_system_sandbox_policy_of profile) path = Write \<and>
    (network_sandbox_policy_of profile = NetworkEnabled \<or> enforcement profile = EnforceExternal)"
proof -
  let ?p = "file_system_sandbox_policy_of profile"
  have full: "has_full_disk_write_access lib ?p"
    using assms(1)
    by (cases "policy_kind ?p") (auto simp: should_sandbox_def should_require_platform_sandbox_def
      has_full_disk_write_access_def has_full_disk_write_access_for_convention_def split: if_splits)
  have "infer_path_convention lib (ctx_cwd ctx) = Some PosixPath"
    using assms(3) posix_uriD(5) by (auto simp: clean_uri_def)
  with full have "has_full_disk_write_access_with_context lib ctx ?p"
    by (simp add: has_full_disk_write_access_def has_full_disk_write_access_with_context_def native_convention_def)
  then have "resolve_access lib ctx ?p path = Write"
    using full_disk_resolves_write[OF assms(2-5)] by simp
  moreover have "\<not> managed" "network_sandbox_policy_of profile = NetworkEnabled \<or> policy_kind ?p = ExternalSandbox"
    using assms(1) by (auto simp: should_sandbox_def should_require_platform_sandbox_def network_is_enabled_def split: if_splits)
  ultimately show ?thesis by (simp add: external_kind)
qed

definition sample_profile :: "file_system_access_mode \<Rightarrow> sample_url permission_profile" where
  "sample_profile access = Managed (ManagedRestricted [entry_new (Special Root) access] None) NetworkEnabled"

lemma grants_keep_denials_witness:
  "set (deny_entries (file_system_sandbox_policy_of (sample_profile Deny))) \<subseteq>
     set (deny_entries (file_system_sandbox_policy_of (effective_permission_profile (sample_profile Deny)
       (Some \<lparr>ap_network = None, ap_file_system = Some \<lparr>fsp_entries = [path_grant [''w''] Write], fsp_glob_scan_max_depth = None\<rparr>\<rparr>))))"
  using grants_keep_denials[of "sample_profile Deny"] by (simp add: sample_profile_def)

lemma no_sandbox_only_when_unrestricted_witness:
  "resolve_access sample_library sample_context (file_system_sandbox_policy_of (sample_profile Write)) (sample_uri [''w'']) = Write"
proof -
  have "\<not> should_sandbox sample_library (sample_profile Write) Auto False"
    "posix_uri sample_library (sample_uri [''w''])"
    "placeable sample_library sample_context (file_system_sandbox_policy_of (sample_profile Write))"
    by code_simp+
  then show ?thesis
    using no_sandbox_only_when_unrestricted[OF _ sample_library_laws sample_context_facts(3)] by blast
qed

end
