(* ===== verification/Tool_Approvals.thy ===== *)
theory Tool_Approvals
  imports Sandbox_Manager
begin

text \<open>
  Asking for approval, \<open>core/src/tools/approvals.rs\<close>, with the approval cache of
  \<open>core/src/tools/sandboxing.rs\<close> and the cache keys of \<open>core/src/command_canonicalization.rs\<close>. An action
  goes to the permission hooks first, then to the Guardian, then to the user; what they answer is a
  parameter, the record \<open>approval_services\<close>, and may change the rest of the session, the type variable
  \<open>'w\<close>. The decision becomes the result the tool sees. Actions of the kind \<open>RequestPermissions\<close> go to
  the Guardian by another route and are left out.
\<close>

section \<open>Decisions\<close>

datatype network_policy_rule_action = NetworkAllow | NetworkDeny

record network_policy_amendment =
  npa_host :: rstr
  npa_action :: network_policy_rule_action

datatype review_decision =
    Approved
  | ApprovedExecpolicyAmendment exec_policy_amendment
  | ApprovedForSession
  | ApprovedMcpPolicyAmendment
  | NetworkPolicyAmendment network_policy_amendment
  | Denied rstr
  | TimedOut
  | Abort

fun to_opaque_string :: "review_decision \<Rightarrow> rstr" where
  "to_opaque_string Approved = lit ''approved''"
| "to_opaque_string (ApprovedExecpolicyAmendment _) = lit ''approved_with_amendment''"
| "to_opaque_string ApprovedForSession = lit ''approved_for_session''"
| "to_opaque_string ApprovedMcpPolicyAmendment = lit ''approved_mcp_policy_amendment''"
| "to_opaque_string (NetworkPolicyAmendment a) =
     (case npa_action a of
        NetworkAllow \<Rightarrow> lit ''approved_with_network_policy_allow''
      | NetworkDeny \<Rightarrow> lit ''denied_with_network_policy_deny'')"
| "to_opaque_string (Denied _) = lit ''denied''"
| "to_opaque_string TimedOut = lit ''timed_out''"
| "to_opaque_string Abort = lit ''abort''"

datatype network_policy_decision = NetworkDecisionDeny | NetworkDecisionAsk

datatype network_decision_source = BaselinePolicy | ModeGuard | ProxyState | Decider

datatype network_approval_protocol = ProtocolHttp | ProtocolHttps | ProtocolSocks5Tcp | ProtocolSocks5Udp

record network_policy_decision_payload =
  npd_decision :: network_policy_decision
  npd_source :: network_decision_source
  npd_protocol :: "network_approval_protocol option"
  npd_host :: "rstr option"

record network_approval_context =
  nac_host :: rstr
  nac_protocol :: network_approval_protocol

definition is_ask_from_decider :: "network_policy_decision_payload \<Rightarrow> bool" where
  "is_ask_from_decider d \<longleftrightarrow> npd_decision d = NetworkDecisionAsk \<and> npd_source d = Decider"

definition network_approval_context_from_payload :: "network_policy_decision_payload \<Rightarrow> network_approval_context option" where
  "network_approval_context_from_payload d =
     (if \<not> is_ask_from_decider d then None
      else (case (npd_protocol d, npd_host d) of
              (Some prot, Some h) \<Rightarrow>
                if trim h = [] then None else Some \<lparr>nac_host = trim h, nac_protocol = prot\<rparr>
            | _ \<Rightarrow> None))"

text \<open>The errors of a tool. Those of the sandbox are told apart; the rest of \<open>CodexErr\<close> is one case.\<close>

datatype codex_err =
    SandboxDenied "network_policy_decision_payload option"
  | SandboxTimeout
  | SandboxSignal int
  | TurnAborted
  | OtherCodexErr rstr

datatype tool_error = Rejected rstr | Codex codex_err

section \<open>Actions and cache keys\<close>

text \<open>
  Of the actions the fields that take part in a decision are kept; those that only describe the action to
  the reviewers are left out. \<open>WriteStdin\<close> has its approval id and the permissions of the process,
  \<open>Execve\<close> its approval id and command, \<open>ApplyPatch\<close> its environment, its files and whether they were approved
  beforehand, \<open>McpToolCall\<close> its server and tool, and \<open>NetworkAccess\<close> the id of its hook run and its target.
\<close>

record 'u unified_exec_approval_key =
  key_environment_id :: rstr
  key_executable :: "rstr option"
  key_command :: "rstr list"
  key_cwd :: 'u
  key_tty :: bool
  key_sandbox_permissions :: sandbox_permissions
  key_additional_permissions :: "'u additional_permission_profile option"

datatype 'u approval_cache_key =
    ExecCommandKey "'u unified_exec_approval_key" "rstr option"
  | ApplyPatchKey rstr 'u

record 'u exec_command_action =
  exec_environment_id :: rstr
  exec_words :: "rstr list"
  exec_cwd :: 'u
  exec_sandbox_permissions :: sandbox_permissions
  exec_additional_permissions :: "'u additional_permission_profile option"
  exec_justification :: "rstr option"
  exec_tty :: bool
  exec_amendment :: "exec_policy_amendment option"

datatype 'u approval_action =
    ExecCommand "'u exec_command_action"
  | WriteStdin rstr sandbox_permissions
  | Execve rstr "rstr list"
  | ApplyPatch rstr "'u list" bool
  | McpToolCall rstr rstr
  | NetworkAccess rstr rstr

definition CANONICAL_BASH_SCRIPT_PREFIX :: rstr where
  "CANONICAL_BASH_SCRIPT_PREFIX = lit ''__codex_shell_script__''"

definition CANONICAL_POWERSHELL_SCRIPT_PREFIX :: rstr where
  "CANONICAL_POWERSHELL_SCRIPT_PREFIX = lit ''__codex_powershell_script__''"

definition canonicalize_command_for_approval :: "tree_sitter \<Rightarrow> rstr list \<Rightarrow> rstr list" where
  "canonicalize_command_for_approval sitter cmd =
     (case parse_shell_lc_plain_commands sitter cmd of
        Some [single_command] \<Rightarrow> single_command
      | _ \<Rightarrow>
          (case extract_bash_command cmd of
             Some (_, script) \<Rightarrow>
               [CANONICAL_BASH_SCRIPT_PREFIX, if 1 < length cmd then cmd ! 1 else [], script]
           | None \<Rightarrow>
               (case extract_powershell_command cmd of
                  Some (_, script) \<Rightarrow> [CANONICAL_POWERSHELL_SCRIPT_PREFIX, script]
                | None \<Rightarrow> cmd)))"

definition exec_command_key :: "tree_sitter \<Rightarrow> 'u exec_command_action \<Rightarrow> 'u unified_exec_approval_key" where
  "exec_command_key sitter a =
     \<lparr>key_environment_id = exec_environment_id a,
      key_executable = (case exec_words a of [] \<Rightarrow> None | w # _ \<Rightarrow> Some w),
      key_command = canonicalize_command_for_approval sitter (exec_words a),
      key_cwd = exec_cwd a, key_tty = exec_tty a,
      key_sandbox_permissions = exec_sandbox_permissions a,
      key_additional_permissions = exec_additional_permissions a\<rparr>"

text \<open>The keys a user's answer is cached under; those of a command carry the policy fingerprint of its environment.\<close>

fun cache_keys :: "tree_sitter \<Rightarrow> (rstr \<Rightarrow> rstr option) \<Rightarrow> 'u approval_action \<Rightarrow> 'u approval_cache_key list" where
  "cache_keys sitter fp (ExecCommand a) =
     [ExecCommandKey (exec_command_key sitter a) (fp (exec_environment_id a))]"
| "cache_keys sitter fp (ApplyPatch environment_id files _) = map (ApplyPatchKey environment_id) files"
| "cache_keys sitter fp _ = []"

section \<open>The session\<close>

datatype tool_decision_source = ConfigSource | AutomatedReviewer | UserSource

text \<open>
  What the session records: the telemetry of the code and, for the proofs, every attempt that was run.
\<close>

datatype ('u, 'n) session_event =
    ApprovalRequested rstr rstr
  | ToolDecision review_decision tool_decision_source
  | SandboxOutcome rstr
  | Attempted "('u, 'n) sandbox_attempt"

type_synonym approval_store = "rstr \<Rightarrow> review_decision option"

record ('u, 'n, 'w) session =
  tool_approvals :: approval_store
  events :: "('u, 'n) session_event list"
  world :: 'w

record approval_context =
  actx_policy :: ask_for_approval
  actx_call_id :: rstr
  actx_strict_auto_review :: bool
  actx_approval_reason :: "rstr option"
  actx_retry_reason :: "rstr option"
  actx_network :: "network_approval_context option"

datatype hook_decision = HookAllow | HookDeny rstr

record ('u, 'w) approval_services =
  run_permission_request_hooks :: "rstr \<Rightarrow> 'u approval_action \<Rightarrow> 'w \<Rightarrow> hook_decision option \<times> 'w"
  request_guardian_approval :: "'u approval_action \<Rightarrow> approval_context \<Rightarrow> 'w \<Rightarrow> review_decision option \<times> 'w"
  request_command_approval :: "'u approval_action \<Rightarrow> rstr option \<Rightarrow> approval_context \<Rightarrow> 'w \<Rightarrow> review_decision \<times> 'w"
  request_patch_approval :: "'u approval_action \<Rightarrow> rstr option \<Rightarrow> approval_context \<Rightarrow> 'w \<Rightarrow> review_decision \<times> 'w"
  request_mcp_tool_user_approval :: "'u approval_action \<Rightarrow> approval_context \<Rightarrow> 'w \<Rightarrow> review_decision \<times> 'w"
  policy_fingerprint :: "rstr \<Rightarrow> rstr option"
  key_json :: "'u approval_cache_key \<Rightarrow> rstr option"
  script_sitter :: tree_sitter
  guardian_timeout_message :: rstr

definition record_event :: "('u, 'n) session_event \<Rightarrow> ('u, 'n, 'w) session \<Rightarrow> ('u, 'n, 'w) session" where
  "record_event e s = s\<lparr>events := events s @ [e]\<rparr>"

section \<open>The approval cache\<close>

definition store_get :: "('k \<Rightarrow> rstr option) \<Rightarrow> approval_store \<Rightarrow> 'k \<Rightarrow> review_decision option" where
  "store_get json st key = Option.bind (json key) st"

definition store_put :: "('k \<Rightarrow> rstr option) \<Rightarrow> review_decision \<Rightarrow> 'k \<Rightarrow> approval_store \<Rightarrow> approval_store" where
  "store_put json d key st = (case json key of Some s \<Rightarrow> st(s := Some d) | None \<Rightarrow> st)"

definition with_cached_approval ::
    "('k \<Rightarrow> rstr option) \<Rightarrow> rstr \<Rightarrow> 'k list \<Rightarrow> ('w \<Rightarrow> review_decision \<times> 'w) \<Rightarrow> ('u, 'n, 'w) session \<Rightarrow>
     review_decision \<times> ('u, 'n, 'w) session" where
  "with_cached_approval json tool_name keys fetch s =
     (if keys = [] then (let (d, w) = fetch (world s) in (d, s\<lparr>world := w\<rparr>))
      else if list_all (\<lambda>key. store_get json (tool_approvals s) key = Some ApprovedForSession) keys
      then (ApprovedForSession, s)
      else let (d, w) = fetch (world s);
               s1 = record_event (ApprovalRequested tool_name (to_opaque_string d)) (s\<lparr>world := w\<rparr>)
           in (d, if d = ApprovedForSession
                  then s1\<lparr>tool_approvals := fold (store_put json ApprovedForSession) keys (tool_approvals s1)\<rparr>
                  else s1))"

section \<open>Resolving a request\<close>

datatype approval_resolution_source = Hook | Guardian | User

record approval_resolution =
  res_decision :: review_decision
  res_source :: approval_resolution_source

fun into_tool_result :: "rstr \<Rightarrow> approval_resolution_source \<Rightarrow> review_decision \<Rightarrow> (review_decision, tool_error) result" where
  "into_tool_result timeout_message source ApprovedMcpPolicyAmendment =
     Err (Rejected (lit ''Error while requesting approval''))"
| "into_tool_result timeout_message source (NetworkPolicyAmendment a) =
     (if npa_action a = NetworkDeny then
        Err (Rejected (case source of
                         Hook \<Rightarrow> lit ''rejected by configuration''
                       | Guardian \<Rightarrow> lit ''automatic approval review denied the action''
                       | User \<Rightarrow> lit ''rejected by user''))
      else Ok (NetworkPolicyAmendment a))"
| "into_tool_result timeout_message source (Denied rejection) = Err (Rejected rejection)"
| "into_tool_result timeout_message source TimedOut = Err (Rejected timeout_message)"
| "into_tool_result timeout_message source Abort = Err (Codex TurnAborted)"
| "into_tool_result timeout_message source d = Ok d"

definition or_else :: "'a option \<Rightarrow> 'a option \<Rightarrow> 'a option" where
  "or_else x y = (case x of Some _ \<Rightarrow> x | None \<Rightarrow> y)"

definition ask_world ::
    "('w \<Rightarrow> review_decision \<times> 'w) \<Rightarrow> ('u, 'n, 'w) session \<Rightarrow> review_decision \<times> ('u, 'n, 'w) session" where
  "ask_world fetch s = (let (d, w) = fetch (world s) in (d, s\<lparr>world := w\<rparr>))"

definition request_user_approval ::
    "('u, 'w) approval_services \<Rightarrow> 'u approval_action \<Rightarrow> approval_context \<Rightarrow> ('u, 'n, 'w) session \<Rightarrow>
     review_decision \<times> ('u, 'n, 'w) session" where
  "request_user_approval svc action ctx s =
     (let keys = cache_keys (script_sitter svc) (policy_fingerprint svc) action
      in case action of
           ExecCommand a \<Rightarrow>
             with_cached_approval (key_json svc) (lit ''unified_exec'') keys
               (request_command_approval svc action
                 (or_else (actx_retry_reason ctx) (or_else (actx_approval_reason ctx) (exec_justification a))) ctx) s
         | WriteStdin _ _ \<Rightarrow> ask_world (request_command_approval svc action (actx_approval_reason ctx) ctx) s
         | Execve _ _ \<Rightarrow> ask_world (request_command_approval svc action None ctx) s
         | ApplyPatch _ _ permissions_preapproved \<Rightarrow>
             (let reason = or_else (actx_retry_reason ctx) (actx_approval_reason ctx)
              in if permissions_preapproved \<and> reason = None then (Approved, s)
                 else if reason \<noteq> None then ask_world (request_patch_approval svc action reason ctx) s
                 else with_cached_approval (key_json svc) (lit ''apply_patch'') keys
                        (request_patch_approval svc action None ctx) s)
         | McpToolCall _ _ \<Rightarrow> ask_world (request_mcp_tool_user_approval svc action ctx) s
         | NetworkAccess _ _ \<Rightarrow> ask_world (request_command_approval svc action (actx_approval_reason ctx) ctx) s)"

definition request_reviewer_approval ::
    "('u, 'w) approval_services \<Rightarrow> 'u approval_action \<Rightarrow> approval_context \<Rightarrow> ('u, 'n, 'w) session \<Rightarrow>
     approval_resolution \<times> ('u, 'n, 'w) session" where
  "request_reviewer_approval svc action ctx s =
     (let (answer, w) = request_guardian_approval svc action ctx (world s); s1 = s\<lparr>world := w\<rparr>
      in case answer of
           Some d \<Rightarrow> (\<lparr>res_decision = d, res_source = Guardian\<rparr>, s1)
         | None \<Rightarrow> (let (d, s2) = request_user_approval svc action ctx s1
                    in (\<lparr>res_decision = d, res_source = User\<rparr>, s2)))"

fun decision_source :: "approval_resolution_source \<Rightarrow> tool_decision_source" where
  "decision_source Hook = ConfigSource"
| "decision_source Guardian = AutomatedReviewer"
| "decision_source User = UserSource"

definition permission_request_run_id :: "'u approval_action \<Rightarrow> approval_context \<Rightarrow> rstr" where
  "permission_request_run_id action ctx =
     (case action of
        Execve approval_id _ \<Rightarrow> approval_id
      | NetworkAccess hook_run_id _ \<Rightarrow> hook_run_id
      | _ \<Rightarrow> if actx_retry_reason ctx \<noteq> None then actx_call_id ctx @ lit '':retry'' else actx_call_id ctx)"

definition stdin_rejection :: "'u approval_action \<Rightarrow> approval_context \<Rightarrow> rstr option" where
  "stdin_rejection action ctx =
     (case action of
        WriteStdin _ permissions \<Rightarrow>
          if requests_sandbox_override permissions \<and> \<not> (actx_strict_auto_review ctx \<and> actx_policy ctx = Never)
          then prompt_is_rejected_by_policy (actx_policy ctx) False else None
      | _ \<Rightarrow> None)"

definition resolve_request ::
    "('u, 'w) approval_services \<Rightarrow> 'u approval_action \<Rightarrow> approval_context \<Rightarrow> ('u, 'n, 'w) session \<Rightarrow>
     approval_resolution \<times> ('u, 'n, 'w) session" where
  "resolve_request svc action ctx s =
     (let (hooks, w) = run_permission_request_hooks svc (permission_request_run_id action ctx) action (world s);
          s1 = s\<lparr>world := w\<rparr>
      in case hooks of
           Some HookAllow \<Rightarrow> (\<lparr>res_decision = Approved, res_source = Hook\<rparr>, s1)
         | Some (HookDeny message) \<Rightarrow> (\<lparr>res_decision = Denied message, res_source = Hook\<rparr>, s1)
         | None \<Rightarrow> request_reviewer_approval svc action ctx s1)"

definition is_network_action :: "'u approval_action \<Rightarrow> bool" where
  "is_network_action action \<longleftrightarrow> (case action of NetworkAccess _ _ \<Rightarrow> True | _ \<Rightarrow> False)"

definition is_mcp_action :: "'u approval_action \<Rightarrow> bool" where
  "is_mcp_action action \<longleftrightarrow> (case action of McpToolCall _ _ \<Rightarrow> True | _ \<Rightarrow> False)"

definition resolution_result ::
    "rstr \<Rightarrow> 'u approval_action \<Rightarrow> approval_resolution \<Rightarrow> (review_decision, tool_error) result" where
  "resolution_result timeout_message action r =
     (let d = res_decision r
      in if is_mcp_action action \<and> d = ApprovedMcpPolicyAmendment then Ok d
         else if is_network_action action \<and> (case d of NetworkPolicyAmendment a \<Rightarrow> npa_action a = NetworkDeny | _ \<Rightarrow> False)
         then Ok d
         else if is_network_action action \<and> d = Abort \<and> res_source r = Guardian
         then Err (Rejected (lit ''automatic approval review was cancelled''))
         else into_tool_result timeout_message (res_source r) d)"

definition request_approval ::
    "('u, 'w) approval_services \<Rightarrow> 'u approval_action \<Rightarrow> approval_context \<Rightarrow> ('u, 'n, 'w) session \<Rightarrow>
     (review_decision, tool_error) result \<times> ('u, 'n, 'w) session" where
  "request_approval svc action ctx s =
     (case stdin_rejection action ctx of
        Some reason \<Rightarrow> (Err (Rejected reason), s)
      | None \<Rightarrow>
          (let (r, s1) = resolve_request svc action ctx s;
               s2 = (if is_network_action action then s1
                     else record_event (ToolDecision (res_decision r) (decision_source (res_source r))) s1)
           in (resolution_result (guardian_timeout_message svc) action r, s2)))"

section \<open>Cached approvals\<close>

text \<open>
  The sessions that calls of \<open>with_cached_approval\<close> reach from an empty cache, with the calls that asked
  somebody, in order, and what they were answered.
\<close>

inductive cached_calls ::
    "('k \<Rightarrow> rstr option) \<Rightarrow> ('k list \<times> review_decision) list \<Rightarrow> ('u, 'n, 'w) session \<Rightarrow> bool" for json where
  fresh: "tool_approvals s = (\<lambda>_. None) \<Longrightarrow> cached_calls json [] s"
| hit: "cached_calls json h s \<Longrightarrow> keys \<noteq> [] \<Longrightarrow>
    list_all (\<lambda>k. store_get json (tool_approvals s) k = Some ApprovedForSession) keys \<Longrightarrow>
    cached_calls json h (snd (with_cached_approval json tool keys fetch s))"
| ask: "cached_calls json h s \<Longrightarrow>
    \<not> (keys \<noteq> [] \<and> list_all (\<lambda>k. store_get json (tool_approvals s) k = Some ApprovedForSession) keys) \<Longrightarrow>
    cached_calls json (h @ [(keys, fst (fetch (world s)))]) (snd (with_cached_approval json tool keys fetch s))"

definition approved_before :: "('k \<Rightarrow> rstr option) \<Rightarrow> ('k list \<times> review_decision) list \<Rightarrow> rstr \<Rightarrow> bool" where
  "approved_before json h x \<longleftrightarrow> (\<exists>(ks, d) \<in> set h. d = ApprovedForSession \<and> (\<exists>k \<in> set ks. json k = Some x))"

lemma fold_store_put:
  "fold (store_put json d) keys st x = (if \<exists>k \<in> set keys. json k = Some x then Some d else st x)"
  by (induction keys arbitrary: st) (auto simp: store_put_def split: option.splits)

lemma with_cached_store:
  "tool_approvals (snd (with_cached_approval json tool keys fetch s)) x =
     (if keys \<noteq> [] \<and> fst (fetch (world s)) = ApprovedForSession \<and>
         \<not> list_all (\<lambda>k. store_get json (tool_approvals s) k = Some ApprovedForSession) keys \<and>
         (\<exists>k \<in> set keys. json k = Some x)
      then Some ApprovedForSession else tool_approvals s x)"
  by (auto simp: with_cached_approval_def record_event_def fold_store_put Let_def split: prod.splits)

lemma cached_calls_store:
  "cached_calls json h s \<Longrightarrow> tool_approvals s x = Some d \<Longrightarrow> d = ApprovedForSession \<and> approved_before json h x"
proof (induction arbitrary: d rule: cached_calls.induct)
  case (hit h s keys tool fetch)
  then show ?case by (simp add: with_cached_store)
next
  case (ask h s keys fetch tool)
  then show ?case
    by (auto simp: with_cached_store approved_before_def split: if_splits)
qed simp

lemma cached_calls_remember:
  "cached_calls json h s \<Longrightarrow> (ks, ApprovedForSession) \<in> set h \<Longrightarrow> k \<in> set ks \<Longrightarrow> json k = Some x \<Longrightarrow>
     tool_approvals s x = Some ApprovedForSession"
proof (induction rule: cached_calls.induct)
  case (ask h s keys fetch tool)
  show ?case
  proof (cases "(ks, ApprovedForSession) \<in> set h")
    case True
    with ask show ?thesis by (simp add: with_cached_store)
  next
    case False
    with ask.prems ask.hyps(2) show ?thesis by (auto simp: with_cached_store)
  qed
qed (simp_all add: with_cached_store)

text \<open>
  C27: The approval cache never approves on its own. In a session reached from an empty cache, a request is
  answered by whoever is asked, or it is answered \<open>ApprovedForSession\<close> without asking and without changing
  the session, and then every one of its keys has the serialisation of a key that somebody approved for
  the session earlier.
\<close>

theorem cached_approval_justified:
  assumes "cached_calls json h s" "keys \<noteq> []"
  shows "fst (with_cached_approval json tool keys fetch s) = fst (fetch (world s)) \<or>
    with_cached_approval json tool keys fetch s = (ApprovedForSession, s) \<and>
    (\<forall>k \<in> set keys. \<exists>x. json k = Some x \<and> approved_before json h x)"
proof (cases "list_all (\<lambda>k. store_get json (tool_approvals s) k = Some ApprovedForSession) keys")
  case True
  then have "\<exists>x. json k = Some x \<and> approved_before json h x" if "k \<in> set keys" for k
    using that cached_calls_store[OF assms(1)] by (fastforce simp: list_all_iff store_get_def bind_eq_Some_conv)
  with True assms(2) show ?thesis by (simp add: with_cached_approval_def)
next
  case False
  with assms(2) show ?thesis by (simp add: with_cached_approval_def Let_def split: prod.splits)
qed

text \<open>
  An approval for the session is remembered: once a request was answered \<open>ApprovedForSession\<close>, every
  later request over some of its keys is approved without asking, whatever else was asked in between, as
  long as the keys can be serialised.
\<close>

theorem session_approval_remembered:
  assumes "cached_calls json h s" "(ks, ApprovedForSession) \<in> set h" "keys \<noteq> []" "set keys \<subseteq> set ks"
    "list_all (\<lambda>k. json k \<noteq> None) keys"
  shows "with_cached_approval json tool keys fetch s = (ApprovedForSession, s)"
proof -
  have "tool_approvals s x = Some ApprovedForSession" if "k \<in> set ks" "json k = Some x" for k x
    using cached_calls_remember[OF assms(1,2)] that by blast
  then have "list_all (\<lambda>k. store_get json (tool_approvals s) k = Some ApprovedForSession) keys"
    using assms(4,5) by (fastforce simp: list_all_iff store_get_def)
  with assms(3) show ?thesis by (simp add: with_cached_approval_def)
qed

section \<open>Only approvals pass\<close>

fun approves :: "review_decision \<Rightarrow> bool" where
  "approves Approved = True"
| "approves (ApprovedExecpolicyAmendment _) = True"
| "approves ApprovedForSession = True"
| "approves (NetworkPolicyAmendment a) = (npa_action a = NetworkAllow)"
| "approves _ = False"

lemma into_tool_result_Ok: "into_tool_result t source d = Ok d' \<longleftrightarrow> approves d \<and> d' = d"
  by (cases d) (auto, metis network_policy_rule_action.exhaust)

lemma resolution_result_Ok:
  "resolution_result t action r = Ok d \<Longrightarrow> d = res_decision r \<and>
     (approves d \<or> is_mcp_action action \<and> d = ApprovedMcpPolicyAmendment \<or>
      is_network_action action \<and> (\<exists>a. d = NetworkPolicyAmendment a))"
  by (auto simp: resolution_result_def Let_def into_tool_result_Ok split: if_splits review_decision.splits)

text \<open>Who gave a decision: a hook, the Guardian when no hook answers, or the user when neither does.\<close>

definition given_by_reviewers ::
    "('u, 'w) approval_services \<Rightarrow> 'u approval_action \<Rightarrow> approval_context \<Rightarrow> ('u, 'n, 'w) session \<Rightarrow> review_decision \<Rightarrow> bool" where
  "given_by_reviewers svc action ctx s d \<longleftrightarrow>
     (case run_permission_request_hooks svc (permission_request_run_id action ctx) action (world s) of
        (Some HookAllow, _) \<Rightarrow> d = Approved
      | (Some (HookDeny message), _) \<Rightarrow> d = Denied message
      | (None, w) \<Rightarrow>
          (case request_guardian_approval svc action ctx w of
             (Some d', _) \<Rightarrow> d = d'
           | (None, w') \<Rightarrow> d = fst (request_user_approval svc action ctx (s\<lparr>world := w'\<rparr>))))"

lemma resolve_request_given: "given_by_reviewers svc action ctx s (res_decision (fst (resolve_request svc action ctx s)))"
  by (auto simp: given_by_reviewers_def resolve_request_def request_reviewer_approval_def Let_def
    split: prod.splits option.splits hook_decision.splits)

lemma request_approval_Ok:
  assumes "request_approval svc action ctx s = (Ok d, s')"
  shows "resolution_result (guardian_timeout_message svc) action (fst (resolve_request svc action ctx s)) = Ok d"
  using assms by (auto simp: request_approval_def Let_def split: prod.splits option.splits)


section \<open>What an approval key identifies\<close>

datatype command_reading = PlainWords "rstr list" | BashScript rstr rstr | PowerShellScript rstr

definition read_command :: "tree_sitter \<Rightarrow> rstr list \<Rightarrow> command_reading" where
  "read_command sitter cmd =
     (case parse_shell_lc_plain_commands sitter cmd of
        Some [single_command] \<Rightarrow> PlainWords single_command
      | _ \<Rightarrow>
          (case extract_bash_command cmd of
             Some (_, script) \<Rightarrow> BashScript (cmd ! 1) script
           | None \<Rightarrow>
               (case extract_powershell_command cmd of
                  Some (_, script) \<Rightarrow> PowerShellScript script
                | None \<Rightarrow> PlainWords cmd)))"

fun reading_words :: "command_reading \<Rightarrow> rstr list" where
  "reading_words (PlainWords ws) = ws"
| "reading_words (BashScript mode script) = [CANONICAL_BASH_SCRIPT_PREFIX, mode, script]"
| "reading_words (PowerShellScript script) = [CANONICAL_POWERSHELL_SCRIPT_PREFIX, script]"

definition reserved_words :: "command_reading \<Rightarrow> bool" where
  "reserved_words r \<longleftrightarrow>
     (case r of PlainWords (w # _) \<Rightarrow> w = CANONICAL_BASH_SCRIPT_PREFIX \<or> w = CANONICAL_POWERSHELL_SCRIPT_PREFIX | _ \<Rightarrow> False)"

lemma canonicalize_reading: "canonicalize_command_for_approval sitter cmd = reading_words (read_command sitter cmd)"
proof -
  have "1 < length cmd" if "extract_bash_command cmd = Some (sh, script)" for sh script
    using that by (auto simp: extract_bash_command_def split: list.splits)
  then show ?thesis
    by (auto simp: canonicalize_command_for_approval_def read_command_def split: option.splits list.splits)
qed

lemma prefixes_differ [simp]: "CANONICAL_BASH_SCRIPT_PREFIX \<noteq> CANONICAL_POWERSHELL_SCRIPT_PREFIX"
  by (simp add: CANONICAL_BASH_SCRIPT_PREFIX_def CANONICAL_POWERSHELL_SCRIPT_PREFIX_def lit_def)

lemma reading_words_inject:
  "\<not> reserved_words r \<Longrightarrow> \<not> reserved_words q \<Longrightarrow> reading_words r = reading_words q \<Longrightarrow> r = q"
  by (cases r; cases q) (auto simp: reserved_words_def dest: sym split: list.splits)

text \<open>
  An approval that is cached for a command is reused only for the same command: two commands with the
  same approval key read the same, as one plain command, as one shell script run in the same mode or as one
  PowerShell script, in the same environment and directory and with the same permissions, unless the
  words of one of them start with a marker that the keys reserve for scripts.
\<close>

theorem approval_key_identifies:
  assumes "exec_command_key sitter a = exec_command_key sitter b"
    "\<not> reserved_words (read_command sitter (exec_words a))" "\<not> reserved_words (read_command sitter (exec_words b))"
  shows "read_command sitter (exec_words a) = read_command sitter (exec_words b) \<and>
    exec_environment_id a = exec_environment_id b \<and> exec_cwd a = exec_cwd b \<and>
    exec_sandbox_permissions a = exec_sandbox_permissions b \<and>
    exec_additional_permissions a = exec_additional_permissions b"
  using assms(1) reading_words_inject[OF assms(2,3)]
  by (simp add: exec_command_key_def canonicalize_reading)

text \<open>
  C40: The markers can be written in a command. A shell script that reads as one plain command with a
  marker, a mode and some text as its words has the approval key of the shell script with that text: an
  approval of the first for the session is an approval of the second.
\<close>

theorem approval_key_collision:
  assumes "parse_shell_lc_plain_commands sitter [shell, flag, disguised] = Some [[CANONICAL_BASH_SCRIPT_PREFIX, flag, script]]"
    "parse_shell_lc_plain_commands sitter [shell, flag, script] = None"
    "extract_bash_command [shell, flag, script] = Some (shell, script)"
    "exec_words a = [shell, flag, disguised]" "b = a\<lparr>exec_words := [shell, flag, script]\<rparr>"
  shows "exec_command_key sitter b = exec_command_key sitter a"
  using assms by (simp add: exec_command_key_def canonicalize_command_for_approval_def)

section \<open>Sample sessions\<close>

definition sample_session :: "(unit, unit, unit) session" where
  "sample_session = \<lparr>tool_approvals = (\<lambda>_. None), events = [], world = ()\<rparr>"

definition approve_all :: "unit \<Rightarrow> review_decision \<times> unit" where
  "approve_all w = (ApprovedForSession, w)"

definition deny_all :: "unit \<Rightarrow> review_decision \<times> unit" where
  "deny_all w = (Denied [], w)"

definition approved_session :: "(unit, unit, unit) session" where
  "approved_session = snd (with_cached_approval Some [] [[1], [2]] approve_all sample_session)"

lemma approved_session_reached: "cached_calls Some [([[1], [2]], ApprovedForSession)] approved_session"
proof -
  have "cached_calls Some ([] @ [([[1], [2]], fst (approve_all (world sample_session)))]) approved_session"
    unfolding approved_session_def
    by (rule cached_calls.ask) (auto intro: cached_calls.fresh simp: sample_session_def store_get_def)
  then show ?thesis by (simp add: approve_all_def)
qed

lemma cached_approval_justified_witness:
  "\<exists>x. Some [2] = Some x \<and> approved_before Some [([[1], [2]], ApprovedForSession)] x"
proof -
  have "fst (with_cached_approval Some [] [[2]] deny_all approved_session) \<noteq> fst (deny_all (world approved_session))"
    by (simp add: with_cached_approval_def approved_session_def sample_session_def approve_all_def deny_all_def
      record_event_def store_get_def store_put_def Let_def)
  then show ?thesis
    using cached_approval_justified[OF approved_session_reached, of "[[2]]" "[]" deny_all] by simp
qed

lemma session_approval_remembered_witness:
  "with_cached_approval Some [] [[2]] deny_all approved_session = (ApprovedForSession, approved_session)"
  using session_approval_remembered[OF approved_session_reached, of "[[1], [2]]" "[[2]]" "[]" deny_all] by simp

definition sample_services :: "hook_decision option \<Rightarrow> review_decision \<Rightarrow> (sample_url, unit) approval_services" where
  "sample_services hook d =
     \<lparr>run_permission_request_hooks = (\<lambda>_ _ w. (hook, w)), request_guardian_approval = (\<lambda>_ _ w. (None, w)),
      request_command_approval = (\<lambda>_ _ _ w. (d, w)), request_patch_approval = (\<lambda>_ _ _ w. (d, w)),
      request_mcp_tool_user_approval = (\<lambda>_ _ w. (d, w)), policy_fingerprint = (\<lambda>_. None), key_json = (\<lambda>_. None),
      script_sitter = (\<lambda>_. None), guardian_timeout_message = []\<rparr>"

definition sample_approval_context :: approval_context where
  "sample_approval_context = \<lparr>actx_policy = OnRequest, actx_call_id = [], actx_strict_auto_review = False,
     actx_approval_reason = None, actx_retry_reason = None, actx_network = None\<rparr>"

definition start_session :: "(sample_url, unit, unit) session" where
  "start_session = \<lparr>tool_approvals = (\<lambda>_. None), events = [], world = ()\<rparr>"


definition shell_action :: "rstr list \<Rightarrow> unit exec_command_action" where
  "shell_action ws = \<lparr>exec_environment_id = [], exec_words = ws, exec_cwd = (), exec_sandbox_permissions = UseDefault,
     exec_additional_permissions = None, exec_justification = None, exec_tty = False, exec_amendment = None\<rparr>"

lemma sample_login_command:
  "extract_bash_command [lit ''bash'', lit ''-lc'', [108, 32, 97]] = Some (lit ''bash'', [108, 32, 97])"
  by (simp add: extract_bash_command_def sample_shell)

lemma sample_login_plain:
  "parse_shell_lc_plain_commands sample_sitter [lit ''bash'', lit ''-lc'', [108, 32, 97]] = Some [[[108], [97]]]"
  using sample_plain by (simp add: parse_shell_lc_plain_commands_def sample_login_command sample_command)

lemma short_not_reserved: "[c] \<noteq> CANONICAL_BASH_SCRIPT_PREFIX" "[c] \<noteq> CANONICAL_POWERSHELL_SCRIPT_PREFIX"
  by (simp_all add: CANONICAL_BASH_SCRIPT_PREFIX_def CANONICAL_POWERSHELL_SCRIPT_PREFIX_def lit_def)

lemma approval_key_identifies_witness:
  "read_command sample_sitter [lit ''bash'', lit ''-c'', [108, 32, 97]] =
   read_command sample_sitter [lit ''bash'', lit ''-lc'', [108, 32, 97]]"
proof -
  let ?a = "shell_action [lit ''bash'', lit ''-c'', [108, 32, 97]]" and ?b = "shell_action [lit ''bash'', lit ''-lc'', [108, 32, 97]]"
  have "exec_command_key sample_sitter ?a = exec_command_key sample_sitter ?b"
    by (simp add: exec_command_key_def shell_action_def canonicalize_command_for_approval_def sample_plain sample_login_plain)
  moreover have "\<not> reserved_words (read_command sample_sitter (exec_words ?a))" "\<not> reserved_words (read_command sample_sitter (exec_words ?b))"
    by (simp_all add: read_command_def shell_action_def sample_plain sample_login_plain reserved_words_def short_not_reserved)
  ultimately show ?thesis
    using approval_key_identifies[of sample_sitter ?a ?b] by (simp add: shell_action_def)
qed

text \<open>The tree of the script \<open>__codex_shell_script__ -c x\<close>.\<close>

definition disguised_script :: rstr where
  "disguised_script = CANONICAL_BASH_SCRIPT_PREFIX @ lit '' -c x''"

definition disguised_tree :: syntax_node where
  "disguised_tree = Node (lit ''program'') True disguised_script 0
     [Node (lit ''command'') True disguised_script 0
       [Node (lit ''command_name'') True CANONICAL_BASH_SCRIPT_PREFIX 0 [sample_word CANONICAL_BASH_SCRIPT_PREFIX 0],
        sample_word (lit ''-c'') 23, sample_word (lit ''x'') 26]]"

definition disguised_sitter :: tree_sitter where
  "disguised_sitter script = (if script = disguised_script then Some (disguised_tree, False) else None)"

lemma accepted_words:
  "node_accepted (sample_word CANONICAL_BASH_SCRIPT_PREFIX i)" "node_accepted (sample_word (lit ''-c'') i)"
  "node_accepted (sample_word (lit ''x'') i)"
  by (auto simp: sample_word_def node_accepted_def ALLOWED_KINDS_def is_literal_word_or_number_def
    CANONICAL_BASH_SCRIPT_PREFIX_def named_children_def starts_with_def expansion_chars_def lit_def)

lemma disguised_accepted: "walk_plain [disguised_tree] [] = Some [hd (children disguised_tree)]"
proof -
  have k: "lit ''program'' \<noteq> lit ''command''" "lit ''command_name'' \<noteq> lit ''command''"
    by (simp_all add: lit_def)
  show ?thesis by (simp add: walk_plain.simps disguised_tree_def accepted_inner accepted_words k)
qed

lemma disguised_plain:
  "parse_shell_lc_plain_commands disguised_sitter [lit ''bash'', lit ''-c'', disguised_script] =
     Some [[CANONICAL_BASH_SCRIPT_PREFIX, lit ''-c'', lit ''x'']]"
proof -
  have words: "plain_word (sample_word t i) = Some t"
    "plain_word (Node (lit ''command_name'') True t i [sample_word t j]) = Some t" for t i j
    by (simp_all add: plain_word_def sample_word_def named_child_0_def named_children_def lit_def)
  have "extract_bash_command [lit ''bash'', lit ''-c'', disguised_script] = Some (lit ''bash'', disguised_script)"
    by (simp add: extract_bash_command_def sample_shell)
  then show ?thesis
    by (simp add: parse_shell_lc_plain_commands_def parse_shell_script_into_commands_def disguised_sitter_def
      try_parse_word_only_commands_sequence_def disguised_accepted)
      (simp add: disguised_tree_def parse_plain_command_from_node_def named_children_def words)
qed

lemma approval_key_collision_witness:
  "exec_command_key disguised_sitter (shell_action [lit ''bash'', lit ''-c'', lit ''x'']) =
   exec_command_key disguised_sitter (shell_action [lit ''bash'', lit ''-c'', disguised_script])"
proof -
  have e: "extract_bash_command [lit ''bash'', lit ''-c'', lit ''x''] = Some (lit ''bash'', lit ''x'')"
    by (simp add: extract_bash_command_def sample_shell)
  have "lit ''x'' \<noteq> disguised_script"
    by (simp add: disguised_script_def CANONICAL_BASH_SCRIPT_PREFIX_def lit_def)
  then have "parse_shell_lc_plain_commands disguised_sitter [lit ''bash'', lit ''-c'', lit ''x''] = None"
    by (simp add: parse_shell_lc_plain_commands_def e parse_shell_script_into_commands_def disguised_sitter_def)
  from approval_key_collision[OF disguised_plain this e, of "shell_action [lit ''bash'', lit ''-c'', disguised_script]"]
  show ?thesis by (simp add: shell_action_def)
qed

end
