(* ===== verification/Tool_Orchestrator.thy ===== *)
theory Tool_Orchestrator
  imports Tool_Approvals
begin

text \<open>
  The life of a tool call, \<open>core/src/tools/orchestrator.rs\<close>: approval, choice of the sandbox, the first
  attempt, and a retry after the sandbox denied it. The tool, the network service and the reviewers are
  parameters that may change the rest of the session; every attempt that is run is recorded in the
  session's events, after the decisions that came before it. Timing is left out of the recorded outcomes.
\<close>

section \<open>Parameters\<close>

record 'url network_approval_spec =
  spec_additional_permissions :: "'url additional_permission_profile option"

record ('url, 'n, 'out, 'w) tool_runtime =
  tool_sandbox_permissions :: sandbox_permissions
  tool_exec_approval_requirement :: "exec_approval_requirement option"
  tool_should_bypass_approval :: "ask_for_approval \<Rightarrow> bool \<Rightarrow> bool"
  tool_wants_no_sandbox_approval :: "ask_for_approval \<Rightarrow> bool"
  tool_approval_action :: "('url approval_action, rstr) result"
  tool_sandbox_preference :: sandboxable_preference
  tool_escalate_on_failure :: bool
  tool_executor_managed_sandbox :: bool
  tool_network_approval_spec :: "'w \<Rightarrow> 'url network_approval_spec option"
  tool_run :: "('url, 'n) sandbox_attempt \<Rightarrow> 'w \<Rightarrow> ('out, tool_error) result \<times> 'w"

record 'n active_network_approval =
  active_registration_id :: "rstr option"
  active_execution_proxy :: 'n

text \<open>
  What the network service does once a proxy is needed, and how it settles a registration that the tool
  left open.
\<close>

record ('url, 'n, 'w) network_services =
  open_network_approval ::
    "'url network_approval_spec \<Rightarrow> 'w \<Rightarrow> ('n active_network_approval option, tool_error) result \<times> 'w"
  finish_registration :: "rstr \<Rightarrow> 'w \<Rightarrow> (unit, tool_error) result \<times> 'w"

record 'url turn_environment =
  env_permission_profile :: "'url permission_profile"
  env_permission_profile_with_workspace_roots :: "'url permission_profile"
  env_has_network_policy :: bool
  env_windows_sandbox_level :: windows_sandbox_level

record 'url orchestrator_context =
  oc_approval_policy :: ask_for_approval
  oc_strict_auto_review :: bool
  oc_call_id :: rstr
  oc_turn_has_network :: bool
  oc_controller_network_enabled :: bool
  oc_has_linux_sandbox_exe :: bool
  oc_os :: target_os
  oc_paths :: "'url url_library"

section \<open>One attempt\<close>

definition begin_network_approval ::
    "('url, 'n, 'w) network_services \<Rightarrow> bool \<Rightarrow> 'url network_approval_spec option \<Rightarrow> ('url, 'n, 'w) session \<Rightarrow>
     ('n active_network_approval option, tool_error) result \<times> ('url, 'n, 'w) session" where
  "begin_network_approval net managed_network_active spec s =
     (case spec of
        None \<Rightarrow> (Ok None, s)
      | Some sp \<Rightarrow>
          if \<not> managed_network_active then (Ok None, s)
          else (let (r, w) = open_network_approval net sp (world s)
                in (r, s\<lparr>world := w\<rparr>)))"

definition finish_deferred_network_approval ::
    "('url, 'n, 'w) network_services \<Rightarrow> rstr option \<Rightarrow> ('url, 'n, 'w) session \<Rightarrow>
     (unit, tool_error) result \<times> ('url, 'n, 'w) session" where
  "finish_deferred_network_approval net deferred s =
     (case deferred of
        None \<Rightarrow> (Ok (), s)
      | Some registration \<Rightarrow> (let (r, w) = finish_registration net registration (world s) in (r, s\<lparr>world := w\<rparr>)))"

definition run_attempt ::
    "('url, 'n, 'w) network_services \<Rightarrow> ('url, 'n, 'out, 'w) tool_runtime \<Rightarrow> ('url, 'n) sandbox_attempt \<Rightarrow>
     'url network_approval_spec option \<Rightarrow> ('url, 'n, 'w) session \<Rightarrow>
     (('out, tool_error) result \<times> rstr option) \<times> ('url, 'n, 'w) session" where
  "run_attempt net tool att spec s =
     (case begin_network_approval net (att_enforce_managed_network att) spec s of
        (Err e, s1) \<Rightarrow> ((Err e, None), s1)
      | (Ok network_approval, s1) \<Rightarrow>
          (let att' = att\<lparr>att_network_proxy := map_option active_execution_proxy network_approval\<rparr>;
               s2 = record_event (Attempted att') s1;
               (run_result, w) = tool_run tool att' (world s2);
               s3 = s2\<lparr>world := w\<rparr>
           in case network_approval of
                None \<Rightarrow> ((run_result, None), s3)
              | Some active \<Rightarrow>
                  (let deferred = active_registration_id active
                   in if \<not> is_ok run_result
                      then (case finish_deferred_network_approval net deferred s3 of
                              (Err e, s4) \<Rightarrow> ((Err e, None), s4)
                            | (Ok _, s4) \<Rightarrow> ((run_result, None), s4))
                      else ((run_result, deferred), s3))))"

section \<open>Approval before the first attempt\<close>

definition could_not_prepare :: "rstr \<Rightarrow> tool_error" where
  "could_not_prepare err = Rejected (lit ''could not prepare approval action: '' @ err)"

definition request_tool_approval ::
    "('url, 'w) approval_services \<Rightarrow> ('url, 'n, 'out, 'w) tool_runtime \<Rightarrow> 'url orchestrator_context \<Rightarrow> rstr option \<Rightarrow>
     rstr option \<Rightarrow> network_approval_context option \<Rightarrow> ('url, 'n, 'w) session \<Rightarrow>
     (unit, tool_error) result \<times> ('url, 'n, 'w) session" where
  "request_tool_approval svc tool oc reason retry network s =
     (case tool_approval_action tool of
        Err err \<Rightarrow> (Err (could_not_prepare err), s)
      | Ok action \<Rightarrow>
          (let (r, s1) = request_approval svc action
                 \<lparr>actx_policy = oc_approval_policy oc, actx_call_id = oc_call_id oc,
                  actx_strict_auto_review = oc_strict_auto_review oc, actx_approval_reason = reason,
                  actx_retry_reason = retry, actx_network = network\<rparr> s
           in (bind_result r (\<lambda>_. Ok ()), s1)))"

definition approve_first_attempt ::
    "('url, 'w) approval_services \<Rightarrow> ('url, 'n, 'out, 'w) tool_runtime \<Rightarrow> 'url orchestrator_context \<Rightarrow>
     exec_approval_requirement \<Rightarrow> ('url, 'n, 'w) session \<Rightarrow> (bool, tool_error) result \<times> ('url, 'n, 'w) session" where
  "approve_first_attempt svc tool oc requirement s =
     (case requirement of
        Skip _ _ \<Rightarrow>
          if oc_strict_auto_review oc
          then (let (r, s1) = request_tool_approval svc tool oc None None None s in (bind_result r (\<lambda>_. Ok True), s1))
          else (Ok False, record_event (ToolDecision Approved ConfigSource) s)
      | Refused reason \<Rightarrow> (Err (Rejected reason), s)
      | NeedsApproval reason _ \<Rightarrow>
          (let (r, s1) = request_tool_approval svc tool oc reason None None s in (bind_result r (\<lambda>_. Ok True), s1)))"

section \<open>The attempts\<close>

definition run_permissions :: "('url, 'n, 'out, 'w) tool_runtime \<Rightarrow> 'url turn_environment \<Rightarrow> 'url permission_profile" where
  "run_permissions tool env =
     (if tool_executor_managed_sandbox tool then env_permission_profile env
      else env_permission_profile_with_workspace_roots env)"

definition run_requirement ::
    "('url, 'n, 'out, 'w) tool_runtime \<Rightarrow> 'url turn_environment \<Rightarrow> 'url orchestrator_context \<Rightarrow> exec_approval_requirement" where
  "run_requirement tool env oc =
     (case tool_exec_approval_requirement tool of
        Some requirement \<Rightarrow> requirement
      | None \<Rightarrow> default_exec_approval_requirement (oc_approval_policy oc)
                  (file_system_sandbox_policy_of (run_permissions tool env)))"

definition unsandboxed_allowed :: "('url, 'n, 'out, 'w) tool_runtime \<Rightarrow> 'url turn_environment \<Rightarrow> bool" where
  "unsandboxed_allowed tool env \<longleftrightarrow>
     \<not> env_has_network_policy env \<and>
     unsandboxed_execution_allowed (file_system_sandbox_policy_of (run_permissions tool env))"

definition managed_network_active ::
    "'url turn_environment \<Rightarrow> 'url orchestrator_context \<Rightarrow> 'url network_approval_spec option \<Rightarrow> bool" where
  "managed_network_active env oc spec =
     (if env_has_network_policy env
      then oc_controller_network_enabled oc \<or>
           (case spec of
              Some sp \<Rightarrow> network_is_enabled (effective_network_sandbox_policy
                            (network_sandbox_policy_of (env_permission_profile env)) (spec_additional_permissions sp))
            | None \<Rightarrow> False)
      else oc_turn_has_network oc)"

definition make_attempt ::
    "('url, 'n, 'out, 'w) tool_runtime \<Rightarrow> 'url turn_environment \<Rightarrow> 'url orchestrator_context \<Rightarrow> bool \<Rightarrow> bool \<Rightarrow> bool \<Rightarrow>
     ('url, 'n) sandbox_attempt" where
  "make_attempt tool env oc managed requested linux_exe =
     (let permissions = run_permissions tool env
      in \<lparr>att_sandbox =
            (if requested \<and> \<not> tool_executor_managed_sandbox tool
             then select_initial (oc_paths oc) (oc_os oc) permissions (tool_sandbox_preference tool)
                    (env_windows_sandbox_level env) managed
             else SandboxNone),
          att_sandbox_requested = requested, att_permissions = permissions,
          att_exec_server_permissions = env_permission_profile env, att_enforce_managed_network = managed,
          att_has_linux_sandbox_exe = linux_exe, att_network_proxy = None\<rparr>)"

definition policy_wants_sandbox ::
    "('url, 'n, 'out, 'w) tool_runtime \<Rightarrow> 'url turn_environment \<Rightarrow> 'url orchestrator_context \<Rightarrow> bool \<Rightarrow> bool" where
  "policy_wants_sandbox tool env oc managed =
     should_sandbox (oc_paths oc) (run_permissions tool env) (tool_sandbox_preference tool) managed"

definition initial_attempt ::
    "('url, 'n, 'out, 'w) tool_runtime \<Rightarrow> 'url turn_environment \<Rightarrow> 'url orchestrator_context \<Rightarrow> bool \<Rightarrow> ('url, 'n) sandbox_attempt" where
  "initial_attempt tool env oc managed =
     (let override = (if unsandboxed_allowed tool env
                      then sandbox_override_for_first_attempt (tool_sandbox_permissions tool) (run_requirement tool env oc)
                             (file_system_sandbox_policy_of (run_permissions tool env))
                      else NoOverride);
          requested = (case override of
                         BypassSandboxFirstAttempt \<Rightarrow> False
                       | NoOverride \<Rightarrow> policy_wants_sandbox tool env oc managed)
      in make_attempt tool env oc managed requested (oc_has_linux_sandbox_exe oc))"

definition retry_attempt ::
    "('url, 'n, 'out, 'w) tool_runtime \<Rightarrow> 'url turn_environment \<Rightarrow> 'url orchestrator_context \<Rightarrow> bool \<Rightarrow> ('url, 'n) sandbox_attempt" where
  "retry_attempt tool env oc managed =
     make_attempt tool env oc managed
       (\<not> unsandboxed_allowed tool env \<and> policy_wants_sandbox tool env oc managed)
       (if unsandboxed_allowed tool env then False else oc_has_linux_sandbox_exe oc)"

section \<open>The retry\<close>

fun sandbox_outcome_from_tool_error :: "tool_error \<Rightarrow> rstr option" where
  "sandbox_outcome_from_tool_error (Codex (SandboxDenied _)) = Some (lit ''denied'')"
| "sandbox_outcome_from_tool_error (Codex SandboxTimeout) = Some (lit ''timed_out'')"
| "sandbox_outcome_from_tool_error (Codex (SandboxSignal _)) = Some (lit ''signal'')"
| "sandbox_outcome_from_tool_error _ = None"

definition record_failure :: "tool_error \<Rightarrow> ('url, 'n, 'w) session \<Rightarrow> ('url, 'n, 'w) session" where
  "record_failure err s =
     (case sandbox_outcome_from_tool_error err of Some outcome \<Rightarrow> record_event (SandboxOutcome outcome) s | None \<Rightarrow> s)"

definition build_denial_reason :: rstr where
  "build_denial_reason = lit ''command failed; retry without sandbox?''"

definition denied_network_context ::
    "bool \<Rightarrow> network_policy_decision_payload option \<Rightarrow> network_approval_context option" where
  "denied_network_context managed payload =
     (if managed then Option.bind payload network_approval_context_from_payload else None)"

text \<open>The conditions under which a denied attempt is not tried again.\<close>

definition denial_is_final ::
    "('url, 'n, 'out, 'w) tool_runtime \<Rightarrow> 'url turn_environment \<Rightarrow> 'url orchestrator_context \<Rightarrow>
     network_policy_decision_payload option \<Rightarrow> network_approval_context option \<Rightarrow> bool" where
  "denial_is_final tool env oc payload network \<longleftrightarrow>
     payload \<noteq> None \<and> network = None \<or>
     \<not> tool_escalate_on_failure tool \<or>
     \<not> tool_wants_no_sandbox_approval tool (oc_approval_policy oc) \<and>
       \<not> (oc_approval_policy oc = OnRequest \<and> network \<noteq> None \<and>
          (case default_exec_approval_requirement (oc_approval_policy oc)
                  (file_system_sandbox_policy_of (run_permissions tool env)) of
             NeedsApproval _ _ \<Rightarrow> True | _ \<Rightarrow> False)) \<or>
     \<not> unsandboxed_allowed tool env \<and> network = None"

definition retry_reason :: "network_approval_context option \<Rightarrow> rstr" where
  "retry_reason network =
     (case network of
        Some c \<Rightarrow> lit ''Network access to '' @ [34] @ nac_host c @ [34] @ lit '' is blocked by policy.''
      | None \<Rightarrow> build_denial_reason)"

definition bypass_retry_approval ::
    "('url, 'n, 'out, 'w) tool_runtime \<Rightarrow> 'url orchestrator_context \<Rightarrow> bool \<Rightarrow> network_approval_context option \<Rightarrow> bool" where
  "bypass_retry_approval tool oc already_approved network \<longleftrightarrow>
     \<not> oc_strict_auto_review oc \<and> tool_should_bypass_approval tool (oc_approval_policy oc) already_approved \<and> network = None"

definition approve_retry ::
    "('url, 'w) approval_services \<Rightarrow> ('url, 'n, 'out, 'w) tool_runtime \<Rightarrow> 'url orchestrator_context \<Rightarrow>
     exec_approval_requirement \<Rightarrow> bool \<Rightarrow> network_approval_context option \<Rightarrow> ('url, 'n, 'w) session \<Rightarrow>
     (unit, tool_error) result \<times> ('url, 'n, 'w) session" where
  "approve_retry svc tool oc requirement already_approved network s =
     (if bypass_retry_approval tool oc already_approved network then (Ok (), s)
      else request_tool_approval svc tool oc
             (case requirement of NeedsApproval reason _ \<Rightarrow> reason | _ \<Rightarrow> None) (Some (retry_reason network)) network s)"

definition retry_denied ::
    "('url, 'w) approval_services \<Rightarrow> ('url, 'n, 'w) network_services \<Rightarrow> ('url, 'n, 'out, 'w) tool_runtime \<Rightarrow>
     'url turn_environment \<Rightarrow> 'url orchestrator_context \<Rightarrow> bool \<Rightarrow> bool \<Rightarrow> network_policy_decision_payload option \<Rightarrow>
     ('url, 'n, 'w) session \<Rightarrow> ('out \<times> rstr option, tool_error) result \<times> ('url, 'n, 'w) session" where
  "retry_denied svc net tool env oc already_approved managed payload s =
     (let network = denied_network_context managed payload
      in if denial_is_final tool env oc payload network
         then (Err (Codex (SandboxDenied payload)), record_event (SandboxOutcome (lit ''denied'')) s)
         else (case approve_retry svc tool oc (run_requirement tool env oc) already_approved network s of
                 (Err e, s1) \<Rightarrow> (Err e, s1)
               | (Ok _, s1) \<Rightarrow>
                   (case run_attempt net tool (retry_attempt tool env oc managed) (tool_network_approval_spec tool (world s1)) s1 of
                      ((Ok out, deferred), s2) \<Rightarrow>
                        (Ok (out, deferred), record_event (SandboxOutcome (lit ''escalated'')) s2)
                    | ((Err e, _), s2) \<Rightarrow> (Err e, record_failure e s2))))"

definition orchestrator_run ::
    "('url, 'w) approval_services \<Rightarrow> ('url, 'n, 'w) network_services \<Rightarrow> ('url, 'n, 'out, 'w) tool_runtime \<Rightarrow>
     'url turn_environment \<Rightarrow> 'url orchestrator_context \<Rightarrow> ('url, 'n, 'w) session \<Rightarrow>
     ('out \<times> rstr option, tool_error) result \<times> ('url, 'n, 'w) session" where
  "orchestrator_run svc net tool env oc s =
     (if env_has_network_policy env \<and> requires_escalated_permissions (tool_sandbox_permissions tool)
      then (Err (Rejected (lit ''attachment-owned network policy cannot be bypassed by sandbox escalation'')), s)
      else (case approve_first_attempt svc tool oc (run_requirement tool env oc) s of
              (Err e, s1) \<Rightarrow> (Err e, s1)
            | (Ok already_approved, s1) \<Rightarrow>
                (let spec = tool_network_approval_spec tool (world s1);
                     managed = managed_network_active env oc spec
                 in case run_attempt net tool (initial_attempt tool env oc managed) spec s1 of
                      ((Ok out, deferred), s2) \<Rightarrow> (Ok (out, deferred), s2)
                    | ((Err (Codex (SandboxDenied payload)), _), s2) \<Rightarrow>
                        retry_denied svc net tool env oc already_approved managed payload s2
                    | ((Err e, _), s2) \<Rightarrow> (Err e, record_failure e s2))))"

section \<open>What a run records\<close>

definition is_attempt :: "('url, 'n) session_event \<Rightarrow> bool" where
  "is_attempt e \<longleftrightarrow> (case e of Attempted _ \<Rightarrow> True | _ \<Rightarrow> False)"

definition quiet :: "('url, 'n) session_event list \<Rightarrow> bool" where
  "quiet evs \<longleftrightarrow> list_all (\<lambda>e. \<not> is_attempt e) evs"

definition approved_in :: "('url, 'n) session_event list \<Rightarrow> bool" where
  "approved_in evs \<longleftrightarrow> (\<exists>d source. ToolDecision d source \<in> set evs \<and> approves d)"

lemma quiet_simps [simp]:
  "quiet []" "quiet (xs @ ys) \<longleftrightarrow> quiet xs \<and> quiet ys"
  "quiet (e # evs) \<longleftrightarrow> \<not> is_attempt e \<and> quiet evs"
  "is_attempt (Attempted a)" "\<not> is_attempt (ToolDecision d source)" "\<not> is_attempt (SandboxOutcome t)"
  "\<not> is_attempt (ApprovalRequested t d')"
  by (simp_all add: quiet_def is_attempt_def)

lemma quiet_Attempted [dest]: "quiet evs \<Longrightarrow> Attempted a \<in> set evs \<Longrightarrow> False"
  by (auto simp: quiet_def list_all_iff is_attempt_def)

text \<open>Two sessions are related when the second has the events of the first followed by some more.\<close>

definition records :: "('u, 'n, 'w) session \<Rightarrow> ('u, 'n) session_event list \<Rightarrow> ('u, 'n, 'w) session \<Rightarrow> bool" where
  "records s evs s' \<longleftrightarrow> events s' = events s @ evs"

lemma records_simps [simp]:
  "records s [] (s\<lparr>world := w\<rparr>)" "records s [] s" "records s [e] (record_event e s)"
  "records s [] (s\<lparr>tool_approvals := st\<rparr>)"
  by (simp_all add: records_def record_event_def)

lemma records_trans: "records s xs t \<Longrightarrow> records t ys u \<Longrightarrow> records s (xs @ ys) u"
  by (simp add: records_def)

lemma records_world: "records s xs t \<Longrightarrow> records s xs (t\<lparr>world := w\<rparr>)" "records s xs t \<Longrightarrow> records s xs (t\<lparr>tool_approvals := st\<rparr>)"
  by (simp_all add: records_def)

lemma records_unique: "records s xs t \<Longrightarrow> records s ys t \<Longrightarrow> xs = ys"
  by (simp add: records_def)

lemma with_cached_records:
  "\<exists>evs. records s evs (snd (with_cached_approval json tool keys fetch s)) \<and> quiet evs"
proof -
  obtain d w where f: "fetch (world s) = (d, w)" by fastforce
  let ?e = "ApprovalRequested tool (to_opaque_string d)"
  have "records s [] (snd (with_cached_approval json tool keys fetch s)) \<or>
      records s [?e] (snd (with_cached_approval json tool keys fetch s))"
    by (auto simp: with_cached_approval_def f Let_def records_def record_event_def)
  moreover have "quiet [?e]" by simp
  ultimately show ?thesis using quiet_simps(1) by blast
qed

lemma ask_world_records: "records s [] (snd (ask_world fetch s))"
  by (simp add: ask_world_def split: prod.splits)

lemma request_user_records:
  "\<exists>evs. records s evs (snd (request_user_approval svc action ctx s)) \<and> quiet evs"
proof (cases action)
  case (ExecCommand a)
  then show ?thesis by (simp add: request_user_approval_def with_cached_records)
next
  case (ApplyPatch e fs pre)
  then show ?thesis
    by (auto simp: request_user_approval_def Let_def with_cached_records ask_world_records intro: exI[of _ "[]"])
qed (auto simp: request_user_approval_def ask_world_records intro!: exI[of _ "[]"])

lemma resolve_request_records:
  "\<exists>evs. records s evs (snd (resolve_request svc action ctx s)) \<and> quiet evs"
proof -
  obtain h w where h: "run_permission_request_hooks svc (permission_request_run_id action ctx) action (world s) = (h, w)"
    by fastforce
  obtain g w' where g: "request_guardian_approval svc action ctx w = (g, w')" by fastforce
  obtain evs where evs: "records (s\<lparr>world := w'\<rparr>) evs (snd (request_user_approval svc action ctx (s\<lparr>world := w'\<rparr>)))" "quiet evs"
    using request_user_records[of "s\<lparr>world := w'\<rparr>" svc action ctx] by auto
  then have "records s evs (snd (request_user_approval svc action ctx (s\<lparr>world := w'\<rparr>)))"
    by (simp add: records_def)
  with evs(2) h g show ?thesis
    by (cases h; cases g) (auto simp: resolve_request_def request_reviewer_approval_def Let_def
      split: hook_decision.splits prod.splits intro: exI[of _ "[]"])
qed

definition plain_action :: "'u approval_action \<Rightarrow> bool" where
  "plain_action action \<longleftrightarrow> \<not> is_network_action action \<and> \<not> is_mcp_action action"

lemma request_approval_records:
  assumes "request_approval svc action ctx s = (r, s')" "plain_action action"
  shows "\<exists>evs. records s evs s' \<and> quiet evs \<and> (is_ok r \<longrightarrow> approved_in evs)"
proof (cases "stdin_rejection action ctx")
  case (Some reason)
  then show ?thesis using assms(1) by (auto simp: request_approval_def intro: exI[of _ "[]"])
next
  case None
  obtain q s1 where q: "resolve_request svc action ctx s = (q, s1)" by fastforce
  obtain evs where evs: "records s evs s1" "quiet evs"
    using resolve_request_records[of s svc action ctx] q by auto
  let ?e = "ToolDecision (res_decision q) (decision_source (res_source q))"
  have s': "s' = record_event ?e s1" and r: "r = resolution_result (guardian_timeout_message svc) action q"
    using assms None q by (auto simp: request_approval_def plain_action_def)
  have "approves (res_decision q)" if ok: "is_ok r"
  proof -
    obtain d where "r = Ok d" using ok by (cases r) auto
    then show ?thesis using r resolution_result_Ok[of _ action q d] assms(2) by (auto simp: plain_action_def)
  qed
  then show ?thesis
    using evs s' by (intro exI[of _ "evs @ [?e]"]) (auto simp: approved_in_def records_def record_event_def)
qed

definition plain_tool :: "('url, 'n, 'out, 'w) tool_runtime \<Rightarrow> bool" where
  "plain_tool tool \<longleftrightarrow> (case tool_approval_action tool of Ok action \<Rightarrow> plain_action action | Err _ \<Rightarrow> True)"

lemma request_tool_records:
  assumes "request_tool_approval svc tool oc reason retry network s = (r, s')"
    "plain_tool tool"
  shows "\<exists>evs. records s evs s' \<and> quiet evs \<and> (is_ok r \<longrightarrow> approved_in evs)"
proof (cases "tool_approval_action tool")
  case (Err err)
  then show ?thesis using assms(1) by (auto simp: request_tool_approval_def intro: exI[of _ "[]"])
next
  case (Ok action)
  then obtain q where "request_approval svc action
      \<lparr>actx_policy = oc_approval_policy oc, actx_call_id = oc_call_id oc, actx_strict_auto_review = oc_strict_auto_review oc,
       actx_approval_reason = reason, actx_retry_reason = retry, actx_network = network\<rparr> s = (q, s')"
      "r = bind_result q (\<lambda>_. Ok ())"
    using assms(1) by (auto simp: request_tool_approval_def Let_def split: prod.splits)
  then show ?thesis
    using request_approval_records[of svc action _ s q s'] assms(2) Ok by (cases q) (auto simp: plain_tool_def)
qed

section \<open>The shape of a run\<close>

definition needs_approval :: "exec_approval_requirement \<Rightarrow> bool" where
  "needs_approval r \<longleftrightarrow> (case r of NeedsApproval _ _ \<Rightarrow> True | _ \<Rightarrow> False)"

definition is_refused :: "exec_approval_requirement \<Rightarrow> bool" where
  "is_refused r \<longleftrightarrow> (case r of Refused _ \<Rightarrow> True | _ \<Rightarrow> False)"

text \<open>The network service fails with a rejection or an input/output error, never with a denial of the sandbox.\<close>

definition network_never_denies :: "('url, 'n, 'w) network_services \<Rightarrow> bool" where
  "network_never_denies net \<longleftrightarrow> (\<forall>spec w payload. fst (open_network_approval net spec w) \<noteq> Err (Codex (SandboxDenied payload)))"

lemma approve_first_records:
  assumes "approve_first_attempt svc tool oc requirement s = (r, s1)" "plain_tool tool"
  shows "\<exists>evs. records s evs s1 \<and> quiet evs \<and>
    (\<forall>b. r = Ok b \<longrightarrow> b = (needs_approval requirement \<or> oc_strict_auto_review oc) \<and> (b \<longrightarrow> approved_in evs) \<and> \<not> is_refused requirement)"
proof -
  have ask: "\<exists>evs. records s evs s1 \<and> quiet evs \<and> (\<forall>b. r = Ok b \<longrightarrow> b \<and> approved_in evs)"
    if q: "request_tool_approval svc tool oc reason None None s = (q, s1)" "r = bind_result q (\<lambda>_. Ok True)" for q reason
  proof -
    have "\<exists>evs. records s evs s1 \<and> quiet evs \<and> (is_ok q \<longrightarrow> approved_in evs)"
      using request_tool_records[OF q(1) assms(2)] .
    then show ?thesis using q(2) by (cases q) auto
  qed
  show ?thesis
  proof (cases requirement)
    case (Skip b am)
    show ?thesis
    proof (cases "oc_strict_auto_review oc")
      case True
      then show ?thesis using assms(1) Skip ask[of None]
        by (auto simp: approve_first_attempt_def is_refused_def Let_def split: prod.splits)
    next
      case False
      then show ?thesis using assms(1) Skip
        by (intro exI[of _ "[ToolDecision Approved ConfigSource]"])
          (auto simp: approve_first_attempt_def needs_approval_def is_refused_def)
    qed
  next
    case (NeedsApproval reason am)
    then show ?thesis using assms(1) ask[of reason]
      by (auto simp: approve_first_attempt_def needs_approval_def is_refused_def Let_def split: prod.splits)
  next
    case (Refused reason)
    then show ?thesis using assms(1) by (auto simp: approve_first_attempt_def intro: exI[of _ "[]"])
  qed
qed

lemma finish_records: "records s [] (snd (finish_deferred_network_approval net deferred s))"
  by (simp add: finish_deferred_network_approval_def split: option.splits prod.splits)

lemma run_attempt_records:
  assumes "run_attempt net tool att spec s = ((r, d), s')"
  shows "(\<exists>proxy. records s [Attempted (att\<lparr>att_network_proxy := proxy\<rparr>)] s') \<or>
    records s [] s' \<and> (\<exists>sp w e. fst (open_network_approval net sp w) = Err e \<and> r = Err e)"
proof -
  obtain b s1 where b: "begin_network_approval net (att_enforce_managed_network att) spec s = (b, s1)" by fastforce
  have s1: "records s [] s1"
    using b by (auto simp: begin_network_approval_def Let_def split: option.splits if_splits prod.splits)
  show ?thesis
  proof (cases b)
    case (Err e)
    then have "\<exists>sp w. fst (open_network_approval net sp w) = Err e"
      using b by (auto simp: begin_network_approval_def Let_def split: option.splits if_splits prod.splits) (metis fst_conv)
    then show ?thesis using assms b Err s1 by (auto simp: run_attempt_def)
  next
    case (Ok active)
    let ?att = "att\<lparr>att_network_proxy := map_option active_execution_proxy active\<rparr>"
    obtain q w where q: "tool_run tool ?att (world (record_event (Attempted ?att) s1)) = (q, w)" by fastforce
    let ?s3 = "(record_event (Attempted ?att) s1)\<lparr>world := w\<rparr>"
    have s3: "records s [Attempted ?att] ?s3"
      using s1 by (simp add: records_def record_event_def)
    have fin: "records ?s3 [] (snd (finish_deferred_network_approval net df ?s3))" for df
      by (rule finish_records)
    have "s' = ?s3 \<or> (\<exists>df. s' = snd (finish_deferred_network_approval net df ?s3))"
      using assms b Ok q
      by (auto simp: run_attempt_def Let_def split: option.splits if_splits prod.splits result.splits) (metis snd_conv)+
    then have "records s [Attempted ?att] s'"
      using s3 records_trans[OF s3 fin] by auto
    then show ?thesis by blast
  qed
qed

lemma record_failure_records: "\<exists>evs. records s evs (record_failure e s) \<and> quiet evs"
proof (cases "sandbox_outcome_from_tool_error e")
  case None
  then show ?thesis by (auto simp: record_failure_def intro: exI[of _ "[]"])
next
  case (Some outcome)
  then show ?thesis by (intro exI[of _ "[SandboxOutcome outcome]"]) (simp add: record_failure_def)
qed

text \<open>What one attempt leaves in the events: nothing, or the attempt, possibly after some and before other records.\<close>

definition attempt_recorded ::
    "('u, 'n, 'w) session \<Rightarrow> ('u, 'n) session_event list \<Rightarrow> ('u, 'n) sandbox_attempt \<Rightarrow> ('u, 'n, 'w) session \<Rightarrow> bool" where
  "attempt_recorded s pre att s' \<longleftrightarrow>
     (\<exists>proxy post. quiet post \<and> records s (pre @ Attempted (att\<lparr>att_network_proxy := proxy\<rparr>) # post) s')"

definition retry_permitted ::
    "('url, 'n, 'out, 'w) tool_runtime \<Rightarrow> 'url turn_environment \<Rightarrow> 'url orchestrator_context \<Rightarrow> bool \<Rightarrow>
     ('url, 'n) session_event list \<Rightarrow> bool" where
  "retry_permitted tool env oc already mid \<longleftrightarrow>
     (\<exists>payload network. \<not> denial_is_final tool env oc payload network \<and>
        (approved_in mid \<or> bypass_retry_approval tool oc already network))"

lemma approve_retry_records:
  assumes "approve_retry svc tool oc requirement already network s = (r, s1)" "plain_tool tool"
  shows "\<exists>evs. records s evs s1 \<and> quiet evs \<and> (is_ok r \<longrightarrow> approved_in evs \<or> bypass_retry_approval tool oc already network)"
proof (cases "bypass_retry_approval tool oc already network")
  case True
  then show ?thesis using assms(1) by (auto simp: approve_retry_def intro: exI[of _ "[]"])
next
  case False
  then show ?thesis using assms request_tool_records by (fastforce simp: approve_retry_def)
qed

lemma retry_records:
  assumes "retry_denied svc net tool env oc already managed payload s = (r, s')" "plain_tool tool"
  defines "network \<equiv> denied_network_context managed payload"
  shows "\<exists>mid. quiet mid \<and>
    (records s mid s' \<or>
     attempt_recorded s mid (retry_attempt tool env oc managed) s' \<and> retry_permitted tool env oc already mid)"
proof (cases "denial_is_final tool env oc payload network")
  case True
  then show ?thesis using assms(1)
    by (intro exI[of _ "[SandboxOutcome (lit ''denied'')]"]) (auto simp: retry_denied_def network_def Let_def)
next
  case False
  obtain q s1 where q: "approve_retry svc tool oc (run_requirement tool env oc) already network s = (q, s1)" by fastforce
  obtain mid where mid: "records s mid s1" "quiet mid" "is_ok q \<longrightarrow> approved_in mid \<or> bypass_retry_approval tool oc already network"
    using approve_retry_records[OF q assms(2)] by blast
  show ?thesis
  proof (cases q)
    case (Err e)
    then show ?thesis using assms(1) False q mid by (auto simp: retry_denied_def network_def Let_def)
  next
    case (Ok u)
    let ?spec = "tool_network_approval_spec tool (world s1)" and ?att = "retry_attempt tool env oc managed"
    obtain x d s2 where run: "run_attempt net tool ?att ?spec s1 = ((x, d), s2)" by (metis prod.exhaust)
    have "(\<exists>e. s' = record_failure e s2) \<or> s' = record_event (SandboxOutcome (lit ''escalated'')) s2"
      using assms(1) False q Ok run by (cases x) (auto simp: retry_denied_def network_def Let_def)
    then obtain post where post: "records s2 post s'" "quiet post"
      using record_failure_records[of s2] records_simps(3)[of s2] by (metis quiet_simps(1,3,6))
    from run_attempt_records[OF run] show ?thesis
    proof (elim disjE exE conjE)
      fix proxy assume "records s1 [Attempted (?att\<lparr>att_network_proxy := proxy\<rparr>)] s2"
      then have "records s (mid @ Attempted (?att\<lparr>att_network_proxy := proxy\<rparr>) # post) s'"
        using mid(1) post(1) by (simp add: records_def)
      then show ?thesis
        using False Ok mid(2,3) post(2) unfolding attempt_recorded_def retry_permitted_def by (intro exI[of _ mid]) auto
    next
      assume "records s1 [] s2"
      then show ?thesis
        using mid(1,2) post by (intro exI[of _ "mid @ post"]) (auto simp: records_def)
    qed
  qed
qed

text \<open>
  The events of a run: no attempt at all, or the first attempt after its approval, possibly followed by a
  retry after its own.
\<close>

definition first_authorised :: "exec_approval_requirement \<Rightarrow> bool \<Rightarrow> ('u, 'n) session_event list \<Rightarrow> bool" where
  "first_authorised requirement strict pre \<longleftrightarrow>
     \<not> is_refused requirement \<and> (needs_approval requirement \<or> strict \<longrightarrow> approved_in pre)"

lemma run_shape:
  assumes "orchestrator_run svc net tool env oc s = (r, s')" "plain_tool tool" "network_never_denies net"
  defines "requirement \<equiv> run_requirement tool env oc"
  shows "(\<exists>evs. records s evs s' \<and> quiet evs) \<or>
    (\<exists>pre managed proxy s2. quiet pre \<and> first_authorised requirement (oc_strict_auto_review oc) pre \<and>
       records s (pre @ [Attempted ((initial_attempt tool env oc managed)\<lparr>att_network_proxy := proxy\<rparr>)]) s2 \<and>
       (\<exists>mid. quiet mid \<and>
         (records s2 mid s' \<or>
          attempt_recorded s2 mid (retry_attempt tool env oc managed) s' \<and>
          retry_permitted tool env oc (needs_approval requirement \<or> oc_strict_auto_review oc) mid)))"
proof (cases "env_has_network_policy env \<and> requires_escalated_permissions (tool_sandbox_permissions tool)")
  case True
  then show ?thesis using assms(1) by (auto simp: orchestrator_run_def intro: exI[of _ "[]"])
next
  case False
  obtain q s1 where q: "approve_first_attempt svc tool oc requirement s = (q, s1)" by fastforce
  obtain pre where pre: "records s pre s1" "quiet pre"
    "\<forall>b. q = Ok b \<longrightarrow> b = (needs_approval requirement \<or> oc_strict_auto_review oc) \<and> (b \<longrightarrow> approved_in pre) \<and> \<not> is_refused requirement"
    using approve_first_records[OF q assms(2)] by blast
  show ?thesis
  proof (cases q)
    case (Err e)
    then have "s' = s1" using assms(1) False q by (auto simp: orchestrator_run_def requirement_def)
    with pre(1,2) show ?thesis by auto
  next
    case (Ok b)
    have auth: "first_authorised requirement (oc_strict_auto_review oc) pre" and b: "b = (needs_approval requirement \<or> oc_strict_auto_review oc)"
      using pre(3) Ok by (auto simp: first_authorised_def)
    define spec where "spec = tool_network_approval_spec tool (world s1)"
    define managed where "managed = managed_network_active env oc spec"
    let ?att = "initial_attempt tool env oc managed"
    obtain x d s2 where run: "run_attempt net tool ?att spec s1 = ((x, d), s2)" by (metis prod.exhaust)
    have tail: "s' = s2 \<and> is_ok x \<or> (\<exists>e. x = Err e \<and> s' = record_failure e s2) \<or>
        (\<exists>payload. x = Err (Codex (SandboxDenied payload)) \<and> retry_denied svc net tool env oc b managed payload s2 = (r, s'))"
      using assms(1) False q Ok run
      by (cases x) (auto simp: orchestrator_run_def requirement_def Let_def spec_def[symmetric] managed_def[symmetric]
        split: tool_error.splits codex_err.splits)
    have quick: "\<exists>mid. quiet mid \<and> records s2 mid s'" if "s' = s2 \<or> (\<exists>e. s' = record_failure e s2)"
      using that record_failure_records[of s2] records_simps(2)[of s2] quiet_simps(1) by metis
    have after: "\<exists>mid. quiet mid \<and> (records s2 mid s' \<or> attempt_recorded s2 mid (retry_attempt tool env oc managed) s' \<and>
        retry_permitted tool env oc b mid)"
      using tail quick retry_records[OF _ assms(2)] by metis
    from run_attempt_records[OF run] show ?thesis
    proof (elim disjE exE conjE)
      fix proxy assume "records s1 [Attempted (?att\<lparr>att_network_proxy := proxy\<rparr>)] s2"
      then have "records s (pre @ [Attempted (?att\<lparr>att_network_proxy := proxy\<rparr>)]) s2"
        using pre(1) by (simp add: records_def)
      with pre(2) auth after show ?thesis unfolding b by blast
    next
      fix sp w e assume s2: "records s1 [] s2" and e: "fst (open_network_approval net sp w) = Err e" "x = Err e"
      have "e \<noteq> Codex (SandboxDenied payload)" for payload
        using e(1) assms(3) by (auto simp: network_never_denies_def)
      then obtain mid where "quiet mid" "records s2 mid s'"
        using tail e(2) quick by auto
      then have "records s (pre @ mid) s' \<and> quiet (pre @ mid)"
        using pre(1,2) s2 by (simp add: records_def)
      then show ?thesis by blast
    qed
  qed
qed

section \<open>The attempts of a run\<close>

lemma attempt_split:
  assumes "quiet xs" "quiet ys" "xs @ Attempted a # us = ys @ Attempted b # vs"
  shows "xs = ys \<and> a = b \<and> us = vs"
proof -
  have pre: "takeWhile (\<lambda>e. \<not> is_attempt e) (zs @ Attempted c # ws) = zs" if "quiet zs" for zs c and ws :: "('a, 'b) session_event list"
    using that by (induction zs) auto
  have "xs = ys" using pre[OF assms(1), of a us] pre[OF assms(2), of b vs] assms(3) by simp
  with assms(3) show ?thesis by simp
qed

lemma quiet_no_split: "quiet (xs @ Attempted a # ys) \<longleftrightarrow> False"
  by simp

text \<open>How the first attempt and the retry of a run are made, and what came before them.\<close>

lemma first_attempt_of_run:
  assumes "orchestrator_run svc net tool env oc s = (r, s')" "plain_tool tool" "network_never_denies net"
    "records s (pre @ Attempted att # post) s'" "quiet pre"
  obtains managed proxy where "att = (initial_attempt tool env oc managed)\<lparr>att_network_proxy := proxy\<rparr>"
    "first_authorised (run_requirement tool env oc) (oc_strict_auto_review oc) pre"
    "quiet post \<or> (\<exists>mid proxy' post'. quiet mid \<and> quiet post' \<and>
       post = mid @ Attempted ((retry_attempt tool env oc managed)\<lparr>att_network_proxy := proxy'\<rparr>) # post' \<and>
       retry_permitted tool env oc (needs_approval (run_requirement tool env oc) \<or> oc_strict_auto_review oc) mid)"
proof -
  let ?auth = "first_authorised (run_requirement tool env oc) (oc_strict_auto_review oc)"
  let ?by = "retry_permitted tool env oc (needs_approval (run_requirement tool env oc) \<or> oc_strict_auto_review oc)"
  from run_shape[OF assms(1-3)] obtain pre' managed proxy s2 mid where shape:
    "quiet pre'" "?auth pre'" "quiet mid"
    "records s (pre' @ [Attempted ((initial_attempt tool env oc managed)\<lparr>att_network_proxy := proxy\<rparr>)]) s2"
    "records s2 mid s' \<or> attempt_recorded s2 mid (retry_attempt tool env oc managed) s' \<and> ?by mid"
    using records_unique[OF assms(4)] quiet_no_split by metis
  let ?a = "(initial_attempt tool env oc managed)\<lparr>att_network_proxy := proxy\<rparr>"
  obtain tail where tail: "records s2 tail s'"
    "quiet tail \<or> (\<exists>proxy' post'. quiet post' \<and>
       tail = mid @ Attempted ((retry_attempt tool env oc managed)\<lparr>att_network_proxy := proxy'\<rparr>) # post' \<and> ?by mid)"
    using shape(3,5) unfolding attempt_recorded_def by blast
  have "pre @ Attempted att # post = pre' @ Attempted ?a # tail"
    using records_unique[OF assms(4)] records_trans[OF shape(4) tail(1)] by simp
  then have "pre = pre' \<and> att = ?a \<and> post = tail"
    by (rule attempt_split[OF assms(5) shape(1)])
  then show thesis using that[where managed = managed and proxy = proxy] shape(2,3) tail(2) by blast
qed

lemma first_attempt_exists:
  "Attempted a \<in> set evs \<Longrightarrow> \<exists>pre b post. evs = pre @ Attempted b # post \<and> quiet pre"
proof (induction evs)
  case (Cons e evs)
  show ?case
  proof (cases "is_attempt e")
    case True
    then obtain b where "e = Attempted b" by (cases e) simp_all
    then show ?thesis by (intro exI[of _ "[]"]) simp
  next
    case False
    then obtain pre b post where "evs = pre @ Attempted b # post" "quiet pre"
      using Cons by auto
    with False have "e # evs = (e # pre) @ Attempted b # post \<and> quiet (e # pre)" by simp
    then show ?thesis by blast
  qed
qed simp

lemma refused_run:
  assumes "run_requirement tool env oc = Refused reason"
  shows "\<exists>message. orchestrator_run svc net tool env oc s = (Err (Rejected message), s)"
  using assms by (simp add: orchestrator_run_def approve_first_attempt_def)

text \<open>
  A tool call that is refused is never attempted: when its requirement is a refusal, or when it asks to
  leave the sandbox although the environment brings its own network policy, the run ends with a rejection,
  nothing is asked and the session is left as it was.
\<close>

theorem refused_call_never_attempted:
  assumes "run_requirement tool env oc = Refused reason \<or>
    env_has_network_policy env \<and> tool_sandbox_permissions tool = RequireEscalated"
  shows "\<exists>message. orchestrator_run svc net tool env oc s = (Err (Rejected message), s)"
  using assms by (auto simp: orchestrator_run_def approve_first_attempt_def requires_escalated_permissions_def)

lemma bypass_reason:
  "sandbox_override_for_first_attempt permissions requirement p = BypassSandboxFirstAttempt \<Longrightarrow>
     (\<exists>amendment. requirement = Skip True amendment) \<or> permissions = RequireEscalated"
  by (cases requirement) (auto simp: sandbox_override_for_first_attempt_def requires_escalated_permissions_def split: if_splits)

text \<open>
  C3: The first attempt of a tool call is authorised. Its requirement is no refusal; when approval is needed,
  or when strict review is on, a decision that approves was recorded before it. An attempt that leaves a
  sandbox the policy asks for is made only if no read is denied and the environment has no network policy
  of its own, and because a rule allowed the command outside the sandbox or the call asked to leave it.
\<close>

theorem first_attempt_authorised:
  assumes "orchestrator_run svc net tool env oc s = (r, s')" "plain_tool tool" "network_never_denies net"
    "events s' = events s @ pre @ Attempted att # post" "quiet pre" "tool_sandbox_preference tool \<noteq> Forbid"
  shows "first_authorised (run_requirement tool env oc) (oc_strict_auto_review oc) pre \<and>
    (is_escalated (oc_paths oc) att \<longrightarrow>
       \<not> env_has_network_policy env \<and> unsandboxed_execution_allowed (file_system_sandbox_policy_of (run_permissions tool env)) \<and>
       ((\<exists>amendment. run_requirement tool env oc = Skip True amendment) \<or> tool_sandbox_permissions tool = RequireEscalated))"
proof -
  have "records s (pre @ Attempted att # post) s'" using assms(4) by (simp add: records_def)
  then obtain managed proxy where att: "att = (initial_attempt tool env oc managed)\<lparr>att_network_proxy := proxy\<rparr>"
    and auth: "first_authorised (run_requirement tool env oc) (oc_strict_auto_review oc) pre"
    using first_attempt_of_run[OF assms(1-3) _ assms(5)] by metis
  have "att_sandbox_requested att \<longleftrightarrow> policy_wants_sandbox tool env oc managed"
    if "\<not> (unsandboxed_allowed tool env \<and> sandbox_override_for_first_attempt (tool_sandbox_permissions tool)
      (run_requirement tool env oc) (file_system_sandbox_policy_of (run_permissions tool env)) = BypassSandboxFirstAttempt)"
    using that sandbox_override.exhaust by (auto simp: att initial_attempt_def make_attempt_def Let_def split: sandbox_override.splits)
  moreover have "\<not> is_escalated (oc_paths oc) att" if "att_sandbox_requested att \<longleftrightarrow> policy_wants_sandbox tool env oc managed"
    using that assms(6) by (cases "tool_sandbox_preference tool")
      (auto simp: is_escalated_def att initial_attempt_def make_attempt_def policy_wants_sandbox_def should_sandbox_def Let_def)
  ultimately have "is_escalated (oc_paths oc) att \<Longrightarrow> unsandboxed_allowed tool env \<and>
      sandbox_override_for_first_attempt (tool_sandbox_permissions tool) (run_requirement tool env oc)
        (file_system_sandbox_policy_of (run_permissions tool env)) = BypassSandboxFirstAttempt"
    by blast
  then show ?thesis using auth bypass_reason unfolding unsandboxed_allowed_def by blast
qed

text \<open>A tool that keeps the default methods of the trait \<open>Approvable\<close>.\<close>

definition default_tool :: "('url, 'n, 'out, 'w) tool_runtime \<Rightarrow> bool" where
  "default_tool tool \<longleftrightarrow>
     (\<forall>policy approved. tool_should_bypass_approval tool policy approved = should_bypass_approval policy approved) \<and>
     (\<forall>policy. tool_wants_no_sandbox_approval tool policy = wants_no_sandbox_approval policy)"

lemma retry_of_run:
  assumes "orchestrator_run svc net tool env oc s = (r, s')" "plain_tool tool" "network_never_denies net"
    "records s (pre @ Attempted a1 # mid @ Attempted a2 # post) s'" "quiet pre" "quiet mid"
  shows "first_authorised (run_requirement tool env oc) (oc_strict_auto_review oc) pre \<and>
    retry_permitted tool env oc (needs_approval (run_requirement tool env oc) \<or> oc_strict_auto_review oc) mid \<and> quiet post"
proof -
  let ?by = "retry_permitted tool env oc (needs_approval (run_requirement tool env oc) \<or> oc_strict_auto_review oc)"
  obtain managed proxy where auth: "first_authorised (run_requirement tool env oc) (oc_strict_auto_review oc) pre"
    and post: "quiet (mid @ Attempted a2 # post) \<or> (\<exists>mid' proxy' post'. quiet mid' \<and> quiet post' \<and>
       mid @ Attempted a2 # post = mid' @ Attempted ((retry_attempt tool env oc managed)\<lparr>att_network_proxy := proxy'\<rparr>) # post' \<and>
       ?by mid')"
    by (rule first_attempt_of_run[OF assms(1-5)])
  then obtain mid' proxy' post' where "quiet mid'" "quiet post'" "?by mid'"
      "mid @ Attempted a2 # post = mid' @ Attempted ((retry_attempt tool env oc managed)\<lparr>att_network_proxy := proxy'\<rparr>) # post'"
    using quiet_no_split by blast
  then show ?thesis using auth attempt_split[OF assms(6) \<open>quiet mid'\<close>] by blast
qed


text \<open>
  C7: Denied reads stay denied: when the policy of a run denies some read, or the environment brings its own
  network policy, no attempt of the run, neither the first nor the retry, leaves a sandbox that the policy
  asks for, whatever was approved.
\<close>

theorem denied_reads_keep_sandbox:
  assumes "orchestrator_run svc net tool env oc s = (r, s')" "plain_tool tool" "network_never_denies net"
    "tool_sandbox_preference tool \<noteq> Forbid"
    "has_denied_read_restrictions (file_system_sandbox_policy_of (run_permissions tool env)) \<or> env_has_network_policy env"
    "events s' = events s @ evs" "Attempted att \<in> set evs"
  shows "\<not> is_escalated (oc_paths oc) att"
proof -
  have no: "\<not> unsandboxed_allowed tool env"
    using assms(5) by (auto simp: unsandboxed_allowed_def unsandboxed_execution_allowed_def)
  have keep: "\<not> is_escalated (oc_paths oc) (a\<lparr>att_network_proxy := proxy\<rparr>)"
    if "a = initial_attempt tool env oc managed \<or> a = retry_attempt tool env oc managed" for a managed proxy
    using that assms(4) no by (cases "tool_sandbox_preference tool")
      (auto simp: is_escalated_def initial_attempt_def retry_attempt_def make_attempt_def policy_wants_sandbox_def should_sandbox_def Let_def)
  obtain pre a1 post where split: "evs = pre @ Attempted a1 # post" "quiet pre"
    using assms(7) first_attempt_exists by metis
  have "records s (pre @ Attempted a1 # post) s'" using assms(6) split(1) by (simp add: records_def)
  then obtain managed proxy where a1: "a1 = (initial_attempt tool env oc managed)\<lparr>att_network_proxy := proxy\<rparr>"
    and post: "quiet post \<or> (\<exists>mid proxy' post'. quiet mid \<and> quiet post' \<and>
       post = mid @ Attempted ((retry_attempt tool env oc managed)\<lparr>att_network_proxy := proxy'\<rparr>) # post')"
    using first_attempt_of_run[OF assms(1-3) _ split(2)] by metis
  then have "att = a1 \<or> (\<exists>proxy'. att = (retry_attempt tool env oc managed)\<lparr>att_network_proxy := proxy'\<rparr>)"
    using assms(7) split by auto
  then show ?thesis using a1 keep by blast
qed

section \<open>Sample runs\<close>

text \<open>A tool that the sandbox denies, in an environment whose disk can be read but not written.\<close>

definition sample_tool :: "exec_approval_requirement \<Rightarrow> (sample_url, unit, unit, unit) tool_runtime" where
  "sample_tool requirement =
     \<lparr>tool_sandbox_permissions = UseDefault, tool_exec_approval_requirement = Some requirement,
      tool_should_bypass_approval = should_bypass_approval, tool_wants_no_sandbox_approval = wants_no_sandbox_approval,
      tool_approval_action = Ok (Execve [] []), tool_sandbox_preference = Auto, tool_escalate_on_failure = True,
      tool_executor_managed_sandbox = False, tool_network_approval_spec = (\<lambda>_. None),
      tool_run = (\<lambda>att w. (if att_sandbox_requested att then Err (Codex (SandboxDenied None)) else Ok (), w))\<rparr>"

definition sample_environment :: "file_system_access_mode \<Rightarrow> sample_url turn_environment" where
  "sample_environment access =
     \<lparr>env_permission_profile = sample_profile access, env_permission_profile_with_workspace_roots = sample_profile access,
      env_has_network_policy = False, env_windows_sandbox_level = LevelDisabled\<rparr>"

definition sample_orchestrator_context :: "sample_url orchestrator_context" where
  "sample_orchestrator_context =
     \<lparr>oc_approval_policy = UnlessTrusted, oc_strict_auto_review = False, oc_call_id = [], oc_turn_has_network = False,
      oc_controller_network_enabled = False, oc_has_linux_sandbox_exe = True, oc_os = Linux, oc_paths = sample_library\<rparr>"

definition sample_network :: "(sample_url, unit, unit) network_services" where
  "sample_network = \<lparr>open_network_approval = (\<lambda>_ w. (Ok None, w)), finish_registration = (\<lambda>_ w. (Ok (), w))\<rparr>"

definition sample_run :: "file_system_access_mode \<Rightarrow> (unit \<times> rstr option, tool_error) result \<times> (sample_url, unit, unit) session" where
  "sample_run access = orchestrator_run (sample_services None Approved) sample_network (sample_tool (NeedsApproval None None))
     (sample_environment access) sample_orchestrator_context start_session"

definition sample_first :: "file_system_access_mode \<Rightarrow> (sample_url, unit) sandbox_attempt" where
  "sample_first access = make_attempt (sample_tool (NeedsApproval None None)) (sample_environment access)
     sample_orchestrator_context False True True"

definition sample_second :: "(sample_url, unit) sandbox_attempt" where
  "sample_second = make_attempt (sample_tool (NeedsApproval None None)) (sample_environment Read)
     sample_orchestrator_context False False False"

lemma sample_run_facts:
  "plain_tool (sample_tool requirement)" "network_never_denies sample_network" "default_tool (sample_tool requirement)"
  "tool_sandbox_preference (sample_tool requirement) \<noteq> Forbid"
  "run_requirement (sample_tool requirement) env oc = requirement"
  by (simp_all add: plain_tool_def sample_tool_def plain_action_def is_network_action_def is_mcp_action_def
    network_never_denies_def sample_network_def default_tool_def run_requirement_def)

lemma sample_run_events:
  "events (snd (sample_run Read)) = [ToolDecision Approved UserSource, Attempted (sample_first Read),
     Attempted sample_second, SandboxOutcome (lit ''escalated'')]"
  by code_simp

lemma sample_run_denied_events:
  "events (snd (sample_run Deny)) = [ToolDecision Approved UserSource, Attempted (sample_first Deny), SandboxOutcome (lit ''denied'')]"
  by code_simp

lemma start_events: "events start_session = []"
  by (simp add: start_session_def)

lemma sample_run_pair:
  "orchestrator_run (sample_services None Approved) sample_network (sample_tool (NeedsApproval None None))
     (sample_environment access) sample_orchestrator_context start_session = (fst (sample_run access), snd (sample_run access))"
  by (simp add: sample_run_def)

lemma refused_call_never_attempted_witness:
  "\<exists>message. orchestrator_run (sample_services None Approved) sample_network (sample_tool (Refused [])) (sample_environment Read)
     sample_orchestrator_context start_session = (Err (Rejected message), start_session)"
  by (rule refused_call_never_attempted[where reason = "[]"]) (simp add: sample_run_facts)

lemma first_attempt_authorised_witness:
  "first_authorised (NeedsApproval None None) False [ToolDecision Approved UserSource :: (sample_url, unit) session_event]"
proof -
  have "events (snd (sample_run Read)) = events start_session @ [ToolDecision Approved UserSource] @ Attempted (sample_first Read) #
      [Attempted sample_second, SandboxOutcome (lit ''escalated'')]"
    by (simp add: sample_run_events start_events)
  from first_attempt_authorised[OF sample_run_pair sample_run_facts(1,2) this _ sample_run_facts(4)]
  show ?thesis by (simp add: sample_run_facts sample_orchestrator_context_def)
qed


lemma denied_reads_keep_sandbox_witness: "\<not> is_escalated sample_library (sample_first Deny)"
proof -
  have "has_denied_read_restrictions (file_system_sandbox_policy_of (run_permissions (sample_tool (NeedsApproval None None)) (sample_environment Deny)))"
    by code_simp
  moreover have "events (snd (sample_run Deny)) = events start_session @
      [ToolDecision Approved UserSource, Attempted (sample_first Deny), SandboxOutcome (lit ''denied'')]"
    by (simp add: sample_run_denied_events start_events)
  ultimately have "\<not> is_escalated (oc_paths sample_orchestrator_context) (sample_first Deny)"
    using denied_reads_keep_sandbox[OF sample_run_pair sample_run_facts(1,2,4)] by (metis list.set_intros)
  then show ?thesis by (simp add: sample_orchestrator_context_def)
qed

end
