(* ===== verification/Path_Text.thy ===== *)
theory Path_Text
  imports Path_Uri
begin

text \<open>
  Paths as text, \<open>utils/path-uri/src/api_path_string.rs\<close> and \<open>config_path.rs\<close>: how a URI is written as a
  native path of its convention and read back, and how the paths of configuration files are resolved. A
  \<open>LegacyAppPathString\<close> is its string. UTF-8 and UTF-16 are decoded as the standard library does it, with
  U+FFFD for what is not valid. The names \<open>legacy_from_path_uri\<close> and \<open>legacy_to_path_uri\<close> are the methods of
  \<open>LegacyAppPathString\<close>.
\<close>

section \<open>Decoding text\<close>

definition is_continuation :: "nat \<Rightarrow> bool" where
  "is_continuation b \<longleftrightarrow> 128 \<le> b \<and> b < 192"

text \<open>The second byte of a sequence of three or four, by its first byte.\<close>

definition valid_second :: "nat \<Rightarrow> nat \<Rightarrow> bool" where
  "valid_second a b \<longleftrightarrow>
     is_continuation b \<and> (a = 224 \<longrightarrow> 160 \<le> b) \<and> (a = 237 \<longrightarrow> b < 160) \<and> (a = 240 \<longrightarrow> 144 \<le> b) \<and> (a = 244 \<longrightarrow> b < 144)"

text \<open>
  One step of the decoder: the next character, or \<open>None\<close> for an invalid sequence, which is the longest
  prefix of a valid one and at least one byte, and the bytes after it.
\<close>

fun utf8_next :: "nat \<Rightarrow> rbytes \<Rightarrow> rchar option \<times> rbytes" where
  "utf8_next a s =
     (if a < 128 then (Some a, s)
      else if a < 194 \<or> 244 < a then (None, s)
      else (case s of
              [] \<Rightarrow> (None, s)
            | b # s1 \<Rightarrow>
                if a < 224 then (if is_continuation b then (Some ((a - 192) * 64 + (b - 128)), s1) else (None, s))
                else if \<not> valid_second a b then (None, s)
                else (case s1 of
                        [] \<Rightarrow> (None, s1)
                      | c # s2 \<Rightarrow>
                          if \<not> is_continuation c then (None, s1)
                          else if a < 240 then (Some ((a - 224) * 4096 + (b - 128) * 64 + (c - 128)), s2)
                          else (case s2 of
                                  [] \<Rightarrow> (None, s2)
                                | d # s3 \<Rightarrow>
                                    if is_continuation d
                                    then (Some ((a - 240) * 262144 + (b - 128) * 4096 + (c - 128) * 64 + (d - 128)), s3)
                                    else (None, s2)))))"

lemma utf8_next_length: "length (snd (utf8_next a s)) \<le> length s"
  by (auto split: list.splits)

declare utf8_next.simps [simp del]

function utf8_chars :: "rbytes \<Rightarrow> rchar option list" where
  "utf8_chars [] = []"
| "utf8_chars (a # s) = fst (utf8_next a s) # utf8_chars (snd (utf8_next a s))"
  by pat_completeness auto
termination
  by (relation "measure length") (auto simp: utf8_next_length less_Suc_eq_le)

definition from_utf8_lossy :: "rbytes \<Rightarrow> rstr" where
  "from_utf8_lossy bytes = map (\<lambda>c. case c of Some ch \<Rightarrow> ch | None \<Rightarrow> 65533) (utf8_chars bytes)"

definition is_utf8 :: "rbytes \<Rightarrow> bool" where
  "is_utf8 bytes \<longleftrightarrow> None \<notin> set (utf8_chars bytes)"

fun from_utf16_lossy :: "nat list \<Rightarrow> rstr" where
  "from_utf16_lossy [] = []"
| "from_utf16_lossy [w] = [if 55296 \<le> w \<and> w < 57344 then 65533 else w]"
| "from_utf16_lossy (w # v # ws) =
     (if \<not> (55296 \<le> w \<and> w < 57344) then w # from_utf16_lossy (v # ws)
      else if w < 56320 \<and> 56320 \<le> v \<and> v < 57344
      then (65536 + (w - 55296) * 1024 + (v - 56320)) # from_utf16_lossy ws
      else 65533 # from_utf16_lossy (v # ws))"

section \<open>Errors\<close>

datatype legacy_path_error =
    OpaqueFallback rstr
  | IncompatibleConvention rstr path_convention
  | InvalidNativePath rstr "path_convention option"
  | UnsupportedConfigPath rstr path_convention
  | MissingBaseConvention rstr
  | MissingHomeDirectory rstr
  | MismatchedConvention rstr path_convention rstr path_convention
  | LegacyPathUri path_uri_parse_error

section \<open>Writing a URI as a native path\<close>

fun le_words :: "rbytes \<Rightarrow> nat list" where
  "le_words (a # b # bs) = (a + 256 * b) # le_words bs"
| "le_words _ = []"

definition is_windows_separator :: "nat \<Rightarrow> bool" where
  "is_windows_separator c \<longleftrightarrow> c = 92 \<or> c = 47"

definition rooted_wide :: "nat list \<Rightarrow> bool" where
  "rooted_wide path_wide \<longleftrightarrow>
     (case path_wide of
        d # c # s # _ \<Rightarrow> is_ascii_alphabetic d \<and> c = 58 \<and> is_windows_separator s
      | _ \<Rightarrow> False) \<or>
     (case path_wide of a # b # _ \<Rightarrow> is_windows_separator a \<and> is_windows_separator b | _ \<Rightarrow> False)"

definition render_windows_opaque_fallback :: "rbytes \<Rightarrow> rstr option" where
  "render_windows_opaque_fallback path_bytes =
     (if odd (length path_bytes) then None
      else if rooted_wide (le_words path_bytes) then Some (from_utf16_lossy (le_words path_bytes)) else None)"

definition render_opaque_fallback ::
    "'url url_library \<Rightarrow> 'url \<Rightarrow> rbytes \<Rightarrow> path_convention \<Rightarrow> (rstr, legacy_path_error) result" where
  "render_opaque_fallback lib u path_bytes convention =
     (case (case convention of
              PosixPath \<Rightarrow> if starts_with path_bytes [47] then Some (from_utf8_lossy path_bytes) else None
            | WindowsPath \<Rightarrow> render_windows_opaque_fallback path_bytes) of
        Some rendered \<Rightarrow> Ok rendered
      | None \<Rightarrow> Err (OpaqueFallback (url_as_str lib u)))"

definition decode_native_segment :: "'url url_library \<Rightarrow> rstr \<Rightarrow> rstr" where
  "decode_native_segment lib segment = from_utf8_lossy (decode_binary lib segment)"

definition render_posix_path :: "'url url_library \<Rightarrow> 'url \<Rightarrow> (rstr, legacy_path_error) result" where
  "render_posix_path lib u =
     (if url_host_str lib u \<noteq> None then Err (IncompatibleConvention (url_as_str lib u) PosixPath)
      else Ok (concat (map (\<lambda>s. 47 # decode_native_segment lib s) (url_path_segments lib u))))"

definition windows_root :: "'url url_library \<Rightarrow> 'url \<Rightarrow> rstr \<Rightarrow> rstr option" where
  "windows_root lib u segment =
     (let s = decode_native_segment lib segment
      in case url_host_str lib u of
           Some h \<Rightarrow> if s = [] then None else Some ([92, 92] @ h @ [92] @ s)
         | None \<Rightarrow> (case s of [d, c] \<Rightarrow> if is_ascii_alphabetic d \<and> c = 58 then Some s else None | _ \<Rightarrow> None))"

definition render_windows_path :: "'url url_library \<Rightarrow> 'url \<Rightarrow> (rstr, legacy_path_error) result" where
  "render_windows_path lib u =
     (case (case url_path_segments lib u of [] \<Rightarrow> None | s # ss \<Rightarrow> map_option (\<lambda>r. (r, ss)) (windows_root lib u s)) of
        None \<Rightarrow> Err (IncompatibleConvention (url_as_str lib u) WindowsPath)
      | Some (root, ss) \<Rightarrow>
          (let rendered = root @ concat (map (\<lambda>s. 92 # decode_native_segment lib s) ss)
           in Ok (if length rendered = 2 \<and> rendered ! 1 = 58 then rendered @ [92] else rendered)))"

definition legacy_from_path_uri ::
    "'url url_library \<Rightarrow> 'url \<Rightarrow> path_convention \<Rightarrow> (rstr, legacy_path_error) result" where
  "legacy_from_path_uri lib u convention =
     (case decode_bad_path_uri lib u of
        Some path_bytes \<Rightarrow> render_opaque_fallback lib u path_bytes convention
      | None \<Rightarrow> (case convention of PosixPath \<Rightarrow> render_posix_path lib u | WindowsPath \<Rightarrow> render_windows_path lib u))"

definition inferred_native_path_string :: "'url url_library \<Rightarrow> 'url \<Rightarrow> rstr" where
  "inferred_native_path_string lib u =
     (case Option.bind (infer_path_convention lib u)
             (\<lambda>convention. case legacy_from_path_uri lib u convention of Ok s \<Rightarrow> Some s | Err _ \<Rightarrow> None) of
        Some s \<Rightarrow> s
      | None \<Rightarrow> url_as_str lib u)"

section \<open>Reading a native path\<close>

definition legacy_to_path_uri ::
    "'url url_library \<Rightarrow> rstr \<Rightarrow> path_convention \<Rightarrow> ('url, legacy_path_error) result" where
  "legacy_to_path_uri lib path convention =
     (case from_absolute_native_path lib path convention of
        Some u \<Rightarrow> Ok u
      | None \<Rightarrow> Err (InvalidNativePath path (Some convention)))"

definition infer_absolute_path_convention :: "rstr \<Rightarrow> path_convention option" where
  "infer_absolute_path_convention path =
     (if is_windows_drive_absolute_path path \<or> starts_with path [92, 92] then Some WindowsPath
      else if starts_with path [47] then Some PosixPath
      else None)"

definition legacy_try_from :: "'url url_library \<Rightarrow> rstr \<Rightarrow> ('url, legacy_path_error) result" where
  "legacy_try_from lib path =
     (case infer_absolute_path_convention path of
        None \<Rightarrow> Err (InvalidNativePath path None)
      | Some convention \<Rightarrow>
          (case from_absolute_native_path lib path convention of
             Some u \<Rightarrow> Ok u
           | None \<Rightarrow> Err (InvalidNativePath path (Some convention))))"

definition render_for_ui :: "'url url_library \<Rightarrow> rstr \<Rightarrow> rstr" where
  "render_for_ui lib path =
     (case legacy_try_from lib path of Ok u \<Rightarrow> inferred_native_path_string lib u | Err _ \<Rightarrow> path)"

definition trim_separators :: "path_convention \<Rightarrow> rstr \<Rightarrow> rstr" where
  "trim_separators convention = dropWhile (\<lambda>c. c = 47 \<or> convention = WindowsPath \<and> c = 92)"

definition resolve_against ::
    "'url url_library \<Rightarrow> rstr \<Rightarrow> 'url \<Rightarrow> 'url option \<Rightarrow> ('url, legacy_path_error) result" where
  "resolve_against lib path cwd user_home_dir =
     (case infer_path_convention lib cwd of
        None \<Rightarrow> Err (MissingBaseConvention (url_as_str lib cwd))
      | Some convention \<Rightarrow>
          (case home_relative_suffix convention path of
             Some sfx \<Rightarrow>
               (case user_home_dir of
                  None \<Rightarrow> Err (MissingHomeDirectory path)
                | Some home \<Rightarrow> map_err LegacyPathUri (uri_join lib home (trim_separators convention sfx)))
           | None \<Rightarrow>
               if convention = WindowsPath \<and> (starts_with path [47, 47] \<or> starts_with path [92, 92])
               then legacy_to_path_uri lib path WindowsPath
               else (case infer_absolute_path_convention path of
                       Some path_convention \<Rightarrow>
                         if path_convention = convention then legacy_to_path_uri lib path convention
                         else if path_convention = PosixPath \<and> convention = WindowsPath
                         then map_err LegacyPathUri (uri_join lib cwd path)
                         else Err (MismatchedConvention path path_convention (url_as_str lib cwd) convention)
                     | None \<Rightarrow> map_err LegacyPathUri (uri_join lib cwd path))))"

section \<open>Paths of configuration files\<close>

definition contains_glob_metacharacter :: "rstr \<Rightarrow> bool" where
  "contains_glob_metacharacter path \<longleftrightarrow> list_ex (\<lambda>c. c \<in> {42, 63, 91, 93, 123, 125}) path"

text \<open>The rest of the first segment after a drive letter.\<close>

definition drive_rest :: "rstr \<Rightarrow> rstr" where
  "drive_rest segment =
     (case segment of d # c # s \<Rightarrow> if is_ascii_alphabetic d \<and> c = 58 then s else segment | _ \<Rightarrow> segment)"

definition has_windows_component_colon :: "rstr \<Rightarrow> bool" where
  "has_windows_component_colon native_input \<longleftrightarrow>
     (case convention_path_segments WindowsPath native_input of
        [] \<Rightarrow> False
      | s # ss \<Rightarrow> list_ex (\<lambda>t. 58 \<in> set t) (drive_rest s # ss))"

definition mixed_home_separators :: "rstr \<Rightarrow> bool" where
  "mixed_home_separators input \<longleftrightarrow>
     (case home_relative_suffix WindowsPath input of
        None \<Rightarrow> False
      | Some sfx \<Rightarrow>
          starts_with sfx [47] \<and> starts_with (dropWhile (\<lambda>c. c = 47) sfx) [92] \<or>
          starts_with sfx [92] \<and> starts_with (dropWhile (\<lambda>c. c = 92) sfx) [47])"

definition validate_config_path_text :: "rstr \<Rightarrow> path_convention \<Rightarrow> (unit, legacy_path_error) result" where
  "validate_config_path_text input convention =
     (let native_input = (case normalize_windows_device_path input of Some n \<Rightarrow> n | None \<Rightarrow> input);
          windows = (convention = WindowsPath)
      in if 0 \<in> set input \<or>
            windows \<and> has_windows_component_colon native_input \<or>
            windows \<and> mixed_home_separators input \<or>
            windows \<and> (case native_input of [d, c] \<Rightarrow> c = 58 \<and> is_ascii_alphabetic d | _ \<Rightarrow> False)
         then Err (UnsupportedConfigPath input convention) else Ok ())"

definition validate_config_path :: "'url url_library \<Rightarrow> 'url \<Rightarrow> path_convention \<Rightarrow> (unit, legacy_path_error) result" where
  "validate_config_path lib u convention =
     (if infer_path_convention lib u \<noteq> Some convention
      then Err (IncompatibleConvention (url_as_str lib u) convention)
      else let bytes = decode_binary lib (url_path lib u)
           in if lexical_depth lib u = None \<or> 0 \<in> set bytes \<or> \<not> is_utf8 bytes
              then Err (LegacyPathUri (InvalidFileUriPath (url_as_str lib u)))
              else bind_result (legacy_from_path_uri lib u convention) (\<lambda>path.
                     validate_config_path_text path convention))"

definition validate_glob_directory :: "'url url_library \<Rightarrow> 'url \<Rightarrow> path_convention \<Rightarrow> (unit, legacy_path_error) result" where
  "validate_glob_directory lib u convention =
     bind_result (validate_config_path lib u convention) (\<lambda>_.
     bind_result (legacy_from_path_uri lib u convention) (\<lambda>path.
       if contains_glob_metacharacter path \<or> convention = PosixPath \<and> 92 \<in> set path
       then Err (UnsupportedConfigPath path convention) else Ok ()))"

definition config_path_base ::
    "'url url_library \<Rightarrow> rstr \<Rightarrow> path_convention \<Rightarrow> 'url \<Rightarrow> 'url option \<Rightarrow> ('url, legacy_path_error) result" where
  "config_path_base lib input convention base home =
     bind_result (validate_config_path lib base convention) (\<lambda>_.
     bind_result (if contains_glob_metacharacter input then validate_glob_directory lib base convention else Ok ()) (\<lambda>_.
       resolve_against lib input base home))"

definition resolve_config_path_uri ::
    "'url url_library \<Rightarrow> rstr \<Rightarrow> path_convention \<Rightarrow> 'url option \<Rightarrow> 'url option \<Rightarrow> ('url, legacy_path_error) result" where
  "resolve_config_path_uri lib input convention base user_home_dir =
     bind_result (validate_config_path_text input convention) (\<lambda>_.
     bind_result
       (if home_relative_suffix convention input \<noteq> None then
          (case user_home_dir of
             None \<Rightarrow> Err (MissingHomeDirectory input)
           | Some home \<Rightarrow> config_path_base lib input convention home (Some home))
        else
          (case legacy_to_path_uri lib input convention of
             Ok absolute \<Rightarrow> Ok absolute
           | Err e \<Rightarrow>
               (case base of None \<Rightarrow> Err e | Some b \<Rightarrow> config_path_base lib input convention b None))) (\<lambda>resolved.
     bind_result (validate_config_path lib resolved convention) (\<lambda>_.
       map_err LegacyPathUri (uri_join lib resolved (lit ''.'')))))"

definition to_config_path_string ::
    "'url url_library \<Rightarrow> 'url \<Rightarrow> path_convention \<Rightarrow> (rstr, legacy_path_error) result" where
  "to_config_path_string lib u convention =
     bind_result (legacy_from_path_uri lib u convention) (\<lambda>rendered.
       Ok (if url_host_str lib u \<noteq> None \<and> uri_parent lib u = None then rendered @ [92] else rendered))"

definition resolve_config_path ::
    "'url url_library \<Rightarrow> rstr \<Rightarrow> path_convention \<Rightarrow> 'url option \<Rightarrow> 'url option \<Rightarrow> (rstr, legacy_path_error) result" where
  "resolve_config_path lib input convention base user_home_dir =
     bind_result (resolve_config_path_uri lib input convention base user_home_dir) (\<lambda>u.
       to_config_path_string lib u convention)"

section \<open>Writing and reading back\<close>

definition utf8_encode_char :: "rchar \<Rightarrow> rbytes" where
  "utf8_encode_char c =
     (if c < 128 then [c]
      else if c < 2048 then [192 + c div 64, 128 + c mod 64]
      else if c < 65536 then [224 + c div 4096, 128 + c div 64 mod 64, 128 + c mod 64]
      else [240 + c div 262144, 128 + c div 4096 mod 64, 128 + c div 64 mod 64, 128 + c mod 64])"

lemma utf8_next_encode:
  assumes "c < 1114112" "\<not> (55296 \<le> c \<and> c < 57344)"
  shows "\<exists>a s. utf8_encode_char c @ r = a # s \<and> utf8_next a s = (Some c, r)"
proof -
  define x where "x = c mod 64"
  define y where "y = c div 64 mod 64"
  define z where "z = c div 4096 mod 64"
  define w where "w = c div 262144"
  have "c div 4096 = c div 64 div 64" "c div 262144 = c div 64 div 64 div 64"
    by (simp_all add: div_mult2_eq[symmetric])
  then have c: "c = c div 64 * 64 + x" "c div 64 = c div 4096 * 64 + y" "c div 4096 = w * 64 + z"
    unfolding x_def y_def z_def w_def by (simp_all add: div_mult_mod_eq)
  have lt: "x < 64" "y < 64" "z < 64" by (simp_all add: x_def y_def z_def)
  have c: "c = w * 262144 + z * 4096 + y * 64 + x" "c div 64 = w * 4096 + z * 64 + y" "c div 4096 = w * 64 + z"
    using c by linarith+
  note enc = utf8_encode_char_def[of c, folded x_def y_def z_def w_def, unfolded c(2,3)]
  note step = utf8_next.simps is_continuation_def valid_second_def
  consider (one) "c < 128" | (two) "128 \<le> c" "c < 2048" | (three) "2048 \<le> c" "c < 65536" | (four) "65536 \<le> c" by linarith
  then show ?thesis
  proof cases
    case one
    then show ?thesis by (simp add: utf8_encode_char_def utf8_next.simps)
  next
    case two
    have small: "w = 0" "z = 0" "y < 32" using two(2) unfolding c(1) by linarith+
    have val: "2 \<le> y" "c = y * 64 + x" using two(1) lt small c(1) by linarith+
    have "utf8_next (192 + y) ((128 + x) # r) = (Some (y * 64 + x), r)" using val(1) small(3) lt by (simp add: step)
    moreover have "utf8_encode_char c = [192 + y, 128 + x]" using enc two small by simp
    ultimately show ?thesis using val(2) by simp
  next
    case three
    have small: "w = 0" "z < 16" using three(2) unfolding c(1) by linarith+
    then have val: "c = z * 4096 + y * 64 + x" using c(1) by simp
    have "0 < z \<or> 32 \<le> y" "z = 13 \<longrightarrow> y < 32" using three assms(2) lt small val by linarith+
    then have "utf8_next (224 + z) ((128 + y) # (128 + x) # r) = (Some (z * 4096 + y * 64 + x), r)"
      using small(2) lt by (simp add: step)
    moreover have "utf8_encode_char c = [224 + z, 128 + y, 128 + x]" using enc three small by simp
    ultimately show ?thesis using val by simp
  next
    case four
    have "w < 5" "w = 4 \<longrightarrow> z < 16" using assms(1) lt unfolding c(1) by linarith+
    moreover have "0 < w \<or> 16 \<le> z" using four lt unfolding c(1) by linarith
    ultimately have "utf8_next (240 + w) ((128 + z) # (128 + y) # (128 + x) # r) =
        (Some (w * 262144 + z * 4096 + y * 64 + x), r)"
      using lt by (simp add: step)
    moreover have "utf8_encode_char c = [240 + w, 128 + z, 128 + y, 128 + x]" using enc four by simp
    ultimately show ?thesis using c(1) by simp
  qed
qed

text \<open>The decoder gives back what was encoded, for all Unicode scalar values.\<close>

lemma from_utf8_lossy_encode:
  "list_all (\<lambda>c. c < 1114112 \<and> \<not> (55296 \<le> c \<and> c < 57344)) s \<Longrightarrow>
     from_utf8_lossy (concat (map utf8_encode_char s)) = s \<and> is_utf8 (concat (map utf8_encode_char s))"
proof (induction s)
  case (Cons c s)
  obtain a r where "utf8_encode_char c @ concat (map utf8_encode_char s) = a # r"
    "utf8_next a r = (Some c, concat (map utf8_encode_char s))"
    using utf8_next_encode[of c "concat (map utf8_encode_char s)"] Cons.prems by auto
  then show ?case using Cons by (simp add: from_utf8_lossy_def is_utf8_def)
qed (simp add: from_utf8_lossy_def is_utf8_def)

lemma utf8_chars_ascii: "list_all (\<lambda>c. c < 128) s \<Longrightarrow> utf8_chars s = map Some s"
  by (induction s) (auto simp: utf8_next.simps)

lemma from_utf8_lossy_ascii: "list_all (\<lambda>c. c < 128) s \<Longrightarrow> from_utf8_lossy s = s"
  by (simp add: from_utf8_lossy_def utf8_chars_ascii comp_def)

lemma slash_not_drive [simp]: "\<not> is_windows_drive_absolute_path (47 # path)"
  by (cases "47 # path" rule: is_windows_drive_absolute_path.cases) (auto simp: is_ascii_alphabetic_def)

lemma plain_segment_ascii: "plain_segment t \<Longrightarrow> list_all (\<lambda>c. c < 128) t"
  by (auto simp: plain_segment_def list_all_iff)

text \<open>
  A POSIX path keeps its spelling: an absolute path of plain segments, none of them \<open>.\<close> or \<open>..\<close> and the
  first not of the form of a drive, is read as a URI and written again as the same text, for the API, for
  the user interface and under the convention that the URI itself suggests.
\<close>

theorem native_path_round_trip:
  assumes "url_laws lib" "list_all plain_segment ts" "ts \<noteq> []" "length (hd ts) \<noteq> 2"
  shows "\<exists>u. legacy_to_path_uri lib (path_of_segments ts) PosixPath = Ok u \<and>
    legacy_from_path_uri lib u PosixPath = Ok (path_of_segments ts) \<and>
    inferred_native_path_string lib u = path_of_segments ts \<and>
    render_for_ui lib (path_of_segments ts) = path_of_segments ts"
proof -
  obtain u where u: "from_absolute_native_path lib (path_of_segments ts) PosixPath = Some u" "clean_uri lib u"
    "map (decode_binary lib) (url_path_segments lib u) = ts"
    using posix_absolute_path[OF assms] by blast
  have "map (decode_native_segment lib) (url_path_segments lib u) = map from_utf8_lossy ts"
    unfolding u(3)[symmetric] by (simp add: decode_native_segment_def)
  also have "\<dots> = ts"
    using assms(2) from_utf8_lossy_ascii[OF plain_segment_ascii] by (intro map_idI) (auto simp: list_all_iff)
  finally have eq: "ts = map (decode_native_segment lib) (url_path_segments lib u)" by simp
  have "concat (map (\<lambda>s. 47 # decode_native_segment lib s) (url_path_segments lib u)) = path_of_segments ts"
    by (subst eq) (simp add: path_of_segments_def comp_def)
  moreover have "decode_bad_path_uri lib u = None" "url_host_str lib u = None" "infer_path_convention lib u = Some PosixPath"
    using u(2) posix_uriD[of lib u] by (auto simp: clean_uri_def is_opaque_def)
  ultimately have r: "legacy_from_path_uri lib u PosixPath = Ok (path_of_segments ts)"
      "inferred_native_path_string lib u = path_of_segments ts"
    by (simp_all add: legacy_from_path_uri_def render_posix_path_def inferred_native_path_string_def)
  moreover have "infer_absolute_path_convention (path_of_segments ts) = Some PosixPath"
    using assms(3) by (cases ts) (auto simp: infer_absolute_path_convention_def path_of_segments_def starts_with_def)
  ultimately show ?thesis
    using u(1) by (simp add: legacy_to_path_uri_def render_for_ui_def legacy_try_from_def)
qed

lemma native_path_round_trip_witness:
  "\<exists>u. legacy_to_path_uri sample_library (lit ''/usr/bin'') PosixPath = Ok u \<and>
     legacy_from_path_uri sample_library u PosixPath = Ok (lit ''/usr/bin'')"
proof -
  have "list_all plain_segment [lit ''usr'', lit ''bin'']" "length (hd [lit ''usr'', lit ''bin'']) \<noteq> 2"
    "path_of_segments [lit ''usr'', lit ''bin''] = lit ''/usr/bin''"
    by (simp_all add: plain_segment_def dot_segment_def path_of_segments_def lit_def)
  then show ?thesis
    using native_path_round_trip[OF sample_library_laws, of "[lit ''usr'', lit ''bin'']"] by auto
qed

end
