(* ===== verification/Permission_Grants.thy ===== *)
theory Permission_Grants
  imports Sandbox_Manager Path_Text
begin

text \<open>
  Permissions that a command asks for and the user grants, the rest of
  \<open>sandboxing/src/policy_transforms.rs\<close>: entries are made concrete for an executor, and what is granted is
  cut down to what was requested. With it the matcher for denied reads of \<open>protocol/src/permissions.rs\<close>.

  The crate \<open>globset\<close> is a parameter, the type \<open>glob_builder\<close>. Entries are compared as the model compares
  paths, which on POSIX is how the code compares them.
\<close>

section \<open>Denied reads\<close>

text \<open>
  The builder of a glob with \<open>literal_separator\<close> and \<open>allow_unclosed_class\<close>: whether a backslash escapes,
  whether case is ignored, and the pattern. It fails on an invalid pattern.
\<close>

type_synonym glob_builder = "bool \<Rightarrow> bool \<Rightarrow> rstr \<Rightarrow> (rbytes \<Rightarrow> bool) option"

definition slashes :: "rstr \<Rightarrow> rstr" where
  "slashes = map (\<lambda>c. if c = 92 then 47 else c)"

definition build_glob_matcher :: "glob_builder \<Rightarrow> rstr \<Rightarrow> path_convention \<Rightarrow> (rbytes \<Rightarrow> bool) option" where
  "build_glob_matcher globs pat convention =
     globs (convention = PosixPath) (convention = WindowsPath)
       (if convention = WindowsPath then slashes pat else pat)"

datatype glob_error =
    GlobWithoutHome rstr
  | BadGlobDirectory legacy_path_error
  | UnresolvedGlob rstr
  | InvalidGlob rstr

definition deny_read_glob :: "'url url_library \<Rightarrow> 'url policy_context \<Rightarrow> rstr \<Rightarrow> (rstr, glob_error) result" where
  "deny_read_glob lib ctx pat =
     (let convention = (if infer_path_convention lib (ctx_cwd ctx) = Some WindowsPath then WindowsPath else PosixPath);
          home_relative = (case strip_prefix (lit ''~/'') pat of
                             Some sfx \<Rightarrow> Some sfx
                           | None \<Rightarrow> if convention = WindowsPath then strip_prefix [126, 92] pat else None)
      in bind_result
           (case home_relative of
              Some sfx \<Rightarrow>
                (case ctx_user_home_dir ctx of
                   Some home \<Rightarrow> Ok (home, trim_separators convention sfx)
                 | None \<Rightarrow> Err (GlobWithoutHome pat))
            | None \<Rightarrow> Ok (ctx_cwd ctx, pat))
           (\<lambda>(root, gpat).
              bind_result
                (case legacy_to_path_uri lib gpat convention of
                   Ok _ \<Rightarrow> Ok ()
                 | Err _ \<Rightarrow> map_err BadGlobDirectory (validate_glob_directory lib root convention))
                (\<lambda>_. case uri_join lib root gpat of
                       Ok path \<Rightarrow> Ok (inferred_native_path_string lib path)
                     | Err _ \<Rightarrow> Err (UnresolvedGlob gpat))))"

definition deny_glob_patterns :: "'u file_system_sandbox_policy \<Rightarrow> rstr list" where
  "deny_glob_patterns p =
     List.map_filter (\<lambda>e. case entry_path e of GlobPattern pat \<Rightarrow> Some pat | _ \<Rightarrow> None)
       (filter (\<lambda>e. entry_access e = Deny) (policy_entries p))"

fun collect_results :: "('a, 'e) result list \<Rightarrow> ('a list, 'e) result" where
  "collect_results [] = Ok []"
| "collect_results (r # rs) = bind_result r (\<lambda>x. bind_result (collect_results rs) (\<lambda>xs. Ok (x # xs)))"

definition deny_read_globs ::
    "'url url_library \<Rightarrow> 'url policy_context \<Rightarrow> 'url file_system_sandbox_policy \<Rightarrow> (rstr list, glob_error) result" where
  "deny_read_globs lib ctx p = collect_results (map (deny_read_glob lib ctx) (deny_glob_patterns p))"

datatype invalid_deny_read_glob_behavior = FailClosed | ReturnError

record 'url prepared_read_deny_matcher =
  denied_roots :: "'url list"
  deny_read_matchers :: "(rbytes \<Rightarrow> bool) list"
  invalid_pattern :: bool

fun build_matchers ::
    "glob_builder \<Rightarrow> path_convention \<Rightarrow> invalid_deny_read_glob_behavior \<Rightarrow> rstr list \<Rightarrow> (rbytes \<Rightarrow> bool) list \<Rightarrow> bool \<Rightarrow>
     ((rbytes \<Rightarrow> bool) list \<times> bool, glob_error) result" where
  "build_matchers globs convention behavior [] matchers invalid = Ok (matchers, invalid)"
| "build_matchers globs convention behavior (pat # ps) matchers invalid =
     (case build_glob_matcher globs pat convention of
        Some m \<Rightarrow> build_matchers globs convention behavior ps (matchers @ [m]) invalid
      | None \<Rightarrow>
          (case behavior of
             FailClosed \<Rightarrow> build_matchers globs convention behavior ps matchers True
           | ReturnError \<Rightarrow> Err (InvalidGlob pat)))"

definition prepared_denied_roots ::
    "'url url_library \<Rightarrow> 'url policy_context \<Rightarrow> 'url file_system_sandbox_policy \<Rightarrow> 'url list" where
  "prepared_denied_roots lib ctx p =
     map fst (filter (\<lambda>(root, access). access = Deny \<and>
                 \<not> (case file_system_root lib ctx of
                      Some r \<Rightarrow> uri_starts_with lib root r \<and> uri_starts_with lib r root
                    | None \<Rightarrow> False)) (resolved_entries lib ctx p))"

definition prepare_deny_read_matcher ::
    "'url url_library \<Rightarrow> glob_builder \<Rightarrow> 'url policy_context \<Rightarrow> invalid_deny_read_glob_behavior \<Rightarrow>
     'url file_system_sandbox_policy \<Rightarrow> ('url prepared_read_deny_matcher, glob_error) result" where
  "prepare_deny_read_matcher lib globs ctx behavior p =
     (let closed = \<lparr>denied_roots = prepared_denied_roots lib ctx p, deny_read_matchers = [], invalid_pattern = True\<rparr>
      in case infer_path_convention lib (ctx_cwd ctx) of
           None \<Rightarrow> Ok closed
         | Some convention \<Rightarrow>
             (case deny_read_globs lib ctx p of
                Err e \<Rightarrow> (case behavior of FailClosed \<Rightarrow> Ok closed | ReturnError \<Rightarrow> Err e)
              | Ok patterns \<Rightarrow>
                  bind_result (build_matchers globs convention behavior patterns [] False) (\<lambda>(matchers, invalid).
                    Ok (closed\<lparr>deny_read_matchers := matchers, invalid_pattern := invalid\<rparr>))))"

definition matches_prepared_read_deny ::
    "'url url_library \<Rightarrow> 'url policy_context \<Rightarrow> 'url prepared_read_deny_matcher \<Rightarrow> 'url \<Rightarrow> bool" where
  "matches_prepared_read_deny lib ctx prepared path =
     (case infer_path_convention lib (ctx_cwd ctx) of
        None \<Rightarrow> True
      | Some convention \<Rightarrow>
          infer_path_convention lib path \<noteq> Some convention \<or> lexical_depth lib path = None \<or>
          lexical_depth lib (ctx_cwd ctx) = None \<or> invalid_pattern prepared \<or>
          list_ex (uri_starts_with lib path) (denied_roots prepared) \<or>
          list_ex (\<lambda>m. m (case convention of
                             PosixPath \<Rightarrow> decode_binary lib (url_path lib path)
                           | WindowsPath \<Rightarrow> utf8_bytes lib (slashes (inferred_native_path_string lib path))))
            (deny_read_matchers prepared))"

text \<open>\<open>ReadDenyMatcher::from_context\<close>, which fails closed, and the question it answers.\<close>

definition read_deny_matcher ::
    "'url url_library \<Rightarrow> glob_builder \<Rightarrow> 'url policy_context \<Rightarrow> 'url file_system_sandbox_policy \<Rightarrow>
     'url prepared_read_deny_matcher option" where
  "read_deny_matcher lib globs ctx p =
     (if list_ex (\<lambda>e. entry_access e = Deny) (policy_entries p)
      then (case prepare_deny_read_matcher lib globs ctx FailClosed p of Ok m \<Rightarrow> Some m | Err _ \<Rightarrow> None)
      else None)"

section \<open>Entries for an executor\<close>

fun resolve_permission_path :: "'url url_library \<Rightarrow> 'url policy_context \<Rightarrow> 'url file_system_path \<Rightarrow> 'url option" where
  "resolve_permission_path lib ctx (PathEntry path) = Some path"
| "resolve_permission_path lib ctx (GlobPattern _) = None"
| "resolve_permission_path lib ctx (Special Root) = file_system_root lib ctx"
| "resolve_permission_path lib ctx (Special (ProjectRoots subpath)) =
     (case ctx_workspace_roots ctx of
        [] \<Rightarrow> None
      | root # _ \<Rightarrow>
          (case subpath of
             None \<Rightarrow> Some root
           | Some s \<Rightarrow> (case uri_join lib root s of Ok path \<Rightarrow> Some path | Err _ \<Rightarrow> None)))"
| "resolve_permission_path lib ctx (Special Tmpdir) =
     (case ctx_temporary_directories ctx of Some (d # _) \<Rightarrow> Some d | _ \<Rightarrow> None)"
| "resolve_permission_path lib ctx (Special SlashTmp) =
     (if infer_path_convention lib (ctx_cwd ctx) = Some PosixPath
      then (case uri_join lib (ctx_cwd ctx) (lit ''/tmp'') of Ok path \<Rightarrow> Some path | Err _ \<Rightarrow> None) else None)"
| "resolve_permission_path lib ctx (Special Minimal) = None"
| "resolve_permission_path lib ctx (Special (UnknownSpecial _ _)) = None"

definition materialize_glob :: "'url url_library \<Rightarrow> 'url policy_context \<Rightarrow> rstr \<Rightarrow> rstr option" where
  "materialize_glob lib ctx pat =
     (let convention = (if infer_path_convention lib (ctx_cwd ctx) = Some WindowsPath then WindowsPath else PosixPath);
          home_relative = (case strip_prefix (lit ''~/'') pat of
                             Some sfx \<Rightarrow> Some sfx
                           | None \<Rightarrow> if pat = lit ''~'' then Some []
                                     else if convention = WindowsPath then strip_prefix [126, 92] pat else None)
      in Option.bind
           (case home_relative of
              Some sfx \<Rightarrow> map_option (\<lambda>home. (home, trim_separators convention sfx)) (ctx_user_home_dir ctx)
            | None \<Rightarrow> Some (ctx_cwd ctx, pat))
           (\<lambda>(root, gpat). case uri_join lib root gpat of
                             Ok path \<Rightarrow> Some (inferred_native_path_string lib path)
                           | Err _ \<Rightarrow> None))"

definition materialize_cwd_dependent_entry ::
    "'url url_library \<Rightarrow> 'url policy_context \<Rightarrow> 'url file_system_sandbox_entry \<Rightarrow> 'url file_system_sandbox_entry option" where
  "materialize_cwd_dependent_entry lib ctx e =
     (case entry_path e of
        GlobPattern pat \<Rightarrow> map_option (\<lambda>g. e\<lparr>entry_path := GlobPattern g\<rparr>) (materialize_glob lib ctx pat)
      | _ \<Rightarrow> Some e)"

definition materialized_path_entry :: "'url file_system_sandbox_entry \<Rightarrow> 'url \<Rightarrow> 'url file_system_sandbox_entry" where
  "materialized_path_entry e path = e\<lparr>entry_path := PathEntry path\<rparr>"

text \<open>The loop over the workspace roots: a root that a denial cannot be placed in fails, others are skipped.\<close>

fun materialize_roots ::
    "'url url_library \<Rightarrow> 'url policy_context \<Rightarrow> 'url file_system_sandbox_entry \<Rightarrow> 'url list \<Rightarrow>
     'url file_system_sandbox_entry list option" where
  "materialize_roots lib ctx e [] = Some []"
| "materialize_roots lib ctx e (root # roots) =
     (case resolve_permission_path lib (ctx\<lparr>ctx_workspace_roots := [root]\<rparr>) (entry_path e) of
        Some path \<Rightarrow> map_option (\<lambda>es. materialized_path_entry e path # es) (materialize_roots lib ctx e roots)
      | None \<Rightarrow> if entry_access e = Deny then None else materialize_roots lib ctx e roots)"

definition materialize_entry ::
    "'url url_library \<Rightarrow> 'url policy_context \<Rightarrow> 'url file_system_sandbox_entry \<Rightarrow> 'url file_system_sandbox_entry list option" where
  "materialize_entry lib ctx e =
     (case entry_path e of
        Special (ProjectRoots _) \<Rightarrow>
          Option.bind (materialize_roots lib ctx e (ctx_workspace_roots ctx)) (\<lambda>resolved.
            if entry_access e = Deny \<and> resolved = [] then None else Some resolved)
      | Special Tmpdir \<Rightarrow>
          (case ctx_temporary_directories ctx of
             None \<Rightarrow> if entry_access e = Deny then None else Some [e]
           | Some ds \<Rightarrow> Some (map (materialized_path_entry e) ds))
      | Special Root \<Rightarrow> if resolve_permission_path lib ctx (Special Root) = None then None else Some [e]
      | _ \<Rightarrow>
          (case materialize_cwd_dependent_entry lib ctx e of
             None \<Rightarrow> if entry_access e = Deny then None else Some []
           | Some e' \<Rightarrow> Some [e']))"

fun materialize_context_dependent_entries ::
    "'url url_library \<Rightarrow> 'url policy_context \<Rightarrow> 'url file_system_sandbox_entry list \<Rightarrow>
     'url file_system_sandbox_entry list option" where
  "materialize_context_dependent_entries lib ctx [] = Some []"
| "materialize_context_dependent_entries lib ctx (e # es) =
     Option.bind (materialize_entry lib ctx e) (\<lambda>xs.
       map_option (\<lambda>ys. xs @ ys) (materialize_context_dependent_entries lib ctx es))"

definition unmatched_permission_path ::
    "'url url_library \<Rightarrow> 'url policy_context \<Rightarrow> 'url file_system_sandbox_entry \<Rightarrow> 'url option" where
  "unmatched_permission_path lib ctx e =
     (case entry_path e of
        PathEntry path \<Rightarrow>
          if infer_path_convention lib path = None \<or>
             infer_path_convention lib path \<noteq> infer_path_convention lib (ctx_cwd ctx) \<or>
             \<not> is_ok (uri_join lib path (lit ''.''))
          then Some path else None
      | _ \<Rightarrow> None)"

definition normalize_additional_permissions_with_context ::
    "'url url_library \<Rightarrow> 'url policy_context \<Rightarrow> 'url additional_permission_profile \<Rightarrow>
     ('url additional_permission_profile, rstr) result" where
  "normalize_additional_permissions_with_context lib ctx ap =
     bind_result (normalize_additional_permissions ap) (\<lambda>normalized.
       case Option.bind (ap_file_system normalized) (\<lambda>fs. find_map (unmatched_permission_path lib ctx) (fsp_entries fs)) of
         Some path \<Rightarrow>
           Err (lit ''permission path `'' @ url_as_str lib path @ lit ''` does not match executor cwd `'' @
                url_as_str lib (ctx_cwd ctx) @ lit ''`'')
       | None \<Rightarrow> Ok normalized)"

definition materialize_additional_permissions_with_context ::
    "'url url_library \<Rightarrow> 'url policy_context \<Rightarrow> 'url additional_permission_profile \<Rightarrow>
     ('url additional_permission_profile, rstr) result" where
  "materialize_additional_permissions_with_context lib ctx ap =
     bind_result
       (case ap_file_system ap of
          None \<Rightarrow> Ok ap
        | Some fs \<Rightarrow>
            (case materialize_context_dependent_entries lib ctx (fsp_entries fs) of
               None \<Rightarrow> Err (lit ''unable to resolve permission path in `'' @ url_as_str lib (ctx_cwd ctx) @ lit ''`'')
             | Some es \<Rightarrow> Ok (ap\<lparr>ap_file_system := Some (fs\<lparr>fsp_entries := es\<rparr>)\<rparr>)))
       (normalize_additional_permissions_with_context lib ctx)"

section \<open>Granting what was requested\<close>

fun access_covers :: "file_system_access_mode \<Rightarrow> file_system_access_mode \<Rightarrow> bool" where
  "access_covers requested Read = can_read requested"
| "access_covers requested Write = can_write requested"
| "access_covers requested Deny = False"

definition is_root_entry :: "'u file_system_sandbox_entry \<Rightarrow> bool" where
  "is_root_entry e \<longleftrightarrow> entry_path e = Special Root"

definition paths_overlap :: "'url url_library \<Rightarrow> 'url \<Rightarrow> 'url \<Rightarrow> bool" where
  "paths_overlap lib left right = (case uri_overlaps lib left right of Some b \<Rightarrow> b | None \<Rightarrow> True)"

definition glob_static_prefix_path :: "'url url_library \<Rightarrow> 'url policy_context \<Rightarrow> rstr \<Rightarrow> 'url option" where
  "glob_static_prefix_path lib ctx pat =
     (let is_windows = (infer_path_convention lib (ctx_cwd ctx) = Some WindowsPath);
          stem = takeWhile (\<lambda>c. c \<notin> {42, 63, 91, 93}) pat;
          wildcard = (length stem < length pat);
          wildcard_in_segment = (wildcard \<and> \<not> (ends_with stem [47] \<or> is_windows \<and> ends_with stem [92]))
      in if wildcard \<and> stem = [] then None
         else (case uri_join lib (ctx_cwd ctx) stem of
                 Err _ \<Rightarrow> None
               | Ok p \<Rightarrow> if wildcard_in_segment then uri_parent lib p else Some p))"

definition granted_file_system_entry_within_request ::
    "'url url_library \<Rightarrow> 'url policy_context \<Rightarrow> 'url file_system_sandbox_entry list \<Rightarrow> 'url file_system_sandbox_policy \<Rightarrow>
     'url prepared_read_deny_matcher option \<Rightarrow> 'url file_system_sandbox_entry \<Rightarrow> bool" where
  "granted_file_system_entry_within_request lib ctx requested requested_policy matcher e =
     (let convention = infer_path_convention lib (ctx_cwd ctx)
      in if \<not> can_read (entry_access e) \<or> entry_path e = Special SlashTmp \<and> convention \<noteq> Some PosixPath then False
         else if convention = Some WindowsPath \<and> is_root_entry e \<and>
                 \<not> list_ex (\<lambda>r. is_root_entry r \<and> access_covers (entry_access r) (entry_access e)) requested then False
         else (case resolve_permission_path lib ctx (entry_path e) of
                 Some path \<Rightarrow>
                   infer_path_convention lib path = convention \<and>
                   \<not> (case matcher of Some m \<Rightarrow> matches_prepared_read_deny lib ctx m path | None \<Rightarrow> False) \<and>
                   access_covers (resolve_access lib ctx requested_policy path) (entry_access e)
               | None \<Rightarrow>
                   list_ex (\<lambda>r. access_covers (entry_access r) (entry_access e) \<and> entry_path r = entry_path e) requested))"

definition deny_entry_constrains_accepted_grant ::
    "'url url_library \<Rightarrow> 'url policy_context \<Rightarrow> 'url file_system_sandbox_entry list \<Rightarrow> 'url file_system_sandbox_entry \<Rightarrow> bool" where
  "deny_entry_constrains_accepted_grant lib ctx accepted deny =
     list_ex (\<lambda>e.
       is_root_entry e \<or>
       (case resolve_permission_path lib ctx (entry_path e) of
          None \<Rightarrow> True
        | Some grant_path \<Rightarrow>
            (case (case entry_path deny of
                     GlobPattern pat \<Rightarrow> glob_static_prefix_path lib ctx pat
                   | _ \<Rightarrow> resolve_permission_path lib ctx (entry_path deny)) of
               None \<Rightarrow> True
             | Some deny_path \<Rightarrow> paths_overlap lib deny_path grant_path)))
       (filter (\<lambda>e. can_read (entry_access e)) accepted)"

text \<open>The denials of one side that matter for the accepted grants.\<close>

definition retained_deny_entries ::
    "'url url_library \<Rightarrow> 'url policy_context \<Rightarrow> 'url file_system_sandbox_entry list \<Rightarrow> 'url file_system_sandbox_entry list \<Rightarrow>
     'url file_system_sandbox_entry list" where
  "retained_deny_entries lib ctx accepted source =
     filter (\<lambda>e. entry_access e = Deny \<and> deny_entry_constrains_accepted_grant lib ctx accepted e) source"

definition intersect_file_systems ::
    "'url url_library \<Rightarrow> glob_builder \<Rightarrow> 'url policy_context \<Rightarrow> 'url file_system_permissions \<Rightarrow> 'url file_system_permissions \<Rightarrow>
     'url file_system_permissions option" where
  "intersect_file_systems lib globs ctx requested granted =
     Option.bind (materialize_context_dependent_entries lib ctx (fsp_entries requested)) (\<lambda>requested_entries.
     Option.bind (materialize_context_dependent_entries lib ctx (fsp_entries granted)) (\<lambda>granted_entries.
       let requested_policy = restricted requested_entries;
           matcher = read_deny_matcher lib globs ctx requested_policy;
           accepted = push_new_entries []
             (filter (granted_file_system_entry_within_request lib ctx (fsp_entries requested) requested_policy matcher)
               granted_entries);
           requested_retained = retained_deny_entries lib ctx accepted requested_entries;
           granted_retained = retained_deny_entries lib ctx accepted granted_entries
       in Some \<lparr>fsp_entries = push_new_entries (push_new_entries accepted requested_retained) granted_retained,
                fsp_glob_scan_max_depth =
                  non_zero (merge_glob_scan_max_depth requested_retained (fsp_glob_scan_max_depth requested)
                    granted_retained (fsp_glob_scan_max_depth granted))\<rparr>))"

definition intersect_permission_profiles_with_context ::
    "'url url_library \<Rightarrow> glob_builder \<Rightarrow> 'url policy_context \<Rightarrow> 'url additional_permission_profile \<Rightarrow>
     'url additional_permission_profile \<Rightarrow> 'url additional_permission_profile" where
  "intersect_permission_profiles_with_context lib globs ctx requested granted =
     \<lparr>ap_network =
        (if ap_network requested = Some (Some True) \<and> ap_network granted = Some (Some True) then Some (Some True) else None),
      ap_file_system =
        option_filter (\<lambda>fs. \<not> fsp_is_empty fs)
          (Option.bind (ap_file_system requested) (\<lambda>requested_fs.
             intersect_file_systems lib globs ctx requested_fs
               (case ap_file_system granted of
                  Some fs \<Rightarrow> fs
                | None \<Rightarrow> \<lparr>fsp_entries = [], fsp_glob_scan_max_depth = None\<rparr>)))\<rparr>"

section \<open>Concrete entries mean the same\<close>

lemma concat_map_filter_map:
  "concat (map (\<lambda>x. map f (filter P (g x))) xs) = map f (filter P (concat (map g xs)))"
  by (induction xs) auto

lemma resolved_path_entry [simp]:
  "resolved_entry lib ctx (materialized_path_entry e path) =
     (if infer_path_convention lib path = infer_path_convention lib (ctx_cwd ctx) then [(path, entry_access e)] else [])"
  by (simp add: resolved_entry_def materialized_path_entry_def)

definition root_paths :: "'url url_library \<Rightarrow> rstr option \<Rightarrow> 'url \<Rightarrow> 'url list" where
  "root_paths lib subpath root = (case subpath of None \<Rightarrow> [root] | Some s \<Rightarrow> ok_list (uri_join lib root s))"

lemma resolved_project_roots:
  "resolved_special lib ctx (ProjectRoots subpath) = concat (map (root_paths lib subpath) (ctx_workspace_roots ctx))"
  by (cases subpath) (simp_all add: root_paths_def[abs_def])

lemma single_root_path:
  "resolve_permission_path lib (ctx\<lparr>ctx_workspace_roots := [root]\<rparr>) (Special (ProjectRoots subpath)) =
     (case root_paths lib subpath root of [] \<Rightarrow> None | path # _ \<Rightarrow> Some path)"
  "length (root_paths lib subpath root) \<le> 1"
  by (auto simp: root_paths_def ok_list_def split: option.splits result.splits)

lemma materialize_roots_resolved:
  assumes "entry_path e = Special (ProjectRoots subpath)"
  shows "materialize_roots lib ctx e roots = Some es \<Longrightarrow>
    concat (map (resolved_entry lib ctx) es) =
      map (\<lambda>path. (path, entry_access e))
        (filter (\<lambda>path. infer_path_convention lib path = infer_path_convention lib (ctx_cwd ctx))
          (concat (map (root_paths lib subpath) roots)))"
proof (induction roots arbitrary: es)
  case (Cons root roots)
  note one = single_root_path(1)[of lib root ctx subpath] single_root_path(2)[of lib subpath root]
  show ?case
  proof (cases "root_paths lib subpath root")
    case Nil
    then show ?thesis using Cons assms one by (auto split: if_splits)
  next
    case (Cons path more)
    then have "root_paths lib subpath root = [path]" using one(2) by simp
    then show ?thesis using Cons.IH Cons.prems assms one(1) by (auto split: option.splits)
  qed
qed simp

lemma materialize_entry_resolved:
  assumes "materialize_entry lib ctx e = Some es"
  shows "concat (map (resolved_entry lib ctx) es) = resolved_entry lib ctx e"
proof (cases "entry_path e")
  case (GlobPattern g)
  with assms show ?thesis
    by (auto simp: materialize_entry_def materialize_cwd_dependent_entry_def resolved_entry_def split: option.splits if_splits)
next
  case (Special v)
  show ?thesis
  proof (cases v)
    case (ProjectRoots subpath)
    with Special assms obtain "materialize_roots lib ctx e (ctx_workspace_roots ctx) = Some es"
      by (auto simp: materialize_entry_def bind_eq_Some_conv split: if_splits)
    with Special ProjectRoots show ?thesis
      using materialize_roots_resolved[of e subpath] by (simp add: resolved_entry_def resolved_project_roots del: resolved_special.simps)
  next
    case Tmpdir
    with Special assms show ?thesis
      by (auto simp: materialize_entry_def resolved_entry_def materialized_path_entry_def concat_map_filter_map[of _ _ "\<lambda>x. [x]", simplified]
        comp_def split: option.splits if_splits)
  qed (use Special assms in \<open>auto simp: materialize_entry_def materialize_cwd_dependent_entry_def split: if_splits\<close>)
qed (use assms in \<open>auto simp: materialize_entry_def materialize_cwd_dependent_entry_def\<close>)

lemma materialize_resolved:
  "materialize_context_dependent_entries lib ctx es = Some ms \<Longrightarrow>
     resolved_entries lib ctx (restricted ms) = resolved_entries lib ctx (restricted es)"
  by (induction es arbitrary: ms)
    (auto simp: resolved_entries_def restricted_def bind_eq_Some_conv dest!: materialize_entry_resolved)

section \<open>A grant stays within the request\<close>

context containment
begin

lemma strictly_below:
  assumes "below p r" "below p d" "\<not> below r d"
  shows "depth r < depth d" "below d r"
  using assms chain[of p r d] below_linear[of p d r] below_linear[of p r d] by (fastforce simp: not_less)+

end

lemma materialized_paths:
  assumes "materialize_context_dependent_entries lib ctx es = Some ms" "e \<in> set ms"
  shows "set (resolved_path lib ctx (entry_path e)) = set_option (resolve_permission_path lib ctx (entry_path e))"
proof -
  have roots: "e \<in> set xs \<Longrightarrow> \<exists>path. entry_path e = PathEntry path"
    if "materialize_roots lib ctx x rs = Some xs" for x rs xs
    using that by (induction rs arbitrary: xs) (auto simp: materialized_path_entry_def split: option.splits if_splits)
  have one: "e \<in> set xs \<Longrightarrow> ?thesis" if m: "materialize_entry lib ctx x = Some xs" for x xs
  proof (cases "entry_path x")
    case (Special v)
    assume e: "e \<in> set xs"
    show ?thesis
    proof (cases v)
      case (ProjectRoots subpath)
      with Special m e roots show ?thesis
        by (fastforce simp: materialize_entry_def bind_eq_Some_conv split: if_splits)
    next
      case SlashTmp
      with Special m e show ?thesis
        by (auto simp: materialize_entry_def materialize_cwd_dependent_entry_def ok_list_def split: if_splits result.splits)
    qed (use Special m e in \<open>auto simp: materialize_entry_def materialize_cwd_dependent_entry_def materialized_path_entry_def
        split: if_splits option.splits\<close>)
  qed (use m in \<open>auto simp: materialize_entry_def materialize_cwd_dependent_entry_def split: option.splits if_splits\<close>)
  have "\<exists>x xs. materialize_entry lib ctx x = Some xs \<and> e \<in> set xs"
    using assms by (induction es arbitrary: ms) (auto simp: bind_eq_Some_conv, blast)
  then show ?thesis using one by blast
qed

lemma resolved_mem:
  "(r, a) \<in> set (resolved_entries lib ctx (restricted es)) \<longleftrightarrow>
     (\<exists>e \<in> set es. a = entry_access e \<and> r \<in> set (resolved_path lib ctx (entry_path e)) \<and>
        infer_path_convention lib r = infer_path_convention lib (ctx_cwd ctx))"
  by (auto simp: resolved_entries_def restricted_def resolved_entry_def)

lemma covering_entries_posix:
  assumes "posix_uri lib (ctx_cwd ctx)" "posix_uri lib path"
  shows "(r, a) \<in> covering lib ctx (restricted es) path \<longleftrightarrow>
    (r, a) \<in> set (resolved_entries lib ctx (restricted es)) \<and> posix_uri lib r \<and>
    native_path_segments_start_with lib PosixPath (named_segments lib path) (named_segments lib r)"
  using assms uri_starts_with_posix[OF assms(2), of r] by (auto simp: covering_def posix_uri_def resolved_mem)

lemma resolve_access_posix:
  assumes "posix_uri lib (ctx_cwd ctx)" "posix_uri lib path" "placeable lib ctx (restricted es)"
    "covering lib ctx (restricted es) path \<noteq> {}"
  shows "\<exists>r. (r, resolve_access lib ctx (restricted es) path) \<in> covering lib ctx (restricted es) path \<and>
    (\<forall>r' a'. (r', a') \<in> covering lib ctx (restricted es) path \<longrightarrow>
       key_le (length (named_segments lib r'), a') (length (named_segments lib r), resolve_access lib ctx (restricted es) path))"
proof -
  have "policy_kind (restricted es) = Restricted" by (simp add: restricted_def)
  then obtain r d where r: "(r, resolve_access lib ctx (restricted es) path) \<in> covering lib ctx (restricted es) path"
      "lexical_depth lib r = Some d"
      "\<forall>(r', a') \<in> covering lib ctx (restricted es) path.
         key_le (the (lexical_depth lib r'), a') (d, resolve_access lib ctx (restricted es) path)"
    using resolve_access_key[of "restricted es", OF _ assms(3), of path] assms(1,2,4) posix_uriD[of lib] by auto
  have depth: "lexical_depth lib x = Some (length (named_segments lib x))" if "(x, a) \<in> covering lib ctx (restricted es) path" for x a
    using that posix_uriD(4)[of lib x] unfolding covering_entries_posix[OF assms(1,2)] posix_path_def by simp
  show ?thesis
    using r depth by (intro exI[of _ r]) fastforce
qed

lemma readable_placeable:
  assumes "resolve_access lib ctx (restricted es) path \<noteq> Deny"
  shows "placeable lib ctx (restricted es)"
proof -
  have "entries_with_depth lib (resolved_entries lib ctx (restricted es)) \<noteq> None"
    using assms by (auto simp: resolve_access_def restricted_def split: if_splits option.splits)
  then show ?thesis
    using entries_with_depth_None[of lib "resolved_entries lib ctx (restricted es)"] by (fastforce simp: placeable_def list_all_iff)
qed

lemma readable_covered:
  assumes "posix_uri lib (ctx_cwd ctx)" "posix_uri lib path" "resolve_access lib ctx (restricted es) path \<noteq> Deny"
  shows "covering lib ctx (restricted es) path \<noteq> {}"
  using resolve_access_key[of "restricted es", OF _ readable_placeable[OF assms(3)], of path] assms posix_uriD[of lib]
  by (auto simp: restricted_def)

lemma push_new_entries_mem [simp]: "set (push_new_entries es ds) = set es \<union> set ds"
  by (induction es ds rule: push_new_entries.induct) auto

text \<open>What the intersection of two file systems consists of.\<close>

lemma intersect_entries:
  assumes "intersect_file_systems lib globs ctx requested granted = Some fs"
  obtains rs gs accepted where
    "materialize_context_dependent_entries lib ctx (fsp_entries requested) = Some rs"
    "materialize_context_dependent_entries lib ctx (fsp_entries granted) = Some gs"
    "set (fsp_entries fs) = set accepted \<union> set (retained_deny_entries lib ctx accepted rs) \<union>
       set (retained_deny_entries lib ctx accepted gs)"
    "\<And>e. e \<in> set accepted \<Longrightarrow> e \<in> set gs \<and> can_read (entry_access e) \<and>
       (\<forall>path. resolve_permission_path lib ctx (entry_path e) = Some path \<longrightarrow>
          access_covers (resolve_access lib ctx (restricted rs) path) (entry_access e))"
proof -
  obtain rs gs where m: "materialize_context_dependent_entries lib ctx (fsp_entries requested) = Some rs"
      "materialize_context_dependent_entries lib ctx (fsp_entries granted) = Some gs"
    using assms by (auto simp: intersect_file_systems_def bind_eq_Some_conv)
  let ?ok = "granted_file_system_entry_within_request lib ctx (fsp_entries requested) (restricted rs)
    (read_deny_matcher lib globs ctx (restricted rs))"
  let ?accepted = "push_new_entries [] (filter ?ok gs)"
  have "set (fsp_entries fs) = set ?accepted \<union> set (retained_deny_entries lib ctx ?accepted rs) \<union>
      set (retained_deny_entries lib ctx ?accepted gs)"
    using assms m by (auto simp: intersect_file_systems_def Let_def)
  moreover have "can_read (entry_access e)" "resolve_permission_path lib ctx (entry_path e) = Some path \<Longrightarrow>
      access_covers (resolve_access lib ctx (restricted rs) path) (entry_access e)" if "?ok e" for e path
    using that by (auto simp: granted_file_system_entry_within_request_def Let_def split: if_splits)
  ultimately show ?thesis by (intro that[OF m, of ?accepted]) auto
qed

lemma retained_below:
  assumes "e \<in> set accepted" "can_read (entry_access e)" "resolve_permission_path lib ctx (entry_path e) = Some r"
    "d \<in> set source" "entry_access d = Deny" "resolve_permission_path lib ctx (entry_path d) = Some q"
    "posix_uri lib r" "posix_uri lib q" "uri_starts_with lib q r \<or> uri_starts_with lib r q"
  shows "d \<in> set (retained_deny_entries lib ctx accepted source)"
proof -
  have "paths_overlap lib q r"
    using assms(7-9) posix_uriD(4)[of lib] by (auto simp: paths_overlap_def uri_overlaps_def)
  moreover have "(case entry_path d of GlobPattern g \<Rightarrow> glob_static_prefix_path lib ctx g
      | _ \<Rightarrow> resolve_permission_path lib ctx (entry_path d)) = Some q"
    using assms(6) by (cases "entry_path d") auto
  ultimately show ?thesis
    using assms(1-5) by (auto simp: retained_deny_entries_def deny_entry_constrains_accepted_grant_def list_ex_iff)
qed

text \<open>The access that the entries of some permissions give to a path.\<close>

abbreviation entries_access ::
    "'url url_library \<Rightarrow> 'url policy_context \<Rightarrow> 'url file_system_permissions \<Rightarrow> 'url \<Rightarrow> file_system_access_mode" where
  "entries_access lib ctx fs path \<equiv> resolve_access lib ctx (restricted (fsp_entries fs)) path"

lemma resolve_access_resolved:
  assumes "resolved_entries lib ctx (restricted es) = resolved_entries lib ctx (restricted ds)"
  shows "resolve_access lib ctx (restricted es) = resolve_access lib ctx (restricted ds)"
    "placeable lib ctx (restricted es) = placeable lib ctx (restricted ds)"
proof -
  have kind: "policy_kind (restricted es) = policy_kind (restricted ds)" by (simp add: restricted_def)
  show "resolve_access lib ctx (restricted es) = resolve_access lib ctx (restricted ds)"
    unfolding fun_eq_iff resolve_access_def kind assms by blast
  show "placeable lib ctx (restricted es) = placeable lib ctx (restricted ds)"
    unfolding placeable_def assms ..
qed

text \<open>
  Where the intersection can be read, the entry that decides is an accepted one, its root is readable under
  the request, and a denial of either side that covers the path lies above that root.
\<close>

lemma intersection_decider:
  assumes "intersect_file_systems lib globs ctx requested granted = Some fs" "posix_uri lib (ctx_cwd ctx)" "posix_uri lib path"
    "entries_access lib ctx fs path \<noteq> Deny"
  obtains rs gs r where
    "resolved_entries lib ctx (restricted rs) = resolved_entries lib ctx (restricted (fsp_entries requested))"
    "resolved_entries lib ctx (restricted gs) = resolved_entries lib ctx (restricted (fsp_entries granted))"
    "(r, entries_access lib ctx fs path) \<in> covering lib ctx (restricted gs) path" "posix_uri lib r"
    "resolve_access lib ctx (restricted rs) r \<noteq> Deny"
    "\<And>d source. source \<in> {rs, gs} \<Longrightarrow> (d, Deny) \<in> covering lib ctx (restricted source) path \<Longrightarrow>
       length (named_segments lib d) < length (named_segments lib r)"
proof -
  obtain rs gs accepted where m: "materialize_context_dependent_entries lib ctx (fsp_entries requested) = Some rs"
      "materialize_context_dependent_entries lib ctx (fsp_entries granted) = Some gs"
    and F: "set (fsp_entries fs) = set accepted \<union> set (retained_deny_entries lib ctx accepted rs) \<union>
       set (retained_deny_entries lib ctx accepted gs)"
    and acc: "\<And>e. e \<in> set accepted \<Longrightarrow> e \<in> set gs \<and> can_read (entry_access e) \<and>
       (\<forall>path. resolve_permission_path lib ctx (entry_path e) = Some path \<longrightarrow>
          access_covers (resolve_access lib ctx (restricted rs) path) (entry_access e))"
    by (rule intersect_entries[OF assms(1)]) blast
  note cov = covering_entries_posix[OF assms(2,3)]
  obtain r where r: "(r, entries_access lib ctx fs path) \<in> covering lib ctx (restricted (fsp_entries fs)) path"
    and best: "\<And>r' a'. (r', a') \<in> covering lib ctx (restricted (fsp_entries fs)) path \<Longrightarrow>
       key_le (length (named_segments lib r'), a') (length (named_segments lib r), entries_access lib ctx fs path)"
    using resolve_access_posix[OF assms(2,3) readable_placeable readable_covered[OF assms(2,3)]] assms(4) by blast
  then obtain e where e: "e \<in> set (fsp_entries fs)" "entry_access e = entries_access lib ctx fs path"
      "r \<in> set (resolved_path lib ctx (entry_path e))"
    unfolding cov resolved_mem by auto
  then have "e \<in> set accepted" using F assms(4) by (auto simp: retained_deny_entries_def)
  note e' = acc[OF this] this
  have path: "resolve_permission_path lib ctx (entry_path e) = Some r"
    using materialized_paths[OF m(2)] e' e(3) by auto
  show thesis
  proof (rule that[OF materialize_resolved[OF m(1)] materialize_resolved[OF m(2)]])
    show "(r, entries_access lib ctx fs path) \<in> covering lib ctx (restricted gs) path" and px: "posix_uri lib r"
      using r e e' unfolding cov resolved_mem by metis+
    show "resolve_access lib ctx (restricted rs) r \<noteq> Deny"
      using e' path by (cases "entry_access e") (auto simp: can_read_def can_write_def)
    fix d source
    assume source: "source \<in> {rs, gs}" and d: "(d, Deny) \<in> covering lib ctx (restricted source) path"
    then obtain x where x: "x \<in> set source" "entry_access x = Deny" "d \<in> set (resolved_path lib ctx (entry_path x))"
      unfolding cov resolved_mem by auto
    then have "resolve_permission_path lib ctx (entry_path x) = Some d"
      using materialized_paths[OF m(1)] materialized_paths[OF m(2)] source by auto
    moreover have pd: "posix_uri lib d" using d unfolding cov by blast
    moreover have "uri_starts_with lib d r \<or> uri_starts_with lib r d"
      using posix.chain[of lib "named_segments lib path" "named_segments lib d" "named_segments lib r"] d r
      unfolding cov uri_starts_with_posix[OF px pd] uri_starts_with_posix[OF pd px] by blast
    ultimately have "x \<in> set (retained_deny_entries lib ctx accepted source)"
      using retained_below[OF e'(2) _ path x(1,2) _ px] e'(1) by blast
    then have "x \<in> set (fsp_entries fs)" using F source by auto
    then have "(d, Deny) \<in> covering lib ctx (restricted (fsp_entries fs)) path"
      using d x unfolding cov resolved_mem by metis
    from best[OF this] assms(4) show "length (named_segments lib d) < length (named_segments lib r)"
      by (cases "entries_access lib ctx fs path") (auto simp: less_eq_file_system_access_mode_def)
  qed
qed

lemma readable_within_request:
  assumes "intersect_file_systems lib globs ctx requested granted = Some fs" "posix_uri lib (ctx_cwd ctx)" "posix_uri lib path"
    "entries_access lib ctx fs path \<noteq> Deny"
  shows "entries_access lib ctx requested path \<noteq> Deny"
proof (rule intersection_decider[OF assms])
  fix rs gs r
  assume rs: "resolved_entries lib ctx (restricted rs) = resolved_entries lib ctx (restricted (fsp_entries requested))"
    and r: "(r, entries_access lib ctx fs path) \<in> covering lib ctx (restricted gs) path" and px: "posix_uri lib r"
    and ok: "resolve_access lib ctx (restricted rs) r \<noteq> Deny"
    and above: "\<And>d source. source \<in> {rs, gs} \<Longrightarrow> (d, Deny) \<in> covering lib ctx (restricted source) path \<Longrightarrow>
       length (named_segments lib d) < length (named_segments lib r)"
  let ?b = "resolve_access lib ctx (restricted rs) r"
  obtain q where q: "(q, ?b) \<in> covering lib ctx (restricted rs) r"
    and best: "\<And>r' a'. (r', a') \<in> covering lib ctx (restricted rs) r \<Longrightarrow>
      key_le (length (named_segments lib r'), a') (length (named_segments lib q), ?b)"
    using resolve_access_posix[OF assms(2) px readable_placeable[OF ok] readable_covered[OF assms(2) px ok]] by blast
  have path: "native_path_segments_start_with lib PosixPath (named_segments lib path) (named_segments lib r)"
    using r unfolding covering_entries_posix[OF assms(2,3)] by blast
  then have q': "(q, ?b) \<in> covering lib ctx (restricted rs) path"
    using q posix.below_trans unfolding covering_entries_posix[OF assms(2,3)] covering_entries_posix[OF assms(2) px] by blast
  have "resolve_access lib ctx (restricted rs) path \<noteq> Deny"
  proof
    assume "resolve_access lib ctx (restricted rs) path = Deny"
    then obtain d where d: "(d, Deny) \<in> covering lib ctx (restricted rs) path"
      and top: "key_le (length (named_segments lib q), ?b) (length (named_segments lib d), Deny)"
      using resolve_access_posix[OF assms(2,3) readable_placeable[OF ok]] q' by (metis empty_iff)
    have "native_path_segments_start_with lib PosixPath (named_segments lib r) (named_segments lib d)"
      using above[OF _ d] d path posix.strictly_below(1)[of lib "named_segments lib path" "named_segments lib r" "named_segments lib d"]
      unfolding covering_entries_posix[OF assms(2,3)] by fastforce
    then have "(d, Deny) \<in> covering lib ctx (restricted rs) r"
      using d unfolding covering_entries_posix[OF assms(2,3)] covering_entries_posix[OF assms(2) px] by blast
    from best[OF this] top ok show False
      by (cases ?b) (auto simp: less_eq_file_system_access_mode_def)
  qed
  then show ?thesis using resolve_access_resolved(1)[OF rs] by simp
qed

lemma readable_within_grant:
  assumes "intersect_file_systems lib globs ctx requested granted = Some fs" "posix_uri lib (ctx_cwd ctx)" "posix_uri lib path"
    "entries_access lib ctx fs path \<noteq> Deny" "placeable lib ctx (restricted (fsp_entries granted))"
  shows "entries_access lib ctx granted path \<noteq> Deny"
proof (rule intersection_decider[OF assms(1-4)])
  fix rs gs r
  assume gs: "resolved_entries lib ctx (restricted gs) = resolved_entries lib ctx (restricted (fsp_entries granted))"
    and r: "(r, entries_access lib ctx fs path) \<in> covering lib ctx (restricted gs) path"
    and above: "\<And>d source. source \<in> {rs, gs} \<Longrightarrow> (d, Deny) \<in> covering lib ctx (restricted source) path \<Longrightarrow>
       length (named_segments lib d) < length (named_segments lib r)"
  have "resolve_access lib ctx (restricted gs) path \<noteq> Deny"
  proof
    assume "resolve_access lib ctx (restricted gs) path = Deny"
    then obtain d where d: "(d, Deny) \<in> covering lib ctx (restricted gs) path"
      and top: "key_le (length (named_segments lib r), entries_access lib ctx fs path) (length (named_segments lib d), Deny)"
      using resolve_access_posix[OF assms(2,3), of gs] resolve_access_resolved(2)[OF gs] assms(5) r by (metis empty_iff)
    from above[OF _ d] top show False by auto
  qed
  then show ?thesis using resolve_access_resolved(1)[OF gs] by simp
qed

lemma readable_by_entry:
  assumes "posix_uri lib (ctx_cwd ctx)" "posix_uri lib path" "resolve_access lib ctx (restricted es) path \<noteq> Deny"
  shows "\<exists>e \<in> set es. entry_access e = resolve_access lib ctx (restricted es) path"
proof -
  obtain r where "(r, resolve_access lib ctx (restricted es) path) \<in> covering lib ctx (restricted es) path"
    using resolve_access_posix[OF assms(1,2) readable_placeable[OF assms(3)] readable_covered[OF assms]] by blast
  then show ?thesis unfolding covering_entries_posix[OF assms(1,2)] resolved_mem by auto
qed

lemma intersection_file_system:
  assumes "ap_file_system (intersect_permission_profiles_with_context lib globs ctx requested granted) = Some fs"
    "ap_file_system requested = Some rf" "ap_file_system granted = Some gf"
  shows "intersect_file_systems lib globs ctx rf gf = Some fs"
  using assms by (auto simp: intersect_permission_profiles_with_context_def option_filter_def split: option.splits if_splits)

text \<open>
  C23: Granted permissions stay within the request. On a POSIX executor a path that can be read under the
  intersection of what was requested and what was granted can be read under the request and, when the roots
  of the grant can be placed, under the grant: denials of both sides bind, at every depth. If the request has
  no read-only entries, a path that can be written under the intersection can be written under the request.
\<close>

theorem grant_within_request:
  assumes "ap_file_system (intersect_permission_profiles_with_context lib globs ctx requested granted) = Some fs"
    "ap_file_system requested = Some rf" "ap_file_system granted = Some gf"
    "posix_uri lib (ctx_cwd ctx)" "posix_uri lib path" "entries_access lib ctx fs path \<noteq> Deny"
  shows "entries_access lib ctx rf path \<noteq> Deny \<and>
    (placeable lib ctx (restricted (fsp_entries gf)) \<longrightarrow> entries_access lib ctx gf path \<noteq> Deny) \<and>
    (list_all (\<lambda>e. entry_access e \<noteq> Read) (fsp_entries rf) \<longrightarrow>
       access_covers (entries_access lib ctx rf path) (entries_access lib ctx fs path))"
proof -
  note fs = intersection_file_system[OF assms(1-3)]
  have r: "entries_access lib ctx rf path \<noteq> Deny"
    by (rule readable_within_request[OF fs assms(4-6)])
  moreover have "placeable lib ctx (restricted (fsp_entries gf)) \<Longrightarrow> entries_access lib ctx gf path \<noteq> Deny"
    by (rule readable_within_grant[OF fs assms(4-6)])
  moreover have "access_covers (entries_access lib ctx rf path) (entries_access lib ctx fs path)"
    if "list_all (\<lambda>e. entry_access e \<noteq> Read) (fsp_entries rf)"
  proof -
    have "entries_access lib ctx rf path = Write"
      using readable_by_entry[OF assms(4,5) r] that r
      by (cases "entries_access lib ctx rf path") (auto simp: list_all_iff)
    then show ?thesis using assms(6) by (cases "entries_access lib ctx fs path") (auto simp: can_read_def can_write_def)
  qed
  ultimately show ?thesis by blast
qed

section \<open>Denied reads are matched\<close>

lemma build_matchers_closed:
  "\<exists>ms'. build_matchers globs convention FailClosed ps ms invalid =
     Ok (ms', invalid \<or> list_ex (\<lambda>g. build_glob_matcher globs g convention = None) ps)"
proof (induction ps arbitrary: ms invalid)
  case (Cons g ps)
  show ?case
    using Cons.IH[of ms True] Cons.IH by (cases "build_glob_matcher globs g convention") simp_all
qed simp

lemma collect_results_Ok: "collect_results rs = Ok xs \<Longrightarrow> r \<in> set rs \<Longrightarrow> \<exists>x \<in> set xs. r = Ok x"
  by (induction rs arbitrary: xs) (auto simp: bind_result_Ok_iff)

lemma read_deny_matcher_exists:
  assumes "e \<in> set (policy_entries p)" "entry_access e = Deny"
  obtains m where "read_deny_matcher lib globs ctx p = Some m" "denied_roots m = prepared_denied_roots lib ctx p"
    "\<And>convention g. infer_path_convention lib (ctx_cwd ctx) = Some convention \<Longrightarrow> g \<in> set (deny_glob_patterns p) \<Longrightarrow>
       \<not> (\<exists>t. deny_read_glob lib ctx g = Ok t \<and> build_glob_matcher globs t convention \<noteq> None) \<Longrightarrow> invalid_pattern m"
proof -
  have some: "read_deny_matcher lib globs ctx p =
      (case prepare_deny_read_matcher lib globs ctx FailClosed p of Ok m \<Rightarrow> Some m | Err _ \<Rightarrow> None)"
    using assms by (auto simp: read_deny_matcher_def list_ex_iff)
  show thesis
  proof (cases "infer_path_convention lib (ctx_cwd ctx)")
    case None
    then show thesis using some by (intro that) (auto simp: prepare_deny_read_matcher_def)
  next
    case (Some convention)
    show thesis
    proof (cases "deny_read_globs lib ctx p")
      case (Ok patterns)
      obtain ms where ms: "build_matchers globs convention FailClosed patterns [] False =
          Ok (ms, list_ex (\<lambda>g. build_glob_matcher globs g convention = None) patterns)"
        using build_matchers_closed[of globs convention patterns "[]" False] by auto
      have bad: "list_ex (\<lambda>g. build_glob_matcher globs g convention = None) patterns"
        if g: "g \<in> set (deny_glob_patterns p)" and fails: "\<not> (\<exists>t. deny_read_glob lib ctx g = Ok t \<and> build_glob_matcher globs t convention \<noteq> None)" for g
        using collect_results_Ok[of "map (deny_read_glob lib ctx) (deny_glob_patterns p)" patterns "deny_read_glob lib ctx g"] Ok g fails
        by (auto simp: deny_read_globs_def list_ex_iff)
      show thesis
        using some Some Ok ms bad by (intro that) (auto simp: prepare_deny_read_matcher_def)
    next
      case (Err err)
      then show thesis using some Some by (intro that) (auto simp: prepare_deny_read_matcher_def)
    qed
  qed
qed

text \<open>
  A denied read is matched, and denials fail closed: the matcher of a policy denies every path below a denied
  root other than the root of the file system, and if a denied glob of the policy cannot be resolved or
  compiled it denies every path.
\<close>

theorem denied_reads_matched:
  assumes "e \<in> set (policy_entries p)" "entry_access e = Deny" "infer_path_convention lib (ctx_cwd ctx) = Some convention"
    "(\<exists>root \<in> set (prepared_denied_roots lib ctx p). uri_starts_with lib path root) \<or>
     (\<exists>g. entry_path e = GlobPattern g \<and>
       \<not> (\<exists>t. deny_read_glob lib ctx g = Ok t \<and> build_glob_matcher globs t convention \<noteq> None))"
  shows "\<exists>m. read_deny_matcher lib globs ctx p = Some m \<and> matches_prepared_read_deny lib ctx m path"
proof -
  obtain m where m: "read_deny_matcher lib globs ctx p = Some m" "denied_roots m = prepared_denied_roots lib ctx p"
    "\<And>g. g \<in> set (deny_glob_patterns p) \<Longrightarrow>
       \<not> (\<exists>t. deny_read_glob lib ctx g = Ok t \<and> build_glob_matcher globs t convention \<noteq> None) \<Longrightarrow> invalid_pattern m"
    using read_deny_matcher_exists[OF assms(1,2), of lib globs ctx] assms(3) by metis
  have "g \<in> set (deny_glob_patterns p)" if "entry_path e = GlobPattern g" for g
    using assms(1,2) that by (force simp: deny_glob_patterns_def List.map_filter_def)
  then show ?thesis
    using assms(3,4) m by (fastforce simp: matches_prepared_read_deny_def list_ex_iff)
qed

section \<open>Sample grants\<close>

definition no_globs :: glob_builder where
  "no_globs = (\<lambda>_ _ _. None)"

definition sample_permissions :: "sample_url file_system_sandbox_entry list \<Rightarrow> sample_url additional_permission_profile" where
  "sample_permissions es =
     \<lparr>ap_network = None, ap_file_system = Some \<lparr>fsp_entries = es, fsp_glob_scan_max_depth = None\<rparr>\<rparr>"


lemma grant_within_request_witness:
  "resolve_access sample_library sample_context (restricted [path_grant [''w''] Write, path_grant [''w'', ''secret''] Deny])
     (sample_uri [''w'', ''x'']) \<noteq> Deny"
proof -
  let ?requested = "[path_grant [''w''] Write, path_grant [''w'', ''secret''] Deny]"
  have "ap_file_system (intersect_permission_profiles_with_context sample_library no_globs sample_context
      (sample_permissions ?requested) (sample_permissions [path_grant [''w''] Write])) =
      Some \<lparr>fsp_entries = ?requested, fsp_glob_scan_max_depth = None\<rparr>"
    "posix_uri sample_library (sample_uri [''w'', ''x''])"
    "resolve_access sample_library sample_context (restricted ?requested) (sample_uri [''w'', ''x'']) \<noteq> Deny"
    by code_simp+
  from grant_within_request[OF this(1) _ _ sample_context_facts(4) this(2), of "\<lparr>fsp_entries = ?requested, fsp_glob_scan_max_depth = None\<rparr>"
      "\<lparr>fsp_entries = [path_grant [''w''] Write], fsp_glob_scan_max_depth = None\<rparr>"] this(3)
  show ?thesis by (simp add: sample_permissions_def)
qed

lemma denied_reads_matched_witness:
  "\<exists>m. read_deny_matcher sample_library no_globs sample_context (restricted [path_grant [''w'', ''secret''] Deny]) = Some m \<and>
     matches_prepared_read_deny sample_library sample_context m (sample_uri [''w'', ''secret'', ''x''])"
proof (rule denied_reads_matched[where e = "path_grant [''w'', ''secret''] Deny" and convention = PosixPath])
  have "sample_uri [''w'', ''secret''] \<in> set (prepared_denied_roots sample_library sample_context (restricted [path_grant [''w'', ''secret''] Deny])) \<and>
      uri_starts_with sample_library (sample_uri [''w'', ''secret'', ''x'']) (sample_uri [''w'', ''secret''])"
    by code_simp
  then show "(\<exists>root \<in> set (prepared_denied_roots sample_library sample_context (restricted [path_grant [''w'', ''secret''] Deny])).
      uri_starts_with sample_library (sample_uri [''w'', ''secret'', ''x'']) root) \<or>
    (\<exists>g. entry_path (path_grant [''w'', ''secret''] Deny) = GlobPattern g \<and>
      \<not> (\<exists>t. deny_read_glob sample_library sample_context g = Ok t \<and> build_glob_matcher no_globs t PosixPath \<noteq> None))"
    by blast
  show "infer_path_convention sample_library (ctx_cwd sample_context) = Some PosixPath"
    by (rule posix_uriD(5)[OF sample_context_facts(4)])
qed (simp_all add: restricted_def path_grant_def entry_new_def)

end
