(* ===== verification/Text_Truncation.thy ===== *)
theory Text_Truncation
  imports Prelude
begin

text \<open>
  Truncating long texts, \<open>utils/string/src/truncate.rs\<close>: the middle of a text is replaced by a marker, at
  character boundaries, so that head and tail fit a budget of bytes. Sizes are natural numbers with the
  saturation of \<open>usize\<close> and \<open>u64\<close> written out; slicing a string between character boundaries only is part of
  the model, and \<open>None\<close> is the panic.
\<close>

section \<open>Bytes of a text\<close>

definition len_utf8 :: "rchar \<Rightarrow> nat" where
  "len_utf8 c = (if c < 128 then 1 else if c < 2048 then 2 else if c < 65536 then 3 else 4)"

definition byte_len :: "rstr \<Rightarrow> nat" where
  "byte_len s = sum_list (map len_utf8 s)"

text \<open>The number of characters of the first \<open>n\<close> bytes, if they end at a character boundary.\<close>

fun char_boundary :: "nat \<Rightarrow> rstr \<Rightarrow> nat option" where
  "char_boundary 0 s = Some 0"
| "char_boundary n [] = None"
| "char_boundary n (c # s) = (if n < len_utf8 c then None else map_option Suc (char_boundary (n - len_utf8 c) s))"

definition slice_to :: "nat \<Rightarrow> rstr \<Rightarrow> rstr option" where
  "slice_to n s = map_option (\<lambda>k. take k s) (char_boundary n s)"

definition slice_from :: "nat \<Rightarrow> rstr \<Rightarrow> rstr option" where
  "slice_from n s = map_option (\<lambda>k. drop k s) (char_boundary n s)"

definition saturate :: "nat \<Rightarrow> nat" where
  "saturate n = min n (2 ^ 64 - 1)"

fun decimal :: "nat \<Rightarrow> rstr" where
  "decimal n = (if n < 10 then [48 + n] else decimal (n div 10) @ [48 + n mod 10])"

declare decimal.simps [simp del]

section \<open>Truncation\<close>

definition APPROX_BYTES_PER_TOKEN :: nat where
  "APPROX_BYTES_PER_TOKEN = 4"

definition approx_token_count :: "rstr \<Rightarrow> nat" where
  "approx_token_count s = saturate (byte_len s + (APPROX_BYTES_PER_TOKEN - 1)) div APPROX_BYTES_PER_TOKEN"

definition approx_bytes_for_tokens :: "nat \<Rightarrow> nat" where
  "approx_bytes_for_tokens tokens = saturate (tokens * APPROX_BYTES_PER_TOKEN)"

definition approx_tokens_from_byte_count :: "nat \<Rightarrow> nat" where
  "approx_tokens_from_byte_count bytes = saturate (bytes + (APPROX_BYTES_PER_TOKEN - 1)) div APPROX_BYTES_PER_TOKEN"

text \<open>The variables of the loop of \<open>split_string\<close>.\<close>

record split_state =
  prefix_end :: nat
  suffix_start :: nat
  removed_chars :: nat
  suffix_started :: bool

definition split_char_step :: "nat \<Rightarrow> nat \<Rightarrow> nat \<Rightarrow> rchar \<Rightarrow> split_state \<Rightarrow> split_state" where
  "split_char_step beginning_bytes tail_start_target idx ch st =
     (let char_end = idx + len_utf8 ch
      in if char_end \<le> beginning_bytes then st\<lparr>prefix_end := char_end\<rparr>
         else if tail_start_target \<le> idx then
           (if \<not> suffix_started st then st\<lparr>suffix_start := idx, suffix_started := True\<rparr> else st)
         else st\<lparr>removed_chars := saturate (removed_chars st + 1)\<rparr>)"

fun split_loop :: "nat \<Rightarrow> nat \<Rightarrow> nat \<Rightarrow> rstr \<Rightarrow> split_state \<Rightarrow> split_state" where
  "split_loop b target idx [] st = st"
| "split_loop b target idx (c # s) st = split_loop b target (idx + len_utf8 c) s (split_char_step b target idx c st)"

definition split_string :: "rstr \<Rightarrow> nat \<Rightarrow> nat \<Rightarrow> (nat \<times> rstr \<times> rstr) option" where
  "split_string s beginning_bytes end_bytes =
     (if s = [] then Some (0, [], [])
      else let len = byte_len s;
               st = split_loop beginning_bytes (len - end_bytes) 0 s
                      \<lparr>prefix_end = 0, suffix_start = len, removed_chars = 0, suffix_started = False\<rparr>;
               start = (if suffix_start st < prefix_end st then prefix_end st else suffix_start st)
           in case (slice_to (prefix_end st) s, slice_from start s) of
                (Some before, Some after) \<Rightarrow> Some (removed_chars st, before, after)
              | _ \<Rightarrow> None)"

definition split_budget :: "nat \<Rightarrow> nat \<times> nat" where
  "split_budget budget = (budget div 2, budget - budget div 2)"

definition format_truncation_marker :: "bool \<Rightarrow> nat \<Rightarrow> rstr" where
  "format_truncation_marker use_tokens removed_count =
     (if use_tokens then [8230] @ decimal removed_count @ lit '' tokens truncated'' @ [8230]
      else [8230] @ decimal removed_count @ lit '' chars truncated'' @ [8230])"

definition removed_units :: "bool \<Rightarrow> nat \<Rightarrow> nat \<Rightarrow> nat" where
  "removed_units use_tokens removed_bytes removed = (if use_tokens then approx_tokens_from_byte_count removed_bytes else removed)"

definition assemble_truncated_output :: "rstr \<Rightarrow> rstr \<Rightarrow> rstr \<Rightarrow> rstr" where
  "assemble_truncated_output before after marker = before @ marker @ after"

definition truncate_with_byte_estimate :: "rstr \<Rightarrow> nat \<Rightarrow> bool \<Rightarrow> rstr option" where
  "truncate_with_byte_estimate s max_bytes use_tokens =
     (if s = [] then Some []
      else if max_bytes = 0
      then Some (format_truncation_marker use_tokens (removed_units use_tokens (byte_len s) (length s)))
      else if byte_len s \<le> max_bytes then Some s
      else (case split_string s (fst (split_budget max_bytes)) (snd (split_budget max_bytes)) of
              None \<Rightarrow> None
            | Some (removed, left, right) \<Rightarrow>
                Some (assemble_truncated_output left right
                  (format_truncation_marker use_tokens (removed_units use_tokens (byte_len s - max_bytes) removed)))))"

definition truncate_middle_chars :: "rstr \<Rightarrow> nat \<Rightarrow> rstr option" where
  "truncate_middle_chars s max_bytes = truncate_with_byte_estimate s max_bytes False"

definition truncate_middle_with_token_budget :: "rstr \<Rightarrow> nat \<Rightarrow> (rstr \<times> nat option) option" where
  "truncate_middle_with_token_budget s max_tokens =
     (if s = [] then Some ([], None)
      else if 0 < max_tokens \<and> byte_len s \<le> approx_bytes_for_tokens max_tokens then Some (s, None)
      else map_option (\<lambda>truncated. (truncated, if truncated = s then None else Some (approx_token_count s)))
             (truncate_with_byte_estimate s (approx_bytes_for_tokens max_tokens) True))"

section \<open>Head and tail\<close>

lemma byte_len_simps [simp]:
  "byte_len [] = 0" "byte_len (c # s) = len_utf8 c + byte_len s" "byte_len (s @ t) = byte_len s + byte_len t"
  by (simp_all add: byte_len_def)

lemma len_utf8_pos [simp]: "0 < len_utf8 c"
  by (simp add: len_utf8_def)

lemma char_boundary_append [simp]: "char_boundary (byte_len s) (s @ t) = Some (length s)"
proof (induction s)
  case (Cons c s)
  obtain n where "byte_len (c # s) = Suc n"
    using len_utf8_pos[of c] by (metis add_is_0 byte_len_simps(2) less_nat_zero_code not0_implies_Suc)
  with Cons show ?case by (metis append_Cons byte_len_simps(2) add_diff_cancel_left' char_boundary.simps(3)
        length_Cons not_add_less1 option.map(2))
qed (simp add: byte_len_def)

lemma slices [simp]: "slice_to (byte_len s) (s @ t) = Some s" "slice_from (byte_len s) (s @ t) = Some t"
  by (simp_all add: slice_to_def slice_from_def)

text \<open>The loop in three phases: characters of the head, then removed ones, then the tail.\<close>

lemma split_loop_tail:
  "b < idx + len_utf8 c \<Longrightarrow> target \<le> idx \<Longrightarrow> suffix_started st \<Longrightarrow> split_loop b target idx (c # s) st = st"
proof (induction s arbitrary: idx c)
  case (Cons d s)
  then have "split_loop b target (idx + len_utf8 c) (d # s) st = st"
    using len_utf8_pos[of d] by (intro Cons.IH) simp_all
  then show ?case using Cons.prems by (simp add: split_char_step_def)
qed (simp add: split_char_step_def)

lemma saturate_Suc [simp]: "saturate (Suc (saturate n)) = saturate (Suc n)"
  by (simp add: saturate_def)

lemma saturate_zero: "saturate 0 = 0"
  by (simp add: saturate_def)

lemma split_loop_middle:
  assumes "s \<noteq> [] \<longrightarrow> b < idx + len_utf8 (hd s)" "\<not> suffix_started st" "suffix_start st = idx + byte_len s"
    "removed_chars st = saturate k"
  shows "\<exists>m t started. s = m @ t \<and>
    split_loop b target idx s st = st\<lparr>removed_chars := saturate (k + length m), suffix_start := idx + byte_len m, suffix_started := started\<rparr> \<and>
    (t \<noteq> [] \<longrightarrow> target \<le> idx + byte_len m) \<and> (m \<noteq> [] \<longrightarrow> idx + byte_len (butlast m) < target)"
  using assms
proof (induction s arbitrary: idx st k)
  case (Cons c s)
  show ?case
  proof (cases "target \<le> idx")
    case True
    let ?st = "st\<lparr>suffix_start := idx, suffix_started := True\<rparr>"
    have "split_loop b target (idx + len_utf8 c) s ?st = ?st"
      using Cons.prems(1) True by (cases s) (simp, simp only:, intro split_loop_tail, simp_all)
    then have "split_loop b target idx (c # s) st = ?st"
      using Cons.prems(1,2) True by (simp add: split_char_step_def)
    then show ?thesis using True Cons.prems(4) by (intro exI[of _ "[]"] exI[of _ "c # s"] exI[of _ True]) simp
  next
    case False
    let ?st = "st\<lparr>removed_chars := saturate (Suc k)\<rparr>"
    have step: "split_loop b target idx (c # s) st = split_loop b target (idx + len_utf8 c) s ?st"
      using Cons.prems False by (simp add: split_char_step_def)
    have "s \<noteq> [] \<longrightarrow> b < idx + len_utf8 c + len_utf8 (hd s)" using Cons.prems(1) by simp
    with Cons.IH[of "idx + len_utf8 c" ?st "Suc k"] Cons.prems(2,3) obtain m t started where
      "s = m @ t" "split_loop b target (idx + len_utf8 c) s ?st =
        ?st\<lparr>removed_chars := saturate (Suc k + length m), suffix_start := idx + len_utf8 c + byte_len m, suffix_started := started\<rparr>"
      "t \<noteq> [] \<longrightarrow> target \<le> idx + len_utf8 c + byte_len m" "m \<noteq> [] \<longrightarrow> idx + len_utf8 c + byte_len (butlast m) < target"
      by (auto simp: add.assoc)
    then show ?thesis using False unfolding step
      by (intro exI[of _ "c # m"] exI[of _ t] exI[of _ started]) (auto simp: add.assoc)
  qed
next
  case (Nil idx st k)
  then show ?case by (intro exI[of _ "[]"] exI[of _ "suffix_started st"]) simp
qed

lemma split_loop_phases:
  assumes "prefix_end st = idx" "\<not> suffix_started st" "suffix_start st = idx + byte_len s" "removed_chars st = 0"
  shows "\<exists>h m t. s = h @ m @ t \<and>
    prefix_end (split_loop b target idx s st) = idx + byte_len h \<and>
    suffix_start (split_loop b target idx s st) = idx + byte_len h + byte_len m \<and>
    removed_chars (split_loop b target idx s st) = saturate (length m) \<and>
    (h \<noteq> [] \<longrightarrow> idx + byte_len h \<le> b) \<and> (m @ t \<noteq> [] \<longrightarrow> b < idx + byte_len h + len_utf8 (hd (m @ t))) \<and>
    (t \<noteq> [] \<longrightarrow> target \<le> idx + byte_len h + byte_len m) \<and>
    (m \<noteq> [] \<longrightarrow> idx + byte_len h + byte_len (butlast m) < target)"
  using assms
proof (induction s arbitrary: idx st)
  case Nil
  then show ?case by (simp add: saturate_def)
next
  case (Cons c s)
  show ?case
  proof (cases "idx + len_utf8 c \<le> b")
    case True
    let ?st = "st\<lparr>prefix_end := idx + len_utf8 c\<rparr>"
    have step: "split_loop b target idx (c # s) st = split_loop b target (idx + len_utf8 c) s ?st"
      using True by (simp add: split_char_step_def)
    obtain h m t where "s = h @ m @ t"
      "prefix_end (split_loop b target (idx + len_utf8 c) s ?st) = idx + len_utf8 c + byte_len h"
      "suffix_start (split_loop b target (idx + len_utf8 c) s ?st) = idx + len_utf8 c + byte_len h + byte_len m"
      "removed_chars (split_loop b target (idx + len_utf8 c) s ?st) = saturate (length m)"
      "h \<noteq> [] \<longrightarrow> idx + len_utf8 c + byte_len h \<le> b" "m @ t \<noteq> [] \<longrightarrow> b < idx + len_utf8 c + byte_len h + len_utf8 (hd (m @ t))"
      "t \<noteq> [] \<longrightarrow> target \<le> idx + len_utf8 c + byte_len h + byte_len m"
      "m \<noteq> [] \<longrightarrow> idx + len_utf8 c + byte_len h + byte_len (butlast m) < target"
      using Cons.IH[of ?st "idx + len_utf8 c"] Cons.prems by (auto simp: add.assoc)
    then show ?thesis using True unfolding step
      by (intro exI[of _ "c # h"] exI[of _ m] exI[of _ t]) (cases "h = []"; simp add: add.assoc)
  next
    case False
    obtain m t started where eq: "c # s = m @ t" and r: "split_loop b target idx (c # s) st =
        st\<lparr>removed_chars := saturate (length m), suffix_start := idx + byte_len m, suffix_started := started\<rparr>"
      and bounds: "t \<noteq> [] \<longrightarrow> target \<le> idx + byte_len m" "m \<noteq> [] \<longrightarrow> idx + byte_len (butlast m) < target"
      using split_loop_middle[of "c # s" b idx st 0 target] False Cons.prems saturate_zero by (metis add_0 list.sel(1) not_le)
    have "hd (m @ t) = c" by (metis eq list.sel(1))
    then show ?thesis
      unfolding r using eq bounds False Cons.prems(1) by (intro exI[of _ "[]"] exI[of _ m] exI[of _ t] conjI) simp_all
  qed
qed

lemma split_string_parts:
  assumes "b + e < byte_len s"
  shows "\<exists>h m t. s = h @ m @ t \<and> split_string s b e = Some (saturate (length m), h, t) \<and>
    byte_len h \<le> b \<and> byte_len t \<le> e \<and> m \<noteq> [] \<and> b < byte_len h + len_utf8 (hd m) \<and> e < byte_len t + len_utf8 (last m)"
proof -
  let ?T = "byte_len s - e"
  let ?r = "split_loop b ?T 0 s \<lparr>prefix_end = 0, suffix_start = byte_len s, removed_chars = 0, suffix_started = False\<rparr>"
  have "\<exists>h m t. s = h @ m @ t \<and> prefix_end ?r = 0 + byte_len h \<and> suffix_start ?r = 0 + byte_len h + byte_len m \<and>
    removed_chars ?r = saturate (length m) \<and>
    (h \<noteq> [] \<longrightarrow> 0 + byte_len h \<le> b) \<and> (m @ t \<noteq> [] \<longrightarrow> b < 0 + byte_len h + len_utf8 (hd (m @ t))) \<and>
    (t \<noteq> [] \<longrightarrow> ?T \<le> 0 + byte_len h + byte_len m) \<and> (m \<noteq> [] \<longrightarrow> 0 + byte_len h + byte_len (butlast m) < ?T)"
    by (rule split_loop_phases) simp_all
  then obtain h m t where parts: "s = h @ m @ t" "prefix_end ?r = byte_len h" "suffix_start ?r = byte_len (h @ m)"
    "removed_chars ?r = saturate (length m)" "h \<noteq> [] \<longrightarrow> byte_len h \<le> b"
    "m @ t \<noteq> [] \<longrightarrow> b < byte_len h + len_utf8 (hd (m @ t))" "t \<noteq> [] \<longrightarrow> ?T \<le> byte_len h + byte_len m"
    "m \<noteq> [] \<longrightarrow> byte_len h + byte_len (butlast m) < ?T"
    unfolding add_0 byte_len_simps(3) by blast
  have "byte_len s = byte_len h + byte_len m + byte_len t" unfolding parts(1) by simp
  then have "byte_len h \<le> b" "byte_len t \<le> e" "byte_len h + byte_len m + byte_len t - e = ?T"
    using parts(5,7) by (cases "h = []"; cases "t = []"; simp)+
  moreover have "m \<noteq> []" using calculation assms parts(1) by auto
  moreover have "byte_len m = byte_len (butlast m) + len_utf8 (last m)"
    using calculation(4) by (metis append_butlast_last_id byte_len_simps add_0_right)
  moreover have "split_string s b e = Some (saturate (length m), h, t)"
  proof -
    have "slice_to (byte_len h) s = Some h" "slice_from (byte_len (h @ m)) s = Some t"
      unfolding parts(1) by (simp, metis append_assoc slices(2))
    then show ?thesis using parts assms by (auto simp: split_string_def Let_def)
  qed
  ultimately show ?thesis using parts assms by (intro exI[of _ h] exI[of _ m] exI[of _ t]) (auto simp: hd_append)
qed

text \<open>
  Truncating a text never panics and keeps its ends. A text that fits the budget is returned as it is; of a
  longer one the result is a head, the marker and a tail, the head within half of the budget and the tail
  within the rest, both as long as whole characters permit, and something was removed between them.
\<close>

theorem truncation_keeps_ends:
  assumes "0 < max_bytes"
  shows "(byte_len s \<le> max_bytes \<longrightarrow> truncate_with_byte_estimate s max_bytes use_tokens = Some s) \<and>
    (max_bytes < byte_len s \<longrightarrow> (\<exists>h m t n. s = h @ m @ t \<and> m \<noteq> [] \<and>
       truncate_with_byte_estimate s max_bytes use_tokens = Some (h @ format_truncation_marker use_tokens n @ t) \<and>
       byte_len h \<le> max_bytes div 2 \<and> byte_len t \<le> max_bytes - max_bytes div 2 \<and>
       max_bytes div 2 < byte_len h + len_utf8 (hd m) \<and> max_bytes - max_bytes div 2 < byte_len t + len_utf8 (last m)))"
proof (cases "byte_len s \<le> max_bytes")
  case True
  then show ?thesis using assms by (auto simp: truncate_with_byte_estimate_def)
next
  case False
  let ?b = "max_bytes div 2" and ?e = "max_bytes - max_bytes div 2"
  have lt: "?b + ?e < byte_len s" using False by simp
  obtain h m t where parts: "s = h @ m @ t" "split_string s ?b ?e = Some (saturate (length m), h, t)"
    "byte_len h \<le> ?b" "byte_len t \<le> ?e" "m \<noteq> []" "?b < byte_len h + len_utf8 (hd m)" "?e < byte_len t + len_utf8 (last m)"
    using split_string_parts[OF lt] by blast
  have "s \<noteq> []" using lt by auto
  then have "truncate_with_byte_estimate s max_bytes use_tokens =
      Some (h @ format_truncation_marker use_tokens (removed_units use_tokens (byte_len s - max_bytes) (saturate (length m))) @ t)"
    using False assms parts(2)
    by (simp add: truncate_with_byte_estimate_def split_budget_def assemble_truncated_output_def)
  with parts False show ?thesis by blast
qed

lemma truncation_keeps_ends_witness:
  "\<exists>h m t n. lit ''0123456789'' = h @ m @ t \<and> m \<noteq> [] \<and>
     truncate_with_byte_estimate (lit ''0123456789'') 5 False = Some (h @ format_truncation_marker False n @ t)"
proof -
  have "5 < byte_len (lit ''0123456789'')" by code_simp
  then show ?thesis using truncation_keeps_ends[of 5 "lit ''0123456789''" False] by fastforce
qed

lemma saturate_small [simp]: "n < 1000 \<Longrightarrow> saturate n = n"
  by (simp add: saturate_def)

lemma char_boundary_pos:
  "0 < n \<Longrightarrow> char_boundary n (c # s) = (if n < len_utf8 c then None else map_option Suc (char_boundary (n - len_utf8 c) s))"
  by (cases n) simp_all

lemma ascii_len: "c < 128 \<Longrightarrow> len_utf8 c = 1"
  by (simp add: len_utf8_def)

lemma sample_split: "split_string [97, 98, 99, 100, 101] 2 2 = Some (1, [97, 98], [100, 101])"
  by (simp add: split_string_def Let_def split_char_step_def slice_to_def slice_from_def char_boundary_pos ascii_len)

lemma sample_marker: "format_truncation_marker True (Suc 0) = [8230, 49] @ lit '' tokens truncated'' @ [8230]"
  by (simp add: format_truncation_marker_def decimal.simps)

text \<open>
  The token budget bounds head and tail, not the result: a text of five bytes truncated to one token, four
  bytes, comes back longer than it was, because the marker is added on top.
\<close>

theorem marker_exceeds_budget:
  "truncate_middle_with_token_budget (lit ''abcde'') 1 =
     Some (lit ''ab'' @ format_truncation_marker True 1 @ lit ''de'', Some 2) \<and>
   approx_token_count (lit ''ab'' @ format_truncation_marker True 1 @ lit ''de'') = 7"
proof
  have "lit ''abcde'' = [97, 98, 99, 100, 101]" "lit ''ab'' = [97, 98]" "lit ''de'' = [100, 101]" by (simp_all add: lit_def)
  then show "truncate_middle_with_token_budget (lit ''abcde'') 1 =
      Some (lit ''ab'' @ format_truncation_marker True 1 @ lit ''de'', Some 2)"
    by (simp add: truncate_middle_with_token_budget_def truncate_with_byte_estimate_def approx_bytes_for_tokens_def
        APPROX_BYTES_PER_TOKEN_def split_budget_def sample_split assemble_truncated_output_def removed_units_def
        approx_tokens_from_byte_count_def approx_token_count_def sample_marker ascii_len)
  show "approx_token_count (lit ''ab'' @ format_truncation_marker True 1 @ lit ''de'') = 7"
    by (simp add: approx_token_count_def sample_marker lit_def len_utf8_def APPROX_BYTES_PER_TOKEN_def)
qed

end
