(* ===== verification/Network_Approval.thy ===== *)
theory Network_Approval
  imports Tool_Orchestrator Text_Truncation "HOL-Library.AList"
begin

text \<open>
  The network approval service, \<open>core/src/tools/network_approval.rs\<close>, with the messages and rules of
  \<open>core/src/network_policy_decision.rs\<close>. A proxy asks the service about hosts that no list decides. Requests
  arrive concurrently: the first one for a host, turn and execution owns the question and asks the
  reviewers, the others wait for its answer, and what is approved or denied for the session is remembered.

  The record \<open>network_approval_service\<close> holds the shared maps and sets and the shared objects behind their
  references: cancellation tokens, and the generations of pending approvals with their set-once decisions. A
  request is at one of the points of \<open>request_point\<close>, and \<open>advance\<close> takes it from one point to the next. What
  lies between two points is one critical section of the code with what follows it without waiting, so any
  interleaving of the requests is a sequence of such steps. What the code does not decide itself, such as the
  answer of the reviewers or the end of a connection, is the input of a step. Of a call its
  identity and its permissions are kept; what it shows to reviewers is left out.
\<close>

section \<open>Requests and decisions\<close>

datatype network_protocol = NetHttp | NetHttpsConnect | NetSocks5Tcp | NetSocks5Udp

datatype network_decision = NetAllow | NetDeny rstr network_decision_source network_policy_decision

definition REASON_POLICY_DENIED :: rstr where
  "REASON_POLICY_DENIED = lit ''policy_denied''"

definition deny_with_source :: "rstr \<Rightarrow> network_decision_source \<Rightarrow> network_decision" where
  "deny_with_source reason source = NetDeny (if reason = [] then REASON_POLICY_DENIED else reason) source NetworkDecisionDeny"

definition ask_with_source :: "rstr \<Rightarrow> network_decision_source \<Rightarrow> network_decision" where
  "ask_with_source reason source = NetDeny (if reason = [] then REASON_POLICY_DENIED else reason) source NetworkDecisionAsk"

abbreviation not_allowed :: network_decision where
  "not_allowed \<equiv> deny_with_source (lit ''not_allowed'') Decider"

record network_policy_request =
  nreq_protocol :: network_protocol
  nreq_host :: rstr
  nreq_port :: nat
  nreq_environment_id :: "rstr option"
  nreq_execution_id :: "rstr option"

datatype network_request_cancellation_reason = ProcessFinished | ProcessCancelled | ConnectionClosed | RequestTimedOut

record host_approval_key =
  hak_environment_id :: rstr
  hak_host :: rstr
  hak_protocol :: rstr
  hak_port :: nat

record pending_host_approval_key =
  phk_host :: host_approval_key
  phk_turn_id :: rstr
  phk_execution_id :: "rstr option"

fun protocol_key_label :: "network_approval_protocol \<Rightarrow> rstr" where
  "protocol_key_label ProtocolHttp = lit ''http''"
| "protocol_key_label ProtocolHttps = lit ''https''"
| "protocol_key_label ProtocolSocks5Tcp = lit ''socks5-tcp''"
| "protocol_key_label ProtocolSocks5Udp = lit ''socks5-udp''"

fun approval_protocol :: "network_protocol \<Rightarrow> network_approval_protocol" where
  "approval_protocol NetHttp = ProtocolHttp"
| "approval_protocol NetHttpsConnect = ProtocolHttps"
| "approval_protocol NetSocks5Tcp = ProtocolSocks5Tcp"
| "approval_protocol NetSocks5Udp = ProtocolSocks5Udp"

definition key_from_request :: "network_policy_request \<Rightarrow> network_approval_protocol \<Rightarrow> rstr \<Rightarrow> host_approval_key" where
  "key_from_request req prot environment_id =
     \<lparr>hak_environment_id = environment_id, hak_host = to_ascii_lowercase (nreq_host req),
      hak_protocol = protocol_key_label prot, hak_port = nreq_port req\<rparr>"

datatype pending_approval_decision = AllowOnce | AllowForSession | DenyPending

fun to_network_decision :: "pending_approval_decision \<Rightarrow> network_decision" where
  "to_network_decision DenyPending = not_allowed"
| "to_network_decision _ = NetAllow"

definition allows_network_approval_flow :: "ask_for_approval \<Rightarrow> bool" where
  "allows_network_approval_flow policy \<longleftrightarrow> policy \<noteq> Never"

definition permission_profile_allows_network_approval_flow :: "'u permission_profile \<Rightarrow> bool" where
  "permission_profile_allows_network_approval_flow p \<longleftrightarrow> (case p of Managed _ _ \<Rightarrow> True | _ \<Rightarrow> False)"

definition format_network_target :: "rstr \<Rightarrow> rstr \<Rightarrow> nat \<Rightarrow> rstr" where
  "format_network_target prot h port = prot @ lit ''://'' @ h @ lit '':'' @ decimal port"

definition approval_id_for_key :: "host_approval_key \<Rightarrow> rstr" where
  "approval_id_for_key k =
     lit ''network#'' @ hak_environment_id k @ lit ''#'' @ hak_protocol k @ lit ''#'' @ hak_host k @ lit ''#'' @ decimal (hak_port k)"

section \<open>The service\<close>

record 'u active_network_approval_call =
  call_registration_id :: rstr
  call_turn_id :: rstr
  call_environment_id :: rstr
  call_permission_profile :: "'u permission_profile"
  call_token :: nat

record 'u network_approval_service =
  active_calls :: "(rstr \<times> 'u active_network_approval_call) list"
  call_outcomes :: "rstr \<Rightarrow> rstr option"
  pending_host_approvals :: "pending_host_approval_key \<Rightarrow> nat option"
  session_policy_commit_lock :: "nat option"
  session_approved_hosts :: "host_approval_key set"
  session_denied_hosts :: "host_approval_key set"
  cancelled_tokens :: "nat set"
  generation_decisions :: "nat \<Rightarrow> pending_approval_decision option"
  next_generation :: nat

definition service_default :: "'u network_approval_service" where
  "service_default =
     \<lparr>active_calls = [], call_outcomes = (\<lambda>_. None), pending_host_approvals = (\<lambda>_. None),
      session_policy_commit_lock = None, session_approved_hosts = {}, session_denied_hosts = {},
      cancelled_tokens = {}, generation_decisions = (\<lambda>_. None), next_generation = 0\<rparr>"

definition cancel :: "nat \<Rightarrow> 'u network_approval_service \<Rightarrow> 'u network_approval_service" where
  "cancel token s = s\<lparr>cancelled_tokens := insert token (cancelled_tokens s)\<rparr>"

definition is_cancelled :: "'u network_approval_service \<Rightarrow> nat \<Rightarrow> bool" where
  "is_cancelled s token \<longleftrightarrow> token \<in> cancelled_tokens s"

definition set_decision ::
    "nat \<Rightarrow> pending_approval_decision \<Rightarrow> 'u network_approval_service \<Rightarrow> 'u network_approval_service" where
  "set_decision g d s =
     (if generation_decisions s g = None then s\<lparr>generation_decisions := (generation_decisions s)(g \<mapsto> d)\<rparr> else s)"

text \<open>The hosts approved in this session replace those of another one.\<close>

definition sync_session_approved_hosts_to ::
    "'u network_approval_service \<Rightarrow> 'u network_approval_service \<Rightarrow> 'u network_approval_service" where
  "sync_session_approved_hosts_to s other = other\<lparr>session_approved_hosts := session_approved_hosts s\<rparr>"

definition register_call :: "'u active_network_approval_call \<Rightarrow> 'u network_approval_service \<Rightarrow> 'u network_approval_service" where
  "register_call call s = s\<lparr>active_calls := AList.update (call_registration_id call) call (active_calls s)\<rparr>"

definition remove_call :: "rstr \<Rightarrow> 'u network_approval_service \<Rightarrow> rstr option \<times> 'u network_approval_service" where
  "remove_call registration_id s =
     (call_outcomes s registration_id,
      s\<lparr>active_calls := AList.delete registration_id (active_calls s),
        call_outcomes := (call_outcomes s)(registration_id := None)\<rparr>)"

definition unregister_call :: "rstr \<Rightarrow> 'u network_approval_service \<Rightarrow> 'u network_approval_service" where
  "unregister_call registration_id s = snd (remove_call registration_id s)"

definition resolve_single_active_call :: "'u network_approval_service \<Rightarrow> 'u active_network_approval_call option" where
  "resolve_single_active_call s = (case active_calls s of [(_, call)] \<Rightarrow> Some call | _ \<Rightarrow> None)"

definition resolve_active_call_by_execution_id ::
    "'u network_approval_service \<Rightarrow> rstr \<Rightarrow> 'u active_network_approval_call option" where
  "resolve_active_call_by_execution_id s execution_id = map_of (active_calls s) execution_id"

datatype 'u active_network_approval_attribution =
    NoCall
  | SingleCall "'u active_network_approval_call"
  | AmbiguousCall

definition resolve_active_call_attribution ::
    "'u network_approval_service \<Rightarrow> 'u active_network_approval_attribution" where
  "resolve_active_call_attribution s =
     (case active_calls s of [] \<Rightarrow> NoCall | [(_, call)] \<Rightarrow> SingleCall call | _ \<Rightarrow> AmbiguousCall)"

record 'u network_request_attribution =
  att_owner_call :: "'u active_network_approval_call option"
  att_environment_id :: "rstr option"

definition resolve_request_attribution ::
    "'u network_approval_service \<Rightarrow> network_policy_request \<Rightarrow> 'u network_request_attribution option" where
  "resolve_request_attribution s req =
     (case nreq_execution_id req of
        Some execution_id \<Rightarrow>
          Option.bind (resolve_active_call_by_execution_id s execution_id) (\<lambda>call.
            let environment_id = (case nreq_environment_id req of Some e \<Rightarrow> e | None \<Rightarrow> call_environment_id call)
            in if call_environment_id call = environment_id
               then Some \<lparr>att_owner_call = Some call, att_environment_id = Some environment_id\<rparr> else None)
      | None \<Rightarrow>
          (case nreq_environment_id req of
             Some environment_id \<Rightarrow>
               Some \<lparr>att_owner_call =
                       (case resolve_active_call_attribution s of
                          SingleCall call \<Rightarrow> if call_environment_id call = environment_id then Some call else None
                        | _ \<Rightarrow> None),
                     att_environment_id = Some environment_id\<rparr>
           | None \<Rightarrow>
               (case resolve_active_call_attribution s of
                  NoCall \<Rightarrow> Some \<lparr>att_owner_call = None, att_environment_id = None\<rparr>
                | SingleCall call \<Rightarrow>
                    Some \<lparr>att_owner_call = Some call, att_environment_id = Some (call_environment_id call)\<rparr>
                | AmbiguousCall \<Rightarrow> None)))"

definition get_or_create_pending_approval ::
    "pending_host_approval_key \<Rightarrow> 'u network_approval_service \<Rightarrow> (nat \<times> bool) \<times> 'u network_approval_service" where
  "get_or_create_pending_approval key s =
     (case pending_host_approvals s key of
        Some g \<Rightarrow> ((g, False), s)
      | None \<Rightarrow>
          ((next_generation s, True),
           s\<lparr>pending_host_approvals := (pending_host_approvals s)(key \<mapsto> next_generation s),
             next_generation := Suc (next_generation s)\<rparr>))"

definition store_call_outcome ::
    "rstr \<Rightarrow> rstr \<Rightarrow> 'u network_approval_service \<Rightarrow> nat option \<times> 'u network_approval_service" where
  "store_call_outcome registration_id outcome s =
     (case map_of (active_calls s) registration_id of
        None \<Rightarrow> (None, s)
      | Some call \<Rightarrow>
          (Some (call_token call), s\<lparr>call_outcomes := (call_outcomes s)(registration_id \<mapsto> outcome)\<rparr>))"

definition record_call_outcome :: "rstr \<Rightarrow> rstr \<Rightarrow> 'u network_approval_service \<Rightarrow> 'u network_approval_service" where
  "record_call_outcome registration_id outcome s =
     (case store_call_outcome registration_id outcome s of
        (Some token, s') \<Rightarrow> cancel token s'
      | (None, s') \<Rightarrow> s')"

definition record_call_outcome_if_absent :: "rstr \<Rightarrow> rstr \<Rightarrow> 'u network_approval_service \<Rightarrow> 'u network_approval_service" where
  "record_call_outcome_if_absent registration_id outcome s =
     (case map_of (active_calls s) registration_id of
        None \<Rightarrow> s
      | Some call \<Rightarrow>
          cancel (call_token call)
            (if call_outcomes s registration_id = None
             then s\<lparr>call_outcomes := (call_outcomes s)(registration_id \<mapsto> outcome)\<rparr> else s))"

section \<open>Blocked requests\<close>

record blocked_request =
  blocked_host :: rstr
  blocked_reason :: rstr
  blocked_execution_id :: "rstr option"
  blocked_decision :: "rstr option"

definition parse_network_policy_decision :: "rstr \<Rightarrow> network_policy_decision option" where
  "parse_network_policy_decision v =
     (if v = lit ''deny'' then Some NetworkDecisionDeny
      else if v = lit ''ask'' then Some NetworkDecisionAsk else None)"

definition denial_detail :: "rstr \<Rightarrow> rstr" where
  "denial_detail reason =
     (if reason = lit ''denied'' then lit ''domain is explicitly denied by policy and cannot be approved from this prompt''
      else if reason = lit ''not_allowed'' then lit ''domain is not on the allowlist for the current sandbox mode''
      else if reason = lit ''not_allowed_local'' then lit ''local/private network addresses are blocked by the sandbox policy''
      else if reason = lit ''method_not_allowed'' then lit ''request method is blocked by the current network mode''
      else if reason = lit ''proxy_disabled'' then lit ''network proxy is disabled''
      else lit ''request is blocked by network policy'')"

definition denied_network_policy_message :: "blocked_request \<Rightarrow> rstr option" where
  "denied_network_policy_message blocked =
     (if Option.bind (blocked_decision blocked) parse_network_policy_decision \<noteq> Some NetworkDecisionDeny then None
      else if trim (blocked_host blocked) = [] then Some (lit ''Network access was blocked by policy.'')
      else Some (lit ''Network access to '' @ [34] @ trim (blocked_host blocked) @ [34] @ lit '' was blocked: '' @
                 denial_detail (blocked_reason blocked) @ lit ''.''))"

definition record_blocked_request :: "blocked_request \<Rightarrow> 'u network_approval_service \<Rightarrow> 'u network_approval_service" where
  "record_blocked_request blocked s =
     (case denied_network_policy_message blocked of
        None \<Rightarrow> s
      | Some message \<Rightarrow>
          (case (case blocked_execution_id blocked of
                   Some execution_id \<Rightarrow> resolve_active_call_by_execution_id s execution_id
                 | None \<Rightarrow> resolve_single_active_call s) of
             None \<Rightarrow> s
           | Some call \<Rightarrow> record_call_outcome_if_absent (call_registration_id call) message s))"

section \<open>Finishing a call\<close>

definition ABANDONED_NETWORK_APPROVAL_MESSAGE :: rstr where
  "ABANDONED_NETWORK_APPROVAL_MESSAGE = lit ''network approval was cancelled before a decision was returned''"

definition REJECTION_MESSAGE_MAX_TOKENS :: nat where
  "REJECTION_MESSAGE_MAX_TOKENS = 900"

definition truncate_rejection_message :: "rstr \<Rightarrow> rstr option" where
  "truncate_rejection_message message =
     map_option fst (truncate_middle_with_token_budget message REJECTION_MESSAGE_MAX_TOKENS)"

record deferred_network_approval =
  deferred_registration_id :: rstr
  deferred_token :: nat
  deferred_finish_outcome :: "rstr option option"

definition network_approval_outcome_to_result :: "rstr option \<Rightarrow> (unit, tool_error) result option" where
  "network_approval_outcome_to_result outcome =
     (case outcome of
        Some rejection \<Rightarrow> map_option (\<lambda>m. Err (Rejected m)) (truncate_rejection_message rejection)
      | None \<Rightarrow> Some (Ok ()))"

definition abandoned_network_approval_outcome :: "'u network_approval_service \<Rightarrow> nat \<Rightarrow> rstr option" where
  "abandoned_network_approval_outcome s token =
     (if is_cancelled s token then Some ABANDONED_NETWORK_APPROVAL_MESSAGE else None)"

text \<open>Finishing is done once; a second finish sees the outcome of the first.\<close>

definition deferred_finish ::
    "deferred_network_approval \<Rightarrow> 'u network_approval_service \<Rightarrow>
     (unit, tool_error) result option \<times> deferred_network_approval \<times> 'u network_approval_service" where
  "deferred_finish d s =
     (let (outcome, s') = (case deferred_finish_outcome d of
                             Some outcome \<Rightarrow> (outcome, s)
                           | None \<Rightarrow> remove_call (deferred_registration_id d) s)
      in (network_approval_outcome_to_result (or_else outcome (abandoned_network_approval_outcome s' (deferred_token d))),
          d\<lparr>deferred_finish_outcome := Some outcome\<rparr>, s'))"

section \<open>Saving a network policy amendment\<close>

fun split_once_str :: "rstr \<Rightarrow> rstr \<Rightarrow> (rstr \<times> rstr) option" where
  "split_once_str d [] = (if d = [] then Some ([], []) else None)"
| "split_once_str d (c # s) =
     (case strip_prefix d (c # s) of
        Some r \<Rightarrow> Some ([], r)
      | None \<Rightarrow> map_option (\<lambda>(a, b). (c # a, b)) (split_once_str d s))"

text \<open>\<open>is_ip\<close> is whether a text parses as an \<open>IpAddr\<close>.\<close>

definition normalize_ip_literal :: "(rstr \<Rightarrow> bool) \<Rightarrow> rstr \<Rightarrow> rstr option" where
  "normalize_ip_literal is_ip h =
     (if is_ip h then Some h
      else find_map (\<lambda>d. case split_once_str d h of
                            Some (ip, scope) \<Rightarrow> if is_ip ip then Some (ip @ lit ''%'' @ scope) else None
                          | None \<Rightarrow> None) [lit ''%25'', lit ''%''])"

definition normalize_dns_host_or_ip_literal :: "(rstr \<Rightarrow> bool) \<Rightarrow> rstr \<Rightarrow> rstr" where
  "normalize_dns_host_or_ip_literal is_ip h =
     (let h' = trim_end_matches (\<lambda>c. c = 46) (to_ascii_lowercase h)
      in case normalize_ip_literal is_ip h' of Some ip \<Rightarrow> ip | None \<Rightarrow> h')"

definition normalize_host :: "(rstr \<Rightarrow> bool) \<Rightarrow> rstr \<Rightarrow> rstr" where
  "normalize_host is_ip raw =
     (let h = trim raw
      in if starts_with h [91] \<and> 93 \<in> set h
         then normalize_dns_host_or_ip_literal is_ip (tl (takeWhile (\<lambda>c. c \<noteq> 93) h))
         else if length (filter (\<lambda>c. c = 58) h) = 1
         then normalize_dns_host_or_ip_literal is_ip (takeWhile (\<lambda>c. c \<noteq> 58) h)
         else normalize_dns_host_or_ip_literal is_ip h)"

definition validated_network_policy_amendment_host ::
    "(rstr \<Rightarrow> bool) \<Rightarrow> network_policy_amendment \<Rightarrow> network_approval_context \<Rightarrow> rstr option" where
  "validated_network_policy_amendment_host is_ip amendment ctx =
     (if normalize_host is_ip (npa_host amendment) = normalize_host is_ip (nac_host ctx)
      then Some (normalize_host is_ip (nac_host ctx)) else None)"

record exec_policy_network_rule_amendment =
  epn_protocol :: network_rule_protocol
  epn_decision :: decision
  epn_justification :: rstr

definition execpolicy_network_rule_amendment ::
    "network_policy_amendment \<Rightarrow> network_approval_context \<Rightarrow> rstr \<Rightarrow> exec_policy_network_rule_amendment" where
  "execpolicy_network_rule_amendment amendment ctx h =
     (let label = (case nac_protocol ctx of
                     ProtocolHttp \<Rightarrow> lit ''http''
                   | ProtocolHttps \<Rightarrow> lit ''https_connect''
                   | ProtocolSocks5Tcp \<Rightarrow> lit ''socks5_tcp''
                   | ProtocolSocks5Udp \<Rightarrow> lit ''socks5_udp'');
          verb = (case npa_action amendment of NetworkAllow \<Rightarrow> lit ''Allow'' | NetworkDeny \<Rightarrow> lit ''Deny'')
      in \<lparr>epn_protocol = (case nac_protocol ctx of
                            ProtocolHttp \<Rightarrow> Http
                          | ProtocolHttps \<Rightarrow> Https
                          | ProtocolSocks5Tcp \<Rightarrow> Socks5Tcp
                          | ProtocolSocks5Udp \<Rightarrow> Socks5Udp),
          epn_decision = (case npa_action amendment of NetworkAllow \<Rightarrow> Allow | NetworkDeny \<Rightarrow> Forbidden),
          epn_justification = verb @ lit '' '' @ label @ lit '' access to '' @ h\<rparr>)"

text \<open>
  What saving an amendment calls: whether the refresh lock is open, the lists of a running proxy, and the rule
  added to the policy files.
\<close>

record persist_services =
  refresh_lock_open :: bool
  proxy_add_domain :: "(network_policy_rule_action \<Rightarrow> rstr \<Rightarrow> (unit, rstr) result) option"
  append_network_rule :: "rstr \<Rightarrow> exec_policy_network_rule_amendment \<Rightarrow> (unit, rstr) result"

text \<open>Whether the policy took effect, which the owner is told of, and whether it was saved.\<close>

definition persist_network_policy_amendment ::
    "(rstr \<Rightarrow> bool) \<Rightarrow> persist_services \<Rightarrow> network_policy_amendment \<Rightarrow> network_approval_context \<Rightarrow> bool \<times> bool" where
  "persist_network_policy_amendment is_ip ps amendment ctx =
     (if \<not> refresh_lock_open ps then (False, False)
      else (case validated_network_policy_amendment_host is_ip amendment ctx of
              None \<Rightarrow> (False, False)
            | Some h \<Rightarrow>
                (let saved = is_ok (append_network_rule ps h (execpolicy_network_rule_amendment amendment ctx h))
                 in case proxy_add_domain ps of
                      Some add \<Rightarrow> if is_ok (add (npa_action amendment) h) then (True, saved) else (False, False)
                    | None \<Rightarrow> (saved, saved))))"

section \<open>The owner of a question\<close>

record 'u pending_owner =
  own_key :: pending_host_approval_key
  own_generation :: nat
  own_call :: "'u active_network_approval_call option"
  own_decision_on_drop :: pending_approval_decision
  own_context :: network_approval_context
  own_target :: rstr

definition policy_denial_message :: "rstr \<Rightarrow> rstr" where
  "policy_denial_message target = lit ''Network access to '' @ [34] @ target @ [34] @ lit '' was blocked by policy.''"

definition cancel_execution_if_denied ::
    "'u pending_owner \<Rightarrow> pending_approval_decision \<Rightarrow> 'u network_approval_service \<Rightarrow> 'u network_approval_service" where
  "cancel_execution_if_denied ow d s =
     (case own_call ow of
        Some call \<Rightarrow> if d = DenyPending then cancel (call_token call) s else s
      | None \<Rightarrow> s)"

definition remove_generation :: "'u pending_owner \<Rightarrow> 'u network_approval_service \<Rightarrow> 'u network_approval_service" where
  "remove_generation ow s =
     (if pending_host_approvals s (own_key ow) = Some (own_generation ow)
      then s\<lparr>pending_host_approvals := (pending_host_approvals s)(own_key ow := None)\<rparr> else s)"

definition publish_and_remove ::
    "'u pending_owner \<Rightarrow> pending_approval_decision \<Rightarrow> 'u network_approval_service \<Rightarrow> 'u network_approval_service" where
  "publish_and_remove ow d s = set_decision (own_generation ow) d (remove_generation ow s)"

text \<open>What the end of an unfinished owner does before it removes and publishes.\<close>

definition owner_drop ::
    "network_request_cancellation_reason option \<Rightarrow> nat option \<Rightarrow> 'u pending_owner \<Rightarrow> 'u network_approval_service \<Rightarrow>
     'u network_approval_service" where
  "owner_drop reason elapsed ow s =
     (if reason = Some ProcessFinished then s
      else cancel_execution_if_denied ow (own_decision_on_drop ow)
        (case (phk_execution_id (own_key ow), elapsed) of
           (Some registration_id, Some ms) \<Rightarrow>
             if own_decision_on_drop ow = DenyPending
             then record_call_outcome_if_absent registration_id
                    (lit ''Network request disconnected after '' @ decimal ms @ lit '' ms, before approval could complete'') s
             else s
         | _ \<Rightarrow> s))"

definition record_owner_outcome ::
    "'u active_network_approval_call option \<Rightarrow> rstr \<Rightarrow> 'u network_approval_service \<Rightarrow> 'u network_approval_service" where
  "record_owner_outcome owner_call outcome s =
     (case owner_call of
        Some call \<Rightarrow> record_call_outcome (call_registration_id call) outcome s
      | None \<Rightarrow> s)"

section \<open>A request\<close>

record 'u network_turn =
  turn_sub_id :: rstr
  turn_primary_environment_id :: "rstr option"
  turn_environment_profiles :: "(rstr \<times> 'u permission_profile) list"
  turn_approval_policy :: ask_for_approval

datatype 'u request_point =
    Arrived network_policy_request
  | Attributed network_policy_request "'u network_request_attribution"
  | Keyed network_policy_request "'u active_network_approval_call option" host_approval_key "'u network_turn option"
  | Missed network_policy_request "'u active_network_approval_call option" host_approval_key "'u network_turn option"
  | Waiting pending_host_approval_key nat
  | Owning "'u pending_owner" "'u network_turn"
  | Asking "'u pending_owner"
  | Reviewed "'u pending_owner" review_decision
  | Committing "'u pending_owner" review_decision
  | Amended "'u pending_owner" network_policy_amendment bool
  | Lifting "'u pending_owner" network_policy_amendment bool
  | Revoking "'u pending_owner" network_policy_amendment bool
  | Removing "'u pending_owner" pending_approval_decision "network_decision option"
  | Publishing "'u pending_owner" pending_approval_decision "network_decision option"
  | Answered "network_decision option"

text \<open>
  What a step shows: a new generation, an answer of the reviewers with what telemetry records of a failure, an
  amendment and whether it took effect, the end of a session denial, the decision of an owner with its telemetry,
  hosts taken over from another session, and the answer to a request with its host and, when it was not
  answered from the session, the question it belongs to.
\<close>

datatype net_event =
    Internal
  | Opened pending_host_approval_key nat
  | ReviewAnswered pending_host_approval_key "(review_decision, tool_error) result" "review_decision option"
  | PolicyPersisted pending_host_approval_key network_approval_context network_policy_amendment bool
  | DenialLifted host_approval_key
  | Resolved pending_host_approval_key review_decision pending_approval_decision review_decision
  | Imported "host_approval_key set"
  | Responded "host_approval_key option" "pending_host_approval_key option" network_decision

datatype 'u step_input =
    Go
  | ActiveTurn "'u network_turn option"
  | ReviewResult "(review_decision, tool_error) result"
  | SeeCancelled
  | SessionGone
  | Persist persist_services
  | Dropped "network_request_cancellation_reason option" "nat option"

type_synonym 'u step_result = "net_event \<times> 'u request_point \<times> 'u network_approval_service"

definition respond ::
    "host_approval_key option \<Rightarrow> network_decision \<Rightarrow> 'u network_approval_service \<Rightarrow> 'u step_result" where
  "respond key d s = (Responded key None d, Answered (Some d), s)"

definition attribute_request :: "network_policy_request \<Rightarrow> 'u network_approval_service \<Rightarrow> 'u step_result" where
  "attribute_request req s =
     (case resolve_request_attribution s req of
        None \<Rightarrow> respond None not_allowed s
      | Some att \<Rightarrow> (Internal, Attributed req att, s))"

definition key_request ::
    "'u network_turn option \<Rightarrow> network_policy_request \<Rightarrow> 'u network_request_attribution \<Rightarrow> 'u network_approval_service \<Rightarrow>
     'u step_result" where
  "key_request turn req att s =
     (if (case att_owner_call att of Some call \<Rightarrow> is_cancelled s (call_token call) | None \<Rightarrow> False)
      then respond None not_allowed s
      else (case or_else (att_environment_id att) (Option.bind turn turn_primary_environment_id) of
              None \<Rightarrow> respond None not_allowed s
            | Some environment_id \<Rightarrow>
                (Internal, Keyed req (att_owner_call att)
                   (key_from_request req (approval_protocol (nreq_protocol req)) environment_id) turn, s)))"

text \<open>The session sets are read under the commit lock: the step waits while the lock is held.\<close>

definition look_up_host ::
    "network_policy_request \<Rightarrow> 'u active_network_approval_call option \<Rightarrow> host_approval_key \<Rightarrow> 'u network_turn option \<Rightarrow>
     'u network_approval_service \<Rightarrow> 'u step_result option" where
  "look_up_host req owner_call key turn s =
     (if session_policy_commit_lock s \<noteq> None then None
      else if key \<in> session_denied_hosts s then Some (respond (Some key) not_allowed s)
      else if key \<in> session_approved_hosts s then Some (respond (Some key) NetAllow s)
      else Some (Internal, Missed req owner_call key turn, s))"

definition request_target :: "network_policy_request \<Rightarrow> host_approval_key \<Rightarrow> rstr" where
  "request_target req key = format_network_target (hak_protocol key) (nreq_host req) (hak_port key)"

definition join_pending ::
    "network_policy_request \<Rightarrow> 'u active_network_approval_call option \<Rightarrow> host_approval_key \<Rightarrow> 'u network_turn option \<Rightarrow>
     'u network_approval_service \<Rightarrow> 'u step_result" where
  "join_pending req owner_call key turn s =
     (case turn of
        None \<Rightarrow>
          respond (Some key) not_allowed
            (record_owner_outcome owner_call (policy_denial_message (request_target req key)) s)
      | Some tc \<Rightarrow>
          (let pending_key =
                 \<lparr>phk_host = key,
                  phk_turn_id = (case owner_call of Some call \<Rightarrow> call_turn_id call | None \<Rightarrow> turn_sub_id tc),
                  phk_execution_id = map_option call_registration_id owner_call\<rparr>;
               ((g, is_owner), s') = get_or_create_pending_approval pending_key s
           in if is_owner
              then (Opened pending_key g,
                    Owning \<lparr>own_key = pending_key, own_generation = g, own_call = owner_call,
                      own_decision_on_drop = DenyPending,
                      own_context = \<lparr>nac_host = nreq_host req, nac_protocol = approval_protocol (nreq_protocol req)\<rparr>,
                      own_target = request_target req key\<rparr> tc, s')
              else (Internal, Waiting pending_key g, s')))"

definition wait_for_decision ::
    "pending_host_approval_key \<Rightarrow> nat \<Rightarrow> 'u network_approval_service \<Rightarrow> 'u step_result option" where
  "wait_for_decision pending_key g s =
     map_option (\<lambda>d. (Responded (Some (phk_host pending_key)) (Some pending_key) (to_network_decision d),
                        Answered (Some (to_network_decision d)), s)) (generation_decisions s g)"

text \<open>\<open>complete\<close>, up to removing and publishing, which are steps of their own.\<close>

definition complete ::
    "net_event \<Rightarrow> 'u pending_owner \<Rightarrow> pending_approval_decision \<Rightarrow> 'u network_approval_service \<Rightarrow> 'u step_result" where
  "complete e ow d s = (e, Removing ow d (Some (to_network_decision d)), cancel_execution_if_denied ow d s)"

definition owner_permission_profile :: "'u pending_owner \<Rightarrow> 'u network_turn \<Rightarrow> 'u permission_profile option" where
  "owner_permission_profile ow turn =
     (case own_call ow of
        Some call \<Rightarrow> Some (call_permission_profile call)
      | None \<Rightarrow> map_of (turn_environment_profiles turn) (hak_environment_id (phk_host (own_key ow))))"

definition check_approval_flow ::
    "'u pending_owner \<Rightarrow> 'u network_turn \<Rightarrow> 'u network_approval_service \<Rightarrow> 'u step_result" where
  "check_approval_flow ow turn s =
     (if \<not> (case owner_permission_profile ow turn of
               Some p \<Rightarrow> permission_profile_allows_network_approval_flow p
             | None \<Rightarrow> False) \<or>
         \<not> allows_network_approval_flow (turn_approval_policy turn)
      then complete Internal ow DenyPending
             (record_owner_outcome (own_call ow) (policy_denial_message (own_target ow)) s)
      else (Internal, Asking ow, s))"

text \<open>What the reviewers are asked: the action, which names its hook run and its target, and the context.\<close>

definition network_review_action :: "'u pending_owner \<Rightarrow> 'v approval_action" where
  "network_review_action ow =
     (let approval_id = approval_id_for_key (phk_host (own_key ow))
      in NetworkAccess
           (case own_call ow of Some call \<Rightarrow> approval_id @ lit ''#'' @ call_registration_id call | None \<Rightarrow> approval_id)
           (own_target ow))"

definition network_review_context :: "'u pending_owner \<Rightarrow> 'u network_turn \<Rightarrow> bool \<Rightarrow> rstr \<Rightarrow> approval_context" where
  "network_review_context ow turn strict uuid =
     \<lparr>actx_policy = turn_approval_policy turn,
      actx_call_id = approval_id_for_key (phk_host (own_key ow)) @ lit ''#'' @ uuid,
      actx_strict_auto_review = strict,
      actx_approval_reason = Some (nac_host (own_context ow) @ lit '' is not in the allowed_domains''),
      actx_retry_reason = Some (policy_denial_message (own_target ow)),
      actx_network = Some (own_context ow)\<rparr>"

text \<open>The outcome and the telemetry of a failed review; \<open>show_err\<close> is \<open>Display\<close> of \<open>CodexErr\<close>.\<close>

fun review_error_outcome :: "(codex_err \<Rightarrow> rstr) \<Rightarrow> tool_error \<Rightarrow> rstr" where
  "review_error_outcome show_err (Rejected rejection) = rejection"
| "review_error_outcome show_err (Codex err) =
     (if err = TurnAborted then lit ''rejected by user'' else lit ''Error while requesting approval: '' @ show_err err)"

fun review_error_telemetry :: "tool_error \<Rightarrow> review_decision" where
  "review_error_telemetry (Rejected _) = Denied (lit ''network approval was rejected'')"
| "review_error_telemetry (Codex err) = (if err = TurnAborted then Abort else Denied (lit ''network approval failed''))"

definition is_deny_amendment :: "review_decision \<Rightarrow> bool" where
  "is_deny_amendment d \<longleftrightarrow> (case d of NetworkPolicyAmendment a \<Rightarrow> npa_action a = NetworkDeny | _ \<Rightarrow> False)"

definition take_review ::
    "(codex_err \<Rightarrow> rstr) \<Rightarrow> (review_decision, tool_error) result \<Rightarrow> 'u pending_owner \<Rightarrow> 'u network_approval_service \<Rightarrow>
     'u step_result" where
  "take_review show_err r ow s =
     (case r of
        Ok d \<Rightarrow>
          (ReviewAnswered (own_key ow) (Ok d) None, Reviewed ow d,
           case own_call ow of
             Some call \<Rightarrow> if is_deny_amendment d
                         then snd (store_call_outcome (call_registration_id call) (lit ''rejected by user'') s) else s
           | None \<Rightarrow> s)
      | Err e \<Rightarrow>
          complete (ReviewAnswered (own_key ow) (Err e) (Some (review_error_telemetry e))) ow DenyPending
            (record_owner_outcome (own_call ow) (review_error_outcome show_err e) s))"

fun needs_commit_lock :: "review_decision \<Rightarrow> bool" where
  "needs_commit_lock Approved = True"
| "needs_commit_lock (ApprovedExecpolicyAmendment _) = True"
| "needs_commit_lock ApprovedForSession = True"
| "needs_commit_lock (NetworkPolicyAmendment _) = True"
| "needs_commit_lock _ = False"

definition begin_commit ::
    "nat \<Rightarrow> 'u pending_owner \<Rightarrow> review_decision \<Rightarrow> 'u network_approval_service \<Rightarrow> 'u step_result option" where
  "begin_commit t ow d s =
     (if \<not> needs_commit_lock d then Some (Internal, Committing ow d, s)
      else if session_policy_commit_lock s = None
      then Some (Internal, Committing ow d, s\<lparr>session_policy_commit_lock := Some t\<rparr>) else None)"

definition network_telemetry_decision :: "review_decision \<Rightarrow> bool \<Rightarrow> pending_approval_decision \<Rightarrow> review_decision" where
  "network_telemetry_decision d amendment_applied resolved =
     (let was_amendment = (case d of NetworkPolicyAmendment _ \<Rightarrow> True | _ \<Rightarrow> False)
      in if was_amendment \<and> \<not> amendment_applied
         then (case resolved of
                 AllowOnce \<Rightarrow> Approved
               | AllowForSession \<Rightarrow> ApprovedForSession
               | DenyPending \<Rightarrow> Denied (lit ''network approval was not applied''))
         else if resolved = DenyPending \<and> \<not> was_amendment then Denied (lit ''network approval was not applied'')
         else d)"

definition resolve_owner ::
    "'u pending_owner \<Rightarrow> review_decision \<Rightarrow> bool \<Rightarrow> pending_approval_decision \<Rightarrow> 'u network_approval_service \<Rightarrow> 'u step_result" where
  "resolve_owner ow d amendment_applied resolved s =
     complete (Resolved (own_key ow) d resolved (network_telemetry_decision d amendment_applied resolved))
       (ow\<lparr>own_decision_on_drop := resolved\<rparr>) resolved s"

definition resolve_review ::
    "'u pending_owner \<Rightarrow> review_decision \<Rightarrow> 'u network_approval_service \<Rightarrow> pending_approval_decision \<times> 'u network_approval_service" where
  "resolve_review ow d s =
     (let key = phk_host (own_key ow);
          refused = record_owner_outcome (own_call ow) (policy_denial_message (own_target ow)) s
      in case d of
           Approved \<Rightarrow> if key \<in> session_denied_hosts s then (DenyPending, refused) else (AllowOnce, s)
         | ApprovedExecpolicyAmendment _ \<Rightarrow> if key \<in> session_denied_hosts s then (DenyPending, refused) else (AllowOnce, s)
         | ApprovedForSession \<Rightarrow>
             if key \<in> session_denied_hosts s then (DenyPending, refused)
             else (AllowForSession, s\<lparr>session_approved_hosts := insert key (session_approved_hosts s)\<rparr>)
         | _ \<Rightarrow> (DenyPending, record_owner_outcome (own_call ow) (lit ''Error while requesting approval'') s))"

definition commit_review ::
    "'u pending_owner \<Rightarrow> review_decision \<Rightarrow> 'u network_approval_service \<Rightarrow> 'u step_result option" where
  "commit_review ow d s =
     (case d of
        NetworkPolicyAmendment _ \<Rightarrow> None
      | _ \<Rightarrow> (let (resolved, s') = resolve_review ow d s in Some (resolve_owner ow d False resolved s')))"

definition applied_decision :: "network_policy_amendment \<Rightarrow> pending_approval_decision" where
  "applied_decision a = (case npa_action a of NetworkAllow \<Rightarrow> AllowForSession | NetworkDeny \<Rightarrow> DenyPending)"

definition persist_amendment ::
    "(rstr \<Rightarrow> bool) \<Rightarrow> persist_services \<Rightarrow> 'u pending_owner \<Rightarrow> review_decision \<Rightarrow> 'u network_approval_service \<Rightarrow> 'u step_result option" where
  "persist_amendment is_ip ps ow d s =
     (case d of
        NetworkPolicyAmendment a \<Rightarrow>
          (let (took_effect, saved) = persist_network_policy_amendment is_ip ps a (own_context ow);
               ow' = (if took_effect then ow\<lparr>own_decision_on_drop := applied_decision a\<rparr> else ow)
           in Some (PolicyPersisted (own_key ow) (own_context ow) a took_effect, Amended ow' a saved, s))
      | _ \<Rightarrow> None)"

definition apply_amendment ::
    "'u pending_owner \<Rightarrow> network_policy_amendment \<Rightarrow> bool \<Rightarrow> 'u network_approval_service \<Rightarrow> 'u step_result" where
  "apply_amendment ow a saved s =
     (let key = phk_host (own_key ow)
      in case npa_action a of
           NetworkAllow \<Rightarrow>
             if own_decision_on_drop ow = AllowForSession
             then (DenialLifted key, Lifting ow a saved, s\<lparr>session_denied_hosts := session_denied_hosts s - {key}\<rparr>)
             else resolve_owner ow (NetworkPolicyAmendment a) saved DenyPending
                    (record_owner_outcome (own_call ow) (policy_denial_message (own_target ow)) s)
         | NetworkDeny \<Rightarrow>
             (let s' = record_owner_outcome (own_call ow) (lit ''rejected by user'') s
              in (Internal, Revoking ow a saved, s'\<lparr>session_approved_hosts := session_approved_hosts s' - {key}\<rparr>)))"

definition approve_amended_host ::
    "'u pending_owner \<Rightarrow> network_policy_amendment \<Rightarrow> bool \<Rightarrow> 'u network_approval_service \<Rightarrow> 'u step_result" where
  "approve_amended_host ow a saved s =
     resolve_owner ow (NetworkPolicyAmendment a) saved AllowForSession
       (s\<lparr>session_approved_hosts := insert (phk_host (own_key ow)) (session_approved_hosts s)\<rparr>)"

definition deny_amended_host ::
    "'u pending_owner \<Rightarrow> network_policy_amendment \<Rightarrow> bool \<Rightarrow> 'u network_approval_service \<Rightarrow> 'u step_result" where
  "deny_amended_host ow a saved s =
     resolve_owner ow (NetworkPolicyAmendment a) saved DenyPending
       (s\<lparr>session_denied_hosts := insert (phk_host (own_key ow)) (session_denied_hosts s)\<rparr>)"

definition release :: "nat \<Rightarrow> 'u network_approval_service \<Rightarrow> 'u network_approval_service" where
  "release t s = (if session_policy_commit_lock s = Some t then s\<lparr>session_policy_commit_lock := None\<rparr> else s)"

definition publish_answer ::
    "nat \<Rightarrow> 'u pending_owner \<Rightarrow> pending_approval_decision \<Rightarrow> network_decision option \<Rightarrow> 'u network_approval_service \<Rightarrow> 'u step_result" where
  "publish_answer t ow d answer s =
     (case answer of
        Some dec \<Rightarrow> Responded (Some (phk_host (own_key ow))) (Some (own_key ow)) dec
      | None \<Rightarrow> Internal,
      Answered answer, release t (set_decision (own_generation ow) d s))"

fun unfinished_owner :: "'u request_point \<Rightarrow> 'u pending_owner option" where
  "unfinished_owner (Owning ow _) = Some ow"
| "unfinished_owner (Asking ow) = Some ow"
| "unfinished_owner (Reviewed ow _) = Some ow"
| "unfinished_owner (Committing ow _) = Some ow"
| "unfinished_owner (Amended ow _ _) = Some ow"
| "unfinished_owner (Lifting ow _ _) = Some ow"
| "unfinished_owner (Revoking ow _ _) = Some ow"
| "unfinished_owner _ = None"

text \<open>
  A request that is withdrawn while it waits for something: the commit lock is released first, then an owner
  decides for its waiters.
\<close>

definition drop_request ::
    "network_request_cancellation_reason option \<Rightarrow> nat option \<Rightarrow> nat \<Rightarrow> 'u request_point \<Rightarrow> 'u network_approval_service \<Rightarrow>
     'u step_result option" where
  "drop_request reason elapsed t p s =
     (case unfinished_owner p of
        Some ow \<Rightarrow> Some (Internal, Removing ow (own_decision_on_drop ow) None, owner_drop reason elapsed ow (release t s))
      | None \<Rightarrow>
          (case p of
             Removing _ _ _ \<Rightarrow> None
           | Publishing _ _ _ \<Rightarrow> None
           | Answered _ \<Rightarrow> None
           | _ \<Rightarrow> Some (Internal, Answered None, s)))"

definition see_cancelled :: "'u pending_owner \<Rightarrow> 'u network_approval_service \<Rightarrow> 'u step_result option" where
  "see_cancelled ow s =
     (case own_call ow of
        Some call \<Rightarrow> if is_cancelled s (call_token call) then Some (complete Internal ow DenyPending s) else None
      | None \<Rightarrow> None)"

record network_environment =
  show_codex_err :: "codex_err \<Rightarrow> rstr"
  parses_as_ip :: "rstr \<Rightarrow> bool"

text \<open>
  \<open>handle_inline_policy_request\<close>, one step of request \<open>t\<close>. The decider of the proxy calls it; when the session is
  gone, the decider itself answers.
\<close>

definition advance ::
    "network_environment \<Rightarrow> 'u step_input \<Rightarrow> nat \<Rightarrow> 'u request_point \<Rightarrow> 'u network_approval_service \<Rightarrow> 'u step_result option" where
  "advance env inp t p s =
     (case inp of
        Dropped reason elapsed \<Rightarrow> drop_request reason elapsed t p s
      | ActiveTurn turn \<Rightarrow> (case p of Attributed req att \<Rightarrow> Some (key_request turn req att s) | _ \<Rightarrow> None)
      | ReviewResult r \<Rightarrow> (case p of Asking ow \<Rightarrow> Some (take_review (show_codex_err env) r ow s) | _ \<Rightarrow> None)
      | SeeCancelled \<Rightarrow> (case p of Asking ow \<Rightarrow> see_cancelled ow s | _ \<Rightarrow> None)
      | SessionGone \<Rightarrow>
          (case p of
             Arrived req \<Rightarrow> Some (respond None (ask_with_source (lit ''not_allowed'') Decider) s)
           | _ \<Rightarrow> None)
      | Persist ps \<Rightarrow> (case p of Committing ow d \<Rightarrow> persist_amendment (parses_as_ip env) ps ow d s | _ \<Rightarrow> None)
      | Go \<Rightarrow>
          (case p of
             Arrived req \<Rightarrow> Some (attribute_request req s)
           | Keyed req owner_call key turn \<Rightarrow> look_up_host req owner_call key turn s
           | Missed req owner_call key turn \<Rightarrow> Some (join_pending req owner_call key turn s)
           | Waiting pending_key g \<Rightarrow> wait_for_decision pending_key g s
           | Owning ow turn \<Rightarrow> Some (check_approval_flow ow turn s)
           | Reviewed ow d \<Rightarrow> begin_commit t ow d s
           | Committing ow d \<Rightarrow> commit_review ow d s
           | Amended ow a saved \<Rightarrow> Some (apply_amendment ow a saved s)
           | Lifting ow a saved \<Rightarrow> Some (approve_amended_host ow a saved s)
           | Revoking ow a saved \<Rightarrow> Some (deny_amended_host ow a saved s)
           | Removing ow d answer \<Rightarrow> Some (Internal, Publishing ow d answer, remove_generation ow s)
           | Publishing ow d answer \<Rightarrow> Some (publish_answer t ow d answer s)
           | _ \<Rightarrow> None))"

end
