(* ===== verification/Network_Concurrency.thy ===== *)
theory Network_Concurrency
  imports Network_Approval
begin

text \<open>
  Requests of the network approval service in any interleaving. A run is a sequence of steps, of a request or
  from outside, with what they show. The questions that are pending are specified by an abstract board on
  which owners open questions and publish answers; the service refines it, and from the board follow that
  a question has one owner and that no waiting request is forgotten. Over the events of a run it is shown
  that access is allowed only after an approval, that a denial for the session holds until it is lifted,
  and that a refused execution ends with an error.
\<close>

section \<open>The system\<close>

datatype 'u outside_step =
    Register "'u active_network_approval_call"
  | Unregister rstr
  | Finish deferred_network_approval
  | Block blocked_request
  | CancelToken nat
  | SyncFrom "'u network_approval_service"

fun outside :: "'u outside_step \<Rightarrow> 'u network_approval_service \<Rightarrow> net_event \<times> 'u network_approval_service" where
  "outside (Register call) s = (Internal, register_call call s)"
| "outside (Unregister registration_id) s = (Internal, unregister_call registration_id s)"
| "outside (Finish deferred) s = (Internal, snd (snd (deferred_finish deferred s)))"
| "outside (Block blocked) s = (Internal, record_blocked_request blocked s)"
| "outside (CancelToken token) s = (Internal, cancel token s)"
| "outside (SyncFrom other) s = (Imported (session_approved_hosts other), sync_session_approved_hosts_to other s)"

record 'u network_state =
  net_service :: "'u network_approval_service"
  net_requests :: "nat \<Rightarrow> 'u request_point option"

definition network_start :: "'u network_state" where
  "network_start = \<lparr>net_service = service_default, net_requests = (\<lambda>_. None)\<rparr>"

inductive net_step :: "network_environment \<Rightarrow> 'u network_state \<Rightarrow> net_event \<Rightarrow> 'u network_state \<Rightarrow> bool" for env where
  request_step: "net_requests s t = Some p \<Longrightarrow> advance env inp t p (net_service s) = Some (e, p', v) \<Longrightarrow>
    net_step env s e \<lparr>net_service = v, net_requests = (net_requests s)(t \<mapsto> p')\<rparr>"
| arrival: "net_requests s t = None \<Longrightarrow>
    net_step env s Internal (s\<lparr>net_requests := (net_requests s)(t \<mapsto> Arrived req)\<rparr>)"
| outside_step: "outside out (net_service s) = (e, v) \<Longrightarrow> net_step env s e (s\<lparr>net_service := v\<rparr>)"

inductive_cases net_stepE: "net_step env s e s'"

inductive net_run :: "network_environment \<Rightarrow> net_event list \<Rightarrow> 'u network_state \<Rightarrow> bool" for env where
  run_start: "net_run env [] network_start"
| run_step: "net_run env tr s \<Longrightarrow> net_step env s e s' \<Longrightarrow> net_run env (tr @ [e]) s'"

inductive net_steps :: "network_environment \<Rightarrow> 'u network_state \<Rightarrow> net_event list \<Rightarrow> 'u network_state \<Rightarrow> bool" for env where
  no_steps: "net_steps env s [] s"
| more_steps: "net_step env s e s' \<Longrightarrow> net_steps env s' es s'' \<Longrightarrow> net_steps env s (e # es) s''"

lemma net_run_steps: "net_steps env s es s' \<Longrightarrow> net_run env tr s \<Longrightarrow> net_run env (tr @ es) s'"
  by (induction arbitrary: tr rule: net_steps.induct) (auto, metis append.assoc append_Cons append_Nil run_step)

lemma net_run_split:
  "net_run env (tr @ es) s' \<Longrightarrow> \<exists>s. net_run env tr s \<and> net_steps env s es s'"
proof (induction es arbitrary: tr)
  case Nil
  then show ?case by (auto intro: no_steps)
next
  case (Cons e es)
  then obtain s where s: "net_run env (tr @ [e]) s" "net_steps env s es s'" by (metis append.assoc append_Cons append_Nil)
  from s(1) obtain s0 where "net_run env tr s0" "net_step env s0 e s" by (cases rule: net_run.cases) auto
  with s(2) show ?case by (blast intro: more_steps)
qed

section \<open>Pending questions, abstractly\<close>

datatype 'k role = Idle | Waits 'k nat | Owns 'k nat | Leaves 'k nat

record ('k, 'd) board =
  roles :: "nat \<Rightarrow> 'k role"
  questions :: "'k \<Rightarrow> nat option"
  answers :: "nat \<Rightarrow> 'd option"
  opened :: nat

definition empty_board :: "('k, 'd) board" where
  "empty_board = \<lparr>roles = (\<lambda>_. Idle), questions = (\<lambda>_. None), answers = (\<lambda>_. None), opened = 0\<rparr>"

text \<open>
  A question is opened by the request that first asks it and joined by later ones; its owner withdraws it and
  then publishes the answer, which nobody can change; who waits leaves with the answer, or without one when
  it is withdrawn itself.
\<close>

inductive board_step :: "('k, 'd) board \<Rightarrow> ('k, 'd) board \<Rightarrow> bool" where
  board_stays: "board_step b b"
| opens: "roles b t = Idle \<Longrightarrow> questions b k = None \<Longrightarrow>
    board_step b (b\<lparr>roles := (roles b)(t := Owns k (opened b)), questions := (questions b)(k \<mapsto> opened b), opened := Suc (opened b)\<rparr>)"
| joins: "roles b t = Idle \<Longrightarrow> questions b k = Some g \<Longrightarrow> board_step b (b\<lparr>roles := (roles b)(t := Waits k g)\<rparr>)"
| withdraws: "roles b t = Owns k g \<Longrightarrow>
    board_step b (b\<lparr>roles := (roles b)(t := Leaves k g),
      questions := (if questions b k = Some g then (questions b)(k := None) else questions b)\<rparr>)"
| publishes: "roles b t = Leaves k g \<Longrightarrow>
    board_step b (b\<lparr>roles := (roles b)(t := Idle),
      answers := (if answers b g = None then (answers b)(g \<mapsto> d) else answers b)\<rparr>)"
| leaves: "roles b t = Waits k g \<Longrightarrow> board_step b (b\<lparr>roles := (roles b)(t := Idle)\<rparr>)"

inductive board_reach :: "('k, 'd) board \<Rightarrow> bool" where
  board_start: "board_reach empty_board"
| board_more: "board_reach b \<Longrightarrow> board_step b b' \<Longrightarrow> board_reach b'"

definition in_charge :: "('k, 'd) board \<Rightarrow> nat \<Rightarrow> 'k \<Rightarrow> nat \<Rightarrow> bool" where
  "in_charge b t k g \<longleftrightarrow> roles b t = Owns k g \<or> roles b t = Leaves k g"

text \<open>
  The invariant: a generation has one request in charge and no answer before it is published, the open
  questions are those owned, and who waits has an answer or somebody in charge.
\<close>

definition board_inv :: "('k, 'd) board \<Rightarrow> bool" where
  "board_inv b \<longleftrightarrow>
     (\<forall>t k g. in_charge b t k g \<longrightarrow> g < opened b \<and> answers b g = None) \<and>
     (\<forall>t t' k k' g. in_charge b t k g \<longrightarrow> in_charge b t' k' g \<longrightarrow> t = t') \<and>
     (\<forall>k g. questions b k = Some g \<longleftrightarrow> (\<exists>t. roles b t = Owns k g)) \<and>
     (\<forall>t k g. roles b t = Waits k g \<longrightarrow> g < opened b \<and> (answers b g \<noteq> None \<or> (\<exists>t'. in_charge b t' k g))) \<and>
     (\<forall>g. answers b g \<noteq> None \<longrightarrow> g < opened b)"

lemma board_invD:
  assumes "board_inv b"
  shows "in_charge b t k g \<Longrightarrow> g < opened b" "in_charge b t k g \<Longrightarrow> answers b g = None"
    "in_charge b t k g \<Longrightarrow> in_charge b t' k' g \<Longrightarrow> t = t'"
    "questions b k = Some g \<longleftrightarrow> (\<exists>t. roles b t = Owns k g)"
    "roles b t = Waits k g \<Longrightarrow> g < opened b" "roles b t = Waits k g \<Longrightarrow> answers b g \<noteq> None \<or> (\<exists>t'. in_charge b t' k g)"
    "answers b g \<noteq> None \<Longrightarrow> g < opened b"
  using assms unfolding board_inv_def by blast+

lemma board_invI:
  assumes "\<And>t k g. in_charge b t k g \<Longrightarrow> g < opened b \<and> answers b g = None"
    "\<And>t t' k k' g. in_charge b t k g \<Longrightarrow> in_charge b t' k' g \<Longrightarrow> t = t'"
    "\<And>k g. questions b k = Some g \<longleftrightarrow> (\<exists>t. roles b t = Owns k g)"
    "\<And>t k g. roles b t = Waits k g \<Longrightarrow> g < opened b \<and> (answers b g \<noteq> None \<or> (\<exists>t'. in_charge b t' k g))"
    "\<And>g. answers b g \<noteq> None \<Longrightarrow> g < opened b"
  shows "board_inv b"
  using assms unfolding board_inv_def by blast

lemma owner_elsewhere:
  "f t \<noteq> Owns k g \<Longrightarrow> (\<exists>u. (f(t := r)) u = Owns k g) \<longleftrightarrow> r = Owns k g \<or> (\<exists>u. f u = Owns k g)"
  by (metis fun_upd_apply)

lemma opens_inv:
  assumes inv: "board_inv b" and "roles b t = Idle" "questions b k = None"
  shows "board_inv (b\<lparr>roles := (roles b)(t := Owns k (opened b)), questions := (questions b)(k \<mapsto> opened b), opened := Suc (opened b)\<rparr>)"
    (is "board_inv ?b")
proof -
  note D = board_invD[OF inv]
  have charge: "in_charge ?b t' k' g \<longleftrightarrow> t' = t \<and> k' = k \<and> g = opened b \<or> in_charge b t' k' g" for t' k' g
    using assms(2) by (auto simp: in_charge_def)
  have fresh: "answers b (opened b) = None" using D(7) by (metis less_irrefl)
  have owned: "roles b t' \<noteq> Owns k g" for t' g using D(4)[of k g] assms(3) by auto
  show ?thesis
  proof (rule board_invI)
    show "g < opened ?b \<and> answers ?b g = None" if "in_charge ?b t' k' g" for t' k' g
      using that D(1,2) fresh unfolding charge by (auto simp: less_Suc_eq)
    show "t1 = t2" if "in_charge ?b t1 k1 g" "in_charge ?b t2 k2 g" for t1 t2 k1 k2 g
      using that D(1,3) unfolding charge by (metis less_irrefl)
    show "questions ?b k' = Some g \<longleftrightarrow> (\<exists>t. roles ?b t = Owns k' g)" for k' g
      using D(4)[of k' g] owned owner_elsewhere[of "roles b" t k' g "Owns k (opened b)"] assms(2) by auto
    show "g < opened ?b \<and> (answers ?b g \<noteq> None \<or> (\<exists>t'. in_charge ?b t' k' g))" if "roles ?b t' = Waits k' g" for t' k' g
      using that D(5)[of t' k' g] D(6)[of t' k' g] unfolding charge by (auto split: if_splits)
    show "g < opened ?b" if "answers ?b g \<noteq> None" for g using that D(7) by (simp add: less_SucI)
  qed
qed

lemma withdraws_inv:
  assumes inv: "board_inv b" and "roles b t = Owns k g"
  shows "board_inv (b\<lparr>roles := (roles b)(t := Leaves k g),
    questions := (if questions b k = Some g then (questions b)(k := None) else questions b)\<rparr>)" (is "board_inv ?b")
proof -
  note D = board_invD[OF inv]
  have q: "questions b k = Some g" using D(4) assms(2) by blast
  have charge: "in_charge ?b t' k' g' \<longleftrightarrow> in_charge b t' k' g'" for t' k' g'
    using assms(2) by (auto simp: in_charge_def)
  have only: "t' = t" if "roles b t' = Owns k g'" for t' g'
    using that q D(3,4) assms(2) unfolding in_charge_def by (metis option.inject)
  show ?thesis
  proof (rule board_invI)
    show "questions ?b k' = Some g' \<longleftrightarrow> (\<exists>t. roles ?b t = Owns k' g')" for k' g'
    proof (cases "k' = k")
      case True
      then show ?thesis using only q by auto
    next
      case False
      then show ?thesis using D(4)[of k' g'] q assms(2) owner_elsewhere[of "roles b" t k' g' "Leaves k g"] by auto
    qed
    show "g' < opened ?b \<and> (answers ?b g' \<noteq> None \<or> (\<exists>t'. in_charge ?b t' k' g'))" if "roles ?b t' = Waits k' g'" for t' k' g'
      using that D(5)[of t' k' g'] D(6)[of t' k' g'] unfolding charge by (auto split: if_splits)
  qed (use D(1,2,3,7) in \<open>auto simp: charge\<close>)
qed

lemma publishes_inv:
  assumes inv: "board_inv b" and "roles b t = Leaves k g"
  shows "board_inv (b\<lparr>roles := (roles b)(t := Idle), answers := (if answers b g = None then (answers b)(g \<mapsto> d) else answers b)\<rparr>)"
    (is "board_inv ?b")
proof -
  note D = board_invD[OF inv]
  have none: "answers b g = None" and lt: "g < opened b" using D(1,2) assms(2) unfolding in_charge_def by blast+
  have charge: "in_charge ?b t' k' g' \<longleftrightarrow> t' \<noteq> t \<and> in_charge b t' k' g'" for t' k' g'
    by (auto simp: in_charge_def)
  have other: "g' \<noteq> g" if "in_charge b t' k' g'" "t' \<noteq> t" for t' k' g'
    using that D(3) assms(2) unfolding in_charge_def by metis
  show ?thesis
  proof (rule board_invI)
    show "g' < opened ?b \<and> answers ?b g' = None" if "in_charge ?b t' k' g'" for t' k' g'
      using that other D(1,2) none unfolding charge by auto
    show "questions ?b k' = Some g' \<longleftrightarrow> (\<exists>t. roles ?b t = Owns k' g')" for k' g'
      using D(4)[of k' g'] assms(2) owner_elsewhere[of "roles b" t k' g' Idle] by auto
    show "g' < opened ?b \<and> (answers ?b g' \<noteq> None \<or> (\<exists>t'. in_charge ?b t' k' g'))" if w: "roles ?b t' = Waits k' g'" for t' k' g'
    proof (cases "g' = g")
      case True
      then show ?thesis using lt none by simp
    next
      case False
      have "roles b t' = Waits k' g'" using w by (auto split: if_splits)
      then have "g' < opened b" "answers b g' \<noteq> None \<or> (\<exists>u. in_charge b u k' g')" using D(5,6) by blast+
      moreover have "u \<noteq> t" if "in_charge b u k' g'" for u using that False assms(2) by (auto simp: in_charge_def)
      ultimately show ?thesis using False unfolding charge by auto
    qed
  qed (use D(3,7) lt in \<open>auto simp: charge split: if_splits\<close>)
qed

lemma waiting_inv:
  assumes inv: "board_inv b" and "roles b t = Idle \<and> r = Waits k g \<and> questions b k = Some g \<or> roles b t = Waits k g \<and> r = Idle"
  shows "board_inv (b\<lparr>roles := (roles b)(t := r)\<rparr>)" (is "board_inv ?b")
proof -
  note D = board_invD[OF inv]
  have charge: "in_charge ?b t' k' g' \<longleftrightarrow> in_charge b t' k' g'" for t' k' g'
    using assms(2) by (auto simp: in_charge_def)
  have asked: "g < opened b \<and> (\<exists>t'. in_charge b t' k g)" if "questions b k = Some g"
    using that D(1,4) unfolding in_charge_def by blast
  show ?thesis
  proof (rule board_invI)
    show "questions ?b k' = Some g' \<longleftrightarrow> (\<exists>t. roles ?b t = Owns k' g')" for k' g'
    proof -
      have "roles b t \<noteq> Owns k' g'" "r \<noteq> Owns k' g'" using assms(2) by auto
      then show ?thesis using D(4)[of k' g'] by (simp add: owner_elsewhere del: fun_upd_apply)
    qed
    show "g' < opened ?b \<and> (answers ?b g' \<noteq> None \<or> (\<exists>t'. in_charge ?b t' k' g'))" if "roles ?b t' = Waits k' g'" for t' k' g'
      using that D(5)[of t' k' g'] D(6)[of t' k' g'] assms(2) asked unfolding charge by (auto split: if_splits)
  qed (use D(1,2,3,7) in \<open>auto simp: charge\<close>)
qed

lemma board_reach_inv: "board_reach b \<Longrightarrow> board_inv b"
proof (induction rule: board_reach.induct)
  case board_start
  show ?case by (auto simp: board_inv_def empty_board_def in_charge_def)
next
  case (board_more b b')
  from board_more(2) board_more(3) show ?case
    by (cases rule: board_step.cases)
      (simp_all only: opens_inv withdraws_inv publishes_inv, (blast intro: waiting_inv)+)
qed

text \<open>What a component that keeps such a board may rely on.\<close>

locale board_client =
  fixes reachable :: "'s \<Rightarrow> bool" and view :: "'s \<Rightarrow> ('k, 'd) board"
  assumes refines: "reachable s \<Longrightarrow> board_reach (view s)"
begin

lemma inv: "reachable s \<Longrightarrow> board_inv (view s)"
  using refines board_reach_inv by blast

lemma one_owner:
  assumes "reachable s" "roles (view s) t = Owns k g" "roles (view s) t' = Owns k g'"
  shows "t = t' \<and> g = g'"
proof -
  note D = board_invD[OF inv[OF assms(1)]]
  have "questions (view s) k = Some g" "questions (view s) k = Some g'" using D(4) assms(2,3) by blast+
  then have "g = g'" by simp
  then show ?thesis using D(3)[of t k g t' k] assms(2,3) unfolding in_charge_def by simp
qed

lemma own_question: "reachable s \<Longrightarrow> roles (view s) t = Owns k g \<Longrightarrow> questions (view s) k = Some g"
  using board_invD(4)[OF inv] by blast

lemma waiter_served:
  "reachable s \<Longrightarrow> roles (view s) t = Waits k g \<Longrightarrow> answers (view s) g \<noteq> None \<or> (\<exists>t'. in_charge (view s) t' k g)"
  using board_invD(6)[OF inv] by blast

lemma unanswered: "reachable s \<Longrightarrow> in_charge (view s) t k g \<Longrightarrow> answers (view s) g = None"
  using board_invD(2)[OF inv] by blast

end

section \<open>The service keeps the board\<close>

fun role_of :: "'u request_point option \<Rightarrow> pending_host_approval_key role" where
  "role_of (Some (Waiting key g)) = Waits key g"
| "role_of (Some (Removing ow _ _)) = Owns (own_key ow) (own_generation ow)"
| "role_of (Some (Publishing ow _ _)) = Leaves (own_key ow) (own_generation ow)"
| "role_of (Some p) = (case unfinished_owner p of Some ow \<Rightarrow> Owns (own_key ow) (own_generation ow) | None \<Rightarrow> Idle)"
| "role_of None = Idle"

definition net_view :: "'u network_state \<Rightarrow> (pending_host_approval_key, pending_approval_decision) board" where
  "net_view s =
     \<lparr>roles = (\<lambda>t. role_of (net_requests s t)), questions = pending_host_approvals (net_service s),
      answers = generation_decisions (net_service s), opened = next_generation (net_service s)\<rparr>"

text \<open>The part of the service the board sees; the operations on calls leave it alone.\<close>

definition same_board :: "'u network_approval_service \<Rightarrow> 'u network_approval_service \<Rightarrow> bool" where
  "same_board s s' \<longleftrightarrow> pending_host_approvals s' = pending_host_approvals s \<and>
     generation_decisions s' = generation_decisions s \<and> next_generation s' = next_generation s"

lemmas call_operation_defs = cancel_def record_call_outcome_def record_call_outcome_if_absent_def store_call_outcome_def
  cancel_execution_if_denied_def record_owner_outcome_def owner_drop_def release_def remove_call_def unregister_call_def
  register_call_def record_blocked_request_def deferred_finish_def sync_session_approved_hosts_to_def

lemma pending_frame [simp]:
  "pending_host_approvals (cancel token s) = pending_host_approvals s" "pending_host_approvals (record_call_outcome rid msg s) = pending_host_approvals s"
  "pending_host_approvals (record_call_outcome_if_absent rid msg s) = pending_host_approvals s" "pending_host_approvals (snd (store_call_outcome rid msg s)) = pending_host_approvals s"
  "pending_host_approvals (cancel_execution_if_denied ow d s) = pending_host_approvals s" "pending_host_approvals (record_owner_outcome call msg s) = pending_host_approvals s"
  "pending_host_approvals (release t s) = pending_host_approvals s" "pending_host_approvals (owner_drop reason elapsed ow s) = pending_host_approvals s"
  by (auto simp: call_operation_defs split: option.splits prod.splits)

lemma decisions_frame [simp]:
  "generation_decisions (cancel token s) = generation_decisions s" "generation_decisions (record_call_outcome rid msg s) = generation_decisions s"
  "generation_decisions (record_call_outcome_if_absent rid msg s) = generation_decisions s" "generation_decisions (snd (store_call_outcome rid msg s)) = generation_decisions s"
  "generation_decisions (cancel_execution_if_denied ow d s) = generation_decisions s" "generation_decisions (record_owner_outcome call msg s) = generation_decisions s"
  "generation_decisions (release t s) = generation_decisions s" "generation_decisions (owner_drop reason elapsed ow s) = generation_decisions s"
  by (auto simp: call_operation_defs split: option.splits prod.splits)

lemma generation_frame [simp]:
  "next_generation (cancel token s) = next_generation s" "next_generation (record_call_outcome rid msg s) = next_generation s"
  "next_generation (record_call_outcome_if_absent rid msg s) = next_generation s" "next_generation (snd (store_call_outcome rid msg s)) = next_generation s"
  "next_generation (cancel_execution_if_denied ow d s) = next_generation s" "next_generation (record_owner_outcome call msg s) = next_generation s"
  "next_generation (release t s) = next_generation s" "next_generation (owner_drop reason elapsed ow s) = next_generation s"
  by (auto simp: call_operation_defs split: option.splits prod.splits)

lemma approved_frame [simp]:
  "session_approved_hosts (cancel token s) = session_approved_hosts s" "session_approved_hosts (record_call_outcome rid msg s) = session_approved_hosts s"
  "session_approved_hosts (record_call_outcome_if_absent rid msg s) = session_approved_hosts s" "session_approved_hosts (snd (store_call_outcome rid msg s)) = session_approved_hosts s"
  "session_approved_hosts (cancel_execution_if_denied ow d s) = session_approved_hosts s" "session_approved_hosts (record_owner_outcome call msg s) = session_approved_hosts s"
  "session_approved_hosts (release t s) = session_approved_hosts s" "session_approved_hosts (owner_drop reason elapsed ow s) = session_approved_hosts s"
  by (auto simp: call_operation_defs split: option.splits prod.splits)

lemma denied_frame [simp]:
  "session_denied_hosts (cancel token s) = session_denied_hosts s" "session_denied_hosts (record_call_outcome rid msg s) = session_denied_hosts s"
  "session_denied_hosts (record_call_outcome_if_absent rid msg s) = session_denied_hosts s" "session_denied_hosts (snd (store_call_outcome rid msg s)) = session_denied_hosts s"
  "session_denied_hosts (cancel_execution_if_denied ow d s) = session_denied_hosts s" "session_denied_hosts (record_owner_outcome call msg s) = session_denied_hosts s"
  "session_denied_hosts (release t s) = session_denied_hosts s" "session_denied_hosts (owner_drop reason elapsed ow s) = session_denied_hosts s"
  by (auto simp: call_operation_defs split: option.splits prod.splits)

lemma lock_frame [simp]:
  "session_policy_commit_lock (cancel token s) = session_policy_commit_lock s"
  "session_policy_commit_lock (record_call_outcome rid msg s) = session_policy_commit_lock s"
  "session_policy_commit_lock (record_call_outcome_if_absent rid msg s) = session_policy_commit_lock s"
  "session_policy_commit_lock (snd (store_call_outcome rid msg s)) = session_policy_commit_lock s"
  "session_policy_commit_lock (cancel_execution_if_denied ow d s) = session_policy_commit_lock s"
  "session_policy_commit_lock (record_owner_outcome call msg s) = session_policy_commit_lock s"
  "session_policy_commit_lock (owner_drop reason elapsed ow s) = session_policy_commit_lock s"
  "session_policy_commit_lock (remove_generation ow s) = session_policy_commit_lock s"
  "session_policy_commit_lock (set_decision g d s) = session_policy_commit_lock s"
  by (auto simp: call_operation_defs remove_generation_def set_decision_def split: option.splits prod.splits)

lemma sets_frame [simp]:
  "session_approved_hosts (remove_generation ow s) = session_approved_hosts s"
  "session_denied_hosts (remove_generation ow s) = session_denied_hosts s"
  "session_approved_hosts (set_decision g d s) = session_approved_hosts s"
  "session_denied_hosts (set_decision g d s) = session_denied_hosts s"
  by (auto simp: remove_generation_def set_decision_def)

lemma same_board_refl [simp]: "same_board s s"
  by (simp add: same_board_def)

lemma same_board_outside: "outside out s = (e, s') \<Longrightarrow> same_board s s'"
  by (cases out) (auto simp: same_board_def call_operation_defs Let_def split: option.splits prod.splits if_splits)

lemma role_unfinished: "unfinished_owner p = Some ow \<Longrightarrow> role_of (Some p) = Owns (own_key ow) (own_generation ow)"
  by (cases p) simp_all

lemma view_stays:
  assumes "net_requests s t = Some p" "role_of (Some p') = role_of (Some p)" "same_board (net_service s) v"
  shows "board_step (net_view s) (net_view \<lparr>net_service = v, net_requests = (net_requests s)(t \<mapsto> p')\<rparr>)"
proof -
  have "net_view \<lparr>net_service = v, net_requests = (net_requests s)(t \<mapsto> p')\<rparr> = net_view s"
    using assms by (auto simp: net_view_def same_board_def fun_eq_iff)
  then show ?thesis by (simp add: board_stays)
qed

lemma view_leaves:
  assumes "net_requests s t = Some (Waiting k g)" "role_of (Some p') = Idle"
  shows "board_step (net_view s) (net_view \<lparr>net_service = net_service s, net_requests = (net_requests s)(t \<mapsto> p')\<rparr>)"
proof -
  have "net_view \<lparr>net_service = net_service s, net_requests = (net_requests s)(t \<mapsto> p')\<rparr> =
      (net_view s)\<lparr>roles := (roles (net_view s))(t := Idle)\<rparr>"
    using assms(2) by (auto simp: net_view_def fun_eq_iff)
  moreover have "roles (net_view s) t = Waits k g" using assms(1) by (simp add: net_view_def)
  ultimately show ?thesis by (metis leaves)
qed

text \<open>Steps of a request other than these three leave the board as it is, or leave a question without an answer.\<close>

lemma advance_quiet:
  assumes "advance env inp t p s = Some (e, p', s')"
    "\<not> (inp = Go \<and> (\<exists>req call key turn. p = Missed req call key turn))"
    "\<not> (inp = Go \<and> (\<exists>ow d ans. p = Removing ow d ans \<or> p = Publishing ow d ans))"
  shows "role_of (Some p') = role_of (Some p) \<and> same_board s s' \<or>
    (\<exists>k g. p = Waiting k g) \<and> role_of (Some p') = Idle \<and> s' = s"
proof (cases inp)
  case (Dropped reason elapsed)
  then have d: "drop_request reason elapsed t p s = Some (e, p', s')" using assms(1) by (simp add: advance_def)
  show ?thesis
  proof (cases "unfinished_owner p")
    case None
    then show ?thesis using d by (cases p) (auto simp: drop_request_def)
  next
    case (Some ow)
    then have "role_of (Some p') = role_of (Some p)" using d role_unfinished[OF Some] by (auto simp: drop_request_def)
    then show ?thesis using d Some by (auto simp: drop_request_def same_board_def)
  qed
next
  case Go
  then show ?thesis using assms
    by (cases p)
      (auto simp: same_board_def advance_def attribute_request_def respond_def look_up_host_def wait_for_decision_def check_approval_flow_def
        complete_def begin_commit_def commit_review_def resolve_owner_def resolve_review_def apply_amendment_def Let_def
        approve_amended_host_def deny_amended_host_def
        split: option.splits if_splits review_decision.splits network_policy_rule_action.splits prod.splits)
next
  case (ActiveTurn turn)
  then show ?thesis using assms(1)
    by (cases p) (auto simp: advance_def key_request_def respond_def split: option.splits if_splits)
next
  case (ReviewResult r)
  then show ?thesis using assms(1)
    by (cases p) (auto simp: same_board_def advance_def take_review_def complete_def
        split: option.splits if_splits result.splits)
next
  case SeeCancelled
  then show ?thesis using assms(1)
    by (cases p) (auto simp: same_board_def advance_def see_cancelled_def complete_def split: option.splits if_splits)
next
  case SessionGone
  then show ?thesis using assms(1) by (cases p) (auto simp: same_board_def advance_def respond_def)
next
  case (Persist ps)
  then show ?thesis using assms(1)
    by (cases p) (auto simp: advance_def persist_amendment_def Let_def split: option.splits if_splits review_decision.splits prod.splits)
qed

lemma view_joins:
  assumes "net_requests s t = Some (Missed req call key turn)" "join_pending req call key turn (net_service s) = (e, p', v)"
  shows "board_step (net_view s) (net_view \<lparr>net_service = v, net_requests = (net_requests s)(t \<mapsto> p')\<rparr>)"
proof (cases turn)
  case None
  then have "role_of (Some p') = Idle" "same_board (net_service s) v"
    using assms(2) by (auto simp: join_pending_def respond_def same_board_def)
  then show ?thesis using assms(1) by (intro view_stays[OF assms(1)]) simp_all
next
  case (Some tc)
  let ?k = "\<lparr>phk_host = key, phk_turn_id = (case call of Some c \<Rightarrow> call_turn_id c | None \<Rightarrow> turn_sub_id tc),
    phk_execution_id = map_option call_registration_id call\<rparr>"
  have idle: "roles (net_view s) t = Idle" using assms(1) by (simp add: net_view_def)
  show ?thesis
  proof (cases "pending_host_approvals (net_service s) ?k")
    case None
    then have q: "questions (net_view s) ?k = None" by (simp add: net_view_def)
    have "net_view \<lparr>net_service = v, net_requests = (net_requests s)(t \<mapsto> p')\<rparr> = (net_view s)\<lparr>roles := (roles (net_view s))(t := Owns ?k (opened (net_view s))),
        questions := (questions (net_view s))(?k \<mapsto> opened (net_view s)), opened := Suc (opened (net_view s))\<rparr>"
      using assms(2) Some None by (auto simp: join_pending_def get_or_create_pending_approval_def net_view_def fun_eq_iff Let_def)
    then show ?thesis using opens[OF idle q] by simp
  next
    case (Some g)
    then have q: "questions (net_view s) ?k = Some g" by (simp add: net_view_def)
    have "net_view \<lparr>net_service = v, net_requests = (net_requests s)(t \<mapsto> p')\<rparr> = (net_view s)\<lparr>roles := (roles (net_view s))(t := Waits ?k g)\<rparr>"
      using assms(2) \<open>turn = Some tc\<close> Some by (auto simp: join_pending_def get_or_create_pending_approval_def net_view_def fun_eq_iff Let_def)
    then show ?thesis using joins[OF idle q] by simp
  qed
qed

lemma view_withdraws:
  assumes "net_requests s t = Some (Removing ow d ans)"
  shows "board_step (net_view s)
    (net_view \<lparr>net_service = remove_generation ow (net_service s), net_requests = (net_requests s)(t \<mapsto> Publishing ow d ans)\<rparr>)"
proof -
  have "roles (net_view s) t = Owns (own_key ow) (own_generation ow)" using assms by (simp add: net_view_def)
  from withdraws[OF this] show ?thesis
    by (simp add: net_view_def remove_generation_def if_distrib if_distribR fun_upd_def cong: if_cong)
qed

lemma view_publishes:
  assumes "net_requests s t = Some (Publishing ow d ans)" "publish_answer t ow d ans (net_service s) = (e, p', v)"
  shows "board_step (net_view s) (net_view \<lparr>net_service = v, net_requests = (net_requests s)(t \<mapsto> p')\<rparr>)"
proof -
  have "roles (net_view s) t = Leaves (own_key ow) (own_generation ow)" using assms(1) by (simp add: net_view_def)
  moreover have "net_view \<lparr>net_service = v, net_requests = (net_requests s)(t \<mapsto> p')\<rparr> = (net_view s)\<lparr>roles := (roles (net_view s))(t := Idle),
      answers := (if answers (net_view s) (own_generation ow) = None then (answers (net_view s))(own_generation ow \<mapsto> d) else answers (net_view s))\<rparr>"
    using assms(2) by (auto simp: net_view_def publish_answer_def set_decision_def fun_eq_iff)
  ultimately show ?thesis using publishes by metis
qed

lemma net_step_board: "net_step env s e s' \<Longrightarrow> board_step (net_view s) (net_view s')"
proof (induction rule: net_step.induct)
  case (request_step s t p inp e p' v)
  show ?case
  proof (cases "inp = Go \<and> (\<exists>req call key turn. p = Missed req call key turn) \<or>
      inp = Go \<and> (\<exists>ow d ans. p = Removing ow d ans \<or> p = Publishing ow d ans)")
    case True
    then show ?thesis using request_step view_joins[of s t] view_withdraws[of s t] view_publishes[of s t]
      by (auto simp: advance_def)
  next
    case False
    then show ?thesis using advance_quiet[OF request_step(2)] request_step(1) view_stays[of s t p p' v] view_leaves[of s t]
      by blast
  qed
next
  case (arrival s t req)
  then have "net_view (s\<lparr>net_requests := (net_requests s)(t \<mapsto> Arrived req)\<rparr>) = net_view s"
    by (auto simp: net_view_def fun_eq_iff)
  then show ?case by (simp add: board_stays)
next
  case (outside_step out s e v)
  then have "net_view (s\<lparr>net_service := v\<rparr>) = net_view s"
    using same_board_outside[of out "net_service s" e v] by (simp add: net_view_def same_board_def)
  then show ?case by (simp add: board_stays)
qed

lemma net_run_board: "net_run env tr s \<Longrightarrow> board_reach (net_view s)"
proof (induction rule: net_run.induct)
  case run_start
  have "net_view network_start = empty_board" by (simp add: net_view_def network_start_def service_default_def empty_board_def)
  then show ?case using board_start by metis
next
  case (run_step tr s e s')
  then show ?case using net_step_board board_more by blast
qed

interpretation pending: board_client "\<lambda>s. \<exists>tr. net_run env tr s" net_view for env
  by unfold_locales (use net_run_board in blast)

text \<open>Removing and publishing with nothing in between is what the code does in one call.\<close>

lemma publish_in_two_steps:
  assumes "advance env Go t (Removing ow d ans) s = Some (e1, p1, s1)" "advance env Go t p1 s1 = Some (e2, p2, s2)"
  shows "s2 = release t (publish_and_remove ow d s)"
  using assms by (auto simp: advance_def publish_answer_def publish_and_remove_def)

section \<open>Owners and waiters\<close>

text \<open>The request that will decide for a pending key: from opening the question until it is withdrawn.\<close>

definition owner_at :: "'u network_state \<Rightarrow> nat \<Rightarrow> 'u pending_owner \<Rightarrow> bool" where
  "owner_at s t ow \<longleftrightarrow>
     (\<exists>p. net_requests s t = Some p \<and> (unfinished_owner p = Some ow \<or> (\<exists>d ans. p = Removing ow d ans)))"

lemma owner_at_role: "owner_at s t ow \<Longrightarrow> roles (net_view s) t = Owns (own_key ow) (own_generation ow)"
  by (auto simp: owner_at_def net_view_def role_unfinished)

text \<open>
  C18: One question at a time. However the requests interleave, two requests that are both about to decide for the
  same host, turn and execution are the same request; and when an owner withdraws its question, the map of
  pending approvals still holds its own generation, never a newer one.
\<close>

theorem one_question_at_a_time:
  assumes "net_run env tr s" "owner_at s t ow"
  shows "(\<forall>t' ow'. owner_at s t' ow' \<and> own_key ow' = own_key ow \<longrightarrow> t' = t) \<and>
    pending_host_approvals (net_service s) (own_key ow) = Some (own_generation ow)"
proof -
  have r: "\<exists>tr. net_run env tr s" using assms(1) by blast
  note role = owner_at_role[OF assms(2)]
  have "questions (net_view s) (own_key ow) = Some (own_generation ow)" by (rule pending.own_question[OF r role])
  moreover have "t' = t" if "owner_at s t' ow'" "own_key ow' = own_key ow" for t' ow'
    using pending.one_owner[OF r role] owner_at_role[OF that(1)] that(2) by metis
  ultimately show ?thesis by (auto simp: net_view_def)
qed

lemma request_moves:
  assumes "net_requests s t = Some p" "advance env inp t p (net_service s) = Some (e, p', v)"
    "net_steps env \<lparr>net_service = v, net_requests = (net_requests s)(t \<mapsto> p')\<rparr> es s'"
  shows "net_steps env s (e # es) s'"
  using assms request_step more_steps by metis

lemma publishing_answers:
  assumes "net_requests s t = Some (Publishing ow d ans)" "generation_decisions (net_service s) (own_generation ow) = None"
  shows "\<exists>e s'. net_steps env s [e] s' \<and> generation_decisions (net_service s') (own_generation ow) = Some d \<and>
    (\<forall>u. u \<noteq> t \<longrightarrow> net_requests s' u = net_requests s u)"
proof -
  obtain e p' v where r: "publish_answer t ow d ans (net_service s) = (e, p', v)" by (metis prod_cases3)
  then have "advance env Go t (Publishing ow d ans) (net_service s) = Some (e, p', v)" by (simp add: advance_def)
  from request_moves[OF assms(1) this no_steps] r assms(2) show ?thesis
    by (intro exI[of _ e] exI[of _ "\<lparr>net_service = v, net_requests = (net_requests s)(t \<mapsto> p')\<rparr>"])
      (auto simp: publish_answer_def set_decision_def)
qed

lemma removing_answers:
  assumes "net_requests s t = Some (Removing ow d ans)" "generation_decisions (net_service s) (own_generation ow) = None"
  shows "\<exists>es s'. net_steps env s es s' \<and> generation_decisions (net_service s') (own_generation ow) = Some d \<and>
    (\<forall>u. u \<noteq> t \<longrightarrow> net_requests s' u = net_requests s u)"
proof -
  let ?s = "\<lparr>net_service = remove_generation ow (net_service s), net_requests = (net_requests s)(t \<mapsto> Publishing ow d ans)\<rparr>"
  have "generation_decisions (net_service ?s) (own_generation ow) = None" using assms(2) by (simp add: remove_generation_def)
  then obtain e s' where s': "net_steps env ?s [e] s'" "generation_decisions (net_service s') (own_generation ow) = Some d"
    "\<forall>u. u \<noteq> t \<longrightarrow> net_requests s' u = net_requests ?s u"
    using publishing_answers[of ?s t ow d ans env] by auto
  have "advance env Go t (Removing ow d ans) (net_service s) =
      Some (Internal, Publishing ow d ans, remove_generation ow (net_service s))" by (simp add: advance_def)
  from request_moves[OF assms(1) this s'(1)] s'(2,3) show ?thesis by (intro exI[of _ "[Internal, e]"] exI[of _ s']) simp
qed

lemma dropping_answers:
  assumes "net_requests s t = Some p" "unfinished_owner p = Some ow" "generation_decisions (net_service s) (own_generation ow) = None"
  shows "\<exists>es s'. net_steps env s es s' \<and> generation_decisions (net_service s') (own_generation ow) = Some (own_decision_on_drop ow) \<and>
    (\<forall>u. u \<noteq> t \<longrightarrow> net_requests s' u = net_requests s u)"
proof -
  let ?p = "Removing ow (own_decision_on_drop ow) None"
  let ?v = "owner_drop None None ow (release t (net_service s))"
  let ?s = "\<lparr>net_service = ?v, net_requests = (net_requests s)(t \<mapsto> ?p)\<rparr>"
  have "net_requests ?s t = Some ?p" "generation_decisions (net_service ?s) (own_generation ow) = None"
    using assms(3) by simp_all
  then obtain es s' where s': "net_steps env ?s es s'"
    "generation_decisions (net_service s') (own_generation ow) = Some (own_decision_on_drop ow)"
    "\<forall>u. u \<noteq> t \<longrightarrow> net_requests s' u = net_requests ?s u" using removing_answers by blast
  have "advance env (Dropped None None) t p (net_service s) = Some (Internal, ?p, ?v)"
    using assms(2) by (simp add: advance_def drop_request_def)
  from request_moves[OF assms(1) this s'(1)] s'(2,3) show ?thesis by (intro exI[of _ "Internal # es"] exI[of _ s']) simp
qed

lemma net_steps_snoc: "net_steps env s es s' \<Longrightarrow> net_step env s' e s'' \<Longrightarrow> net_steps env s (es @ [e]) s''"
  by (induction rule: net_steps.induct) (auto intro: net_steps.intros)

lemma waiter_decided:
  assumes r: "\<exists>tr. net_run env tr s" and w: "net_requests s t = Some (Waiting key g)"
  shows "\<exists>es s' d. net_steps env s es s' \<and> generation_decisions (net_service s') g = Some d \<and> net_requests s' t = Some (Waiting key g)"
proof (cases "generation_decisions (net_service s) g")
  case None
  have "roles (net_view s) t = Waits key g" using w by (simp add: net_view_def)
  moreover have "answers (net_view s) g = None" using None by (simp add: net_view_def)
  ultimately obtain t' where "in_charge (net_view s) t' key g" using pending.waiter_served[OF r] by blast
  then obtain p where p: "net_requests s t' = Some p" "role_of (Some p) = Owns key g \<or> role_of (Some p) = Leaves key g"
    by (cases "net_requests s t'") (auto simp: in_charge_def net_view_def)
  then have other: "t \<noteq> t'" using w by auto
  consider (publishing) ow d ans where "p = Publishing ow d ans" "own_generation ow = g"
    | (removing) ow d ans where "p = Removing ow d ans" "own_generation ow = g"
    | (unfinished) ow where "unfinished_owner p = Some ow" "own_generation ow = g" using p(2) by (cases p) auto
  then show ?thesis
  proof cases
    case publishing
    then show ?thesis using publishing_answers[of s t' ow d ans env] p(1) None other w by metis
  next
    case removing
    then show ?thesis using removing_answers[of s t' ow d ans env] p(1) None other w by metis
  next
    case unfinished
    then show ?thesis using dropping_answers[of s t' p ow env] p(1) None other w by metis
  qed
qed (use no_steps w in blast)

text \<open>
  C17: No waiting request is forgotten. In every reachable state a request that waits for the answer of another one
  can still be answered: its question has been decided, or has a live owner whose own steps, in the worst case its
  being dropped, decide it, after which the waiting request responds with that decision.
\<close>

theorem waiter_is_answered:
  assumes "net_run env tr s" "net_requests s t = Some (Waiting key g)"
  shows "\<exists>es s' d. net_steps env s es s' \<and> net_requests s' t = Some (Answered (Some (to_network_decision d))) \<and>
    generation_decisions (net_service s') g = Some d"
proof -
  obtain es s1 d where s1: "net_steps env s es s1" "generation_decisions (net_service s1) g = Some d"
    "net_requests s1 t = Some (Waiting key g)" using waiter_decided[OF _ assms(2)] assms(1) by blast
  let ?s = "\<lparr>net_service = net_service s1, net_requests = (net_requests s1)(t \<mapsto> Answered (Some (to_network_decision d)))\<rparr>"
  have "net_step env s1 (Responded (Some (phk_host key)) (Some key) (to_network_decision d)) ?s"
    using s1(2) by (intro request_step[OF s1(3), of env Go]) (simp add: advance_def wait_for_decision_def)
  from net_steps_snoc[OF s1(1) this] s1(2) show ?thesis by fastforce
qed

section \<open>Access is approved\<close>

text \<open>
  A host is granted for the session by an answer for the session, by an allowing amendment for that very host
  that took effect, or by the session it was taken over from. A question is granted once by a plain approval.
\<close>

definition session_granted :: "network_environment \<Rightarrow> net_event list \<Rightarrow> host_approval_key \<Rightarrow> bool" where
  "session_granted env tr k \<longleftrightarrow>
     (\<exists>K. Imported K \<in> set tr \<and> k \<in> K) \<or>
     (\<exists>key. phk_host key = k \<and> ReviewAnswered key (Ok ApprovedForSession) None \<in> set tr) \<or>
     (\<exists>key ctx a. phk_host key = k \<and> ReviewAnswered key (Ok (NetworkPolicyAmendment a)) None \<in> set tr \<and>
        PolicyPersisted key ctx a True \<in> set tr \<and> npa_action a = NetworkAllow \<and>
        to_ascii_lowercase (nac_host ctx) = hak_host k \<and>
        normalize_host (parses_as_ip env) (npa_host a) = normalize_host (parses_as_ip env) (nac_host ctx))"

definition granted_once :: "net_event list \<Rightarrow> pending_host_approval_key \<Rightarrow> bool" where
  "granted_once tr key \<longleftrightarrow>
     ReviewAnswered key (Ok Approved) None \<in> set tr \<or>
     (\<exists>amendment. ReviewAnswered key (Ok (ApprovedExecpolicyAmendment amendment)) None \<in> set tr)"

fun granted :: "network_environment \<Rightarrow> net_event list \<Rightarrow> pending_host_approval_key \<Rightarrow> pending_approval_decision \<Rightarrow> bool" where
  "granted env tr key AllowOnce = granted_once tr key"
| "granted env tr key AllowForSession = session_granted env tr (phk_host key)"
| "granted env tr key DenyPending = True"

lemma session_granted_mono [simp]: "session_granted env tr k \<Longrightarrow> session_granted env (tr @ es) k"
  unfolding session_granted_def set_append by blast

lemma granted_once_mono [simp]: "granted_once tr key \<Longrightarrow> granted_once (tr @ es) key"
  unfolding granted_once_def set_append by blast

lemma granted_mono [simp]: "granted env tr key d \<Longrightarrow> granted env (tr @ es) key d"
  by (cases d) simp_all

definition service_ok :: "network_environment \<Rightarrow> net_event list \<Rightarrow> 'u network_approval_service \<Rightarrow> bool" where
  "service_ok env tr s \<longleftrightarrow>
     (\<forall>k \<in> session_approved_hosts s. session_granted env tr k) \<and>
     (\<forall>key g. pending_host_approvals s key = Some g \<longrightarrow> Opened key g \<in> set tr) \<and>
     (\<forall>g d. generation_decisions s g = Some d \<longrightarrow> (\<exists>key. Opened key g \<in> set tr \<and> granted env tr key d)) \<and>
     (\<forall>key g. Opened key g \<in> set tr \<longrightarrow> g < next_generation s) \<and>
     (\<forall>key key' g. Opened key g \<in> set tr \<longrightarrow> Opened key' g \<in> set tr \<longrightarrow> key = key')"

definition owner_ok :: "network_environment \<Rightarrow> net_event list \<Rightarrow> 'u pending_owner \<Rightarrow> bool" where
  "owner_ok env tr ow \<longleftrightarrow>
     Opened (own_key ow) (own_generation ow) \<in> set tr \<and> granted env tr (own_key ow) (own_decision_on_drop ow) \<and>
     to_ascii_lowercase (nac_host (own_context ow)) = hak_host (phk_host (own_key ow))"

fun request_ok :: "network_environment \<Rightarrow> net_event list \<Rightarrow> 'u request_point \<Rightarrow> bool" where
  "request_ok env tr (Keyed req _ key _) = (hak_host key = to_ascii_lowercase (nreq_host req))"
| "request_ok env tr (Missed req _ key _) = (hak_host key = to_ascii_lowercase (nreq_host req))"
| "request_ok env tr (Waiting key g) = (Opened key g \<in> set tr)"
| "request_ok env tr (Reviewed ow d) = (owner_ok env tr ow \<and> ReviewAnswered (own_key ow) (Ok d) None \<in> set tr)"
| "request_ok env tr (Committing ow d) = (owner_ok env tr ow \<and> ReviewAnswered (own_key ow) (Ok d) None \<in> set tr)"
| "request_ok env tr (Amended ow a _) = owner_ok env tr ow"
| "request_ok env tr (Lifting ow a _) = (owner_ok env tr ow \<and> own_decision_on_drop ow = AllowForSession)"
| "request_ok env tr (Removing ow d ans) =
     (owner_ok env tr ow \<and> granted env tr (own_key ow) d \<and> (ans = Some NetAllow \<longrightarrow> d \<noteq> DenyPending))"
| "request_ok env tr (Publishing ow d ans) =
     (owner_ok env tr ow \<and> granted env tr (own_key ow) d \<and> (ans = Some NetAllow \<longrightarrow> d \<noteq> DenyPending))"
| "request_ok env tr p = (case unfinished_owner p of Some ow \<Rightarrow> owner_ok env tr ow | None \<Rightarrow> True)"

definition allowed_by :: "network_environment \<Rightarrow> net_event list \<Rightarrow> host_approval_key \<Rightarrow> pending_host_approval_key option \<Rightarrow> bool" where
  "allowed_by env tr k question \<longleftrightarrow>
     session_granted env tr k \<or> (\<exists>key. question = Some key \<and> phk_host key = k \<and> granted_once tr key)"

fun response_ok :: "network_environment \<Rightarrow> net_event list \<Rightarrow> net_event \<Rightarrow> bool" where
  "response_ok env tr (Responded k question NetAllow) = (\<exists>key. k = Some key \<and> allowed_by env tr key question)"
| "response_ok env tr _ = True"

definition step_ok :: "network_environment \<Rightarrow> net_event list \<Rightarrow> 'u step_result \<Rightarrow> bool" where
  "step_ok env tr r \<longleftrightarrow>
     (case r of (e, p, s) \<Rightarrow> service_ok env (tr @ [e]) s \<and> request_ok env (tr @ [e]) p \<and> response_ok env tr e)"

lemma owner_ok_mono [simp]: "owner_ok env tr ow \<Longrightarrow> owner_ok env (tr @ es) ow"
  by (simp add: owner_ok_def)

lemma request_ok_mono: "request_ok env tr p \<Longrightarrow> request_ok env (tr @ es) p"
  by (cases p) auto

lemma unfinished_ok: "request_ok env tr p \<Longrightarrow> unfinished_owner p = Some ow \<Longrightarrow> owner_ok env tr ow"
  by (cases p) auto

lemma service_okD:
  assumes "service_ok env tr s"
  shows "k \<in> session_approved_hosts s \<Longrightarrow> session_granted env tr k"
    "pending_host_approvals s key = Some g \<Longrightarrow> Opened key g \<in> set tr"
    "generation_decisions s g = Some d \<Longrightarrow> \<exists>key. Opened key g \<in> set tr \<and> granted env tr key d"
    "Opened key g \<in> set tr \<Longrightarrow> g < next_generation s"
    "Opened key g \<in> set tr \<Longrightarrow> Opened key' g \<in> set tr \<Longrightarrow> key = key'"
  using assms unfolding service_ok_def by blast+

lemma service_okI:
  assumes "\<And>k. k \<in> session_approved_hosts s \<Longrightarrow> session_granted env tr k"
    "\<And>key g. pending_host_approvals s key = Some g \<Longrightarrow> Opened key g \<in> set tr"
    "\<And>g d. generation_decisions s g = Some d \<Longrightarrow> \<exists>key. Opened key g \<in> set tr \<and> granted env tr key d"
    "\<And>key g. Opened key g \<in> set tr \<Longrightarrow> g < next_generation s"
    "\<And>key key' g. Opened key g \<in> set tr \<Longrightarrow> Opened key' g \<in> set tr \<Longrightarrow> key = key'"
  shows "service_ok env tr s"
  using assms unfolding service_ok_def by blast

lemma service_ok_frame:
  assumes "service_ok env tr s" "\<And>key g. e \<noteq> Opened key g" "same_board s s'"
    "\<And>k. k \<in> session_approved_hosts s' \<Longrightarrow> k \<in> session_approved_hosts s \<or> session_granted env (tr @ [e]) k"
  shows "service_ok env (tr @ [e]) s'"
proof -
  have op: "Opened key g \<in> set (tr @ [e]) \<longleftrightarrow> Opened key g \<in> set tr" for key g
    using assms(2)[of key g] by auto
  note D = service_okD[OF assms(1)]
  show ?thesis
  proof (rule service_okI)
    show "session_granted env (tr @ [e]) k" if "k \<in> session_approved_hosts s'" for k
      using assms(4)[OF that] D(1) session_granted_mono by blast
    show "\<exists>key. Opened key g \<in> set (tr @ [e]) \<and> granted env (tr @ [e]) key d" if "generation_decisions s' g = Some d" for g d
      using D(3)[of g d] that assms(3) unfolding op same_board_def by (metis granted_mono)
  qed (use D(2,4,5) assms(3) in \<open>auto simp: op same_board_def simp del: set_append\<close>)
qed

lemma decision_allows [simp]:
  "to_network_decision d = NetAllow \<longleftrightarrow> d \<noteq> DenyPending" "NetAllow = to_network_decision d \<longleftrightarrow> d \<noteq> DenyPending"
  "not_allowed \<noteq> NetAllow" "NetAllow \<noteq> not_allowed"
  by (cases d; simp add: deny_with_source_def)+

lemma response_ok_denied [simp]: "response_ok env tr (Responded k question not_allowed)"
  by (simp add: deny_with_source_def)

lemma response_ok_granted:
  "granted env tr key d \<Longrightarrow> (dec = NetAllow \<longrightarrow> d \<noteq> DenyPending) \<Longrightarrow>
     response_ok env tr (Responded (Some (phk_host key)) (Some key) dec)"
  by (cases dec; cases d) (auto simp: allowed_by_def)

lemma step_ok_quiet:
  assumes "service_ok env tr s" "request_ok env (tr @ [e]) p" "response_ok env tr e" "\<And>key g. e \<noteq> Opened key g"
    "same_board s s'" "\<And>k. k \<in> session_approved_hosts s' \<Longrightarrow> k \<in> session_approved_hosts s \<or> session_granted env (tr @ [e]) k"
  shows "step_ok env tr (e, p, s')"
  using assms service_ok_frame[OF assms(1,4,5,6)] by (simp add: step_ok_def)

lemma respond_ok:
  "service_ok env tr s \<Longrightarrow> same_board s s' \<Longrightarrow> session_approved_hosts s' = session_approved_hosts s \<Longrightarrow>
     step_ok env tr (respond k not_allowed s')"
  unfolding respond_def by (rule step_ok_quiet[where s = s]) auto

lemma complete_ok:
  assumes "service_ok env tr s" "owner_ok env (tr @ [e]) ow" "granted env (tr @ [e]) (own_key ow) d" "response_ok env tr e"
    "\<And>key g. e \<noteq> Opened key g" "same_board s s'"
    "\<And>k. k \<in> session_approved_hosts s' \<Longrightarrow> k \<in> session_approved_hosts s \<or> session_granted env (tr @ [e]) k"
  shows "step_ok env tr (complete e ow d s')"
  unfolding complete_def
  by (rule step_ok_quiet[OF assms(1)]) (use assms in \<open>auto simp: same_board_def\<close>)

lemma key_request_ok: "service_ok env tr s \<Longrightarrow> step_ok env tr (key_request turn req att s)"
  unfolding key_request_def
  by (auto simp: key_from_request_def intro!: respond_ok step_ok_quiet split: option.splits)

lemma look_up_host_ok:
  "service_ok env tr s \<Longrightarrow> request_ok env tr (Keyed req call key turn) \<Longrightarrow> look_up_host req call key turn s = Some r \<Longrightarrow> step_ok env tr r"
  unfolding look_up_host_def
  by (auto simp: respond_def allowed_by_def service_okD(1) intro!: step_ok_quiet split: if_splits)

lemma join_pending_ok:
  assumes "service_ok env tr s" "request_ok env tr (Missed req call key turn)"
  shows "step_ok env tr (join_pending req call key turn s)"
proof (cases turn)
  case None
  then show ?thesis using assms(1) by (auto simp: join_pending_def same_board_def intro!: respond_ok)
next
  case (Some tc)
  let ?k = "\<lparr>phk_host = key, phk_turn_id = (case call of Some c \<Rightarrow> call_turn_id c | None \<Rightarrow> turn_sub_id tc),
    phk_execution_id = map_option call_registration_id call\<rparr>"
  note D = service_okD[OF assms(1)]
  show ?thesis
  proof (cases "pending_host_approvals s ?k")
    case None
    let ?g = "next_generation s"
    have "service_ok env (tr @ [Opened ?k ?g]) (s\<lparr>pending_host_approvals := (pending_host_approvals s)(?k \<mapsto> ?g), next_generation := Suc ?g\<rparr>)"
    proof (rule service_okI)
      show "\<exists>key. Opened key g \<in> set (tr @ [Opened ?k ?g]) \<and> granted env (tr @ [Opened ?k ?g]) key d"
        if "generation_decisions (s\<lparr>pending_host_approvals := (pending_host_approvals s)(?k \<mapsto> ?g), next_generation := Suc ?g\<rparr>) g = Some d" for g d
        using D(3)[of g d] that granted_mono by fastforce
    qed (use D(1,2,5) in \<open>auto split: if_splits dest: D(4)\<close>)
    then show ?thesis using assms(2) Some None
      by (simp add: join_pending_def get_or_create_pending_approval_def step_ok_def owner_ok_def Let_def)
  next
    case (Some g)
    then show ?thesis using assms \<open>turn = Some tc\<close> D(2)[OF Some]
      by (auto simp: join_pending_def get_or_create_pending_approval_def Let_def intro!: step_ok_quiet)
  qed
qed

lemma wait_for_decision_ok:
  assumes "service_ok env tr s" "request_ok env tr (Waiting key g)" "wait_for_decision key g s = Some r"
  shows "step_ok env tr r"
proof -
  obtain d where d: "generation_decisions s g = Some d" using assms(3) by (auto simp: wait_for_decision_def)
  then have "granted env tr key d" using service_okD(3,5)[OF assms(1)] assms(2) by (metis request_ok.simps(3))
  then have "response_ok env tr (Responded (Some (phk_host key)) (Some key) (to_network_decision d))"
    by (rule response_ok_granted) simp
  then show ?thesis using assms(1,3) d by (auto simp: wait_for_decision_def intro!: step_ok_quiet)
qed

lemma check_approval_flow_ok:
  assumes "service_ok env tr s" "owner_ok env tr ow"
  shows "step_ok env tr (check_approval_flow ow turn s)"
  using assms unfolding check_approval_flow_def
  by (auto intro!: step_ok_quiet[where s = s] complete_ok[where s = s] simp: same_board_def)

lemma take_review_ok:
  assumes "service_ok env tr s" "owner_ok env tr ow"
  shows "step_ok env tr (take_review show_err r ow s)"
  using assms unfolding take_review_def
  by (auto intro!: step_ok_quiet[where s = s] complete_ok[where s = s] simp: same_board_def split: result.splits option.splits)

lemma resolve_owner_ok:
  assumes "service_ok env tr s" "owner_ok env tr ow" "granted env tr (own_key ow) d" "same_board s s'"
    "\<And>k. k \<in> session_approved_hosts s' \<Longrightarrow> k \<in> session_approved_hosts s \<or> session_granted env tr k"
  shows "step_ok env tr (resolve_owner ow review b d s')"
  unfolding resolve_owner_def
proof (rule complete_ok[OF assms(1)])
  show "owner_ok env (tr @ [Resolved (own_key ow) review d (network_telemetry_decision review b d)]) (ow\<lparr>own_decision_on_drop := d\<rparr>)"
    using assms(2,3) by (simp add: owner_ok_def)
  show "k \<in> session_approved_hosts s \<or> session_granted env (tr @ [Resolved (own_key ow) review d (network_telemetry_decision review b d)]) k"
    if "k \<in> session_approved_hosts s'" for k using assms(5)[OF that] session_granted_mono by blast
qed (use assms in auto)

lemma commit_review_ok:
  assumes "service_ok env tr s" "request_ok env tr (Committing ow d)" "commit_review ow d s = Some r"
  shows "step_ok env tr r"
proof -
  have a: "d = ApprovedForSession \<Longrightarrow> session_granted env tr (phk_host (own_key ow))"
    "d = Approved \<or> (\<exists>x. d = ApprovedExecpolicyAmendment x) \<Longrightarrow> granted_once tr (own_key ow)"
    using assms(2) by (auto simp: session_granted_def granted_once_def)
  obtain resolved s' where r: "resolve_review ow d s = (resolved, s')" by (cases "resolve_review ow d s")
  have "granted env tr (own_key ow) resolved \<and> same_board s s' \<and>
      (\<forall>k. k \<in> session_approved_hosts s' \<longrightarrow> k \<in> session_approved_hosts s \<or> session_granted env tr k)"
    using r a by (cases d) (auto simp: resolve_review_def Let_def same_board_def split: if_splits)
  moreover have "r = resolve_owner ow d False resolved s'"
    using assms(3) r by (cases d) (auto simp: commit_review_def)
  ultimately show ?thesis using assms(1,2) by (auto intro!: resolve_owner_ok)
qed

lemma persisted_hosts:
  "persist_network_policy_amendment is_ip ps a ctx = (True, saved) \<Longrightarrow> normalize_host is_ip (npa_host a) = normalize_host is_ip (nac_host ctx)"
  by (auto simp: persist_network_policy_amendment_def validated_network_policy_amendment_host_def split: if_splits)

lemma persist_amendment_ok:
  assumes "service_ok env tr s" "request_ok env tr (Committing ow d)" "persist_amendment (parses_as_ip env) ps ow d s = Some r"
  shows "step_ok env tr r"
proof -
  obtain a where d: "d = NetworkPolicyAmendment a" using assms(3) by (cases d) (auto simp: persist_amendment_def)
  obtain eff saved where p: "persist_network_policy_amendment (parses_as_ip env) ps a (own_context ow) = (eff, saved)"
    by (cases "persist_network_policy_amendment (parses_as_ip env) ps a (own_context ow)")
  let ?e = "PolicyPersisted (own_key ow) (own_context ow) a eff"
  let ?ow = "if eff then ow\<lparr>own_decision_on_drop := applied_decision a\<rparr> else ow"
  have r: "r = (?e, Amended ?ow a saved, s)" using assms(3) d p by (simp add: persist_amendment_def Let_def)
  have ow: "owner_ok env tr ow" "ReviewAnswered (own_key ow) (Ok (NetworkPolicyAmendment a)) None \<in> set tr"
    using assms(2) d by auto
  have "granted env (tr @ [?e]) (own_key ow) (applied_decision a)" if "eff"
  proof (cases "npa_action a")
    case NetworkAllow
    then have "session_granted env (tr @ [?e]) (phk_host (own_key ow))"
      using that ow p persisted_hosts unfolding session_granted_def owner_ok_def by fastforce
    then show ?thesis using NetworkAllow by (simp add: applied_decision_def)
  qed (simp add: applied_decision_def)
  then have "owner_ok env (tr @ [?e]) ?ow" using ow(1) owner_ok_mono[OF ow(1)] by (auto simp: owner_ok_def)
  then show ?thesis unfolding r by (intro step_ok_quiet[OF assms(1)]) simp_all
qed

lemma apply_amendment_ok:
  assumes "service_ok env tr s" "owner_ok env tr ow"
  shows "step_ok env tr (apply_amendment ow a saved s)"
proof (cases "npa_action a")
  case NetworkDeny
  then show ?thesis using assms unfolding apply_amendment_def Let_def
    by (auto intro!: step_ok_quiet[where s = s] simp: same_board_def)
next
  case NetworkAllow
  then show ?thesis using assms unfolding apply_amendment_def Let_def
    by (auto intro!: step_ok_quiet[where s = s] resolve_owner_ok[where s = s] simp: same_board_def)
qed

lemma publish_answer_ok:
  assumes "service_ok env tr s" "request_ok env tr (Publishing ow d ans)"
  shows "step_ok env tr (publish_answer t ow d ans s)"
proof -
  define e where "e = (case ans of Some dec \<Rightarrow> Responded (Some (phk_host (own_key ow))) (Some (own_key ow)) dec | None \<Rightarrow> Internal)"
  note D = service_okD[OF assms(1)]
  have ow: "Opened (own_key ow) (own_generation ow) \<in> set tr" "granted env tr (own_key ow) d" using assms(2) by (auto simp: owner_ok_def)
  have op: "Opened key g \<in> set (tr @ [e]) \<longleftrightarrow> Opened key g \<in> set tr" for key g
    by (auto simp: e_def split: option.splits)
  have "response_ok env tr e"
    using assms(2) response_ok_granted[OF ow(2)] by (cases ans) (auto simp: e_def)
  moreover have "service_ok env (tr @ [e]) (release t (set_decision (own_generation ow) d s))"
  proof (rule service_okI)
    show "\<exists>key. Opened key g \<in> set (tr @ [e]) \<and> granted env (tr @ [e]) key d'"
      if "generation_decisions (release t (set_decision (own_generation ow) d s)) g = Some d'" for g d'
      using that ow D(3)[of g d'] granted_mono unfolding op by (auto simp: set_decision_def split: if_splits)
  qed (use D(1,2,4,5) in \<open>auto simp: op set_decision_def split: if_splits simp del: set_append\<close>)
  ultimately show ?thesis by (simp add: publish_answer_def step_ok_def e_def)
qed

lemma drop_request_ok:
  assumes "service_ok env tr s" "request_ok env tr p" "drop_request reason elapsed t p s = Some r"
  shows "step_ok env tr r"
proof (cases "unfinished_owner p")
  case None
  then have "r = (Internal, Answered None, s)"
    using assms(3) by (auto simp: drop_request_def split: request_point.splits)
  then show ?thesis using assms(1) by (auto intro!: step_ok_quiet[where s = s])
next
  case (Some ow)
  then have ow: "owner_ok env tr ow" using unfinished_ok assms(2) by blast
  have "r = (Internal, Removing ow (own_decision_on_drop ow) None, owner_drop reason elapsed ow (release t s))"
    using assms(3) Some by (simp add: drop_request_def)
  moreover have "granted env (tr @ [Internal]) (own_key ow) (own_decision_on_drop ow)" using ow by (simp add: owner_ok_def)
  ultimately show ?thesis using assms(1) ow by (auto intro!: step_ok_quiet[where s = s] simp: same_board_def)
qed

lemma remove_generation_ok:
  assumes "service_ok env tr s"
  shows "service_ok env (tr @ [Internal]) (remove_generation ow s)"
proof -
  have "service_ok env (tr @ [Internal]) s" by (rule service_ok_frame[OF assms]) simp_all
  then show ?thesis unfolding service_ok_def remove_generation_def by auto
qed

lemmas request_step_oks = look_up_host_ok join_pending_ok wait_for_decision_ok commit_review_ok persist_amendment_ok
  publish_answer_ok

lemma advance_ok:
  assumes "service_ok env tr s" "request_ok env tr p" "advance env inp t p s = Some r"
  shows "step_ok env tr r"
proof (cases inp)
  case (Dropped reason elapsed)
  then show ?thesis using assms drop_request_ok by (simp add: advance_def)
next
  case (ActiveTurn turn)
  then show ?thesis using assms key_request_ok by (auto simp: advance_def split: request_point.splits)
next
  case (ReviewResult res)
  then show ?thesis using assms take_review_ok by (auto simp: advance_def split: request_point.splits)
next
  case SeeCancelled
  then show ?thesis using assms
    by (auto simp: advance_def see_cancelled_def intro!: complete_ok[where s = s]
        split: request_point.splits option.splits if_splits)
next
  case SessionGone
  then show ?thesis using assms
    by (auto simp: advance_def respond_def ask_with_source_def intro!: step_ok_quiet[where s = s] split: request_point.splits)
next
  case (Persist ps)
  then obtain ow d where "p = Committing ow d" "persist_amendment (parses_as_ip env) ps ow d s = Some r"
    using assms(3) by (auto simp: advance_def split: request_point.splits)
  then show ?thesis using persist_amendment_ok[OF assms(1)] assms(2) by blast
next
  case Go
  then show ?thesis
  proof (cases p)
    case (Arrived req)
    then show ?thesis using Go assms
      by (auto simp: advance_def attribute_request_def intro!: respond_ok step_ok_quiet[where s = s] split: option.splits)
  next
    case (Reviewed ow d)
    then show ?thesis using Go assms
      by (auto simp: advance_def begin_commit_def same_board_def intro!: step_ok_quiet[where s = s] split: if_splits)
  next
    case (Lifting ow a saved)
    then have "session_granted env tr (phk_host (own_key ow))" using assms(2) by (auto simp: owner_ok_def)
    then show ?thesis using Go Lifting assms
      by (auto simp: advance_def approve_amended_host_def same_board_def intro!: resolve_owner_ok[where s = s])
  next
    case (Revoking ow a saved)
    then show ?thesis using Go assms
      by (auto simp: advance_def deny_amended_host_def same_board_def intro!: resolve_owner_ok[where s = s])
  next
    case (Removing ow d ans)
    then show ?thesis using Go assms remove_generation_ok by (auto simp: advance_def step_ok_def)
  qed (use assms Go in \<open>auto simp: advance_def intro: request_step_oks check_approval_flow_ok apply_amendment_ok\<close>)
qed

definition state_ok :: "network_environment \<Rightarrow> net_event list \<Rightarrow> 'u network_state \<Rightarrow> bool" where
  "state_ok env tr s \<longleftrightarrow> service_ok env tr (net_service s) \<and> (\<forall>t p. net_requests s t = Some p \<longrightarrow> request_ok env tr p)"

lemma outside_ok:
  assumes "service_ok env tr s" "outside out s = (e, s')"
  shows "service_ok env (tr @ [e]) s' \<and> response_ok env tr e"
proof -
  have "(\<forall>key g. e \<noteq> Opened key g) \<and> response_ok env tr e \<and>
      (\<forall>k \<in> session_approved_hosts s'. k \<in> session_approved_hosts s \<or> session_granted env (tr @ [e]) k)"
    using assms(2) by (cases out) (auto simp: session_granted_def call_operation_defs Let_def split: option.splits prod.splits if_splits)
  then show ?thesis using service_ok_frame[OF assms(1) _ same_board_outside[OF assms(2)]] by blast
qed

lemma net_step_ok:
  assumes "state_ok env tr s" "net_step env s e s'"
  shows "state_ok env (tr @ [e]) s' \<and> response_ok env tr e"
  using assms(2)
proof (cases rule: net_step.cases)
  case (request_step t p inp p' v)
  then have "step_ok env tr (e, p', v)" using advance_ok assms(1) unfolding state_ok_def by blast
  then show ?thesis using assms(1) request_step(1) request_ok_mono by (fastforce simp: state_ok_def step_ok_def)
next
  case (arrival t req)
  have "service_ok env (tr @ [Internal]) (net_service s)"
    by (rule service_ok_frame) (use assms(1) in \<open>auto simp: state_ok_def\<close>)
  then show ?thesis using assms(1) arrival request_ok_mono by (fastforce simp: state_ok_def)
next
  case (outside_step out v)
  then show ?thesis using assms(1) outside_ok request_ok_mono by (fastforce simp: state_ok_def)
qed

lemma net_run_ok: "net_run env tr s \<Longrightarrow> state_ok env tr s"
proof (induction rule: net_run.induct)
  case run_start
  show ?case by (simp add: state_ok_def network_start_def service_default_def service_ok_def)
qed (use net_step_ok in blast)

text \<open>
  C9: Network access is allowed only after an approval. In every interleaving, when a request is answered with
  \<open>Allow\<close>, then before that answer the host of the request (its environment, name, protocol and port) had been
  granted for the session, by an answer for the session, by an amendment for that host that took effect, or by
  the session it was taken over from; or a reviewer had approved the very question of the request, so that
  a single approval serves only requests of the same turn and execution.
\<close>

theorem allowed_access_was_approved:
  assumes "net_run env (tr @ Responded k question NetAllow # later) s"
  shows "\<exists>host_key. k = Some host_key \<and> allowed_by env tr host_key question"
proof -
  obtain s1 where s1: "net_run env tr s1" "net_steps env s1 (Responded k question NetAllow # later) s"
    using net_run_split[OF assms] by blast
  from s1(2) obtain s2 where "net_step env s1 (Responded k question NetAllow) s2" by (cases rule: net_steps.cases) auto
  from net_step_ok[OF net_run_ok[OF s1(1)] this] show ?thesis by simp
qed

section \<open>Denials and their consequences\<close>

text \<open>An owner that denies a host for the session, after the denying amendment was answered.\<close>

fun denies_host :: "host_approval_key \<Rightarrow> net_event \<Rightarrow> bool" where
  "denies_host k (Resolved key (NetworkPolicyAmendment a) _ _) = (phk_host key = k \<and> npa_action a = NetworkDeny)"
| "denies_host k _ = False"

lemmas step_defs = advance_def drop_request_def key_request_def take_review_def see_cancelled_def persist_amendment_def
  attribute_request_def look_up_host_def join_pending_def wait_for_decision_def check_approval_flow_def begin_commit_def
  commit_review_def apply_amendment_def approve_amended_host_def deny_amended_host_def publish_answer_def
  resolve_owner_def complete_def respond_def resolve_review_def get_or_create_pending_approval_def

lemmas step_splits = option.splits if_splits review_decision.splits network_policy_rule_action.splits prod.splits result.splits

fun commits :: "'u request_point \<Rightarrow> bool" where
  "commits (Committing ow d) = needs_commit_lock d"
| "commits (Amended ow a saved) = True"
| "commits (Lifting ow a saved) = True"
| "commits (Revoking ow a saved) = True"
| "commits _ = False"

text \<open>A step takes the lock, releases its own, or leaves it; who commits has it.\<close>

lemma advance_lock:
  assumes "advance env inp t p s = Some (e, p', s')" "commits p \<longrightarrow> session_policy_commit_lock s = Some t"
  shows "(commits p' \<longrightarrow> session_policy_commit_lock s' = Some t) \<and>
    (session_policy_commit_lock s = None \<or> session_policy_commit_lock s = Some t \<or>
     session_policy_commit_lock s' = session_policy_commit_lock s)"
proof (cases inp)
  case (Dropped reason elapsed)
  then show ?thesis using assms(1) by (cases p) (auto simp: step_defs release_def split: step_splits)
next
  case Go
  then show ?thesis using assms
    by (cases p) (auto simp: step_defs release_def Let_def split: step_splits)
qed (use assms in \<open>cases p; auto simp: step_defs Let_def split: step_splits\<close>)+

text \<open>How a step changes what is approved and denied for the session.\<close>

inductive sets_change :: "'u request_point \<Rightarrow> net_event \<Rightarrow> 'u request_point \<Rightarrow> host_approval_key set \<Rightarrow> host_approval_key set \<Rightarrow>
    host_approval_key set \<Rightarrow> host_approval_key set \<Rightarrow> bool" where
  keeps: "(\<And>ow a b. p' \<noteq> Lifting ow a b) \<Longrightarrow> (\<And>ow a b. p' \<noteq> Revoking ow a b) \<Longrightarrow> (\<And>k. \<not> denies_host k e) \<Longrightarrow>
    (\<And>k. e = Responded (Some k) None NetAllow \<Longrightarrow> k \<notin> den) \<Longrightarrow>
    (\<And>key d x tel. e = Resolved key d x tel \<Longrightarrow> phk_host key \<in> den \<Longrightarrow> x = DenyPending) \<Longrightarrow> sets_change p e p' app den app den"
| approves: "k = phk_host (own_key ow) \<Longrightarrow> k \<notin> den \<Longrightarrow>
    sets_change (Committing ow ApprovedForSession) (Resolved (own_key ow) ApprovedForSession AllowForSession tel) (Removing ow' d ans)
      app den (insert k app) den"
| lifts: "k = phk_host (own_key ow) \<Longrightarrow> npa_action a = NetworkAllow \<Longrightarrow>
    sets_change (Amended ow a b) (DenialLifted k) (Lifting ow a b) app den app (den - {k})"
| allows: "k = phk_host (own_key ow) \<Longrightarrow>
    sets_change (Lifting ow a b) (Resolved (own_key ow) (NetworkPolicyAmendment a) AllowForSession tel) (Removing ow' d ans)
      app den (insert k app) den"
| revokes: "k = phk_host (own_key ow) \<Longrightarrow> npa_action a = NetworkDeny \<Longrightarrow>
    sets_change (Amended ow a b) Internal (Revoking ow a b) app den (app - {k}) den"
| denies: "k = phk_host (own_key ow) \<Longrightarrow>
    sets_change (Revoking ow a b) (Resolved (own_key ow) (NetworkPolicyAmendment a) DenyPending tel) (Removing ow' d ans)
      app den app (insert k den)"

lemma advance_sets:
  assumes "advance env inp t p s = Some (e, p', s')"
  shows "sets_change p e p' (session_approved_hosts s) (session_denied_hosts s) (session_approved_hosts s') (session_denied_hosts s')"
proof (cases inp)
  case (Dropped reason elapsed)
  then show ?thesis using assms by (cases p) (auto simp: step_defs intro!: keeps split: step_splits)
next
  case Go
  show ?thesis
  proof (cases p)
    case (Committing ow d)
    then show ?thesis using assms Go
      by (cases d) (auto simp: step_defs Let_def intro!: keeps approves split: step_splits)
  next
    case (Amended ow a saved)
    then show ?thesis using assms Go
      by (cases "npa_action a") (auto simp: step_defs Let_def intro!: keeps intro: lifts revokes split: if_splits)
  next
    case (Lifting ow a saved)
    then show ?thesis using assms Go by (auto simp: step_defs intro!: allows)
  next
    case (Revoking ow a saved)
    then show ?thesis using assms Go by (auto simp: step_defs intro!: denies)
  next
    case (Removing ow d ans)
    then show ?thesis using assms Go by (auto simp: step_defs intro!: keeps)
  qed (use assms Go in \<open>auto simp: step_defs Let_def intro!: keeps split: option.splits if_splits prod.splits\<close>)
qed (use assms in \<open>cases p; auto simp: step_defs Let_def intro!: keeps split: step_splits\<close>)+

text \<open>
  The invariant of the commit lock: who commits has it, so a lifted denial is not renewed before the host is
  approved, a revoked approval not renewed before it is denied, and unless hosts are taken over from another
  session no host is both approved and denied.
\<close>

fun commit_ok :: "'u request_point \<Rightarrow> host_approval_key set \<Rightarrow> bool" where
  "commit_ok (Lifting ow a b) den = (npa_action a = NetworkAllow \<and> phk_host (own_key ow) \<notin> den)"
| "commit_ok (Revoking ow a b) den = (npa_action a = NetworkDeny)"
| "commit_ok _ den = True"

definition lock_inv :: "'u network_state \<Rightarrow> bool" where
  "lock_inv s \<longleftrightarrow> (\<forall>t p. net_requests s t = Some p \<longrightarrow>
     (commits p \<longrightarrow> session_policy_commit_lock (net_service s) = Some t) \<and> commit_ok p (session_denied_hosts (net_service s)))"

definition apart :: "'u network_state \<Rightarrow> bool" where
  "apart s \<longleftrightarrow> session_approved_hosts (net_service s) \<inter> session_denied_hosts (net_service s) = {} \<and>
     (\<forall>t ow a b. net_requests s t = Some (Revoking ow a b) \<longrightarrow> phk_host (own_key ow) \<notin> session_approved_hosts (net_service s))"

lemma commit_ok_mono: "commit_ok p den \<Longrightarrow> den' \<subseteq> den \<Longrightarrow> commit_ok p den'"
  by (cases p) auto

lemma commit_ok_idle: "\<not> commits p \<Longrightarrow> commit_ok p den"
  by (cases p) auto

lemma quiet_sets: "sets_change p e p' app den app' den' \<Longrightarrow> \<not> commits p \<Longrightarrow> app' = app \<and> den' = den"
  by (induction rule: sets_change.induct) auto

lemma sets_commit_ok: "sets_change p e p' app den app' den' \<Longrightarrow> commit_ok p' den'"
proof (induction rule: sets_change.induct)
  case (keeps p')
  then show ?case by (cases p') auto
qed auto

lemma outside_sets:
  "outside out s = (e, s') \<Longrightarrow> session_policy_commit_lock s' = session_policy_commit_lock s \<and>
     session_denied_hosts s' = session_denied_hosts s \<and>
     (session_approved_hosts s' = session_approved_hosts s \<and> e = Internal \<or> (\<exists>K. e = Imported K))"
  by (cases out) (auto simp: call_operation_defs Let_def split: option.splits prod.splits if_splits)

lemma net_step_lock:
  assumes "lock_inv s" "net_step env s e s'"
  shows "lock_inv s'"
  using assms(2)
proof (cases rule: net_step.cases)
  case (request_step t p inp p' v)
  have p: "commits p \<longrightarrow> session_policy_commit_lock (net_service s) = Some t" using assms(1) request_step(2) by (auto simp: lock_inv_def)
  note lock = advance_lock[OF request_step(3) p] and change = advance_sets[OF request_step(3)]
  have "(commits q \<longrightarrow> session_policy_commit_lock v = Some u) \<and> commit_ok q (session_denied_hosts v)"
    if q: "net_requests s u = Some q" "u \<noteq> t" for u q
  proof (cases "commits q")
    case True
    then have held: "session_policy_commit_lock (net_service s) = Some u" using assms(1) q(1) by (auto simp: lock_inv_def)
    then have "\<not> commits p" using p q(2) by auto
    then have "session_denied_hosts v = session_denied_hosts (net_service s)" using quiet_sets[OF change] by simp
    moreover have "commit_ok q (session_denied_hosts (net_service s))" using assms(1) q(1) by (auto simp: lock_inv_def)
    ultimately show ?thesis using lock held q(2) by auto
  qed (simp add: commit_ok_idle)
  then show ?thesis using lock sets_commit_ok[OF change] request_step(1) by (auto simp: lock_inv_def)
next
  case (arrival t req)
  then show ?thesis using assms(1) by (auto simp: lock_inv_def)
next
  case (outside_step out v)
  then show ?thesis using assms(1) outside_sets[OF outside_step(2)] by (auto simp: lock_inv_def)
qed

lemma net_run_lock: "net_run env tr s \<Longrightarrow> lock_inv s"
proof (induction rule: net_run.induct)
  case run_start
  show ?case by (simp add: lock_inv_def network_start_def)
qed (use net_step_lock in blast)

lemma net_step_apart:
  assumes "lock_inv s" "apart s" "net_step env s e s'" "\<And>K. e \<noteq> Imported K"
  shows "apart s'"
  using assms(3)
proof (cases rule: net_step.cases)
  case (request_step t p inp p' v)
  have p: "commits p \<Longrightarrow> session_policy_commit_lock (net_service s) = Some t" "commit_ok p (session_denied_hosts (net_service s))"
    using assms(1) request_step(2) by (auto simp: lock_inv_def)
  have alone: "net_requests s u \<noteq> Some (Revoking ow a b)" if "u \<noteq> t" "commits p" for u ow a b
  proof
    assume "net_requests s u = Some (Revoking ow a b)"
    then have "session_policy_commit_lock (net_service s) = Some u" using assms(1) unfolding lock_inv_def by (metis commits.simps(4))
    then show False using p(1)[OF that(2)] that(1) by simp
  qed
  show ?thesis using advance_sets[OF request_step(3)]
  proof (cases rule: sets_change.cases)
    case keeps
    then show ?thesis using assms(2) request_step(1) by (auto simp: apart_def)
  next
    case (approves k ow)
    then show ?thesis using assms(2) request_step(1) alone by (auto simp: apart_def)
  next
    case (lifts k ow a b)
    then show ?thesis using assms(2) request_step(1) by (auto simp: apart_def)
  next
    case (allows k ow a b)
    then show ?thesis using assms(2) request_step(1) alone p(2) by (auto simp: apart_def)
  next
    case (revokes k ow a b)
    then show ?thesis using assms(2) request_step(1) by (auto simp: apart_def)
  next
    case (denies k ow a b)
    then have "k \<notin> session_approved_hosts (net_service s)" using assms(2) request_step(2) unfolding apart_def by blast
    then show ?thesis using denies assms(2) request_step(1) by (auto simp: apart_def)
  qed
next
  case (arrival t req)
  then show ?thesis using assms(2) by (auto simp: apart_def)
next
  case (outside_step out v)
  then show ?thesis using assms(2,4) outside_sets[OF outside_step(2)] by (auto simp: apart_def)
qed

text \<open>
  No host is both approved and denied for the session. However requests, reviews, amendments and withdrawals
  interleave, the two session sets stay disjoint as long as no approved hosts are taken over from another
  session, because every change of them is made by a request that holds the commit lock.
\<close>

theorem session_sets_disjoint:
  assumes "net_run env tr s" "\<And>K. Imported K \<notin> set tr"
  shows "session_approved_hosts (net_service s) \<inter> session_denied_hosts (net_service s) = {}"
proof -
  have "apart s" using assms
  proof (induction rule: net_run.induct)
    case run_start
    show ?case by (simp add: apart_def network_start_def service_default_def)
  next
    case (run_step tr s e s')
    from run_step.prems have "\<And>K. Imported K \<notin> set tr" "\<And>K. e \<noteq> Imported K" by auto
    then show ?case using net_step_apart[OF net_run_lock] run_step.hyps run_step.IH by blast
  qed
  then show ?thesis by (simp add: apart_def)
qed

lemma denied_set_step:
  assumes "lock_inv s" "net_step env s e s'"
  shows "denies_host k e \<Longrightarrow> k \<in> session_denied_hosts (net_service s')"
    "k \<in> session_denied_hosts (net_service s) \<Longrightarrow> e \<noteq> DenialLifted k \<Longrightarrow> k \<in> session_denied_hosts (net_service s')"
    "k \<in> session_denied_hosts (net_service s) \<Longrightarrow> e \<noteq> Responded (Some k) None NetAllow"
    "k \<in> session_denied_hosts (net_service s) \<Longrightarrow> e = Resolved key d x tel \<Longrightarrow> phk_host key = k \<Longrightarrow> x = DenyPending"
proof -
  have "(denies_host k e \<longrightarrow> k \<in> session_denied_hosts (net_service s')) \<and>
    (k \<in> session_denied_hosts (net_service s) \<longrightarrow>
      (e \<noteq> DenialLifted k \<longrightarrow> k \<in> session_denied_hosts (net_service s')) \<and> e \<noteq> Responded (Some k) None NetAllow \<and>
      (e = Resolved key d x tel \<and> phk_host key = k \<longrightarrow> x = DenyPending))"
    using assms(2)
  proof (cases rule: net_step.cases)
    case (request_step t p inp p' v)
    have p: "commit_ok p (session_denied_hosts (net_service s))" using assms(1) request_step(2) by (auto simp: lock_inv_def)
    from advance_sets[OF request_step(3)] show ?thesis
      by (cases rule: sets_change.cases) (use p in \<open>auto simp: request_step(1)\<close>)
  next
    case (outside_step out v)
    have "e = Internal \<or> (\<exists>K. e = Imported K)" "session_denied_hosts v = session_denied_hosts (net_service s)"
      using outside_sets[OF outside_step(2)] by blast+
    then show ?thesis unfolding outside_step(1) by (elim disjE exE) simp_all
  qed simp_all
  then show "denies_host k e \<Longrightarrow> k \<in> session_denied_hosts (net_service s')"
    "k \<in> session_denied_hosts (net_service s) \<Longrightarrow> e \<noteq> DenialLifted k \<Longrightarrow> k \<in> session_denied_hosts (net_service s')"
    "k \<in> session_denied_hosts (net_service s) \<Longrightarrow> e \<noteq> Responded (Some k) None NetAllow"
    "k \<in> session_denied_hosts (net_service s) \<Longrightarrow> e = Resolved key d x tel \<Longrightarrow> phk_host key = k \<Longrightarrow> x = DenyPending" by auto
qed

lemma denied_stays:
  "net_steps env s es s' \<Longrightarrow> lock_inv s \<Longrightarrow> k \<in> session_denied_hosts (net_service s) \<Longrightarrow> DenialLifted k \<notin> set es \<Longrightarrow>
     k \<in> session_denied_hosts (net_service s')"
  by (induction rule: net_steps.induct) (auto intro: net_step_lock denied_set_step(2))

text \<open>
  C11: A denial for the session holds until it is lifted. After an owner has denied a host with an amendment, and as
  long as no later amendment lifted that denial, no request is allowed from the session, no reviewer's answer for
  the host is turned into a permission, neither once nor for the session, and the host stays denied, even
  when approved hosts are taken over from another session.
\<close>

theorem denial_holds_until_lifted:
  assumes "net_run env (tr @ denial # later) s" "denies_host k denial" "DenialLifted k \<notin> set later" "net_step env s e s'"
  shows "k \<in> session_denied_hosts (net_service s) \<and> e \<noteq> Responded (Some k) None NetAllow \<and>
    (\<forall>key d x tel. e = Resolved key d x tel \<and> phk_host key = k \<longrightarrow> x = DenyPending)"
proof -
  obtain s1 where s1: "net_run env tr s1" "net_steps env s1 (denial # later) s" using net_run_split[OF assms(1)] by blast
  from s1(2) obtain s2 where s2: "net_step env s1 denial s2" "net_steps env s2 later s" by (cases rule: net_steps.cases) auto
  note inv = net_run_lock[OF s1(1)]
  have "k \<in> session_denied_hosts (net_service s)"
    using denied_stays[OF s2(2) net_step_lock[OF inv s2(1)] denied_set_step(1)[OF inv s2(1) assms(2)] assms(3)] .
  then show ?thesis using denied_set_step(3,4)[OF net_run_lock[OF assms(1)] assms(4)] by blast
qed

section \<open>Refused executions\<close>

lemma cancelled_frame:
  "cancelled_tokens s \<subseteq> cancelled_tokens (cancel token s)" "cancelled_tokens s \<subseteq> cancelled_tokens (record_call_outcome rid msg s)"
  "cancelled_tokens s \<subseteq> cancelled_tokens (record_call_outcome_if_absent rid msg s)"
  "cancelled_tokens (snd (store_call_outcome rid msg s)) = cancelled_tokens s"
  "cancelled_tokens s \<subseteq> cancelled_tokens (cancel_execution_if_denied ow d s)"
  "cancelled_tokens s \<subseteq> cancelled_tokens (record_owner_outcome call msg s)" "cancelled_tokens (release t s) = cancelled_tokens s"
  "cancelled_tokens s \<subseteq> cancelled_tokens (owner_drop reason elapsed ow s)"
  "cancelled_tokens (remove_generation ow s) = cancelled_tokens s" "cancelled_tokens (set_decision g d s) = cancelled_tokens s"
  by (auto simp: call_operation_defs remove_generation_def set_decision_def split: option.splits prod.splits)

lemma denial_cancels:
  "own_call ow = Some call \<Longrightarrow> call_token call \<in> cancelled_tokens (cancel_execution_if_denied ow DenyPending s)"
  by (simp add: cancel_execution_if_denied_def cancel_def)

text \<open>An owner on its way to answer with a refusal has cancelled its execution.\<close>

fun refusal_ok :: "nat set \<Rightarrow> 'u request_point \<Rightarrow> bool" where
  "refusal_ok tokens (Removing ow DenyPending (Some ans)) = (\<forall>call. own_call ow = Some call \<longrightarrow> call_token call \<in> tokens)"
| "refusal_ok tokens (Publishing ow DenyPending (Some ans)) = (\<forall>call. own_call ow = Some call \<longrightarrow> call_token call \<in> tokens)"
| "refusal_ok tokens _ = True"

lemma refusal_ok_mono: "refusal_ok tokens p \<Longrightarrow> tokens \<subseteq> tokens' \<Longrightarrow> refusal_ok tokens' p"
  by (induction tokens p rule: refusal_ok.induct) auto

abbreviation refusal_step :: "'u network_approval_service \<Rightarrow> 'u step_result \<Rightarrow> bool" where
  "refusal_step s r \<equiv> refusal_ok (cancelled_tokens (snd (snd r))) (fst (snd r)) \<and> cancelled_tokens s \<subseteq> cancelled_tokens (snd (snd r))"

lemma complete_refusal_step:
  "cancelled_tokens s \<subseteq> cancelled_tokens s' \<Longrightarrow> refusal_step s (complete e ow d s')"
  using cancelled_frame(5)[of s' ow d] by (cases d) (auto simp: complete_def denial_cancels)

lemma resolve_refusal_step: "cancelled_tokens s \<subseteq> cancelled_tokens s' \<Longrightarrow> refusal_step s (resolve_owner ow d b x s')"
  unfolding resolve_owner_def by (rule complete_refusal_step)

lemma advance_refusal:
  assumes "refusal_ok (cancelled_tokens s) p" "advance env inp t p s = Some r"
  shows "refusal_step s r"
proof (cases inp)
  case (Dropped reason elapsed)
  show ?thesis
  proof (cases "unfinished_owner p")
    case (Some ow)
    then have "r = (Internal, Removing ow (own_decision_on_drop ow) None, owner_drop reason elapsed ow (release t s))"
      using assms(2) Dropped by (simp add: advance_def drop_request_def)
    moreover have "cancelled_tokens s \<subseteq> cancelled_tokens (owner_drop reason elapsed ow (release t s))"
      using cancelled_frame(7,8) by metis
    ultimately show ?thesis by (cases "own_decision_on_drop ow") simp_all
  qed (use assms(2) Dropped in \<open>auto simp: advance_def drop_request_def split: request_point.splits\<close>)
next
  case (ReviewResult res)
  then obtain ow where "r = take_review (show_codex_err env) res ow s"
    using assms(2) by (auto simp: advance_def split: request_point.splits)
  then show ?thesis using complete_refusal_step[OF cancelled_frame(6)[of s]]
    by (cases res) (simp_all add: take_review_def cancelled_frame split: option.splits)
next
  case Go
  show ?thesis
  proof (cases p)
    case (Missed req call key turn)
    then show ?thesis using Go assms(2)
      by (auto simp: advance_def join_pending_def respond_def Let_def get_or_create_pending_approval_def
          dest: cancelled_frame(6)[THEN subsetD] split: option.splits prod.splits)
  next
    case (Owning ow turn)
    then have "r = check_approval_flow ow turn s" using Go assms(2) by (simp add: advance_def)
    then show ?thesis using complete_refusal_step[OF cancelled_frame(6)[of s]] by (simp add: check_approval_flow_def)
  next
    case (Committing ow d)
    obtain x s' where x: "resolve_review ow d s = (x, s')" by (cases "resolve_review ow d s")
    then have "cancelled_tokens s \<subseteq> cancelled_tokens s'"
      using cancelled_frame(6) by (cases d) (auto simp: resolve_review_def Let_def split: if_splits)
    moreover have "r = resolve_owner ow d False x s'"
      using Go Committing assms(2) x by (cases d) (auto simp: advance_def commit_review_def)
    ultimately show ?thesis using resolve_refusal_step by blast
  next
    case (Amended ow a saved)
    then have "r = apply_amendment ow a saved s" using Go assms(2) by (simp add: advance_def)
    then show ?thesis using resolve_refusal_step[OF cancelled_frame(6)[of s]] cancelled_frame(6)[of s]
      by (cases "npa_action a") (simp_all add: apply_amendment_def Let_def)
  next
    case (Lifting ow a saved)
    then have "r = approve_amended_host ow a saved s" using Go assms(2) by (simp add: advance_def)
    then show ?thesis unfolding approve_amended_host_def using resolve_refusal_step by fastforce
  next
    case (Revoking ow a saved)
    then have "r = deny_amended_host ow a saved s" using Go assms(2) by (simp add: advance_def)
    then show ?thesis unfolding deny_amended_host_def using resolve_refusal_step by fastforce
  next
    case (Removing ow d ans)
    then show ?thesis using Go assms by (cases d; cases ans) (auto simp: advance_def cancelled_frame)
  qed (use assms(2) Go in \<open>auto simp: step_defs cancelled_frame Let_def split: option.splits if_splits prod.splits\<close>)
next
  case SeeCancelled
  then show ?thesis using assms(2) complete_refusal_step[of s s]
    by (auto simp: advance_def see_cancelled_def split: request_point.splits option.splits if_splits)
qed (use assms(2) in \<open>auto simp: advance_def key_request_def respond_def persist_amendment_def Let_def
    split: request_point.splits option.splits if_splits review_decision.splits prod.splits\<close>)

lemma outside_cancelled: "outside out s = (e, s') \<Longrightarrow> cancelled_tokens s \<subseteq> cancelled_tokens s'"
  by (cases out) (auto simp: call_operation_defs Let_def split: option.splits prod.splits if_splits)

definition refusal_inv :: "'u network_state \<Rightarrow> bool" where
  "refusal_inv s \<longleftrightarrow> (\<forall>t p. net_requests s t = Some p \<longrightarrow> refusal_ok (cancelled_tokens (net_service s)) p)"

lemma net_step_refusal:
  assumes "refusal_inv s" "net_step env s e s'"
  shows "refusal_inv s' \<and> cancelled_tokens (net_service s) \<subseteq> cancelled_tokens (net_service s')"
  using assms(2)
proof (cases rule: net_step.cases)
  case (request_step t p inp p' v)
  then have r: "refusal_ok (cancelled_tokens v) p'" "cancelled_tokens (net_service s) \<subseteq> cancelled_tokens v"
    using advance_refusal[of "net_service s" p env inp t "(e, p', v)"] assms(1) by (auto simp: refusal_inv_def)
  moreover have "refusal_ok (cancelled_tokens v) q" if "net_requests s u = Some q" for u q
    using assms(1) that refusal_ok_mono[OF _ r(2)] by (auto simp: refusal_inv_def)
  ultimately show ?thesis using request_step(1) by (auto simp: refusal_inv_def)
next
  case (arrival t req)
  then show ?thesis using assms(1) by (auto simp: refusal_inv_def)
next
  case (outside_step out v)
  have sub: "cancelled_tokens (net_service s) \<subseteq> cancelled_tokens v" by (rule outside_cancelled[OF outside_step(2)])
  moreover have "refusal_ok (cancelled_tokens v) q" if "net_requests s u = Some q" for u q
    using assms(1) that refusal_ok_mono[OF _ sub] by (auto simp: refusal_inv_def)
  ultimately show ?thesis using outside_step(1) by (auto simp: refusal_inv_def)
qed

lemma net_run_refusal: "net_run env tr s \<Longrightarrow> refusal_inv s"
proof (induction rule: net_run.induct)
  case run_start
  show ?case by (simp add: refusal_inv_def network_start_def)
qed (use net_step_refusal in blast)

lemma net_steps_cancelled:
  "net_steps env s es s' \<Longrightarrow> refusal_inv s \<Longrightarrow> cancelled_tokens (net_service s) \<subseteq> cancelled_tokens (net_service s')"
proof (induction rule: net_steps.induct)
  case (more_steps s e s' es s'')
  then show ?case using net_step_refusal by blast
qed simp

lemma rejection_total: "\<exists>m. truncate_rejection_message message = Some m"
proof (cases "byte_len message \<le> 3600")
  case True
  then show ?thesis
    by (auto simp: truncate_rejection_message_def truncate_middle_with_token_budget_def REJECTION_MESSAGE_MAX_TOKENS_def
        approx_bytes_for_tokens_def APPROX_BYTES_PER_TOKEN_def saturate_def)
next
  case False
  then have "1800 + 1800 < byte_len message" by simp
  then obtain h t and m :: rstr where "split_string message 1800 1800 = Some (saturate (length m), h, t)"
    using split_string_parts[of 1800 1800 message] by blast
  then show ?thesis using False
    by (auto simp: truncate_rejection_message_def truncate_middle_with_token_budget_def REJECTION_MESSAGE_MAX_TOKENS_def
        approx_bytes_for_tokens_def APPROX_BYTES_PER_TOKEN_def saturate_def truncate_with_byte_estimate_def split_budget_def)
qed

lemma cancelled_finish:
  assumes "is_cancelled s (deferred_token d)"
  shows "\<exists>m d' s'. deferred_finish d s = (Some (Err (Rejected m)), d', s')"
proof -
  obtain outcome s' where o: "(case deferred_finish_outcome d of Some outcome \<Rightarrow> (outcome, s) | None \<Rightarrow> remove_call (deferred_registration_id d) s) = (outcome, s')"
    by (meson surj_pair)
  have "is_cancelled s' (deferred_token d)"
    using o assms by (auto simp: is_cancelled_def remove_call_def split: option.splits)
  then obtain message where "or_else outcome (abandoned_network_approval_outcome s' (deferred_token d)) = Some message"
    by (cases outcome) (auto simp: or_else_def abandoned_network_approval_outcome_def)
  then show ?thesis using o rejection_total[of message]
    by (auto simp: deferred_finish_def network_approval_outcome_to_result_def)
qed


section \<open>Attribution and review\<close>

text \<open>
  A request is charged to a call only when that is certain: to the call of its execution, or, without an
  execution, to the only call that is running; and only in the environment of that call.
\<close>

theorem attribution_is_certain:
  assumes "resolve_request_attribution s req = Some att" "att_owner_call att = Some call"
  shows "(case nreq_execution_id req of
      Some execution_id \<Rightarrow> map_of (active_calls s) execution_id = Some call
    | None \<Rightarrow> (\<exists>execution_id. active_calls s = [(execution_id, call)])) \<and>
    att_environment_id att = Some (call_environment_id call) \<and>
    (\<forall>environment_id. nreq_environment_id req = Some environment_id \<longrightarrow> environment_id = call_environment_id call)"
proof (cases "nreq_execution_id req")
  case (Some execution_id)
  then show ?thesis using assms
    by (auto simp: resolve_request_attribution_def resolve_active_call_by_execution_id_def Let_def bind_eq_Some_conv
        split: if_splits option.splits)
next
  case None
  have single: "\<exists>execution_id. active_calls s = [(execution_id, c)]" if "resolve_active_call_attribution s = SingleCall c" for c
    using that by (auto simp: resolve_active_call_attribution_def split: list.splits prod.splits)
  show ?thesis using assms None
    by (auto simp: resolve_request_attribution_def dest: single
        split: option.splits active_network_approval_attribution.splits if_splits)
qed

text \<open>
  The branch for an invalid decision is not reached: what a request for the approval of network access returns
  is an approval or a denying amendment.
\<close>

theorem network_review_is_valid:
  fixes svc :: "('v, 'w) approval_services"
  assumes "request_approval svc (network_review_action ow) (network_review_context ow turn strict uuid) s = (Ok d, s')"
  shows "needs_commit_lock d"
proof -
  let ?action = "network_review_action ow :: 'v approval_action" and ?ctx = "network_review_context ow turn strict uuid"
  have net: "stdin_rejection ?action ?ctx = None" "\<not> is_mcp_action ?action"
    by (simp_all add: network_review_action_def Let_def stdin_rejection_def is_mcp_action_def)
  have "resolution_result (guardian_timeout_message svc) ?action (fst (resolve_request svc ?action ?ctx s)) = Ok d"
    using assms net(1) by (simp add: request_approval_def Let_def split: prod.splits if_splits)
  from resolution_result_Ok[OF this, THEN conjunct2] net(2) show ?thesis by (cases d) auto
qed

section \<open>Sample runs\<close>

text \<open>A schedule names the step to take next; playing it gives the events and the state, if every step is possible.\<close>

datatype 'u action = Step nat "'u step_input" | Arrive nat network_policy_request | Outside "'u outside_step"

fun act :: "network_environment \<Rightarrow> 'u action \<Rightarrow> 'u network_state \<Rightarrow> (net_event \<times> 'u network_state) option" where
  "act env (Step t inp) s =
     (case net_requests s t of
        None \<Rightarrow> None
      | Some p \<Rightarrow> map_option (\<lambda>(e, p', v). (e, \<lparr>net_service = v, net_requests = (net_requests s)(t \<mapsto> p')\<rparr>))
                     (advance env inp t p (net_service s)))"
| "act env (Arrive t req) s =
     (if net_requests s t = None then Some (Internal, s\<lparr>net_requests := (net_requests s)(t \<mapsto> Arrived req)\<rparr>) else None)"
| "act env (Outside out) s = Some (fst (outside out (net_service s)), s\<lparr>net_service := snd (outside out (net_service s))\<rparr>)"

fun play :: "network_environment \<Rightarrow> 'u action list \<Rightarrow> 'u network_state \<Rightarrow> (net_event list \<times> 'u network_state) option" where
  "play env [] s = Some ([], s)"
| "play env (a # as) s =
     (case act env a s of
        None \<Rightarrow> None
      | Some (e, s') \<Rightarrow> map_option (\<lambda>(es, s''). (e # es, s'')) (play env as s'))"

lemma act_steps: "act env a s = Some (e, s') \<Longrightarrow> net_step env s e s'"
  by (cases a) (auto split: option.splits if_splits intro: net_step.intros)

lemma play_steps: "play env as s = Some (es, s') \<Longrightarrow> net_steps env s es s'"
  by (induction as arbitrary: s es) (auto split: option.splits intro: net_steps.intros act_steps)

definition played :: "network_environment \<Rightarrow> 'u action list \<Rightarrow> 'u network_state" where
  "played env as = (case play env as network_start of Some (_, s) \<Rightarrow> s | None \<Rightarrow> network_start)"

lemma play_run:
  assumes "map_option fst (play env as network_start) = Some es"
  shows "net_run env es (played env as)"
proof -
  obtain s where "play env as network_start = Some (es, s)" using assms by (cases "play env as network_start") auto
  then show ?thesis using net_run_steps[OF play_steps run_start, of env as es s] by (simp add: played_def)
qed

definition sample_net_environment :: network_environment where
  "sample_net_environment = \<lparr>show_codex_err = (\<lambda>_. []), parses_as_ip = (\<lambda>_. False)\<rparr>"

definition sample_net_request :: "rstr option \<Rightarrow> network_policy_request" where
  "sample_net_request execution =
     \<lparr>nreq_protocol = NetHttp, nreq_host = lit ''H'', nreq_port = 80, nreq_environment_id = Some (lit ''e''), nreq_execution_id = execution\<rparr>"

definition sample_host_key :: host_approval_key where
  "sample_host_key = \<lparr>hak_environment_id = lit ''e'', hak_host = lit ''h'', hak_protocol = lit ''http'', hak_port = 80\<rparr>"

definition sample_question :: "rstr option \<Rightarrow> pending_host_approval_key" where
  "sample_question execution = \<lparr>phk_host = sample_host_key, phk_turn_id = lit ''t'', phk_execution_id = execution\<rparr>"

definition sample_turn :: "unit network_turn" where
  "sample_turn =
     \<lparr>turn_sub_id = lit ''t'', turn_primary_environment_id = None,
      turn_environment_profiles = [(lit ''e'', Managed ManagedUnrestricted NetworkEnabled)], turn_approval_policy = OnRequest\<rparr>"

definition sample_arrival :: "nat \<Rightarrow> rstr option \<Rightarrow> unit action list" where
  "sample_arrival t execution =
     [Arrive t (sample_net_request execution), Step t Go, Step t (ActiveTurn (Some sample_turn)), Step t Go, Step t Go]"

definition sample_review :: "(review_decision, tool_error) result \<Rightarrow> unit action list" where
  "sample_review r = [Step 0 Go, Step 0 (ReviewResult r)]"

definition waiting_run :: "unit action list" where
  "waiting_run = sample_arrival 0 None @ sample_arrival 1 None"

definition allowed_run :: "unit action list" where
  "allowed_run = waiting_run @ sample_review (Ok Approved) @ [Step 0 Go, Step 0 Go, Step 0 Go, Step 0 Go]"

definition sample_denial :: network_policy_amendment where
  "sample_denial = \<lparr>npa_host = lit ''h'', npa_action = NetworkDeny\<rparr>"

definition sample_persist :: persist_services where
  "sample_persist = \<lparr>refresh_lock_open = False, proxy_add_domain = None, append_network_rule = (\<lambda>_ _. Ok ())\<rparr>"

definition denied_run :: "unit action list" where
  "denied_run = waiting_run @ sample_review (Ok (NetworkPolicyAmendment sample_denial)) @
     [Step 0 Go, Step 0 (Persist sample_persist), Step 0 Go, Step 0 Go]"

definition sample_call :: "unit active_network_approval_call" where
  "sample_call = \<lparr>call_registration_id = lit ''x'', call_turn_id = lit ''t'', call_environment_id = lit ''e'',
     call_permission_profile = Managed ManagedUnrestricted NetworkEnabled, call_token = 7\<rparr>"

definition refused_run :: "unit action list" where
  "refused_run = Outside (Register sample_call) # sample_arrival 0 (Some (lit ''x'')) @ sample_review (Err (Rejected (lit ''no''))) @ [Step 0 Go]"

lemma waiting_run_events:
  "map_option fst (play sample_net_environment waiting_run network_start) =
     Some [Internal, Internal, Internal, Internal, Opened (sample_question None) 0, Internal, Internal, Internal, Internal, Internal]"
  by code_simp

definition sample_owner :: "unit active_network_approval_call option \<Rightarrow> unit pending_owner" where
  "sample_owner call =
     \<lparr>own_key = sample_question (map_option call_registration_id call), own_generation = 0, own_call = call,
      own_decision_on_drop = DenyPending, own_context = \<lparr>nac_host = lit ''H'', nac_protocol = ProtocolHttp\<rparr>,
      own_target = lit ''http://H:80''\<rparr>"

lemma waiting_run_requests:
  "net_requests (played sample_net_environment waiting_run) 0 = Some (Owning (sample_owner None) sample_turn)"
  "net_requests (played sample_net_environment waiting_run) 1 = Some (Waiting (sample_question None) 0)"
  by code_simp+

lemma one_question_at_a_time_witness:
  "pending_host_approvals (net_service (played sample_net_environment waiting_run)) (own_key (sample_owner None)) =
     Some (own_generation (sample_owner None))"
proof -
  have "owner_at (played sample_net_environment waiting_run) 0 (sample_owner None)"
    unfolding owner_at_def using waiting_run_requests(1) by auto
  then show ?thesis using one_question_at_a_time[OF play_run[OF waiting_run_events]] by blast
qed

lemma waiter_is_answered_witness:
  "\<exists>es s d. net_steps sample_net_environment (played sample_net_environment waiting_run) es s \<and>
     net_requests s 1 = Some (Answered (Some (to_network_decision d))) \<and> generation_decisions (net_service s) 0 = Some d"
  by (rule waiter_is_answered[OF play_run[OF waiting_run_events] waiting_run_requests(2)])

definition approval_events :: "net_event list" where
  "approval_events =
     [Internal, Internal, Internal, Internal, Opened (sample_question None) 0, Internal, Internal, Internal, Internal, Internal,
      Internal, ReviewAnswered (sample_question None) (Ok Approved) None, Internal,
      Resolved (sample_question None) Approved AllowOnce Approved, Internal]"

lemma allowed_run_events:
  "map_option fst (play sample_net_environment allowed_run network_start) =
     Some (approval_events @ Responded (Some sample_host_key) (Some (sample_question None)) NetAllow # [])"
  by code_simp

lemma allowed_access_was_approved_witness:
  "allowed_by sample_net_environment approval_events sample_host_key (Some (sample_question None))"
  using allowed_access_was_approved[OF play_run[OF allowed_run_events]] by simp

lemma session_sets_disjoint_witness:
  "session_approved_hosts (net_service (played sample_net_environment allowed_run)) \<inter>
     session_denied_hosts (net_service (played sample_net_environment allowed_run)) = {}"
  by (rule session_sets_disjoint[OF play_run[OF allowed_run_events]]) (simp add: approval_events_def)

definition denial_events :: "net_event list" where
  "denial_events =
     [Internal, Internal, Internal, Internal, Opened (sample_question None) 0, Internal, Internal, Internal, Internal, Internal,
      Internal, ReviewAnswered (sample_question None) (Ok (NetworkPolicyAmendment sample_denial)) None, Internal,
      PolicyPersisted (sample_question None) \<lparr>nac_host = lit ''H'', nac_protocol = ProtocolHttp\<rparr> sample_denial False, Internal]"

abbreviation sample_host_denied :: net_event where
  "sample_host_denied \<equiv> Resolved (sample_question None) (NetworkPolicyAmendment sample_denial) DenyPending (Denied (lit ''network approval was not applied''))"

lemma denied_run_events:
  "map_option fst (play sample_net_environment denied_run network_start) = Some (denial_events @ sample_host_denied # [])"
  by code_simp

lemma denial_holds_until_lifted_witness:
  "sample_host_key \<in> session_denied_hosts (net_service (played sample_net_environment denied_run))"
proof -
  let ?s = "played sample_net_environment denied_run"
  have "denies_host sample_host_key sample_host_denied" by (simp add: sample_question_def sample_denial_def)
  moreover have "net_requests ?s 2 = None" by code_simp
  ultimately show ?thesis
    using denial_holds_until_lifted[OF play_run[OF denied_run_events] _ _ arrival[of ?s 2]] by (metis empty_iff empty_set)
qed

definition sample_deferred :: deferred_network_approval where
  "sample_deferred = \<lparr>deferred_registration_id = lit ''x'', deferred_token = 7, deferred_finish_outcome = None\<rparr>"

lemma refused_run_events:
  "map_option fst (play sample_net_environment refused_run network_start) =
     Some [Internal, Internal, Internal, Internal, Internal, Opened (sample_question (Some (lit ''x''))) 0, Internal,
       ReviewAnswered (sample_question (Some (lit ''x''))) (Err (Rejected (lit ''no''))) (Some (Denied (lit ''network approval was rejected''))),
       Internal]"
  by code_simp


end
