(* ===== verification/Spec2Isabelle.thy ===== *)
theory Spec2Isabelle
  imports Turn_Diff_Tracker Invocation Exec_Policy_Parser Policy_Manager Head_Tail_Buffer
    Tool_Orchestrator Permission_Grants Network_Concurrency
begin

text \<open>
  A verification library for the Rust runtime of mathmodel-copilot, the Codex agent under
  \<open>src/codex-runtime/codex-rs\<close>. The runtime lets a language model edit files and run commands on a
  user's machine. The development models the parts of it that stand between the model and the
  machine: the patch pipeline, which turns text into file changes; the execution policy and the
  approval of commands, which decide whether a command may run; the sandbox policy, which decides what
  it may touch; the orchestrator, which takes a tool call through approval, sandbox and retry; the network
  approval service, which decides what a running command may reach; and the buffer that bounds what a
  command sends back.

  \<^bold>\<open>The parts and how they interact.\<close>

  \<^item> A patch arrives as text, whole or in pieces while the model is still writing. \<open>apply-patch\<close> parses
    it into hunks (\<open>parser.rs\<close>, \<open>streaming_parser.rs\<close>), finds for every chunk of an update where it
    belongs in the file (\<open>seek_sequence.rs\<close>, \<open>file_update.rs\<close>, \<open>text_file.rs\<close>), and applies the hunks
    one after the other to a file system, keeping a record of what changed (\<open>lib.rs\<close>). Before that,
    \<open>invocation.rs\<close> recognises a call of the tool in a command line and verifies it into the changes
    the user is asked to approve. \<open>core/src/turn_diff_tracker.rs\<close> accumulates the records of a turn
    and renders its net diff.
  \<^item> A command is checked against a policy (\<open>execpolicy/src/policy.rs\<close>, \<open>rule.rs\<close>), which is read from
    policy files (\<open>parser.rs\<close>), merged from several layers, and amended when the user approves a
    command for good (\<open>amend.rs\<close>, \<open>sandbox_migration.rs\<close>). Programs named by path are matched through
    \<open>utils/absolute-path\<close>.
  \<^item> \<open>core/src/exec_policy.rs\<close> puts the policy to use. A request to run a command is split into the
    plain commands of its shell script (\<open>shell-command/src/bash.rs\<close>, \<open>powershell.rs\<close>), each is checked
    against the policy, and a command no rule matches is judged by a heuristic: is it dangerous
    (\<open>command_safety\<close>), which permissions does the session have, what may the user be asked
    (\<open>protocol\<close>). The answer is to run it, to ask, or to refuse, with a rule to save for next time.
  \<^item> The policy of a session is loaded from the \<open>rules\<close> directories of the configuration layers
    (\<open>config/src/state.rs\<close>) and the required rules of an administrator (\<open>requirements_exec_policy.rs\<close>),
    and is replaced as a whole when a rule is saved.
  \<^item> What a command may read and write is a file system policy over \<open>file:\<close> URIs
    (\<open>protocol/src/permissions.rs\<close>, \<open>utils/path-uri\<close>). \<open>sandboxing\<close> merges granted permissions into it
    and chooses the platform sandbox.
  \<^item> \<open>core/src/tools/orchestrator.rs\<close> runs a tool call: it takes the requirement computed above, asks for
    approval (\<open>approvals.rs\<close>: hooks, the Guardian reviewer, the user, a cache of session approvals), makes
    the first attempt in the chosen sandbox and, after a denial by the sandbox, asks again and retries.
  \<^item> While a command runs, the network proxy asks \<open>core/src/tools/network_approval.rs\<close> about every host that
    no list decides. Requests arrive concurrently; the service finds the call a request belongs to, answers
    from the hosts of the session, or asks the reviewers once for all requests with the same question. The
    answer may be saved as a rule of the policy (\<open>core/src/session/mod.rs\<close>), and a refusal ends the call.
  \<^item> The output of a command that runs is kept in \<open>core/src/unified_exec/head_tail_buffer.rs\<close>.

  \<^bold>\<open>The theories.\<close> Each one declares the data and operations of its files in their order, under the names
  of the source, then what it specifies, then its lemmas.

  \<^item> \<open>Prelude\<close>: strings as lists of code points, \<open>Result\<close>, the parts of \<open>str\<close> and \<open>Vec\<close> in use. A panic
    is \<open>None\<close> of an \<open>option\<close>, and theorems that code does not panic state \<open>Some\<close>.
  \<^item> \<open>Patch_Types\<close>: chunks, hunks, markers and errors of \<open>apply-patch\<close>.
  \<^item> \<open>Seek_Sequence\<close>: the search for a sequence of lines, in four passes of growing tolerance. Shown: the
    strictest pass with any match wins, at its first position; failure means no pass matches.
  \<^item> \<open>Replacements\<close>, \<open>Text_File\<close>: replacing ranges of lines; splitting contents into lines with endings
    and joining them again. Shown: the round trip is the identity, and lines a replacement does not
    touch keep their endings. The contract between who computes replacements and who applies them is a
    locale, interpreted on both rewriters.
  \<^item> \<open>File_Update\<close>: from chunks to new contents, in both update modes. Shown: no panic for well-formed
    chunks, the effect of a chunk that occurs literally, agreement of the two rewriters.
  \<^item> \<open>Patch_Parser\<close>, \<open>Patch_Grammar\<close>: the streaming parser as a state machine over lines with its
    invariant, and the documented grammar as a syntax tree with a printer. Shown: feeding the text in
    any pieces gives the same result, parsing a printed patch gives its meaning, results are complete,
    heredocs are unwrapped, error lines exist.
  \<^item> \<open>Apply_Patch\<close>: hunks applied to an arbitrary file system, the record \<open>executor_file_system\<close> of
    its calls, whose documented behaviour is the hypothesis \<open>text_fs\<close>. Shown: an exact delta describes
    the change precisely, on success and on every failure; no input or file system makes it panic.
  \<^item> \<open>Turn_Diff_Tracker\<close>: Shown: the tracker follows the files through a turn, the cached rendering
    equals a fresh one, unchanged files give no diff. The line differ and the blob hash are parameters.
  \<^item> \<open>Invocation\<close>: Shown: what is applied is what was approved, only explicit calls are verified, and
    verification returns on every command line. The Bash parser is a parameter.
  \<^item> \<open>Absolute_Path\<close>: paths made absolute and normal without looking at the disk, on POSIX hosts.
  \<^item> \<open>Exec_Policy\<close>: rules, policies, evaluation. The multimap crate is a locale with the laws of its
    documentation; the merge lemma is proved in it. Shown: a check gives a verdict and the strictest
    one, merging only tightens, the index is equivalent to a scan, basename rules reach declared
    paths only, the compiled network lists obey the last rule, normalised hosts are plain.
  \<^item> \<open>Exec_Policy_Parser\<close>: the builtins of policy files and the checking of their examples. The Starlark
    interpreter is a parameter that gives the calls a program makes. Shown: a rule adds exactly its
    pattern, the builder stays well formed through every failure, examples of a parsed file are true.
  \<^item> \<open>Exec_Policy_Amend\<close>: saving and removing rules in policy files, with the file system and JSON as
    parameters. Shown: a rule is saved once, the migration removes exactly the banned rules, once.
  \<^item> \<open>Shell_Syntax\<close>: \<open>bash.rs\<close> and \<open>shell_detect.rs\<close>: the strict reading of a script into plain commands
    and the lenient one for the search for dangers, over Tree-sitter trees. Shown: the strict reading
    accepts literal commands only, and the lenient one finds every command of the strict one.
  \<^item> \<open>PowerShell_Syntax\<close>: \<open>powershell.rs\<close>, \<open>powershell_tree_sitter.rs\<close>. Shown: what is lowered is literal
    and covers the script; quoted words are read back exactly.
  \<^item> \<open>Windows_Commands\<close>, \<open>Dangerous_Command\<close>: the files of \<open>command_safety\<close>. Shown: a command is reported
    exactly when unwrapping shells, \<open>env\<close>, \<open>exec\<close>, \<open>trap\<close> and the like reaches a dangerous one or
    does not end within the depth limit.
  \<^item> \<open>Permissions\<close>: approval and sandbox permissions of \<open>protocol\<close>. Shown: replacing the allow side of a
    policy keeps all denied reads.
  \<^item> \<open>Exec_Approval\<close>: from a request to its requirement. Shown: every request is answered; one that runs
    unasked has every part allowed; a forbidding rule is final; the user is asked only if the approval
    policy permits it; proposed rules are justified; ignored rules grant nothing.
  \<^item> \<open>Config_Layers\<close>: the sources of configuration, their precedence and the stack of layers. Shown: every
    stack the program builds is ordered, and exchanging user layers changes nothing else.
  \<^item> \<open>Requirements_Policy\<close>: the required rules of a requirements file. Shown: an accepted file reports
    exactly the matches of its patterns and allows nothing; errors name the first faulty rule.
  \<^item> \<open>Policy_Manager\<close>: collecting and loading the policy files of a stack, merging requirements and
    saved rules. Shown: requirements bind however loading ends, an amendment is in force and on disk,
    higher layers only add rules, a child shares the policy of its parent only if it would load the
    same, and a rule for a path can shadow a required rule for a basename.
  \<^item> \<open>Path_Uri\<close>: URIs of paths under POSIX and Windows conventions, their parts, containment and joining.
    The crate \<open>url\<close> and the codecs are the record \<open>url_library\<close> with the laws \<open>url_laws\<close>. The containment
    order is a locale, interpreted on the POSIX URIs.
  \<^item> \<open>Path_Text\<close>: \<open>api_path_string.rs\<close>, \<open>config_path.rs\<close>: URIs written as native paths and read back, and the
    paths of configuration files. Shown: the round trip of POSIX paths; UTF-8 is decoded right.
  \<^item> \<open>Sandbox_Access\<close>: from the entries of a policy to the access a path has. Shown: the deepest entry
    decides, the shortcut for full-disk writes is right, metadata directories stay protected up to
    an order dependence that is exhibited, carrying denied reads over grants nothing.
  \<^item> \<open>Sandbox_Manager\<close>: additional permissions, the effective profile, choice of the sandbox, when it may
    be left. Shown: grants keep all denials; no sandbox means nothing to enforce.
  \<^item> \<open>Permission_Grants\<close>: the rest of \<open>policy_transforms.rs\<close> and the matcher of denied reads: permissions made
    concrete for an executor, and the intersection of what was requested with what was granted. Shown:
    making entries concrete keeps their meaning, the intersection stays within the request and the grant,
    except that read-only entries of a request are lost, which is exhibited; denials fail closed.
  \<^item> \<open>Tool_Approvals\<close>: requests for approval and the approval cache. Shown: only approvals pass; the
    cache answers only what somebody approved, and remembers it; a key identifies a command unless a
    reserved marker is used as a word, and with it keys do collide.
  \<^item> \<open>Tool_Orchestrator\<close>: the run of a tool call over a session that records decisions and attempts in
    order. Shown: refused calls are not attempted, the first attempt and the retry are authorised,
    denied reads keep the sandbox.
  \<^item> \<open>Text_Truncation\<close>: \<open>utils/string/src/truncate.rs\<close>, which shortens messages. Shown: the result keeps a
    beginning and an end of the text within the budget, on character boundaries; the marker is extra.
  \<^item> \<open>Network_Approval\<close>: the network approval service. The record \<open>network_approval_service\<close> is its shared
    state; the handler of a request, \<open>handle_inline_policy_request\<close>, is cut at its waits and
    locks into the points of \<open>request_point\<close>, and \<open>advance\<close> is one step between two of them. What others decide
    (reviewers, the proxy, the end of a connection) is the input of the step.
  \<^item> \<open>Network_Concurrency\<close>: any number of requests, any interleaving, as the step relation \<open>net_step\<close>. The pending
    questions refine an abstract board of questions, the locale \<open>board_client\<close>, interpreted on the runs
    of the service. Shown by induction over runs: one question at a time; no waiting request is forgotten;
    access is allowed only after an approval; a denial for the session holds until it is lifted; a
    refused call ends with an error; attribution never guesses between calls.
  \<^item> This theory: the composition. A command that a rule forbids is never attempted, and a dangerous one
    only after somebody approved it.
  \<^item> \<open>Head_Tail_Buffer\<close>: Shown: the buffer is the head and tail of the output, whatever the chunks, and
    stays within its budget.

  \<^bold>\<open>Parameters and bounds.\<close> Code that is not in the repository is an argument of the definitions that
  call it, with what is relied on as a named hypothesis and a concrete instance in the witnesses: file
  systems, path conventions, line diffs and hashes, Tree-sitter, Starlark, shlex, JSON, URLs.
  Locks, set-once cells and cancellation tokens are the standard ones: a lock has at most one holder, a
  cell keeps its first value, a cancelled token stays cancelled. So are the
  tools, the reviewers and the network service a run calls; they may change the rest of the session, a
  type variable, in any way. Loops are structural recursion or functions with a termination proof;
  the one bound is that of \<open>ancestors_upto\<close>, the number of segments of the URI, which
  \<open>clean_ancestors\<close> shows to reach the root. Indices and lengths
  are natural numbers; they are bounded by the length of inputs in memory, so \<open>usize\<close> does not
  overflow, and subtractions below zero are panics where the code does not guard them.

  \<^bold>\<open>Not modelled.\<close> The JavaScript server and the Python workflow of the repository, the user interfaces,
  the app server and its protocol types, the platform sandboxes, network proxy, model clients and storage
  of the runtime: they are input and output, generated types, or glue around services. Concurrency is
  modelled for the requests to the network approval service; elsewhere file locks and asynchronous calls
  appear as calls in sequence. The
  build is the Unix one: Windows path forms of \<open>AbsolutePathBuf\<close> are left out, while checks of
  Windows commands, which run on every host, are modelled. Of the file
  system permissions the legacy policies and what reads the disk are left out; of \<open>sandboxing\<close> the
  command lines of the platform sandboxes; of the approvals the Guardian
  model, the prompts and the permission requests; of the network service the construction of
  the proxy of a call and the messages to the user; of the configuration the merging of TOML tables and the texts of error messages.
\<close>

section \<open>From a command line to its attempts\<close>

text \<open>
  C1: A command that a rule forbids is never attempted. If a shell call contains a command that some rule of
  the policy in force forbids, and the tool reports the requirement computed for the call, then its run
  ends with a rejection and changes nothing, whatever the approval policy, the reviewers, the sandbox and
  the other rules say.
\<close>

theorem forbidden_command_never_attempted:
  assumes "cmd \<in> set (parsed_commands (shell_policy_commands tools (req_command req) configured_shell mode platform))"
    and "m \<in> set (matched_rules_of paths (effective_policy mgr req) True cmd)" and "match_decision m = Forbidden"
    and "tool_exec_approval_requirement tool =
      create_exec_approval_requirement_for_shell tools paths mgr req configured_shell mode platform"
  shows "\<exists>message. orchestrator_run svc net tool env oc s = (Err (Rejected message), s)"
proof -
  obtain reason where "tool_exec_approval_requirement tool = Some (Refused reason)"
    using forbidden_shell_refused[OF assms(1-3)] assms(4) by auto
  then show ?thesis by (intro refused_run[of _ _ _ reason]) (simp add: run_requirement_def)
qed


section \<open>Sample calls\<close>

definition request_tool :: "exec_approval_requirement option \<Rightarrow> (sample_url, unit, unit, unit) tool_runtime" where
  "request_tool requirement = (sample_tool (Skip False None))\<lparr>tool_exec_approval_requirement := requirement\<rparr>"

lemma forbidden_command_never_attempted_witness:
  "\<exists>message. orchestrator_run (sample_services None Approved) sample_network
     (request_tool (create_exec_approval_requirement_for_shell sample_tools sample_env (manager_new forbid_policy)
       (sample_request OnRequest Honor) [] ZshFork Posix))
     (sample_environment Read) sample_orchestrator_context start_session = (Err (Rejected message), start_session)"
proof (rule forbidden_command_never_attempted[where req = "sample_request OnRequest Honor" and tools = sample_tools
      and cmd = git_status and m = "PrefixRuleMatch git_status Forbidden None None"])
  have c: "req_command (sample_request OnRequest Honor) = git_status" by (simp add: sample_request_def)
  show "git_status \<in> set (parsed_commands (shell_policy_commands sample_tools (req_command (sample_request OnRequest Honor)) [] ZshFork Posix))"
    unfolding c sample_commands by simp
  show "PrefixRuleMatch git_status Forbidden None None
      \<in> set (matched_rules_of sample_env (effective_policy (manager_new forbid_policy) (sample_request OnRequest Honor)) True git_status)"
    unfolding sample_policy_of forbid_policy_matches by simp
qed (simp_all add: request_tool_def)

abbreviation forced_removal :: "rstr list" where "forced_removal \<equiv> [lit ''rm'', lit ''-rf'', lit ''/'']"

definition removal_request :: "unit exec_approval_request" where
  "removal_request = (sample_request OnRequest Honor)\<lparr>req_command := forced_removal\<rparr>"

lemma removal_commands:
  "shell_policy_commands sample_tools forced_removal [] ZshFork Posix = \<lparr>parsed_commands = [forced_removal], parsed_origin = Generic\<rparr>"
proof -
  have "lit ''-rf'' \<noteq> lit ''-lc''" "lit ''-rf'' \<noteq> lit ''-c''" by (simp_all add: lit_def)
  then show ?thesis
    by (simp add: shell_policy_commands_def shell_approval_command_def commands_for_exec_policy_for_platform_def
        parse_shell_lc_plain_commands_def extract_bash_command_def)
qed

lemma removal_policy: "effective_policy (manager_new p) removal_request = p"
  by (simp add: removal_request_def effective_policy_def current_for_environment_def current_for_prefix_rules_def manager_new_def sample_request_def)

lemma removal_dangerous: "dangerous_command_match_for_origin sample_tools forced_removal Generic Posix = Some ForcedRm"
proof -
  have "rm_args_include_force_option [lit ''-rf'', lit ''/'']"
    using sample_forced_rm unfolding forced_rm_iff by simp
  then show ?thesis
    by (simp add: dangerous_command_match_for_origin_def dangerous_command_match_for_platform_def forced_rm_here)
qed

lemma removal_asks:
  "create_exec_approval_requirement_for_shell sample_tools sample_env (manager_new policy_empty)
     removal_request [] ZshFork Posix = Some (NeedsApproval None (Some forced_removal))"
proof -
  obtain r where r: "create_exec_approval_requirement_for_shell sample_tools sample_env (manager_new policy_empty)
     removal_request [] ZshFork Posix = Some r" using shell_requirement_exists by blast
  have c: "req_command removal_request = forced_removal" by (simp add: removal_request_def)
  from r obtain ev cmd where
    ev: "request_evaluation sample_tools sample_env (manager_new policy_empty) removal_request
      \<lparr>parsed_commands = [forced_removal], parsed_origin = Generic\<rparr> Posix = Some ev"
    and q: "r = requirement_for_evaluation sample_tools sample_env policy_empty (removal_request\<lparr>req_command := cmd\<rparr>)
      \<lparr>parsed_commands = [forced_removal], parsed_origin = Generic\<rparr> Posix ev"
    by (rule shell_requirement_cases) (simp add: c removal_commands removal_policy)
  have "exec_policy_fallback sample_tools removal_request Generic Posix forced_removal = Prompt"
    by (simp add: exec_policy_fallback_def render_decision_for_unmatched_command_for_platform_def
        removal_dangerous removal_request_def sample_request_def requests_sandbox_override_def)
  then have "ev = \<lparr>eval_decision = Prompt, matched_rules = [HeuristicsRuleMatch forced_removal Prompt]\<rparr>"
    using ev by (simp add: removal_policy check_multiple_with_options_def from_matches_Some_iff matches_with_fallback empty_policy_matches)
  then have "r = NeedsApproval None (Some forced_removal)"
    unfolding q by (simp add: requirement_for_evaluation_def Let_def derive_prompt_reason_def max_by_key_def List.map_filter_def
        derive_requested_execpolicy_amendment_from_prefix_rule_def try_derive_execpolicy_amendment_for_prompt_rules_def
        removal_request_def sample_request_def removal_dangerous)
  with r show ?thesis by simp
qed

definition removal_run :: "(unit \<times> rstr option, tool_error) result \<times> (sample_url, unit, unit) session" where
  "removal_run = orchestrator_run (sample_services None Approved) sample_network
     (sample_tool (NeedsApproval None (Some forced_removal))) (sample_environment Read) sample_orchestrator_context start_session"

lemma removal_run_events:
  "events (snd removal_run) = [ToolDecision Approved UserSource, Attempted (sample_first Read),
     Attempted sample_second, SandboxOutcome (lit ''escalated'')]"
  by code_simp


end
